(* ===== verification/Prelude.thy ===== *)
theory Prelude
  imports Main "HOL-Library.Word" "HOL-Library.Monad_Syntax"
begin

text \<open>
  Shared vocabulary of the development: the machine integers of the C sources as words, pointers as
  32-bit addresses with \<open>0\<close> for NULL, the relational abstraction of an intrusive singly linked list
  (\<open>lseg\<close>, \<open>llist\<close>), stable insertion by key (the abstract counterpart of the ordered queues), and the
  collections of simplification rules the component theories extend.
\<close>

section \<open>Types of the C sources\<close>

type_synonym u8 = "8 word"
type_synonym u16 = "16 word"
type_synonym u32 = "32 word"

text \<open>A pointer is its address; \<open>0\<close> is NULL.\<close>

type_synonym ptr = "32 word"

named_theorems frame_simps \<open>what an operation leaves unchanged\<close>
named_theorems queue_simps \<open>characteristic equations of the list operations behind the queues\<close>
named_theorems eval_simps \<open>equations of the loops and operations, for evaluation on concrete states\<close>

section \<open>Linked lists in a store\<close>

text \<open>
  \<open>lseg nx p xs q\<close>: following the link function \<open>nx\<close> from \<open>p\<close> visits exactly the non-NULL nodes \<open>xs\<close>
  and arrives at \<open>q\<close>. A NULL-terminated list is a segment that ends in \<open>0\<close>.
\<close>

primrec lseg :: "(ptr \<Rightarrow> ptr) \<Rightarrow> ptr \<Rightarrow> ptr list \<Rightarrow> ptr \<Rightarrow> bool" where
  "lseg nx p [] q \<longleftrightarrow> p = q"
| "lseg nx p (x # xs) q \<longleftrightarrow> p = x \<and> x \<noteq> 0 \<and> lseg nx (nx x) xs q"

definition llist :: "(ptr \<Rightarrow> ptr) \<Rightarrow> ptr \<Rightarrow> ptr list \<Rightarrow> bool" where
  "llist nx p xs \<longleftrightarrow> lseg nx p xs 0"

lemma llist_simps [simp]:
  "llist nx p [] \<longleftrightarrow> p = 0"
  "llist nx p (x # xs) \<longleftrightarrow> p = x \<and> x \<noteq> 0 \<and> llist nx (nx x) xs"
  by (simp_all add: llist_def)

lemma llist_NULL [simp]: "llist nx 0 xs \<longleftrightarrow> xs = []"
  by (cases xs) auto

lemma lseg_append [simp]:
  "lseg nx p (xs @ ys) q \<longleftrightarrow> (\<exists>r. lseg nx p xs r \<and> lseg nx r ys q)"
  by (induction xs arbitrary: p) auto

lemma llist_append [simp]:
  "llist nx p (xs @ ys) \<longleftrightarrow> (\<exists>r. lseg nx p xs r \<and> llist nx r ys)"
  by (simp add: llist_def)

lemma lseg_upd [simp]: "a \<notin> set xs \<Longrightarrow> lseg (nx(a := v)) p xs q = lseg nx p xs q"
  by (induction xs arbitrary: p) auto

lemma llist_upd [simp]: "a \<notin> set xs \<Longrightarrow> llist (nx(a := v)) p xs = llist nx p xs"
  by (simp add: llist_def)

lemma lseg_cong_on:
  "(\<And>x. x \<in> set xs \<Longrightarrow> nx' x = nx x) \<Longrightarrow> lseg nx' p xs q = lseg nx p xs q"
  by (induction xs arbitrary: p) auto

lemma llist_cong_on:
  "(\<And>x. x \<in> set xs \<Longrightarrow> nx' x = nx x) \<Longrightarrow> llist nx' p xs = llist nx p xs"
  unfolding llist_def by (rule lseg_cong_on)

lemma llist_nonnull: "llist nx p xs \<Longrightarrow> 0 \<notin> set xs"
  by (induction xs arbitrary: p) auto

lemma llist_unique: "llist nx p xs \<Longrightarrow> llist nx p ys \<Longrightarrow> xs = ys"
proof (induction xs arbitrary: p ys)
  case Nil
  then show ?case by auto
next
  case (Cons x xs)
  then show ?case by (cases ys) auto
qed

lemma llist_node_not_later:
  assumes "llist nx (nx x) xs"
  shows "x \<notin> set xs"
proof
  assume "x \<in> set xs"
  then obtain as bs where "xs = as @ x # bs" by (auto simp: in_set_conv_decomp)
  with assms have "llist nx (nx x) bs" by auto
  with assms have "xs = bs" by (rule llist_unique)
  with \<open>xs = as @ x # bs\<close> show False by simp
qed

lemma llist_distinct: "llist nx p xs \<Longrightarrow> distinct xs"
  by (induction xs arbitrary: p) (auto dest: llist_node_not_later)

lemma llist_insert_after:
  assumes "llist nx p (as @ c # bs)" and "t \<noteq> 0" and "t \<notin> set (as @ c # bs)"
  shows "llist (nx(t := nx c, c := t)) p (as @ c # t # bs)"
proof -
  have "distinct (as @ c # bs)" using assms(1) by (rule llist_distinct)
  with assms show ?thesis by auto
qed

lemma llist_remove_after:
  assumes "llist nx p (as @ c # t # bs)"
  shows "llist (nx(c := nx t, t := v)) p (as @ c # bs)"
proof -
  have "distinct (as @ c # t # bs)" using assms by (rule llist_distinct)
  with assms show ?thesis by auto
qed

section \<open>Stable insertion by key\<close>

text \<open>
  The abstract counterpart of the ordered task queues: a new element goes behind every element whose
  key is not larger, up to the first larger one. On a list sorted by key this is sorted insertion
  that is first-in first-out among equal keys.
\<close>

fun insert_by :: "('a \<Rightarrow> 'k::linorder) \<Rightarrow> 'a \<Rightarrow> 'a list \<Rightarrow> 'a list" where
  "insert_by f x [] = [x]"
| "insert_by f x (y # ys) = (if f x < f y then x # y # ys else y # insert_by f x ys)"

abbreviation sorted_by :: "('a \<Rightarrow> 'k::linorder) \<Rightarrow> 'a list \<Rightarrow> bool" where
  "sorted_by f xs \<equiv> sorted_wrt (\<lambda>x y. f x \<le> f y) xs"

lemma set_insert_by [simp, queue_simps]: "set (insert_by f x ys) = insert x (set ys)"
  by (induction ys) auto

lemma insert_by_not_Nil [simp]: "insert_by f x ys \<noteq> []"
  by (cases ys) auto

lemma distinct_insert_by [queue_simps]:
  "distinct (insert_by f x ys) \<longleftrightarrow> x \<notin> set ys \<and> distinct ys"
  by (induction ys) auto

lemma insert_by_cong:
  "(\<And>y. y \<in> insert x (set ys) \<Longrightarrow> f y = g y) \<Longrightarrow> insert_by f x ys = insert_by g x ys"
  by (induction ys) auto

lemma sorted_insert_by: "sorted_by f ys \<Longrightarrow> sorted_by f (insert_by f x ys)"
  by (induction ys) (auto intro: order.trans)

lemma insert_by_takeWhile:
  "insert_by f x ys =
     takeWhile (\<lambda>y. f y \<le> f x) ys @ x # dropWhile (\<lambda>y. f y \<le> f x) ys"
  by (induction ys) (auto simp: not_le)

lemma filter_insert_by_eq:
  "sorted_by f ys \<Longrightarrow>
   filter (\<lambda>y. f y = f x) (insert_by f x ys) = filter (\<lambda>y. f y = f x) ys @ [x]"
proof (induction ys)
  case (Cons a ys)
  have "f x < f a \<Longrightarrow> filter (\<lambda>y. f y = f x) ys = []"
    using Cons.prems by (auto simp: filter_empty_conv)
  with Cons show ?case by auto
qed simp

lemma filter_insert_by_other:
  "c \<noteq> f x \<Longrightarrow> filter (\<lambda>y. f y = c) (insert_by f x ys) = filter (\<lambda>y. f y = c) ys"
  by (induction ys) auto

lemma sorted_by_hd_le: "sorted_by f (x # xs) \<Longrightarrow> y \<in> set (x # xs) \<Longrightarrow> f x \<le> f y"
  by auto

lemma sorted_by_cong:
  "(\<And>x. x \<in> set xs \<Longrightarrow> f x = g x) \<Longrightarrow> sorted_by f xs = sorted_by g xs"
  by (induction xs) auto

lemma sorted_by_remove1: "sorted_by f xs \<Longrightarrow> sorted_by f (remove1 x xs)"
  by (induction xs) (auto dest: notin_set_remove1)

lemma takeWhile_eq_filter_by:
  "sorted_by f xs \<Longrightarrow> takeWhile (\<lambda>x. f x \<le> c) xs = filter (\<lambda>x. f x \<le> c) xs"
proof (induction xs)
  case (Cons a xs)
  have "f a \<le> c" if "x \<in> set xs" "f x \<le> c" for x using Cons.prems that by (auto intro: order.trans)
  then have "\<not> f a \<le> c \<Longrightarrow> filter (\<lambda>x. f x \<le> c) xs = []" by (auto simp: filter_empty_conv)
  with Cons show ?case by auto
qed simp

lemma dropWhile_eq_filter_by:
  "sorted_by f xs \<Longrightarrow> dropWhile (\<lambda>x. f x \<le> c) xs = filter (\<lambda>x. c < f x) xs"
proof (induction xs)
  case (Cons a xs)
  have "c < f x" if "x \<in> set xs" "c < f a" for x using Cons.prems that by (auto intro: less_le_trans)
  then have "c < f a \<Longrightarrow> filter (\<lambda>x. c < f x) xs = xs" by (auto simp: filter_id_conv)
  with Cons show ?case by (auto simp: not_le)
qed simp

section \<open>Options\<close>

lemma bind_eq_Some [simp]:
  "Option.bind x f = Some y \<longleftrightarrow> (\<exists>z. x = Some z \<and> f z = Some y)"
  by (cases x) auto

section \<open>Words\<close>

lemma unat_lt2p: "unat (w::'a::len word) < 2 ^ LENGTH('a)"
  by (rule unsigned_less)

lemma unat_Suc_pred: "unat w = Suc n \<Longrightarrow> w \<noteq> 0 \<and> unat (w - 1) = n"
  using unat_minus_one [of w] by (cases "w = 0") auto

lemma unat_next: "i < (n :: 'a::len word) \<Longrightarrow> unat (i + 1) = Suc (unat i)"
proof -
  assume "i < n"
  then have "unat i < unat n" by (simp add: word_less_nat_alt)
  then have "unat i + 1 < 2 ^ LENGTH('a)" using unat_lt2p [of n] by linarith
  then show ?thesis by (simp add: unat_word_ariths)
qed

text \<open>The sign of a 32-bit difference, as in \<open>(int32_t)(a - b) >= 0\<close>.\<close>

lemma sint_nonneg_iff: "0 \<le> sint (w::32 word) \<longleftrightarrow> unat w < 2 ^ 31"
proof -
  have "sint w < 0 \<longleftrightarrow> bit w 31" using bit_last_iff [of w] by simp
  also have "\<dots> \<longleftrightarrow> bit (unat w) 31" by (simp add: bit_unsigned_iff)
  also have "\<dots> \<longleftrightarrow> odd (unat w div 2 ^ 31)" by (simp add: bit_iff_odd)
  also have "\<dots> \<longleftrightarrow> \<not> unat w < 2 ^ 31"
  proof -
    have "unat w < 2 ^ 32" using unsigned_less [of w] by simp
    then have "unat w div 2 ^ 31 = (if unat w < 2 ^ 31 then 0 else 1)" by auto
    then show ?thesis by simp
  qed
  finally show ?thesis by linarith
qed

lemma sint_unat:
  "sint (w :: 32 word) = (if unat w < 2 ^ 31 then int (unat w) else int (unat w) - 2 ^ 32)"
proof -
  have r: "- (2 ^ 31) \<le> sint w" "sint w < 2 ^ 31" using sint_ge [of w] sint_lt [of w] by simp_all
  have u: "int (unat w) = sint w mod 2 ^ 32" using uint_word_of_int [of "sint w", where 'a = 32] by simp
  show ?thesis
  proof (cases "0 \<le> sint w")
    case True
    then show ?thesis using u r sint_nonneg_iff [of w] by (simp add: mod_pos_pos_trivial)
  next
    case False
    have "sint w mod 2 ^ 32 = (sint w + 2 ^ 32) mod 2 ^ 32" by simp
    also have "\<dots> = sint w + 2 ^ 32" using False r by (intro mod_pos_pos_trivial) simp_all
    finally show ?thesis using u False sint_nonneg_iff [of w] by simp
  qed
qed

section \<open>Widening of machine integers\<close>

lemma unat_ucast_widen:
  "LENGTH('a::len) \<le> LENGTH('b::len) \<Longrightarrow> unat (ucast (w :: 'a word) :: 'b word) = unat w"
  using less_le_trans [OF unat_lt2p [of w] power_increasing [of "LENGTH('a)" "LENGTH('b)" "2 :: nat"]]
  by (simp add: unsigned_ucast_eq take_bit_nat_eq_self)

lemma unat_ucast_u8 [simp]:
  "unat (ucast (b :: u8) :: u16) = unat b" "unat (ucast (b :: u8) :: u32) = unat b"
  by (simp_all add: unat_ucast_widen)

lemma unat_ucast_u16 [simp]: "unat (ucast (h :: u16) :: u32) = unat h"
  by (simp add: unat_ucast_widen)

lemma no_high_bit:
  fixes w :: "'a::len word"
  assumes "unat w < 2 ^ k" "k \<le> i"
  shows "\<not> bit w i"
proof -
  have "unat w < 2 ^ i" using assms by (meson less_le_trans one_le_numeral power_increasing)
  then have "\<not> bit (unat w) i" by (simp add: bit_iff_odd)
  then show ?thesis by (auto simp: bit_unsigned_iff dest: bit_imp_le_length)
qed

end
