(* ===== verification/Task_Queue.thy ===== *)
theory Task_Queue
  imports Prelude
begin

text \<open>
  Task control blocks (\<^verbatim>\<open>include/kernel/tcb.h\<close>) and the intrusive task queues of
  \<^verbatim>\<open>source/kernel/scheduler.c\<close> and \<^verbatim>\<open>source/kernel/sleep.c\<close>: FIFO push and pop, the priority ordered
  queue with its removal and reordering, and the tick ordered sleep queue. The operations work on the
  \<open>next\<close> pointers in a store of TCBs exactly as the C code does; \<open>queue_rep\<close> relates a queue in a
  store to the list of its tasks, and each operation is shown to refine the corresponding list
  operation. The contract of an ordered queue is the locale \<open>ordered_task_queue\<close>, interpreted for
  the priority queue and for the sleep queue.
\<close>

section \<open>Data\<close>

datatype task_state_t = TASK_UNUSED | TASK_READY | TASK_RUNNING | TASK_BLOCKED
  | TASK_SUSPENDED | TASK_SLEEPING | TASK_FINISHED

datatype wait_type_t = NONE | SEM | MUTEX

record tcb_t =
  tcb_sp :: u32
  tcb_state :: task_state_t
  base_priority :: u8
  effective_priority :: u8
  stack_base :: u32
  stack_size :: u32
  tcb_next :: ptr
  tcb_name :: ptr
  tcb_function :: u32
  tcb_args :: u32
  unprivileged :: u8
  wake_tick :: u32
  waiting_on :: ptr
  waiting_on_type :: wait_type_t
  owned_mutexes :: ptr

record tcb_list_t =
  q_head :: ptr
  q_tail :: ptr

text \<open>The memory that holds the TCBs, by address.\<close>

type_synonym tstore = "ptr \<Rightarrow> tcb_t"

definition set_next :: "ptr \<Rightarrow> ptr \<Rightarrow> tstore \<Rightarrow> tstore" where
  "set_next p n ts = ts(p := (ts p)\<lparr>tcb_next := n\<rparr>)"

definition links :: "tstore \<Rightarrow> ptr \<Rightarrow> ptr" where
  "links ts = (\<lambda>x. tcb_next (ts x))"

section \<open>Operations\<close>

definition queue_pop :: "tcb_list_t \<Rightarrow> tstore \<Rightarrow> ptr \<times> tcb_list_t \<times> tstore" where
  "queue_pop q ts =
     (let ret = q_head q in
      if ret = 0 then (0, q, ts)
      else
        let q = q\<lparr>q_head := tcb_next (ts (q_head q))\<rparr>;
            q = (if q_head q = 0 then q\<lparr>q_tail := 0\<rparr> else q)
        in (ret, q, set_next ret 0 ts))"

definition queue_push :: "tcb_list_t \<Rightarrow> ptr \<Rightarrow> tstore \<Rightarrow> tcb_list_t \<times> tstore" where
  "queue_push q task ts =
     (if q_tail q = 0 then (\<lparr>q_head = task, q_tail = task\<rparr>, ts)
      else (q\<lparr>q_tail := task\<rparr>, set_next (q_tail q) task ts))"

text \<open>
  The scan of both ordered pushes: advance while there is a next task whose key is not larger. On a
  cyclic list of small keys the loop does not end, which is the value \<open>None\<close>.
\<close>

partial_function (option) insert_point ::
    "(tcb_t \<Rightarrow> 'k::linorder) \<Rightarrow> 'k \<Rightarrow> tstore \<Rightarrow> ptr \<Rightarrow> ptr option" where
  "insert_point key k ts current =
     (if tcb_next (ts current) \<noteq> 0 \<and> key (ts (tcb_next (ts current))) \<le> k
      then insert_point key k ts (tcb_next (ts current))
      else Some current)"

definition priority_queue_push :: "tcb_list_t \<Rightarrow> ptr \<Rightarrow> tstore \<Rightarrow> (tcb_list_t \<times> tstore) option" where
  "priority_queue_push q task ts =
     (let ts = set_next task 0 ts in
      if q_head q = 0 then Some (\<lparr>q_head = task, q_tail = task\<rparr>, ts)
      else if effective_priority (ts task) < effective_priority (ts (q_head q))
      then Some (q\<lparr>q_head := task\<rparr>, set_next task (q_head q) ts)
      else do {
        current \<leftarrow> insert_point effective_priority (effective_priority (ts task)) ts (q_head q);
        let ts = set_next task (tcb_next (ts current)) ts;
        let ts = set_next current task ts;
        Some (if tcb_next (ts task) = 0 then q\<lparr>q_tail := task\<rparr> else q, ts)
      })"

definition priority_queue_pop :: "tcb_list_t \<Rightarrow> tstore \<Rightarrow> ptr \<times> tcb_list_t \<times> tstore" where
  "priority_queue_pop q ts =
     (let task = q_head q in
      if task = 0 then (0, q, ts)
      else
        let q = q\<lparr>q_head := tcb_next (ts task)\<rparr>;
            q = (if q_head q = 0 then q\<lparr>q_tail := 0\<rparr> else q)
        in (task, q, set_next task 0 ts))"

partial_function (option) remove_from ::
    "tcb_list_t \<Rightarrow> ptr \<Rightarrow> tstore \<Rightarrow> ptr \<Rightarrow> (tcb_list_t \<times> tstore) option" where
  "remove_from q task ts prev =
     (if tcb_next (ts prev) = 0 then Some (q, ts)
      else if tcb_next (ts prev) = task
      then Some (if q_tail q = task then q\<lparr>q_tail := prev\<rparr> else q,
                 set_next task 0 (set_next prev (tcb_next (ts task)) ts))
      else remove_from q task ts (tcb_next (ts prev)))"

definition priority_queue_remove :: "tcb_list_t \<Rightarrow> ptr \<Rightarrow> tstore \<Rightarrow> (tcb_list_t \<times> tstore) option" where
  "priority_queue_remove q task ts =
     (if q_head q = 0 then Some (q, ts)
      else if q_head q = task
      then Some (let q = q\<lparr>q_head := tcb_next (ts task)\<rparr> in
                 (if q_tail q = task then q\<lparr>q_tail := 0\<rparr> else q, set_next task 0 ts))
      else remove_from q task ts (q_head q))"

definition priority_queue_reoder :: "tcb_list_t \<Rightarrow> ptr \<Rightarrow> tstore \<Rightarrow> (tcb_list_t \<times> tstore) option" where
  "priority_queue_reoder q task ts = do {
     (q, ts) \<leftarrow> priority_queue_remove q task ts;
     priority_queue_push q task ts
   }"

definition sleep_queue_push :: "tcb_list_t \<Rightarrow> ptr \<Rightarrow> tstore \<Rightarrow> (tcb_list_t \<times> tstore) option" where
  "sleep_queue_push q task ts =
     (let ts = set_next task 0 ts in
      if q_head q = 0 then Some (\<lparr>q_head = task, q_tail = task\<rparr>, ts)
      else if wake_tick (ts task) < wake_tick (ts (q_head q))
      then Some (q\<lparr>q_head := task\<rparr>, set_next task (q_head q) ts)
      else do {
        current \<leftarrow> insert_point wake_tick (wake_tick (ts task)) ts (q_head q);
        let ts = set_next task (tcb_next (ts current)) ts;
        let ts = set_next current task ts;
        Some (if tcb_next (ts task) = 0 then q\<lparr>q_tail := task\<rparr> else q, ts)
      })"

text \<open>
  \<open>(int32_t)(system_ticks - task->wake_tick) >= 0\<close>: due in wrap-around order. Unlike the other pops,
  this one leaves \<open>task->next\<close> as it is.
\<close>

definition due :: "u32 \<Rightarrow> u32 \<Rightarrow> bool" where
  "due now tick \<longleftrightarrow> 0 \<le> sint (now - tick)"

definition sleep_queue_pop :: "u32 \<Rightarrow> tcb_list_t \<Rightarrow> tstore \<Rightarrow> ptr \<times> tcb_list_t" where
  "sleep_queue_pop now q ts =
     (let task = q_head q in
      if task \<noteq> 0 \<and> due now (wake_tick (ts task))
      then
        let q = q\<lparr>q_head := tcb_next (ts (q_head q))\<rparr>;
            q = (if q_head q = 0 then q\<lparr>q_tail := 0\<rparr> else q)
        in (task, q)
      else (0, q))"

declare insert_point.simps [code] remove_from.simps [code]

lemmas task_queue_defs = queue_pop_def queue_push_def priority_queue_push_def
  priority_queue_pop_def priority_queue_remove_def priority_queue_reoder_def
  sleep_queue_push_def sleep_queue_pop_def

section \<open>Queues as lists\<close>

definition queue_rep :: "tstore \<Rightarrow> tcb_list_t \<Rightarrow> ptr list \<Rightarrow> bool" where
  "queue_rep ts q xs \<longleftrightarrow>
     llist (links ts) (q_head q) xs \<and> q_tail q = (if xs = [] then 0 else last xs)"

text \<open>Only \<open>next\<close> pointers changed, and only those of tasks in \<open>A\<close>.\<close>

definition next_frame :: "ptr set \<Rightarrow> tstore \<Rightarrow> tstore \<Rightarrow> bool" where
  "next_frame A ts ts' \<longleftrightarrow>
     (\<forall>x. ts' x = (ts x)\<lparr>tcb_next := tcb_next (ts' x)\<rparr>) \<and> (\<forall>x. x \<notin> A \<longrightarrow> ts' x = ts x)"

lemma links_set_next [simp]: "links (set_next p n ts) = (links ts)(p := n)"
  by (auto simp: links_def set_next_def)

lemma tcb_next_links: "tcb_next (ts x) = links ts x"
  by (simp add: links_def)

lemma set_next_fields [simp, frame_simps]:
  "tcb_state (set_next p n ts x) = tcb_state (ts x)"
  "base_priority (set_next p n ts x) = base_priority (ts x)"
  "effective_priority (set_next p n ts x) = effective_priority (ts x)"
  "wake_tick (set_next p n ts x) = wake_tick (ts x)"
  "waiting_on (set_next p n ts x) = waiting_on (ts x)"
  "waiting_on_type (set_next p n ts x) = waiting_on_type (ts x)"
  "owned_mutexes (set_next p n ts x) = owned_mutexes (ts x)"
  by (auto simp: set_next_def)

lemma next_frame_refl [simp]: "next_frame A ts ts"
  by (simp add: next_frame_def)

lemma next_frame_set_next: "p \<in> A \<Longrightarrow> next_frame A ts ts' \<Longrightarrow> next_frame A ts (set_next p n ts')"
  by (simp add: next_frame_def set_next_def) (metis (no_types, lifting) tcb_t.update_convs(7) tcb_t.surjective)

lemma next_frame_trans: "next_frame A ts ts' \<Longrightarrow> next_frame B ts' ts'' \<Longrightarrow> next_frame (A \<union> B) ts ts''"
  unfolding next_frame_def by (metis (no_types, lifting) UnCI tcb_t.update_convs(7) tcb_t.surjective)

lemma next_frame_mono: "next_frame A ts ts' \<Longrightarrow> A \<subseteq> B \<Longrightarrow> next_frame B ts ts'"
  by (auto simp: next_frame_def)

lemma next_frameD:
  assumes "next_frame A ts ts'"
  shows "tcb_state (ts' x) = tcb_state (ts x)"
    "base_priority (ts' x) = base_priority (ts x)"
    "effective_priority (ts' x) = effective_priority (ts x)"
    "wake_tick (ts' x) = wake_tick (ts x)"
    "waiting_on (ts' x) = waiting_on (ts x)"
    "waiting_on_type (ts' x) = waiting_on_type (ts x)"
    "owned_mutexes (ts' x) = owned_mutexes (ts x)"
    "x \<notin> A \<Longrightarrow> ts' x = ts x"
proof -
  have "ts' x = (ts x)\<lparr>tcb_next := tcb_next (ts' x)\<rparr>"
    using assms by (simp add: next_frame_def)
  then obtain n where n: "ts' x = (ts x)\<lparr>tcb_next := n\<rparr>" by blast
  show "tcb_state (ts' x) = tcb_state (ts x)" "base_priority (ts' x) = base_priority (ts x)"
    "effective_priority (ts' x) = effective_priority (ts x)"
    "wake_tick (ts' x) = wake_tick (ts x)" "waiting_on (ts' x) = waiting_on (ts x)"
    "waiting_on_type (ts' x) = waiting_on_type (ts x)"
    "owned_mutexes (ts' x) = owned_mutexes (ts x)"
    by (simp_all add: n)
  show "x \<notin> A \<Longrightarrow> ts' x = ts x" using assms by (simp add: next_frame_def)
qed

lemma next_frame_links: "next_frame A ts ts' \<Longrightarrow> x \<notin> A \<Longrightarrow> links ts' x = links ts x"
  by (simp add: next_frame_def links_def)

lemma queue_rep_empty [simp]: "queue_rep ts \<lparr>q_head = 0, q_tail = 0\<rparr> xs \<longleftrightarrow> xs = []"
  by (auto simp: queue_rep_def)

lemma queue_rep_Nil: "queue_rep ts q [] \<longleftrightarrow> q_head q = 0 \<and> q_tail q = 0"
  by (auto simp: queue_rep_def)

lemma queue_rep_distinct: "queue_rep ts q xs \<Longrightarrow> distinct xs"
  by (auto simp: queue_rep_def dest: llist_distinct)

lemma queue_rep_nonnull: "queue_rep ts q xs \<Longrightarrow> 0 \<notin> set xs"
  by (auto simp: queue_rep_def dest: llist_nonnull)

lemma queue_rep_unique: "queue_rep ts q xs \<Longrightarrow> queue_rep ts q ys \<Longrightarrow> xs = ys"
  by (auto simp: queue_rep_def dest: llist_unique)

lemma queue_rep_head: "queue_rep ts q xs \<Longrightarrow> q_head q = (case xs of [] \<Rightarrow> 0 | x # _ \<Rightarrow> x)"
  by (cases xs) (auto simp: queue_rep_def)

text \<open>A queue is not affected by changes to tasks outside it.\<close>

lemma queue_rep_frame:
  assumes "queue_rep ts q xs" and "next_frame A ts ts'" and "set xs \<inter> A = {}"
  shows "queue_rep ts' q xs"
proof -
  have "llist (links ts') (q_head q) xs = llist (links ts) (q_head q) xs"
    using assms(2,3) by (intro llist_cong_on next_frame_links) auto
  with assms(1) show ?thesis by (simp add: queue_rep_def)
qed

lemma queue_rep_cong_links:
  "(\<And>x. x \<in> set xs \<Longrightarrow> tcb_next (ts' x) = tcb_next (ts x)) \<Longrightarrow> queue_rep ts' q xs = queue_rep ts q xs"
  unfolding queue_rep_def by (subst llist_cong_on [of xs "links ts'" "links ts"]) (auto simp: links_def)

section \<open>Refinement of the list operations\<close>

lemma queue_pop_refines:
  assumes "queue_rep ts q (x # xs)"
  shows "\<exists>q'. queue_pop q ts = (x, q', set_next x 0 ts) \<and> queue_rep (set_next x 0 ts) q' xs"
  using assms llist_node_not_later [of "links ts" x xs]
  by (auto simp: queue_pop_def queue_rep_def tcb_next_links Let_def)

lemma queue_pop_empty: "queue_rep ts q [] \<Longrightarrow> queue_pop q ts = (0, q, ts)"
  by (auto simp: queue_pop_def queue_rep_def)

lemma priority_queue_pop_eq: "priority_queue_pop q ts = queue_pop q ts"
  by (simp add: priority_queue_pop_def queue_pop_def Let_def)

text \<open>
  The FIFO push relies on the pushed task being unlinked (\<open>next = 0\<close>): unlike the ordered pushes it
  does not clear the pointer itself.
\<close>

lemma queue_push_refines:
  assumes rep: "queue_rep ts q xs" and "t \<noteq> 0" "t \<notin> set xs" "tcb_next (ts t) = 0"
  shows "\<exists>q' ts'. queue_push q t ts = (q', ts') \<and> queue_rep ts' q' (xs @ [t]) \<and>
           next_frame (set xs) ts ts'"
proof (cases xs rule: rev_cases)
  case Nil
  with assms show ?thesis by (auto simp: queue_push_def queue_rep_def links_def)
next
  case (snoc ys y)
  with rep have "distinct (ys @ [y])" by (auto dest: queue_rep_distinct)
  with assms snoc show ?thesis
    by (auto simp: queue_push_def queue_rep_def tcb_next_links intro!: next_frame_set_next)
qed

lemma insert_point_eq:
  "llist (links ts) p (x # xs) \<Longrightarrow>
   insert_point key k ts p = Some (last (x # takeWhile (\<lambda>y. key (ts y) \<le> k) xs))"
proof (induction xs arbitrary: x p)
  case Nil
  then show ?case by (auto simp: insert_point.simps [of _ _ _ x] tcb_next_links)
next
  case (Cons y ys)
  then have "llist (links ts) y (y # ys)" and "tcb_next (ts p) = y" "y \<noteq> 0" "p = x"
    by (auto simp: tcb_next_links)
  with Cons.IH show ?case by (simp add: insert_point.simps [of _ _ _ x])
qed

text \<open>Both ordered pushes are one algorithm, parameterised by the key that orders the queue.\<close>

definition ordered_push ::
    "(tcb_t \<Rightarrow> 'k::linorder) \<Rightarrow> tcb_list_t \<Rightarrow> ptr \<Rightarrow> tstore \<Rightarrow> (tcb_list_t \<times> tstore) option" where
  "ordered_push key q task ts =
     (let ts = set_next task 0 ts in
      if q_head q = 0 then Some (\<lparr>q_head = task, q_tail = task\<rparr>, ts)
      else if key (ts task) < key (ts (q_head q))
      then Some (q\<lparr>q_head := task\<rparr>, set_next task (q_head q) ts)
      else do {
        current \<leftarrow> insert_point key (key (ts task)) ts (q_head q);
        let ts = set_next task (tcb_next (ts current)) ts;
        let ts = set_next current task ts;
        Some (if tcb_next (ts task) = 0 then q\<lparr>q_tail := task\<rparr> else q, ts)
      })"

lemma ordered_push_eqs:
  "priority_queue_push = ordered_push effective_priority"
  "sleep_queue_push = ordered_push wake_tick"
  by (simp_all add: fun_eq_iff priority_queue_push_def sleep_queue_push_def ordered_push_def)

text \<open>\<open>refines_push key\<close>: pushing is stable insertion by \<open>key\<close>, touches only links, and returns.\<close>

definition refines_push ::
    "(tcb_t \<Rightarrow> 'k::linorder) \<Rightarrow> (tcb_list_t \<Rightarrow> ptr \<Rightarrow> tstore \<Rightarrow> (tcb_list_t \<times> tstore) option) \<Rightarrow> bool" where
  "refines_push key push \<longleftrightarrow>
     (\<forall>ts q xs t. queue_rep ts q xs \<longrightarrow> t \<noteq> 0 \<longrightarrow> t \<notin> set xs \<longrightarrow>
        (\<exists>q' ts'. push q t ts = Some (q', ts') \<and>
           queue_rep ts' q' (insert_by (\<lambda>x. key (ts x)) t xs) \<and>
           next_frame (insert t (set xs)) ts ts'))"

lemma ordered_push_middle:
  assumes rep: "queue_rep ts q (x # xs)" and t: "t \<noteq> 0" "t \<notin> set (x # xs)"
    and key: "\<And>p n y. key (set_next p n ts y) = key (ts y)"
    and ge: "\<not> key (ts t) < key (ts x)"
  shows "\<exists>q' ts'. ordered_push key q t ts = Some (q', ts') \<and>
           queue_rep ts' q' (x # insert_by (\<lambda>x. key (ts x)) t xs) \<and>
           next_frame (insert t (set (x # xs))) ts ts'"
proof -
  let ?P = "\<lambda>y. key (ts y) \<le> key (ts t)"
  let ?ts = "set_next t 0 ts"
  define c where "c = last (x # takeWhile ?P xs)"
  define as where "as = butlast (x # takeWhile ?P xs)"
  define bs where "bs = dropWhile ?P xs"
  have xs: "x # xs = as @ c # bs"
    using append_butlast_last_id [of "x # takeWhile ?P xs"] takeWhile_dropWhile_id [of ?P xs]
    unfolding as_def bs_def c_def by (metis append_Cons append_assoc append_Nil list.distinct(1))
  have ins: "x # insert_by (\<lambda>x. key (ts x)) t xs = as @ c # t # bs"
    using append_butlast_last_id [of "x # takeWhile ?P xs"]
    unfolding insert_by_takeWhile as_def bs_def c_def
    by (metis append_Cons append_assoc append_Nil list.distinct(1))
  have ll: "llist (links ?ts) (q_head q) (x # xs)" and head: "q_head q = x"
    using rep t by (auto simp: queue_rep_def)
  have walk: "insert_point key (key (?ts t)) ?ts (q_head q) = Some c"
    using insert_point_eq [OF ll, of key "key (ts t)"] by (simp add: key c_def)
  define ts' where "ts' = set_next c t (set_next t (tcb_next (?ts c)) ?ts)"
  define q' where "q' = (if tcb_next (ts' t) = 0 then q\<lparr>q_tail := t\<rparr> else q)"
  have "c \<in> set (x # xs)" by (simp add: xs)
  with t(2) have neq: "c \<noteq> t" by blast
  have "x \<noteq> 0" using rep by (simp add: queue_rep_def)
  have "ordered_push key q t ts = Some (q', ts')"
    using walk head neq \<open>x \<noteq> 0\<close> ge by (simp add: ordered_push_def Let_def key ts'_def q'_def)
  moreover have "llist (links ts') (q_head q) (as @ c # t # bs)"
    using llist_insert_after [of "links ?ts" "q_head q" as c bs t] ll t
    by (simp add: ts'_def xs tcb_next_links)
  moreover have "tcb_next (ts' t) = 0 \<longleftrightarrow> bs = []"
    using calculation(2) by (cases bs) (auto simp: tcb_next_links)
  moreover have "next_frame (insert t (set (x # xs))) ts ts'"
    unfolding ts'_def xs by (intro next_frame_set_next) auto
  moreover have "q_tail q = last (as @ c # bs)"
    using rep by (simp add: queue_rep_def xs)
  ultimately show ?thesis
    unfolding ins queue_rep_def q'_def by auto
qed

lemma ordered_push_refines:
  assumes key: "\<And>r n. key (r\<lparr>tcb_next := n\<rparr>) = key r"
  shows "refines_push key (ordered_push key)"
  unfolding refines_push_def
proof (intro allI impI)
  fix ts q xs t
  assume rep: "queue_rep ts q xs" and t: "t \<noteq> 0" "t \<notin> set xs"
  have kn: "key (set_next p n ts y) = key (ts y)" for p n y
    by (simp add: set_next_def key)
  show "\<exists>q' ts'. ordered_push key q t ts = Some (q', ts') \<and>
      queue_rep ts' q' (insert_by (\<lambda>x. key (ts x)) t xs) \<and> next_frame (insert t (set xs)) ts ts'"
  proof (cases xs)
    case Nil
    with rep t show ?thesis
      by (auto simp: ordered_push_def queue_rep_def intro!: next_frame_set_next)
  next
    case (Cons x xs')
    show ?thesis
    proof (cases "key (ts t) < key (ts x)")
      case True
      with rep t Cons show ?thesis
        by (auto simp: ordered_push_def queue_rep_def kn intro!: next_frame_set_next)
    next
      case False
      with ordered_push_middle [OF _ _ _ kn, of q x xs' t] rep t Cons show ?thesis by simp
    qed
  qed
qed

lemma remove_from_notin:
  "llist (links ts) p (x # xs) \<Longrightarrow> t \<notin> set xs \<Longrightarrow> remove_from q t ts p = Some (q, ts)"
proof (induction xs arbitrary: x p)
  case Nil
  then show ?case by (auto simp: remove_from.simps [of _ _ _ x] tcb_next_links)
next
  case (Cons y ys)
  then have "llist (links ts) y (y # ys)" "t \<notin> set ys" "tcb_next (ts p) = y" "y \<noteq> 0" "p = x" "y \<noteq> t"
    by (auto simp: tcb_next_links)
  with Cons.IH show ?case by (simp add: remove_from.simps [of _ _ _ x])
qed

lemma remove_from_in:
  "llist (links ts) p (as @ c # t # bs) \<Longrightarrow>
   remove_from q t ts p =
     Some (if q_tail q = t then q\<lparr>q_tail := c\<rparr> else q, set_next t 0 (set_next c (links ts t) ts))"
proof (induction as arbitrary: p)
  case Nil
  then show ?case by (auto simp: remove_from.simps [of _ _ _ c] tcb_next_links)
next
  case (Cons a as)
  define y where "y = links ts a"
  have *: "llist (links ts) y (as @ c # t # bs)" "a = p" "y \<noteq> 0"
    using Cons.prems by (cases as; auto simp: y_def)+
  have "t \<notin> set (as @ [c])" using llist_distinct [OF Cons.prems] by auto
  with *(1) have "y \<noteq> t" by (cases as) auto
  with * Cons.IH show ?case by (simp add: remove_from.simps [of _ _ _ p] tcb_next_links y_def)
qed

text \<open>Removal is \<open>remove1\<close>; a task that is not queued leaves queue and store as they are.\<close>

lemma priority_queue_remove_notin:
  assumes "queue_rep ts q xs" "t \<notin> set xs"
  shows "priority_queue_remove q t ts = Some (q, ts)"
proof (cases xs)
  case (Cons y ys)
  with assms remove_from_notin [of ts "q_head q" y ys t q] show ?thesis
    by (auto simp: priority_queue_remove_def queue_rep_def)
qed (use assms in \<open>auto simp: priority_queue_remove_def queue_rep_def\<close>)

lemma priority_queue_remove_hd:
  assumes "queue_rep ts q (t # xs)"
  shows "\<exists>q'. priority_queue_remove q t ts = Some (q', set_next t 0 ts) \<and>
           queue_rep (set_next t 0 ts) q' xs"
proof -
  have "t \<notin> set xs" using queue_rep_distinct [OF assms] by simp
  then have "q_tail q = t \<longleftrightarrow> xs = []"
    using assms by (cases "xs = []") (auto simp: queue_rep_def dest: last_in_set)
  with assms \<open>t \<notin> set xs\<close> show ?thesis
    by (auto simp: priority_queue_remove_def queue_rep_def tcb_next_links Let_def)
qed

lemma priority_queue_remove_later:
  assumes rep: "queue_rep ts q (as @ c # t # bs)"
  shows "\<exists>q' ts'. priority_queue_remove q t ts = Some (q', ts') \<and>
           queue_rep ts' q' (as @ c # bs) \<and> next_frame {c, t} ts ts'"
proof -
  let ?ts' = "set_next t 0 (set_next c (links ts t) ts)"
  let ?q' = "if q_tail q = t then q\<lparr>q_tail := c\<rparr> else q"
  have ll: "llist (links ts) (q_head q) (as @ c # t # bs)" and d: "distinct (as @ c # t # bs)"
    using rep queue_rep_distinct [OF rep] by (auto simp: queue_rep_def)
  have "q_head q \<noteq> 0" "q_head q \<noteq> t" using ll d by (cases as; auto)+
  then have "priority_queue_remove q t ts = Some (?q', ?ts')"
    using remove_from_in [OF ll, of q] by (simp add: priority_queue_remove_def)
  moreover have "llist (links ?ts') (q_head q) (as @ c # bs)"
    using llist_remove_after [OF ll, of 0] d by simp
  moreover have "q_tail q = t \<longleftrightarrow> bs = []" "q_tail q = last (c # t # bs)"
    using rep d by (auto simp: queue_rep_def dest: last_in_set)
  moreover have "next_frame {c, t} ts ?ts'" by (intro next_frame_set_next) auto
  ultimately show ?thesis by (auto simp: queue_rep_def split: if_splits)
qed

lemma priority_queue_remove_refines:
  assumes rep: "queue_rep ts q xs"
  shows "\<exists>q' ts'. priority_queue_remove q t ts = Some (q', ts') \<and>
           queue_rep ts' q' (remove1 t xs) \<and> next_frame (set xs) ts ts'"
proof (cases "t \<in> set xs")
  case False
  with rep priority_queue_remove_notin [OF rep] show ?thesis by (simp add: remove1_idem)
next
  case True
  then obtain us bs where xs: "xs = us @ t # bs" and nin: "t \<notin> set us"
    by (auto dest: split_list_first)
  show ?thesis
  proof (cases us rule: rev_cases)
    case Nil
    with priority_queue_remove_hd [of ts q t bs] rep xs show ?thesis
      by (force intro!: next_frame_set_next)
  next
    case (snoc as c)
    with priority_queue_remove_later [of ts q as c t bs] rep xs nin show ?thesis
      by (force simp: remove1_append elim: next_frame_mono)
  qed
qed

section \<open>The contract of an ordered queue\<close>

text \<open>
  What a client may rely on: pushing a task that is not queued returns, is stable insertion by the
  key, and touches only links; the key is not one of them.
\<close>

locale ordered_task_queue =
  fixes key :: "tcb_t \<Rightarrow> 'k::linorder"
    and push :: "tcb_list_t \<Rightarrow> ptr \<Rightarrow> tstore \<Rightarrow> (tcb_list_t \<times> tstore) option"
  assumes push_ok: "refines_push key push"
    and key_next: "key (r\<lparr>tcb_next := n\<rparr>) = key r"
begin

lemma key_frame: "next_frame A ts ts' \<Longrightarrow> key (ts' x) = key (ts x)"
  unfolding next_frame_def by (metis key_next)

lemma pushE:
  assumes "queue_rep ts q xs" "t \<noteq> 0" "t \<notin> set xs"
  obtains q' ts' where "push q t ts = Some (q', ts')"
    "queue_rep ts' q' (insert_by (\<lambda>x. key (ts x)) t xs)" "next_frame (insert t (set xs)) ts ts'"
  using push_ok assms unfolding refines_push_def by blast

text \<open>A push keeps the queue sorted, by the keys of the new store.\<close>

lemma push_sorted:
  assumes "queue_rep ts q xs" "t \<noteq> 0" "t \<notin> set xs" "sorted_by (\<lambda>x. key (ts x)) xs"
    and "push q t ts = Some (q', ts')"
  shows "\<exists>ys. queue_rep ts' q' ys \<and> set ys = insert t (set xs) \<and> sorted_by (\<lambda>x. key (ts' x)) ys"
proof -
  from assms(1-3) obtain q'' ts'' where p: "push q t ts = Some (q'', ts'')"
    and rep: "queue_rep ts'' q'' (insert_by (\<lambda>x. key (ts x)) t xs)"
    and fr: "next_frame (insert t (set xs)) ts ts''" by (rule pushE)
  have "sorted_by (\<lambda>x. key (ts'' x)) (insert_by (\<lambda>x. key (ts x)) t xs)"
    using sorted_insert_by [OF assms(4), of t] by (simp add: key_frame [OF fr])
  with p rep assms(5) show ?thesis by force
qed

text \<open>The head of a sorted queue has the least key: this is the task a pop hands out.\<close>

lemma head_least:
  assumes "queue_rep ts q xs" "sorted_by (\<lambda>x. key (ts x)) xs" "q_head q \<noteq> 0" "y \<in> set xs"
  shows "key (ts (q_head q)) \<le> key (ts y)"
  using assms by (cases xs) (auto simp: queue_rep_def)

end

interpretation prioq: ordered_task_queue effective_priority priority_queue_push
  by unfold_locales (simp_all add: ordered_push_eqs ordered_push_refines)

interpretation sleepq: ordered_task_queue wake_tick sleep_queue_push
  by unfold_locales (simp_all add: ordered_push_eqs ordered_push_refines)

text \<open>Reordering takes a task out (if queued) and inserts it again at its current priority.\<close>

lemma priority_queue_reoder_refines:
  assumes rep: "queue_rep ts q xs" and t: "t \<noteq> 0"
  shows "\<exists>q' ts'. priority_queue_reoder q t ts = Some (q', ts') \<and>
           queue_rep ts' q' (insert_by (\<lambda>x. effective_priority (ts x)) t (remove1 t xs)) \<and>
           next_frame (insert t (set xs)) ts ts'"
proof -
  from priority_queue_remove_refines [OF rep, of t] obtain q1 ts1
    where 1: "priority_queue_remove q t ts = Some (q1, ts1)" "queue_rep ts1 q1 (remove1 t xs)"
      "next_frame (set xs) ts ts1" by blast
  have nin: "t \<notin> set (remove1 t xs)" using queue_rep_distinct [OF rep] by simp
  from prioq.pushE [OF 1(2) t nin] obtain q2 ts2
    where 2: "priority_queue_push q1 t ts1 = Some (q2, ts2)"
      "queue_rep ts2 q2 (insert_by (\<lambda>x. effective_priority (ts1 x)) t (remove1 t xs))"
      "next_frame (insert t (set (remove1 t xs))) ts1 ts2" .
  have "next_frame (insert t (set xs)) ts ts2"
    using next_frame_trans [OF 1(3) 2(3)] set_remove1_subset [of t xs]
    by (auto elim!: next_frame_mono)
  moreover have "(\<lambda>x. effective_priority (ts1 x)) = (\<lambda>x. effective_priority (ts x))"
    using prioq.key_frame [OF 1(3)] by simp
  ultimately show ?thesis using 1(1) 2(1,2) by (simp add: priority_queue_reoder_def)
qed

end
