(* ===== verification/Kernel.thy ===== *)
theory Kernel
  imports Task_Queue
begin

text \<open>
  The kernel state shared by the scheduler, the sleep queue and the synchronisation primitives:
  semaphores and mutexes (\<^verbatim>\<open>include/kernel/semaphore.h\<close>), the ready queue, \<open>current_task\<close>,
  \<open>next_task\<close>, the sleep list, the tick counter and the PendSV pending bit. The representation
  invariant \<open>kernel_rep\<close> relates a kernel state to an abstract placement of tasks in queues: every
  queue is a well-formed, correctly ordered list, and a queued task carries the state and the
  \<open>waiting_on\<close> fields that belong to its queue, so that no task is in two queues.

  Every C function below runs between \<open>irq_save\<close> and \<open>irq_restore\<close> or in an exception handler that
  nothing of the kernel preempts; it is one atomic step of the model.
\<close>

section \<open>Data\<close>

datatype sem_state_t = SEM_UNUSED | SEM_OPEN | SEM_CLOSED

datatype sem_result_t = SEM_CLOSE | SEM_OK | SEM_OK_YIELD | MUTEX_NOT_OWNER | MUTEX_DEADLOCK

record semaphore_t =
  sem_count :: u32
  sem_wait_queue :: tcb_list_t
  sem_references :: u32
  sem_state :: sem_state_t

record mutex_t =
  mutex_owner :: ptr
  mutex_wait_queue :: tcb_list_t
  mutex_state :: sem_state_t
  next_owned :: ptr

record kernel =
  tcbs :: tstore
  sems :: "ptr \<Rightarrow> semaphore_t"
  mutexes :: "ptr \<Rightarrow> mutex_t"
  ready_queue :: tcb_list_t
  sleep_list :: tcb_list_t
  current_task :: ptr
  next_task :: ptr
  system_ticks :: u32
  pendsv_set :: bool

text \<open>Assignments through a pointer: \<open>task->f = v\<close>, \<open>sem->f = v\<close>, \<open>m->f = v\<close>.\<close>

definition upd_task :: "ptr \<Rightarrow> (tcb_t \<Rightarrow> tcb_t) \<Rightarrow> kernel \<Rightarrow> kernel" where
  "upd_task p f k = k\<lparr>tcbs := (tcbs k)(p := f (tcbs k p))\<rparr>"

definition upd_sem :: "ptr \<Rightarrow> (semaphore_t \<Rightarrow> semaphore_t) \<Rightarrow> kernel \<Rightarrow> kernel" where
  "upd_sem p f k = k\<lparr>sems := (sems k)(p := f (sems k p))\<rparr>"

definition upd_mutex :: "ptr \<Rightarrow> (mutex_t \<Rightarrow> mutex_t) \<Rightarrow> kernel \<Rightarrow> kernel" where
  "upd_mutex p f k = k\<lparr>mutexes := (mutexes k)(p := f (mutexes k p))\<rparr>"

lemma upd_simps [simp, frame_simps]:
  "tcbs (upd_task p f k) = (tcbs k)(p := f (tcbs k p))"
  "sems (upd_task p f k) = sems k" "mutexes (upd_task p f k) = mutexes k"
  "ready_queue (upd_task p f k) = ready_queue k" "sleep_list (upd_task p f k) = sleep_list k"
  "current_task (upd_task p f k) = current_task k" "next_task (upd_task p f k) = next_task k"
  "system_ticks (upd_task p f k) = system_ticks k" "pendsv_set (upd_task p f k) = pendsv_set k"
  "sems (upd_sem p g k) = (sems k)(p := g (sems k p))"
  "tcbs (upd_sem p g k) = tcbs k" "mutexes (upd_sem p g k) = mutexes k"
  "ready_queue (upd_sem p g k) = ready_queue k" "sleep_list (upd_sem p g k) = sleep_list k"
  "current_task (upd_sem p g k) = current_task k" "next_task (upd_sem p g k) = next_task k"
  "system_ticks (upd_sem p g k) = system_ticks k" "pendsv_set (upd_sem p g k) = pendsv_set k"
  "mutexes (upd_mutex p h k) = (mutexes k)(p := h (mutexes k p))"
  "tcbs (upd_mutex p h k) = tcbs k" "sems (upd_mutex p h k) = sems k"
  "ready_queue (upd_mutex p h k) = ready_queue k" "sleep_list (upd_mutex p h k) = sleep_list k"
  "current_task (upd_mutex p h k) = current_task k" "next_task (upd_mutex p h k) = next_task k"
  "system_ticks (upd_mutex p h k) = system_ticks k" "pendsv_set (upd_mutex p h k) = pendsv_set k"
  by (simp_all add: upd_task_def upd_sem_def upd_mutex_def)

section \<open>Where tasks are queued\<close>

datatype place = Ready | Asleep | On_Sem ptr | On_Mutex ptr | Nowhere

text \<open>The queue a task's own fields say it is in.\<close>

definition place_of :: "tcb_t \<Rightarrow> place" where
  "place_of t = (case tcb_state t of
       TASK_READY \<Rightarrow> Ready
     | TASK_SLEEPING \<Rightarrow> Asleep
     | TASK_BLOCKED \<Rightarrow> (case waiting_on_type t of
           SEM \<Rightarrow> On_Sem (waiting_on t) | MUTEX \<Rightarrow> On_Mutex (waiting_on t) | NONE \<Rightarrow> Nowhere)
     | _ \<Rightarrow> Nowhere)"

lemma place_of_upd [simp]:
  "place_of (t\<lparr>tcb_state := TASK_READY\<rparr>) = Ready"
  "place_of (t\<lparr>tcb_state := TASK_RUNNING\<rparr>) = Nowhere"
  "place_of (t\<lparr>tcb_state := TASK_FINISHED\<rparr>) = Nowhere"
  "place_of (t\<lparr>tcb_state := TASK_SLEEPING, wake_tick := n\<rparr>) = Asleep"
  "place_of (t\<lparr>tcb_state := TASK_BLOCKED, waiting_on := p, waiting_on_type := SEM\<rparr>) = On_Sem p"
  "place_of (t\<lparr>tcb_state := TASK_BLOCKED, waiting_on := p, waiting_on_type := MUTEX\<rparr>) = On_Mutex p"
  by (simp_all add: place_of_def)

lemma place_of_cong:
  "tcb_state t = tcb_state u \<Longrightarrow> waiting_on t = waiting_on u \<Longrightarrow> waiting_on_type t = waiting_on_type u \<Longrightarrow>
   place_of t = place_of u"
  by (simp add: place_of_def split: task_state_t.split wait_type_t.split)

lemma place_of_running: "tcb_state t = TASK_RUNNING \<Longrightarrow> place_of t = Nowhere"
  by (simp add: place_of_def)

fun queue_at :: "kernel \<Rightarrow> place \<Rightarrow> tcb_list_t" where
  "queue_at k Ready = ready_queue k"
| "queue_at k Asleep = sleep_list k"
| "queue_at k (On_Sem s) = sem_wait_queue (sems k s)"
| "queue_at k (On_Mutex m) = mutex_wait_queue (mutexes k m)"
| "queue_at k Nowhere = \<lparr>q_head = 0, q_tail = 0\<rparr>"

text \<open>The ready queue and the mutex queues are ordered by effective priority, the sleep list by tick;
  the semaphore queues are first-in first-out.\<close>

fun ordered_at :: "tstore \<Rightarrow> place \<Rightarrow> ptr list \<Rightarrow> bool" where
  "ordered_at ts Ready xs = sorted_by (\<lambda>x. effective_priority (ts x)) xs"
| "ordered_at ts (On_Mutex m) xs = sorted_by (\<lambda>x. effective_priority (ts x)) xs"
| "ordered_at ts Asleep xs = sorted_by (\<lambda>x. wake_tick (ts x)) xs"
| "ordered_at ts (On_Sem s) xs = True"
| "ordered_at ts Nowhere xs = True"

type_synonym placement = "place \<Rightarrow> ptr list"

definition place_ok :: "kernel \<Rightarrow> place \<Rightarrow> ptr list \<Rightarrow> bool" where
  "place_ok k l xs \<longleftrightarrow> queue_rep (tcbs k) (queue_at k l) xs \<and>
     (\<forall>x\<in>set xs. place_of (tcbs k x) = l) \<and> ordered_at (tcbs k) l xs"

definition kernel_rep :: "kernel \<Rightarrow> placement \<Rightarrow> bool" where
  "kernel_rep k Q \<longleftrightarrow> (\<forall>l. place_ok k l (Q l)) \<and>
     (\<forall>x. tcb_state (tcbs k x) = TASK_RUNNING \<longrightarrow> tcb_next (tcbs k x) = 0)"

definition kernel_inv :: "kernel \<Rightarrow> bool" where
  "kernel_inv k \<longleftrightarrow> (\<exists>Q. kernel_rep k Q)"

lemma kernel_repD:
  assumes "kernel_rep k Q"
  shows "queue_rep (tcbs k) (queue_at k l) (Q l)"
    and "x \<in> set (Q l) \<Longrightarrow> place_of (tcbs k x) = l"
    and "ordered_at (tcbs k) l (Q l)"
    and "tcb_state (tcbs k x) = TASK_RUNNING \<Longrightarrow> tcb_next (tcbs k x) = 0"
  using assms by (auto simp: kernel_rep_def place_ok_def)

lemma kernel_rep_queues:
  assumes "kernel_rep k Q"
  shows "queue_rep (tcbs k) (ready_queue k) (Q Ready)"
    "queue_rep (tcbs k) (sleep_list k) (Q Asleep)"
    "queue_rep (tcbs k) (sem_wait_queue (sems k s)) (Q (On_Sem s))"
    "queue_rep (tcbs k) (mutex_wait_queue (mutexes k m)) (Q (On_Mutex m))"
  using kernel_repD(1) [OF assms, of Ready] kernel_repD(1) [OF assms, of Asleep]
    kernel_repD(1) [OF assms, of "On_Sem s"] kernel_repD(1) [OF assms, of "On_Mutex m"]
  by simp_all

text \<open>A task is queued at most once: its own fields determine the queue.\<close>

lemma queued_once: "kernel_rep k Q \<Longrightarrow> x \<in> set (Q l) \<Longrightarrow> x \<in> set (Q l') \<Longrightarrow> l = l'"
  by (metis kernel_repD(2))

lemma not_queued: "kernel_rep k Q \<Longrightarrow> place_of (tcbs k x) = Nowhere \<Longrightarrow> x \<notin> set (Q l)"
  using kernel_repD(1,2) [of k Q] by (metis list.set_cases place.exhaust queue_at.simps(5)
      queue_rep_empty emptyE empty_set)

lemma ordered_at_cong:
  "(\<And>x. x \<in> set xs \<Longrightarrow> ts' x = ts x) \<Longrightarrow> ordered_at ts' l xs = ordered_at ts l xs"
  by (cases l) (auto intro!: sorted_by_cong)

text \<open>
  The frame rule of the development: an operation that changes the queue at one place, and only the
  fields of tasks queued there and of one further task that is queued nowhere else, keeps the
  representation of every other place.
\<close>

lemma place_ok_frame:
  assumes "place_ok k l xs" and "queue_at k' l = queue_at k l"
    and "\<And>x. x \<in> set xs \<Longrightarrow> tcbs k' x = tcbs k x"
  shows "place_ok k' l xs"
proof -
  have "queue_rep (tcbs k') (queue_at k l) xs = queue_rep (tcbs k) (queue_at k l) xs"
    by (rule queue_rep_cong_links) (simp add: assms(3))
  with assms ordered_at_cong [of xs "tcbs k'" "tcbs k" l] show ?thesis
    by (simp add: place_ok_def)
qed

lemma kernel_rep_step:
  assumes rep: "kernel_rep k Q"
    and queues: "\<And>l. l \<noteq> l0 \<Longrightarrow> queue_at k' l = queue_at k l"
    and frame: "\<And>x. x \<notin> insert t (set (Q l0)) \<Longrightarrow> tcbs k' x = tcbs k x"
    and t: "\<And>l. l \<noteq> l0 \<Longrightarrow> t \<notin> set (Q l)"
    and new: "place_ok k' l0 xs"
    and running: "\<And>x. x \<in> insert t (set (Q l0)) \<Longrightarrow> tcb_state (tcbs k' x) = TASK_RUNNING \<Longrightarrow>
                    tcb_next (tcbs k' x) = 0"
  shows "kernel_rep k' (Q(l0 := xs))"
  unfolding kernel_rep_def
proof (intro conjI allI impI)
  fix l
  show "place_ok k' l ((Q(l0 := xs)) l)"
  proof (cases "l = l0")
    case False
    have "tcbs k' x = tcbs k x" if "x \<in> set (Q l)" for x
    proof (rule frame)
      show "x \<notin> insert t (set (Q l0))"
        using t [OF False] queued_once [OF rep that, of l0] that False by auto
    qed
    moreover have "place_ok k l (Q l)" using rep by (simp add: kernel_rep_def)
    ultimately have "place_ok k' l (Q l)" using queues [OF False] by (blast intro: place_ok_frame)
    with False show ?thesis by simp
  qed (use new in simp)
next
  fix x
  assume run: "tcb_state (tcbs k' x) = TASK_RUNNING"
  show "tcb_next (tcbs k' x) = 0"
  proof (cases "x \<in> insert t (set (Q l0))")
    case True
    then show ?thesis using run by (rule running)
  next
    case False
    with run frame [of x] kernel_repD(4) [OF rep, of x] show ?thesis by simp
  qed
qed

text \<open>Only some fields matter to the queues.\<close>

lemma kernel_rep_cong:
  assumes rep: "kernel_rep k Q" and q: "\<And>l. queue_at k' l = queue_at k l"
    and "\<And>x. tcb_next (tcbs k' x) = tcb_next (tcbs k x)" "\<And>x. place_of (tcbs k' x) = place_of (tcbs k x)"
    and eff: "\<And>x. effective_priority (tcbs k' x) = effective_priority (tcbs k x)"
    and wake: "\<And>x. wake_tick (tcbs k' x) = wake_tick (tcbs k x)"
    and "\<And>x. tcb_state (tcbs k' x) = tcb_state (tcbs k x)"
  shows "kernel_rep k' Q"
proof -
  have "ordered_at (tcbs k') l xs = ordered_at (tcbs k) l xs" for l xs by (cases l) (simp_all add: eff wake)
  moreover have "queue_rep (tcbs k') q xs = queue_rep (tcbs k) q xs" for q xs
    by (rule queue_rep_cong_links) (rule assms(3))
  ultimately show ?thesis using rep by (simp add: kernel_rep_def place_ok_def assms)
qed

text \<open>
  The converse of \<open>kernel_rep\<close>'s membership: every task whose fields name a queue is in that queue, so
  a ready task can be picked and a waiting task can be woken. No task is lost.
\<close>

definition all_queued :: "kernel \<Rightarrow> placement \<Rightarrow> bool" where
  "all_queued k Q \<longleftrightarrow>
     (\<forall>x. x \<noteq> 0 \<longrightarrow> place_of (tcbs k x) \<noteq> Nowhere \<longrightarrow> x \<in> set (Q (place_of (tcbs k x))))"

lemma all_queued_step:
  assumes "all_queued k Q" and "\<And>x. x \<noteq> t \<Longrightarrow> place_of (tcbs k' x) = place_of (tcbs k x)"
    and "\<And>l. set (Q l) - {t} \<subseteq> set (Q' l)"
    and "place_of (tcbs k' t) \<noteq> Nowhere \<Longrightarrow> t \<in> set (Q' (place_of (tcbs k' t)))"
  shows "all_queued k' Q'"
  unfolding all_queued_def
proof (intro allI impI)
  fix x
  assume x: "x \<noteq> 0" "place_of (tcbs k' x) \<noteq> Nowhere"
  show "x \<in> set (Q' (place_of (tcbs k' x)))"
  proof (cases "x = t")
    case False
    with assms(1,2) x have "x \<in> set (Q (place_of (tcbs k' x)))" by (auto simp: all_queued_def)
    with False assms(3) show ?thesis by blast
  qed (use assms(4) x in blast)
qed

section \<open>Entering a priority ordered queue\<close>

lemma place_of_frame: "next_frame A ts ts' \<Longrightarrow> place_of (ts' x) = place_of (ts x)"
  by (auto simp: place_of_def next_frameD split: task_state_t.split wait_type_t.split)

lemma ordered_at_prio:
  "l = Ready \<or> (\<exists>m. l = On_Mutex m) \<Longrightarrow>
   ordered_at ts l xs = sorted_by (\<lambda>x. effective_priority (ts x)) xs"
  by auto

text \<open>
  \<open>entered ts l t xs q' ts'\<close>: the task \<open>t\<close> has entered the priority ordered queue at \<open>l\<close>, which held
  \<open>xs\<close>, behind the tasks of the same priority; \<open>ts\<close> is the store before, \<open>q'\<close> and \<open>ts'\<close> the queue and
  store after.
\<close>

definition entered :: "tstore \<Rightarrow> place \<Rightarrow> ptr \<Rightarrow> ptr list \<Rightarrow> tcb_list_t \<Rightarrow> tstore \<Rightarrow> bool" where
  "entered ts l t xs q' ts' \<longleftrightarrow>
     (let ys = insert_by (\<lambda>x. effective_priority (ts x)) t (remove1 t xs) in
      queue_rep ts' q' ys \<and> (\<forall>x\<in>set ys. place_of (ts' x) = l) \<and> ordered_at ts' l ys \<and>
      next_frame (insert t (set xs)) ts ts')"

lemma enteredI:
  assumes l: "l = Ready \<or> (\<exists>m. l = On_Mutex m)"
    and fr: "next_frame (insert t (set xs)) ts ts'"
    and rep: "queue_rep ts' q' (insert_by (\<lambda>x. effective_priority (ts x)) t (remove1 t xs))"
    and pl: "\<forall>x\<in>insert t (set (remove1 t xs)). place_of (ts x) = l"
    and srt: "sorted_by (\<lambda>x. effective_priority (ts x)) (remove1 t xs)"
  shows "entered ts l t xs q' ts'"
proof -
  have "sorted_by (\<lambda>x. effective_priority (ts' x))
      (insert_by (\<lambda>x. effective_priority (ts x)) t (remove1 t xs))"
    using sorted_insert_by [OF srt, of t] by (simp add: next_frameD(3) [OF fr])
  with assms show ?thesis
    by (auto simp: entered_def Let_def ordered_at_prio place_of_frame)
qed

text \<open>
  A task whose fields already say \<open>l\<close> (whatever else of it changed) is reordered into the queue at
  \<open>l\<close>; the operation returns.
\<close>

lemma reoder_enters:
  assumes rep: "kernel_rep k Q" and l: "l = Ready \<or> (\<exists>m. l = On_Mutex m)" and t: "t \<noteq> 0"
    and same: "\<And>x. x \<noteq> t \<Longrightarrow> ts x = tcbs k x" "tcb_next (ts t) = tcb_next (tcbs k t)"
    and pl: "place_of (ts t) = l"
  shows "\<exists>q' ts'. priority_queue_reoder (queue_at k l) t ts = Some (q', ts') \<and>
           entered ts l t (Q l) q' ts'"
proof -
  have rep1: "queue_rep ts (queue_at k l) (Q l)"
    using queue_rep_cong_links [of "Q l" ts "tcbs k" "queue_at k l"] kernel_repD(1) [OF rep] same
    by metis
  have rem: "x \<noteq> t" if "x \<in> set (remove1 t (Q l))" for x
    using that queue_rep_distinct [OF rep1] by auto
  have pl': "place_of (ts x) = l" if "x \<in> set (remove1 t (Q l))" for x
    using that rem [OF that] same(1) [of x] kernel_repD(2) [OF rep, of x l]
    by (auto dest: notin_set_remove1)
  have "sorted_by (\<lambda>x. effective_priority (tcbs k x)) (Q l)"
    using kernel_repD(3) [OF rep, of l] l by (auto simp: ordered_at_prio)
  then have "sorted_by (\<lambda>x. effective_priority (tcbs k x)) (remove1 t (Q l))"
    by (rule sorted_by_remove1)
  then have srt: "sorted_by (\<lambda>x. effective_priority (ts x)) (remove1 t (Q l))"
    by (subst sorted_by_cong [of _ _ "\<lambda>x. effective_priority (tcbs k x)"]) (auto simp: same(1) rem)
  from priority_queue_reoder_refines [OF rep1 t] obtain q' ts' where
    *: "priority_queue_reoder (queue_at k l) t ts = Some (q', ts')"
      "queue_rep ts' q' (insert_by (\<lambda>x. effective_priority (ts x)) t (remove1 t (Q l)))"
      "next_frame (insert t (set (Q l))) ts ts'" by blast
  have "entered ts l t (Q l) q' ts'"
    using enteredI [OF l *(3) *(2) _ srt] pl pl' by blast
  with * show ?thesis by blast
qed

text \<open>Plain insertion, for a task that is queued nowhere.\<close>

lemma push_enters:
  assumes rep: "kernel_rep k Q" and l: "l = Ready \<or> (\<exists>m. l = On_Mutex m)" and t: "t \<noteq> 0"
    and nin: "t \<notin> set (Q l)"
    and same: "\<And>x. x \<noteq> t \<Longrightarrow> ts x = tcbs k x"
    and pl: "place_of (ts t) = l"
  shows "\<exists>q' ts'. priority_queue_push (queue_at k l) t ts = Some (q', ts') \<and>
           entered ts l t (Q l) q' ts'"
proof -
  have rep1: "queue_rep ts (queue_at k l) (Q l)"
    using queue_rep_cong_links [of "Q l" ts "tcbs k" "queue_at k l"] kernel_repD(1) [OF rep] same nin
    by metis
  have "sorted_by (\<lambda>x. effective_priority (tcbs k x)) (Q l)"
    using kernel_repD(3) [OF rep, of l] l by (auto simp: ordered_at_prio)
  then have srt: "sorted_by (\<lambda>x. effective_priority (ts x)) (Q l)"
    using nin same by (subst sorted_by_cong [of _ _ "\<lambda>x. effective_priority (tcbs k x)"]) metis+
  have pl': "place_of (ts x) = l" if "x \<in> set (Q l)" for x
    using that nin same kernel_repD(2) [OF rep that] by metis
  from prioq.pushE [OF rep1 t nin] obtain q' ts' where
    *: "priority_queue_push (queue_at k l) t ts = Some (q', ts')"
      "queue_rep ts' q' (insert_by (\<lambda>x. effective_priority (ts x)) t (Q l))"
      "next_frame (insert t (set (Q l))) ts ts'" .
  have "entered ts l t (Q l) q' ts'"
    using enteredI [OF l *(3), of q'] * srt pl pl' nin by (simp add: remove1_idem)
  with * show ?thesis by blast
qed

text \<open>After entering, the whole representation holds again.\<close>

lemma entered_rep:
  assumes rep: "kernel_rep k Q" and ent: "entered ts l t (Q l) q' ts'"
    and same: "\<And>x. x \<noteq> t \<Longrightarrow> ts x = tcbs k x"
    and k': "tcbs k' = ts'" "queue_at k' l = q'" "\<And>l'. l' \<noteq> l \<Longrightarrow> queue_at k' l' = queue_at k l'"
    and once: "\<And>l'. l' \<noteq> l \<Longrightarrow> t \<notin> set (Q l')"
    and l: "l \<noteq> Nowhere"
  shows "kernel_rep k' (Q(l := insert_by (\<lambda>x. effective_priority (ts x)) t (remove1 t (Q l))))"
proof (rule kernel_rep_step [OF rep, where t = t])
  let ?ys = "insert_by (\<lambda>x. effective_priority (ts x)) t (remove1 t (Q l))"
  have ok: "queue_rep ts' q' ?ys" "\<forall>x\<in>set ?ys. place_of (ts' x) = l" "ordered_at ts' l ?ys"
    and fr: "next_frame (insert t (set (Q l))) ts ts'"
    using ent by (auto simp: entered_def Let_def)
  show "place_ok k' l ?ys" using ok k' by (simp add: place_ok_def)
  show "tcbs k' x = tcbs k x" if "x \<notin> insert t (set (Q l))" for x
    using that next_frameD(8) [OF fr, of x] same [of x] k'(1) by auto
  show "tcb_next (tcbs k' x) = 0"
    if "x \<in> insert t (set (Q l))" and run: "tcb_state (tcbs k' x) = TASK_RUNNING" for x
  proof -
    have "x \<in> set ?ys" using that(1) by (cases "x = t") auto
    then have "place_of (ts' x) = l" using ok(2) by blast
    with run k'(1) l show ?thesis by (simp add: place_of_def)
  qed
qed (use k' once in auto)

section \<open>The state after start-up\<close>

text \<open>Everything the start-up code clears with the .bss section is zero: no task exists.\<close>

definition zero_tcb :: tcb_t where
  "zero_tcb = \<lparr>tcb_sp = 0, tcb_state = TASK_UNUSED, base_priority = 0, effective_priority = 0,
     stack_base = 0, stack_size = 0, tcb_next = 0, tcb_name = 0, tcb_function = 0, tcb_args = 0,
     unprivileged = 0, wake_tick = 0, waiting_on = 0, waiting_on_type = NONE, owned_mutexes = 0\<rparr>"

definition zero_sem :: semaphore_t where
  "zero_sem = \<lparr>sem_count = 0, sem_wait_queue = \<lparr>q_head = 0, q_tail = 0\<rparr>, sem_references = 0,
     sem_state = SEM_UNUSED\<rparr>"

definition zero_mutex :: mutex_t where
  "zero_mutex = \<lparr>mutex_owner = 0, mutex_wait_queue = \<lparr>q_head = 0, q_tail = 0\<rparr>,
     mutex_state = SEM_UNUSED, next_owned = 0\<rparr>"

definition zero_kernel :: kernel where
  "zero_kernel = \<lparr>tcbs = (\<lambda>_. zero_tcb), sems = (\<lambda>_. zero_sem), mutexes = (\<lambda>_. zero_mutex),
     ready_queue = \<lparr>q_head = 0, q_tail = 0\<rparr>, sleep_list = \<lparr>q_head = 0, q_tail = 0\<rparr>,
     current_task = 0, next_task = 0, system_ticks = 0, pendsv_set = False\<rparr>"

text \<open>A task of a given state and priority that is in no list; the building block of example states.\<close>

definition task_with :: "task_state_t \<Rightarrow> u8 \<Rightarrow> tcb_t" where
  "task_with st p = zero_tcb\<lparr>tcb_state := st, base_priority := p, effective_priority := p\<rparr>"

lemma task_with_simps [simp, eval_simps]:
  "tcb_state (task_with st p) = st" "base_priority (task_with st p) = p"
  "effective_priority (task_with st p) = p" "tcb_next (task_with st p) = 0"
  "waiting_on (task_with st p) = 0" "waiting_on_type (task_with st p) = NONE"
  "owned_mutexes (task_with st p) = 0" "wake_tick (task_with st p) = 0"
  by (simp_all add: task_with_def zero_tcb_def)

lemma zero_simps [simp, eval_simps]:
  "tcb_state zero_tcb = TASK_UNUSED" "tcb_next zero_tcb = 0" "effective_priority zero_tcb = 0"
  "base_priority zero_tcb = 0" "waiting_on zero_tcb = 0" "waiting_on_type zero_tcb = NONE"
  "owned_mutexes zero_tcb = 0" "wake_tick zero_tcb = 0" "place_of zero_tcb = Nowhere"
  "sem_count zero_sem = 0" "sem_state zero_sem = SEM_UNUSED"
  "sem_wait_queue zero_sem = \<lparr>q_head = 0, q_tail = 0\<rparr>"
  "mutex_owner zero_mutex = 0" "mutex_wait_queue zero_mutex = \<lparr>q_head = 0, q_tail = 0\<rparr>"
  "next_owned zero_mutex = 0"
  "tcbs zero_kernel = (\<lambda>_. zero_tcb)" "sems zero_kernel = (\<lambda>_. zero_sem)"
  "mutexes zero_kernel = (\<lambda>_. zero_mutex)" "ready_queue zero_kernel = \<lparr>q_head = 0, q_tail = 0\<rparr>"
  "sleep_list zero_kernel = \<lparr>q_head = 0, q_tail = 0\<rparr>" "current_task zero_kernel = 0"
  "next_task zero_kernel = 0" "system_ticks zero_kernel = 0" "\<not> pendsv_set zero_kernel"
  by (simp_all add: zero_tcb_def zero_sem_def zero_mutex_def zero_kernel_def place_of_def)

lemma zero_kernel_rep: "kernel_rep zero_kernel (\<lambda>_. [])"
proof -
  have "queue_at zero_kernel l = \<lparr>q_head = 0, q_tail = 0\<rparr>" for l by (cases l) simp_all
  moreover have "ordered_at (\<lambda>_. zero_tcb) l []" for l by (cases l) simp_all
  ultimately show ?thesis by (simp add: kernel_rep_def place_ok_def)
qed

text \<open>How the invariant of an example state is checked: place by place.\<close>

lemma kernel_repI:
  assumes "place_ok k Ready (Q Ready)" "place_ok k Asleep (Q Asleep)"
    "\<And>s. place_ok k (On_Sem s) (Q (On_Sem s))" "\<And>m. place_ok k (On_Mutex m) (Q (On_Mutex m))"
    "Q Nowhere = []" "\<And>x. tcb_state (tcbs k x) = TASK_RUNNING \<Longrightarrow> tcb_next (tcbs k x) = 0"
  shows "kernel_rep k Q"
proof -
  have "place_ok k l (Q l)" for l using assms by (cases l) (simp_all add: place_ok_def)
  with assms(6) show ?thesis by (simp add: kernel_rep_def)
qed

end
