(* ===== verification/Scheduler.thy ===== *)
theory Scheduler
  imports Kernel
begin

text \<open>
  The fixed-priority scheduler of \<^verbatim>\<open>source/kernel/scheduler.c\<close>, the context switch request of
  \<^verbatim>\<open>source/kernel/arm.c\<close> and the task switch of \<^verbatim>\<open>source/kernel/pend_sv_handler.S\<close>. Lower numbers
  are higher priorities. The lemmas give the effect of every operation on the placement of tasks in
  queues; they hold in every state that satisfies the kernel invariant, and include that the
  operation returns.
\<close>

section \<open>Operations\<close>

definition scheduler_init :: "kernel \<Rightarrow> kernel" where
  "scheduler_init k = k\<lparr>ready_queue := \<lparr>q_head = 0, q_tail = 0\<rparr>, current_task := 0, next_task := 0\<rparr>"

definition scheduler_put_task :: "ptr \<Rightarrow> kernel \<Rightarrow> kernel option" where
  "scheduler_put_task task k =
     (if task = 0 then Some k
      else if tcb_state (tcbs k task) = TASK_FINISHED \<or> tcb_state (tcbs k task) = TASK_BLOCKED \<or>
              tcb_state (tcbs k task) = TASK_SLEEPING then Some k
      else do {
        let k = upd_task task (\<lambda>t. t\<lparr>tcb_state := TASK_READY\<rparr>) k;
        (q, ts) \<leftarrow> priority_queue_remove (ready_queue k) task (tcbs k);
        (q, ts) \<leftarrow> priority_queue_push q task ts;
        Some (k\<lparr>ready_queue := q, tcbs := ts\<rparr>)
      })"

definition scheduler_select_next :: "kernel \<Rightarrow> kernel option" where
  "scheduler_select_next k = do {
     k \<leftarrow> scheduler_put_task (current_task k) k;
     if q_head (ready_queue k) \<noteq> 0
     then let (t, q, ts) = priority_queue_pop (ready_queue k) (tcbs k);
              k = k\<lparr>next_task := t, ready_queue := q, tcbs := ts\<rparr>
          in Some (upd_task (next_task k) (\<lambda>t. t\<lparr>tcb_state := TASK_RUNNING\<rparr>) k)
     else Some (k\<lparr>next_task := current_task k\<rparr>)
   }"

definition scheduler_next_task :: "kernel \<Rightarrow> ptr" where
  "scheduler_next_task k = q_head (ready_queue k)"

definition scheduler_reorder :: "ptr \<Rightarrow> kernel \<Rightarrow> kernel option" where
  "scheduler_reorder task k = do {
     (q, ts) \<leftarrow> priority_queue_reoder (ready_queue k) task (tcbs k);
     Some (k\<lparr>ready_queue := q, tcbs := ts\<rparr>)
   }"

text \<open>\<open>ipsr\<close> is the number of the exception being handled; 14 is PendSV.\<close>

definition request_context_switch :: "u32 \<Rightarrow> kernel \<Rightarrow> kernel" where
  "request_context_switch ipsr k =
     (let candidate = scheduler_next_task k in
      if pendsv_set k \<or> ipsr = 14 \<or> candidate = 0 \<or>
         (tcb_state (tcbs k (current_task k)) = TASK_RUNNING \<and>
          effective_priority (tcbs k candidate) > effective_priority (tcbs k (current_task k)))
      then k
      else k\<lparr>pendsv_set := True\<rparr>)"

text \<open>
  The PendSV handler as far as it concerns the kernel state: taking the exception clears the pending
  bit, the scheduler selects, and \<open>next_task\<close> becomes \<open>current_task\<close>. Saving and restoring registers
  on the task stacks is not part of this state.
\<close>

definition pend_sv_handler :: "kernel \<Rightarrow> kernel option" where
  "pend_sv_handler k = do {
     k \<leftarrow> scheduler_select_next (k\<lparr>pendsv_set := False\<rparr>);
     Some (k\<lparr>current_task := next_task k\<rparr>)
   }"

section \<open>Effect on the queues\<close>

text \<open>The tasks \<open>scheduler_put_task\<close> accepts.\<close>

definition can_run :: "kernel \<Rightarrow> ptr \<Rightarrow> bool" where
  "can_run k t \<longleftrightarrow> t \<noteq> 0 \<and>
     tcb_state (tcbs k t) \<notin> {TASK_FINISHED, TASK_BLOCKED, TASK_SLEEPING}"

text \<open>The ready queue after a task was put into it.\<close>

definition put_ready :: "kernel \<Rightarrow> ptr \<Rightarrow> ptr list \<Rightarrow> ptr list" where
  "put_ready k t xs =
     (if can_run k t then insert_by (\<lambda>x. effective_priority (tcbs k x)) t (remove1 t xs) else xs)"

text \<open>The fields of tasks that no queue operation and no change of state touches.\<close>

definition same_prio :: "kernel \<Rightarrow> kernel \<Rightarrow> bool" where
  "same_prio k k' \<longleftrightarrow> (\<forall>x. effective_priority (tcbs k' x) = effective_priority (tcbs k x) \<and>
     base_priority (tcbs k' x) = base_priority (tcbs k x) \<and>
     wake_tick (tcbs k' x) = wake_tick (tcbs k x) \<and>
     waiting_on (tcbs k' x) = waiting_on (tcbs k x) \<and>
     waiting_on_type (tcbs k' x) = waiting_on_type (tcbs k x) \<and>
     owned_mutexes (tcbs k' x) = owned_mutexes (tcbs k x))"

definition sched_frame :: "kernel \<Rightarrow> kernel \<Rightarrow> bool" where
  "sched_frame k k' \<longleftrightarrow> sems k' = sems k \<and> mutexes k' = mutexes k \<and> sleep_list k' = sleep_list k \<and>
     current_task k' = current_task k \<and> next_task k' = next_task k \<and>
     system_ticks k' = system_ticks k \<and> pendsv_set k' = pendsv_set k \<and> same_prio k k'"

lemma can_run_place: "can_run k t \<Longrightarrow> place_of (tcbs k t) = Ready \<or> place_of (tcbs k t) = Nowhere"
  by (cases "tcb_state (tcbs k t)") (auto simp: can_run_def place_of_def)

lemma can_run_once:
  assumes "kernel_rep k Q" "can_run k t" "l \<noteq> Ready"
  shows "t \<notin> set (Q l)"
  using can_run_place [OF assms(2)]
proof
  assume "place_of (tcbs k t) = Ready"
  with assms show ?thesis by (metis kernel_repD(2))
qed (use assms(1) in \<open>rule not_queued\<close>)

lemma queue_at_ready_cong:
  "sems k' = sems k \<Longrightarrow> mutexes k' = mutexes k \<Longrightarrow> sleep_list k' = sleep_list k \<Longrightarrow>
   l \<noteq> Ready \<Longrightarrow> queue_at k' l = queue_at k l"
  by (cases l) auto

lemma scheduler_put_task_reject: "\<not> can_run k t \<Longrightarrow> scheduler_put_task t k = Some k"
  by (auto simp: scheduler_put_task_def can_run_def)

lemma scheduler_put_task_accept:
  assumes rep: "kernel_rep k Q" and run: "can_run k t"
  shows "\<exists>k'. scheduler_put_task t k = Some k' \<and> kernel_rep k' (Q(Ready := put_ready k t (Q Ready))) \<and>
     sched_frame k k' \<and> tcb_state (tcbs k' t) = TASK_READY \<and>
     (\<forall>x. x \<noteq> t \<longrightarrow> tcb_state (tcbs k' x) = tcb_state (tcbs k x))"
proof -
  let ?k1 = "upd_task t (\<lambda>t. t\<lparr>tcb_state := TASK_READY\<rparr>) k"
  let ?ts = "tcbs ?k1"
  have t: "t \<noteq> 0" using run by (simp add: can_run_def)
  obtain q ts' where re: "priority_queue_reoder (ready_queue k) t ?ts = Some (q, ts')"
    and ent: "entered ?ts Ready t (Q Ready) q ts'"
    using reoder_enters [OF rep _ t, of Ready ?ts] by (auto simp: place_of_def)
  define k' where "k' = ?k1\<lparr>ready_queue := q, tcbs := ts'\<rparr>"
  have fr: "next_frame (insert t (set (Q Ready))) ?ts ts'"
    using ent by (simp add: entered_def Let_def)
  have eq: "scheduler_put_task t k = Some k'"
    using run re by (auto simp: scheduler_put_task_def can_run_def priority_queue_reoder_def k'_def)
  have ins: "put_ready k t (Q Ready) =
      insert_by (\<lambda>x. effective_priority (?ts x)) t (remove1 t (Q Ready))"
    using run by (auto simp: put_ready_def intro!: insert_by_cong)
  have "kernel_rep k' (Q(Ready := put_ready k t (Q Ready)))"
    unfolding ins
    by (rule entered_rep [OF rep ent])
      (auto simp: k'_def can_run_once [OF rep run] intro!: queue_at_ready_cong)
  moreover have "sched_frame k k'"
    by (simp add: sched_frame_def same_prio_def k'_def next_frameD [OF fr])
  moreover have "tcb_state (tcbs k' t) = TASK_READY"
    "\<forall>x. x \<noteq> t \<longrightarrow> tcb_state (tcbs k' x) = tcb_state (tcbs k x)"
    by (simp_all add: k'_def next_frameD [OF fr])
  ultimately show ?thesis using eq by blast
qed

lemma sched_frame_refl [simp]: "sched_frame k k"
  by (simp add: sched_frame_def same_prio_def)

lemma put_ready_reject: "\<not> can_run k t \<Longrightarrow> put_ready k t xs = xs"
  by (simp add: put_ready_def)

lemma put_task_rep:
  assumes "kernel_rep k Q"
  obtains k' where "scheduler_put_task t k = Some k'"
    "kernel_rep k' (Q(Ready := put_ready k t (Q Ready)))" "sched_frame k k'"
    "\<forall>x. x \<noteq> t \<longrightarrow> tcb_state (tcbs k' x) = tcb_state (tcbs k x)"
    "tcb_state (tcbs k' t) = (if can_run k t then TASK_READY else tcb_state (tcbs k t))"
proof (cases "can_run k t")
  case True
  with scheduler_put_task_accept [OF assms True] show ?thesis using that by auto
next
  case False
  with scheduler_put_task_reject [OF False] assms show ?thesis
    using that [of k] by (simp add: put_ready_reject)
qed

text \<open>Taking the head off the ready queue and running it.\<close>

lemma pop_ready_rep:
  assumes rep: "kernel_rep k Q" and Q: "Q Ready = x # xs"
  shows "\<exists>q. priority_queue_pop (ready_queue k) (tcbs k) = (x, q, set_next x 0 (tcbs k)) \<and>
     kernel_rep (upd_task x (\<lambda>t. t\<lparr>tcb_state := TASK_RUNNING\<rparr>)
                   (k\<lparr>next_task := x, ready_queue := q, tcbs := set_next x 0 (tcbs k)\<rparr>))
                (Q(Ready := xs))"
proof -
  have rq: "queue_rep (tcbs k) (ready_queue k) (x # xs)"
    using kernel_rep_queues(1) [OF rep] Q by simp
  from queue_pop_refines [OF rq] obtain q where
    q: "queue_pop (ready_queue k) (tcbs k) = (x, q, set_next x 0 (tcbs k))"
      "queue_rep (set_next x 0 (tcbs k)) q xs" by blast
  let ?k = "upd_task x (\<lambda>t. t\<lparr>tcb_state := TASK_RUNNING\<rparr>)
              (k\<lparr>next_task := x, ready_queue := q, tcbs := set_next x 0 (tcbs k)\<rparr>)"
  have nin: "x \<notin> set xs" using queue_rep_distinct [OF rq] by simp
  have same: "tcbs ?k y = tcbs k y" if "y \<noteq> x" for y
    using that by (simp add: set_next_def)
  have "kernel_rep ?k (Q(Ready := xs))"
  proof (rule kernel_rep_step [OF rep, where t = x])
    have "queue_rep (tcbs ?k) q xs"
      using q(2) nin by (subst queue_rep_cong_links [of _ _ "set_next x 0 (tcbs k)"]) auto
    moreover have "place_of (tcbs ?k y) = Ready" if "y \<in> set xs" for y
      using same [of y] that nin Q kernel_repD(2) [OF rep, of y Ready] by auto
    moreover have "ordered_at (tcbs ?k) Ready xs"
    proof -
      have "ordered_at (tcbs k) Ready xs" using kernel_repD(3) [OF rep, of Ready] Q by simp
      then show ?thesis using same nin by (subst ordered_at_cong [of _ _ "tcbs k"]) metis+
    qed
    ultimately show "place_ok ?k Ready xs" by (simp add: place_ok_def)
    show "x \<notin> set (Q l)" if "l \<noteq> Ready" for l
      using queued_once [OF rep, of x Ready l] Q that by auto
    show "tcbs ?k y = tcbs k y" if "y \<notin> insert x (set (Q Ready))" for y
      using that same by blast
    show "tcb_next (tcbs ?k y) = 0"
      if "y \<in> insert x (set (Q Ready))" "tcb_state (tcbs ?k y) = TASK_RUNNING" for y
    proof (cases "y = x")
      case False
      with same that(2) kernel_repD(4) [OF rep, of y] show ?thesis by auto
    qed (simp add: set_next_def)
  qed (auto intro!: queue_at_ready_cong)
  with q(1) show ?thesis by (simp add: priority_queue_pop_eq)
qed

lemma kernel_rep_next_task [simp]: "kernel_rep (k\<lparr>next_task := t\<rparr>) Q = kernel_rep k Q"
  "kernel_rep (k\<lparr>current_task := t\<rparr>) Q = kernel_rep k Q"
  "kernel_rep (k\<lparr>pendsv_set := b\<rparr>) Q = kernel_rep k Q"
  "kernel_rep (k\<lparr>system_ticks := n\<rparr>) Q = kernel_rep k Q"
proof -
  have "queue_at (k\<lparr>next_task := t\<rparr>) l = queue_at k l" "queue_at (k\<lparr>current_task := t\<rparr>) l = queue_at k l"
    "queue_at (k\<lparr>pendsv_set := b\<rparr>) l = queue_at k l" "queue_at (k\<lparr>system_ticks := n\<rparr>) l = queue_at k l" for l
    by (cases l; simp)+
  then show "kernel_rep (k\<lparr>next_task := t\<rparr>) Q = kernel_rep k Q"
    "kernel_rep (k\<lparr>current_task := t\<rparr>) Q = kernel_rep k Q"
    "kernel_rep (k\<lparr>pendsv_set := b\<rparr>) Q = kernel_rep k Q"
    "kernel_rep (k\<lparr>system_ticks := n\<rparr>) Q = kernel_rep k Q"
    by (simp_all add: kernel_rep_def place_ok_def)
qed

text \<open>The fields of the kernel that selection leaves alone.\<close>

definition select_frame :: "kernel \<Rightarrow> kernel \<Rightarrow> bool" where
  "select_frame k k' \<longleftrightarrow> sems k' = sems k \<and> mutexes k' = mutexes k \<and> sleep_list k' = sleep_list k \<and>
     system_ticks k' = system_ticks k \<and> pendsv_set k' = pendsv_set k \<and>
     current_task k' = current_task k \<and> same_prio k k'"

text \<open>The states of the tasks after a selection from the ready queue \<open>R\<close>.\<close>

definition switched_state :: "kernel \<Rightarrow> ptr list \<Rightarrow> ptr \<Rightarrow> task_state_t" where
  "switched_state k R x =
     (if R \<noteq> [] \<and> x = hd R then TASK_RUNNING
      else if x = current_task k \<and> can_run k x then TASK_READY
      else tcb_state (tcbs k x))"

text \<open>
  Selection: the current task goes back into the ready queue if it can run; the head of the queue is
  taken out and runs; on an empty queue the current task is kept.
\<close>

lemma select_next_rep:
  assumes rep: "kernel_rep k Q" and R: "R = put_ready k (current_task k) (Q Ready)"
  obtains k' where "scheduler_select_next k = Some k'" "select_frame k k'"
    "kernel_rep k' (Q(Ready := tl R))"
    "next_task k' = (if R = [] then current_task k else hd R)"
    "\<And>x. tcb_state (tcbs k' x) = switched_state k R x"
proof -
  from put_task_rep [OF rep, of "current_task k"] obtain k1 where
    1: "scheduler_put_task (current_task k) k = Some k1" "kernel_rep k1 (Q(Ready := R))"
      "sched_frame k k1"
    and st: "\<And>x. tcb_state (tcbs k1 x) = (if x = current_task k \<and> can_run k x then TASK_READY
              else tcb_state (tcbs k x))"
    unfolding R by metis
  have rq: "queue_rep (tcbs k1) (ready_queue k1) R"
    using kernel_rep_queues(1) [OF 1(2)] by simp
  show thesis
  proof (cases R)
    case Nil
    then have "scheduler_select_next k = Some (k1\<lparr>next_task := current_task k1\<rparr>)"
      using 1(1) rq by (simp add: scheduler_select_next_def queue_rep_Nil)
    with 1 Nil show ?thesis
      by (intro that [of "k1\<lparr>next_task := current_task k1\<rparr>"])
        (auto simp: select_frame_def sched_frame_def same_prio_def switched_state_def st)
  next
    case (Cons x xs)
    from pop_ready_rep [OF 1(2), of x xs] Cons obtain q where
      q: "priority_queue_pop (ready_queue k1) (tcbs k1) = (x, q, set_next x 0 (tcbs k1))"
      and rep': "kernel_rep (upd_task x (\<lambda>t. t\<lparr>tcb_state := TASK_RUNNING\<rparr>)
          (k1\<lparr>next_task := x, ready_queue := q, tcbs := set_next x 0 (tcbs k1)\<rparr>)) (Q(Ready := xs))"
        (is "kernel_rep ?k _") by auto
    have "q_head (ready_queue k1) \<noteq> 0" using rq Cons by (auto simp: queue_rep_def)
    then have "scheduler_select_next k = Some ?k"
      using 1(1) q by (simp add: scheduler_select_next_def)
    moreover have "select_frame k ?k"
      using 1(3) by (auto simp: select_frame_def sched_frame_def same_prio_def)
    ultimately show ?thesis
      using rep' Cons by (intro that [of ?k]) (auto simp: switched_state_def st)
  qed
qed

lemma pend_sv_rep:
  assumes rep: "kernel_rep k Q" and R: "R = put_ready k (current_task k) (Q Ready)"
  obtains k' where "pend_sv_handler k = Some k'" "same_prio k k'" "kernel_rep k' (Q(Ready := tl R))"
    "current_task k' = (if R = [] then current_task k else hd R)"
    "\<And>x. tcb_state (tcbs k' x) = switched_state k R x" "\<not> pendsv_set k'"
    "sems k' = sems k" "mutexes k' = mutexes k" "sleep_list k' = sleep_list k"
    "system_ticks k' = system_ticks k"
proof -
  have R': "R = put_ready (k\<lparr>pendsv_set := False\<rparr>) (current_task (k\<lparr>pendsv_set := False\<rparr>)) (Q Ready)"
    using R by (simp add: put_ready_def can_run_def)
  from rep have "kernel_rep (k\<lparr>pendsv_set := False\<rparr>) Q" by simp
  from select_next_rep [OF this R'] obtain k' where
    k': "scheduler_select_next (k\<lparr>pendsv_set := False\<rparr>) = Some k'" "select_frame (k\<lparr>pendsv_set := False\<rparr>) k'"
    "kernel_rep k' (Q(Ready := tl R))" "next_task k' = (if R = [] then current_task k else hd R)"
    "\<And>x. tcb_state (tcbs k' x) = switched_state (k\<lparr>pendsv_set := False\<rparr>) R x"
    by (metis (no_types, lifting) kernel.select_convs(6) kernel.surjective kernel.update_convs(9))
  show thesis
    by (rule that [of "k'\<lparr>current_task := next_task k'\<rparr>"])
      (use k' in \<open>auto simp: pend_sv_handler_def select_frame_def same_prio_def switched_state_def
         can_run_def\<close>)
qed

section \<open>Properties\<close>

text \<open>Tasks that compete for the processor when a switch happens.\<close>

definition runnable :: "kernel \<Rightarrow> ptr \<Rightarrow> bool" where
  "runnable k x \<longleftrightarrow> x \<noteq> 0 \<and> (tcb_state (tcbs k x) = TASK_READY \<or> x = current_task k \<and> can_run k x)"

lemma runnable_queue:
  assumes "kernel_rep k Q" "all_queued k Q"
  shows "set (put_ready k (current_task k) (Q Ready)) = {x. runnable k x}"
proof -
  have "x \<in> set (Q Ready) \<longleftrightarrow> x \<noteq> 0 \<and> tcb_state (tcbs k x) = TASK_READY" for x
  proof
    assume x: "x \<in> set (Q Ready)"
    have "place_of (tcbs k x) = Ready" using kernel_repD(2) [OF assms(1) x] .
    with x queue_rep_nonnull [OF kernel_rep_queues(1) [OF assms(1)]]
    show "x \<noteq> 0 \<and> tcb_state (tcbs k x) = TASK_READY"
      by (auto simp: place_of_def split: task_state_t.splits wait_type_t.splits)
  next
    assume "x \<noteq> 0 \<and> tcb_state (tcbs k x) = TASK_READY"
    then show "x \<in> set (Q Ready)"
      using assms(2) by (auto simp: all_queued_def place_of_def dest!: spec [of _ x])
  qed
  moreover have "set (remove1 t (Q Ready)) = set (Q Ready) - {t}" for t
    by (rule set_remove1_eq) (rule queue_rep_distinct [OF kernel_rep_queues(1) [OF assms(1)]])
  ultimately show ?thesis by (auto simp: put_ready_def runnable_def can_run_def)
qed

text \<open>An example: task \<open>0x100\<close> runs, \<open>0x200\<close> (more urgent) and \<open>0x300\<close> are ready.\<close>

definition ex_sched :: kernel where
  "ex_sched = zero_kernel\<lparr>current_task := 0x100, ready_queue := \<lparr>q_head = 0x200, q_tail = 0x300\<rparr>,
     tcbs := (\<lambda>_. zero_tcb)(0x100 := task_with TASK_RUNNING 5,
       0x200 := (task_with TASK_READY 3)\<lparr>tcb_next := 0x300\<rparr>, 0x300 := task_with TASK_READY 5)\<rparr>"

abbreviation ex_sched_queues :: placement where
  "ex_sched_queues \<equiv> (\<lambda>_. [])(Ready := [0x200, 0x300])"

lemma ex_sched_ok: "kernel_rep ex_sched ex_sched_queues" "all_queued ex_sched ex_sched_queues"
  by (rule kernel_repI)
    (auto simp: ex_sched_def place_ok_def queue_rep_def links_def place_of_def all_queued_def)

text \<open>C1: A context switch always completes; the task it runs is a runnable one, and no runnable task
  has a higher priority. When nothing is runnable the current task stays.\<close>

theorem pend_sv_most_urgent:
  assumes "kernel_rep k Q" "all_queued k Q"
  shows "\<exists>k'. pend_sv_handler k = Some k' \<and> \<not> pendsv_set k' \<and>
     (\<forall>x. runnable k x \<longrightarrow> effective_priority (tcbs k' (current_task k')) \<le> effective_priority (tcbs k' x)) \<and>
     (if \<exists>x. runnable k x
      then runnable k (current_task k') \<and> tcb_state (tcbs k' (current_task k')) = TASK_RUNNING
      else current_task k' = current_task k)"
proof -
  let ?R = "put_ready k (current_task k) (Q Ready)"
  obtain k' where k': "pend_sv_handler k = Some k'" "same_prio k k'" "\<not> pendsv_set k'"
    "current_task k' = (if ?R = [] then current_task k else hd ?R)"
    "\<And>x. tcb_state (tcbs k' x) = switched_state k ?R x"
    by (rule pend_sv_rep [OF assms(1) refl]) (rule that)
  have "sorted_by (\<lambda>x. effective_priority (tcbs k x)) ?R"
    using kernel_repD(3) [OF assms(1), of Ready]
    by (auto simp: put_ready_def intro!: sorted_insert_by sorted_by_remove1)
  then have "effective_priority (tcbs k (hd ?R)) \<le> effective_priority (tcbs k x)" if "x \<in> set ?R" for x
    using that by (cases ?R) auto
  moreover have "hd ?R \<in> set ?R" if "?R \<noteq> []" using that by simp
  moreover have "?R = [] \<longleftrightarrow> \<not> (\<exists>x. runnable k x)"
    using runnable_queue [OF assms] by (metis (no_types, lifting) Collect_empty_eq set_empty)
  ultimately show ?thesis
    using k' runnable_queue [OF assms] by (auto simp: same_prio_def switched_state_def)
qed

theorem pend_sv_most_urgent_witness:
  "\<exists>k'. pend_sv_handler ex_sched = Some k' \<and> effective_priority (tcbs k' (current_task k')) \<le>
     effective_priority (tcbs k' 0x100)"
proof -
  have "runnable ex_sched 0x100" by (simp add: runnable_def can_run_def ex_sched_def)
  then show ?thesis using pend_sv_most_urgent [OF ex_sched_ok] by blast
qed

lemma switch_all_queued:
  assumes rep: "kernel_rep k Q" and all: "all_queued k Q" and fr: "same_prio k k'"
    and st: "\<And>x. tcb_state (tcbs k' x) = switched_state k R x"
    and R: "R = put_ready k (current_task k) (Q Ready)"
  shows "all_queued k' (Q(Ready := tl R))"
  unfolding all_queued_def
proof (intro allI impI)
  fix x
  assume x: "x \<noteq> 0" "place_of (tcbs k' x) \<noteq> Nowhere"
  have "R \<noteq> [] \<and> x = hd R \<Longrightarrow> place_of (tcbs k' x) = Nowhere"
    using st [of x] by (simp add: switched_state_def place_of_def)
  with x have hd: "R = [] \<or> x \<noteq> hd R" by blast
  then have in_tl: "x \<in> set R \<Longrightarrow> x \<in> set (tl R)" by (cases R) auto
  show "x \<in> set ((Q(Ready := tl R)) (place_of (tcbs k' x)))"
  proof (cases "x = current_task k \<and> can_run k x")
    case True
    then have "x \<in> set R" by (auto simp: R put_ready_def)
    moreover have "place_of (tcbs k' x) = Ready"
      using True hd st [of x] by (auto simp: switched_state_def place_of_def)
    ultimately show ?thesis using in_tl by simp
  next
    case False
    have "place_of (tcbs k' x) = place_of (tcbs k x)"
      using False hd st [of x] fr by (intro place_of_cong) (auto simp: switched_state_def same_prio_def)
    moreover have "x \<in> set (Q (place_of (tcbs k x)))"
      using all x calculation by (simp add: all_queued_def)
    moreover have "x \<in> set (Q Ready) \<Longrightarrow> x \<in> set R"
      using False queue_rep_distinct [OF kernel_rep_queues(1) [OF rep]]
      by (auto simp: R put_ready_def)
    ultimately show ?thesis using in_tl by auto
  qed
qed

text \<open>
  The specification of a switch on lists: the running task, if it can go on, is queued behind the
  tasks of its priority, and the first of the queue runs.
\<close>

definition abs_switch :: "(ptr \<Rightarrow> u8) \<Rightarrow> bool \<Rightarrow> ptr \<times> ptr list \<Rightarrow> ptr \<times> ptr list" where
  "abs_switch prio run = (\<lambda>(c, xs).
     case (if run then insert_by prio c xs else xs) of [] \<Rightarrow> (c, []) | y # ys \<Rightarrow> (y, ys))"

text \<open>C2: The context switch refines the list specification, and keeps every task in its queue.\<close>

theorem pend_sv_refines:
  assumes "kernel_rep k Q" "all_queued k Q" and c: "current_task k \<notin> set (Q Ready)"
  shows "\<exists>k' Q'. pend_sv_handler k = Some k' \<and> kernel_rep k' Q' \<and> all_queued k' Q' \<and>
     (current_task k', Q' Ready) =
       abs_switch (\<lambda>x. effective_priority (tcbs k x)) (can_run k (current_task k)) (current_task k, Q Ready)"
proof -
  let ?c = "current_task k"
  let ?R = "put_ready k ?c (Q Ready)"
  obtain k' where k': "pend_sv_handler k = Some k'" "kernel_rep k' (Q(Ready := tl ?R))" "same_prio k k'"
    "current_task k' = (if ?R = [] then ?c else hd ?R)" "\<And>x. tcb_state (tcbs k' x) = switched_state k ?R x"
    by (rule pend_sv_rep [OF assms(1) refl]) (rule that)
  have "(current_task k', tl ?R) =
      abs_switch (\<lambda>x. effective_priority (tcbs k x)) (can_run k ?c) (?c, Q Ready)"
    using k'(4) c by (cases ?R) (auto simp: abs_switch_def put_ready_def remove1_idem)
  with k' switch_all_queued [OF assms(1,2) k'(3,5) refl] show ?thesis
    by (intro exI [of _ k'] exI [of _ "Q(Ready := tl ?R)"]) simp
qed

theorem pend_sv_refines_witness:
  "\<exists>k' Q'. pend_sv_handler ex_sched = Some k' \<and> kernel_rep k' Q' \<and>
     (current_task k', Q' Ready) = (0x200, [0x300, 0x100])"
proof -
  have "abs_switch (\<lambda>x. effective_priority (tcbs ex_sched x)) (can_run ex_sched (current_task ex_sched))
      (current_task ex_sched, ex_sched_queues Ready) = (0x200, [0x300, 0x100])"
    by (simp add: abs_switch_def can_run_def ex_sched_def)
  moreover have "current_task ex_sched \<notin> set (ex_sched_queues Ready)" by (simp add: ex_sched_def)
  ultimately show ?thesis using pend_sv_refines [OF ex_sched_ok] by metis
qed

text \<open>A number of context switches in a row, the running task never blocking: time slicing.\<close>

fun switches :: "nat \<Rightarrow> kernel \<Rightarrow> kernel option" where
  "switches 0 k = Some k"
| "switches (Suc n) k = Option.bind (pend_sv_handler k) (switches n)"

lemma slice_step:
  assumes rep: "kernel_rep k Q" and Q: "Q Ready = xs @ ys" and c: "c = current_task k" "c \<noteq> 0"
    and run: "tcb_state (tcbs k c) = TASK_RUNNING"
    and eq: "\<forall>x\<in>set xs. effective_priority (tcbs k x) = effective_priority (tcbs k c)"
    and lower: "\<forall>y\<in>set ys. effective_priority (tcbs k c) < effective_priority (tcbs k y)"
  shows "\<exists>k'. pend_sv_handler k = Some k' \<and> same_prio k k' \<and> kernel_rep k' (Q(Ready := tl (xs @ [c]) @ ys)) \<and>
     current_task k' = hd (xs @ [c]) \<and> tcb_state (tcbs k' (current_task k')) = TASK_RUNNING"
proof -
  let ?R = "put_ready k c (Q Ready)"
  have "c \<notin> set (Q Ready)" using rep run by (intro not_queued) (auto simp: place_of_def)
  moreover have "takeWhile (\<lambda>y. effective_priority (tcbs k y) \<le> effective_priority (tcbs k c)) ys = []"
    "dropWhile (\<lambda>y. effective_priority (tcbs k y) \<le> effective_priority (tcbs k c)) ys = ys"
    using lower by (cases ys; simp add: not_le)+
  then have "takeWhile (\<lambda>y. effective_priority (tcbs k y) \<le> effective_priority (tcbs k c)) (xs @ ys) = xs"
    "dropWhile (\<lambda>y. effective_priority (tcbs k y) \<le> effective_priority (tcbs k c)) (xs @ ys) = ys"
    using eq by (simp_all add: takeWhile_append2 dropWhile_append2)
  ultimately have R: "?R = (xs @ [c]) @ ys"
    using run c Q by (simp add: put_ready_def can_run_def remove1_idem insert_by_takeWhile)
  obtain k' where k': "pend_sv_handler k = Some k'" "kernel_rep k' (Q(Ready := tl ?R))" "same_prio k k'"
    "current_task k' = (if ?R = [] then current_task k else hd ?R)"
    "\<And>x. tcb_state (tcbs k' x) = switched_state k ?R x"
    by (rule pend_sv_rep [OF rep, of ?R]) (auto simp: c)
  have "hd ?R = hd (xs @ [c])" "tl ?R = tl (xs @ [c]) @ ys" by (cases xs; simp add: R)+
  with k' R show ?thesis by (auto simp: switched_state_def)
qed

text \<open>C3: Round robin: tasks of the highest priority that do not block take turns. After \<open>n\<close> switches
  the task at position \<open>n\<close> (modulo their number) runs, whatever less urgent tasks are ready.\<close>

theorem round_robin:
  assumes "kernel_rep k Q" "Q Ready = xs @ ys" "current_task k = c" "c \<noteq> 0"
    "tcb_state (tcbs k c) = TASK_RUNNING"
    "\<forall>x\<in>set xs. effective_priority (tcbs k x) = effective_priority (tcbs k c)"
    "\<forall>y\<in>set ys. effective_priority (tcbs k c) < effective_priority (tcbs k y)"
  shows "\<exists>k'. switches n k = Some k' \<and> current_task k' = (c # xs) ! (n mod length (c # xs)) \<and>
     tcb_state (tcbs k' (current_task k')) = TASK_RUNNING"
  using assms
proof (induction n arbitrary: k Q c xs)
  case (Suc n)
  from slice_step [OF Suc.prems(1,2) Suc.prems(3) [symmetric] Suc.prems(4-7)] obtain k1 where
    1: "pend_sv_handler k = Some k1" "same_prio k k1" "kernel_rep k1 (Q(Ready := tl (xs @ [c]) @ ys))"
      "current_task k1 = hd (xs @ [c])" "tcb_state (tcbs k1 (current_task k1)) = TASK_RUNNING" by blast
  have xc: "hd (xs @ [c]) # tl (xs @ [c]) = xs @ [c]" by (cases xs) auto
  have "0 \<notin> set xs" using queue_rep_nonnull [OF kernel_rep_queues(1) [OF Suc.prems(1)]] Suc.prems(2) by auto
  with Suc.prems(4) have "0 \<notin> set (xs @ [c])" by auto
  then have nz: "hd (xs @ [c]) \<noteq> 0" by (metis xc list.set_intros(1))
  have eff: "effective_priority (tcbs k1 x) = effective_priority (tcbs k x)" for x
    using 1(2) by (simp add: same_prio_def)
  have "\<forall>x\<in>set (xs @ [c]). effective_priority (tcbs k x) = effective_priority (tcbs k c)"
    using Suc.prems(6) by simp
  then have same: "\<forall>x\<in>set (hd (xs @ [c]) # tl (xs @ [c])).
      effective_priority (tcbs k x) = effective_priority (tcbs k c)" by (simp only: xc)
  have h: "effective_priority (tcbs k (hd (xs @ [c]))) = effective_priority (tcbs k c)"
    and t: "\<forall>x\<in>set (tl (xs @ [c])). effective_priority (tcbs k x) = effective_priority (tcbs k c)"
    using same by (metis list.set_intros)+
  have "\<exists>k'. switches n k1 = Some k' \<and>
      current_task k' = (hd (xs @ [c]) # tl (xs @ [c])) ! (n mod length (hd (xs @ [c]) # tl (xs @ [c]))) \<and>
      tcb_state (tcbs k' (current_task k')) = TASK_RUNNING"
    by (rule Suc.IH [OF 1(3) _ 1(4) nz]) (use 1(4,5) h t Suc.prems(7) in \<open>auto simp: eff\<close>)
  then obtain k' where k': "switches n k1 = Some k'" "tcb_state (tcbs k' (current_task k')) = TASK_RUNNING"
    "current_task k' = (xs @ [c]) ! (n mod length (xs @ [c]))"
    unfolding xc by blast
  have "(xs @ [c]) ! (n mod length (xs @ [c])) = (c # xs) ! (Suc n mod length (c # xs))"
    using nth_rotate1 [of "n mod length (c # xs)" "c # xs"] by (simp add: mod_Suc_eq)
  with k' 1(1) show ?case by simp
qed simp

theorem round_robin_witness:
  "\<exists>k'. switches 5 (ex_sched\<lparr>tcbs := (tcbs ex_sched)(0x200 := (tcbs ex_sched 0x200)\<lparr>effective_priority := 5\<rparr>)\<rparr>)
     = Some k' \<and> current_task k' = 0x300"
proof -
  let ?k = "ex_sched\<lparr>tcbs := (tcbs ex_sched)(0x200 := (tcbs ex_sched 0x200)\<lparr>effective_priority := 5\<rparr>)\<rparr>"
  have "kernel_rep ?k ex_sched_queues"
    by (rule kernel_repI) (auto simp: ex_sched_def place_ok_def queue_rep_def links_def place_of_def)
  from round_robin [OF this, of "[0x200, 0x300]" "[]" "0x100" 5]
  have "\<exists>k'. switches 5 ?k = Some k' \<and>
      current_task k' = [0x100, 0x200, 0x300] ! (5 mod length [0x100, 0x200, 0x300::ptr])"
    by (simp add: ex_sched_def) blast
  moreover have "[0x100, 0x200, 0x300] ! (5 mod length [0x100, 0x200, 0x300::ptr]) = (0x300::ptr)" by simp
  ultimately show ?thesis by metis
qed

text \<open>A request for a context switch leaves no inversion: unless a switch is pending or under way,
  the current task is running and more urgent than every ready task, or nothing is ready. The request
  changes nothing but the pending bit.\<close>

theorem request_context_switch_no_inversion:
  assumes "kernel_rep k Q" "all_queued k Q" "ipsr \<noteq> 14"
  shows "request_context_switch ipsr k = k\<lparr>pendsv_set := pendsv_set (request_context_switch ipsr k)\<rparr> \<and>
    (pendsv_set (request_context_switch ipsr k) \<or>
     (\<forall>x. x \<noteq> 0 \<longrightarrow> tcb_state (tcbs k x) = TASK_READY \<longrightarrow>
        tcb_state (tcbs k (current_task k)) = TASK_RUNNING \<and>
        effective_priority (tcbs k (current_task k)) < effective_priority (tcbs k x)))"
proof -
  have rq: "queue_rep (tcbs k) (ready_queue k) (Q Ready)" by (rule kernel_rep_queues(1) [OF assms(1)])
  have "effective_priority (tcbs k (q_head (ready_queue k))) \<le> effective_priority (tcbs k x)" "Q Ready \<noteq> []"
    if "x \<noteq> 0" "tcb_state (tcbs k x) = TASK_READY" for x
  proof -
    have x: "x \<in> set (Q Ready)"
      using assms(2) that by (auto simp: all_queued_def place_of_def dest!: spec [of _ x])
    then show "Q Ready \<noteq> []" by auto
    moreover have "q_head (ready_queue k) \<noteq> 0" using rq x by (cases "Q Ready") (auto simp: queue_rep_def)
    ultimately show "effective_priority (tcbs k (q_head (ready_queue k))) \<le> effective_priority (tcbs k x)"
      using prioq.head_least [OF rq _ _ x] kernel_repD(3) [OF assms(1), of Ready] by simp
  qed
  moreover have "q_head (ready_queue k) = 0 \<longleftrightarrow> Q Ready = []" using rq by (cases "Q Ready") (auto simp: queue_rep_def)
  ultimately show ?thesis
    using assms(3) by (auto simp: request_context_switch_def Let_def scheduler_next_task_def
        intro: less_le_trans)
qed

theorem request_context_switch_witness:
  "pendsv_set (request_context_switch 15 ex_sched)"
  using request_context_switch_no_inversion [OF ex_sched_ok, of 15]
  by (auto simp: ex_sched_def dest: spec [of _ "0x200"])

end
