(* ===== verification/Sleep.thy ===== *)
theory Sleep
  imports Scheduler
begin

text \<open>
  The sleep queue and the tick (\<^verbatim>\<open>source/kernel/sleep.c\<close>, \<^verbatim>\<open>source/kernel/systick.c\<close>). Putting the
  current task to sleep inserts it into the tick ordered list; every tick wakes the due tasks at the
  front of that list. The list is ordered by the unsigned tick, while a task is due in wrap-around
  order, so the two agree only as long as the sleeping ticks do not straddle the wrap of the
  counter; both cases are covered below.
\<close>

section \<open>Operations\<close>

definition sleep_for_ticks :: "u32 \<Rightarrow> kernel \<Rightarrow> kernel option" where
  "sleep_for_ticks ticks k =
     (if ticks = 0 \<or> current_task k = 0 then Some k
      else if tcb_state (tcbs k (current_task k)) \<noteq> TASK_RUNNING then Some k
      else do {
        let k = upd_task (current_task k) (\<lambda>t. t\<lparr>tcb_state := TASK_SLEEPING\<rparr>) k;
        let k = upd_task (current_task k) (\<lambda>t. t\<lparr>wake_tick := system_ticks k + ticks\<rparr>) k;
        (q, ts) \<leftarrow> sleep_queue_push (sleep_list k) (current_task k) (tcbs k);
        Some (k\<lparr>sleep_list := q, tcbs := ts\<rparr>)
      })"

partial_function (option) wake_loop :: "kernel \<Rightarrow> kernel option" where
  "wake_loop k =
     (let (to_wakeup, q) = sleep_queue_pop (system_ticks k) (sleep_list k) (tcbs k);
          k = k\<lparr>sleep_list := q\<rparr> in
      if to_wakeup = 0 then Some k
      else Option.bind
             (scheduler_put_task to_wakeup (upd_task to_wakeup (\<lambda>t. t\<lparr>tcb_state := TASK_READY\<rparr>) k))
             wake_loop)"

definition sleep_tick :: "kernel \<Rightarrow> kernel option" where
  "sleep_tick k = wake_loop k"

text \<open>SysTick is exception 15.\<close>

definition systick_handler :: "kernel \<Rightarrow> kernel option" where
  "systick_handler k = do {
     let k = k\<lparr>system_ticks := system_ticks k + 1\<rparr>;
     k \<leftarrow> sleep_tick k;
     Some (request_context_switch 15 k)
   }"

declare wake_loop.simps [code]

section \<open>Deadlines in wrap-around order\<close>

lemma due_iff: "due now tick \<longleftrightarrow> unat (now - tick) < 2 ^ 31"
  by (simp add: due_def sint_nonneg_iff)

lemma due_no_wrap:
  assumes "\<bar>uint now - uint tick\<bar> < 2 ^ 31"
  shows "due now tick \<longleftrightarrow> tick \<le> now"
proof (cases "tick \<le> now")
  case True
  then have "uint tick \<le> uint now" by (simp add: word_le_def)
  moreover have "uint (now - tick) = uint now - uint tick" using True by (simp add: uint_sub_if' word_le_def)
  ultimately show ?thesis using assms True by (simp add: due_iff unat_eq_nat_uint nat_less_iff)
next
  case False
  then have "uint now < uint tick" by (simp add: word_le_def)
  then have "uint (now - tick) = uint now - uint tick + 2 ^ 32" by (simp add: uint_sub_if')
  with assms False show ?thesis by (simp add: due_iff unat_eq_nat_uint nat_less_iff)
qed

section \<open>Effect on the queues\<close>

lemma queue_at_asleep_cong:
  "sems k' = sems k \<Longrightarrow> mutexes k' = mutexes k \<Longrightarrow> ready_queue k' = ready_queue k \<Longrightarrow>
   l \<noteq> Asleep \<Longrightarrow> queue_at k' l = queue_at k l"
  by (cases l) auto

text \<open>A running current task is queued nowhere; it enters the sleep list by its wake-up tick.\<close>

lemma sleep_for_ticks_rep:
  assumes rep: "kernel_rep k Q" and c: "c = current_task k" "c \<noteq> 0"
    and run: "tcb_state (tcbs k c) = TASK_RUNNING" and ticks: "ticks \<noteq> 0"
  obtains k' where "sleep_for_ticks ticks k = Some k'"
    "kernel_rep k' (Q(Asleep := insert_by (\<lambda>x. wake_tick (tcbs k' x)) c (Q Asleep)))"
    "tcb_state (tcbs k' c) = TASK_SLEEPING" "wake_tick (tcbs k' c) = system_ticks k + ticks"
    "\<And>x. x \<noteq> c \<Longrightarrow> wake_tick (tcbs k' x) = wake_tick (tcbs k x)" "system_ticks k' = system_ticks k"
proof -
  have nq: "c \<notin> set (Q l)" for l
    using rep run by (intro not_queued) (auto simp: place_of_def)
  let ?ts = "(tcbs k)(c := (tcbs k c)\<lparr>tcb_state := TASK_SLEEPING, wake_tick := system_ticks k + ticks\<rparr>)"
  let ?ys = "insert_by (\<lambda>x. wake_tick (?ts x)) c (Q Asleep)"
  have same: "?ts x = tcbs k x" if "x \<noteq> c" for x using that by simp
  have "queue_rep ?ts (sleep_list k) (Q Asleep)"
    using kernel_rep_queues(2) [OF rep] nq [of Asleep]
    by (subst queue_rep_cong_links [of _ _ "tcbs k"]) auto
  from sleepq.pushE [OF this c(2) nq] obtain q ts' where
    p: "sleep_queue_push (sleep_list k) c ?ts = Some (q, ts')" "queue_rep ts' q ?ys"
      "next_frame (insert c (set (Q Asleep))) ?ts ts'" .
  define k' where "k' = k\<lparr>sleep_list := q, tcbs := ts'\<rparr>"
  have "upd_task c (\<lambda>t. t\<lparr>wake_tick := system_ticks k + ticks\<rparr>)
      (upd_task c (\<lambda>t. t\<lparr>tcb_state := TASK_SLEEPING\<rparr>) k) = k\<lparr>tcbs := ?ts\<rparr>"
    by (simp add: upd_task_def)
  with p(1) c run ticks have eq: "sleep_for_ticks ticks k = Some k'"
    by (simp add: sleep_for_ticks_def k'_def)
  have wk: "wake_tick (ts' x) = wake_tick (?ts x)" for x by (rule next_frameD(4) [OF p(3)])
  have srt: "sorted_by (\<lambda>x. wake_tick (?ts x)) (Q Asleep)"
    using kernel_repD(3) [OF rep, of Asleep] nq [of Asleep]
    by (subst sorted_by_cong [of _ _ "\<lambda>x. wake_tick (tcbs k x)"]) auto
  have "kernel_rep k' (Q(Asleep := ?ys))"
  proof (rule kernel_rep_step [OF rep, where t = c])
    have "place_of (ts' x) = Asleep" if "x \<in> set ?ys" for x
      using that kernel_repD(2) [OF rep, of x Asleep] nq [of Asleep]
      by (subst place_of_frame [OF p(3)]) (auto simp: place_of_def)
    then show "place_ok k' Asleep ?ys"
      using p(2) sorted_insert_by [OF srt, of c] by (simp add: place_ok_def k'_def wk)
    then show "tcb_next (tcbs k' x) = 0"
      if "x \<in> insert c (set (Q Asleep))" "tcb_state (tcbs k' x) = TASK_RUNNING" for x
      using that by (auto simp: place_ok_def place_of_def)
    show "tcbs k' x = tcbs k x" if "x \<notin> insert c (set (Q Asleep))" for x
      using that next_frameD(8) [OF p(3), of x] same [of x] by (simp add: k'_def)
  qed (use nq in \<open>auto simp: k'_def intro!: queue_at_asleep_cong\<close>)
  with eq show thesis
    by (intro that [of k']) (auto simp: k'_def wk next_frameD(1) [OF p(3)])
qed

text \<open>One woken task: out of the sleep list, into the ready queue behind its priority.\<close>

lemma wake_one:
  assumes rep: "kernel_rep k Q" and Q: "Q Asleep = x # xs"
    and due: "due (system_ticks k) (wake_tick (tcbs k x))"
  obtains q k' where "sleep_queue_pop (system_ticks k) (sleep_list k) (tcbs k) = (x, q)" "x \<noteq> 0"
    "scheduler_put_task x (upd_task x (\<lambda>t. t\<lparr>tcb_state := TASK_READY\<rparr>) (k\<lparr>sleep_list := q\<rparr>)) = Some k'"
    "kernel_rep k' (Q(Asleep := xs, Ready := insert_by (\<lambda>y. effective_priority (tcbs k y)) x (Q Ready)))"
    "same_prio k k'" "system_ticks k' = system_ticks k" "current_task k' = current_task k"
    "sems k' = sems k" "mutexes k' = mutexes k" "pendsv_set k' = pendsv_set k"
    "\<And>y. y \<noteq> x \<Longrightarrow> tcb_state (tcbs k' y) = tcb_state (tcbs k y)"
proof -
  have rq: "queue_rep (tcbs k) (sleep_list k) (x # xs)"
    using kernel_rep_queues(2) [OF rep] Q by simp
  have x: "x \<noteq> 0" "x \<notin> set xs" "place_of (tcbs k x) = Asleep"
    using queue_rep_nonnull [OF rq] queue_rep_distinct [OF rq] kernel_repD(2) [OF rep, of x Asleep] Q
    by auto
  define q where "q = snd (sleep_queue_pop (system_ticks k) (sleep_list k) (tcbs k))"
  have pop: "sleep_queue_pop (system_ticks k) (sleep_list k) (tcbs k) = (x, q)"
    and q: "queue_rep (tcbs k) q xs"
    using rq due by (auto simp: q_def sleep_queue_pop_def queue_rep_def tcb_next_links Let_def)
  let ?k = "upd_task x (\<lambda>t. t\<lparr>tcb_state := TASK_READY\<rparr>) (k\<lparr>sleep_list := q\<rparr>)"
  have same: "tcbs ?k y = tcbs k y" if "y \<noteq> x" for y using that by simp
  have rep1: "kernel_rep ?k (Q(Asleep := xs))"
  proof (rule kernel_rep_step [OF rep, where t = x])
    have "queue_rep (tcbs ?k) q xs"
      using q x(2) by (subst queue_rep_cong_links [of _ _ "tcbs k"]) auto
    moreover have "place_of (tcbs ?k y) = Asleep" if "y \<in> set xs" for y
      using same [of y] that x(2) Q kernel_repD(2) [OF rep, of y Asleep] by auto
    moreover have "ordered_at (tcbs k) Asleep xs" using kernel_repD(3) [OF rep, of Asleep] Q by simp
    then have "ordered_at (tcbs ?k) Asleep xs"
      using same x(2) by (subst ordered_at_cong [of _ _ "tcbs k"]) metis+
    ultimately show "place_ok ?k Asleep xs" by (simp add: place_ok_def)
    show "x \<notin> set (Q l)" if "l \<noteq> Asleep" for l
      using queued_once [OF rep, of x Asleep l] Q that by auto
    show "tcb_next (tcbs ?k y) = 0"
      if "y \<in> insert x (set (Q Asleep))" "tcb_state (tcbs ?k y) = TASK_RUNNING" for y
      using that kernel_repD(4) [OF rep, of y] by (auto split: if_splits)
  qed (auto intro!: queue_at_asleep_cong)
  have nin: "x \<notin> set (Q Ready)" using queued_once [OF rep, of x Asleep Ready] Q by auto
  have run: "can_run ?k x" using x(1) by (simp add: can_run_def)
  have R: "put_ready ?k x (Q Ready) = insert_by (\<lambda>y. effective_priority (tcbs k y)) x (Q Ready)"
    using run nin by (auto simp: put_ready_def remove1_idem intro!: insert_by_cong)
  from scheduler_put_task_accept [OF rep1 run] obtain k' where
    "scheduler_put_task x ?k = Some k'" "kernel_rep k' (Q(Asleep := xs, Ready := put_ready ?k x (Q Ready)))"
    "sched_frame ?k k'" "\<forall>y. y \<noteq> x \<longrightarrow> tcb_state (tcbs k' y) = tcb_state (tcbs ?k y)"
    by auto
  then show thesis
    using pop x(1) R by (intro that [of q k']) (auto simp: sched_frame_def same_prio_def)
qed

definition woken :: "kernel \<Rightarrow> placement \<Rightarrow> ptr list" where
  "woken k Q = takeWhile (\<lambda>x. due (system_ticks k) (wake_tick (tcbs k x))) (Q Asleep)"

text \<open>The tick wakes the longest due prefix of the sleep list, and returns.\<close>

lemma wake_loop_rep:
  assumes "kernel_rep k Q"
  shows "\<exists>k'. wake_loop k = Some k' \<and> same_prio k k' \<and> system_ticks k' = system_ticks k \<and>
     current_task k' = current_task k \<and> sems k' = sems k \<and> mutexes k' = mutexes k \<and>
     pendsv_set k' = pendsv_set k \<and>
     kernel_rep k' (Q(Asleep := drop (length (woken k Q)) (Q Asleep),
       Ready := fold (insert_by (\<lambda>y. effective_priority (tcbs k y))) (woken k Q) (Q Ready)))"
  using assms
proof (induction "Q Asleep" arbitrary: k Q)
  case Nil
  then have "q_head (sleep_list k) = 0"
    using kernel_rep_queues(2) [OF Nil.prems] by (simp add: queue_rep_Nil)
  then have "wake_loop k = Some k"
    by (simp add: wake_loop.simps [of k] sleep_queue_pop_def)
  with Nil show ?case by (simp add: woken_def same_prio_def fun_upd_idem)
next
  case (Cons x xs)
  show ?case
  proof (cases "due (system_ticks k) (wake_tick (tcbs k x))")
    case False
    have "q_head (sleep_list k) = x"
      using kernel_rep_queues(2) [OF Cons.prems] Cons.hyps(2) by (metis queue_rep_head list.simps(5))
    with False have "wake_loop k = Some k"
      by (simp add: wake_loop.simps [of k] sleep_queue_pop_def)
    moreover have "woken k Q = []" using False Cons.hyps(2) [symmetric] by (simp add: woken_def)
    ultimately show ?thesis using Cons.prems by (simp add: same_prio_def fun_upd_idem)
  next
    case True
    let ?R = "insert_by (\<lambda>y. effective_priority (tcbs k y)) x (Q Ready)"
    from wake_one [OF Cons.prems Cons.hyps(2) [symmetric] True] obtain q k1 where
      pop: "sleep_queue_pop (system_ticks k) (sleep_list k) (tcbs k) = (x, q)" "x \<noteq> 0"
      and put: "scheduler_put_task x (upd_task x (\<lambda>t. t\<lparr>tcb_state := TASK_READY\<rparr>)
                  (k\<lparr>sleep_list := q\<rparr>)) = Some k1"
      and rep1: "kernel_rep k1 (Q(Asleep := xs, Ready := ?R))"
      and fr: "same_prio k k1" "system_ticks k1 = system_ticks k" "current_task k1 = current_task k"
        "sems k1 = sems k" "mutexes k1 = mutexes k" "pendsv_set k1 = pendsv_set k" by metis
    have "(Q(Asleep := xs, Ready := ?R)) Asleep = xs" by simp
    from Cons.hyps(1) [OF this [symmetric] rep1] obtain k' where k': "wake_loop k1 = Some k'"
      "same_prio k1 k'" "system_ticks k' = system_ticks k1" "current_task k' = current_task k1"
      "sems k' = sems k1" "mutexes k' = mutexes k1" "pendsv_set k' = pendsv_set k1"
      "kernel_rep k' (Q(Asleep := drop (length (woken k1 (Q(Asleep := xs, Ready := ?R)))) xs,
        Ready := fold (insert_by (\<lambda>y. effective_priority (tcbs k1 y)))
          (woken k1 (Q(Asleep := xs, Ready := ?R))) ?R))"
      by (auto simp: fun_upd_twist)
    have "wake_loop k = Some k'"
      using pop put k'(1) by (simp add: wake_loop.simps [of k])
    moreover have "woken k Q = x # woken k1 (Q(Asleep := xs, Ready := ?R))"
      using True fr Cons.hyps(2) [symmetric] by (simp add: woken_def same_prio_def)
    moreover have "(\<lambda>y. effective_priority (tcbs k1 y)) = (\<lambda>y. effective_priority (tcbs k y))"
      using fr(1) by (simp add: same_prio_def)
    ultimately show ?thesis
      using k' fr Cons.hyps(2) [symmetric] by (simp add: same_prio_def)
  qed
qed

lemma request_fields [simp]:
  "tcbs (request_context_switch i k) = tcbs k" "system_ticks (request_context_switch i k) = system_ticks k"
  "kernel_rep (request_context_switch i k) Q = kernel_rep k Q"
  "current_task (request_context_switch i k) = current_task k"
  by (simp_all add: request_context_switch_def Let_def)

text \<open>The tick interrupt as a whole: \<open>k1\<close> is the state in which the queue is scanned.\<close>

lemma systick_rep:
  assumes rep: "kernel_rep k Q" and k1: "k1 = k\<lparr>system_ticks := system_ticks k + 1\<rparr>"
  obtains k' where "systick_handler k = Some k'" "system_ticks k' = system_ticks k + 1" "same_prio k k'"
    "kernel_rep k' (Q(Asleep := drop (length (woken k1 Q)) (Q Asleep),
       Ready := fold (insert_by (\<lambda>y. effective_priority (tcbs k y))) (woken k1 Q) (Q Ready)))"
    "current_task k' = current_task k"
proof -
  have "kernel_rep k1 Q" using rep by (simp add: k1)
  from wake_loop_rep [OF this] obtain k2 where "wake_loop k1 = Some k2" "same_prio k1 k2"
    "system_ticks k2 = system_ticks k1" "current_task k2 = current_task k1"
    "kernel_rep k2 (Q(Asleep := drop (length (woken k1 Q)) (Q Asleep),
       Ready := fold (insert_by (\<lambda>y. effective_priority (tcbs k1 y))) (woken k1 Q) (Q Ready)))" by blast
  then show thesis
    by (intro that [of "request_context_switch 15 k2"])
      (auto simp: systick_handler_def sleep_tick_def k1 same_prio_def)
qed

lemma set_fold_insert_by [simp]: "set (fold (insert_by f) xs ys) = set xs \<union> set ys"
  by (induction xs arbitrary: ys) auto

text \<open>Within a window around the current tick the due prefix is the set of tasks whose tick has come.\<close>

lemma systick_due:
  assumes "kernel_rep k Q" and now: "now = system_ticks k + 1"
    and window: "\<forall>x\<in>set (Q Asleep). \<bar>uint now - uint (wake_tick (tcbs k x))\<bar> < 2 ^ 31"
  shows "\<exists>k' Q'. systick_handler k = Some k' \<and> system_ticks k' = now \<and> same_prio k k' \<and> kernel_rep k' Q' \<and>
     set (Q' Ready) = set (Q Ready) \<union> {x \<in> set (Q Asleep). wake_tick (tcbs k x) \<le> now} \<and>
     Q' Asleep = filter (\<lambda>x. now < wake_tick (tcbs k x)) (Q Asleep)"
proof -
  let ?k1 = "k\<lparr>system_ticks := system_ticks k + 1\<rparr>"
  obtain k' where k': "systick_handler k = Some k'" "system_ticks k' = system_ticks k + 1" "same_prio k k'"
    "kernel_rep k' (Q(Asleep := drop (length (woken ?k1 Q)) (Q Asleep),
       Ready := fold (insert_by (\<lambda>y. effective_priority (tcbs k y))) (woken ?k1 Q) (Q Ready)))"
    (is "kernel_rep k' ?Q'")
    by (rule systick_rep [OF assms(1) refl], rule that)
  have srt: "sorted_by (\<lambda>x. wake_tick (tcbs k x)) (Q Asleep)"
    using kernel_repD(3) [OF assms(1), of Asleep] by simp
  have "woken ?k1 Q = takeWhile (\<lambda>x. wake_tick (tcbs k x) \<le> now) (Q Asleep)"
    using window due_no_wrap by (auto simp: woken_def now intro!: takeWhile_cong)
  moreover have "drop (length (takeWhile (\<lambda>x. wake_tick (tcbs k x) \<le> now) (Q Asleep))) (Q Asleep) =
      filter (\<lambda>x. now < wake_tick (tcbs k x)) (Q Asleep)"
    using dropWhile_eq_filter_by [OF srt] by (simp add: dropWhile_eq_drop [symmetric])
  ultimately have "?Q' Asleep = filter (\<lambda>x. now < wake_tick (tcbs k x)) (Q Asleep)"
    "set (?Q' Ready) = set (Q Ready) \<union> {x \<in> set (Q Asleep). wake_tick (tcbs k x) \<le> now}"
    using takeWhile_eq_filter_by [OF srt, of now] by auto
  with k' now show ?thesis by (intro exI [of _ k'] exI [of _ ?Q']) simp
qed

text \<open>
  What happens while a task sleeps: ticks, context switches, and other tasks that go to sleep for \<open>t\<close>
  ticks, in any order.
\<close>

datatype sleep_event = Tick | Switch | Sleep u32

fun sleep_step :: "sleep_event \<Rightarrow> kernel \<Rightarrow> kernel option" where
  "sleep_step Tick k = systick_handler k"
| "sleep_step Switch k = pend_sv_handler k"
| "sleep_step (Sleep t) k = sleep_for_ticks t k"

fun sleep_run :: "sleep_event list \<Rightarrow> kernel \<Rightarrow> kernel option" where
  "sleep_run [] k = Some k"
| "sleep_run (e # es) k = Option.bind (sleep_step e k) (sleep_run es)"

text \<open>Away from the wrap: every sleeper's tick lies ahead, at most \<open>2^31\<close> from now.\<close>

definition sleepers_ahead :: "kernel \<Rightarrow> placement \<Rightarrow> bool" where
  "sleepers_ahead k Q \<longleftrightarrow> (\<forall>x\<in>set (Q Asleep). unat (system_ticks k) < unat (wake_tick (tcbs k x)) \<and>
     unat (wake_tick (tcbs k x)) \<le> unat (system_ticks k) + 2 ^ 31)"

definition in_time :: "kernel \<Rightarrow> u32 \<Rightarrow> bool" where
  "in_time k t \<longleftrightarrow> unat t \<le> 2 ^ 31 \<and> unat (system_ticks k) + unat t < 2 ^ 32"

definition asleep_until :: "kernel \<Rightarrow> placement \<Rightarrow> ptr \<Rightarrow> nat \<Rightarrow> bool" where
  "asleep_until k Q c T \<longleftrightarrow> c \<in> set (Q Asleep) \<and> unat (wake_tick (tcbs k c)) = T"

lemma placed_state:
  assumes "kernel_rep k Q"
  shows "x \<in> set (Q Asleep) \<Longrightarrow> tcb_state (tcbs k x) = TASK_SLEEPING"
    "x \<in> set (Q Ready) \<Longrightarrow> tcb_state (tcbs k x) = TASK_READY"
  using kernel_repD(2) [OF assms, of x Asleep] kernel_repD(2) [OF assms, of x Ready]
  by (auto simp: place_of_def split: task_state_t.splits wait_type_t.splits)

lemma unat_plus_below: "unat (a::u32) + unat b < 2 ^ 32 \<Longrightarrow> unat (a + b) = unat a + unat b"
  by (simp add: unat_word_ariths)

lemma sleep_call_ahead:
  assumes rep: "kernel_rep k Q" and ah: "sleepers_ahead k Q" and t: "in_time k t"
  shows "\<exists>k' Q'. sleep_for_ticks t k = Some k' \<and> kernel_rep k' Q' \<and> sleepers_ahead k' Q' \<and>
     system_ticks k' = system_ticks k \<and>
     (\<forall>c T. asleep_until k Q c T \<longrightarrow> asleep_until k' Q' c T) \<and>
     (t \<noteq> 0 \<longrightarrow> current_task k \<noteq> 0 \<longrightarrow> tcb_state (tcbs k (current_task k)) = TASK_RUNNING \<longrightarrow>
        asleep_until k' Q' (current_task k) (unat (system_ticks k) + unat t))"
proof (cases "t = 0 \<or> current_task k = 0 \<or> tcb_state (tcbs k (current_task k)) \<noteq> TASK_RUNNING")
  case True
  then have "sleep_for_ticks t k = Some k" by (auto simp: sleep_for_ticks_def)
  with True rep ah show ?thesis by (intro exI [of _ k] exI [of _ Q]) auto
next
  case False
  let ?c = "current_task k"
  obtain k' where k': "sleep_for_ticks t k = Some k'"
    "kernel_rep k' (Q(Asleep := insert_by (\<lambda>x. wake_tick (tcbs k' x)) ?c (Q Asleep)))" (is "kernel_rep k' ?Q")
    "wake_tick (tcbs k' ?c) = system_ticks k + t"
    "\<And>x. x \<noteq> ?c \<Longrightarrow> wake_tick (tcbs k' x) = wake_tick (tcbs k x)" "system_ticks k' = system_ticks k"
    by (rule sleep_for_ticks_rep [OF rep refl, of t]) (use False in auto)
  have nin: "?c \<notin> set (Q Asleep)" using placed_state [OF rep, of ?c] False by auto
  have un: "unat (system_ticks k + t) = unat (system_ticks k) + unat t"
    using t by (intro unat_plus_below) (simp add: in_time_def)
  have wk: "wake_tick (tcbs k' x) = wake_tick (tcbs k x)" if "x \<in> set (Q Asleep)" for x
    using k'(4) [of x] nin that by blast
  have "unat t \<noteq> 0" using False by (simp add: unat_eq_0)
  then have "sleepers_ahead k' ?Q"
    using ah t by (auto simp: sleepers_ahead_def k'(3,5) wk un in_time_def)
  with k' nin show ?thesis
    by (intro exI [of _ k'] exI [of _ ?Q]) (auto simp: asleep_until_def wk un)
qed

lemma switch_ahead:
  assumes "kernel_rep k Q" "sleepers_ahead k Q"
  shows "\<exists>k' Q'. pend_sv_handler k = Some k' \<and> kernel_rep k' Q' \<and> sleepers_ahead k' Q' \<and>
     system_ticks k' = system_ticks k \<and> (\<forall>c T. asleep_until k Q c T \<longrightarrow> asleep_until k' Q' c T)"
  by (rule pend_sv_rep [OF assms(1) refl])
    (use assms(2) in \<open>fastforce simp: sleepers_ahead_def asleep_until_def same_prio_def\<close>)

lemma window_int: "a \<le> b \<Longrightarrow> b < a + 2 ^ 31 \<Longrightarrow> \<bar>int a - int b\<bar> < 2 ^ 31"
  by simp

lemma tick_ahead:
  assumes rep: "kernel_rep k Q" and ah: "sleepers_ahead k Q"
    and c: "asleep_until k Q c T" and no_wrap: "unat (system_ticks k) + 1 < 2 ^ 32"
  shows "\<exists>k' Q'. systick_handler k = Some k' \<and> kernel_rep k' Q' \<and> sleepers_ahead k' Q' \<and>
     unat (system_ticks k') = unat (system_ticks k) + 1 \<and>
     (if unat (system_ticks k) + 1 = T then c \<in> set (Q' Ready) else asleep_until k' Q' c T)"
proof -
  define now where "now = system_ticks k + 1"
  have un: "unat now = unat (system_ticks k) + 1"
    using unat_plus_below [of "system_ticks k" 1] no_wrap by (simp add: now_def)
  have window: "\<bar>uint now - uint (wake_tick (tcbs k x))\<bar> < 2 ^ 31" if "x \<in> set (Q Asleep)" for x
  proof -
    have "unat now \<le> unat (wake_tick (tcbs k x))" "unat (wake_tick (tcbs k x)) < unat now + 2 ^ 31"
      using ah that un by (auto simp: sleepers_ahead_def)
    then show ?thesis unfolding uint_nat by (rule window_int)
  qed
  from systick_due [OF rep now_def] window obtain k' Q' where
    k': "systick_handler k = Some k'" "system_ticks k' = now" "same_prio k k'" "kernel_rep k' Q'"
      "set (Q' Ready) = set (Q Ready) \<union> {x \<in> set (Q Asleep). wake_tick (tcbs k x) \<le> now}"
      "Q' Asleep = filter (\<lambda>x. now < wake_tick (tcbs k x)) (Q Asleep)" by blast
  have wk: "wake_tick (tcbs k' x) = wake_tick (tcbs k x)" for x using k'(3) by (simp add: same_prio_def)
  have "sleepers_ahead k' Q'"
    using ah by (fastforce simp: sleepers_ahead_def k'(2,6) wk un word_less_nat_alt)
  moreover have "if unat (system_ticks k) + 1 = T then c \<in> set (Q' Ready) else asleep_until k' Q' c T"
    using c ah by (auto simp: asleep_until_def k'(5,6) wk un word_less_nat_alt word_le_nat_alt sleepers_ahead_def)
  ultimately show ?thesis using k' un by auto
qed

text \<open>As long as fewer ticks pass than the deadline is away, a sleeper stays asleep.\<close>

lemma sleep_run_ahead:
  assumes "kernel_rep k Q" "sleepers_ahead k Q" "asleep_until k Q c T"
    "unat (system_ticks k) + count_list es Tick < T"
    "\<And>t. Sleep t \<in> set es \<Longrightarrow> unat t \<le> 2 ^ 31 \<and> T + unat t < 2 ^ 32" "T < 2 ^ 32"
  shows "\<exists>k' Q'. sleep_run es k = Some k' \<and> kernel_rep k' Q' \<and> sleepers_ahead k' Q' \<and> asleep_until k' Q' c T \<and>
     unat (system_ticks k') = unat (system_ticks k) + count_list es Tick"
  using assms
proof (induction es arbitrary: k Q)
  case Nil
  then show ?case by auto
next
  case (Cons e es)
  have "\<exists>k1 Q1. sleep_step e k = Some k1 \<and> kernel_rep k1 Q1 \<and> sleepers_ahead k1 Q1 \<and> asleep_until k1 Q1 c T \<and>
     unat (system_ticks k1) = unat (system_ticks k) + (if e = Tick then 1 else 0)"
  proof (cases e)
    case Tick
    with tick_ahead [OF Cons.prems(1-3)] Cons.prems(4,6) show ?thesis by fastforce
  next
    case Switch
    with switch_ahead [OF Cons.prems(1,2)] Cons.prems(3) show ?thesis by fastforce
  next
    case (Sleep t)
    then have "in_time k t" using Cons.prems(4) Cons.prems(5) [of t] by (simp add: in_time_def)
    with sleep_call_ahead [OF Cons.prems(1,2)] Cons.prems(3) Sleep show ?thesis by fastforce
  qed
  then obtain k1 Q1 where k1: "sleep_step e k = Some k1" "kernel_rep k1 Q1" "sleepers_ahead k1 Q1"
    "asleep_until k1 Q1 c T" "unat (system_ticks k1) = unat (system_ticks k) + (if e = Tick then 1 else 0)"
    by blast
  have "unat (system_ticks k1) + count_list es Tick < T" using Cons.prems(4) k1(5) by (auto split: if_splits)
  from Cons.IH [OF k1(2-4) this _ Cons.prems(6)] Cons.prems(5) obtain k' Q' where
    "sleep_run es k1 = Some k'" "kernel_rep k' Q'" "sleepers_ahead k' Q'" "asleep_until k' Q' c T"
    "unat (system_ticks k') = unat (system_ticks k1) + count_list es Tick" by auto
  with k1 show ?case by (intro exI [of _ k'] exI [of _ Q']) auto
qed

section \<open>Properties\<close>

text \<open>An example around the wrap of the tick counter: task \<open>0x100\<close> went to sleep at tick
  \<open>0xFFFFFFF0\<close> for \<open>0x20\<close> ticks, so until tick \<open>0x10\<close>; task \<open>0x200\<close> runs.\<close>

definition ex_wrap :: kernel where
  "ex_wrap = zero_kernel\<lparr>current_task := 0x200, system_ticks := 0xFFFFFFF0,
     sleep_list := \<lparr>q_head = 0x100, q_tail = 0x100\<rparr>,
     tcbs := (\<lambda>_. zero_tcb)(0x100 := (task_with TASK_SLEEPING 5)\<lparr>wake_tick := 0x10\<rparr>,
       0x200 := task_with TASK_RUNNING 5)\<rparr>"

abbreviation ex_wrap_queues :: placement where
  "ex_wrap_queues \<equiv> (\<lambda>_. [])(Asleep := [0x100])"

lemma ex_wrap_ok: "kernel_rep ex_wrap ex_wrap_queues"
  by (rule kernel_repI)
    (auto simp: ex_wrap_def place_ok_def queue_rep_def links_def place_of_def)

text \<open>C10: A task that sleeps for \<open>ticks\<close> ticks, at most \<open>2^31\<close>, is asleep for exactly that many ticks, as
  long as the tick counter and the deadlines stay below the wrap at \<open>2^32\<close>: whatever context switches
  and sleeps of other tasks come between the ticks, it is still asleep before the last of them and
  ready right after it.\<close>

theorem sleep_for_ticks_exact:
  assumes "kernel_rep k Q" "current_task k \<noteq> 0" "tcb_state (tcbs k (current_task k)) = TASK_RUNNING"
    "sleepers_ahead k Q" "in_time k ticks" "ticks \<noteq> 0"
    and "\<And>t. Sleep t \<in> set es \<Longrightarrow> unat t \<le> 2 ^ 31 \<and> unat (system_ticks k) + unat ticks + unat t < 2 ^ 32"
    and "count_list es Tick < unat ticks"
  shows "\<exists>k0 k1 k2. sleep_for_ticks ticks k = Some k0 \<and> sleep_run es k0 = Some k1 \<and>
     tcb_state (tcbs k1 (current_task k)) = TASK_SLEEPING \<and> systick_handler k1 = Some k2 \<and>
     tcb_state (tcbs k2 (current_task k)) =
       (if count_list es Tick + 1 = unat ticks then TASK_READY else TASK_SLEEPING)"
proof -
  let ?c = "current_task k" and ?T = "unat (system_ticks k) + unat ticks"
  from sleep_call_ahead [OF assms(1,4,5)] obtain k0 Q0 where
    k0: "sleep_for_ticks ticks k = Some k0" "kernel_rep k0 Q0" "sleepers_ahead k0 Q0"
      "system_ticks k0 = system_ticks k" "asleep_until k0 Q0 ?c ?T"
    using assms(2,3,6) by (auto simp: asleep_until_def)
  have "\<And>t. Sleep t \<in> set es \<Longrightarrow> unat t \<le> 2 ^ 31 \<and> ?T + unat t < 2 ^ 32" using assms(7) by blast
  from sleep_run_ahead [OF k0(2,3,5) _ this, of es] assms(5,8) k0(4) obtain k1 Q1 where
    k1: "sleep_run es k0 = Some k1" "kernel_rep k1 Q1" "sleepers_ahead k1 Q1" "asleep_until k1 Q1 ?c ?T"
      "unat (system_ticks k1) = unat (system_ticks k) + count_list es Tick"
    by (auto simp: in_time_def)
  from tick_ahead [OF k1(2,3), of ?c ?T] k1(4,5) assms(5,8) obtain k2 Q2 where
    k2: "systick_handler k1 = Some k2" "kernel_rep k2 Q2"
      "if unat (system_ticks k1) + 1 = ?T then ?c \<in> set (Q2 Ready) else asleep_until k2 Q2 ?c ?T"
    by (auto simp: in_time_def)
  have "tcb_state (tcbs k2 ?c) = (if count_list es Tick + 1 = unat ticks then TASK_READY else TASK_SLEEPING)"
    using k2(3) k1(5) placed_state [OF k2(2), of ?c] by (auto simp: asleep_until_def split: if_splits)
  with k0(1) k1 k2(1) show ?thesis using placed_state [OF k1(2), of ?c] by (auto simp: asleep_until_def)
qed

theorem sleep_for_ticks_exact_witness:
  "\<exists>k0 k1 k2. sleep_for_ticks 2 (ex_wrap\<lparr>system_ticks := 0\<rparr>) = Some k0 \<and>
     sleep_run [Switch, Tick, Sleep 7] k0 = Some k1 \<and> tcb_state (tcbs k1 0x200) = TASK_SLEEPING \<and>
     systick_handler k1 = Some k2 \<and> tcb_state (tcbs k2 0x200) = TASK_READY"
proof -
  let ?k = "ex_wrap\<lparr>system_ticks := 0\<rparr>"
  have c: "current_task ?k = 0x200" "tcb_state (tcbs ?k 0x200) = TASK_RUNNING" "system_ticks ?k = 0"
    "in_time ?k 2" "sleepers_ahead ?k ex_wrap_queues"
    by (simp_all add: ex_wrap_def in_time_def sleepers_ahead_def)
  have "kernel_rep ?k ex_wrap_queues" using ex_wrap_ok by simp
  from sleep_for_ticks_exact [OF this _ _ c(5,4), of "[Switch, Tick, Sleep 7]"] c(1-3) show ?thesis by auto
qed

text \<open>C11: As long as the sleeping tasks' ticks and the current tick lie within \<open>2^31\<close> of each other
  without a wrap between them, a tick makes exactly the tasks whose tick has come ready, and leaves
  the others asleep.\<close>

theorem systick_wakes_due:
  assumes "kernel_rep k Q" and now: "now = system_ticks k + 1"
    and window: "\<forall>x\<in>set (Q Asleep). \<bar>uint now - uint (wake_tick (tcbs k x))\<bar> < 2 ^ 31"
  shows "\<exists>k' Q'. systick_handler k = Some k' \<and> system_ticks k' = now \<and> kernel_rep k' Q' \<and>
     set (Q' Ready) = set (Q Ready) \<union> {x \<in> set (Q Asleep). wake_tick (tcbs k x) \<le> now} \<and>
     Q' Asleep = filter (\<lambda>x. now < wake_tick (tcbs k x)) (Q Asleep)"
  using systick_due [OF assms] by blast

theorem systick_wakes_due_witness:
  "\<exists>k' Q'. systick_handler (ex_wrap\<lparr>system_ticks := 0xF\<rparr>) = Some k' \<and> kernel_rep k' Q' \<and>
     set (Q' Ready) = {0x100} \<and> Q' Asleep = []"
proof -
  have "kernel_rep (ex_wrap\<lparr>system_ticks := 0xF\<rparr>) ex_wrap_queues" using ex_wrap_ok by simp
  from systick_wakes_due [OF this refl] show ?thesis by (auto simp: ex_wrap_def cong: conj_cong)
qed

text \<open>Across the wrap a task can oversleep: a sleeper whose deadline lies behind the wrap has a
  smaller tick and stands in front of the list, so that a task whose ticks have passed is not woken.\<close>

theorem oversleep_at_wrap:
  "\<exists>k1 k2. sleep_for_ticks 5 ex_wrap = Some k1 \<and>
     systick_handler (k1\<lparr>system_ticks := 0xFFFFFFF4\<rparr>) = Some k2 \<and> system_ticks k2 = 0xFFFFFFF5 \<and>
     due 0xFFFFFFF5 (wake_tick (tcbs k2 0x200)) \<and> tcb_state (tcbs k2 0x200) = TASK_SLEEPING"
proof -
  have c: "(0x200::ptr) = current_task ex_wrap" "tcb_state (tcbs ex_wrap 0x200) = TASK_RUNNING"
    by (simp_all add: ex_wrap_def)
  obtain k1 where k1: "sleep_for_ticks 5 ex_wrap = Some k1"
    "kernel_rep k1 (ex_wrap_queues(Asleep := insert_by (\<lambda>x. wake_tick (tcbs k1 x)) 0x200 (ex_wrap_queues Asleep)))"
    "wake_tick (tcbs k1 0x200) = system_ticks ex_wrap + 5"
    "\<And>x. x \<noteq> 0x200 \<Longrightarrow> wake_tick (tcbs k1 x) = wake_tick (tcbs ex_wrap x)"
    by (rule sleep_for_ticks_rep [OF ex_wrap_ok c(1) _ c(2), of 5]) auto
  have wk: "wake_tick (tcbs k1 0x200) = 0xFFFFFFF5" "wake_tick (tcbs k1 0x100) = 0x10"
    using k1(3) k1(4) [of "0x100"] by (simp_all add: ex_wrap_def)
  let ?Q = "ex_wrap_queues(Asleep := [0x100, 0x200])"
  have rep: "kernel_rep (k1\<lparr>system_ticks := 0xFFFFFFF4\<rparr>) ?Q" using k1(2) wk by simp
  have w: "woken (k1\<lparr>system_ticks := 0xFFFFFFF5\<rparr>) ?Q = []" by (simp add: woken_def wk due_iff)
  obtain k2 where k2: "systick_handler (k1\<lparr>system_ticks := 0xFFFFFFF4\<rparr>) = Some k2"
    "system_ticks k2 = 0xFFFFFFF5" "same_prio k1 k2" "kernel_rep k2 ?Q"
    by (rule systick_rep [OF rep refl]) (use w in \<open>auto simp: fun_upd_idem same_prio_def\<close>)
  have "place_of (tcbs k2 0x200) = Asleep" using kernel_repD(2) [OF k2(4), of "0x200" Asleep] by simp
  then have "tcb_state (tcbs k2 0x200) = TASK_SLEEPING"
    by (auto simp: place_of_def split: task_state_t.splits wait_type_t.splits)
  with k1(1) k2 wk show ?thesis by (auto simp: same_prio_def due_iff)
qed

end
