(* ===== verification/Semaphore.thy ===== *)
theory Semaphore
  imports Scheduler
begin

text \<open>
  Counting semaphores (\<^verbatim>\<open>source/kernel/semaphore.c\<close>, lines 5 to 74). The lemmas give the effect of
  wait and post on the queues, and that no task waits on a semaphore that has units to give.
\<close>

section \<open>Operations\<close>

definition semaphore_init :: "ptr \<Rightarrow> u32 \<Rightarrow> kernel \<Rightarrow> kernel" where
  "semaphore_init sem count k =
     upd_sem sem (\<lambda>s. s\<lparr>sem_state := SEM_OPEN, sem_count := count,
       sem_wait_queue := \<lparr>q_head = 0, q_tail = 0\<rparr>\<rparr>) k"

definition semaphore_wait :: "ptr \<Rightarrow> kernel \<Rightarrow> sem_result_t \<times> kernel" where
  "semaphore_wait sem k =
     (if sem_state (sems k sem) \<noteq> SEM_OPEN then (SEM_CLOSE, k)
      else if sem_count (sems k sem) > 0
      then (SEM_OK, upd_sem sem (\<lambda>s. s\<lparr>sem_count := sem_count s - 1\<rparr>) k)
      else
        let task = current_task k;
            k = upd_task task (\<lambda>t. t\<lparr>tcb_state := TASK_BLOCKED\<rparr>) k;
            k = upd_task task (\<lambda>t. t\<lparr>waiting_on := sem\<rparr>) k;
            k = upd_task task (\<lambda>t. t\<lparr>waiting_on_type := SEM\<rparr>) k;
            k = upd_sem (waiting_on (tcbs k task)) (\<lambda>s. s\<lparr>sem_references := sem_references s + 1\<rparr>) k;
            (q, ts) = queue_push (sem_wait_queue (sems k sem)) task (tcbs k);
            k = upd_sem sem (\<lambda>s. s\<lparr>sem_wait_queue := q\<rparr>) (k\<lparr>tcbs := ts\<rparr>)
        in (SEM_OK_YIELD, k))"

definition semaphore_post :: "ptr \<Rightarrow> kernel \<Rightarrow> (sem_result_t \<times> kernel) option" where
  "semaphore_post sem k =
     (if sem_state (sems k sem) \<noteq> SEM_OPEN then Some (SEM_CLOSE, k)
      else
        let (task, q, ts) = queue_pop (sem_wait_queue (sems k sem)) (tcbs k);
            k = upd_sem sem (\<lambda>s. s\<lparr>sem_wait_queue := q\<rparr>) (k\<lparr>tcbs := ts\<rparr>)
        in if task \<noteq> 0
           then do {
             let k = upd_task task (\<lambda>t. t\<lparr>tcb_state := TASK_READY\<rparr>) k;
             let k = upd_sem (waiting_on (tcbs k task)) (\<lambda>s. s\<lparr>sem_references := sem_references s - 1\<rparr>) k;
             let k = upd_task task (\<lambda>t. t\<lparr>waiting_on := 0\<rparr>) k;
             let k = upd_task task (\<lambda>t. t\<lparr>waiting_on_type := NONE\<rparr>) k;
             k \<leftarrow> scheduler_put_task task k;
             Some (SEM_OK_YIELD, k)
           }
           else Some (SEM_OK_YIELD, upd_sem sem (\<lambda>s. s\<lparr>sem_count := sem_count s + 1\<rparr>) k))"

partial_function (option) close_loop :: "ptr \<Rightarrow> kernel \<Rightarrow> kernel option" where
  "close_loop sem k =
     (let (task, q, ts) = queue_pop (sem_wait_queue (sems k sem)) (tcbs k);
          k = upd_sem sem (\<lambda>s. s\<lparr>sem_wait_queue := q\<rparr>) (k\<lparr>tcbs := ts\<rparr>)
      in if task = 0 then Some k
         else Option.bind
           (scheduler_put_task task
              (upd_task task (\<lambda>t. t\<lparr>waiting_on_type := NONE\<rparr>)
                (upd_task task (\<lambda>t. t\<lparr>waiting_on := 0\<rparr>) k)))
           (close_loop sem))"

definition semaphore_close :: "ptr \<Rightarrow> kernel \<Rightarrow> kernel option" where
  "semaphore_close sem k = do {
     k \<leftarrow> close_loop sem k;
     Some (upd_sem sem (\<lambda>s. s\<lparr>sem_state := SEM_CLOSED\<rparr>) k)
   }"

declare close_loop.simps [code]

section \<open>Effect on the queues\<close>

lemma queue_at_sem_cong:
  "(\<And>s. s \<noteq> p \<Longrightarrow> sems k' s = sems k s) \<Longrightarrow> mutexes k' = mutexes k \<Longrightarrow>
   sleep_list k' = sleep_list k \<Longrightarrow> ready_queue k' = ready_queue k \<Longrightarrow>
   l \<noteq> On_Sem p \<Longrightarrow> queue_at k' l = queue_at k l"
  by (cases l) auto

text \<open>A running task that finds no unit is appended to the semaphore's queue.\<close>

lemma semaphore_wait_blocks:
  assumes rep: "kernel_rep k Q" and c: "c = current_task k" "c \<noteq> 0"
    and run: "tcb_state (tcbs k c) = TASK_RUNNING"
    and sem: "sem_state (sems k p) = SEM_OPEN" "sem_count (sems k p) = 0"
  obtains k' where "semaphore_wait p k = (SEM_OK_YIELD, k')"
    "kernel_rep k' (Q(On_Sem p := Q (On_Sem p) @ [c]))" "place_of (tcbs k' c) = On_Sem p"
    "sem_count (sems k' p) = 0" "sem_state (sems k' p) = SEM_OPEN"
    "\<And>s. s \<noteq> p \<Longrightarrow> sems k' s = sems k s" "mutexes k' = mutexes k"
    "\<And>x. effective_priority (tcbs k' x) = effective_priority (tcbs k x)"
    "\<And>x. x \<noteq> c \<Longrightarrow> place_of (tcbs k' x) = place_of (tcbs k x)"
proof -
  have nq: "c \<notin> set (Q l)" for l
    using rep run by (intro not_queued) (auto simp: place_of_def)
  have unl: "tcb_next (tcbs k c) = 0" using kernel_repD(4) [OF rep run] .
  let ?ts = "(tcbs k)(c := (tcbs k c)\<lparr>tcb_state := TASK_BLOCKED, waiting_on := p, waiting_on_type := SEM\<rparr>)"
  have "queue_rep ?ts (sem_wait_queue (sems k p)) (Q (On_Sem p))"
    using kernel_rep_queues(3) [OF rep] nq by (subst queue_rep_cong_links [of _ _ "tcbs k"]) auto
  from queue_push_refines [OF this c(2) nq] unl obtain q ts' where
    p: "queue_push (sem_wait_queue (sems k p)) c ?ts = (q, ts')" "queue_rep ts' q (Q (On_Sem p) @ [c])"
      "next_frame (set (Q (On_Sem p))) ?ts ts'" by auto
  define k' where "k' = upd_sem p (\<lambda>s. s\<lparr>sem_references := sem_references s + 1, sem_wait_queue := q\<rparr>)
      (k\<lparr>tcbs := ts'\<rparr>)"
  have eq: "semaphore_wait p k = (SEM_OK_YIELD, k')"
    using sem p(1) by (simp add: semaphore_wait_def c(1) [symmetric] Let_def k'_def upd_sem_def
        upd_task_def split: prod.splits)
  have pl: "place_of (ts' x) = place_of (?ts x)" for x by (rule place_of_frame [OF p(3)])
  have "kernel_rep k' (Q(On_Sem p := Q (On_Sem p) @ [c]))"
  proof (rule kernel_rep_step [OF rep, where t = c])
    show ok: "place_ok k' (On_Sem p) (Q (On_Sem p) @ [c])"
      using p(2) kernel_repD(2) [OF rep, of _ "On_Sem p"] nq [of "On_Sem p"]
      by (auto simp: place_ok_def k'_def pl)
    then show "tcb_next (tcbs k' x) = 0"
      if "x \<in> insert c (set (Q (On_Sem p)))" "tcb_state (tcbs k' x) = TASK_RUNNING" for x
      using that by (auto simp: place_ok_def place_of_def)
    show "tcbs k' x = tcbs k x" if "x \<notin> insert c (set (Q (On_Sem p)))" for x
      using that next_frameD(8) [OF p(3), of x] by (simp add: k'_def)
  qed (use nq in \<open>auto simp: k'_def intro!: queue_at_sem_cong [of p]\<close>)
  with eq sem show thesis
    by (intro that [of k']) (auto simp: k'_def pl next_frameD(3) [OF p(3)])
qed

text \<open>A post with waiting tasks hands the unit to the longest waiting one, which becomes ready.\<close>

lemma semaphore_post_wakes:
  assumes rep: "kernel_rep k Q" and Q: "Q (On_Sem p) = x # xs" and sem: "sem_state (sems k p) = SEM_OPEN"
  obtains k' where "semaphore_post p k = Some (SEM_OK_YIELD, k')"
    "kernel_rep k' (Q(On_Sem p := xs, Ready := insert_by (\<lambda>y. effective_priority (tcbs k y)) x (Q Ready)))"
    "place_of (tcbs k' x) = Ready" "sem_count (sems k' p) = sem_count (sems k p)"
    "sem_state (sems k' p) = SEM_OPEN"
    "\<And>s. s \<noteq> p \<Longrightarrow> sems k' s = sems k s" "mutexes k' = mutexes k"
    "\<And>y. effective_priority (tcbs k' y) = effective_priority (tcbs k y)"
    "\<And>y. y \<noteq> x \<Longrightarrow> place_of (tcbs k' y) = place_of (tcbs k y)" "current_task k' = current_task k"
    "\<And>y. y \<noteq> x \<Longrightarrow> tcb_state (tcbs k' y) = tcb_state (tcbs k y)"
proof -
  have rq: "queue_rep (tcbs k) (sem_wait_queue (sems k p)) (x # xs)"
    using kernel_rep_queues(3) [OF rep, of p] Q by simp
  have x: "x \<noteq> 0" "x \<notin> set xs" "waiting_on (tcbs k x) = p"
    using queue_rep_nonnull [OF rq] queue_rep_distinct [OF rq] kernel_repD(2) [OF rep, of x "On_Sem p"] Q
    by (auto simp: place_of_def split: task_state_t.splits wait_type_t.splits)
  from queue_pop_refines [OF rq] obtain q where
    q: "queue_pop (sem_wait_queue (sems k p)) (tcbs k) = (x, q, set_next x 0 (tcbs k))"
      "queue_rep (set_next x 0 (tcbs k)) q xs" by blast
  let ?t = "(tcbs k x)\<lparr>tcb_next := 0, tcb_state := TASK_READY, waiting_on := 0, waiting_on_type := NONE\<rparr>"
  define k1 where "k1 = (upd_sem p (\<lambda>s. s\<lparr>sem_wait_queue := q, sem_references := sem_references s - 1\<rparr>) k)
      \<lparr>tcbs := (tcbs k)(x := ?t)\<rparr>"
  have same: "tcbs k1 y = tcbs k y" if "y \<noteq> x" for y using that by (simp add: k1_def)
  have rep1: "kernel_rep k1 (Q(On_Sem p := xs))"
  proof (rule kernel_rep_step [OF rep, where t = x])
    have "queue_rep (tcbs k1) q xs"
      using q(2) x(2) same
      by (subst queue_rep_cong_links [of _ _ "set_next x 0 (tcbs k)"]) (auto simp: set_next_def)
    then show "place_ok k1 (On_Sem p) xs"
      using same x(2) Q kernel_repD(2) [OF rep, of _ "On_Sem p"]
      by (auto simp: place_ok_def k1_def)
    show "x \<notin> set (Q l)" if "l \<noteq> On_Sem p" for l
      using queued_once [OF rep, of x "On_Sem p" l] Q that by auto
    show "tcb_next (tcbs k1 y) = 0"
      if "y \<in> insert x (set (Q (On_Sem p)))" "tcb_state (tcbs k1 y) = TASK_RUNNING" for y
      using that kernel_repD(4) [OF rep, of y] by (auto simp: k1_def split: if_splits)
  qed (auto simp: k1_def intro!: queue_at_sem_cong [of p])
  have nin: "x \<notin> set (Q Ready)" using queued_once [OF rep, of x "On_Sem p" Ready] Q by auto
  have run: "can_run k1 x" using x(1) by (simp add: can_run_def k1_def)
  have R: "put_ready k1 x (Q Ready) = insert_by (\<lambda>y. effective_priority (tcbs k y)) x (Q Ready)"
    using run nin by (auto simp: put_ready_def remove1_idem k1_def intro!: insert_by_cong)
  from scheduler_put_task_accept [OF rep1 run] obtain k' where
    k': "scheduler_put_task x k1 = Some k'" "kernel_rep k' (Q(On_Sem p := xs, Ready := put_ready k1 x (Q Ready)))"
    "sched_frame k1 k'" "tcb_state (tcbs k' x) = TASK_READY"
    "\<forall>y. y \<noteq> x \<longrightarrow> tcb_state (tcbs k' y) = tcb_state (tcbs k1 y)"
    by auto
  have eq: "semaphore_post p k = Some (SEM_OK_YIELD, k')"
    using sem q(1) x k'(1)
    by (simp add: semaphore_post_def Let_def upd_sem_def upd_task_def set_next_def k1_def)
  have "place_of (tcbs k' y) = place_of (tcbs k y)" if "y \<noteq> x" for y
    using that k'(3,5) by (intro place_of_cong) (auto simp: sched_frame_def same_prio_def k1_def)
  then show thesis using eq k' R sem
    by (intro that [of k'])
      (auto simp: sched_frame_def same_prio_def k1_def place_of_def split: if_splits)
qed

lemma semaphore_post_counts:
  assumes rep: "kernel_rep k Q" and Q: "Q (On_Sem p) = []" and sem: "sem_state (sems k p) = SEM_OPEN"
  shows "semaphore_post p k = Some (SEM_OK_YIELD, upd_sem p (\<lambda>s. s\<lparr>sem_count := sem_count s + 1\<rparr>) k)"
proof -
  have "queue_pop (sem_wait_queue (sems k p)) (tcbs k) = (0, sem_wait_queue (sems k p), tcbs k)"
    using kernel_rep_queues(3) [OF rep, of p] Q by (intro queue_pop_empty) simp
  with sem show ?thesis by (simp add: semaphore_post_def upd_sem_def)
qed

text \<open>Changes to a semaphore that leave its queue alone do not matter to the queues.\<close>

lemma kernel_rep_upd_sem [simp]:
  assumes "\<And>s. sem_wait_queue (f s) = sem_wait_queue s"
  shows "kernel_rep (upd_sem p f k) Q = kernel_rep k Q"
proof -
  have "queue_at (upd_sem p f k) l = queue_at k l" for l using assms by (cases l) auto
  then show ?thesis by (simp add: kernel_rep_def place_ok_def)
qed

text \<open>
  One round of the loop that closes a semaphore: the popped task keeps the state \<open>TASK_BLOCKED\<close>, so
  \<open>scheduler_put_task\<close> refuses it and it ends up in no queue at all.
\<close>

lemma close_one:
  assumes rep: "kernel_rep k Q" and Q: "Q (On_Sem p) = x # xs"
  obtains k' where "close_loop p k = close_loop p k'" "kernel_rep k' (Q(On_Sem p := xs))"
    "tcb_state (tcbs k' x) = TASK_BLOCKED" "place_of (tcbs k' x) = Nowhere"
    "\<And>y. y \<noteq> x \<Longrightarrow> tcbs k' y = tcbs k y" "ready_queue k' = ready_queue k"
proof -
  have rq: "queue_rep (tcbs k) (sem_wait_queue (sems k p)) (x # xs)"
    using kernel_rep_queues(3) [OF rep, of p] Q by simp
  have x: "x \<noteq> 0" "x \<notin> set xs" "tcb_state (tcbs k x) = TASK_BLOCKED"
    using queue_rep_nonnull [OF rq] queue_rep_distinct [OF rq] kernel_repD(2) [OF rep, of x "On_Sem p"] Q
    by (auto simp: place_of_def split: task_state_t.splits wait_type_t.splits)
  from queue_pop_refines [OF rq] obtain q where
    q: "queue_pop (sem_wait_queue (sems k p)) (tcbs k) = (x, q, set_next x 0 (tcbs k))"
      "queue_rep (set_next x 0 (tcbs k)) q xs" by blast
  define k' where "k' = (upd_sem p (\<lambda>s. s\<lparr>sem_wait_queue := q\<rparr>) k)
      \<lparr>tcbs := (tcbs k)(x := (tcbs k x)\<lparr>tcb_next := 0, waiting_on := 0, waiting_on_type := NONE\<rparr>)\<rparr>"
  have same: "tcbs k' y = tcbs k y" if "y \<noteq> x" for y using that by (simp add: k'_def)
  have "close_loop p k = close_loop p k'"
    using q(1) x by (subst close_loop.simps)
      (simp add: scheduler_put_task_def upd_sem_def upd_task_def set_next_def k'_def)
  moreover have "kernel_rep k' (Q(On_Sem p := xs))"
  proof (rule kernel_rep_step [OF rep, where t = x])
    have "queue_rep (tcbs k') q xs"
      using q(2) x(2) same
      by (subst queue_rep_cong_links [of _ _ "set_next x 0 (tcbs k)"]) (auto simp: set_next_def)
    then show "place_ok k' (On_Sem p) xs"
      using same x(2) Q kernel_repD(2) [OF rep, of _ "On_Sem p"] by (auto simp: place_ok_def k'_def)
    show "x \<notin> set (Q l)" if "l \<noteq> On_Sem p" for l
      using queued_once [OF rep, of x "On_Sem p" l] Q that by auto
    show "tcb_next (tcbs k' y) = 0"
      if "y \<in> insert x (set (Q (On_Sem p)))" "tcb_state (tcbs k' y) = TASK_RUNNING" for y
      using that kernel_repD(4) [OF rep, of y] by (auto simp: k'_def split: if_splits)
  qed (auto simp: k'_def intro!: queue_at_sem_cong [of p])
  ultimately show thesis
    using x(3) same by (intro that [of k']) (auto simp: k'_def place_of_def)
qed

lemma close_loop_rep:
  assumes "kernel_rep k Q"
  shows "\<exists>k'. close_loop p k = Some k' \<and> kernel_rep k' (Q(On_Sem p := [])) \<and>
     ready_queue k' = ready_queue k \<and>
     (\<forall>x\<in>set (Q (On_Sem p)). tcb_state (tcbs k' x) = TASK_BLOCKED \<and> place_of (tcbs k' x) = Nowhere) \<and>
     (\<forall>x. x \<notin> set (Q (On_Sem p)) \<longrightarrow> tcbs k' x = tcbs k x)"
  using assms
proof (induction "Q (On_Sem p)" arbitrary: k Q)
  case Nil
  then have "queue_pop (sem_wait_queue (sems k p)) (tcbs k) = (0, sem_wait_queue (sems k p), tcbs k)"
    using kernel_rep_queues(3) [OF Nil.prems, of p] by (intro queue_pop_empty) simp
  then have "close_loop p k = Some k"
    by (simp add: close_loop.simps [of p k] upd_sem_def)
  with Nil show ?case by (simp add: fun_upd_idem)
next
  case (Cons x xs)
  from close_one [OF Cons.prems Cons.hyps(2) [symmetric]] obtain k1 where
    1: "close_loop p k = close_loop p k1" "kernel_rep k1 (Q(On_Sem p := xs))"
    "tcb_state (tcbs k1 x) = TASK_BLOCKED" "place_of (tcbs k1 x) = Nowhere"
    "\<And>y. y \<noteq> x \<Longrightarrow> tcbs k1 y = tcbs k y" "ready_queue k1 = ready_queue k" by blast
  have "(Q(On_Sem p := xs)) (On_Sem p) = xs" by simp
  from Cons.hyps(1) [OF this [symmetric] 1(2)] obtain k' where
    k': "close_loop p k1 = Some k'" "kernel_rep k' (Q(On_Sem p := []))" "ready_queue k' = ready_queue k1"
    "\<forall>y\<in>set xs. tcb_state (tcbs k' y) = TASK_BLOCKED \<and> place_of (tcbs k' y) = Nowhere"
    "\<forall>y. y \<notin> set xs \<longrightarrow> tcbs k' y = tcbs k1 y" by auto
  have "tcb_state (tcbs k' y) = TASK_BLOCKED \<and> place_of (tcbs k' y) = Nowhere" if "y \<in> set (x # xs)" for y
    using that k'(4,5) 1(3,4) by (cases "y \<in> set xs") auto
  with 1 k' Cons.hyps(2) [symmetric] show ?case by auto
qed

section \<open>Properties\<close>

text \<open>An example: tasks \<open>0x100\<close> and \<open>0x200\<close> wait on the semaphore \<open>0x500\<close>, task \<open>0x300\<close> runs.\<close>

definition ex_sem :: kernel where
  "ex_sem = zero_kernel\<lparr>current_task := 0x300,
     sems := (\<lambda>_. zero_sem)(0x500 := zero_sem\<lparr>sem_state := SEM_OPEN,
       sem_wait_queue := \<lparr>q_head = 0x100, q_tail = 0x200\<rparr>\<rparr>),
     tcbs := (\<lambda>_. zero_tcb)
       (0x100 := (task_with TASK_BLOCKED 5)\<lparr>waiting_on := 0x500, waiting_on_type := SEM, tcb_next := 0x200\<rparr>,
        0x200 := (task_with TASK_BLOCKED 3)\<lparr>waiting_on := 0x500, waiting_on_type := SEM\<rparr>,
        0x300 := task_with TASK_RUNNING 4)\<rparr>"

abbreviation ex_sem_queues :: placement where
  "ex_sem_queues \<equiv> (\<lambda>_. [])(On_Sem 0x500 := [0x100, 0x200])"

lemma ex_sem_ok: "kernel_rep ex_sem ex_sem_queues"
  by (rule kernel_repI)
    (auto simp: ex_sem_def place_ok_def queue_rep_def links_def place_of_def split: if_splits)

text \<open>Waiting, on every branch: a closed semaphore is refused, a unit is taken without blocking,
  and without a unit the task is appended to the queue and blocks.\<close>

theorem semaphore_wait_spec:
  assumes "kernel_rep k Q" "current_task k \<noteq> 0" "tcb_state (tcbs k (current_task k)) = TASK_RUNNING"
  shows "\<exists>r k' Q'. semaphore_wait p k = (r, k') \<and> kernel_rep k' Q' \<and>
     (if sem_state (sems k p) \<noteq> SEM_OPEN then r = SEM_CLOSE \<and> k' = k
      else if 0 < sem_count (sems k p)
      then r = SEM_OK \<and> Q' = Q \<and> tcbs k' = tcbs k \<and>
           unat (sem_count (sems k' p)) = unat (sem_count (sems k p)) - 1
      else r = SEM_OK_YIELD \<and> Q' = Q(On_Sem p := Q (On_Sem p) @ [current_task k]) \<and>
           place_of (tcbs k' (current_task k)) = On_Sem p)"
proof (cases "sem_state (sems k p) = SEM_OPEN \<and> sem_count (sems k p) = 0")
  case True
  then obtain k' where "semaphore_wait p k = (SEM_OK_YIELD, k')"
    "kernel_rep k' (Q(On_Sem p := Q (On_Sem p) @ [current_task k]))"
    "place_of (tcbs k' (current_task k)) = On_Sem p"
    using semaphore_wait_blocks [OF assms(1) refl assms(2,3), of p] by metis
  with True show ?thesis by auto
next
  case False
  have "unat (sem_count (sems k p) - 1) = unat (sem_count (sems k p)) - 1" if "0 < sem_count (sems k p)"
    using that by (simp add: unat_minus_one word_greater_zero_iff)
  with False assms(1) show ?thesis
    by (auto simp: semaphore_wait_def word_greater_zero_iff intro!: exI [of _ Q])
qed

theorem semaphore_wait_spec_witness:
  "\<exists>k' Q'. semaphore_wait 0x500 ex_sem = (SEM_OK_YIELD, k') \<and> kernel_rep k' Q' \<and>
     Q' (On_Sem 0x500) = [0x100, 0x200, 0x300]"
proof -
  have c: "current_task ex_sem = 0x300" "tcb_state (tcbs ex_sem 0x300) = TASK_RUNNING"
    "sem_state (sems ex_sem 0x500) = SEM_OPEN" "sem_count (sems ex_sem 0x500) = 0"
    by (simp_all add: ex_sem_def)
  from semaphore_wait_spec [OF ex_sem_ok, of "0x500"] c show ?thesis
    by (auto intro!: exI [of _ "(\<lambda>_. [])(On_Sem 0x500 := [0x100, 0x200, 0x300])"])
qed

text \<open>A number of posts in a row.\<close>

fun posts :: "nat \<Rightarrow> ptr \<Rightarrow> kernel \<Rightarrow> kernel option" where
  "posts 0 p k = Some k"
| "posts (Suc n) p k = Option.bind (semaphore_post p k) (\<lambda>(r, k). posts n p k)"

text \<open>C8: Posts wake the waiting tasks first-in first-out: after as many posts as \<open>xs\<close> has tasks, the
  tasks \<open>xs\<close> at the front of the queue are ready, those behind still wait in their order, and no unit
  was stored.\<close>

theorem semaphore_posts_fifo:
  assumes "kernel_rep k Q" "Q (On_Sem p) = xs @ ys" "sem_state (sems k p) = SEM_OPEN"
  shows "\<exists>k' Q'. posts (length xs) p k = Some k' \<and> kernel_rep k' Q' \<and> Q' (On_Sem p) = ys \<and>
     set (Q' Ready) = set xs \<union> set (Q Ready) \<and> sem_count (sems k' p) = sem_count (sems k p)"
  using assms
proof (induction xs arbitrary: k Q)
  case Nil
  then show ?case by auto
next
  case (Cons x xs)
  then have Q: "Q (On_Sem p) = x # (xs @ ys)" by simp
  let ?Q = "Q(On_Sem p := xs @ ys, Ready := insert_by (\<lambda>y. effective_priority (tcbs k y)) x (Q Ready))"
  obtain k1 where k1: "semaphore_post p k = Some (SEM_OK_YIELD, k1)" "kernel_rep k1 ?Q"
    "sem_count (sems k1 p) = sem_count (sems k p)" "sem_state (sems k1 p) = SEM_OPEN"
    using semaphore_post_wakes [OF Cons.prems(1) Q Cons.prems(3)] by metis
  from Cons.IH [OF k1(2) _ k1(4)] obtain k' Q' where
    "posts (length xs) p k1 = Some k'" "kernel_rep k' Q'" "Q' (On_Sem p) = ys"
    "set (Q' Ready) = set xs \<union> set (?Q Ready)" "sem_count (sems k' p) = sem_count (sems k1 p)" by auto
  with k1 show ?case by auto
qed

theorem semaphore_posts_fifo_witness:
  "\<exists>k' Q'. posts 1 0x500 ex_sem = Some k' \<and> kernel_rep k' Q' \<and> Q' (On_Sem 0x500) = [0x200] \<and>
     set (Q' Ready) = {0x100}"
proof -
  have "sem_state (sems ex_sem 0x500) = SEM_OPEN" by (simp add: ex_sem_def)
  from semaphore_posts_fifo [OF ex_sem_ok, of "0x500" "[0x100]" "[0x200]", OF _ this]
  show ?thesis by auto
qed

text \<open>No task waits on a semaphore that has units to give.\<close>

definition sem_inv :: "kernel \<Rightarrow> placement \<Rightarrow> bool" where
  "sem_inv k Q \<longleftrightarrow> (\<forall>p. 0 < sem_count (sems k p) \<longrightarrow> Q (On_Sem p) = [])"

text \<open>C9: The invariant that units and waiting tasks exclude each other is kept by wait and by post,
  and post always returns.\<close>

theorem sem_inv_preserved:
  assumes "kernel_rep k Q" "sem_inv k Q" "current_task k \<noteq> 0"
    "tcb_state (tcbs k (current_task k)) = TASK_RUNNING"
  shows "(\<exists>Q'. kernel_rep (snd (semaphore_wait p k)) Q' \<and> sem_inv (snd (semaphore_wait p k)) Q') \<and>
    (\<exists>r k' Q'. semaphore_post p k = Some (r, k') \<and> kernel_rep k' Q' \<and> sem_inv k' Q')"
proof -
  have "\<exists>Q'. kernel_rep (snd (semaphore_wait p k)) Q' \<and> sem_inv (snd (semaphore_wait p k)) Q'"
  proof (cases "sem_state (sems k p) = SEM_OPEN \<and> sem_count (sems k p) = 0")
    case True
    then obtain k' where k': "semaphore_wait p k = (SEM_OK_YIELD, k')"
      "kernel_rep k' (Q(On_Sem p := Q (On_Sem p) @ [current_task k]))" "sem_count (sems k' p) = 0"
      "\<And>s. s \<noteq> p \<Longrightarrow> sems k' s = sems k s"
      using semaphore_wait_blocks [OF assms(1) refl assms(3,4), of p] by metis
    then have "sem_inv k' (Q(On_Sem p := Q (On_Sem p) @ [current_task k]))"
      using assms(2) unfolding sem_inv_def by (metis fun_upd_other less_irrefl place.inject(1))
    with k' show ?thesis by auto
  next
    case False
    with assms(1,2) show ?thesis 
      by (auto simp: semaphore_wait_def sem_inv_def word_greater_zero_iff intro!: exI [of _ Q])
  qed
  moreover have "\<exists>r k' Q'. semaphore_post p k = Some (r, k') \<and> kernel_rep k' Q' \<and> sem_inv k' Q'"
  proof (cases "sem_state (sems k p) = SEM_OPEN")
    case opened: True
    show ?thesis
    proof (cases "Q (On_Sem p)")
      case Nil
      with semaphore_post_counts [OF assms(1) Nil opened] assms(1,2) show ?thesis
        by (auto simp: sem_inv_def intro!: exI [of _ Q])
    next
      case (Cons x xs)
      let ?Q = "Q(On_Sem p := xs, Ready := insert_by (\<lambda>y. effective_priority (tcbs k y)) x (Q Ready))"
      obtain k' where k': "semaphore_post p k = Some (SEM_OK_YIELD, k')" "kernel_rep k' ?Q"
        "sem_count (sems k' p) = sem_count (sems k p)" "\<And>s. s \<noteq> p \<Longrightarrow> sems k' s = sems k s"
        using semaphore_post_wakes [OF assms(1) Cons opened] by metis
      have "\<not> 0 < sem_count (sems k p)" using assms(2) Cons by (auto simp: sem_inv_def)
      then have "sem_inv k' ?Q" using assms(2) k'(3,4) unfolding sem_inv_def
        by (metis fun_upd_other place.distinct(3) place.inject(1))
      with k' show ?thesis by blast
    qed
  next
    case False
    with assms(1,2) show ?thesis by (auto simp: semaphore_post_def)
  qed
  ultimately show ?thesis ..
qed

theorem sem_inv_preserved_witness:
  "(\<exists>Q'. kernel_rep (snd (semaphore_wait 0x500 ex_sem)) Q' \<and> sem_inv (snd (semaphore_wait 0x500 ex_sem)) Q') \<and>
   (\<exists>r k' Q'. semaphore_post 0x500 ex_sem = Some (r, k') \<and> kernel_rep k' Q' \<and> sem_inv k' Q')"
proof -
  have "sem_inv ex_sem ex_sem_queues" "current_task ex_sem \<noteq> 0"
    "tcb_state (tcbs ex_sem (current_task ex_sem)) = TASK_RUNNING"
    by (auto simp: sem_inv_def ex_sem_def)
  from sem_inv_preserved [OF ex_sem_ok this] show ?thesis by blast
qed

text \<open>Closing a semaphore strands its waiting tasks: each is taken off the queue with its state
  still \<open>TASK_BLOCKED\<close>, the ready queue is unchanged, and no queue holds the task any more; nothing
  will make it run again.\<close>

theorem semaphore_close_strands:
  assumes "kernel_rep k Q"
  shows "\<exists>k' Q'. semaphore_close p k = Some k' \<and> kernel_rep k' Q' \<and> sem_state (sems k' p) = SEM_CLOSED \<and>
     ready_queue k' = ready_queue k \<and>
     (\<forall>x\<in>set (Q (On_Sem p)). tcb_state (tcbs k' x) = TASK_BLOCKED \<and> (\<forall>l. x \<notin> set (Q' l)))"
proof -
  from close_loop_rep [OF assms, of p] obtain k1 where
    k1: "close_loop p k = Some k1" "kernel_rep k1 (Q(On_Sem p := []))" "ready_queue k1 = ready_queue k"
      "\<forall>x\<in>set (Q (On_Sem p)). tcb_state (tcbs k1 x) = TASK_BLOCKED \<and> place_of (tcbs k1 x) = Nowhere"
    by blast
  let ?k = "upd_sem p (\<lambda>s. s\<lparr>sem_state := SEM_CLOSED\<rparr>) k1"
  have "kernel_rep ?k (Q(On_Sem p := []))" using k1(2) by simp
  moreover have "semaphore_close p k = Some ?k" using k1(1) by (simp add: semaphore_close_def)
  ultimately show ?thesis
    using k1(3,4) not_queued [OF k1(2)]
    by (intro exI [of _ ?k] exI [of _ "Q(On_Sem p := [])"]) simp
qed

theorem semaphore_close_strands_witness:
  "\<exists>k'. semaphore_close 0x500 ex_sem = Some k' \<and> tcb_state (tcbs k' 0x100) = TASK_BLOCKED \<and>
     q_head (ready_queue k') = 0"
  using semaphore_close_strands [OF ex_sem_ok, of "0x500"] by (auto simp: ex_sem_def)

end
