(* ===== verification/Mutex.thy ===== *)
theory Mutex
  imports Scheduler
begin

text \<open>
  Priority inheriting mutexes (\<^verbatim>\<open>source/kernel/semaphore.c\<close>, lines 76 to 203, and
  \<open>task_recalculate_priority\<close> of \<^verbatim>\<open>source/kernel/tcb.c\<close>). The list of the mutexes a task owns is
  threaded through \<open>next_owned\<close>; its loops, and the recursion that raises priorities along a chain of
  owners, return \<open>None\<close> where the C code would not come back.
\<close>

section \<open>Operations\<close>

type_synonym mstore = "ptr \<Rightarrow> mutex_t"

definition mutex_init :: "ptr \<Rightarrow> kernel \<Rightarrow> kernel" where
  "mutex_init m k = upd_mutex m (\<lambda>x. x\<lparr>mutex_state := SEM_OPEN, mutex_owner := 0,
     mutex_wait_queue := \<lparr>q_head = 0, q_tail = 0\<rparr>, next_owned := 0\<rparr>) k"

definition set_owned :: "ptr \<Rightarrow> ptr \<Rightarrow> mstore \<Rightarrow> mstore" where
  "set_owned m n ms = ms(m := (ms m)\<lparr>next_owned := n\<rparr>)"

text \<open>The two list operations take the head pointer and return its new value.\<close>

definition mutex_queue_push :: "ptr \<Rightarrow> ptr \<Rightarrow> mstore \<Rightarrow> ptr \<times> mstore" where
  "mutex_queue_push head m ms = (m, set_owned m head ms)"

partial_function (option) remove_owned :: "ptr \<Rightarrow> mstore \<Rightarrow> ptr \<Rightarrow> ptr \<Rightarrow> mstore option" where
  "remove_owned m ms prev tmp =
     (if tmp = 0 then Some ms
      else if tmp = m then Some (set_owned tmp 0 (set_owned prev (next_owned (ms tmp)) ms))
      else remove_owned m ms tmp (next_owned (ms tmp)))"

definition mutex_queue_remove :: "ptr \<Rightarrow> ptr \<Rightarrow> mstore \<Rightarrow> (ptr \<times> mstore) option" where
  "mutex_queue_remove head m ms =
     (if m = head then Some (next_owned (ms m), set_owned m 0 ms)
      else map_option (Pair head) (remove_owned m ms 0 head))"

partial_function (option) task_raise_priority :: "ptr \<Rightarrow> u8 \<Rightarrow> kernel \<Rightarrow> kernel option" where
  "task_raise_priority task prio k =
     (if effective_priority (tcbs k task) \<le> prio then Some k
      else do {
        let k = upd_task task (\<lambda>t. t\<lparr>effective_priority := prio\<rparr>) k;
        k \<leftarrow> (if tcb_state (tcbs k task) = TASK_READY then scheduler_reorder task k else Some k);
        if tcb_state (tcbs k task) = TASK_BLOCKED \<and> waiting_on_type (tcbs k task) = MUTEX
        then do {
          let w = waiting_on (tcbs k task);
          (q, ts) \<leftarrow> priority_queue_reoder (mutex_wait_queue (mutexes k w)) task (tcbs k);
          let k = upd_mutex w (\<lambda>m. m\<lparr>mutex_wait_queue := q\<rparr>) (k\<lparr>tcbs := ts\<rparr>);
          if mutex_owner (mutexes k w) \<noteq> 0
          then task_raise_priority (mutex_owner (mutexes k w)) prio k
          else Some k
        }
        else Some k
      })"

partial_function (option) recalculate_loop :: "kernel \<Rightarrow> u8 \<Rightarrow> ptr \<Rightarrow> u8 option" where
  "recalculate_loop k priority mutex =
     (if mutex = 0 then Some priority
      else let waiter = q_head (mutex_wait_queue (mutexes k mutex));
               priority = (if waiter \<noteq> 0 \<and> priority > effective_priority (tcbs k waiter)
                           then effective_priority (tcbs k waiter) else priority)
           in recalculate_loop k priority (next_owned (mutexes k mutex)))"

definition task_recalculate_priority :: "ptr \<Rightarrow> kernel \<Rightarrow> u8 option" where
  "task_recalculate_priority task k =
     recalculate_loop k (base_priority (tcbs k task)) (owned_mutexes (tcbs k task))"

definition mutex_lock :: "ptr \<Rightarrow> kernel \<Rightarrow> (sem_result_t \<times> kernel) option" where
  "mutex_lock m k =
     (if mutex_owner (mutexes k m) = 0
      then
        let k = upd_mutex m (\<lambda>x. x\<lparr>mutex_owner := current_task k\<rparr>) k;
            (h, ms) = mutex_queue_push (owned_mutexes (tcbs k (current_task k))) m (mutexes k);
            k = upd_task (current_task k) (\<lambda>t. t\<lparr>owned_mutexes := h\<rparr>) (k\<lparr>mutexes := ms\<rparr>)
        in Some (SEM_OK, k)
      else if mutex_owner (mutexes k m) = current_task k then Some (MUTEX_DEADLOCK, k)
      else do {
        let task = current_task k;
        let k = upd_task task (\<lambda>t. t\<lparr>tcb_state := TASK_BLOCKED\<rparr>) k;
        let k = upd_task task (\<lambda>t. t\<lparr>waiting_on := m\<rparr>) k;
        let k = upd_task task (\<lambda>t. t\<lparr>waiting_on_type := MUTEX\<rparr>) k;
        (q, ts) \<leftarrow> priority_queue_push (mutex_wait_queue (mutexes k m)) task (tcbs k);
        let k = upd_mutex m (\<lambda>x. x\<lparr>mutex_wait_queue := q\<rparr>) (k\<lparr>tcbs := ts\<rparr>);
        k \<leftarrow> task_raise_priority (mutex_owner (mutexes k m)) (effective_priority (tcbs k task)) k;
        Some (SEM_OK_YIELD, k)
      })"

definition mutex_unlock :: "ptr \<Rightarrow> kernel \<Rightarrow> (sem_result_t \<times> kernel) option" where
  "mutex_unlock m k =
     (if mutex_owner (mutexes k m) \<noteq> current_task k then Some (MUTEX_NOT_OWNER, k)
      else do {
        let (nxt, q, ts) = priority_queue_pop (mutex_wait_queue (mutexes k m)) (tcbs k);
        let k = upd_mutex m (\<lambda>x. x\<lparr>mutex_wait_queue := q\<rparr>) (k\<lparr>tcbs := ts\<rparr>);
        let k = upd_mutex m (\<lambda>x. x\<lparr>mutex_owner := nxt\<rparr>) k;
        k \<leftarrow> (if nxt \<noteq> 0
             then do {
               let k = upd_task nxt (\<lambda>t. t\<lparr>tcb_state := TASK_READY\<rparr>) k;
               let k = upd_task nxt (\<lambda>t. t\<lparr>waiting_on := 0\<rparr>) k;
               let k = upd_task nxt (\<lambda>t. t\<lparr>waiting_on_type := NONE\<rparr>) k;
               let (h, ms) = mutex_queue_push (owned_mutexes (tcbs k nxt)) m (mutexes k);
               let k = upd_task nxt (\<lambda>t. t\<lparr>owned_mutexes := h\<rparr>) (k\<lparr>mutexes := ms\<rparr>);
               p \<leftarrow> task_recalculate_priority nxt k;
               let k = upd_task nxt (\<lambda>t. t\<lparr>effective_priority := p\<rparr>) k;
               scheduler_put_task nxt k
             }
             else Some k);
        (h, ms) \<leftarrow> mutex_queue_remove (owned_mutexes (tcbs k (current_task k))) m (mutexes k);
        let k = upd_task (current_task k) (\<lambda>t. t\<lparr>owned_mutexes := h\<rparr>) (k\<lparr>mutexes := ms\<rparr>);
        p \<leftarrow> task_recalculate_priority (current_task k) k;
        let k = upd_task (current_task k) (\<lambda>t. t\<lparr>effective_priority := p\<rparr>) k;
        Some (if nxt \<noteq> 0 \<and> effective_priority (tcbs k nxt) < effective_priority (tcbs k (current_task k))
              then SEM_OK_YIELD else SEM_OK, k)
      })"

partial_function (option) waiting_loop :: "tstore \<Rightarrow> u32 \<Rightarrow> ptr \<Rightarrow> u32 option" where
  "waiting_loop ts count tmp =
     (if tmp = 0 then Some count else waiting_loop ts (count + 1) (tcb_next (ts tmp)))"

definition mutex_get_waiting :: "ptr \<Rightarrow> kernel \<Rightarrow> u32 option" where
  "mutex_get_waiting m k = waiting_loop (tcbs k) 0 (q_head (mutex_wait_queue (mutexes k m)))"

partial_function (option) mutex_unlock_all_owned :: "ptr \<Rightarrow> kernel \<Rightarrow> kernel option" where
  "mutex_unlock_all_owned m k =
     (if m = 0 then Some k
      else do {
        (r, k) \<leftarrow> mutex_unlock m k;
        mutex_unlock_all_owned (next_owned (mutexes k m)) k
      })"

declare remove_owned.simps [code] task_raise_priority.simps [code] recalculate_loop.simps [code] waiting_loop.simps [code] mutex_unlock_all_owned.simps [code]

section \<open>Raising priorities\<close>

text \<open>
  What raising to \<open>p\<close> changes: some effective priorities become \<open>p\<close>, all of them larger before; and
  the order of queues. Everything else stays.
\<close>

definition raised :: "u8 \<Rightarrow> kernel \<Rightarrow> kernel \<Rightarrow> bool" where
  "raised p k k' \<longleftrightarrow>
     (\<forall>x. effective_priority (tcbs k' x) = effective_priority (tcbs k x) \<or>
          effective_priority (tcbs k' x) = p \<and> p < effective_priority (tcbs k x)) \<and>
     (\<forall>x. tcb_state (tcbs k' x) = tcb_state (tcbs k x) \<and>
          base_priority (tcbs k' x) = base_priority (tcbs k x) \<and>
          waiting_on (tcbs k' x) = waiting_on (tcbs k x) \<and>
          waiting_on_type (tcbs k' x) = waiting_on_type (tcbs k x) \<and>
          owned_mutexes (tcbs k' x) = owned_mutexes (tcbs k x)) \<and>
     (\<forall>m. mutex_owner (mutexes k' m) = mutex_owner (mutexes k m) \<and>
          mutex_state (mutexes k' m) = mutex_state (mutexes k m) \<and>
          next_owned (mutexes k' m) = next_owned (mutexes k m)) \<and>
     sems k' = sems k \<and> sleep_list k' = sleep_list k \<and> current_task k' = current_task k \<and>
     next_task k' = next_task k \<and> system_ticks k' = system_ticks k \<and> pendsv_set k' = pendsv_set k"

lemma raised_refl [simp]: "raised p k k"
  by (simp add: raised_def)

lemma raised_trans: "raised p k k1 \<Longrightarrow> raised p k1 k2 \<Longrightarrow> raised p k k2"
  unfolding raised_def by (metis (no_types, lifting) order.strict_trans)

lemma raised_le: "raised p k k' \<Longrightarrow> effective_priority (tcbs k' x) \<le> effective_priority (tcbs k x)"
  unfolding raised_def by (metis less_imp_le order_refl)

lemma raised_place: "raised p k k' \<Longrightarrow> place_of (tcbs k' x) = place_of (tcbs k x)"
  by (rule place_of_cong) (auto simp: raised_def)

lemma queue_at_mutex_cong:
  "(\<And>m. m \<noteq> p \<Longrightarrow> mutexes k' m = mutexes k m) \<Longrightarrow> sems k' = sems k \<Longrightarrow>
   sleep_list k' = sleep_list k \<Longrightarrow> ready_queue k' = ready_queue k \<Longrightarrow>
   l \<noteq> On_Mutex p \<Longrightarrow> queue_at k' l = queue_at k l"
  by (cases l) auto

lemma place_of_prio [simp]: "place_of (t\<lparr>effective_priority := p\<rparr>) = place_of t"
  "place_of (t\<lparr>owned_mutexes := h\<rparr>) = place_of t"
  by (simp_all add: place_of_def split: task_state_t.split wait_type_t.split)

text \<open>Where the priority does not order the queue, changing it is all there is to do.\<close>

lemma set_prio_elsewhere:
  assumes rep: "kernel_rep k Q" and nin: "t \<notin> set (Q Ready)" "\<And>m. t \<notin> set (Q (On_Mutex m))"
  shows "kernel_rep (upd_task t (\<lambda>t. t\<lparr>effective_priority := p\<rparr>) k) Q"
    (is "kernel_rep ?k Q")
  unfolding kernel_rep_def
proof (intro conjI allI impI)
  fix l
  have ok: "place_ok k l (Q l)" using rep by (simp add: kernel_rep_def)
  have "queue_at ?k l = queue_at k l" by (cases l) auto
  moreover have "queue_rep (tcbs ?k) (queue_at k l) (Q l) = queue_rep (tcbs k) (queue_at k l) (Q l)"
    by (rule queue_rep_cong_links) simp
  moreover have "ordered_at (tcbs ?k) l (Q l)"
  proof (cases "t \<in> set (Q l)")
    case True
    have w: "wake_tick (tcbs ?k x) = wake_tick (tcbs k x)" for x by simp
    show ?thesis using nin ok True
      by (cases l) (simp_all only: place_ok_def ordered_at.simps w simp_thms)
  next
    case False
    with ok show ?thesis by (subst ordered_at_cong [of _ _ "tcbs k"]) (auto simp: place_ok_def)
  qed
  ultimately show "place_ok ?k l (Q l)" using ok by (auto simp: place_ok_def)
next
  fix x
  assume "tcb_state (tcbs ?k x) = TASK_RUNNING"
  then show "tcb_next (tcbs ?k x) = 0" using kernel_repD(4) [OF rep, of x] by (auto split: if_splits)
qed

lemma raise_ready:
  assumes rep: "kernel_rep k Q" and t: "t \<noteq> 0" and pl: "place_of (tcbs k t) = Ready"
    and gt: "p < effective_priority (tcbs k t)"
  obtains k' xs where "scheduler_reorder t (upd_task t (\<lambda>t. t\<lparr>effective_priority := p\<rparr>) k) = Some k'"
    "kernel_rep k' (Q(Ready := xs))" "set xs = insert t (set (Q Ready))" "raised p k k'"
    "effective_priority (tcbs k' t) = p" "mutexes k' = mutexes k"
    "\<And>x. x \<noteq> t \<Longrightarrow> effective_priority (tcbs k' x) = effective_priority (tcbs k x)"
proof -
  let ?k1 = "upd_task t (\<lambda>t. t\<lparr>effective_priority := p\<rparr>) k"
  let ?xs = "insert_by (\<lambda>x. effective_priority (tcbs ?k1 x)) t (remove1 t (Q Ready))"
  obtain q ts' where re: "priority_queue_reoder (queue_at k Ready) t (tcbs ?k1) = Some (q, ts')"
    and ent: "entered (tcbs ?k1) Ready t (Q Ready) q ts'"
    using reoder_enters [OF rep _ t, of Ready "tcbs ?k1"] pl by auto
  define k' where "k' = ?k1\<lparr>ready_queue := q, tcbs := ts'\<rparr>"
  have fr: "next_frame (insert t (set (Q Ready))) (tcbs ?k1) ts'"
    using ent by (simp add: entered_def Let_def)
  have once: "t \<notin> set (Q l)" if "l \<noteq> Ready" for l
    using kernel_repD(2) [OF rep, of t l] pl that by auto
  have "kernel_rep k' (Q(Ready := ?xs))"
    by (rule entered_rep [OF rep ent]) (auto simp: k'_def once intro!: queue_at_ready_cong)
  moreover have "scheduler_reorder t ?k1 = Some k'"
    using re by (simp add: scheduler_reorder_def k'_def)
  moreover have "raised p k k'" using gt
    by (auto simp: raised_def k'_def next_frameD(1-7) [OF fr])
  moreover have "set ?xs = insert t (set (Q Ready))"
    using queue_rep_distinct [OF kernel_rep_queues(1) [OF rep]] by auto
  ultimately show thesis by (intro that [of k' ?xs]) (auto simp: k'_def next_frameD(1-7) [OF fr])
qed

lemma raise_blocked:
  assumes rep: "kernel_rep k Q" and t: "t \<noteq> 0" and pl: "place_of (tcbs k t) = On_Mutex w"
    and gt: "p < effective_priority (tcbs k t)"
    and k1: "k1 = upd_task t (\<lambda>t. t\<lparr>effective_priority := p\<rparr>) k"
  obtains q ts k' xs where
    "priority_queue_reoder (mutex_wait_queue (mutexes k1 w)) t (tcbs k1) = Some (q, ts)"
    "k' = upd_mutex w (\<lambda>m. m\<lparr>mutex_wait_queue := q\<rparr>) (k1\<lparr>tcbs := ts\<rparr>)"
    "kernel_rep k' (Q(On_Mutex w := xs))" "set xs = insert t (set (Q (On_Mutex w)))" "raised p k k'"
    "effective_priority (tcbs k' t) = p"
    "\<And>x. x \<noteq> t \<Longrightarrow> effective_priority (tcbs k' x) = effective_priority (tcbs k x)"
proof -
  let ?xs = "insert_by (\<lambda>x. effective_priority (tcbs k1 x)) t (remove1 t (Q (On_Mutex w)))"
  obtain q ts' where re: "priority_queue_reoder (queue_at k (On_Mutex w)) t (tcbs k1) = Some (q, ts')"
    and ent: "entered (tcbs k1) (On_Mutex w) t (Q (On_Mutex w)) q ts'"
    using reoder_enters [OF rep _ t, of "On_Mutex w" "tcbs k1"] pl by (auto simp: k1)
  define k' where "k' = upd_mutex w (\<lambda>m. m\<lparr>mutex_wait_queue := q\<rparr>) (k1\<lparr>tcbs := ts'\<rparr>)"
  have fr: "next_frame (insert t (set (Q (On_Mutex w)))) (tcbs k1) ts'"
    using ent by (simp add: entered_def Let_def)
  have once: "t \<notin> set (Q l)" if "l \<noteq> On_Mutex w" for l
    using kernel_repD(2) [OF rep, of t l] pl that by auto
  have "kernel_rep k' (Q(On_Mutex w := ?xs))"
    by (rule entered_rep [OF rep ent]) (auto simp: k'_def k1 once intro!: queue_at_mutex_cong [of w])
  moreover have "priority_queue_reoder (mutex_wait_queue (mutexes k1 w)) t (tcbs k1) = Some (q, ts')"
    using re by (simp add: k1)
  moreover have "raised p k k'" using gt
    by (auto simp: raised_def k'_def k1 next_frameD(1-7) [OF fr])
  moreover have "set ?xs = insert t (set (Q (On_Mutex w)))"
    using queue_rep_distinct [OF kernel_rep_queues(4) [OF rep]] by auto
  ultimately show thesis
    by (intro that [of q ts' k' ?xs]) (auto simp: k'_def k1 next_frameD(1-7) [OF fr])
qed

text \<open>
  Priority inheritance: a task blocked on a mutex is never more urgent than the owner of the mutex
  (a smaller number is more urgent). While priorities are being raised to \<open>p\<close> and \<open>t\<close> is the task
  still to be raised, only waiters at \<open>p\<close> or behind it, on mutexes that \<open>t\<close> owns, may be ahead.
\<close>

definition inherits :: "kernel \<Rightarrow> bool" where
  "inherits k \<longleftrightarrow> (\<forall>x m. place_of (tcbs k x) = On_Mutex m \<longrightarrow> mutex_owner (mutexes k m) \<noteq> 0 \<longrightarrow>
     effective_priority (tcbs k (mutex_owner (mutexes k m))) \<le> effective_priority (tcbs k x))"

definition inherits_but :: "ptr \<Rightarrow> u8 \<Rightarrow> kernel \<Rightarrow> bool" where
  "inherits_but t p k \<longleftrightarrow> (\<forall>x m. place_of (tcbs k x) = On_Mutex m \<longrightarrow> mutex_owner (mutexes k m) \<noteq> 0 \<longrightarrow>
     effective_priority (tcbs k (mutex_owner (mutexes k m))) \<le> effective_priority (tcbs k x) \<or>
     mutex_owner (mutexes k m) = t \<and> p \<le> effective_priority (tcbs k x))"

lemma inherits_but_done: "inherits_but t p k \<Longrightarrow> effective_priority (tcbs k t) \<le> p \<Longrightarrow> inherits k"
  unfolding inherits_def inherits_but_def by (metis order.trans)

text \<open>The task that is raised hands the obligation on to the owner of the mutex it waits for.\<close>

lemma inherits_but_step:
  assumes inh: "inherits_but t p k" and r: "raised p k k'"
    and eff: "effective_priority (tcbs k' t) = p" "p < effective_priority (tcbs k t)"
    and other: "\<And>x. x \<noteq> t \<Longrightarrow> effective_priority (tcbs k' x) = effective_priority (tcbs k x)"
    and next_owner: "\<And>m. place_of (tcbs k t) = On_Mutex m \<Longrightarrow> mutex_owner (mutexes k m) \<noteq> 0 \<Longrightarrow>
          mutex_owner (mutexes k m) = t'"
  shows "inherits_but t' p k'"
  unfolding inherits_but_def
proof (intro allI impI)
  fix x m
  let ?o = "mutex_owner (mutexes k m)"
  assume "place_of (tcbs k' x) = On_Mutex m" and "mutex_owner (mutexes k' m) \<noteq> 0"
  then have pl: "place_of (tcbs k x) = On_Mutex m" and o: "?o \<noteq> 0" "mutex_owner (mutexes k' m) = ?o"
    using raised_place [OF r] r by (auto simp: raised_def)
  have *: "effective_priority (tcbs k ?o) \<le> effective_priority (tcbs k x) \<or>
      ?o = t \<and> p \<le> effective_priority (tcbs k x)"
    using inh pl o(1) by (simp add: inherits_but_def)
  have "effective_priority (tcbs k' ?o) \<le> effective_priority (tcbs k' x) \<or>
      ?o = t' \<and> p \<le> effective_priority (tcbs k' x)"
  proof (cases "x = t")
    case True
    with next_owner pl o eff(1) show ?thesis by auto
  next
    case False
    show ?thesis
    proof (cases "?o = t")
      case True
      with * eff other [OF False] show ?thesis by auto
    next
      case f: False
      with * other [OF False] other [OF f] show ?thesis by auto
    qed
  qed
  then show "effective_priority (tcbs k' (mutex_owner (mutexes k' m))) \<le> effective_priority (tcbs k' x) \<or>
      mutex_owner (mutexes k' m) = t' \<and> p \<le> effective_priority (tcbs k' x)"
    by (simp add: o(2))
qed

lemma raised_card:
  assumes r: "raised p k k'" and t: "effective_priority (tcbs k' t) = p" "p < effective_priority (tcbs k t)"
  shows "card {x. p < effective_priority (tcbs k' x)} < card {x. p < effective_priority (tcbs k x)}"
proof (rule psubset_card_mono)
  show "{x. p < effective_priority (tcbs k' x)} \<subset> {x. p < effective_priority (tcbs k x)}"
    using raised_le [OF r] t by (auto intro: less_le_trans)
qed simp

text \<open>
  One raise of a task with a larger priority number, as \<open>task_raise_priority\<close> performs it before it
  turns to the owner of the mutex that the task waits for.
\<close>

lemma raise_step:
  assumes rep: "kernel_rep k Q" and t: "t \<noteq> 0" and gt: "p < effective_priority (tcbs k t)"
  obtains k' Q' where "kernel_rep k' Q'" "raised p k k'" "effective_priority (tcbs k' t) = p"
    "\<And>x. x \<noteq> t \<Longrightarrow> effective_priority (tcbs k' x) = effective_priority (tcbs k x)"
    "\<And>l. set (Q l) \<subseteq> set (Q' l)"
    "task_raise_priority t p k =
       (case place_of (tcbs k t) of
          On_Mutex w \<Rightarrow> if mutex_owner (mutexes k w) \<noteq> 0
                         then task_raise_priority (mutex_owner (mutexes k w)) p k' else Some k'
        | _ \<Rightarrow> Some k')"
proof -
  let ?k1 = "upd_task t (\<lambda>t. t\<lparr>effective_priority := p\<rparr>) k"
  note [simp] = task_raise_priority.simps [of t p k]
  consider (ready) "place_of (tcbs k t) = Ready" "tcb_state (tcbs k t) = TASK_READY"
    | (mutex) w where "place_of (tcbs k t) = On_Mutex w" "tcb_state (tcbs k t) = TASK_BLOCKED"
        "waiting_on_type (tcbs k t) = MUTEX" "waiting_on (tcbs k t) = w"
    | (other) "place_of (tcbs k t) \<noteq> Ready" "\<And>m. place_of (tcbs k t) \<noteq> On_Mutex m"
        "tcb_state (tcbs k t) \<noteq> TASK_READY"
        "\<not> (tcb_state (tcbs k t) = TASK_BLOCKED \<and> waiting_on_type (tcbs k t) = MUTEX)"
    by (cases "tcb_state (tcbs k t)"; cases "waiting_on_type (tcbs k t)") (auto simp: place_of_def)
  then show thesis
  proof cases
    case ready
    from raise_ready [OF rep t ready(1) gt] obtain k' xs where
      "scheduler_reorder t ?k1 = Some k'" "kernel_rep k' (Q(Ready := xs))"
      "set xs = insert t (set (Q Ready))" "raised p k k'" "effective_priority (tcbs k' t) = p"
      "\<And>x. x \<noteq> t \<Longrightarrow> effective_priority (tcbs k' x) = effective_priority (tcbs k x)" by metis
    moreover from this have "tcb_state (tcbs k' t) = TASK_READY" using ready by (simp add: raised_def)
    ultimately show ?thesis using ready gt by (intro that [of k' "Q(Ready := xs)"]) auto
  next
    case mutex
    from raise_blocked [OF rep t mutex(1) gt refl] obtain q ts k' xs where
      *: "priority_queue_reoder (mutex_wait_queue (mutexes ?k1 w)) t (tcbs ?k1) = Some (q, ts)"
      "k' = upd_mutex w (\<lambda>m. m\<lparr>mutex_wait_queue := q\<rparr>) (?k1\<lparr>tcbs := ts\<rparr>)"
      "kernel_rep k' (Q(On_Mutex w := xs))" "set xs = insert t (set (Q (On_Mutex w)))" "raised p k k'"
      "effective_priority (tcbs k' t) = p"
      "\<And>x. x \<noteq> t \<Longrightarrow> effective_priority (tcbs k' x) = effective_priority (tcbs k x)" by metis
    then show ?thesis using mutex gt by (intro that [of k' "Q(On_Mutex w := xs)"]) auto
  next
    case other
    have "raised p k ?k1" using gt by (simp add: raised_def)
    moreover have "kernel_rep ?k1 Q"
      by (rule set_prio_elsewhere [OF rep]) (use other kernel_repD(2) [OF rep, of t] in blast)+
    ultimately show ?thesis using other gt
      by (intro that [of ?k1 Q]) (auto split: place.split)
  qed
qed

text \<open>
  Raising always returns, even along a cycle of owners: every round lowers the number of tasks with a
  larger priority number than \<open>p\<close>.
\<close>

lemma raise_priority_rep:
  assumes "kernel_rep k Q" "t \<noteq> 0"
  shows "\<exists>k' Q'. task_raise_priority t p k = Some k' \<and> kernel_rep k' Q' \<and> raised p k k' \<and>
     effective_priority (tcbs k' t) \<le> p \<and> (\<forall>l. set (Q l) \<subseteq> set (Q' l)) \<and>
     (inherits_but t p k \<longrightarrow> inherits k')"
  using assms
proof (induction "card {x. p < effective_priority (tcbs k x)}" arbitrary: t k Q rule: less_induct)
  case less
  show ?case
  proof (cases "effective_priority (tcbs k t) \<le> p")
    case True
    then have "task_raise_priority t p k = Some k" by (simp add: task_raise_priority.simps [of t p k])
    with True less.prems show ?thesis using inherits_but_done [OF _ True] by auto
  next
    case False
    then have gt: "p < effective_priority (tcbs k t)" by simp
    obtain k1 Q1 where
      1: "kernel_rep k1 Q1" "raised p k k1" "effective_priority (tcbs k1 t) = p"
      "\<And>x. x \<noteq> t \<Longrightarrow> effective_priority (tcbs k1 x) = effective_priority (tcbs k x)"
      "\<And>l. set (Q l) \<subseteq> set (Q1 l)"
      and eq: "task_raise_priority t p k =
       (case place_of (tcbs k t) of
          On_Mutex w \<Rightarrow> if mutex_owner (mutexes k w) \<noteq> 0
                         then task_raise_priority (mutex_owner (mutexes k w)) p k1 else Some k1
        | _ \<Rightarrow> Some k1)" by (rule raise_step [OF less.prems gt], rule that)
    note step = inherits_but_step [OF _ 1(2,3) gt 1(4)]
    show ?thesis
    proof (cases "\<exists>w. place_of (tcbs k t) = On_Mutex w \<and> mutex_owner (mutexes k w) \<noteq> 0")
      case True
      then obtain w where w: "place_of (tcbs k t) = On_Mutex w" "mutex_owner (mutexes k w) \<noteq> 0" by blast
      let ?o = "mutex_owner (mutexes k w)"
      from less.hyps [OF raised_card [OF 1(2,3) gt] 1(1) w(2)] obtain k' Q' where
        2: "task_raise_priority ?o p k1 = Some k'" "kernel_rep k' Q'" "raised p k1 k'"
          "\<forall>l. set (Q1 l) \<subseteq> set (Q' l)" "inherits_but ?o p k1 \<longrightarrow> inherits k'" by blast
      have "inherits_but t p k \<Longrightarrow> inherits_but ?o p k1" by (rule step) (use w in auto)
      moreover have "effective_priority (tcbs k' t) \<le> p" using raised_le [OF 2(3), of t] 1(3) by simp
      moreover have "\<forall>l. set (Q l) \<subseteq> set (Q' l)" using 1(5) 2(4) by blast
      ultimately show ?thesis
        using 2 eq w raised_trans [OF 1(2) 2(3)] by (intro exI [of _ k'] exI [of _ Q']) simp
    next
      case False
      then have "task_raise_priority t p k = Some k1" unfolding eq by (auto split: place.split)
      moreover have "inherits_but t p k \<Longrightarrow> inherits_but t p k1" by (rule step) (use False in auto)
      ultimately show ?thesis using 1 inherits_but_done [of t p k1] by (metis order_refl)
    qed
  qed
qed

section \<open>The mutexes a task owns\<close>

definition owned_links :: "mstore \<Rightarrow> ptr \<Rightarrow> ptr" where
  "owned_links ms = (\<lambda>m. next_owned (ms m))"

text \<open>\<open>owns k t ms\<close>: the list of \<open>t\<close> holds exactly the mutexes whose owner is \<open>t\<close>.\<close>

definition owns :: "kernel \<Rightarrow> ptr \<Rightarrow> ptr list \<Rightarrow> bool" where
  "owns k t ms \<longleftrightarrow> llist (owned_links (mutexes k)) (owned_mutexes (tcbs k t)) ms \<and>
     (\<forall>m. m \<noteq> 0 \<longrightarrow> (m \<in> set ms \<longleftrightarrow> mutex_owner (mutexes k m) = t))"

definition ownership :: "kernel \<Rightarrow> bool" where
  "ownership k \<longleftrightarrow> (\<forall>t. t \<noteq> 0 \<longrightarrow> (\<exists>ms. owns k t ms))"

lemma owns_distinct: "owns k t ms \<Longrightarrow> distinct ms"
  by (auto simp: owns_def dest: llist_distinct)

lemma owns_nonnull: "owns k t ms \<Longrightarrow> 0 \<notin> set ms"
  by (auto simp: owns_def dest: llist_nonnull)

lemma owns_owner: "owns k t ms \<Longrightarrow> m \<in> set ms \<Longrightarrow> mutex_owner (mutexes k m) = t"
  by (frule owns_nonnull) (simp add: owns_def, metis)

lemma owns_disjoint: "owns k t ms \<Longrightarrow> owns k u ns \<Longrightarrow> t \<noteq> u \<Longrightarrow> set ms \<inter> set ns = {}"
  by (auto dest: owns_owner)

lemma owns_frame:
  assumes "owns k t ms" "owned_mutexes (tcbs k' t) = owned_mutexes (tcbs k t)"
    "\<And>m. m \<in> set ms \<Longrightarrow> next_owned (mutexes k' m) = next_owned (mutexes k m)"
    "\<And>m. m \<noteq> 0 \<Longrightarrow> mutex_owner (mutexes k' m) = t \<longleftrightarrow> mutex_owner (mutexes k m) = t"
  shows "owns k' t ms"
proof -
  have "llist (owned_links (mutexes k')) p ms = llist (owned_links (mutexes k)) p ms" for p
    by (rule llist_cong_on) (simp add: owned_links_def assms(3))
  with assms show ?thesis by (simp add: owns_def)
qed

lemma owned_links_set [simp]: "owned_links (set_owned m n ms) = (owned_links ms)(m := n)"
  by (auto simp: owned_links_def set_owned_def)

lemma set_owned_other [simp]:
  "mutex_owner (set_owned m n ms x) = mutex_owner (ms x)"
  "mutex_wait_queue (set_owned m n ms x) = mutex_wait_queue (ms x)"
  "mutex_state (set_owned m n ms x) = mutex_state (ms x)"
  "x \<noteq> m \<Longrightarrow> set_owned m n ms x = ms x"
  by (auto simp: set_owned_def)

lemma owned_links_owner [simp]: "owned_links (ms(m := (ms m)\<lparr>mutex_owner := t\<rparr>)) = owned_links ms"
  by (auto simp: owned_links_def)

lemma next_owned_links: "next_owned (ms m) = owned_links ms m"
  by (simp add: owned_links_def)

text \<open>
  Removal from a list that reaches \<open>m\<close> after \<open>as\<close>, whatever hangs behind \<open>m\<close>: the predecessor takes over
  the link of \<open>m\<close>, which is cleared.
\<close>

lemma remove_owned_reach:
  "lseg (owned_links ms) h as m \<Longrightarrow> m \<noteq> 0 \<Longrightarrow> m \<notin> set as \<Longrightarrow>
   remove_owned m ms prev h =
     Some (set_owned m 0 (set_owned (last (prev # as)) (owned_links ms m) ms))"
proof (induction as arbitrary: h prev)
  case Nil
  then show ?case by (simp add: remove_owned.simps [of m ms prev m] next_owned_links)
next
  case (Cons a as)
  then show ?case by (auto simp: remove_owned.simps [of m ms prev a] next_owned_links)
qed

lemma mutex_queue_remove_reach:
  assumes seg: "lseg (owned_links ms) h as m" and m: "m \<noteq> 0" "m \<notin> set as" "distinct as"
    and rest: "llist (owned_links ms) (owned_links ms m) bs" "set as \<inter> set bs = {}" "m \<notin> set bs"
  shows "\<exists>h' ms'. mutex_queue_remove h m ms = Some (h', ms') \<and>
     llist (owned_links ms') h' (as @ bs) \<and> owned_links ms' m = 0 \<and>
     (\<forall>x. x \<notin> insert m (set as) \<longrightarrow> ms' x = ms x) \<and>
     (\<forall>x. mutex_owner (ms' x) = mutex_owner (ms x) \<and> mutex_state (ms' x) = mutex_state (ms x) \<and>
          mutex_wait_queue (ms' x) = mutex_wait_queue (ms x))"
proof (cases as rule: rev_cases)
  case Nil
  with assms show ?thesis
    by (simp add: mutex_queue_remove_def next_owned_links)
next
  case (snoc us c)
  have "h \<noteq> m" using seg m snoc by (cases us) auto
  then have eq: "mutex_queue_remove h m ms =
      Some (h, set_owned m 0 (set_owned c (owned_links ms m) ms))"
    using remove_owned_reach [OF seg m(1,2), of 0] snoc by (simp add: mutex_queue_remove_def)
  have "lseg (owned_links ms) h us c" "c \<noteq> 0" using seg snoc by auto
  with eq snoc m rest show ?thesis by auto
qed

text \<open>
  Recalculation: the minimum of the task's own priority and of the priorities of all tasks that wait
  for a mutex it owns. The code looks only at the first waiter of each mutex, which is enough because
  the wait queues are sorted.
\<close>

definition inherited :: "kernel \<Rightarrow> placement \<Rightarrow> u8 \<Rightarrow> ptr list \<Rightarrow> u8" where
  "inherited k Q p ms =
     Min (insert p (\<Union>m\<in>set ms. (\<lambda>x. effective_priority (tcbs k x)) ` set (Q (On_Mutex m))))"

lemma inherited_Nil [simp]: "inherited k Q p [] = p"
  by (simp add: inherited_def)

lemma inherited_Cons:
  "inherited k Q p (m # ms) =
     inherited k Q (Min (insert p ((\<lambda>x. effective_priority (tcbs k x)) ` set (Q (On_Mutex m))))) ms"
proof -
  let ?f = "\<lambda>m. (\<lambda>x. effective_priority (tcbs k x)) ` set (Q (On_Mutex m))"
  let ?A = "insert p (?f m)" and ?B = "\<Union>m\<in>set ms. ?f m"
  have "Min (?A \<union> ?B) = min (Min ?A) (Min ?B)" if "?B \<noteq> {}"
    using that by (intro Min_Un) auto
  moreover have "Min (insert (Min ?A) ?B) = min (Min ?A) (Min ?B)" if "?B \<noteq> {}"
    using that by (intro Min_insert) auto
  moreover have "insert p (\<Union>m\<in>set (m # ms). ?f m) = ?A \<union> ?B" by auto
  ultimately show ?thesis unfolding inherited_def by (cases "?B = {}") auto
qed

lemma first_waiter:
  assumes rep: "kernel_rep k Q" and w: "w = q_head (mutex_wait_queue (mutexes k m))"
  shows "(if w \<noteq> 0 \<and> p > effective_priority (tcbs k w) then effective_priority (tcbs k w) else p) =
     Min (insert p ((\<lambda>x. effective_priority (tcbs k x)) ` set (Q (On_Mutex m))))"
proof (cases "Q (On_Mutex m)")
  case Nil
  then show ?thesis using kernel_rep_queues(4) [OF rep, of m] w by (simp add: queue_rep_Nil)
next
  case (Cons x xs)
  then have "w = x" "x \<noteq> 0" using kernel_rep_queues(4) [OF rep, of m] w by (auto simp: queue_rep_def)
  moreover have "sorted_by (\<lambda>x. effective_priority (tcbs k x)) (x # xs)"
    using kernel_repD(3) [OF rep, of "On_Mutex m"] Cons by simp
  then have "Min ((\<lambda>x. effective_priority (tcbs k x)) ` set (x # xs)) = effective_priority (tcbs k x)"
    by (intro Min_eqI) auto
  moreover have "Min (insert p ((\<lambda>x. effective_priority (tcbs k x)) ` set (x # xs))) =
      min p (Min ((\<lambda>x. effective_priority (tcbs k x)) ` set (x # xs)))"
    by (rule Min_insert) auto
  ultimately show ?thesis using Cons by (auto simp: min_def simp del: Min_insert list.set)
qed

lemma recalculate_loop_eq:
  assumes "kernel_rep k Q"
  shows "llist (owned_links (mutexes k)) h ms \<Longrightarrow> recalculate_loop k p h = Some (inherited k Q p ms)"
proof (induction ms arbitrary: h p)
  case Nil
  then show ?case by (simp add: recalculate_loop.simps [of k p 0])
next
  case (Cons m ms)
  then show ?case
    by (simp add: recalculate_loop.simps [of k p m] next_owned_links first_waiter [OF assms refl]
        inherited_Cons del: Min_insert)
qed

text \<open>\<open>entitled k Q t M\<close>: the priority a task is entitled to while it holds the mutexes \<open>M\<close>, the best of its
  own priority and of the priorities of all tasks that wait for one of them.\<close>

definition entitled :: "kernel \<Rightarrow> placement \<Rightarrow> ptr \<Rightarrow> ptr set \<Rightarrow> u8" where
  "entitled k Q t M =
     Min (insert (base_priority (tcbs k t))
       {effective_priority (tcbs k x) | x n. n \<in> M \<and> x \<in> set (Q (On_Mutex n))})"

lemma inherited_entitled: "inherited k Q (base_priority (tcbs k t)) ms = entitled k Q t (set ms)"
  unfolding inherited_def entitled_def by (rule arg_cong [where f = Min]) auto

lemma inherited_cong:
  assumes "\<And>n x. n \<in> set ms \<Longrightarrow> x \<in> set (Q (On_Mutex n)) \<Longrightarrow> effective_priority (tcbs k' x) = effective_priority (tcbs k x)"
  shows "inherited k' Q p ms = inherited k Q p ms"
  unfolding inherited_def using assms by (intro arg_cong [where f = Min]) force

lemma recalculate_eq:
  assumes "kernel_rep k Q" "llist (owned_links (mutexes k)) (owned_mutexes (tcbs k t)) ms"
  shows "task_recalculate_priority t k = Some (inherited k Q (base_priority (tcbs k t)) ms)"
  using recalculate_loop_eq [OF assms] by (simp add: task_recalculate_priority_def)

section \<open>Locking\<close>

lemma mutex_lock_free:
  assumes "mutex_owner (mutexes k m) = 0"
  shows "mutex_lock m k = Some (SEM_OK,
    upd_task (current_task k) (\<lambda>t. t\<lparr>owned_mutexes := m\<rparr>)
      (upd_mutex m (\<lambda>x. x\<lparr>mutex_owner := current_task k,
         next_owned := owned_mutexes (tcbs k (current_task k))\<rparr>) k))"
  using assms by (simp add: mutex_lock_def mutex_queue_push_def set_owned_def upd_mutex_def upd_task_def)

lemma lock_free_ownership:
  assumes own: "ownership k" and free: "mutex_owner (mutexes k m) = 0" and nz: "m \<noteq> 0" "current_task k \<noteq> 0"
    and k': "mutex_lock m k = Some (r, k')"
  shows "ownership k' \<and> (\<forall>ms. owns k (current_task k) ms \<longrightarrow> owns k' (current_task k) (m # ms))"
proof -
  let ?c = "current_task k"
  have links: "owned_links (mutexes k') = (owned_links (mutexes k))(m := owned_mutexes (tcbs k ?c))"
    and head: "owned_mutexes (tcbs k' x) = (if x = ?c then m else owned_mutexes (tcbs k x))"
    and owner: "mutex_owner (mutexes k' y) = (if y = m then ?c else mutex_owner (mutexes k y))" for x y
    using k' by (auto simp: mutex_lock_free [OF free] owned_links_def)
  have nin: "m \<notin> set ms" if "owns k t ms" "t \<noteq> 0" for t ms
    using that free nz by (auto simp: owns_def)
  have c: "owns k' ?c (m # ms)" if "owns k ?c ms" for ms
    using that nin [OF that] nz by (auto simp: owns_def links head owner)
  have "owns k' t ms" if "owns k t ms" "t \<noteq> ?c" "t \<noteq> 0" for t ms
    using that nin [OF that(1,3)] nz by (auto simp: owns_def links head owner)
  with c own show ?thesis unfolding ownership_def by metis
qed

text \<open>The current task blocks on a mutex that another task owns, before priorities are raised.\<close>

lemma lock_blocks:
  assumes rep: "kernel_rep k Q" and c: "c = current_task k" "c \<noteq> 0"
    and run: "tcb_state (tcbs k c) = TASK_RUNNING"
    and k1: "k1 = k\<lparr>tcbs := (tcbs k)(c := (tcbs k c)
              \<lparr>tcb_state := TASK_BLOCKED, waiting_on := m, waiting_on_type := MUTEX\<rparr>)\<rparr>"
  obtains q ts k2 where "priority_queue_push (mutex_wait_queue (mutexes k m)) c (tcbs k1) = Some (q, ts)"
    "k2 = upd_mutex m (\<lambda>x. x\<lparr>mutex_wait_queue := q\<rparr>) (k1\<lparr>tcbs := ts\<rparr>)"
    "kernel_rep k2 (Q(On_Mutex m := insert_by (\<lambda>x. effective_priority (tcbs k x)) c (Q (On_Mutex m))))"
    "next_frame (insert c (set (Q (On_Mutex m)))) (tcbs k1) ts"
proof -
  have nq: "c \<notin> set (Q l)" for l
    using rep run by (intro not_queued) (auto simp: place_of_def)
  obtain q ts where push: "priority_queue_push (queue_at k (On_Mutex m)) c (tcbs k1) = Some (q, ts)"
    and ent: "entered (tcbs k1) (On_Mutex m) c (Q (On_Mutex m)) q ts"
    using push_enters [OF rep _ c(2) nq, of "On_Mutex m" "tcbs k1"] by (auto simp: k1)
  define k2 where "k2 = upd_mutex m (\<lambda>x. x\<lparr>mutex_wait_queue := q\<rparr>) (k1\<lparr>tcbs := ts\<rparr>)"
  have "kernel_rep k2 (Q(On_Mutex m := insert_by (\<lambda>x. effective_priority (tcbs k1 x)) c
                                          (remove1 c (Q (On_Mutex m)))))"
    by (rule entered_rep [OF rep ent]) (auto simp: k2_def k1 nq intro!: queue_at_mutex_cong [of m])
  moreover have "(\<lambda>x. effective_priority (tcbs k1 x)) = (\<lambda>x. effective_priority (tcbs k x))"
    by (auto simp: k1)
  moreover have "next_frame (insert c (set (Q (On_Mutex m)))) (tcbs k1) ts"
    using ent by (simp add: entered_def Let_def)
  ultimately show thesis
    using push nq by (intro that [of q ts k2]) (auto simp: k2_def remove1_idem)
qed

lemma mutex_lock_contended:
  assumes rep: "kernel_rep k Q" and c: "c = current_task k" "c \<noteq> 0"
    and run: "tcb_state (tcbs k c) = TASK_RUNNING"
    and own: "mutex_owner (mutexes k m) = t" "t \<noteq> 0" "t \<noteq> c"
  obtains k' Q' where "mutex_lock m k = Some (SEM_OK_YIELD, k')" "kernel_rep k' Q'"
    "\<And>l. set (Q l) \<subseteq> set (Q' l)" "c \<in> set (Q' (On_Mutex m))" "place_of (tcbs k' c) = On_Mutex m"
    "\<And>x. x \<noteq> c \<Longrightarrow> place_of (tcbs k' x) = place_of (tcbs k x)"
    "\<And>x. effective_priority (tcbs k' x) \<le> effective_priority (tcbs k x)"
    "effective_priority (tcbs k' c) = effective_priority (tcbs k c)"
    "effective_priority (tcbs k' t) \<le> effective_priority (tcbs k c)"
    "inherits k \<Longrightarrow> inherits k'" "owned_links (mutexes k') = owned_links (mutexes k)"
    "\<And>x. mutex_owner (mutexes k' x) = mutex_owner (mutexes k x)"
    "\<And>x. owned_mutexes (tcbs k' x) = owned_mutexes (tcbs k x)"
proof -
  let ?p = "effective_priority (tcbs k c)"
  define k1 where "k1 = k\<lparr>tcbs := (tcbs k)(c := (tcbs k c)
      \<lparr>tcb_state := TASK_BLOCKED, waiting_on := m, waiting_on_type := MUTEX\<rparr>)\<rparr>"
  obtain q ts k2 where push: "priority_queue_push (mutex_wait_queue (mutexes k m)) c (tcbs k1) = Some (q, ts)"
    and k2: "k2 = upd_mutex m (\<lambda>x. x\<lparr>mutex_wait_queue := q\<rparr>) (k1\<lparr>tcbs := ts\<rparr>)"
    and rep2: "kernel_rep k2 (Q(On_Mutex m := insert_by (\<lambda>x. effective_priority (tcbs k x)) c (Q (On_Mutex m))))"
      (is "kernel_rep k2 ?Q2")
    and fr: "next_frame (insert c (set (Q (On_Mutex m)))) (tcbs k1) ts"
    by (rule lock_blocks [OF rep c run k1_def])
  have eff: "effective_priority (tcbs k2 x) = effective_priority (tcbs k x)"
    and om: "owned_mutexes (tcbs k2 x) = owned_mutexes (tcbs k x)" for x
    by (auto simp: k2 k1_def next_frameD [OF fr])
  have pl: "place_of (tcbs k2 x) = (if x = c then On_Mutex m else place_of (tcbs k x))" for x
    using place_of_frame [OF fr, of x] by (auto simp: k2 k1_def)
  have ow: "mutex_owner (mutexes k2 x) = mutex_owner (mutexes k x)"
    and lk: "owned_links (mutexes k2) = owned_links (mutexes k)" for x
    by (auto simp: k2 k1_def owned_links_def)
  from raise_priority_rep [OF rep2 own(2), of ?p] obtain k' Q' where
    r: "task_raise_priority t ?p k2 = Some k'" "kernel_rep k' Q'" "raised ?p k2 k'"
      "effective_priority (tcbs k' t) \<le> ?p" "\<forall>l. set (?Q2 l) \<subseteq> set (Q' l)"
      "inherits_but t ?p k2 \<longrightarrow> inherits k'" by blast
  have "mutex_lock m k = Some (SEM_OK_YIELD, k')"
    using own c push r(1) eff [of c]
    by (simp add: mutex_lock_def upd_task_def k1_def [symmetric] k2 [symmetric] ow)
      (simp add: k1_def k2 upd_mutex_def)
  moreover have "inherits k \<Longrightarrow> inherits_but t ?p k2"
    by (auto simp: inherits_def inherits_but_def pl ow eff own(1))
  moreover have "effective_priority (tcbs k' c) = ?p" using r(3) eff [of c] unfolding raised_def by metis
  moreover have "set (Q l) \<subseteq> set (Q' l)" "c \<in> set (Q' (On_Mutex m))" for l
    using r(5) [rule_format, of l] r(5) [rule_format, of "On_Mutex m"] by (auto split: if_splits)
  moreover have "owned_links (mutexes k') = owned_links (mutexes k)"
    using r(3) by (auto simp: raised_def owned_links_def lk [unfolded owned_links_def])
  ultimately show thesis
    using r raised_place [OF r(3)] raised_le [OF r(3)]
    by (intro that [of k' Q']) (auto simp: pl eff raised_def ow om)
qed

lemma ownership_cong:
  assumes "owned_links (mutexes k') = owned_links (mutexes k)"
    "\<And>x. mutex_owner (mutexes k' x) = mutex_owner (mutexes k x)"
    "\<And>x. owned_mutexes (tcbs k' x) = owned_mutexes (tcbs k x)"
  shows "ownership k' = ownership k"
  by (simp add: ownership_def owns_def assms)

section \<open>Unlocking\<close>

text \<open>The end of \<open>mutex_unlock\<close>: the mutex leaves the list of the releasing task, whose priority is
  recalculated.\<close>

definition release :: "ptr \<Rightarrow> kernel \<Rightarrow> kernel option" where
  "release m k = do {
     (h, ms) \<leftarrow> mutex_queue_remove (owned_mutexes (tcbs k (current_task k))) m (mutexes k);
     let k = upd_task (current_task k) (\<lambda>t. t\<lparr>owned_mutexes := h\<rparr>) (k\<lparr>mutexes := ms\<rparr>);
     p \<leftarrow> task_recalculate_priority (current_task k) k;
     Some (upd_task (current_task k) (\<lambda>t. t\<lparr>effective_priority := p\<rparr>) k)
   }"

lemma release_rep:
  assumes rep: "kernel_rep k Q" and c: "c = current_task k"
    and run: "tcb_state (tcbs k c) = TASK_RUNNING"
    and seg: "lseg (owned_links (mutexes k)) (owned_mutexes (tcbs k c)) as m" "m \<noteq> 0" "m \<notin> set as" "distinct as"
    and rest: "llist (owned_links (mutexes k)) (owned_links (mutexes k) m) bs" "set as \<inter> set bs = {}" "m \<notin> set bs"
  obtains k' where "release m k = Some k'" "kernel_rep k' Q"
    "llist (owned_links (mutexes k')) (owned_mutexes (tcbs k' c)) (as @ bs)" "owned_links (mutexes k') m = 0"
    "effective_priority (tcbs k' c) = inherited k Q (base_priority (tcbs k c)) (as @ bs)"
    "\<And>x. x \<noteq> c \<Longrightarrow> tcbs k' x = tcbs k x" "tcb_state (tcbs k' c) = TASK_RUNNING"
    "\<And>x. mutex_owner (mutexes k' x) = mutex_owner (mutexes k x)"
    "\<And>x. x \<notin> insert m (set as) \<Longrightarrow> mutexes k' x = mutexes k x" "current_task k' = c"
proof -
  from mutex_queue_remove_reach [OF seg rest] obtain h ms where
    rm: "mutex_queue_remove (owned_mutexes (tcbs k c)) m (mutexes k) = Some (h, ms)"
      "llist (owned_links ms) h (as @ bs)" "owned_links ms m = 0"
    and same: "\<And>x. x \<notin> insert m (set as) \<Longrightarrow> ms x = mutexes k x"
      "\<And>x. mutex_owner (ms x) = mutex_owner (mutexes k x)"
      "\<And>x. mutex_wait_queue (ms x) = mutex_wait_queue (mutexes k x)" by blast
  define k1 where "k1 = upd_task c (\<lambda>t. t\<lparr>owned_mutexes := h\<rparr>) (k\<lparr>mutexes := ms\<rparr>)"
  have q: "queue_at k1 l = queue_at k l" for l by (cases l) (auto simp: k1_def same)
  have rep1: "kernel_rep k1 Q"
    by (rule kernel_rep_cong [OF rep q]) (auto simp: k1_def)
  have ll: "llist (owned_links (mutexes k1)) (owned_mutexes (tcbs k1 c)) (as @ bs)"
    using rm(2) by (simp add: k1_def)
  have eff: "effective_priority (tcbs k1 x) = effective_priority (tcbs k x)" for x by (simp add: k1_def)
  let ?p = "inherited k Q (base_priority (tcbs k c)) (as @ bs)"
  have "inherited k1 Q (base_priority (tcbs k1 c)) (as @ bs) = ?p"
    by (simp add: inherited_def eff) (simp add: k1_def)
  then have p: "task_recalculate_priority c k1 = Some ?p"
    using recalculate_eq [OF rep1 ll] by simp
  let ?k = "upd_task c (\<lambda>t. t\<lparr>effective_priority := ?p\<rparr>) k1"
  have "release m k = Some ?k"
    using rm(1) p by (simp add: release_def c k1_def)
  moreover have "kernel_rep ?k Q"
    by (rule set_prio_elsewhere [OF rep1]) (simp_all add: not_queued [OF rep] place_of_running run)
  moreover have "\<And>x. x \<noteq> c \<Longrightarrow> tcbs ?k x = tcbs k x" "tcb_state (tcbs ?k c) = TASK_RUNNING"
    "effective_priority (tcbs ?k c) = ?p" "mutexes ?k = ms" "current_task ?k = c"
    using run by (simp_all add: k1_def c)
  moreover have "owned_mutexes (tcbs ?k c) = h" by (simp add: k1_def)
  ultimately show thesis using rm(2,3) same(1,2) by (intro that [of ?k]) simp_all
qed

text \<open>The mutex goes to the first waiter; \<open>handed\<close> is the state in which that task recalculates.\<close>

definition handed :: "ptr \<Rightarrow> ptr \<Rightarrow> tcb_list_t \<Rightarrow> kernel \<Rightarrow> kernel" where
  "handed m x q k =
     k\<lparr>tcbs := (tcbs k)(x := (tcbs k x)\<lparr>tcb_next := 0, tcb_state := TASK_READY, waiting_on := 0,
                               waiting_on_type := NONE, owned_mutexes := m\<rparr>),
       mutexes := (mutexes k)(m := (mutexes k m)\<lparr>mutex_wait_queue := q, mutex_owner := x,
                               next_owned := owned_mutexes (tcbs k x)\<rparr>)\<rparr>"

lemma mutex_unlock_none:
  assumes "mutex_owner (mutexes k m) = current_task k" "q_head (mutex_wait_queue (mutexes k m)) = 0"
  shows "mutex_unlock m k =
     map_option (Pair SEM_OK) (release m (upd_mutex m (\<lambda>x. x\<lparr>mutex_owner := 0\<rparr>) k))"
  using assms
  by (simp add: mutex_unlock_def priority_queue_pop_def release_def map_option_bind Let_def upd_mutex_def
      upd_task_def comp_def case_prod_unfold)

lemma mutex_unlock_some:
  assumes "mutex_owner (mutexes k m) = current_task k" "x \<noteq> 0"
    "priority_queue_pop (mutex_wait_queue (mutexes k m)) (tcbs k) = (x, q, set_next x 0 (tcbs k))"
  shows "mutex_unlock m k = do {
     p \<leftarrow> task_recalculate_priority x (handed m x q k);
     k \<leftarrow> scheduler_put_task x (upd_task x (\<lambda>t. t\<lparr>effective_priority := p\<rparr>) (handed m x q k));
     k \<leftarrow> release m k;
     Some (if effective_priority (tcbs k x) < effective_priority (tcbs k (current_task k))
           then SEM_OK_YIELD else SEM_OK, k)
   }"
proof -
  have "upd_task x (\<lambda>t. t\<lparr>owned_mutexes := m\<rparr>)
     ((upd_task x (\<lambda>t. t\<lparr>waiting_on_type := NONE\<rparr>) (upd_task x (\<lambda>t. t\<lparr>waiting_on := 0\<rparr>)
        (upd_task x (\<lambda>t. t\<lparr>tcb_state := TASK_READY\<rparr>)
          (upd_mutex m (\<lambda>y. y\<lparr>mutex_owner := x\<rparr>) (upd_mutex m (\<lambda>y. y\<lparr>mutex_wait_queue := q\<rparr>)
            (k\<lparr>tcbs := set_next x 0 (tcbs k)\<rparr>))))))
      \<lparr>mutexes := set_owned m (owned_mutexes (tcbs k x)) ((mutexes k)(m := (mutexes k m)\<lparr>mutex_wait_queue := q, mutex_owner := x\<rparr>))\<rparr>)
    = handed m x q k"
    by (simp add: handed_def upd_task_def upd_mutex_def set_next_def set_owned_def)
  then show ?thesis
    using assms by (simp add: mutex_unlock_def release_def mutex_queue_push_def case_prod_unfold set_next_def
        Let_def cong: if_cong)
qed

lemma handed_rep:
  assumes rep: "kernel_rep k Q" and Q: "Q (On_Mutex m) = x # xs"
  obtains q where
    "priority_queue_pop (mutex_wait_queue (mutexes k m)) (tcbs k) = (x, q, set_next x 0 (tcbs k))"
    "kernel_rep (handed m x q k) (Q(On_Mutex m := xs))" "x \<noteq> 0" "\<And>l. x \<notin> set ((Q(On_Mutex m := xs)) l)"
proof -
  have rq: "queue_rep (tcbs k) (mutex_wait_queue (mutexes k m)) (x # xs)"
    using kernel_rep_queues(4) [OF rep, of m] Q by simp
  have x: "x \<noteq> 0" "x \<notin> set xs" using queue_rep_nonnull [OF rq] queue_rep_distinct [OF rq] by auto
  from queue_pop_refines [OF rq] obtain q where
    q: "queue_pop (mutex_wait_queue (mutexes k m)) (tcbs k) = (x, q, set_next x 0 (tcbs k))"
      "queue_rep (set_next x 0 (tcbs k)) q xs" by blast
  let ?k = "handed m x q k"
  have same: "tcbs ?k y = tcbs k y" if "y \<noteq> x" for y using that by (simp add: handed_def)
  have once: "x \<notin> set (Q l)" if "l \<noteq> On_Mutex m" for l
    using queued_once [OF rep, of x "On_Mutex m" l] Q that by auto
  have "kernel_rep ?k (Q(On_Mutex m := xs))"
  proof (rule kernel_rep_step [OF rep, where t = x])
    have "queue_rep (tcbs ?k) q xs"
      using q(2) x(2) same
      by (subst queue_rep_cong_links [of _ _ "set_next x 0 (tcbs k)"]) (auto simp: set_next_def)
    moreover have "place_of (tcbs ?k y) = On_Mutex m" if "y \<in> set xs" for y
      using same [of y] that x(2) Q kernel_repD(2) [OF rep, of y "On_Mutex m"] by (cases "y = x") auto
    moreover have "ordered_at (tcbs k) (On_Mutex m) xs"
      using kernel_repD(3) [OF rep, of "On_Mutex m"] Q by simp
    then have "ordered_at (tcbs ?k) (On_Mutex m) xs"
      using same x(2) by (subst ordered_at_cong [of _ _ "tcbs k"]) metis+
    ultimately show "place_ok ?k (On_Mutex m) xs" by (simp add: place_ok_def) (simp add: handed_def)
    show "tcb_next (tcbs ?k y) = 0"
      if "y \<in> insert x (set (Q (On_Mutex m)))" "tcb_state (tcbs ?k y) = TASK_RUNNING" for y
      using that kernel_repD(4) [OF rep, of y] by (auto simp: handed_def split: if_splits)
  qed (use once same in \<open>auto simp: handed_def intro!: queue_at_mutex_cong [of m]\<close>)
  with q x once show thesis by (intro that [of q]) (auto simp: priority_queue_pop_eq)
qed

lemma mutex_unlock_free_rep:
  assumes rep: "kernel_rep k Q" and c: "c = current_task k" and run: "tcb_state (tcbs k c) = TASK_RUNNING"
    and own: "owns k c (as @ m # bs)" and Q: "Q (On_Mutex m) = []"
  obtains k' where "mutex_unlock m k = Some (SEM_OK, k')" "kernel_rep k' Q"
    "mutex_owner (mutexes k' m) = 0" "\<And>x. x \<noteq> m \<Longrightarrow> mutex_owner (mutexes k' x) = mutex_owner (mutexes k x)"
    "llist (owned_links (mutexes k')) (owned_mutexes (tcbs k' c)) (as @ bs)"
    "effective_priority (tcbs k' c) = inherited k Q (base_priority (tcbs k c)) (as @ bs)"
    "\<And>x. x \<noteq> c \<Longrightarrow> tcbs k' x = tcbs k x"
    "\<And>x. x \<notin> insert m (set as) \<Longrightarrow> mutexes k' x = mutexes k x" "next_owned (mutexes k' m) = 0"
proof -
  let ?k = "upd_mutex m (\<lambda>x. x\<lparr>mutex_owner := 0\<rparr>) k"
  have ll: "llist (owned_links (mutexes k)) (owned_mutexes (tcbs k c)) (as @ m # bs)"
    using own by (simp add: owns_def)
  have d: "distinct (as @ m # bs)" and m: "m \<noteq> 0" using llist_distinct [OF ll] ll by auto
  have q: "queue_at ?k l = queue_at k l" for l by (cases l) auto
  have rep1: "kernel_rep ?k Q" by (rule kernel_rep_cong [OF rep q]) simp_all
  have own': "mutex_owner (mutexes k m) = current_task k" using own m c by (auto simp: owns_def)
  have eff: "inherited ?k Q p ms = inherited k Q p ms" for p ms by (simp add: inherited_def)
  obtain k' where k': "release m ?k = Some k'" "kernel_rep k' Q"
    "llist (owned_links (mutexes k')) (owned_mutexes (tcbs k' c)) (as @ bs)"
    "effective_priority (tcbs k' c) = inherited ?k Q (base_priority (tcbs ?k c)) (as @ bs)"
    "\<And>x. x \<noteq> c \<Longrightarrow> tcbs k' x = tcbs ?k x"
    "\<And>x. mutex_owner (mutexes k' x) = mutex_owner (mutexes ?k x)"
    "\<And>x. x \<notin> insert m (set as) \<Longrightarrow> mutexes k' x = mutexes ?k x" "owned_links (mutexes k') m = 0"
    by (rule release_rep [OF rep1, of c as m bs]) (use c run ll d m in auto)
  have "mutex_unlock m k = Some (SEM_OK, k')"
    using mutex_unlock_none [OF own'] kernel_rep_queues(4) [OF rep, of m] Q k'(1)
    by (simp add: queue_rep_Nil)
  with k' show thesis by (intro that [of k']) (auto simp: eff owned_links_def)
qed

text \<open>
  With a waiter, the owner changes before the mutex leaves the list of the releasing task, and the link
  of the mutex then already belongs to the list of the new owner. So the releasing task keeps the
  mutexes \<open>as\<close> in front of the released one, loses those behind it, and takes over the list \<open>ns\<close> of the
  new owner, who is left with the released mutex alone.
\<close>

lemma mutex_unlock_handoff_rep:
  assumes rep: "kernel_rep k Q" and c: "c = current_task k" "c \<noteq> 0" and run: "tcb_state (tcbs k c) = TASK_RUNNING"
    and own: "owns k c (as @ m # bs)" and Q: "Q (On_Mutex m) = x # xs" and ns: "owns k x ns"
  obtains r k' R where "mutex_unlock m k = Some (r, k')"
    "kernel_rep k' (Q(On_Mutex m := xs, Ready := R))" "set R = insert x (set (Q Ready))"
    "mutex_owner (mutexes k' m) = x" "\<And>y. y \<noteq> m \<Longrightarrow> mutex_owner (mutexes k' y) = mutex_owner (mutexes k y)"
    "llist (owned_links (mutexes k')) (owned_mutexes (tcbs k' c)) (as @ ns)"
    "llist (owned_links (mutexes k')) (owned_mutexes (tcbs k' x)) [m]"
    "tcb_state (tcbs k' x) = TASK_READY"
    "effective_priority (tcbs k' x) = inherited k (Q(On_Mutex m := xs)) (base_priority (tcbs k x)) (m # ns)"
    "effective_priority (tcbs k' c) = inherited k (Q(On_Mutex m := xs)) (base_priority (tcbs k c)) (as @ ns)"
    "r = (if effective_priority (tcbs k' x) < effective_priority (tcbs k' c) then SEM_OK_YIELD else SEM_OK)"
    "\<And>y. y \<noteq> c \<Longrightarrow> y \<noteq> x \<Longrightarrow> place_of (tcbs k' y) = place_of (tcbs k y) \<and>
       owned_mutexes (tcbs k' y) = owned_mutexes (tcbs k y)"
    "\<And>y. y \<notin> insert m (set as) \<Longrightarrow> mutexes k' y = mutexes k y"
proof -
  have ll: "llist (owned_links (mutexes k)) (owned_mutexes (tcbs k c)) (as @ m # bs)"
    and lx: "llist (owned_links (mutexes k)) (owned_mutexes (tcbs k x)) ns"
    using own ns by (auto simp: owns_def)
  have d: "distinct (as @ m # bs)" and m: "m \<noteq> 0" using llist_distinct [OF ll] ll by auto
  have xc: "x \<noteq> c"
    using kernel_repD(2) [OF rep, of x "On_Mutex m"] Q run by (auto simp: place_of_def)
  have disj: "set (as @ m # bs) \<inter> set ns = {}" using owns_disjoint [OF own ns] xc by simp
  have own': "mutex_owner (mutexes k m) = current_task k" using own m c by (auto simp: owns_def)
  obtain q where pop: "priority_queue_pop (mutex_wait_queue (mutexes k m)) (tcbs k) = (x, q, set_next x 0 (tcbs k))"
    and rep1: "kernel_rep (handed m x q k) (Q(On_Mutex m := xs))" and x: "x \<noteq> 0"
    and nin: "\<And>l. x \<notin> set ((Q(On_Mutex m := xs)) l)"
    by (rule handed_rep [OF rep Q], rule that)
  let ?k1 = "handed m x q k" and ?Q1 = "Q(On_Mutex m := xs)"
  have links1: "owned_links (mutexes ?k1) = (owned_links (mutexes k))(m := owned_mutexes (tcbs k x))"
    by (auto simp: handed_def owned_links_def)
  let ?p = "inherited k ?Q1 (base_priority (tcbs k x)) (m # ns)"
  have "effective_priority (tcbs ?k1 y) = effective_priority (tcbs k y)"
    "base_priority (tcbs ?k1 y) = base_priority (tcbs k y)" for y by (auto simp: handed_def)
  then have "inherited ?k1 ?Q1 (base_priority (tcbs ?k1 x)) (m # ns) = ?p" by (simp only: inherited_def)
  moreover have "llist (owned_links (mutexes ?k1)) (owned_mutexes (tcbs ?k1 x)) (m # ns)"
    using lx m disj by (simp add: links1) (simp add: handed_def)
  ultimately have rec: "task_recalculate_priority x ?k1 = Some ?p"
    using recalculate_eq [OF rep1] by metis
  let ?k2 = "upd_task x (\<lambda>t. t\<lparr>effective_priority := ?p\<rparr>) ?k1"
  have rep2: "kernel_rep ?k2 ?Q1" by (rule set_prio_elsewhere [OF rep1]) (use nin in blast)+
  have cr: "can_run ?k2 x" using x by (simp add: can_run_def handed_def)
  from scheduler_put_task_accept [OF rep2 cr] obtain k3 where
    put: "scheduler_put_task x ?k2 = Some k3" "kernel_rep k3 (?Q1(Ready := put_ready ?k2 x (?Q1 Ready)))"
      "sched_frame ?k2 k3" "tcb_state (tcbs k3 x) = TASK_READY"
      "\<And>y. y \<noteq> x \<Longrightarrow> tcb_state (tcbs k3 y) = tcb_state (tcbs ?k2 y)" by blast
  let ?R = "put_ready ?k2 x (Q Ready)"
  have fr: "mutexes k3 = mutexes ?k1" "current_task k3 = c"
    "\<And>y. owned_mutexes (tcbs k3 y) = owned_mutexes (tcbs ?k2 y)"
    "\<And>y. effective_priority (tcbs k3 y) = effective_priority (tcbs ?k2 y)"
    "\<And>y. base_priority (tcbs k3 y) = base_priority (tcbs k y)"
    "\<And>y. waiting_on (tcbs k3 y) = waiting_on (tcbs ?k2 y)"
    "\<And>y. waiting_on_type (tcbs k3 y) = waiting_on_type (tcbs ?k2 y)"
    using put(3) c by (auto simp: sched_frame_def same_prio_def handed_def)
  have run3: "tcb_state (tcbs k3 c) = TASK_RUNNING"
    using put(5) [of c] xc run by (simp add: handed_def)
  obtain k' where k': "release m k3 = Some k'" "kernel_rep k' (?Q1(Ready := ?R))"
    "llist (owned_links (mutexes k')) (owned_mutexes (tcbs k' c)) (as @ ns)" "owned_links (mutexes k') m = 0"
    "\<And>y. y \<noteq> c \<Longrightarrow> tcbs k' y = tcbs k3 y" "current_task k' = c"
    "\<And>y. mutex_owner (mutexes k' y) = mutex_owner (mutexes k3 y)"
    "\<And>y. y \<notin> insert m (set as) \<Longrightarrow> mutexes k' y = mutexes k3 y"
    "effective_priority (tcbs k' c) = inherited k3 (?Q1(Ready := ?R)) (base_priority (tcbs k3 c)) (as @ ns)"
  proof (rule release_rep [of k3 "?Q1(Ready := ?R)" c as m ns])
    show "lseg (owned_links (mutexes k3)) (owned_mutexes (tcbs k3 c)) as m"
      using ll d xc by (simp add: fr links1) (auto simp: handed_def)
  qed (use put fr run3 d m disj lx in \<open>auto simp: links1 fr\<close>)
  have eq: "mutex_unlock m k = Some (if effective_priority (tcbs k' x) < effective_priority (tcbs k' c)
      then SEM_OK_YIELD else SEM_OK, k')"
    using mutex_unlock_some [OF own' x pop] c rec put(1) k'(1,6) by simp
  have "set ?R = insert x (set (Q Ready))"
    using cr nin [of Ready] by (simp add: put_ready_def remove1_idem)
  moreover have "place_of (tcbs k' y) = place_of (tcbs k y) \<and> owned_mutexes (tcbs k' y) = owned_mutexes (tcbs k y)"
    if "y \<noteq> c" "y \<noteq> x" for y
  proof -
    have "tcbs ?k2 y = tcbs k y" using that by (simp add: handed_def)
    with that k'(5) fr put(5) [of y] show ?thesis by (auto intro!: place_of_cong)
  qed
  moreover have "mutexes k' y = mutexes k y" if "y \<notin> insert m (set as)" for y
    using k'(8) [OF that] that fr(1) by (simp add: handed_def)
  moreover have "inherited k3 (?Q1(Ready := ?R)) p zs = inherited k ?Q1 p zs" for p zs
  proof -
    have "inherited k3 (?Q1(Ready := ?R)) p zs = inherited k3 ?Q1 p zs" by (simp add: inherited_def)
    also have "\<dots> = inherited k ?Q1 p zs"
    proof (rule inherited_cong)
      fix n y
      assume "y \<in> set (?Q1 (On_Mutex n))"
      with nin [of "On_Mutex n"] have "y \<noteq> x" by blast
      then show "effective_priority (tcbs k3 y) = effective_priority (tcbs k y)" by (simp add: fr handed_def)
    qed
    finally show ?thesis .
  qed
  then have "effective_priority (tcbs k' c) = inherited k ?Q1 (base_priority (tcbs k c)) (as @ ns)"
    using k'(9) by (simp only: fr)
  ultimately show thesis
    using eq k' put(4) xc m
    by (intro that [of _ k' ?R])
      (auto simp: fr fun_upd_twist handed_def)
qed

section \<open>Properties\<close>

text \<open>
  An example: task \<open>0x100\<close> runs and owns the mutexes \<open>0x10\<close> and \<open>0x11\<close>; task \<open>0x200\<close>, which owns \<open>0x20\<close>,
  waits for \<open>0x10\<close> and has raised the owner to its priority; nobody waits for \<open>0x11\<close>, \<open>0x20\<close>.
\<close>

definition ex_mutex :: kernel where
  "ex_mutex = zero_kernel\<lparr>current_task := 0x100,
     mutexes := (\<lambda>_. zero_mutex)
       (0x10 := zero_mutex\<lparr>mutex_owner := 0x100, next_owned := 0x11,
          mutex_wait_queue := \<lparr>q_head = 0x200, q_tail = 0x200\<rparr>\<rparr>,
        0x11 := zero_mutex\<lparr>mutex_owner := 0x100\<rparr>, 0x20 := zero_mutex\<lparr>mutex_owner := 0x200\<rparr>),
     tcbs := (\<lambda>_. zero_tcb)
       (0x100 := (task_with TASK_RUNNING 5)\<lparr>effective_priority := 1, owned_mutexes := 0x10\<rparr>,
        0x200 := (task_with TASK_BLOCKED 1)\<lparr>waiting_on := 0x10, waiting_on_type := MUTEX,
          owned_mutexes := 0x20\<rparr>)\<rparr>"

abbreviation ex_mutex_queues :: placement where
  "ex_mutex_queues \<equiv> (\<lambda>_. [])(On_Mutex 0x10 := [0x200])"

lemma ex_mutex_rep: "kernel_rep ex_mutex ex_mutex_queues"
  by (rule kernel_repI)
    (auto simp: ex_mutex_def place_ok_def queue_rep_def links_def place_of_def split: if_splits)

lemma ex_mutex_fields: "current_task ex_mutex = 0x100" "tcb_state (tcbs ex_mutex 0x100) = TASK_RUNNING"
  "mutex_owner (mutexes ex_mutex 0x20) = 0x200" "mutex_owner (mutexes ex_mutex 0x30) = 0"
  by (simp_all add: ex_mutex_def)

lemma ex_mutex_owns: "owns ex_mutex 0x100 [0x10, 0x11]" "owns ex_mutex 0x200 [0x20]"
  by (auto simp: owns_def ex_mutex_def owned_links_def)

lemma ex_mutex_ownership: "ownership ex_mutex"
proof -
  have "owns ex_mutex t []" if "t \<noteq> 0x100" "t \<noteq> 0x200" "t \<noteq> 0" for t
    using that by (auto simp: owns_def ex_mutex_def)
  with ex_mutex_owns show ?thesis unfolding ownership_def by metis
qed

lemma ex_mutex_inherits: "inherits ex_mutex"
  by (auto simp: inherits_def ex_mutex_def place_of_def split: if_splits)

text \<open>C4: Locking a mutex that another task owns returns, blocks the caller in the priority ordered
  queue of the mutex, and raises priorities so that afterwards no task waits for a mutex whose owner
  is less urgent, along whole chains of owners. No priority gets worse and no task loses its queue.\<close>

theorem mutex_lock_inherits:
  assumes "kernel_rep k Q" "inherits k" "current_task k \<noteq> 0"
    "tcb_state (tcbs k (current_task k)) = TASK_RUNNING"
    "mutex_owner (mutexes k m) \<notin> {0, current_task k}"
  shows "\<exists>k' Q'. mutex_lock m k = Some (SEM_OK_YIELD, k') \<and> kernel_rep k' Q' \<and> inherits k' \<and>
     current_task k \<in> set (Q' (On_Mutex m)) \<and> (\<forall>l. set (Q l) \<subseteq> set (Q' l)) \<and>
     (\<forall>x. effective_priority (tcbs k' x) \<le> effective_priority (tcbs k x)) \<and>
     effective_priority (tcbs k' (mutex_owner (mutexes k m))) \<le> effective_priority (tcbs k (current_task k))"
proof -
  have own: "mutex_owner (mutexes k m) \<noteq> 0" "mutex_owner (mutexes k m) \<noteq> current_task k" using assms(5) by auto
  show ?thesis
    by (rule mutex_lock_contended [OF assms(1) refl assms(3,4) refl own]) (use assms(2) in blast)
qed

theorem mutex_lock_inherits_witness:
  "\<exists>k'. mutex_lock 0x20 ex_mutex = Some (SEM_OK_YIELD, k') \<and> inherits k'"
  using mutex_lock_inherits [OF ex_mutex_rep ex_mutex_inherits, of "0x20"] by (auto simp: ex_mutex_fields)

text \<open>Raising the priority of the owner always returns, even when the chain of owners and waiting
  tasks is a cycle (a deadlock), and only ever lowers priority numbers to the given one.\<close>

theorem task_raise_priority_terminates:
  assumes "kernel_rep k Q" "t \<noteq> 0"
  shows "\<exists>k'. task_raise_priority t p k = Some k' \<and> kernel_inv k' \<and> effective_priority (tcbs k' t) \<le> p \<and>
     (\<forall>x. effective_priority (tcbs k' x) \<in> {effective_priority (tcbs k x), p})"
  using raise_priority_rep [OF assms, of p] unfolding kernel_inv_def raised_def by blast

theorem task_raise_priority_terminates_witness:
  "\<exists>k'. task_raise_priority 0x200 0 ex_mutex = Some k' \<and> effective_priority (tcbs k' 0x200) \<le> 0"
  using task_raise_priority_terminates [OF ex_mutex_rep, of "0x200" 0] by auto

text \<open>Locking a free mutex makes the current task its owner and keeps the ownership lists
  consistent; locking a mutex one already owns is reported as a deadlock and changes nothing;
  unlocking a mutex one does not own is refused and changes nothing.\<close>

theorem mutex_lock_free_spec:
  assumes "ownership k" "m \<noteq> 0" "current_task k \<noteq> 0"
  shows "(mutex_owner (mutexes k m) = 0 \<longrightarrow>
       (\<exists>k'. mutex_lock m k = Some (SEM_OK, k') \<and> mutex_owner (mutexes k' m) = current_task k \<and>
          ownership k' \<and> (\<forall>ms. owns k (current_task k) ms \<longrightarrow> owns k' (current_task k) (m # ms)))) \<and>
     (mutex_owner (mutexes k m) = current_task k \<longrightarrow> mutex_lock m k = Some (MUTEX_DEADLOCK, k)) \<and>
     (mutex_owner (mutexes k m) \<noteq> current_task k \<longrightarrow> mutex_unlock m k = Some (MUTEX_NOT_OWNER, k))"
proof -
  have "mutex_owner (mutexes k m) = 0 \<longrightarrow>
       (\<exists>k'. mutex_lock m k = Some (SEM_OK, k') \<and> mutex_owner (mutexes k' m) = current_task k \<and>
          ownership k' \<and> (\<forall>ms. owns k (current_task k) ms \<longrightarrow> owns k' (current_task k) (m # ms)))"
    using lock_free_ownership [OF assms(1) _ assms(2,3)] mutex_lock_free [of k m] by simp
  moreover have "mutex_owner (mutexes k m) = current_task k \<longrightarrow> mutex_lock m k = Some (MUTEX_DEADLOCK, k)"
    using assms(3) by (auto simp: mutex_lock_def)
  moreover have "mutex_owner (mutexes k m) \<noteq> current_task k \<longrightarrow> mutex_unlock m k = Some (MUTEX_NOT_OWNER, k)"
    by (simp add: mutex_unlock_def)
  ultimately show ?thesis by blast
qed

theorem mutex_lock_free_spec_witness:
  "\<exists>k'. mutex_lock 0x30 ex_mutex = Some (SEM_OK, k') \<and> owns k' 0x100 [0x30, 0x10, 0x11]"
proof -
  have "\<exists>k'. mutex_lock 0x30 ex_mutex = Some (SEM_OK, k') \<and>
      (\<forall>ms. owns ex_mutex 0x100 ms \<longrightarrow> owns k' 0x100 (0x30 # ms))"
    using mutex_lock_free_spec [OF ex_mutex_ownership, of "0x30"] by (auto simp: ex_mutex_fields)
  with ex_mutex_owns(1) show ?thesis by blast
qed

text \<open>Unlocking a mutex nobody waits for makes it free, keeps the ownership lists consistent, and
  gives the task the priority it is entitled to: the best of its own and of all tasks that still wait
  for a mutex it owns.\<close>

theorem mutex_unlock_free_spec:
  assumes "kernel_rep k Q" "ownership k" "current_task k \<noteq> 0"
    "tcb_state (tcbs k (current_task k)) = TASK_RUNNING" "m \<noteq> 0"
    "mutex_owner (mutexes k m) = current_task k" "Q (On_Mutex m) = []"
  shows "\<exists>k'. mutex_unlock m k = Some (SEM_OK, k') \<and> kernel_rep k' Q \<and> ownership k' \<and>
     mutex_owner (mutexes k' m) = 0 \<and>
     effective_priority (tcbs k' (current_task k)) =
       Min (insert (base_priority (tcbs k (current_task k)))
         {effective_priority (tcbs k x) | x n. n \<noteq> 0 \<and> mutex_owner (mutexes k' n) = current_task k \<and>
            x \<in> set (Q (On_Mutex n))})"
proof -
  let ?c = "current_task k"
  obtain ms where ms: "owns k ?c ms" using assms(2,3) by (auto simp: ownership_def)
  then have "m \<in> set ms" using assms(5,6) by (auto simp: owns_def)
  then obtain as bs where split: "ms = as @ m # bs" by (auto simp: in_set_conv_decomp)
  have own: "owns k ?c (as @ m # bs)" using ms split by simp
  have d: "distinct (as @ m # bs)" by (rule owns_distinct [OF own])
  obtain k' where k': "mutex_unlock m k = Some (SEM_OK, k')" "kernel_rep k' Q"
    "mutex_owner (mutexes k' m) = 0" "\<And>x. x \<noteq> m \<Longrightarrow> mutex_owner (mutexes k' x) = mutex_owner (mutexes k x)"
    "llist (owned_links (mutexes k')) (owned_mutexes (tcbs k' ?c)) (as @ bs)"
    "effective_priority (tcbs k' ?c) = inherited k Q (base_priority (tcbs k ?c)) (as @ bs)"
    "\<And>x. x \<noteq> ?c \<Longrightarrow> tcbs k' x = tcbs k x"
    "\<And>x. x \<notin> insert m (set as) \<Longrightarrow> mutexes k' x = mutexes k x"
    by (rule mutex_unlock_free_rep [OF assms(1) refl assms(4) own assms(7)], rule that)
  have mem: "n \<in> set (as @ bs) \<longleftrightarrow> mutex_owner (mutexes k' n) = ?c" if "n \<noteq> 0" for n
    using own d that assms(3) k'(3) k'(4) [of n] by (cases "n = m") (auto simp: owns_def)
  have c': "owns k' ?c (as @ bs)" using k'(5) mem by (simp add: owns_def)
  have "owns k' t zs" if t: "owns k t zs" "t \<noteq> ?c" "t \<noteq> 0" for t zs
  proof (rule owns_frame [OF t(1)])
    show "next_owned (mutexes k' n) = next_owned (mutexes k n)" if "n \<in> set zs" for n
      using owns_disjoint [OF t(1) own t(2)] that by (subst k'(8)) auto
    show "mutex_owner (mutexes k' n) = t \<longleftrightarrow> mutex_owner (mutexes k n) = t" for n
      using k'(3,4) assms(6) t(2,3) by (cases "n = m") auto
  qed (use k'(7) t(2) in simp)
  with c' assms(2) have "ownership k'" unfolding ownership_def by metis
  moreover have "0 \<notin> set (as @ bs)" using llist_nonnull [OF k'(5)] .
  then have "(\<Union>n\<in>set (as @ bs). (\<lambda>x. effective_priority (tcbs k x)) ` set (Q (On_Mutex n))) =
      {effective_priority (tcbs k x) | x n. n \<noteq> 0 \<and> mutex_owner (mutexes k' n) = ?c \<and> x \<in> set (Q (On_Mutex n))}"
    using mem by (auto simp: image_iff) (metis mem set_append UnCI)+
  ultimately show ?thesis using k' by (auto simp: inherited_def)
qed

theorem mutex_unlock_free_spec_witness:
  "\<exists>k'. mutex_unlock 0x11 ex_mutex = Some (SEM_OK, k') \<and> ownership k' \<and> mutex_owner (mutexes k' 0x11) = 0"
proof -
  have "mutex_owner (mutexes ex_mutex 0x11) = 0x100" by (simp add: ex_mutex_def)
  with mutex_unlock_free_spec [OF ex_mutex_rep ex_mutex_ownership, of "0x11"] ex_mutex_fields
  show ?thesis by auto
qed

text \<open>C5: Unlocking a mutex somebody waits for returns and hands it to the most urgent waiting task.
  That task becomes ready with exactly the priority it is entitled to: the best of its own and of all
  tasks that wait for a mutex it now owns, this one included. The caller falls back to the best of its
  own priority and of the tasks that wait for a mutex on its list, and is told to yield exactly if the
  new owner is now more urgent.\<close>

theorem mutex_unlock_handoff_spec:
  assumes "kernel_rep k Q" "ownership k" "current_task k \<noteq> 0"
    "tcb_state (tcbs k (current_task k)) = TASK_RUNNING" "m \<noteq> 0"
    "mutex_owner (mutexes k m) = current_task k" "Q (On_Mutex m) = x # xs"
  shows "\<exists>r k' Q' ms. mutex_unlock m k = Some (r, k') \<and> kernel_rep k' Q' \<and>
     mutex_owner (mutexes k' m) = x \<and> Q' (On_Mutex m) = xs \<and> set (Q' Ready) = insert x (set (Q Ready)) \<and>
     (\<forall>y\<in>set xs. effective_priority (tcbs k x) \<le> effective_priority (tcbs k y)) \<and>
     effective_priority (tcbs k' x) = entitled k Q' x {n. n \<noteq> 0 \<and> mutex_owner (mutexes k' n) = x} \<and>
     llist (owned_links (mutexes k')) (owned_mutexes (tcbs k' (current_task k))) ms \<and>
     effective_priority (tcbs k' (current_task k)) = entitled k Q' (current_task k) (set ms) \<and>
     r = (if effective_priority (tcbs k' x) < effective_priority (tcbs k' (current_task k))
          then SEM_OK_YIELD else SEM_OK)"
proof -
  let ?c = "current_task k"
  obtain ms where ms: "owns k ?c ms" using assms(2,3) by (auto simp: ownership_def)
  then have "m \<in> set ms" using assms(5,6) by (auto simp: owns_def)
  then obtain as bs where "ms = as @ m # bs" by (auto simp: in_set_conv_decomp)
  with ms have own: "owns k ?c (as @ m # bs)" by simp
  have "x \<noteq> 0" using queue_rep_nonnull [OF kernel_rep_queues(4) [OF assms(1), of m]] assms(7) by auto
  then obtain ns where ns: "owns k x ns" using assms(2) by (auto simp: ownership_def)
  obtain r k' R where k': "mutex_unlock m k = Some (r, k')"
    "kernel_rep k' (Q(On_Mutex m := xs, Ready := R))" "set R = insert x (set (Q Ready))"
    "mutex_owner (mutexes k' m) = x" "\<And>y. y \<noteq> m \<Longrightarrow> mutex_owner (mutexes k' y) = mutex_owner (mutexes k y)"
    "llist (owned_links (mutexes k')) (owned_mutexes (tcbs k' ?c)) (as @ ns)"
    "effective_priority (tcbs k' x) = inherited k (Q(On_Mutex m := xs)) (base_priority (tcbs k x)) (m # ns)"
    "effective_priority (tcbs k' ?c) = inherited k (Q(On_Mutex m := xs)) (base_priority (tcbs k ?c)) (as @ ns)"
    "r = (if effective_priority (tcbs k' x) < effective_priority (tcbs k' ?c) then SEM_OK_YIELD else SEM_OK)"
    by (rule mutex_unlock_handoff_rep [OF assms(1) refl assms(3,4) own assms(7) ns], rule that)
  let ?Q = "Q(On_Mutex m := xs, Ready := R)"
  have ready: "entitled k (Q(On_Mutex m := xs)) t M = entitled k ?Q t M" for t M by (simp add: entitled_def)
  have "n \<in> set (m # ns) \<longleftrightarrow> n \<noteq> 0 \<and> mutex_owner (mutexes k' n) = x" for n
    using ns assms(5) k'(4) k'(5) [of n] owns_nonnull [OF ns] by (cases "n = m"; cases "n = 0") (auto simp: owns_def)
  then have "set (m # ns) = {n. n \<noteq> 0 \<and> mutex_owner (mutexes k' n) = x}" by blast
  then have "effective_priority (tcbs k' x) = entitled k ?Q x {n. n \<noteq> 0 \<and> mutex_owner (mutexes k' n) = x}"
    "effective_priority (tcbs k' ?c) = entitled k ?Q ?c (set (as @ ns))"
    using k'(7,8) by (simp_all only: inherited_entitled ready)
  moreover have "\<forall>y\<in>set xs. effective_priority (tcbs k x) \<le> effective_priority (tcbs k y)"
    using kernel_repD(3) [OF assms(1), of "On_Mutex m"] assms(7) by simp
  ultimately show ?thesis
    using k'(1-4,6,9)
    by (intro exI [of _ r] exI [of _ k'] exI [of _ ?Q] exI [of _ "as @ ns"]) simp
qed

theorem mutex_unlock_handoff_spec_witness:
  "\<exists>r k'. mutex_unlock 0x10 ex_mutex = Some (r, k') \<and> mutex_owner (mutexes k' 0x10) = 0x200"
proof -
  have "mutex_owner (mutexes ex_mutex 0x10) = 0x100" by (simp add: ex_mutex_def)
  with mutex_unlock_handoff_spec [OF ex_mutex_rep ex_mutex_ownership, of "0x10" "0x200" "[]"] ex_mutex_fields
  show ?thesis by auto
qed

text \<open>C6: A handoff keeps the ownership lists consistent only if the released mutex is the last in
  the list of the releasing task and the new owner had none: otherwise mutexes are lost from the list
  of their owner or appear in the list of a task that does not own them.\<close>

theorem mutex_unlock_handoff_ownership:
  assumes "kernel_rep k Q" "ownership k" "current_task k \<noteq> 0"
    "tcb_state (tcbs k (current_task k)) = TASK_RUNNING"
    "owns k (current_task k) (as @ m # bs)" "Q (On_Mutex m) = x # xs" "owns k x ns"
  shows "\<exists>r k'. mutex_unlock m k = Some (r, k') \<and> (ownership k' \<longleftrightarrow> bs = [] \<and> ns = [])"
proof -
  let ?c = "current_task k"
  note own = assms(5) and ns = assms(7)
  obtain r k' R where k': "mutex_unlock m k = Some (r, k')"
    "mutex_owner (mutexes k' m) = x" "\<And>y. y \<noteq> m \<Longrightarrow> mutex_owner (mutexes k' y) = mutex_owner (mutexes k y)"
    "llist (owned_links (mutexes k')) (owned_mutexes (tcbs k' ?c)) (as @ ns)"
    "llist (owned_links (mutexes k')) (owned_mutexes (tcbs k' x)) [m]"
    "\<And>y. y \<noteq> ?c \<Longrightarrow> y \<noteq> x \<Longrightarrow> place_of (tcbs k' y) = place_of (tcbs k y) \<and>
       owned_mutexes (tcbs k' y) = owned_mutexes (tcbs k y)"
    "\<And>y. y \<notin> insert m (set as) \<Longrightarrow> mutexes k' y = mutexes k y"
    by (rule mutex_unlock_handoff_rep [OF assms(1) refl assms(3,4) own assms(6) ns], rule that)
  have xc: "x \<noteq> ?c"
    using kernel_repD(2) [OF assms(1), of x "On_Mutex m"] assms(4,6) by (auto simp: place_of_def)
  have m: "m \<noteq> 0" "mutex_owner (mutexes k m) = ?c" "distinct (as @ m # bs)"
    using owns_nonnull [OF own] owns_owner [OF own, of m] owns_distinct [OF own] by auto
  have disj: "set (as @ m # bs) \<inter> set ns = {}" using owns_disjoint [OF own ns] xc by simp
  have "bs = [] \<and> ns = []" if cons: "ownership k'"
  proof -
    obtain zs where zs: "owns k' ?c zs" using cons assms(3) by (auto simp: ownership_def)
    then have eq: "zs = as @ ns" using llist_unique [OF _ k'(4)] by (simp add: owns_def)
    have "n \<in> set (as @ ns)" if "n \<in> set bs" for n
      using zs eq that owns_owner [OF own, of n] owns_nonnull [OF own] m(3) k'(3) [of n]
      by (auto simp: owns_def dest!: spec [of _ n])
    then have "bs = []" using m(3) disj by (cases bs) auto
    moreover have "ns = []"
    proof (rule ccontr)
      assume "ns \<noteq> []"
      then obtain n where n: "n \<in> set ns" by (cases ns) auto
      then have "mutex_owner (mutexes k' n) = ?c" using owns_owner [OF zs, of n] eq by simp
      moreover have "n \<noteq> m" using n disj by auto
      ultimately show False using owns_owner [OF ns n] k'(3) [of n] xc by simp
    qed
    ultimately show ?thesis ..
  qed
  moreover have "ownership k'" if e: "bs = [] \<and> ns = []"
    unfolding ownership_def
  proof (intro allI impI)
    fix t :: ptr
    assume t: "t \<noteq> 0"
    consider "t = ?c" | "t = x" | "t \<noteq> ?c" "t \<noteq> x" by blast
    then show "\<exists>ms. owns k' t ms"
    proof cases
      case 1
      have "n \<in> set as \<longleftrightarrow> mutex_owner (mutexes k' n) = ?c" if "n \<noteq> 0" for n
        using own e m xc k'(2) k'(3) [of n] that by (cases "n = m") (auto simp: owns_def)
      then have "owns k' ?c as" using k'(4) e by (simp add: owns_def)
      with 1 show ?thesis by blast
    next
      case 2
      have "n = m \<longleftrightarrow> mutex_owner (mutexes k' n) = x" if "n \<noteq> 0" for n
        using ns e m k'(2) k'(3) [of n] that by (cases "n = m") (auto simp: owns_def)
      then have "owns k' x [m]" using k'(5) by (simp add: owns_def)
      with 2 show ?thesis by blast
    next
      case 3
      obtain ms where ms: "owns k t ms" using assms(2) t by (auto simp: ownership_def)
      have "owns k' t ms"
      proof (rule owns_frame [OF ms])
        show "next_owned (mutexes k' n) = next_owned (mutexes k n)" if "n \<in> set ms" for n
          using owns_disjoint [OF ms own 3(1)] that by (subst k'(7)) auto
        show "mutex_owner (mutexes k' n) = t \<longleftrightarrow> mutex_owner (mutexes k n) = t" for n
          using k'(2,3) m(2) 3 by (cases "n = m") auto
      qed (use k'(6) [OF 3] in simp)
      then show ?thesis by blast
    qed
  qed
  ultimately show ?thesis using k'(1) by blast
qed

theorem mutex_unlock_handoff_ownership_witness:
  "\<exists>r k'. mutex_unlock 0x10 ex_mutex = Some (r, k') \<and> \<not> ownership k'"
proof -
  have own: "owns ex_mutex (current_task ex_mutex) ([] @ 0x10 # [0x11])"
    using ex_mutex_owns(1) by (simp add: ex_mutex_fields)
  have "ex_mutex_queues (On_Mutex 0x10) = 0x200 # []" by simp
  from mutex_unlock_handoff_ownership [OF ex_mutex_rep ex_mutex_ownership _ _ own this ex_mutex_owns(2)]
  show ?thesis by (simp add: ex_mutex_fields)
qed

text \<open>A task that ends releases only the first of its mutexes: releasing clears the link through
  which the loop would find the next one. The others stay owned by the task that no longer exists.\<close>

theorem mutex_unlock_all_owned_first_only:
  assumes "kernel_rep k Q" "current_task k \<noteq> 0" "tcb_state (tcbs k (current_task k)) = TASK_RUNNING"
    "owns k (current_task k) (m # ms)" "Q (On_Mutex m) = []"
  shows "\<exists>k'. mutex_unlock_all_owned (owned_mutexes (tcbs k (current_task k))) k = Some k' \<and>
     mutex_owner (mutexes k' m) = 0 \<and> (\<forall>n\<in>set ms. mutex_owner (mutexes k' n) = current_task k)"
proof -
  let ?c = "current_task k"
  have own: "owns k ?c ([] @ m # ms)" using assms(4) by simp
  obtain k' where k': "mutex_unlock m k = Some (SEM_OK, k')" "mutex_owner (mutexes k' m) = 0"
    "next_owned (mutexes k' m) = 0" "\<And>x. x \<noteq> m \<Longrightarrow> mutex_owner (mutexes k' x) = mutex_owner (mutexes k x)"
    by (rule mutex_unlock_free_rep [OF assms(1) refl assms(3) own assms(5)], rule that)
  have m: "m \<noteq> 0" "owned_mutexes (tcbs k ?c) = m" "m \<notin> set ms"
    using assms(4) owns_distinct [OF assms(4)] by (auto simp: owns_def)
  have "mutex_unlock_all_owned m k = Some k'"
    using k'(1,3) m(1) by (simp add: mutex_unlock_all_owned.simps [of m k] mutex_unlock_all_owned.simps [of 0 k'])
  moreover have "mutex_owner (mutexes k' n) = ?c" if "n \<in> set ms" for n
    using k'(4) [of n] owns_owner [OF assms(4), of n] that m(3) by auto
  ultimately show ?thesis using m(2) k'(2) by auto
qed

theorem mutex_unlock_all_owned_witness:
  "\<exists>k'. mutex_unlock_all_owned 0x30 (the (map_option snd (mutex_lock 0x30 ex_mutex))) = Some k' \<and>
     mutex_owner (mutexes k' 0x30) = 0 \<and> mutex_owner (mutexes k' 0x11) = 0x100"
proof -
  let ?k = "the (map_option snd (mutex_lock 0x30 ex_mutex))"
  have k: "?k = upd_task 0x100 (\<lambda>t. t\<lparr>owned_mutexes := 0x30\<rparr>)
      (upd_mutex 0x30 (\<lambda>x. x\<lparr>mutex_owner := 0x100, next_owned := 0x10\<rparr>) ex_mutex)"
    by (simp add: mutex_lock_free ex_mutex_fields) (simp add: ex_mutex_def)
  have q: "queue_at ?k l = queue_at ex_mutex l" for l unfolding k by (cases l) auto
  have rep: "kernel_rep ?k ex_mutex_queues"
    by (rule kernel_rep_cong [OF ex_mutex_rep q]) (simp_all add: k)
  have own: "owns ?k (current_task ?k) (0x30 # [0x10, 0x11])"
    unfolding k by (auto simp: owns_def owned_links_def ex_mutex_def)
  have f: "current_task ?k = 0x100" "tcb_state (tcbs ?k 0x100) = TASK_RUNNING"
    "owned_mutexes (tcbs ?k 0x100) = 0x30" by (simp_all add: k ex_mutex_fields)
  from mutex_unlock_all_owned_first_only [OF rep _ _ own] show ?thesis by (simp only: f) auto
qed

section \<open>A lost list makes the kernel hang\<close>

lemma recalculate_cycle:
  assumes "n \<noteq> 0" "next_owned (mutexes k n) = n"
  shows "recalculate_loop k p n = None"
proof (rule ccontr)
  assume "recalculate_loop k p n \<noteq> None"
  then obtain y where y: "recalculate_loop k p n = Some y" by auto
  have "\<not> (n \<noteq> 0 \<and> next_owned (mutexes k n) = n)"
    by (rule recalculate_loop.raw_induct [OF _ y]) (fastforce simp: Let_def split: if_splits)
  with assms show False by simp
qed

end
