(* ===== verification/CLib.thy ===== *)
theory CLib
  imports Prelude
begin

unbundle bit_operations_syntax

text \<open>
  The C library functions the program brings along (\<^verbatim>\<open>source/utils.c\<close>), on a byte addressed memory:
  string length and comparison, filling, copying and comparing memory, and the CRC-32 that protects
  the records in flash. A string function on memory without a terminator does not return (\<open>None\<close>).
\<close>

section \<open>Memory\<close>

type_synonym mem = "ptr \<Rightarrow> u8"

text \<open>The \<open>n\<close> bytes from an address on.\<close>

primrec bytes_at :: "mem \<Rightarrow> ptr \<Rightarrow> nat \<Rightarrow> u8 list" where
  "bytes_at m p 0 = []"
| "bytes_at m p (Suc n) = m p # bytes_at m (p + 1) n"

lemma length_bytes_at [simp]: "length (bytes_at m p n) = n"
  by (induction n arbitrary: p) simp_all

lemma bytes_at_2: "bytes_at m p 2 = [m p, m (p + 1)]"
  by (simp add: numeral_2_eq_2)

lemma bytes_at_nth: "i < n \<Longrightarrow> bytes_at m p n ! i = m (p + of_nat i)"
  by (induction n arbitrary: p i) (auto simp: nth_Cons' algebra_simps of_nat_diff)

section \<open>Operations\<close>

partial_function (option) strcmp :: "mem \<Rightarrow> ptr \<Rightarrow> ptr \<Rightarrow> int option" where
  "strcmp m s1 s2 =
     (if m s1 \<noteq> 0 \<and> m s1 = m s2 then strcmp m (s1 + 1) (s2 + 1)
      else Some (uint (m s1) - uint (m s2)))"

partial_function (option) strlen_loop :: "mem \<Rightarrow> ptr \<Rightarrow> int \<Rightarrow> int option" where
  "strlen_loop m str count =
     (if m str \<noteq> 0 then strlen_loop m (str + 1) (count + 1) else Some count)"

definition strlen :: "mem \<Rightarrow> ptr \<Rightarrow> int option" where
  "strlen m str = strlen_loop m str 0"

function memset :: "mem \<Rightarrow> ptr \<Rightarrow> int \<Rightarrow> u32 \<Rightarrow> mem" where
  "memset m dst val len =
     (if len = 0 then m else memset (m(dst := word_of_int val)) (dst + 1) val (len - 1))"
  by auto
termination by (relation "measure (\<lambda>(m, dst, val, len). unat len)") (auto intro: measure_unat)

function memcpy :: "mem \<Rightarrow> ptr \<Rightarrow> ptr \<Rightarrow> u32 \<Rightarrow> mem" where
  "memcpy m dest src n =
     (if n = 0 then m else memcpy (m(dest := m src)) (dest + 1) (src + 1) (n - 1))"
  by auto
termination by (relation "measure (\<lambda>(m, dest, src, n). unat n)") (auto intro: measure_unat)

lemma less_next_measure: "i < (n :: 'a::len word) \<Longrightarrow> unat n - unat (i + 1) < unat n - unat i"
  using unat_next [of i n] by (simp add: word_less_nat_alt)

function memcmp_loop :: "mem \<Rightarrow> ptr \<Rightarrow> ptr \<Rightarrow> u32 \<Rightarrow> u32 \<Rightarrow> int" where
  "memcmp_loop m p1 p2 n i =
     (if i < n
      then if m (p1 + i) \<noteq> m (p2 + i) then uint (m (p1 + i)) - uint (m (p2 + i))
           else memcmp_loop m p1 p2 n (i + 1)
      else 0)"
  by auto
termination
  by (relation "measure (\<lambda>(m, p1, p2, n, i). unat n - unat i)") (auto intro: less_next_measure)

definition memcmp :: "mem \<Rightarrow> ptr \<Rightarrow> ptr \<Rightarrow> u32 \<Rightarrow> int" where
  "memcmp m s1 s2 n = memcmp_loop m s1 s2 n 0"

text \<open>One round of the inner loop of the CRC, and the eight of a byte.\<close>

definition crc_bit :: "u32 \<Rightarrow> u32" where
  "crc_bit crc = (if crc AND 1 \<noteq> 0 then drop_bit 1 crc XOR 0xEDB88320 else drop_bit 1 crc)"

definition crc_byte :: "u32 \<Rightarrow> u8 \<Rightarrow> u32" where
  "crc_byte crc d = (crc_bit ^^ 8) (crc XOR ucast d)"

function crc32_loop :: "mem \<Rightarrow> ptr \<Rightarrow> u32 \<Rightarrow> u32 \<Rightarrow> u32 \<Rightarrow> u32" where
  "crc32_loop m data len i crc =
     (if i < len then crc32_loop m data len (i + 1) (crc_byte crc (m (data + i))) else crc)"
  by auto
termination
  by (relation "measure (\<lambda>(m, data, len, i, crc). unat len - unat i)") (auto intro: less_next_measure)

definition crc32 :: "mem \<Rightarrow> ptr \<Rightarrow> u32 \<Rightarrow> u32" where
  "crc32 m data len = NOT (crc32_loop m data len 0 0xFFFFFFFF)"

declare memset.simps [simp del] memcpy.simps [simp del] memcmp_loop.simps [simp del] crc32_loop.simps [simp del]
declare strcmp.simps [code] strlen_loop.simps [code]

section \<open>Memory blocks\<close>

text \<open>The addresses of a block of \<open>n\<close> bytes.\<close>

definition block :: "ptr \<Rightarrow> nat \<Rightarrow> ptr set" where
  "block p n = (\<lambda>i. p + of_nat i) ` {..<n}"

lemma block_0 [simp]: "block p 0 = {}"
  by (simp add: block_def)

lemma block_Suc: "block p (Suc n) = insert p (block (p + 1) n)"
  by (simp add: block_def lessThan_Suc_eq_insert_0 image_image ac_simps)

lemma start_not_in_rest:
  assumes "Suc n \<le> 2 ^ 32"
  shows "p \<notin> block (p + 1) n"
proof
  assume "p \<in> block (p + 1) n"
  then obtain i where i: "i < n" "p = p + 1 + of_nat i" by (auto simp: block_def)
  then have "of_nat (Suc i) = (0 :: ptr)" by (simp add: algebra_simps)
  moreover have "unat (of_nat (Suc i) :: ptr) = Suc i"
    using i(1) assms by (simp only: unat_of_nat) simp
  ultimately show False by simp
qed

lemma bytes_at_cong: "(\<And>a. a \<in> block p n \<Longrightarrow> m' a = m a) \<Longrightarrow> bytes_at m' p n = bytes_at m p n"
  by (induction n arbitrary: p) (auto simp: block_Suc)

lemma memset_block:
  "unat len = n \<Longrightarrow> bytes_at (memset m p v len) p n = replicate n (word_of_int v) \<and>
   (\<forall>a. a \<notin> block p n \<longrightarrow> memset m p v len a = m a)"
proof (induction n arbitrary: m p len)
  case 0
  then have "len = 0" by (simp add: unat_eq_zero)
  then show ?case by (simp add: memset.simps)
next
  case (Suc n)
  then have nz: "len \<noteq> 0" and len: "unat (len - 1) = n" by (auto dest: unat_Suc_pred)
  let ?m = "memset (m(p := word_of_int v)) (p + 1) v (len - 1)"
  have IH: "bytes_at ?m (p + 1) n = replicate n (word_of_int v)"
    "\<And>a. a \<notin> block (p + 1) n \<Longrightarrow> ?m a = (m(p := word_of_int v)) a"
    using Suc.IH [OF len] by blast+
  have "p \<notin> block (p + 1) n"
    using unat_lt2p [of len] Suc.prems by (intro start_not_in_rest) simp
  then have "?m p = word_of_int v" using IH(2) by simp
  with IH nz show ?case by (auto simp: memset.simps [of m p v len] block_Suc)
qed

text \<open>Copying forwards is right unless the source is overwritten before it is read.\<close>

definition safe_copy :: "ptr \<Rightarrow> ptr \<Rightarrow> nat \<Rightarrow> bool" where
  "safe_copy dest src n \<longleftrightarrow> (\<forall>i<n. \<forall>j<i. dest + of_nat j \<noteq> src + of_nat i)"

lemma safe_copy_Suc:
  assumes "safe_copy dest src (Suc n)"
  shows "safe_copy (dest + 1) (src + 1) n" "dest \<notin> block (src + 1) n"
proof -
  have *: "dest + of_nat j \<noteq> src + of_nat i" if "i < Suc n" "j < i" for i j
    using assms that by (auto simp: safe_copy_def)
  show "safe_copy (dest + 1) (src + 1) n"
    using * [of "Suc _" "Suc _"] by (auto simp: safe_copy_def algebra_simps)
  show "dest \<notin> block (src + 1) n"
    using * [of "Suc _" 0] by (auto simp: block_def algebra_simps)
qed

lemma memcpy_block:
  "unat len = n \<Longrightarrow> safe_copy dest src n \<Longrightarrow>
   bytes_at (memcpy m dest src len) dest n = bytes_at m src n \<and>
   (\<forall>a. a \<notin> block dest n \<longrightarrow> memcpy m dest src len a = m a)"
proof (induction n arbitrary: m dest src len)
  case 0
  then have "len = 0" by (simp add: unat_eq_zero)
  then show ?case by (simp add: memcpy.simps)
next
  case (Suc n)
  then have nz: "len \<noteq> 0" and len: "unat (len - 1) = n" by (auto dest: unat_Suc_pred)
  let ?m1 = "m(dest := m src)"
  let ?m = "memcpy ?m1 (dest + 1) (src + 1) (len - 1)"
  note safe = safe_copy_Suc [OF Suc.prems(2)]
  have IH: "bytes_at ?m (dest + 1) n = bytes_at ?m1 (src + 1) n"
    "\<And>a. a \<notin> block (dest + 1) n \<Longrightarrow> ?m a = ?m1 a"
    using Suc.IH [OF len safe(1)] by blast+
  have "dest \<notin> block (dest + 1) n"
    using unat_lt2p [of len] Suc.prems(1) by (intro start_not_in_rest) simp
  then have "?m dest = m src" using IH(2) by simp
  moreover have "bytes_at ?m1 (src + 1) n = bytes_at m (src + 1) n"
    using safe(2) by (intro bytes_at_cong) auto
  ultimately show ?case using IH nz by (auto simp: memcpy.simps [of m dest src len] block_Suc)
qed

lemma loop_bytes:
  assumes "i < (n::u32)"
  shows "bytes_at m (p + i) (unat n - unat i) = m (p + i) # bytes_at m (p + (i + 1)) (unat n - unat (i + 1))"
proof -
  have lt: "unat i < unat n" using assms by (simp add: word_less_nat_alt)
  then have "unat i + 1 < 2 ^ 32" using unat_lt2p [of n] by simp
  then have "unat (i + 1) = unat i + 1" by (simp add: unat_word_ariths)
  with lt have "unat n - unat i = Suc (unat n - unat (i + 1))" by simp
  then show ?thesis by (simp add: add.assoc)
qed

lemma loop_end: "\<not> i < (n::u32) \<Longrightarrow> unat n - unat i = 0"
  by (simp add: word_less_nat_alt)

lemma memcmp_loop_zero:
  "memcmp_loop m p q n i = 0 \<longleftrightarrow>
     bytes_at m (p + i) (unat n - unat i) = bytes_at m (q + i) (unat n - unat i)"
proof (induction m p q n i rule: memcmp_loop.induct)
  case (1 m p q n i)
  show ?case
  proof (cases "i < n")
    case True
    with 1 show ?thesis
      by (simp add: memcmp_loop.simps [of m p q n i] loop_bytes word_uint_eq_iff)
  next
    case False
    then show ?thesis by (simp add: memcmp_loop.simps [of m p q n i] loop_end)
  qed
qed

lemma crc32_loop_bytes:
  "crc32_loop m p n i crc = foldl crc_byte crc (bytes_at m (p + i) (unat n - unat i))"
proof (induction m p n i crc rule: crc32_loop.induct)
  case (1 m p n i crc)
  show ?case
  proof (cases "i < n")
    case True
    with 1 show ?thesis by (simp add: crc32_loop.simps [of m p n i] loop_bytes)
  next
    case False
    then show ?thesis by (simp add: crc32_loop.simps [of m p n i] loop_end)
  qed
qed

definition crc_list :: "u8 list \<Rightarrow> u32" where
  "crc_list bs = NOT (foldl crc_byte 0xFFFFFFFF bs)"

lemma crc32_bytes: "crc32 m p n = crc_list (bytes_at m p (unat n))"
  by (simp add: crc32_def crc_list_def crc32_loop_bytes)

section \<open>Strings\<close>

definition is_string :: "mem \<Rightarrow> ptr \<Rightarrow> u8 list \<Rightarrow> bool" where
  "is_string m p xs \<longleftrightarrow> bytes_at m p (Suc (length xs)) = xs @ [0] \<and> 0 \<notin> set xs"

lemma is_string_simps:
  "is_string m p [] \<longleftrightarrow> m p = 0"
  "is_string m p (x # xs) \<longleftrightarrow> m p = x \<and> x \<noteq> 0 \<and> is_string m (p + 1) xs"
  by (auto simp: is_string_def)

lemma strlen_loop_eq: "is_string m p xs \<Longrightarrow> strlen_loop m p c = Some (c + int (length xs))"
proof (induction xs arbitrary: p c)
  case Nil
  then show ?case by (simp add: is_string_simps strlen_loop.simps [of m p])
next
  case (Cons x xs)
  then show ?case by (simp add: is_string_simps strlen_loop.simps [of m p])
qed

lemma strcmp_total:
  "is_string m p xs \<Longrightarrow> is_string m q ys \<Longrightarrow> \<exists>r. strcmp m p q = Some r \<and> (r = 0 \<longleftrightarrow> xs = ys)"
proof (induction xs arbitrary: p q ys)
  case Nil
  then show ?case
    by (cases ys) (auto simp: is_string_simps strcmp.simps [of m p q] uint_0_iff)
next
  case (Cons x xs)
  show ?case
  proof (cases "m p = m q")
    case True
    with Cons.prems obtain ys' where ys: "ys = x # ys'" "is_string m (q + 1) ys'"
      by (cases ys) (auto simp: is_string_simps)
    with True Cons.prems Cons.IH [of "p + 1" "q + 1" ys'] show ?thesis
      by (simp add: is_string_simps strcmp.simps [of m p q])
  next
    case False
    then have "uint (m p) \<noteq> uint (m q)" by (simp add: word_uint_eq_iff)
    with False Cons.prems show ?thesis
      by (cases ys) (auto simp: is_string_simps strcmp.simps [of m p q])
  qed
qed

section \<open>The CRC\<close>

text \<open>
  The top bit of the result of one round tells whether the polynomial was added, so a round loses no
  information; neither does a byte.
\<close>

lemma and_1_bit: "(c::u32) AND 1 \<noteq> 0 \<longleftrightarrow> bit c 0"
  by (simp add: and_one_eq odd_iff_mod_2_eq_one bit_0)

lemma bit_shift_xor:
  "bit (if bit c 0 then drop_bit 1 c XOR P else drop_bit 1 c) n \<longleftrightarrow>
     (bit (c::u32) (Suc n) \<noteq> (bit c 0 \<and> bit P n))"
  by (simp add: bit_xor_iff bit_drop_bit_eq)

lemma crc_bit_top: "bit (crc_bit c) 31 \<longleftrightarrow> bit c 0"
  using bit_imp_le_length [of c 32] unfolding crc_bit_def and_1_bit bit_shift_xor by auto

lemma inj_crc_bit: "inj crc_bit"
proof (rule injI)
  fix a b :: u32
  assume eq: "crc_bit a = crc_bit b"
  then have low: "bit a 0 \<longleftrightarrow> bit b 0" by (metis crc_bit_top)
  have "bit a (Suc n) \<longleftrightarrow> bit b (Suc n)" for n
    using arg_cong [OF eq, of "\<lambda>x. bit x n"] low unfolding crc_bit_def and_1_bit bit_shift_xor by blast
  with low show "a = b" by (intro bit_eqI) (metis not0_implies_Suc)
qed

lemma inj_crc_rounds: "inj (crc_bit ^^ n)"
  using inj_crc_bit by (induction n) (auto simp: inj_compose)

lemma xor_cancel: "(a XOR c = b XOR c) = (a = b)" "(c XOR a = c XOR b) = (a = b)" for a b c :: u32
  by (auto simp: bit_eq_iff bit_xor_iff)

lemma crc_byte_eq_iff: "crc_byte c d = crc_byte c' d' \<longleftrightarrow> c XOR ucast d = c' XOR ucast d'"
  unfolding crc_byte_def using inj_crc_rounds [of 8] by (metis injD)

lemma ucast_inj: "(ucast (d::u8) :: u32) = ucast d' \<longleftrightarrow> d = d'"
proof
  assume "(ucast d :: u32) = ucast d'"
  then have "uint (ucast d :: u32) = uint (ucast d' :: u32)" by simp
  then show "d = d'" by (simp add: uint_up_ucast is_up word_uint_eq_iff)
qed simp

lemma foldl_crc_inj: "foldl crc_byte c bs = foldl crc_byte c' bs \<longleftrightarrow> c = c'"
  by (induction bs arbitrary: c c') (simp_all add: crc_byte_eq_iff xor_cancel)

lemma funpow_8: "(f ^^ 8) x = f (f (f (f (f (f (f (f x)))))))"
  by (simp add: eval_nat_numeral)

lemma crc_check_value: "crc_list [0x31, 0x32, 0x33, 0x34, 0x35, 0x36, 0x37, 0x38, 0x39] = 0xCBF43926"
  by (simp add: crc_list_def crc_byte_def crc_bit_def funpow_8)

section \<open>Properties\<close>

text \<open>Copying and filling memory: the destination holds the bytes of the source (or the fill
  value), nothing else changes. Copying goes forwards, so the blocks may overlap as long as no source
  byte is overwritten before it is read.\<close>

theorem memcpy_memset_spec:
  "(safe_copy dest src (unat n) \<longrightarrow>
      bytes_at (memcpy m dest src n) dest (unat n) = bytes_at m src (unat n) \<and>
      (\<forall>a. a \<notin> block dest (unat n) \<longrightarrow> memcpy m dest src n a = m a)) \<and>
   bytes_at (memset m dest v n) dest (unat n) = replicate (unat n) (word_of_int v) \<and>
   (\<forall>a. a \<notin> block dest (unat n) \<longrightarrow> memset m dest v n a = m a)"
  using memcpy_block [OF refl] memset_block [OF refl] by blast

theorem memcpy_memset_spec_witness:
  "bytes_at (memcpy (\<lambda>a. ucast a) 0x10 0x12 3) 0x10 3 = [0x12, 0x13, 0x14]"
proof -
  have "dest \<noteq> src" if "dest = 0x10 + of_nat j" "src = 0x12 + of_nat i" "i < 3" "j < i"
    for i j and dest src :: ptr
  proof -
    have "i \<in> {0, 1, 2}" "j \<in> {0, 1}" using that by auto
    with that show ?thesis by auto
  qed
  then have "safe_copy 0x10 0x12 (unat (3::u32))" by (auto simp: safe_copy_def)
  with memcpy_memset_spec [of "0x10" "0x12" 3 "\<lambda>a. ucast a"]
  have "bytes_at (memcpy (\<lambda>a. ucast a) 0x10 0x12 3) 0x10 3 = bytes_at (\<lambda>a. ucast a) 0x12 3" by simp
  also have "\<dots> = [0x12, 0x13, 0x14]" by (simp add: numeral_3_eq_3)
  finally show ?thesis .
qed

text \<open>Comparing: \<open>memcmp\<close> is zero exactly for equal blocks; on two strings \<open>strcmp\<close> returns, and is
  zero exactly for equal strings; \<open>strlen\<close> returns the length.\<close>

theorem string_compare_spec:
  assumes "is_string m p xs" "is_string m q ys"
  shows "(memcmp m a b n = 0 \<longleftrightarrow> bytes_at m a (unat n) = bytes_at m b (unat n)) \<and>
     (\<exists>r. strcmp m p q = Some r \<and> (r = 0 \<longleftrightarrow> xs = ys)) \<and> strlen m p = Some (int (length xs))"
  using strcmp_total [OF assms] strlen_loop_eq [OF assms(1), of 0] memcmp_loop_zero [of m a b n 0]
  by (simp add: memcmp_def strlen_def)

theorem string_compare_spec_witness:
  "\<exists>r. strcmp ((\<lambda>_. 0)(4 := 65, 8 := 66)) 4 8 = Some r \<and> r \<noteq> 0"
  using string_compare_spec [of "(\<lambda>_. 0)(4 := 65, 8 := 66)" 4 "[65]" 8 "[66]"]
  by (simp add: is_string_simps)

text \<open>C13: The checksum is the CRC-32 of the standards (its check value for the digits 1 to 9), and it
  detects every error confined to one byte, wherever in a message of any length.\<close>

theorem crc32_detects_byte_error:
  "crc_list [0x31, 0x32, 0x33, 0x34, 0x35, 0x36, 0x37, 0x38, 0x39] = 0xCBF43926 \<and>
   (bytes_at m p (unat n) = us @ d # vs \<longrightarrow> bytes_at m' p' (unat n) = us @ d' # vs \<longrightarrow> d \<noteq> d' \<longrightarrow>
      crc32 m p n \<noteq> crc32 m' p' n)"
proof -
  have "crc_list [0x31, 0x32, 0x33, 0x34, 0x35, 0x36, 0x37, 0x38, 0x39] = 0xCBF43926" by (rule crc_check_value)
  moreover have "crc_list (us @ d # vs) \<noteq> crc_list (us @ d' # vs)" if "d \<noteq> d'"
    using that by (simp add: crc_list_def foldl_crc_inj crc_byte_eq_iff xor_cancel ucast_inj
        bit.compl_eq_compl_iff)
  ultimately show ?thesis by (simp add: crc32_bytes)
qed

theorem crc32_detects_byte_error_witness:
  "crc32 (\<lambda>_. 0) 0 2 \<noteq> crc32 ((\<lambda>_. 0)(1 := 1)) 0 2"
proof -
  have "bytes_at m 0 (unat (2::u32)) = [m 0, m 1]" for m by (simp add: bytes_at_2)
  with crc32_detects_byte_error [of "\<lambda>_. 0" 0 2 "[0]" 0 "[]" "(\<lambda>_. 0)(1 := 1)" 0 1]
  show ?thesis by (simp del: unat_numeral)
qed

end
