(* ===== verification/Ring_Buffer.thy ===== *)
theory Ring_Buffer
  imports Prelude
begin

text \<open>
  The byte ring buffer of \<^verbatim>\<open>source/kernel/ring_buffer.c\<close>, with its 8-bit indices, and the contract
  of a bounded first-in first-out queue as a locale, interpreted on the ring buffer.
\<close>

section \<open>Operations\<close>

record ring_buffer_t =
  rb_buffer :: "u8 list"
  rb_size :: u8
  rb_head :: u8
  rb_tail :: u8

definition ring_buffer_put :: "ring_buffer_t \<Rightarrow> u8 \<Rightarrow> ring_buffer_t" where
  "ring_buffer_put rb data =
     (let rb = rb\<lparr>rb_buffer := (rb_buffer rb)[unat (rb_head rb) := data]\<rparr>;
          rb = rb\<lparr>rb_head := rb_head rb + 1\<rparr>
      in if rb_head rb = rb_size rb then rb\<lparr>rb_head := 0\<rparr> else rb)"

definition ring_buffer_get :: "ring_buffer_t \<Rightarrow> u8 \<times> ring_buffer_t" where
  "ring_buffer_get rb =
     (let data = rb_buffer rb ! unat (rb_tail rb);
          rb = rb\<lparr>rb_tail := rb_tail rb + 1\<rparr>;
          rb = (if rb_tail rb = rb_size rb then rb\<lparr>rb_tail := 0\<rparr> else rb)
      in (data, rb))"

definition ring_buffer_peek :: "ring_buffer_t \<Rightarrow> u8" where
  "ring_buffer_peek rb = rb_buffer rb ! unat (rb_tail rb)"

definition ring_buffer_empty :: "ring_buffer_t \<Rightarrow> bool" where
  "ring_buffer_empty rb \<longleftrightarrow> rb_head rb = rb_tail rb"

definition ring_buffer_full :: "ring_buffer_t \<Rightarrow> bool" where
  "ring_buffer_full rb =
     (let idx_after_head = rb_head rb + 1;
          idx_after_head = (if idx_after_head = rb_size rb then 0 else idx_after_head)
      in idx_after_head = rb_tail rb)"

section \<open>The contract of a bounded queue\<close>

text \<open>
  A queue that accepts elements while it is not full and hands them out in order. \<open>room q\<close> is the
  number of further elements it can take.
\<close>

locale bounded_fifo =
  fixes wf :: "'q \<Rightarrow> bool" and content :: "'q \<Rightarrow> 'a list" and room :: "'q \<Rightarrow> nat"
    and put :: "'q \<Rightarrow> 'a \<Rightarrow> 'q" and get :: "'q \<Rightarrow> 'a \<times> 'q"
    and full :: "'q \<Rightarrow> bool" and empty :: "'q \<Rightarrow> bool"
  assumes put_ok: "wf q \<Longrightarrow> \<not> full q \<Longrightarrow>
        wf (put q x) \<and> content (put q x) = content q @ [x] \<and> Suc (room (put q x)) = room q"
    and get_ok: "wf q \<Longrightarrow> content q = x # xs \<Longrightarrow>
        fst (get q) = x \<and> wf (snd (get q)) \<and> content (snd (get q)) = xs"
    and full_iff: "wf q \<Longrightarrow> full q \<longleftrightarrow> room q = 0"
    and empty_iff: "wf q \<Longrightarrow> empty q \<longleftrightarrow> content q = []"
begin

primrec get_all :: "nat \<Rightarrow> 'q \<Rightarrow> 'a list" where
  "get_all 0 q = []"
| "get_all (Suc n) q = (if empty q then [] else fst (get q) # get_all n (snd (get q)))"

lemma put_list:
  "wf q \<Longrightarrow> length xs \<le> room q \<Longrightarrow>
   wf (foldl put q xs) \<and> content (foldl put q xs) = content q @ xs"
proof (induction xs arbitrary: q)
  case (Cons x xs)
  then have "\<not> full q" by (simp add: full_iff)
  with Cons.prems(1) have "wf (put q x)" "content (put q x) = content q @ [x]" "Suc (room (put q x)) = room q"
    using put_ok by auto
  with Cons show ?case by simp
qed simp

lemma get_all_content: "wf q \<Longrightarrow> length (content q) \<le> n \<Longrightarrow> get_all n q = content q"
proof (induction n arbitrary: q)
  case (Suc n)
  show ?case
  proof (cases "content q")
    case Nil
    with Suc.prems show ?thesis by (simp add: empty_iff)
  next
    case (Cons x xs)
    with Suc.prems(1) have "fst (get q) = x" "wf (snd (get q))" "content (snd (get q)) = xs"
      using get_ok by blast+
    with Suc Cons show ?thesis by (simp add: empty_iff)
  qed
qed simp

text \<open>What goes in comes out, in order, behind what was there.\<close>

lemma fifo_round_trip:
  assumes "wf q" "length xs \<le> room q"
  shows "get_all (length (content q @ xs)) (foldl put q xs) = content q @ xs"
  using put_list [OF assms] get_all_content [of "foldl put q xs"] by simp

end

section \<open>The ring buffer is one\<close>

definition rb_ok :: "ring_buffer_t \<Rightarrow> bool" where
  "rb_ok rb \<longleftrightarrow> length (rb_buffer rb) = unat (rb_size rb) \<and>
     unat (rb_head rb) < unat (rb_size rb) \<and> unat (rb_tail rb) < unat (rb_size rb)"

definition rb_count :: "ring_buffer_t \<Rightarrow> nat" where
  "rb_count rb = (unat (rb_head rb) + unat (rb_size rb) - unat (rb_tail rb)) mod unat (rb_size rb)"

definition rb_content :: "ring_buffer_t \<Rightarrow> u8 list" where
  "rb_content rb =
     map (\<lambda>i. rb_buffer rb ! ((unat (rb_tail rb) + i) mod unat (rb_size rb))) [0..<rb_count rb]"

text \<open>One slot stays unused, so that a full buffer differs from an empty one.\<close>

definition rb_room :: "ring_buffer_t \<Rightarrow> nat" where
  "rb_room rb = unat (rb_size rb) - 1 - rb_count rb"

definition rb_next :: "u8 \<Rightarrow> u8 \<Rightarrow> u8" where
  "rb_next sz i = (if i + 1 = sz then 0 else i + 1)"

lemma rb_next_eq:
  assumes "unat i < unat sz"
  shows "unat (rb_next sz i) = Suc (unat i) mod unat sz"
proof -
  have "unat i + 1 < 2 ^ 8" using assms unat_lt2p [of sz] by simp
  then have "unat (i + 1) = unat i + 1" by (simp add: unat_word_ariths)
  moreover from this have "i + 1 = sz \<longleftrightarrow> unat i + 1 = unat sz" by (metis word_unat_eq_iff)
  ultimately show ?thesis using assms by (simp add: rb_next_def)
qed

lemma put_next: "ring_buffer_put rb x =
    rb\<lparr>rb_buffer := (rb_buffer rb)[unat (rb_head rb) := x], rb_head := rb_next (rb_size rb) (rb_head rb)\<rparr>"
  by (simp add: ring_buffer_put_def rb_next_def Let_def)

lemma get_next: "ring_buffer_get rb =
    (rb_buffer rb ! unat (rb_tail rb), rb\<lparr>rb_tail := rb_next (rb_size rb) (rb_tail rb)\<rparr>)"
  by (simp add: ring_buffer_get_def rb_next_def Let_def)

lemma full_next: "ring_buffer_full rb \<longleftrightarrow> rb_next (rb_size rb) (rb_head rb) = rb_tail rb"
  by (simp add: ring_buffer_full_def rb_next_def Let_def)

text \<open>Cyclic distances, on natural numbers below the size.\<close>

definition dist :: "nat \<Rightarrow> nat \<Rightarrow> nat \<Rightarrow> nat" where
  "dist n t h = (h + n - t) mod n"

lemma mod_below_twice: "a < 2 * n \<Longrightarrow> a mod n = (if a < n then a else a - n)" for a n :: nat
  by (simp add: mod_if)

lemma dist_less: "t < n \<Longrightarrow> h < n \<Longrightarrow> dist n t h = (if t \<le> h then h - t else h + n - t)"
  by (subst dist_def, subst mod_below_twice) auto

lemma next_nat: "i < n \<Longrightarrow> Suc i mod n = (if Suc i = n then 0 else Suc i)"
  by auto

lemma next_below: "i < n \<Longrightarrow> Suc i mod n < n"
  by auto

lemma dist_head: "t < n \<Longrightarrow> h < n \<Longrightarrow> Suc h mod n \<noteq> t \<Longrightarrow> dist n t (Suc h mod n) = Suc (dist n t h)"
  by (simp add: dist_less next_below) (auto simp: next_nat split: if_splits)

lemma dist_tail: "t < n \<Longrightarrow> h < n \<Longrightarrow> h \<noteq> t \<Longrightarrow> dist n t h = Suc (dist n (Suc t mod n) h)"
  by (simp add: dist_less next_below) (auto simp: next_nat split: if_splits)

lemma dist_full: "t < n \<Longrightarrow> h < n \<Longrightarrow> Suc h mod n = t \<longleftrightarrow> n - 1 - dist n t h = 0"
  by (simp add: dist_less) (auto simp: next_nat split: if_splits)

lemma dist_zero: "t < n \<Longrightarrow> h < n \<Longrightarrow> dist n t h = 0 \<longleftrightarrow> h = t"
  by (auto simp: dist_less split: if_splits)

lemma walk_eq:
  assumes "t < n" "h < n" "i \<le> dist n t h"
  shows "(t + i) mod n = (if t + i < n then t + i else t + i - n)"
  using assms by (intro mod_below_twice) (auto simp: dist_less split: if_splits)

lemma walk_head: "t < n \<Longrightarrow> h < n \<Longrightarrow> (t + dist n t h) mod n = h"
  by (subst walk_eq [of t n h]) (auto simp: dist_less)

lemma walk_not_head: "t < n \<Longrightarrow> h < n \<Longrightarrow> i < dist n t h \<Longrightarrow> (t + i) mod n \<noteq> h"
  by (subst walk_eq [of t n h]) (auto simp: dist_less split: if_splits)

lemma rb_count_dist: "rb_count rb = dist (unat (rb_size rb)) (unat (rb_tail rb)) (unat (rb_head rb))"
  by (simp add: rb_count_def dist_def)

lemma put_content:
  assumes ok: "rb_ok rb" and room: "\<not> ring_buffer_full rb"
  shows "rb_ok (ring_buffer_put rb x)" "rb_content (ring_buffer_put rb x) = rb_content rb @ [x]"
    "rb_count (ring_buffer_put rb x) = rb_count rb + 1"
proof -
  let ?n = "unat (rb_size rb)" and ?h = "unat (rb_head rb)" and ?t = "unat (rb_tail rb)"
  have lt: "?h < ?n" "?t < ?n" "length (rb_buffer rb) = ?n" using ok by (auto simp: rb_ok_def)
  have nx: "unat (rb_next (rb_size rb) (rb_head rb)) = Suc ?h mod ?n" by (rule rb_next_eq) (rule lt)
  have nf: "Suc ?h mod ?n \<noteq> ?t" using room nx by (simp add: full_next word_unat_eq_iff)
  show cnt: "rb_count (ring_buffer_put rb x) = rb_count rb + 1"
    using dist_head [OF lt(2,1) nf] by (simp add: rb_count_dist put_next nx)
  show "rb_ok (ring_buffer_put rb x)" using lt by (auto simp: rb_ok_def put_next nx)
  have old: "(rb_buffer rb)[?h := x] ! ((?t + i) mod ?n) = rb_buffer rb ! ((?t + i) mod ?n)"
    if "i < rb_count rb" for i
    using walk_not_head [OF lt(2,1), of i] that by (intro nth_list_update_neq) (auto simp: rb_count_dist)
  have new: "(rb_buffer rb)[?h := x] ! ((?t + rb_count rb) mod ?n) = x"
    using walk_head [OF lt(2,1)] lt by (simp add: rb_count_dist)
  have "rb_content (ring_buffer_put rb x) =
      map (\<lambda>i. (rb_buffer rb)[?h := x] ! ((?t + i) mod ?n)) [0..<rb_count rb + 1]"
    unfolding rb_content_def cnt by (simp add: put_next)
  also have "\<dots> = rb_content rb @ [x]" using old new by (simp add: rb_content_def)
  finally show "rb_content (ring_buffer_put rb x) = rb_content rb @ [x]" .
qed

lemma get_content:
  assumes ok: "rb_ok rb" and c: "rb_content rb = x # xs"
  shows "fst (ring_buffer_get rb) = x" "rb_ok (snd (ring_buffer_get rb))" "rb_content (snd (ring_buffer_get rb)) = xs"
proof -
  let ?n = "unat (rb_size rb)" and ?h = "unat (rb_head rb)" and ?t = "unat (rb_tail rb)"
  have lt: "?h < ?n" "?t < ?n" "length (rb_buffer rb) = ?n" using ok by (auto simp: rb_ok_def)
  have nx: "unat (rb_next (rb_size rb) (rb_tail rb)) = Suc ?t mod ?n" by (rule rb_next_eq) (rule lt)
  have "rb_count rb \<noteq> 0" using c by (metis rb_content_def list.distinct(1) list.simps(8) upt_0)
  then have "?h \<noteq> ?t" using dist_zero [OF lt(2,1)] by (auto simp: rb_count_dist)
  then have cnt: "rb_count rb = Suc (rb_count (snd (ring_buffer_get rb)))"
    using dist_tail [OF lt(2,1)] by (simp add: rb_count_dist get_next nx)
  have "x # xs = rb_buffer rb ! ?t # map (\<lambda>i. rb_buffer rb ! ((?t + Suc i) mod ?n)) [0..<rb_count (snd (ring_buffer_get rb))]"
    using c lt(2) unfolding rb_content_def cnt by (simp add: map_upt_Suc del: upt_Suc)
  moreover have "rb_content (snd (ring_buffer_get rb)) =
      map (\<lambda>i. rb_buffer rb ! ((?t + Suc i) mod ?n)) [0..<rb_count (snd (ring_buffer_get rb))]"
    by (simp add: rb_content_def get_next nx mod_add_left_eq)
  ultimately show "fst (ring_buffer_get rb) = x" "rb_content (snd (ring_buffer_get rb)) = xs"
    by (simp_all add: get_next)
  show "rb_ok (snd (ring_buffer_get rb))" using lt by (auto simp: rb_ok_def get_next nx)
qed

interpretation ring: bounded_fifo rb_ok rb_content rb_room ring_buffer_put ring_buffer_get
  ring_buffer_full ring_buffer_empty
proof
  fix q :: ring_buffer_t
  assume q: "rb_ok q"
  then have lt: "unat (rb_head q) < unat (rb_size q)" "unat (rb_tail q) < unat (rb_size q)"
    by (auto simp: rb_ok_def)
  show full: "ring_buffer_full q \<longleftrightarrow> rb_room q = 0"
    using dist_full [OF lt(2,1)] rb_next_eq [OF lt(1)]
    by (simp add: rb_room_def rb_count_dist full_next word_unat_eq_iff)
  show "ring_buffer_empty q \<longleftrightarrow> rb_content q = []"
    using dist_zero [OF lt(2,1)]
    by (simp add: ring_buffer_empty_def rb_content_def rb_count_dist word_unat_eq_iff)
  show "rb_ok (ring_buffer_put q x) \<and> rb_content (ring_buffer_put q x) = rb_content q @ [x] \<and>
      Suc (rb_room (ring_buffer_put q x)) = rb_room q" if nf: "\<not> ring_buffer_full q" for x
  proof -
    have "rb_room q \<noteq> 0" using full nf by simp
    moreover have "rb_size (ring_buffer_put q x) = rb_size q" by (simp add: put_next)
    ultimately show ?thesis using put_content [OF q nf, of x] by (auto simp: rb_room_def)
  qed
  show "fst (ring_buffer_get q) = x \<and> rb_ok (snd (ring_buffer_get q)) \<and> rb_content (snd (ring_buffer_get q)) = xs"
    if "rb_content q = x # xs" for x xs using get_content [OF q that] by blast
qed

section \<open>Properties\<close>

text \<open>Taking out bytes while there are some, at most \<open>n\<close>.\<close>

fun drain :: "nat \<Rightarrow> ring_buffer_t \<Rightarrow> u8 list" where
  "drain 0 rb = []"
| "drain (Suc n) rb =
     (if ring_buffer_empty rb then []
      else let (data, rb) = ring_buffer_get rb in data # drain n rb)"

lemma drain_get_all: "drain n rb = ring.get_all n rb"
  by (induction n arbitrary: rb) (auto simp: case_prod_unfold Let_def)

text \<open>C12: The ring buffer is a bounded queue: bytes that fit come out complete and in order, behind
  those that were there; it holds one byte less than its size.\<close>

theorem ring_buffer_fifo:
  assumes "rb_ok rb" "length (rb_content rb) + length xs < unat (rb_size rb)"
  shows "drain (unat (rb_size rb)) (foldl ring_buffer_put rb xs) = rb_content rb @ xs"
proof -
  have "length xs \<le> rb_room rb" using assms(2) by (auto simp: rb_room_def rb_content_def)
  with assms(1) have "rb_ok (foldl ring_buffer_put rb xs)"
    "rb_content (foldl ring_buffer_put rb xs) = rb_content rb @ xs" using ring.put_list by blast+
  then show ?thesis using ring.get_all_content assms(2) by (simp add: drain_get_all)
qed

theorem ring_buffer_fifo_witness:
  "drain 4 (foldl ring_buffer_put \<lparr>rb_buffer = [0, 0, 0, 0], rb_size = 4, rb_head = 3, rb_tail = 3\<rparr> [7, 8, 9]) = [7, 8, 9]"
proof -
  let ?rb = "\<lparr>rb_buffer = [0, 0, 0, 0], rb_size = 4, rb_head = 3, rb_tail = 3\<rparr> :: ring_buffer_t"
  have "rb_ok ?rb" "rb_content ?rb = []" by (simp_all add: rb_ok_def rb_content_def rb_count_def)
  with ring_buffer_fifo [of ?rb "[7, 8, 9]"] show ?thesis by simp
qed

text \<open>A put into a full buffer is not refused: it makes the buffer look empty, so that everything
  that was stored is lost. Callers have to test for a full buffer first.\<close>

theorem ring_buffer_put_full:
  assumes "rb_ok rb" "ring_buffer_full rb"
  shows "ring_buffer_empty (ring_buffer_put rb x) \<and> rb_content (ring_buffer_put rb x) = [] \<and>
     length (rb_content rb) = unat (rb_size rb) - 1"
proof -
  have "rb_head (ring_buffer_put rb x) = rb_tail (ring_buffer_put rb x)"
    using assms(2) by (simp add: full_next put_next)
  moreover have "rb_room rb = 0" using assms ring.full_iff by simp
  moreover have "rb_count rb < unat (rb_size rb)" using assms(1) by (auto simp: rb_count_def rb_ok_def)
  ultimately show ?thesis
    by (auto simp: ring_buffer_empty_def rb_content_def rb_count_def rb_room_def)
qed

theorem ring_buffer_put_full_witness:
  "ring_buffer_empty (ring_buffer_put \<lparr>rb_buffer = [1, 2], rb_size = 2, rb_head = 1, rb_tail = 0\<rparr> 3)"
  using ring_buffer_put_full [of "\<lparr>rb_buffer = [1, 2], rb_size = 2, rb_head = 1, rb_tail = 0\<rparr>" 3]
  by (simp add: rb_ok_def ring_buffer_full_def)

end
