(* ===== verification/Heap.thy ===== *)
theory Heap
  imports Prelude
begin

unbundle bit_operations_syntax

text \<open>
  The kernel heap (\<^verbatim>\<open>source/kernel/heap.c\<close>): a first-fit allocator over a doubly linked list of block
  headers that lie end to end in memory. The headers are kept in a store by address; the bytes of the
  blocks are not part of the state. \<open>blocks_from\<close> describes a heap whose blocks tile the memory from
  the head to its end; \<open>back_links\<close> says that the \<open>prev\<close> pointers agree with the list. Allocation
  keeps the tiling but not the back links, which is what \<open>kfree\<close> relies on.
\<close>

section \<open>Operations\<close>

record heap_block_t =
  hb_size :: u32
  hb_next :: ptr
  hb_prev :: ptr
  hb_free :: u8

record heap =
  heap_head :: ptr
  heap_blocks :: "ptr \<Rightarrow> heap_block_t"

text \<open>\<open>sizeof(heap_block_t)\<close> on the 32-bit target: three words and a byte, padded to four words.\<close>

definition header_size :: u32 where
  "header_size = 16"

definition HEAP_ALIGMENT :: u32 where
  "HEAP_ALIGMENT = 8"

definition align :: "u32 \<Rightarrow> u32" where
  "align n = (n + HEAP_ALIGMENT - 1) AND NOT (HEAP_ALIGMENT - 1)"

definition upd_block :: "ptr \<Rightarrow> (heap_block_t \<Rightarrow> heap_block_t) \<Rightarrow> heap \<Rightarrow> heap" where
  "upd_block p f h = h\<lparr>heap_blocks := (heap_blocks h)(p := f (heap_blocks h p))\<rparr>"

definition heap_init :: "ptr \<Rightarrow> u32 \<Rightarrow> heap \<Rightarrow> heap" where
  "heap_init heap_start heap_sz h =
     upd_block heap_start (\<lambda>b. b\<lparr>hb_size := heap_sz - header_size, hb_next := 0, hb_prev := 0, hb_free := 1\<rparr>)
       (h\<lparr>heap_head := heap_start\<rparr>)"

definition split_block :: "ptr \<Rightarrow> u32 \<Rightarrow> heap \<Rightarrow> heap" where
  "split_block tmp n h =
     (let new_block = tmp + header_size + n;
          h = upd_block new_block (\<lambda>b. b\<lparr>hb_size := hb_size (heap_blocks h tmp) - n - header_size\<rparr>) h;
          h = upd_block new_block (\<lambda>b. b\<lparr>hb_next := hb_next (heap_blocks h tmp)\<rparr>) h;
          h = upd_block new_block (\<lambda>b. b\<lparr>hb_free := 1\<rparr>) h;
          h = upd_block tmp (\<lambda>b. b\<lparr>hb_size := n\<rparr>) h;
          h = upd_block tmp (\<lambda>b. b\<lparr>hb_next := new_block\<rparr>) h
      in upd_block new_block (\<lambda>b. b\<lparr>hb_prev := tmp\<rparr>) h)"

partial_function (option) kmalloc_loop :: "u32 \<Rightarrow> heap \<Rightarrow> ptr \<Rightarrow> (ptr \<times> heap) option" where
  "kmalloc_loop n h tmp =
     (if tmp = 0 then Some (0, h)
      else if hb_free (heap_blocks h tmp) \<noteq> 0 \<and> hb_size (heap_blocks h tmp) \<ge> n
      then let h = (if hb_size (heap_blocks h tmp) \<ge> n + header_size + HEAP_ALIGMENT
                    then split_block tmp n h else h)
           in Some (tmp + header_size, upd_block tmp (\<lambda>b. b\<lparr>hb_free := 0\<rparr>) h)
      else kmalloc_loop n h (hb_next (heap_blocks h tmp)))"

definition kmalloc :: "u32 \<Rightarrow> heap \<Rightarrow> (ptr \<times> heap) option" where
  "kmalloc n h = (if n = 0 then Some (0, h) else kmalloc_loop (align n) h (heap_head h))"

definition kcalloc :: "u32 \<Rightarrow> u32 \<Rightarrow> heap \<Rightarrow> (ptr \<times> heap) option" where
  "kcalloc count n h =
     (if count \<noteq> 0 \<and> n > 0xFFFFFFFF div count then Some (0, h) else kmalloc (count * n) h)"

text \<open>The two halves of \<open>kfree\<close>: merging with the block behind and with the block in front.\<close>

definition merge_next :: "ptr \<Rightarrow> heap \<Rightarrow> heap" where
  "merge_next block h =
     (let nx = hb_next (heap_blocks h block) in
      if nx \<noteq> 0 \<and> hb_free (heap_blocks h nx) \<noteq> 0
      then let h = upd_block block (\<lambda>b. b\<lparr>hb_size := hb_size b + (header_size + hb_size (heap_blocks h nx))\<rparr>) h;
               h = upd_block block (\<lambda>b. b\<lparr>hb_next := hb_next (heap_blocks h nx)\<rparr>) h
           in if hb_next (heap_blocks h block) \<noteq> 0
              then upd_block (hb_next (heap_blocks h block)) (\<lambda>b. b\<lparr>hb_prev := block\<rparr>) h else h
      else h)"

definition merge_prev :: "ptr \<Rightarrow> heap \<Rightarrow> heap" where
  "merge_prev block h =
     (let pv = hb_prev (heap_blocks h block) in
      if pv \<noteq> 0 \<and> hb_free (heap_blocks h pv) \<noteq> 0
      then let h = upd_block pv (\<lambda>b. b\<lparr>hb_size := hb_size b + (header_size + hb_size (heap_blocks h block))\<rparr>) h;
               h = upd_block pv (\<lambda>b. b\<lparr>hb_next := hb_next (heap_blocks h block)\<rparr>) h
           in if hb_next (heap_blocks h pv) \<noteq> 0
              then upd_block (hb_next (heap_blocks h pv)) (\<lambda>b. b\<lparr>hb_prev := pv\<rparr>) h else h
      else h)"

definition kfree :: "ptr \<Rightarrow> heap \<Rightarrow> heap" where
  "kfree p h =
     (if p = 0 then h
      else
        let block = p - header_size;
            h = upd_block block (\<lambda>b. b\<lparr>hb_free := 1\<rparr>) h;
            h = merge_next block h
        in merge_prev block h)"

partial_function (option) free_size_loop :: "heap \<Rightarrow> u32 \<Rightarrow> ptr \<Rightarrow> u32 option" where
  "free_size_loop h n tmp =
     (if tmp = 0 then Some n
      else free_size_loop h (if hb_free (heap_blocks h tmp) \<noteq> 0 then n + hb_size (heap_blocks h tmp) else n)
             (hb_next (heap_blocks h tmp)))"

definition heap_free_size :: "heap \<Rightarrow> u32 option" where
  "heap_free_size h = free_size_loop h 0 (heap_head h)"

declare kmalloc_loop.simps [code] free_size_loop.simps [code]

section \<open>The heap as a tiling\<close>

type_synonym bstore = "ptr \<Rightarrow> heap_block_t"

text \<open>Where the block at \<open>b\<close> ends, as a number: header and payload do not wrap around.\<close>

definition block_end :: "bstore \<Rightarrow> ptr \<Rightarrow> nat" where
  "block_end st b = unat b + 16 + unat (hb_size (st b))"

definition head_or_0 :: "ptr list \<Rightarrow> ptr" where
  "head_or_0 bs = (case bs of [] \<Rightarrow> 0 | b # _ \<Rightarrow> b)"

fun blocks_from :: "bstore \<Rightarrow> nat \<Rightarrow> ptr list \<Rightarrow> nat \<Rightarrow> bool" where
  "blocks_from st a [] e \<longleftrightarrow> a = e"
| "blocks_from st a (b # bs) e \<longleftrightarrow> unat b = a \<and> b \<noteq> 0 \<and> 8 dvd a \<and> 8 dvd unat (hb_size (st b)) \<and>
     hb_next (st b) = head_or_0 bs \<and> blocks_from st (block_end st b) bs e"

definition heap_ok :: "heap \<Rightarrow> ptr list \<Rightarrow> nat \<Rightarrow> bool" where
  "heap_ok h bs e \<longleftrightarrow> bs \<noteq> [] \<and> e < 2 ^ 32 \<and>
     heap_head h = head_or_0 bs \<and> blocks_from (heap_blocks h) (unat (heap_head h)) bs e"

fun back_links :: "bstore \<Rightarrow> ptr \<Rightarrow> ptr list \<Rightarrow> bool" where
  "back_links st p [] \<longleftrightarrow> True"
| "back_links st p (b # bs) \<longleftrightarrow> hb_prev (st b) = p \<and> back_links st b bs"

lemma head_or_0_simps [simp]: "head_or_0 [] = 0" "head_or_0 (b # bs) = b"
  by (simp_all add: head_or_0_def)

lemma head_or_0_append [simp]: "head_or_0 (us @ b # vs) = (if us = [] then b else hd us)"
  by (cases us) auto

lemma blocks_from_le: "blocks_from st a bs e \<Longrightarrow> a \<le> e"
proof (induction bs arbitrary: a)
  case (Cons b bs)
  then have "block_end st b \<le> e" by auto
  with Cons.prems show ?case by (auto simp: block_end_def)
qed simp

text \<open>Every block lies behind the start and before the end; later blocks lie behind earlier ones.\<close>

lemma blocks_from_bounds: "blocks_from st a bs e \<Longrightarrow> b \<in> set bs \<Longrightarrow> a \<le> unat b \<and> block_end st b \<le> e"
proof (induction bs arbitrary: a)
  case (Cons c bs)
  show ?case
  proof (cases "b = c")
    case True
    with Cons.prems show ?thesis using blocks_from_le by auto
  next
    case False
    with Cons have "block_end st c \<le> unat b \<and> block_end st b \<le> e" by auto
    with Cons.prems show ?thesis by (auto simp: block_end_def)
  qed
qed simp

lemma blocks_from_later: "blocks_from st a (b # bs) e \<Longrightarrow> c \<in> set bs \<Longrightarrow> block_end st b \<le> unat c"
  using blocks_from_bounds [of st "block_end st b" bs e c] by auto

lemma blocks_from_distinct: "blocks_from st a bs e \<Longrightarrow> distinct bs"
proof (induction bs arbitrary: a)
  case (Cons b bs)
  then show ?case using blocks_from_later [OF Cons.prems, of b] by (auto simp: block_end_def)
qed simp

lemma blocks_from_nonnull: "blocks_from st a bs e \<Longrightarrow> 0 \<notin> set bs"
  by (induction bs arbitrary: a) auto

lemma blocks_from_cong:
  "(\<And>b. b \<in> set bs \<Longrightarrow> hb_size (st' b) = hb_size (st b) \<and> hb_next (st' b) = hb_next (st b)) \<Longrightarrow>
   blocks_from st' a bs e = blocks_from st a bs e"
proof (induction bs arbitrary: a)
  case (Cons b bs)
  then have "block_end st' b = block_end st b" by (simp add: block_end_def)
  with Cons show ?case by auto
qed simp

lemma back_links_cong:
  "(\<And>b. b \<in> set bs \<Longrightarrow> hb_prev (st' b) = hb_prev (st b)) \<Longrightarrow> back_links st' p bs = back_links st p bs"
  by (induction bs arbitrary: p) auto

lemma back_links_append: "back_links st p (us @ ws) \<longleftrightarrow> back_links st p us \<and> back_links st (last (p # us)) ws"
  by (induction us arbitrary: p) auto

text \<open>A new block \<open>x\<close> behind \<open>b\<close>: the block that followed \<open>b\<close> still names \<open>b\<close> as the one in front of it.\<close>

lemma back_links_split:
  assumes "back_links st 0 (us @ b # vs)" "\<And>c. c \<in> set (us @ b # vs) \<Longrightarrow> hb_prev (st' c) = hb_prev (st c)"
    "hb_prev (st' x) = b" "x \<noteq> b"
  shows "back_links st' 0 (us @ b # x # vs) \<longleftrightarrow> vs = []"
proof -
  have "back_links st' 0 us" using assms(1,2) back_links_cong [of us st' st 0] by (simp add: back_links_append)
  moreover have "hb_prev (st' b) = last (0 # us)" using assms(1,2) by (simp add: back_links_append)
  moreover have "hb_prev (st' v) = b" if "vs = v # vs'" for v vs' using assms(1,2) that by (simp add: back_links_append)
  ultimately show ?thesis using assms(3,4) by (cases vs) (auto simp: back_links_append)
qed

text \<open>Two blocks of a heap do not overlap, headers included.\<close>

lemma blocks_disjoint:
  "blocks_from st a bs e \<Longrightarrow> b \<in> set bs \<Longrightarrow> c \<in> set bs \<Longrightarrow> b \<noteq> c \<Longrightarrow>
   block_end st b \<le> unat c \<or> block_end st c \<le> unat b"
proof (induction bs arbitrary: a)
  case (Cons x bs)
  then show ?case using blocks_from_later [OF Cons.prems(1)] by auto
qed simp

section \<open>Allocation\<close>

definition fits :: "bstore \<Rightarrow> u32 \<Rightarrow> ptr \<Rightarrow> bool" where
  "fits st n b \<longleftrightarrow> hb_free (st b) \<noteq> 0 \<and> n \<le> hb_size (st b)"

text \<open>What the loop does at the first block that fits.\<close>

definition take_block :: "u32 \<Rightarrow> heap \<Rightarrow> ptr \<Rightarrow> heap" where
  "take_block n h b =
     upd_block b (\<lambda>x. x\<lparr>hb_free := 0\<rparr>)
       (if hb_size (heap_blocks h b) \<ge> n + header_size + HEAP_ALIGMENT then split_block b n h else h)"

lemma kmalloc_loop_none:
  "blocks_from (heap_blocks h) a bs e \<Longrightarrow> \<forall>b\<in>set bs. \<not> fits (heap_blocks h) n b \<Longrightarrow>
   kmalloc_loop n h (head_or_0 bs) = Some (0, h)"
proof (induction bs arbitrary: a)
  case Nil
  then show ?case by (simp add: kmalloc_loop.simps [of n h 0])
next
  case (Cons b bs)
  then show ?case by (auto simp: kmalloc_loop.simps [of n h b] fits_def)
qed

lemma kmalloc_loop_first:
  "blocks_from (heap_blocks h) a (us @ b # vs) e \<Longrightarrow> \<forall>u\<in>set us. \<not> fits (heap_blocks h) n u \<Longrightarrow>
   fits (heap_blocks h) n b \<Longrightarrow>
   kmalloc_loop n h (head_or_0 (us @ b # vs)) = Some (b + header_size, take_block n h b)"
proof (induction us arbitrary: a)
  case Nil
  then show ?case by (simp add: kmalloc_loop.simps [of n h b] fits_def take_block_def Let_def)
next
  case (Cons u us)
  then show ?case by (auto simp: kmalloc_loop.simps [of n h u] fits_def)
qed

text \<open>Replacing the rest of a heap from some block on.\<close>

lemma blocks_from_replace:
  assumes "blocks_from st a (us @ ws) e"
    and "\<And>m. blocks_from st m ws e \<Longrightarrow> blocks_from st' m ws' e"
    and "head_or_0 ws' = head_or_0 ws"
    and "\<And>u. u \<in> set us \<Longrightarrow> hb_size (st' u) = hb_size (st u) \<and> hb_next (st' u) = hb_next (st u)"
  shows "blocks_from st' a (us @ ws') e"
  using assms(1,4)
proof (induction us arbitrary: a)
  case Nil
  then show ?case using assms(2) by simp
next
  case (Cons u us)
  then have "block_end st' u = block_end st u" by (simp add: block_end_def)
  moreover have "head_or_0 (us @ ws') = head_or_0 (us @ ws)" using assms(3) by (cases us) auto
  ultimately show ?case using Cons by auto
qed

lemma back_links_replace:
  assumes "back_links st p (us @ ws)" "\<And>q. back_links st q ws \<Longrightarrow> back_links st' q ws'"
    "\<And>u. u \<in> set us \<Longrightarrow> hb_prev (st' u) = hb_prev (st u)"
  shows "back_links st' p (us @ ws')"
  using assms(1,3) by (induction us arbitrary: p) (use assms(2) in auto)

lemma split_blocks:
  assumes "b + header_size + n \<noteq> b"
  shows "heap_blocks (split_block b n h) = (heap_blocks h)
     (b := (heap_blocks h b)\<lparr>hb_size := n, hb_next := b + header_size + n\<rparr>,
      b + header_size + n := \<lparr>hb_size = hb_size (heap_blocks h b) - n - header_size,
        hb_next = hb_next (heap_blocks h b), hb_prev = b, hb_free = 1\<rparr>)"
    "heap_head (split_block b n h) = heap_head h"
  using assms by (auto simp: split_block_def upd_block_def Let_def fun_eq_iff)

lemma block_room:
  assumes "blocks_from st a bs e" "e < 2 ^ 32" "b \<in> set bs" "n \<le> hb_size (st b)"
  shows "unat n + 24 < 2 ^ 32" "unat (n + header_size + HEAP_ALIGMENT) = unat n + 24"
    "8 \<le> unat b" "8 dvd unat b" "8 dvd unat (hb_size (st b))" "block_end st b < 2 ^ 32"
proof -
  have al: "8 dvd unat b \<and> b \<noteq> 0 \<and> 8 dvd unat (hb_size (st b))"
    using assms(1,3) by (induction bs arbitrary: a) auto
  then show "8 dvd unat b" "8 dvd unat (hb_size (st b))" by auto
  have "unat b \<noteq> 0" using al by (simp add: unat_eq_zero)
  with al show b8: "8 \<le> unat b" by (auto intro: dvd_imp_le)
  show end_b: "block_end st b < 2 ^ 32" using blocks_from_bounds [OF assms(1,3)] assms(2) by simp
  have "unat n \<le> unat (hb_size (st b))" using assms(4) by (simp add: word_le_nat_alt)
  with b8 end_b show lt: "unat n + 24 < 2 ^ 32" by (simp add: block_end_def)
  from lt show "unat (n + header_size + HEAP_ALIGMENT) = unat n + 24"
    by (simp add: header_size_def HEAP_ALIGMENT_def unat_word_ariths)
qed

lemma take_block_ok:
  assumes ch: "blocks_from (heap_blocks h) a (us @ b # vs) e" and e: "e < 2 ^ 32"
    and fit: "fits (heap_blocks h) n b" and al: "8 dvd unat n"
  shows "\<exists>ns. blocks_from (heap_blocks (take_block n h b)) a (us @ b # ns @ vs) e \<and>
     set ns \<inter> set (us @ b # vs) = {} \<and>
     (\<forall>c. c \<notin> insert b (set ns) \<longrightarrow> heap_blocks (take_block n h b) c = heap_blocks h c) \<and>
     heap_head (take_block n h b) = heap_head h \<and>
     hb_free (heap_blocks (take_block n h b) b) = 0 \<and> n \<le> hb_size (heap_blocks (take_block n h b) b) \<and>
     (\<forall>c\<in>set ns. hb_free (heap_blocks (take_block n h b) c) \<noteq> 0) \<and>
     ns = (if unat n + 24 \<le> unat (hb_size (heap_blocks h b)) then [b + header_size + n] else []) \<and>
     (back_links (heap_blocks h) 0 (us @ b # vs) \<longrightarrow>
        (back_links (heap_blocks (take_block n h b)) 0 (us @ b # ns @ vs) \<longleftrightarrow> ns = [] \<or> vs = []))"
proof -
  let ?st = "heap_blocks h"
  have nb: "n \<le> hb_size (?st b)" using fit by (simp add: fits_def)
  note room = block_room [OF ch e _ nb]
  show ?thesis
  proof (cases "n + header_size + HEAP_ALIGMENT \<le> hb_size (?st b)")
    case False
    let ?st' = "?st(b := (?st b)\<lparr>hb_free := 0\<rparr>)"
    have "heap_blocks (take_block n h b) = ?st'" "heap_head (take_block n h b) = heap_head h"
      using False by (simp_all add: take_block_def upd_block_def)
    moreover have "blocks_from ?st' a (us @ b # vs) e"
      using ch by (subst blocks_from_cong [of _ _ ?st]) auto
    moreover have "back_links ?st' 0 (us @ b # vs) = back_links ?st 0 (us @ b # vs)"
      by (rule back_links_cong) auto
    moreover have "\<not> unat n + 24 \<le> unat (hb_size (?st b))" using False room by (simp add: word_le_nat_alt)
    ultimately show ?thesis using nb by (intro exI [of _ "[]"]) auto
  next
    case True
    let ?nb = "b + header_size + n"
    have big: "unat n + 24 \<le> unat (hb_size (?st b))" using True room by (simp add: word_le_nat_alt)
    have "unat b + (16 + unat n) < 2 ^ 32" using room(6) big by (simp add: block_end_def)
    then have un: "unat ?nb = unat b + 16 + unat n"
      by (simp add: header_size_def unat_word_ariths)
    have ne: "?nb \<noteq> b"
    proof
      assume eq: "?nb = b"
      from un show False unfolding eq by simp
    qed
    have out: "?nb \<notin> set (us @ b # vs)"
    proof
      assume "?nb \<in> set (us @ b # vs)"
      with blocks_disjoint [OF ch, of b ?nb] ne un big show False by (auto simp: block_end_def)
    qed
    let ?sz = "hb_size (?st b) - n - header_size"
    have sz: "unat ?sz = unat (hb_size (?st b)) - unat n - 16"
      using big by (simp add: header_size_def unat_sub word_le_nat_alt)
    let ?st' = "?st(b := (?st b)\<lparr>hb_size := n, hb_next := ?nb, hb_free := 0\<rparr>,
        ?nb := \<lparr>hb_size = ?sz, hb_next = hb_next (?st b), hb_prev = b, hb_free = 1\<rparr>)"
    have st': "heap_blocks (take_block n h b) = ?st'" "heap_head (take_block n h b) = heap_head h"
      using True ne by (auto simp: take_block_def upd_block_def split_blocks fun_eq_iff)
    have "blocks_from ?st' a (us @ (b # [?nb] @ vs)) e"
    proof (rule blocks_from_replace [OF ch])
      fix m
      assume bv: "blocks_from ?st m (b # vs) e"
      have vs: "blocks_from ?st' k vs e = blocks_from ?st k vs e" for k
        using out blocks_from_distinct [OF ch] by (intro blocks_from_cong) auto
      have "block_end ?st' b = unat ?nb" "block_end ?st' ?nb = block_end ?st b"
        using un sz big ne by (simp_all add: block_end_def)
      moreover have "8 dvd unat ?nb" "8 dvd unat ?sz" unfolding un sz
        using room(4,5) al by (auto intro!: dvd_add dvd_diff_nat)
      moreover have "?nb \<noteq> 0" using un by auto
      moreover have "blocks_from ?st' (block_end ?st b) vs e" unfolding vs using bv by simp
      ultimately show "blocks_from ?st' m (b # [?nb] @ vs) e"
        using bv ne al by simp
    next
      fix u
      assume "u \<in> set us"
      with out blocks_from_distinct [OF ch]
      show "hb_size (?st' u) = hb_size (?st u) \<and> hb_next (?st' u) = hb_next (?st u)" by auto
    qed simp
    moreover have "back_links ?st' 0 (us @ b # ?nb # vs) \<longleftrightarrow> vs = []" if "back_links ?st 0 (us @ b # vs)"
      by (rule back_links_split [OF that _ _ ne]) (use out ne in auto)
    ultimately show ?thesis using st' out ne big by (intro exI [of _ "[?nb]"]) auto
  qed
qed

section \<open>Freeing\<close>

text \<open>A block takes over the one behind it, as \<open>kfree\<close> does up to twice.\<close>

definition absorb :: "ptr \<Rightarrow> ptr \<Rightarrow> heap \<Rightarrow> heap" where
  "absorb c n h =
     (let h = upd_block c (\<lambda>b. b\<lparr>hb_size := hb_size b + (header_size + hb_size (heap_blocks h n))\<rparr>) h;
          h = upd_block c (\<lambda>b. b\<lparr>hb_next := hb_next (heap_blocks h n)\<rparr>) h
      in if hb_next (heap_blocks h c) \<noteq> 0
         then upd_block (hb_next (heap_blocks h c)) (\<lambda>b. b\<lparr>hb_prev := c\<rparr>) h else h)"

lemma kfree_absorb:
  assumes "p \<noteq> 0" "b = p - header_size" "h1 = upd_block b (\<lambda>x. x\<lparr>hb_free := 1\<rparr>) h"
    "nx = hb_next (heap_blocks h1 b)"
    "h2 = (if nx \<noteq> 0 \<and> hb_free (heap_blocks h1 nx) \<noteq> 0 then absorb b nx h1 else h1)"
    "pv = hb_prev (heap_blocks h2 b)"
  shows "kfree p h = (if pv \<noteq> 0 \<and> hb_free (heap_blocks h2 pv) \<noteq> 0 then absorb pv b h2 else h2)"
  using assms(1) unfolding assms(2-6) kfree_def merge_next_def merge_prev_def absorb_def Let_def by simp

lemma absorb_blocks:
  assumes "c \<noteq> n" "hb_next (heap_blocks h n) \<notin> {c, n}"
  shows "hb_size (heap_blocks (absorb c n h) x) =
       (if x = c then hb_size (heap_blocks h c) + (header_size + hb_size (heap_blocks h n)) else hb_size (heap_blocks h x))"
    "hb_next (heap_blocks (absorb c n h) x) = (if x = c then hb_next (heap_blocks h n) else hb_next (heap_blocks h x))"
    "hb_prev (heap_blocks (absorb c n h) x) =
       (if x = hb_next (heap_blocks h n) \<and> x \<noteq> 0 then c else hb_prev (heap_blocks h x))"
    "hb_free (heap_blocks (absorb c n h) x) = hb_free (heap_blocks h x)"
    "heap_head (absorb c n h) = heap_head h"
  using assms by (auto simp: absorb_def upd_block_def Let_def)

lemma absorb_ok:
  assumes ch: "blocks_from (heap_blocks h) a (us @ c # n # vs) e" and e: "e < 2 ^ 32"
    and bl: "back_links (heap_blocks h) 0 (us @ c # n # vs)"
  shows "blocks_from (heap_blocks (absorb c n h)) a (us @ c # vs) e"
    "back_links (heap_blocks (absorb c n h)) 0 (us @ c # vs)"
    "block_end (heap_blocks (absorb c n h)) c = block_end (heap_blocks h) n"
    "\<And>x. x \<noteq> c \<Longrightarrow> hb_size (heap_blocks (absorb c n h) x) = hb_size (heap_blocks h x)"
    "\<And>x. hb_free (heap_blocks (absorb c n h) x) = hb_free (heap_blocks h x)"
    "heap_head (absorb c n h) = heap_head h"
proof -
  let ?st = "heap_blocks h" and ?st' = "heap_blocks (absorb c n h)"
  have d: "distinct (us @ c # n # vs)" "0 \<notin> set (us @ c # n # vs)"
    using blocks_from_distinct [OF ch] blocks_from_nonnull [OF ch] by auto
  have cn: "\<exists>m. blocks_from ?st m (c # n # vs) e" using ch by (induction us arbitrary: a) auto
  then have nx: "hb_next (?st n) = head_or_0 vs" and join: "unat n = block_end ?st c"
    and al: "8 dvd unat (hb_size (?st c))" "8 dvd unat (hb_size (?st n))" by auto
  have far: "hb_next (?st n) \<notin> {c, n}" using d nx by (cases vs) auto
  have "c \<noteq> n" using d by auto
  note ab = absorb_blocks [OF this far]
  have "block_end ?st n < 2 ^ 32" using blocks_from_bounds [OF ch, of n] e by auto
  then have "unat (hb_size (?st c)) + (16 + unat (hb_size (?st n))) < 2 ^ 32"
    using join by (simp add: block_end_def)
  then have sz: "unat (hb_size (?st c) + (header_size + hb_size (?st n))) =
      unat (hb_size (?st c)) + (16 + unat (hb_size (?st n)))"
    by (simp add: header_size_def unat_word_ariths)
  show endc: "block_end ?st' c = block_end ?st n"
    using join by (simp add: block_end_def ab sz)
  show "\<And>x. x \<noteq> c \<Longrightarrow> hb_size (?st' x) = hb_size (?st x)" "\<And>x. hb_free (?st' x) = hb_free (?st x)"
    "heap_head (absorb c n h) = heap_head h" by (simp_all add: ab)
  show "blocks_from ?st' a (us @ c # vs) e"
  proof (rule blocks_from_replace [OF ch])
    fix m
    assume *: "blocks_from ?st m (c # n # vs) e"
    have "blocks_from ?st' k vs e = blocks_from ?st k vs e" for k
      using d by (intro blocks_from_cong) (auto simp: ab)
    moreover have "8 dvd unat (hb_size (?st' c))" using al by (simp add: ab sz)
    ultimately show "blocks_from ?st' m (c # vs) e" using * endc nx by (simp add: ab)
  qed (use d in \<open>auto simp: ab\<close>)
  have pv: "hb_prev (?st' x) = hb_prev (?st x)" if "x \<in> set (us @ [c])" for x
    using that d nx by (cases vs) (auto simp: ab)
  show "back_links ?st' 0 (us @ c # vs)"
  proof (rule back_links_replace [OF bl])
    fix q
    assume "back_links ?st q (c # n # vs)"
    moreover have "hb_prev (?st' x) = hb_prev (?st x)" if "x \<in> set (tl vs)" for x
      using that d nx by (cases vs) (auto simp: ab)
    then have "back_links ?st' k (tl vs) = back_links ?st k (tl vs)" for k by (rule back_links_cong)
    ultimately show "back_links ?st' q (c # vs)" using pv [of c] d nx by (cases vs) (auto simp: ab)
  qed (use pv in auto)
qed

lemma back_links_prev: "back_links st p (us @ b # vs) \<Longrightarrow> hb_prev (st b) = last (p # us)"
  by (induction us arbitrary: p) auto

lemma blocks_from_adjacent: "blocks_from st a (us @ b # c # vs) e \<Longrightarrow> unat c = block_end st b"
  by (induction us arbitrary: a) auto

lemma blocks_from_next: "blocks_from st a (us @ b # vs) e \<Longrightarrow> hb_next (st b) = head_or_0 vs"
  by (induction us arbitrary: a) auto

text \<open>
  The heap as a client sees it, a list of regions: address, size of the payload, and whether it is
  free. On that level giving back is joining a region with a free region behind it, and then with a
  free region in front of it.
\<close>

type_synonym region_t = "ptr \<times> nat \<times> bool"

definition heap_region :: "bstore \<Rightarrow> ptr \<Rightarrow> region_t" where
  "heap_region st b = (b, unat (hb_size (st b)), hb_free (st b) \<noteq> 0)"

definition heap_regions :: "bstore \<Rightarrow> ptr list \<Rightarrow> region_t list" where
  "heap_regions st bs = map (heap_region st) bs"

abbreviation region_free :: "region_t \<Rightarrow> bool" where
  "region_free r \<equiv> snd (snd r)"

fun merge_right :: "region_t \<Rightarrow> region_t list \<Rightarrow> region_t list" where
  "merge_right (b, s, f) ((c, t, True) # rs) = (b, s + 16 + t, f) # rs"
| "merge_right r rs = r # rs"

definition give_back :: "region_t list \<Rightarrow> ptr \<Rightarrow> nat \<Rightarrow> region_t list \<Rightarrow> region_t list" where
  "give_back us b s vs =
     (let rs = merge_right (b, s, True) vs in
      if us \<noteq> [] \<and> region_free (last us) then butlast us @ merge_right (last us) rs else us @ rs)"

text \<open>No two neighbours are both free: there is nothing left to merge.\<close>

definition fully_merged :: "region_t list \<Rightarrow> bool" where
  "fully_merged rs = successively (\<lambda>r q. \<not> (region_free r \<and> region_free q)) rs"

lemma merge_right_merged:
  assumes "fully_merged ((b, s, f) # vs)"
  shows "fully_merged (merge_right (b, s, True) vs)" "\<exists>t rs. merge_right (b, s, True) vs = (b, t, True) # rs"
proof -
  show "fully_merged (merge_right (b, s, True) vs)"
    using assms by (cases "((b, s, True), vs)" rule: merge_right.cases)
      (auto simp: fully_merged_def successively_Cons)
  show "\<exists>t rs. merge_right (b, s, True) vs = (b, t, True) # rs"
    by (cases "((b, s, True), vs)" rule: merge_right.cases) auto
qed

lemma give_back_merged:
  assumes "fully_merged (us @ (b, s, f) # vs)"
  shows "fully_merged (give_back us b s vs)"
proof -
  have "fully_merged us" "fully_merged ((b, s, f) # vs)"
    using assms by (auto simp: fully_merged_def successively_append_iff)
  from merge_right_merged [OF this(2)] obtain t rs where
    m: "merge_right (b, s, True) vs = (b, t, True) # rs" "fully_merged ((b, t, True) # rs)" by auto
  show ?thesis
  proof (cases us rule: rev_cases)
    case (snoc us' p)
    obtain c u g where p: "p = (c, u, g)" by (cases p) auto
    show ?thesis
      using \<open>fully_merged us\<close> m(2)
      by (cases g) (auto simp: give_back_def m(1) snoc p fully_merged_def successively_append_iff successively_Cons)
  qed (use m in \<open>simp add: give_back_def\<close>)
qed

lemma heap_regions_cong:
  "(\<And>x. x \<in> set bs \<Longrightarrow> hb_size (st' x) = hb_size (st x) \<and> hb_free (st' x) = hb_free (st x)) \<Longrightarrow>
   heap_regions st' bs = heap_regions st bs"
  by (simp add: heap_regions_def heap_region_def)

lemma merge_right_none:
  "vs = [] \<or> hb_free (st (hd vs)) = 0 \<Longrightarrow> merge_right r (heap_regions st vs) = r # heap_regions st vs"
  by (cases vs; cases r) (auto simp: heap_regions_def heap_region_def)

lemma absorb_regions:
  assumes ch: "blocks_from (heap_blocks h) a (us @ c # n # vs) e" and e: "e < 2 ^ 32"
    and bl: "back_links (heap_blocks h) 0 (us @ c # n # vs)" and fr: "hb_free (heap_blocks h n) \<noteq> 0"
  shows "heap_regions (heap_blocks (absorb c n h)) (c # vs) =
       merge_right (heap_region (heap_blocks h) c) (heap_regions (heap_blocks h) (n # vs))"
    "heap_regions (heap_blocks (absorb c n h)) us = heap_regions (heap_blocks h) us"
proof -
  note ab = absorb_ok [OF ch e bl] and d = blocks_from_distinct [OF ch]
  have "unat (hb_size (heap_blocks (absorb c n h) c)) =
      unat (hb_size (heap_blocks h c)) + 16 + unat (hb_size (heap_blocks h n))"
    using ab(3) blocks_from_adjacent [OF ch] by (simp add: block_end_def)
  moreover have out: "heap_regions (heap_blocks (absorb c n h)) zs = heap_regions (heap_blocks h) zs" if "c \<notin> set zs" for zs
  proof (rule heap_regions_cong)
    fix x
    assume "x \<in> set zs"
    with that have "x \<noteq> c" by blast
    then show "hb_size (heap_blocks (absorb c n h) x) = hb_size (heap_blocks h x) \<and>
        hb_free (heap_blocks (absorb c n h) x) = hb_free (heap_blocks h x)" using ab(4,5) by simp
  qed
  then have "heap_regions (heap_blocks (absorb c n h)) vs = heap_regions (heap_blocks h) vs" using d by simp
  ultimately show "heap_regions (heap_blocks (absorb c n h)) (c # vs) =
       merge_right (heap_region (heap_blocks h) c) (heap_regions (heap_blocks h) (n # vs))"
    using fr by (simp add: heap_regions_def heap_region_def ab(5))
  show "heap_regions (heap_blocks (absorb c n h)) us = heap_regions (heap_blocks h) us" using out d by simp
qed

text \<open>The first half of \<open>kfree\<close>: the block is marked free and joined with a free block behind it.\<close>

lemma free_merge_next:
  assumes ch: "blocks_from (heap_blocks h) a (us @ b # vs) e" and e: "e < 2 ^ 32"
    and bl: "back_links (heap_blocks h) 0 (us @ b # vs)"
    and h1: "h1 = upd_block b (\<lambda>x. x\<lparr>hb_free := 1\<rparr>) h" and nx: "nx = hb_next (heap_blocks h1 b)"
    and h2: "h2 = (if nx \<noteq> 0 \<and> hb_free (heap_blocks h1 nx) \<noteq> 0 then absorb b nx h1 else h1)"
  obtains ws where "blocks_from (heap_blocks h2) a (us @ b # ws) e" "back_links (heap_blocks h2) 0 (us @ b # ws)"
    "heap_head h2 = heap_head h" "heap_regions (heap_blocks h2) us = heap_regions (heap_blocks h) us"
    "heap_regions (heap_blocks h2) (b # ws) =
       merge_right (b, unat (hb_size (heap_blocks h b)), True) (heap_regions (heap_blocks h) vs)"
proof -
  let ?st = "heap_blocks h" and ?st1 = "heap_blocks h1"
  note d = blocks_from_distinct [OF ch] and nz = blocks_from_nonnull [OF ch]
  have f: "hb_size (?st1 x) = hb_size (?st x)" "hb_next (?st1 x) = hb_next (?st x)"
    "hb_prev (?st1 x) = hb_prev (?st x)" "heap_head h1 = heap_head h"
    "hb_free (?st1 x) = (if x = b then 1 else hb_free (?st x))" for x
    by (simp_all add: h1 upd_block_def)
  have ch1: "blocks_from ?st1 a (us @ b # vs) e" and bl1: "back_links ?st1 0 (us @ b # vs)"
    using ch bl blocks_from_cong [of "us @ b # vs" ?st1 ?st] back_links_cong [of "us @ b # vs" ?st1 ?st]
    by (simp_all add: f)
  have same: "heap_regions ?st1 us = heap_regions ?st us" "heap_regions ?st1 vs = heap_regions ?st vs"
    using d by (auto intro!: heap_regions_cong simp: f)
  have b: "heap_region ?st1 b = (b, unat (hb_size (?st b)), True)" by (simp add: heap_region_def f)
  have nx': "nx = head_or_0 vs" using blocks_from_next [OF ch1] by (simp add: nx)
  show thesis
  proof (cases "nx \<noteq> 0 \<and> hb_free (?st1 nx) \<noteq> 0")
    case True
    then obtain vs' where vs: "vs = nx # vs'" using nx' by (cases vs) auto
    note ab = absorb_ok [OF ch1 [unfolded vs] e bl1 [unfolded vs]]
      and rs = absorb_regions [OF ch1 [unfolded vs] e bl1 [unfolded vs]]
    show ?thesis by (rule that [of vs']) (use True ab rs same b f vs in \<open>auto simp: h2\<close>)
  next
    case False
    then have "h2 = h1" by (auto simp: h2)
    moreover have "vs = [] \<or> hb_free (?st (hd vs)) = 0"
      using False nx' nz d by (cases vs) (auto simp: f split: if_splits)
    moreover have "heap_regions ?st1 (b # vs) = heap_region ?st1 b # heap_regions ?st1 vs" by (simp add: heap_regions_def)
    ultimately show ?thesis
      by (intro that [of vs]) (use ch1 bl1 same b f in \<open>simp_all add: merge_right_none\<close>)
  qed
qed

lemma kfree_ok:
  assumes ok: "heap_ok h (us @ b # vs) e" and bl: "back_links (heap_blocks h) 0 (us @ b # vs)"
    and p: "p = b + header_size" "p \<noteq> 0"
  shows "\<exists>bs'. heap_ok (kfree p h) bs' e \<and> back_links (heap_blocks (kfree p h)) 0 bs' \<and>
     heap_regions (heap_blocks (kfree p h)) bs' =
       give_back (heap_regions (heap_blocks h) us) b (unat (hb_size (heap_blocks h b))) (heap_regions (heap_blocks h) vs)"
proof -
  let ?st = "heap_blocks h" and ?a = "unat (heap_head h)"
  have ch: "blocks_from ?st ?a (us @ b # vs) e" and e: "e < 2 ^ 32" and hd: "heap_head h = head_or_0 (us @ b # vs)"
    using ok by (auto simp: heap_ok_def)
  define h1 where "h1 = upd_block b (\<lambda>x. x\<lparr>hb_free := 1\<rparr>) h"
  define nx where "nx = hb_next (heap_blocks h1 b)"
  define h2 where "h2 = (if nx \<noteq> 0 \<and> hb_free (heap_blocks h1 nx) \<noteq> 0 then absorb b nx h1 else h1)"
  define pv where "pv = hb_prev (heap_blocks h2 b)"
  obtain ws where ws: "blocks_from (heap_blocks h2) ?a (us @ b # ws) e"
    "back_links (heap_blocks h2) 0 (us @ b # ws)" "heap_head h2 = heap_head h"
    "heap_regions (heap_blocks h2) us = heap_regions ?st us"
    "heap_regions (heap_blocks h2) (b # ws) = merge_right (b, unat (hb_size (?st b)), True) (heap_regions ?st vs)"
    by (rule free_merge_next [OF ch e bl h1_def nx_def h2_def], rule that)
  have pv: "pv = last (0 # us)" using back_links_prev [OF ws(2)] by (simp add: pv_def)
  have kf: "kfree p h = (if pv \<noteq> 0 \<and> hb_free (heap_blocks h2 pv) \<noteq> 0 then absorb pv b h2 else h2)"
    by (rule kfree_absorb [OF p(2) _ h1_def nx_def h2_def pv_def]) (simp add: p(1))
  have free_b: "hb_free (heap_blocks h2 b) \<noteq> 0"
    using arg_cong [OF ws(5), of hd] by (cases "((b, unat (hb_size (?st b)), True), heap_regions ?st vs)" rule: merge_right.cases)
      (auto simp: heap_regions_def heap_region_def)
  show ?thesis
  proof (cases us rule: rev_cases)
    case Nil
    then show ?thesis
      using kf pv ws hd e by (intro exI [of _ "b # ws"]) (auto simp: heap_ok_def give_back_def heap_regions_def)
  next
    case (snoc us' x)
    then have x: "pv = x" "pv \<noteq> 0" "heap_regions ?st us = heap_regions ?st us' @ [heap_region ?st x]"
      "heap_region (heap_blocks h2) x = heap_region ?st x" "heap_regions (heap_blocks h2) us' = heap_regions ?st us'"
      using pv ws(4) blocks_from_nonnull [OF ch] by (auto simp: heap_regions_def)
    have fx: "region_free (heap_region ?st x) \<longleftrightarrow> hb_free (heap_blocks h2 x) \<noteq> 0"
      using x(4) by (simp add: heap_region_def)
    show ?thesis
    proof (cases "hb_free (heap_blocks h2 x) \<noteq> 0")
      case True
      have ch2: "blocks_from (heap_blocks h2) ?a (us' @ x # b # ws) e"
        "back_links (heap_blocks h2) 0 (us' @ x # b # ws)" using ws(1,2) snoc by auto
      note ab = absorb_ok [OF ch2(1) e ch2(2)] and rs = absorb_regions [OF ch2(1) e ch2(2) free_b]
      have "heap_regions (heap_blocks (absorb x b h2)) (us' @ x # ws) =
          give_back (heap_regions ?st us) b (unat (hb_size (?st b))) (heap_regions ?st vs)"
        using rs ws(5) x fx True by (simp add: give_back_def) (simp add: heap_regions_def)
      moreover have "heap_ok (absorb x b h2) (us' @ x # ws) e"
        using ab hd ws(3) snoc e by (simp add: heap_ok_def)
      ultimately show ?thesis using kf x True ab(2) by (intro exI [of _ "us' @ x # ws"]) simp
    next
      case False
      then show ?thesis
        using kf x fx ws hd e snoc
        by (intro exI [of _ "us @ b # ws"]) (auto simp: heap_ok_def give_back_def heap_regions_def hd_append)
    qed
  qed
qed

section \<open>Properties\<close>

lemma align_bounds:
  assumes "unat n \<le> 2 ^ 32 - 8"
  shows "8 dvd unat (align n)" "unat n \<le> unat (align n)"
proof -
  have "unat (n + 7) = unat n + 7" using assms by (simp add: unat_word_ariths)
  moreover have "align n = (n + 7) AND NOT (mask 3)" by (simp add: align_def HEAP_ALIGMENT_def mask_eq_exp_minus_1 add.commute)
  moreover have "unat (w AND NOT (mask 3)) = unat w - unat w mod 8" for w :: u32
  proof -
    have "w AND NOT (mask 3) = push_bit 3 (drop_bit 3 w)"
      by (rule bit_eqI) (auto simp: bit_simps)
    then have "w AND NOT (mask 3) = w - w mod 8"
      using bits_ident [of 3 w] by (simp add: take_bit_eq_mod algebra_simps)
    moreover have "w mod 8 \<le> w" by (simp add: word_le_nat_alt unat_mod)
    ultimately show ?thesis by (simp add: unat_sub unat_mod)
  qed
  ultimately have eq: "unat (align n) = unat n + 7 - (unat n + 7) mod 8" by simp
  then show "8 dvd unat (align n)" by (simp add: dvd_minus_mod)
  show "unat n \<le> unat (align n)" unfolding eq by (simp add: le_diff_conv2)
qed

lemma kmalloc_none:
  assumes "heap_ok h bs e" "\<forall>b\<in>set bs. \<not> fits (heap_blocks h) (align n) b"
  shows "kmalloc n h = Some (0, h)"
  using assms kmalloc_loop_none [of h _ bs e "align n"] by (auto simp: kmalloc_def heap_ok_def)

text \<open>First fit: the block \<open>b\<close> is the first that is free and large enough.\<close>

lemma kmalloc_first:
  assumes ok: "heap_ok h (us @ b # vs) e" and n: "n \<noteq> 0" and al: "8 dvd unat (align n)"
    and first: "\<forall>u\<in>set us. \<not> fits (heap_blocks h) (align n) u" and fit: "fits (heap_blocks h) (align n) b"
    and ns: "ns = (if unat (align n) + 24 \<le> unat (hb_size (heap_blocks h b)) then [b + header_size + align n] else [])"
  shows "\<exists>h'. kmalloc n h = Some (b + header_size, h') \<and> heap_ok h' (us @ b # ns @ vs) e \<and>
     hb_free (heap_blocks h' b) = 0 \<and> align n \<le> hb_size (heap_blocks h' b) \<and>
     (\<forall>c\<in>set (us @ vs). heap_blocks h' c = heap_blocks h c) \<and> (\<forall>c\<in>set ns. hb_free (heap_blocks h' c) \<noteq> 0) \<and>
     (back_links (heap_blocks h) 0 (us @ b # vs) \<longrightarrow>
        (back_links (heap_blocks h') 0 (us @ b # ns @ vs) \<longleftrightarrow> ns = [] \<or> vs = []))"
proof -
  let ?h = "take_block (align n) h b"
  have ch: "blocks_from (heap_blocks h) (unat (heap_head h)) (us @ b # vs) e" and e: "e < 2 ^ 32"
    and hd: "heap_head h = head_or_0 (us @ b # vs)" using ok by (auto simp: heap_ok_def)
  from take_block_ok [OF ch e fit al, folded ns] obtain ms where ms:
    "blocks_from (heap_blocks ?h) (unat (heap_head h)) (us @ b # ms @ vs) e"
    "set ms \<inter> set (us @ b # vs) = {}" "\<forall>c. c \<notin> insert b (set ms) \<longrightarrow> heap_blocks ?h c = heap_blocks h c"
    "heap_head ?h = heap_head h" "hb_free (heap_blocks ?h b) = 0" "align n \<le> hb_size (heap_blocks ?h b)"
    "\<forall>c\<in>set ms. hb_free (heap_blocks ?h c) \<noteq> 0" "ms = ns"
    "back_links (heap_blocks h) 0 (us @ b # vs) \<longrightarrow>
        (back_links (heap_blocks ?h) 0 (us @ b # ms @ vs) \<longleftrightarrow> ms = [] \<or> vs = [])" by blast
  have "kmalloc n h = Some (b + header_size, ?h)"
    using kmalloc_loop_first [OF ch first fit] n hd by (simp add: kmalloc_def)
  moreover have "heap_ok ?h (us @ b # ms @ vs) e" using ms(1,4) e hd by (simp add: heap_ok_def)
  moreover have "\<forall>c\<in>set (us @ vs). heap_blocks ?h c = heap_blocks h c"
    using ms(2,3) blocks_from_distinct [OF ch] by auto
  ultimately show ?thesis using ms(5-9) by (intro exI [of _ ?h]) simp
qed

text \<open>An empty block header, and a heap of 4 KB.\<close>

definition ex_heap :: heap where
  "ex_heap = heap_init 0x20010000 0x1000
     \<lparr>heap_head = 0, heap_blocks = (\<lambda>_. \<lparr>hb_size = 0, hb_next = 0, hb_prev = 0, hb_free = 0\<rparr>)\<rparr>"

lemma ex_heap_ok: "heap_ok ex_heap [0x20010000] 0x20011000" "back_links (heap_blocks ex_heap) 0 [0x20010000]"
  by (auto simp: ex_heap_def heap_init_def upd_block_def heap_ok_def block_end_def header_size_def)

text \<open>C14: Allocation of 1 to \<open>2^32 - 8\<close> bytes on a heap whose blocks tile the memory returns. If some free
  block is large enough it takes the first such block, aligned to 8 bytes and disjoint from every other
  block, and cuts off the rest as a free block if that is worth a header and 8 bytes; all other headers
  and the tiling are kept. Otherwise it returns NULL and changes nothing. The back links \<open>kfree\<close> relies
  on are kept exactly if nothing is cut off or the block is the last: otherwise the block behind the
  new one still points to the block that was split.\<close>

theorem kmalloc_spec:
  assumes ok: "heap_ok h bs e" and n: "n \<noteq> 0" "unat n \<le> 2 ^ 32 - 8"
  shows "if \<exists>b\<in>set bs. hb_free (heap_blocks h b) \<noteq> 0 \<and> align n \<le> hb_size (heap_blocks h b)
     then \<exists>us b vs ns h'. bs = us @ b # vs \<and> hb_free (heap_blocks h b) \<noteq> 0 \<and> align n \<le> hb_size (heap_blocks h b) \<and>
       (\<forall>u\<in>set us. hb_free (heap_blocks h u) = 0 \<or> hb_size (heap_blocks h u) < align n) \<and>
       ns = (if unat (align n) + 24 \<le> unat (hb_size (heap_blocks h b)) then [b + header_size + align n] else []) \<and>
       kmalloc n h = Some (b + header_size, h') \<and> heap_ok h' (us @ b # ns @ vs) e \<and>
       8 dvd unat b \<and> hb_free (heap_blocks h' b) = 0 \<and> n \<le> hb_size (heap_blocks h' b) \<and>
       (\<forall>c\<in>set (us @ ns @ vs). block_end (heap_blocks h') b \<le> unat c \<or> block_end (heap_blocks h') c \<le> unat b) \<and>
       (\<forall>c\<in>set (us @ vs). heap_blocks h' c = heap_blocks h c) \<and> (\<forall>c\<in>set ns. hb_free (heap_blocks h' c) \<noteq> 0) \<and>
       (back_links (heap_blocks h) 0 bs \<longrightarrow> (back_links (heap_blocks h') 0 (us @ b # ns @ vs) \<longleftrightarrow> ns = [] \<or> vs = []))
     else kmalloc n h = Some (0, h)"
proof (cases "\<exists>b\<in>set bs. fits (heap_blocks h) (align n) b")
  case True
  then obtain us b vs where bs: "bs = us @ b # vs" "fits (heap_blocks h) (align n) b"
    "\<forall>u\<in>set us. \<not> fits (heap_blocks h) (align n) u"
    using split_list_first_propE [of bs "fits (heap_blocks h) (align n)"] by metis
  define ns where "ns = (if unat (align n) + 24 \<le> unat (hb_size (heap_blocks h b)) then [b + header_size + align n] else [])"
  obtain h' where h': "kmalloc n h = Some (b + header_size, h')" "heap_ok h' (us @ b # ns @ vs) e"
    "hb_free (heap_blocks h' b) = 0" "align n \<le> hb_size (heap_blocks h' b)"
    "\<forall>c\<in>set (us @ vs). heap_blocks h' c = heap_blocks h c" "\<forall>c\<in>set ns. hb_free (heap_blocks h' c) \<noteq> 0"
    "back_links (heap_blocks h) 0 (us @ b # vs) \<longrightarrow>
        (back_links (heap_blocks h') 0 (us @ b # ns @ vs) \<longleftrightarrow> ns = [] \<or> vs = [])"
    using kmalloc_first [OF ok [unfolded bs(1)] n(1) align_bounds(1) [OF n(2)] bs(3,2) ns_def] by blast
  have ch': "blocks_from (heap_blocks h') (unat (heap_head h')) (us @ b # ns @ vs) e" and e: "e < 2 ^ 32"
    using h'(2) by (auto simp: heap_ok_def)
  have "n \<le> hb_size (heap_blocks h' b)"
    using align_bounds(2) [OF n(2)] h'(4) by (simp add: word_le_nat_alt)
  moreover have "8 dvd unat b" by (rule block_room(4) [OF ch' e _ order_refl]) simp
  moreover have "\<forall>c\<in>set (us @ ns @ vs). block_end (heap_blocks h') b \<le> unat c \<or> block_end (heap_blocks h') c \<le> unat b"
    using blocks_disjoint [OF ch', of b] blocks_from_distinct [OF ch'] by auto
  moreover have "\<exists>b\<in>set bs. hb_free (heap_blocks h b) \<noteq> 0 \<and> align n \<le> hb_size (heap_blocks h b)"
    using bs(1,2) by (auto simp: fits_def)
  moreover have "\<forall>u\<in>set us. hb_free (heap_blocks h u) = 0 \<or> hb_size (heap_blocks h u) < align n"
    using bs(3) by (auto simp: fits_def)
  moreover have "hb_free (heap_blocks h b) \<noteq> 0" "align n \<le> hb_size (heap_blocks h b)"
    using bs(2) by (simp_all add: fits_def)
  ultimately show ?thesis using h' bs(1) ns_def
    by (simp only: if_True) (intro exI [of _ us] exI [of _ b] exI [of _ vs] exI [of _ ns] exI [of _ h'] conjI, simp_all)
next
  case False
  then show ?thesis using kmalloc_none [OF ok] unfolding fits_def [symmetric] by auto
qed

theorem kmalloc_spec_witness:
  "\<exists>h' bs'. kmalloc 100 ex_heap = Some (0x20010010, h') \<and> heap_ok h' bs' 0x20011000 \<and>
     100 \<le> hb_size (heap_blocks h' 0x20010000) \<and> back_links (heap_blocks h') 0 bs'"
proof -
  have "align 100 \<le> hb_size (heap_blocks ex_heap 0x20010000)" "hb_free (heap_blocks ex_heap 0x20010000) \<noteq> 0"
    by (simp_all add: ex_heap_def heap_init_def upd_block_def header_size_def align_def HEAP_ALIGMENT_def)
  with kmalloc_spec [OF ex_heap_ok(1), of 100] ex_heap_ok(2) show ?thesis
    by (fastforce simp: header_size_def Cons_eq_append_conv)
qed

text \<open>C15: Freeing a block of a heap whose back links agree with the list does exactly this to the list of
  regions: the block is marked free, takes over a free region behind it, and is taken over by a free
  region in front of it, headers included, so that no memory is lost and every other region stays as it
  was. The tiling and the back links are kept, and if no two free regions were neighbours before, none
  are afterwards.\<close>

theorem kfree_spec:
  assumes "heap_ok h (us @ b # vs) e" "back_links (heap_blocks h) 0 (us @ b # vs)"
  shows "\<exists>bs'. heap_ok (kfree (b + header_size) h) bs' e \<and>
     back_links (heap_blocks (kfree (b + header_size) h)) 0 bs' \<and>
     heap_regions (heap_blocks (kfree (b + header_size) h)) bs' =
       give_back (heap_regions (heap_blocks h) us) b (unat (hb_size (heap_blocks h b))) (heap_regions (heap_blocks h) vs) \<and>
     (fully_merged (heap_regions (heap_blocks h) (us @ b # vs)) \<longrightarrow>
        fully_merged (heap_regions (heap_blocks (kfree (b + header_size) h)) bs'))"
proof -
  have "block_end (heap_blocks h) b < 2 ^ 32" "8 \<le> unat b"
    using assms(1) block_room(3,6) [of "heap_blocks h" _ "us @ b # vs" e b, OF _ _ _ order_refl]
    by (auto simp: heap_ok_def)
  then have "unat (b + header_size) = unat b + 16"
    by (simp add: header_size_def unat_word_ariths block_end_def)
  then have "b + header_size \<noteq> 0" using unat_0 by (metis add_is_0 zero_neq_numeral)
  from kfree_ok [OF assms refl this] give_back_merged [of "heap_regions (heap_blocks h) us" b] show ?thesis
    by (fastforce simp: heap_regions_def heap_region_def)
qed

text \<open>A heap of three blocks, of which the middle one is in use.\<close>

definition ex_used :: heap where
  "ex_used = \<lparr>heap_head = 0x20010000, heap_blocks = (\<lambda>_. \<lparr>hb_size = 0, hb_next = 0, hb_prev = 0, hb_free = 0\<rparr>)
     (0x20010000 := \<lparr>hb_size = 16, hb_next = 0x20010020, hb_prev = 0, hb_free = 1\<rparr>,
      0x20010020 := \<lparr>hb_size = 24, hb_next = 0x20010048, hb_prev = 0x20010000, hb_free = 0\<rparr>,
      0x20010048 := \<lparr>hb_size = 32, hb_next = 0, hb_prev = 0x20010020, hb_free = 1\<rparr>)\<rparr>"

lemma ex_used_ok: "heap_ok ex_used ([0x20010000] @ 0x20010020 # [0x20010048]) 0x20010078"
  "back_links (heap_blocks ex_used) 0 ([0x20010000] @ 0x20010020 # [0x20010048])"
  by (auto simp: ex_used_def heap_ok_def block_end_def)

theorem kfree_spec_witness:
  "\<exists>bs'. heap_ok (kfree (0x20010020 + header_size) ex_used) bs' 0x20010078 \<and>
     heap_regions (heap_blocks (kfree (0x20010020 + header_size) ex_used)) bs' = [(0x20010000, 104, True)]"
  using kfree_spec [OF ex_used_ok] by (auto simp: ex_used_def heap_regions_def heap_region_def give_back_def)

text \<open>Concrete heaps, given by their headers (address, size, next, prev, free), for evaluation.\<close>

fun headers :: "(ptr \<times> u32 \<times> ptr \<times> ptr \<times> u8) list \<Rightarrow> bstore" where
  "headers [] = (\<lambda>_. \<lparr>hb_size = 0, hb_next = 0, hb_prev = 0, hb_free = 0\<rparr>)"
| "headers ((a, s, n, p, f) # xs) = (headers xs)(a := \<lparr>hb_size = s, hb_next = n, hb_prev = p, hb_free = f\<rparr>)"

definition run_state :: "(ptr \<times> u32 \<times> ptr \<times> ptr \<times> u8) list \<Rightarrow> heap" where
  "run_state xs = \<lparr>heap_head = 0x20010000, heap_blocks = headers xs\<rparr>"

lemma kmalloc_skip: "tmp \<noteq> 0 \<Longrightarrow> \<not> fits (heap_blocks h) n tmp \<Longrightarrow>
    kmalloc_loop n h tmp = kmalloc_loop n h (hb_next (heap_blocks h tmp))"
  by (subst kmalloc_loop.simps) (auto simp: fits_def)

lemma kmalloc_hit: "tmp \<noteq> 0 \<Longrightarrow> fits (heap_blocks h) n tmp \<Longrightarrow>
    kmalloc_loop n h tmp = Some (tmp + header_size, take_block n h tmp)"
  by (subst kmalloc_loop.simps) (simp add: fits_def take_block_def)

lemma split_block_eq:
  "b + header_size + n \<noteq> b \<Longrightarrow> split_block b n h = h\<lparr>heap_blocks := (heap_blocks h)
     (b := (heap_blocks h b)\<lparr>hb_size := n, hb_next := b + header_size + n\<rparr>,
      b + header_size + n := \<lparr>hb_size = hb_size (heap_blocks h b) - n - header_size,
        hb_next = hb_next (heap_blocks h b), hb_prev = b, hb_free = 1\<rparr>)\<rparr>"
  using split_blocks [of b n h] by (cases h, cases "split_block b n h") simp

lemmas heap_eval = kmalloc_def kmalloc_skip kmalloc_hit fits_def take_block_def split_block_eq
  upd_block_def align_def header_size_def HEAP_ALIGMENT_def Let_def kfree_def merge_next_def merge_prev_def
  run_state_def

lemma run_0: "ex_heap = run_state [(0x20010000, 0xFF0, 0, 0, 1)]"
  by (simp add: ex_heap_def heap_init_def upd_block_def header_size_def run_state_def)

lemma run_1: "kmalloc 100 (run_state [(0x20010000, 0xFF0, 0, 0, 1)]) =
     Some (0x20010010, run_state [(0x20010000, 0x68, 0x20010078, 0, 0), (0x20010078, 0xF78, 0, 0x20010000, 1)])"
  by (simp add: heap_eval fun_eq_iff)

lemma run_2: "kmalloc 16 (run_state [(0x20010000, 0x68, 0x20010078, 0, 0), (0x20010078, 0xF78, 0, 0x20010000, 1)]) =
     Some (0x20010088, run_state [(0x20010000, 0x68, 0x20010078, 0, 0), (0x20010078, 0x10, 0x20010098, 0x20010000, 0), (0x20010098, 0xF58, 0, 0x20010078, 1)])"
  by (simp add: heap_eval fun_eq_iff)

lemma run_3: "kfree 0x20010010 (run_state [(0x20010000, 0x68, 0x20010078, 0, 0), (0x20010078, 0x10, 0x20010098, 0x20010000, 0), (0x20010098, 0xF58, 0, 0x20010078, 1)]) =
     run_state [(0x20010000, 0x68, 0x20010078, 0, 1), (0x20010078, 0x10, 0x20010098, 0x20010000, 0), (0x20010098, 0xF58, 0, 0x20010078, 1)]"
  by (simp add: heap_eval fun_eq_iff)

lemma run_4: "kmalloc 16 (run_state [(0x20010000, 0x68, 0x20010078, 0, 1), (0x20010078, 0x10, 0x20010098, 0x20010000, 0), (0x20010098, 0xF58, 0, 0x20010078, 1)]) =
     Some (0x20010010, run_state [(0x20010000, 0x10, 0x20010020, 0, 0), (0x20010078, 0x10, 0x20010098, 0x20010000, 0), (0x20010098, 0xF58, 0, 0x20010078, 1), (0x20010020, 0x48, 0x20010078, 0x20010000, 1)])"
  by (simp add: heap_eval fun_eq_iff)

lemma run_5: "kmalloc 40 (run_state [(0x20010000, 0x10, 0x20010020, 0, 0), (0x20010078, 0x10, 0x20010098, 0x20010000, 0), (0x20010098, 0xF58, 0, 0x20010078, 1), (0x20010020, 0x48, 0x20010078, 0x20010000, 1)]) =
     Some (0x20010030, run_state [(0x20010000, 0x10, 0x20010020, 0, 0), (0x20010078, 0x10, 0x20010098, 0x20010000, 0), (0x20010098, 0xF58, 0, 0x20010078, 1), (0x20010020, 0x28, 0x20010058, 0x20010000, 0), (0x20010058, 0x10, 0x20010078, 0x20010020, 1)])"
  by (simp add: heap_eval fun_eq_iff)

lemma run_6: "kfree 0x20010010 (run_state [(0x20010000, 0x10, 0x20010020, 0, 0), (0x20010078, 0x10, 0x20010098, 0x20010000, 0), (0x20010098, 0xF58, 0, 0x20010078, 1), (0x20010020, 0x28, 0x20010058, 0x20010000, 0), (0x20010058, 0x10, 0x20010078, 0x20010020, 1)]) =
     run_state [(0x20010000, 0x10, 0x20010020, 0, 1), (0x20010078, 0x10, 0x20010098, 0x20010000, 0), (0x20010098, 0xF58, 0, 0x20010078, 1), (0x20010020, 0x28, 0x20010058, 0x20010000, 0), (0x20010058, 0x10, 0x20010078, 0x20010020, 1)]"
  by (simp add: heap_eval fun_eq_iff)

lemma run_7_free: "upd_block 0x20010078 (\<lambda>b. b\<lparr>hb_free := 1\<rparr>) (run_state [(0x20010000, 0x10, 0x20010020, 0, 1), (0x20010078, 0x10, 0x20010098, 0x20010000, 0), (0x20010098, 0xF58, 0, 0x20010078, 1), (0x20010020, 0x28, 0x20010058, 0x20010000, 0), (0x20010058, 0x10, 0x20010078, 0x20010020, 1)]) =
     run_state [(0x20010000, 0x10, 0x20010020, 0, 1), (0x20010078, 0x10, 0x20010098, 0x20010000, 1), (0x20010098, 0xF58, 0, 0x20010078, 1), (0x20010020, 0x28, 0x20010058, 0x20010000, 0), (0x20010058, 0x10, 0x20010078, 0x20010020, 1)]"
  by (auto simp: upd_block_def run_state_def fun_eq_iff)

lemma run_7_next: "merge_next 0x20010078 (run_state [(0x20010000, 0x10, 0x20010020, 0, 1), (0x20010078, 0x10, 0x20010098, 0x20010000, 1), (0x20010098, 0xF58, 0, 0x20010078, 1), (0x20010020, 0x28, 0x20010058, 0x20010000, 0), (0x20010058, 0x10, 0x20010078, 0x20010020, 1)]) =
     run_state [(0x20010000, 0x10, 0x20010020, 0, 1), (0x20010078, 0xF78, 0, 0x20010000, 1), (0x20010098, 0xF58, 0, 0x20010078, 1), (0x20010020, 0x28, 0x20010058, 0x20010000, 0), (0x20010058, 0x10, 0x20010078, 0x20010020, 1)]"
  by (simp add: heap_eval fun_eq_iff)

lemma run_7_prev: "merge_prev 0x20010078 (run_state [(0x20010000, 0x10, 0x20010020, 0, 1), (0x20010078, 0xF78, 0, 0x20010000, 1), (0x20010098, 0xF58, 0, 0x20010078, 1), (0x20010020, 0x28, 0x20010058, 0x20010000, 0), (0x20010058, 0x10, 0x20010078, 0x20010020, 1)]) =
     run_state [(0x20010000, 0xF98, 0, 0, 1), (0x20010078, 0xF78, 0, 0x20010000, 1), (0x20010098, 0xF58, 0, 0x20010078, 1), (0x20010020, 0x28, 0x20010058, 0x20010000, 0), (0x20010058, 0x10, 0x20010078, 0x20010020, 1)]"
  by (simp add: merge_prev_def run_state_def) (simp add: upd_block_def Let_def header_size_def)

lemma run_7: "kfree 0x20010088 (run_state [(0x20010000, 0x10, 0x20010020, 0, 1), (0x20010078, 0x10, 0x20010098, 0x20010000, 0), (0x20010098, 0xF58, 0, 0x20010078, 1), (0x20010020, 0x28, 0x20010058, 0x20010000, 0), (0x20010058, 0x10, 0x20010078, 0x20010020, 1)]) =
     run_state [(0x20010000, 0xF98, 0, 0, 1), (0x20010078, 0xF78, 0, 0x20010000, 1), (0x20010098, 0xF58, 0, 0x20010078, 1), (0x20010020, 0x28, 0x20010058, 0x20010000, 0), (0x20010058, 0x10, 0x20010078, 0x20010020, 1)]"
  by (simp add: kfree_def header_size_def run_7_free run_7_next run_7_prev)

lemma run_8: "\<exists>h. kmalloc 40 (run_state [(0x20010000, 0xF98, 0, 0, 1), (0x20010078, 0xF78, 0, 0x20010000, 1), (0x20010098, 0xF58, 0, 0x20010078, 1), (0x20010020, 0x28, 0x20010058, 0x20010000, 0), (0x20010058, 0x10, 0x20010078, 0x20010020, 1)]) = Some (0x20010010, h) \<and>
     hb_free (heap_blocks h 0x20010020) = 0 \<and> hb_free (heap_blocks h 0x20010000) = 0 \<and>
     hb_size (heap_blocks h 0x20010000) = 40"
  by (simp add: heap_eval)

text \<open>
  C16: Allocation does not keep the back links: the block behind a split one still points to the
  block that was split. After freeing and allocating again, a later free merges blocks across a live
  one. Here the last allocation returns 40 bytes at \<open>0x20010010\<close>, of which the last 8 belong to the 40
  bytes at \<open>0x20010030\<close> that were allocated before and not freed.
\<close>

theorem heap_overlapping_allocations:
  "\<exists>h. do { (a, h) \<leftarrow> kmalloc 100 ex_heap; (b, h) \<leftarrow> kmalloc 16 h; let h = kfree a h;
           (c, h) \<leftarrow> kmalloc 16 h; (live, h) \<leftarrow> kmalloc 40 h; let h = kfree c h; let h = kfree b h;
           (x, h) \<leftarrow> kmalloc 40 h; Some (live, x, h) } = Some (0x20010030, 0x20010010, h) \<and>
       hb_free (heap_blocks h 0x20010020) = 0 \<and> hb_free (heap_blocks h 0x20010000) = 0 \<and>
       block_end (heap_blocks h) 0x20010000 = 0x20010038"
proof -
  obtain h where "kmalloc 40 (run_state [(0x20010000, 0xF98, 0, 0, 1), (0x20010078, 0xF78, 0, 0x20010000, 1), (0x20010098, 0xF58, 0, 0x20010078, 1), (0x20010020, 0x28, 0x20010058, 0x20010000, 0), (0x20010058, 0x10, 0x20010078, 0x20010020, 1)]) = Some (0x20010010, h)"
    "hb_free (heap_blocks h 0x20010020) = 0" "hb_free (heap_blocks h 0x20010000) = 0"
    "hb_size (heap_blocks h 0x20010000) = 40" using run_8 by blast
  then show ?thesis
    by (intro exI [of _ h]) (simp add: run_0 run_1 run_2 run_3 run_4 run_5 run_6 run_7 block_end_def)
qed

text \<open>Huge requests wrap around: a request of more than \<open>2^32 - 8\<close> bytes is rounded up to 0 and is
  satisfied by any free block.\<close>

theorem kmalloc_huge_wraps:
  assumes "heap_ok h bs e" "2 ^ 32 - 8 < unat n" "b \<in> set bs" "hb_free (heap_blocks h b) \<noteq> 0"
  shows "align n = 0 \<and> (\<exists>c\<in>set bs. \<exists>h'. kmalloc n h = Some (c + header_size, h'))"
proof -
  have "unat n < 2 ^ 32" using unat_lt2p [of n] by simp
  with assms(2) have "4294967289 \<le> unat n \<and> unat n < 4294967296" by auto
  then have "unat n = 4294967289 \<or> unat n = 4294967290 \<or> unat n = 4294967291 \<or> unat n = 4294967292 \<or>
      unat n = 4294967293 \<or> unat n = 4294967294 \<or> unat n = 4294967295" by arith
  then have "n \<in> {0xFFFFFFF9, 0xFFFFFFFA, 0xFFFFFFFB, 0xFFFFFFFC, 0xFFFFFFFD, 0xFFFFFFFE, 0xFFFFFFFF}"
    unfolding word_unat_eq_iff insert_iff by auto
  then have al: "align n = 0" and nz: "n \<noteq> 0" by (auto simp: align_def HEAP_ALIGMENT_def)
  have "\<exists>b\<in>set bs. fits (heap_blocks h) (align n) b" using assms(3,4) al by (auto simp: fits_def)
  then obtain us b vs where bs: "bs = us @ b # vs" "fits (heap_blocks h) (align n) b"
    "\<forall>u\<in>set us. \<not> fits (heap_blocks h) (align n) u"
    using split_list_first_propE [of bs "fits (heap_blocks h) (align n)"] by metis
  from kmalloc_first [OF assms(1) [unfolded bs(1)] nz _ bs(3,2) refl] al bs(1) show ?thesis by auto
qed

theorem kmalloc_huge_wraps_witness: "\<exists>h'. kmalloc 0xFFFFFFFF ex_heap = Some (0x20010000 + header_size, h')"
  using kmalloc_huge_wraps [OF ex_heap_ok(1), of "0xFFFFFFFF" "0x20010000"]
  by (auto simp: ex_heap_def heap_init_def upd_block_def)

end
