(* ===== verification/Static_Memory.thy ===== *)
theory Static_Memory
  imports Scheduler
begin

text \<open>
  The statically allocated pools of tasks, semaphores, mutexes and sockets
  (\<^verbatim>\<open>source/kernel/static_memory.c\<close>) and the creation of tasks (\<^verbatim>\<open>source/kernel/tcb.c\<close>). Where the
  linker puts the arrays, and how large their elements are on the target, is the record \<open>layout\<close>, an
  argument of the operations; \<open>layout_ok\<close> states that the arrays lie in the address space without
  wrapping around. The contract of a pool is the locale \<open>slot_pool\<close>, interpreted for tasks, semaphores
  and mutexes.
\<close>

section \<open>Layout\<close>

record layout =
  task_slots :: ptr
  task_stacks :: ptr
  sem_slots :: ptr
  mutex_slots :: ptr
  socket_slots :: ptr
  sizeof_tcb :: u32
  sizeof_sem :: u32
  sizeof_mutex :: u32
  sizeof_socket :: u32

definition N_TASKS :: nat where "N_TASKS = 8"
definition TASK_STACK_SIZE :: u32 where "TASK_STACK_SIZE = 2048"
definition N_SEMAPHORES :: nat where "N_SEMAPHORES = 64"
definition N_MUTEXES :: nat where "N_MUTEXES = 64"
definition N_SOCKETS :: nat where "N_SOCKETS = 8"

text \<open>\<open>&array[i]\<close> for an array at \<open>base\<close> with elements of \<open>size\<close> bytes.\<close>

definition elem :: "ptr \<Rightarrow> u32 \<Rightarrow> nat \<Rightarrow> ptr" where
  "elem base sz i = base + of_nat i * sz"

definition array_ok :: "ptr \<Rightarrow> u32 \<Rightarrow> nat \<Rightarrow> bool" where
  "array_ok base sz n \<longleftrightarrow> 0 < unat base \<and> 0 < unat sz \<and> unat base + n * unat sz < 2 ^ 32"

definition layout_ok :: "layout \<Rightarrow> bool" where
  "layout_ok L \<longleftrightarrow> array_ok (task_slots L) (sizeof_tcb L) N_TASKS \<and>
     array_ok (task_stacks L) TASK_STACK_SIZE N_TASKS \<and>
     array_ok (sem_slots L) (sizeof_sem L) N_SEMAPHORES \<and>
     array_ok (mutex_slots L) (sizeof_mutex L) N_MUTEXES \<and>
     array_ok (socket_slots L) (sizeof_socket L) N_SOCKETS"

section \<open>Operations\<close>

definition task_memory_init :: "layout \<Rightarrow> kernel \<Rightarrow> kernel" where
  "task_memory_init L k =
     fold (\<lambda>i. upd_task (elem (task_slots L) (sizeof_tcb L) i)
             (\<lambda>t. t\<lparr>tcb_state := TASK_UNUSED, tcb_sp := 0, base_priority := 0, effective_priority := 0,
                    waiting_on := 0, tcb_next := 0\<rparr>))
          [0..<N_TASKS] k"

definition alloc_task :: "layout \<Rightarrow> kernel \<Rightarrow> ptr \<times> kernel" where
  "alloc_task L k =
     (case find (\<lambda>i. tcb_state (tcbs k (elem (task_slots L) (sizeof_tcb L) i)) \<in> {TASK_UNUSED, TASK_FINISHED})
                [0..<N_TASKS] of
        Some i \<Rightarrow>
          (elem (task_slots L) (sizeof_tcb L) i,
           upd_task (elem (task_slots L) (sizeof_tcb L) i)
             (\<lambda>t. t\<lparr>tcb_state := TASK_READY, stack_base := elem (task_stacks L) TASK_STACK_SIZE i,
                    stack_size := TASK_STACK_SIZE\<rparr>) k)
      | None \<Rightarrow> (0, k))"

definition get_task :: "layout \<Rightarrow> int \<Rightarrow> ptr" where
  "get_task L idx =
     (if idx \<ge> int N_TASKS \<or> idx < 0 then 0 else elem (task_slots L) (sizeof_tcb L) (nat idx))"

definition semaphore_memory_init :: "layout \<Rightarrow> kernel \<Rightarrow> kernel" where
  "semaphore_memory_init L k =
     fold (\<lambda>i. upd_sem (elem (sem_slots L) (sizeof_sem L) i)
             (\<lambda>s. s\<lparr>sem_count := 0, sem_references := 0, sem_state := SEM_UNUSED\<rparr>))
          [0..<N_SEMAPHORES] k"

definition alloc_sem :: "layout \<Rightarrow> kernel \<Rightarrow> ptr \<times> kernel" where
  "alloc_sem L k =
     (case find (\<lambda>i. sem_state (sems k (elem (sem_slots L) (sizeof_sem L) i)) = SEM_UNUSED)
                [0..<N_SEMAPHORES] of
        Some i \<Rightarrow> (elem (sem_slots L) (sizeof_sem L) i,
                   upd_sem (elem (sem_slots L) (sizeof_sem L) i) (\<lambda>s. s\<lparr>sem_state := SEM_OPEN\<rparr>) k)
      | None \<Rightarrow> (0, k))"

definition free_sem :: "ptr \<Rightarrow> kernel \<Rightarrow> kernel" where
  "free_sem sem k = upd_sem sem (\<lambda>s. s\<lparr>sem_state := SEM_UNUSED\<rparr>) k"

definition mutex_memory_init :: "layout \<Rightarrow> kernel \<Rightarrow> kernel" where
  "mutex_memory_init L k =
     fold (\<lambda>i. upd_mutex (elem (mutex_slots L) (sizeof_mutex L) i)
             (\<lambda>m. m\<lparr>mutex_owner := 0, mutex_state := SEM_UNUSED, next_owned := 0\<rparr>))
          [0..<N_MUTEXES] k"

definition alloc_mutex :: "layout \<Rightarrow> kernel \<Rightarrow> ptr \<times> kernel" where
  "alloc_mutex L k =
     (case find (\<lambda>i. mutex_state (mutexes k (elem (mutex_slots L) (sizeof_mutex L) i)) = SEM_UNUSED)
                [0..<N_MUTEXES] of
        Some i \<Rightarrow> (elem (mutex_slots L) (sizeof_mutex L) i,
                   upd_mutex (elem (mutex_slots L) (sizeof_mutex L) i) (\<lambda>m. m\<lparr>mutex_state := SEM_OPEN\<rparr>) k)
      | None \<Rightarrow> (0, k))"

datatype socket_protocol_t = CLOSED | TCP | UDP | MACRAW

datatype socket_status_t = SOCKET_STATUS_CREATED | SOCKET_STATUS_OPEN | SOCKET_STATUS_LISTENING
  | SOCKET_STATUS_ERROR | SOCKET_STATUS_CLOSED

record socket_t =
  sock_number :: u8
  sock_port :: u16
  sock_protocol :: socket_protocol_t
  sock_status :: socket_status_t
  has_unreaped_send :: bool

type_synonym sstore = "ptr \<Rightarrow> socket_t"

definition socket_memory_init :: "layout \<Rightarrow> sstore \<Rightarrow> sstore" where
  "socket_memory_init L ss =
     fold (\<lambda>i ss. ss(elem (socket_slots L) (sizeof_socket L) i :=
              (ss (elem (socket_slots L) (sizeof_socket L) i))
                \<lparr>sock_status := SOCKET_STATUS_CREATED, sock_number := of_nat i, sock_port := 0,
                 sock_protocol := CLOSED, has_unreaped_send := False\<rparr>))
          [0..<N_SOCKETS] ss"

definition get_socket :: "layout \<Rightarrow> u8 \<Rightarrow> ptr" where
  "get_socket L n =
     (if n > of_nat N_SOCKETS then 0 else elem (socket_slots L) (sizeof_socket L) (unat n))"

definition validate_task :: "layout \<Rightarrow> ptr \<Rightarrow> bool" where
  "validate_task L p \<longleftrightarrow> (p - task_slots L) mod sizeof_tcb L = 0"

definition validate_sem :: "layout \<Rightarrow> ptr \<Rightarrow> bool" where
  "validate_sem L p \<longleftrightarrow> (p - sem_slots L) mod sizeof_sem L = 0"

definition validate_mutex :: "layout \<Rightarrow> ptr \<Rightarrow> bool" where
  "validate_mutex L p \<longleftrightarrow> (p - mutex_slots L) mod sizeof_mutex L = 0"

definition validate_socket :: "layout \<Rightarrow> ptr \<Rightarrow> bool" where
  "validate_socket L p \<longleftrightarrow> (p - socket_slots L) mod sizeof_socket L = 0"

definition static_memory_init :: "layout \<Rightarrow> kernel \<times> sstore \<Rightarrow> kernel \<times> sstore" where
  "static_memory_init L = (\<lambda>(k, ss).
     (mutex_memory_init L (semaphore_memory_init L (task_memory_init L k)), socket_memory_init L ss))"

text \<open>
  The initial frame of a task is 17 words below the top of its stack: the exception frame, the
  exception return value, and R11 to R4. Only the resulting stack pointer is part of the state.
\<close>

definition task_stack_init :: "u32 \<Rightarrow> u32" where
  "task_stack_init stack_top = stack_top - 17 * 4"

definition create_task :: "layout \<Rightarrow> u8 \<Rightarrow> u32 \<Rightarrow> u32 \<Rightarrow> kernel \<Rightarrow> ptr \<times> kernel" where
  "create_task L priority func args k =
     (let (task, k) = alloc_task L k in
      if task = 0 then (0, k)
      else (task, upd_task task (\<lambda>t. t\<lparr>tcb_function := func, tcb_args := args,
              tcb_sp := task_stack_init (stack_base t + stack_size t), tcb_state := TASK_READY,
              base_priority := priority, effective_priority := priority, owned_mutexes := 0,
              unprivileged := 1, tcb_name := 0, tcb_next := 0, waiting_on := 0, waiting_on_type := NONE,
              wake_tick := 0\<rparr>) k))"

definition task_set_name :: "ptr \<Rightarrow> ptr \<Rightarrow> kernel \<Rightarrow> kernel" where
  "task_set_name task name k = (if task \<noteq> 0 then upd_task task (\<lambda>t. t\<lparr>tcb_name := name\<rparr>) k else k)"

section \<open>Addresses of array elements\<close>

lemma unat_elem:
  assumes "array_ok base sz n" "i \<le> n"
  shows "unat (elem base sz i) = unat base + i * unat sz"
proof -
  have "i * unat sz \<le> n * unat sz" using assms(2) by simp
  then have lt: "unat base + i * unat sz < 2 ^ 32" using assms(1) unfolding array_ok_def by linarith
  have "0 < unat sz" using assms(1) by (simp add: array_ok_def)
  then have "i \<le> i * unat sz" by simp
  then have "i < 2 ^ 32" using lt by linarith
  then have "unat (of_nat i :: u32) = i" by (simp add: unat_of_nat)
  then have "unat (of_nat i * sz) = i * unat sz" using lt by (simp add: unat_word_ariths)
  with lt show ?thesis by (simp add: elem_def unat_word_ariths)
qed

lemma elem_inj:
  assumes "array_ok base sz n" "i < n" "j < n" "elem base sz i = elem base sz j"
  shows "i = j"
proof -
  have "unat base + i * unat sz = unat base + j * unat sz"
    using unat_elem [OF assms(1)] assms(2-4) by (metis less_imp_le_nat)
  then have "i * unat sz = j * unat sz" by simp
  moreover have "0 < unat sz" using assms(1) by (simp add: array_ok_def)
  ultimately show ?thesis by simp
qed

lemma elem_nonnull: "array_ok base sz n \<Longrightarrow> i < n \<Longrightarrow> elem base sz i \<noteq> 0"
  using unat_elem [of base sz n i] by (auto simp: array_ok_def)

section \<open>The contract of a pool of slots\<close>

text \<open>
  A pool has \<open>n\<close> slots at different addresses; allocation takes the first slot that is not in use and
  leaves the others alone, or returns NULL when all are in use.
\<close>

locale slot_pool =
  fixes wf :: "'s \<Rightarrow> bool" and n :: nat and slot :: "'s \<Rightarrow> nat \<Rightarrow> ptr" and used :: "'s \<Rightarrow> nat \<Rightarrow> bool"
    and alloc :: "'s \<Rightarrow> ptr \<times> 's"
  assumes slot_inj: "wf s \<Longrightarrow> i < n \<Longrightarrow> j < n \<Longrightarrow> slot s i = slot s j \<Longrightarrow> i = j"
    and slot_nonnull: "wf s \<Longrightarrow> i < n \<Longrightarrow> slot s i \<noteq> 0"
    and alloc_some: "wf s \<Longrightarrow> i < n \<Longrightarrow> \<not> used s i \<Longrightarrow> (\<And>j. j < i \<Longrightarrow> used s j) \<Longrightarrow>
        fst (alloc s) = slot s i \<and> wf (snd (alloc s)) \<and> slot (snd (alloc s)) = slot s \<and>
        (\<forall>j<n. used (snd (alloc s)) j \<longleftrightarrow> j = i \<or> used s j)"
    and alloc_none: "wf s \<Longrightarrow> (\<And>i. i < n \<Longrightarrow> used s i) \<Longrightarrow> alloc s = (0, s)"
begin

definition free_slots :: "'s \<Rightarrow> nat set" where
  "free_slots s = {i. i < n \<and> \<not> used s i}"

lemma finite_free [simp]: "finite (free_slots s)"
  by (simp add: free_slots_def)

text \<open>An allocation succeeds exactly if there is a free slot; the slot it takes was free.\<close>

lemma alloc_cases:
  assumes "wf s"
  obtains (full) "free_slots s = {}" "alloc s = (0, s)"
    | (got) i where "i \<in> free_slots s" "fst (alloc s) = slot s i" "fst (alloc s) \<noteq> 0" "wf (snd (alloc s))"
        "slot (snd (alloc s)) = slot s" "free_slots (snd (alloc s)) = free_slots s - {i}"
proof (cases "free_slots s = {}")
  case True
  then show ?thesis using full alloc_none [OF assms] by (auto simp: free_slots_def)
next
  case False
  define i where "i = (LEAST i. i \<in> free_slots s)"
  have i: "i \<in> free_slots s" unfolding i_def using False by (metis LeastI ex_in_conv)
  have "used s j" if "j < i" for j
  proof -
    have "j < n" using that i by (simp add: free_slots_def)
    moreover have "j \<notin> free_slots s" using not_less_Least that unfolding i_def by blast
    ultimately show ?thesis by (simp add: free_slots_def)
  qed
  with alloc_some [OF assms, of i] i have "fst (alloc s) = slot s i" "wf (snd (alloc s))"
    "slot (snd (alloc s)) = slot s" "\<forall>j<n. used (snd (alloc s)) j \<longleftrightarrow> j = i \<or> used s j"
    by (auto simp: free_slots_def)
  moreover from this have "free_slots (snd (alloc s)) = free_slots s - {i}" by (auto simp: free_slots_def)
  ultimately show ?thesis using got [of i] i slot_nonnull [OF assms, of i] by (auto simp: free_slots_def)
qed

primrec alloc_many :: "nat \<Rightarrow> 's \<Rightarrow> ptr list" where
  "alloc_many 0 s = []"
| "alloc_many (Suc k) s = fst (alloc s) # alloc_many k (snd (alloc s))"

text \<open>Without frees in between, allocations never return the same slot twice, and as many succeed as
  there are free slots.\<close>

lemma alloc_many_fresh:
  "wf s \<Longrightarrow> k \<le> card (free_slots s) \<Longrightarrow>
   distinct (alloc_many k s) \<and> set (alloc_many k s) \<subseteq> slot s ` free_slots s \<and> 0 \<notin> set (alloc_many k s)"
proof (induction k arbitrary: s)
  case (Suc k)
  from Suc.prems(1) show ?case
  proof (cases rule: alloc_cases)
    case full
    with Suc.prems(2) show ?thesis by simp
  next
    case (got i)
    have "k \<le> card (free_slots (snd (alloc s)))" using got Suc.prems(2) by simp
    with Suc.IH [OF got(4)] have IH: "distinct (alloc_many k (snd (alloc s)))"
      "set (alloc_many k (snd (alloc s))) \<subseteq> slot s ` (free_slots s - {i})" "0 \<notin> set (alloc_many k (snd (alloc s)))"
      using got(5,6) by auto
    have "slot s i \<notin> slot s ` (free_slots s - {i})"
      using slot_inj [OF Suc.prems(1)] got(1) by (auto simp: free_slots_def)
    with IH got show ?thesis by auto
  qed
qed simp

end

lemma find_first:
  assumes "i < n" "P i" "\<And>j. j < i \<Longrightarrow> \<not> P j"
  shows "find P [0..<n] = Some i"
  unfolding find_Some_iff using assms by (intro exI [of _ i]) auto

lemma find_no: "(\<And>i. i < n \<Longrightarrow> \<not> P i) \<Longrightarrow> find P [0..<n] = None"
  by (auto simp: find_None_iff)

text \<open>
  All pools of the program are arrays that are searched from the front; only the arrays and the test
  for a free slot differ.
\<close>

lemma array_slot_pool:
  assumes arr: "\<And>L. layout_ok L \<Longrightarrow> array_ok (base L) (sz L) n"
    and alloc: "\<And>L k. alloc L k = (case find (\<lambda>i. \<not> used L k i) [0..<n] of
        Some i \<Rightarrow> (elem (base L) (sz L) i, tk L i k) | None \<Rightarrow> (0, k))"
    and tk: "\<And>L k i j. layout_ok L \<Longrightarrow> i < n \<Longrightarrow> j < n \<Longrightarrow> used L (tk L i k) j \<longleftrightarrow> j = i \<or> used L k j"
  shows "slot_pool (\<lambda>(L, k). layout_ok L) n (\<lambda>(L, k). elem (base L) (sz L)) (\<lambda>(L, k). used L k)
     (\<lambda>(L, k). map_prod id (Pair L) (alloc L k))"
proof (unfold_locales, goal_cases)
  case (1 s i j)
  then show ?case by (auto dest!: arr intro: elem_inj)
next
  case (2 s i)
  then show ?case using elem_nonnull by (auto dest!: arr)
next
  case (3 s i)
  obtain L k where s: "s = (L, k)" by (cases s)
  have "find (\<lambda>i. \<not> used L k i) [0..<n] = Some i" by (rule find_first) (use 3 s in auto)
  with 3 s tk show ?case by (auto simp: alloc)
next
  case (4 s)
  obtain L k where s: "s = (L, k)" by (cases s)
  have "find (\<lambda>i. \<not> used L k i) [0..<n] = None" by (rule find_no) (use 4 s in auto)
  with s show ?case by (simp add: alloc)
qed

lemma elem_eq_iff: "array_ok base sz n \<Longrightarrow> i < n \<Longrightarrow> j < n \<Longrightarrow> elem base sz i = elem base sz j \<longleftrightarrow> i = j"
  using elem_inj by blast

interpretation task_pool: slot_pool
  "\<lambda>(L, k). layout_ok L" N_TASKS "\<lambda>(L, k). elem (task_slots L) (sizeof_tcb L)"
  "\<lambda>(L, k) i. tcb_state (tcbs k (elem (task_slots L) (sizeof_tcb L) i)) \<notin> {TASK_UNUSED, TASK_FINISHED}"
  "\<lambda>(L, k). map_prod id (Pair L) (alloc_task L k)"
  by (rule array_slot_pool [where tk = "\<lambda>L i. upd_task (elem (task_slots L) (sizeof_tcb L) i)
        (\<lambda>t. t\<lparr>tcb_state := TASK_READY, stack_base := elem (task_stacks L) TASK_STACK_SIZE i,
           stack_size := TASK_STACK_SIZE\<rparr>)"])
    (auto simp: alloc_task_def layout_ok_def elem_eq_iff)

interpretation sem_pool: slot_pool
  "\<lambda>(L, k). layout_ok L" N_SEMAPHORES "\<lambda>(L, k). elem (sem_slots L) (sizeof_sem L)"
  "\<lambda>(L, k) i. sem_state (sems k (elem (sem_slots L) (sizeof_sem L) i)) \<noteq> SEM_UNUSED"
  "\<lambda>(L, k). map_prod id (Pair L) (alloc_sem L k)"
  by (rule array_slot_pool [where tk = "\<lambda>L i. upd_sem (elem (sem_slots L) (sizeof_sem L) i)
        (\<lambda>s. s\<lparr>sem_state := SEM_OPEN\<rparr>)"])
    (auto simp: alloc_sem_def layout_ok_def elem_eq_iff)

interpretation mutex_pool: slot_pool
  "\<lambda>(L, k). layout_ok L" N_MUTEXES "\<lambda>(L, k). elem (mutex_slots L) (sizeof_mutex L)"
  "\<lambda>(L, k) i. mutex_state (mutexes k (elem (mutex_slots L) (sizeof_mutex L) i)) \<noteq> SEM_UNUSED"
  "\<lambda>(L, k). map_prod id (Pair L) (alloc_mutex L k)"
  by (rule array_slot_pool [where tk = "\<lambda>L i. upd_mutex (elem (mutex_slots L) (sizeof_mutex L) i)
        (\<lambda>m. m\<lparr>mutex_state := SEM_OPEN\<rparr>)"])
    (auto simp: alloc_mutex_def layout_ok_def elem_eq_iff)

section \<open>Properties\<close>

text \<open>A layout like the one of the linker script: arrays in SRAM, word aligned.\<close>

definition ex_layout :: layout where
  "ex_layout = \<lparr>task_slots = 0x20000400, task_stacks = 0x20002000, sem_slots = 0x20001000,
     mutex_slots = 0x20000800, socket_slots = 0x20000300, sizeof_tcb = 56, sizeof_sem = 20,
     sizeof_mutex = 20, sizeof_socket = 8\<rparr>"

lemma ex_layout_ok: "layout_ok ex_layout"
  by (simp add: layout_ok_def array_ok_def ex_layout_def N_TASKS_def N_SEMAPHORES_def N_MUTEXES_def
      N_SOCKETS_def TASK_STACK_SIZE_def)

definition task_slot :: "layout \<Rightarrow> nat \<Rightarrow> ptr" where
  "task_slot L i = elem (task_slots L) (sizeof_tcb L) i"

definition free_task_slot :: "layout \<Rightarrow> kernel \<Rightarrow> nat \<Rightarrow> bool" where
  "free_task_slot L k i \<longleftrightarrow> i < N_TASKS \<and> tcb_state (tcbs k (task_slot L i)) \<in> {TASK_UNUSED, TASK_FINISHED}"

lemma create_task_some:
  assumes ok: "layout_ok L" and free: "free_task_slot L k i" "\<And>j. j < i \<Longrightarrow> \<not> free_task_slot L k j"
  shows "create_task L prio func args k = (task_slot L i,
     upd_task (task_slot L i) (\<lambda>t. t\<lparr>stack_base := elem (task_stacks L) TASK_STACK_SIZE i,
       stack_size := TASK_STACK_SIZE, tcb_function := func, tcb_args := args,
       tcb_sp := task_stack_init (elem (task_stacks L) TASK_STACK_SIZE i + TASK_STACK_SIZE),
       tcb_state := TASK_READY, base_priority := prio, effective_priority := prio, owned_mutexes := 0,
       unprivileged := 1, tcb_name := 0, tcb_next := 0, waiting_on := 0, waiting_on_type := NONE,
       wake_tick := 0\<rparr>) k)"
proof -
  have "find (\<lambda>i. tcb_state (tcbs k (elem (task_slots L) (sizeof_tcb L) i)) \<in> {TASK_UNUSED, TASK_FINISHED})
      [0..<N_TASKS] = Some i"
    by (rule find_first) (use free in \<open>auto simp: free_task_slot_def task_slot_def\<close>)
  moreover have "task_slot L i \<noteq> 0"
    using ok free elem_nonnull by (auto simp: layout_ok_def free_task_slot_def task_slot_def)
  ultimately show ?thesis
    by (simp add: create_task_def alloc_task_def task_slot_def upd_task_def)
qed

lemma initial_stack:
  assumes ok: "layout_ok L" and i: "i < N_TASKS"
  shows "unat (elem (task_stacks L) TASK_STACK_SIZE i) = unat (task_stacks L) + i * 2048"
    and "unat (task_stack_init (elem (task_stacks L) TASK_STACK_SIZE i + TASK_STACK_SIZE)) =
      unat (elem (task_stacks L) TASK_STACK_SIZE i) + (2048 - 68)"
proof -
  have st: "array_ok (task_stacks L) TASK_STACK_SIZE N_TASKS" "i < N_TASKS"
    using ok i by (auto simp: layout_ok_def)
  show base: "unat (elem (task_stacks L) TASK_STACK_SIZE i) = unat (task_stacks L) + i * 2048"
    using unat_elem [OF st(1), of i] st(2) by (simp add: TASK_STACK_SIZE_def)
  have "(i + 1) * 2048 \<le> N_TASKS * 2048" using st(2) by simp
  then have lt: "unat (elem (task_stacks L) TASK_STACK_SIZE i) + 2048 < 2 ^ 32"
    using st(1) base by (simp add: array_ok_def TASK_STACK_SIZE_def)
  have "unat (x + TASK_STACK_SIZE - 17 * 4) = unat x + (2048 - 68)" if "unat x + 2048 < 2 ^ 32" for x :: u32
  proof -
    have "x + TASK_STACK_SIZE - 17 * 4 = x + 1980" by (simp add: TASK_STACK_SIZE_def)
    moreover have "unat (x + 1980) = unat x + (2048 - 68)" using that by (simp add: unat_word_ariths)
    ultimately show ?thesis by (simp only:)
  qed
  then show "unat (task_stack_init (elem (task_stacks L) TASK_STACK_SIZE i + TASK_STACK_SIZE)) =
      unat (elem (task_stacks L) TASK_STACK_SIZE i) + (2048 - 68)"
    unfolding task_stack_init_def using lt by blast
qed

lemma task_slot_free_queue:
  "kernel_rep k Q \<Longrightarrow> free_task_slot L k i \<Longrightarrow> task_slot L i \<notin> set (Q l)"
  by (rule not_queued) (auto simp: free_task_slot_def place_of_def)

text \<open>Creating a task takes a free slot of the pool, if there is one, and gives the task the
  requested priority, a stack of its own with the initial frame on top, and no mutexes. It touches no
  queue and no other task; without a free slot it returns NULL and changes nothing.\<close>

theorem create_task_spec:
  assumes ok: "layout_ok L" and rep: "kernel_rep k Q"
  shows "\<exists>p k'. create_task L prio func args k = (p, k') \<and> kernel_rep k' Q \<and>
     (if \<exists>i. free_task_slot L k i
      then \<exists>i. free_task_slot L k i \<and> p = task_slot L i \<and> tcb_state (tcbs k' p) = TASK_READY \<and>
          base_priority (tcbs k' p) = prio \<and> effective_priority (tcbs k' p) = prio \<and>
          owned_mutexes (tcbs k' p) = 0 \<and> (\<forall>l. p \<notin> set (Q l)) \<and> (\<forall>x. x \<noteq> p \<longrightarrow> tcbs k' x = tcbs k x) \<and>
          unat (stack_base (tcbs k' p)) = unat (task_stacks L) + i * 2048 \<and>
          unat (tcb_sp (tcbs k' p)) = unat (stack_base (tcbs k' p)) + (2048 - 68)
      else p = 0 \<and> k' = k)"
proof (cases "\<exists>i. free_task_slot L k i")
  case True
  define i where "i = (LEAST i. free_task_slot L k i)"
  have i: "free_task_slot L k i" unfolding i_def using True by (rule LeastI_ex)
  have "\<not> free_task_slot L k j" if "j < i" for j using not_less_Least that unfolding i_def by blast
  note eq = create_task_some [OF ok i this]
  let ?p = "task_slot L i" and ?k = "snd (create_task L prio func args k)"
  have nin: "?p \<notin> set (Q l)" for l by (rule task_slot_free_queue [OF rep i])
  have same: "tcbs ?k x = tcbs k x" if "x \<noteq> ?p" for x using that by (simp add: eq)
  have qa: "queue_at ?k l = queue_at k l" for l by (cases l) (simp_all add: eq)
  have "kernel_rep ?k (Q(Ready := Q Ready))"
  proof (rule kernel_rep_step [OF rep, where t = ?p])
    show "place_ok ?k Ready (Q Ready)"
      using rep by (intro place_ok_frame [OF _ qa]) (auto simp: kernel_rep_def intro!: same dest: nin [THEN notE])
    show "queue_at ?k l = queue_at k l" if "l \<noteq> Ready" for l by (rule qa)
    show "tcbs ?k x = tcbs k x" if "x \<notin> insert ?p (set (Q Ready))" for x using that same by blast
    show "tcb_next (tcbs ?k x) = 0"
      if "x \<in> insert ?p (set (Q Ready))" "tcb_state (tcbs ?k x) = TASK_RUNNING" for x
    proof (cases "x = ?p")
      case True
      then show ?thesis by (simp add: eq)
    next
      case False
      with that show ?thesis using kernel_repD(4) [OF rep, of x] same [of x] by simp
    qed
  qed (rule nin)
  moreover have "unat (stack_base (tcbs ?k ?p)) = unat (task_stacks L) + i * 2048 \<and>
      unat (tcb_sp (tcbs ?k ?p)) = unat (stack_base (tcbs ?k ?p)) + (2048 - 68)"
    using initial_stack [OF ok, of i] i by (simp add: eq free_task_slot_def)
  moreover have "tcb_state (tcbs ?k ?p) = TASK_READY \<and> base_priority (tcbs ?k ?p) = prio \<and>
      effective_priority (tcbs ?k ?p) = prio \<and> owned_mutexes (tcbs ?k ?p) = 0" by (simp add: eq)
  moreover have "create_task L prio func args k = (?p, ?k)" by (simp add: eq)
  ultimately show ?thesis using True i nin same by (metis fun_upd_triv)
next
  case False
  then have "alloc_task L k = (0, k)"
    by (auto simp: alloc_task_def free_task_slot_def task_slot_def find_no)
  with False rep show ?thesis by (simp add: create_task_def)
qed

theorem create_task_spec_witness:
  "\<exists>k'. create_task ex_layout 3 0x8000101 0 zero_kernel = (0x20000400, k') \<and> kernel_rep k' (\<lambda>_. [])"
proof -
  have "free_task_slot ex_layout zero_kernel 0" by (simp add: free_task_slot_def N_TASKS_def)
  moreover have "fst (create_task ex_layout 3 0x8000101 0 zero_kernel) = 0x20000400"
    using create_task_some [OF ex_layout_ok calculation]
    by (simp add: task_slot_def elem_def ex_layout_def)
  ultimately show ?thesis
    using create_task_spec [OF ex_layout_ok zero_kernel_rep, of 3 "0x8000101" 0] by auto
qed

text \<open>Repeated allocation from the pools of tasks and semaphores.\<close>

fun alloc_tasks :: "layout \<Rightarrow> nat \<Rightarrow> kernel \<Rightarrow> ptr list" where
  "alloc_tasks L 0 k = []"
| "alloc_tasks L (Suc n) k = (let (p, k) = alloc_task L k in p # alloc_tasks L n k)"

fun alloc_sems :: "layout \<Rightarrow> nat \<Rightarrow> kernel \<Rightarrow> ptr list" where
  "alloc_sems L 0 k = []"
| "alloc_sems L (Suc n) k = (let (p, k) = alloc_sem L k in p # alloc_sems L n k)"

lemma alloc_tasks_many: "alloc_tasks L n k = task_pool.alloc_many n (L, k)"
  by (induction n arbitrary: k) (auto split: prod.splits)

lemma alloc_sems_many: "alloc_sems L n k = sem_pool.alloc_many n (L, k)"
  by (induction n arbitrary: k) (auto split: prod.splits)

text \<open>No slot is handed out twice: as many allocations in a row as there are free slots all
  succeed, with different slots.\<close>

theorem pools_never_reuse:
  assumes "layout_ok L"
  shows "(n \<le> card {i. i < N_TASKS \<and> tcb_state (tcbs k (task_slot L i)) \<in> {TASK_UNUSED, TASK_FINISHED}} \<longrightarrow>
       distinct (alloc_tasks L n k) \<and> 0 \<notin> set (alloc_tasks L n k)) \<and>
     (n \<le> card {i. i < N_SEMAPHORES \<and> sem_state (sems k (elem (sem_slots L) (sizeof_sem L) i)) = SEM_UNUSED} \<longrightarrow>
       distinct (alloc_sems L n k) \<and> 0 \<notin> set (alloc_sems L n k))"
  using task_pool.alloc_many_fresh [of "(L, k)" n] sem_pool.alloc_many_fresh [of "(L, k)" n] assms
  unfolding alloc_tasks_many alloc_sems_many task_pool.free_slots_def sem_pool.free_slots_def task_slot_def
  by simp

theorem pools_never_reuse_witness: "distinct (alloc_tasks ex_layout 8 zero_kernel)"
proof -
  have "{i. i < N_TASKS \<and> tcb_state (tcbs zero_kernel (task_slot ex_layout i)) \<in> {TASK_UNUSED, TASK_FINISHED}} = {..<8}"
    by (auto simp: N_TASKS_def)
  with pools_never_reuse [OF ex_layout_ok, of 8 zero_kernel] show ?thesis by (simp add: N_TASKS_def)
qed

text \<open>The check of a socket number is off by one: for number 8 the address behind the last of the
  eight sockets is returned.\<close>

theorem get_socket_past_end:
  assumes "layout_ok L"
  shows "get_socket L 8 \<noteq> 0 \<and>
     unat (get_socket L 8) = unat (socket_slots L) + N_SOCKETS * unat (sizeof_socket L) \<and>
     (\<forall>i<N_SOCKETS. get_socket L 8 \<noteq> elem (socket_slots L) (sizeof_socket L) i)"
proof -
  have arr: "array_ok (socket_slots L) (sizeof_socket L) N_SOCKETS" using assms by (simp add: layout_ok_def)
  have 8: "get_socket L 8 = elem (socket_slots L) (sizeof_socket L) N_SOCKETS"
    by (simp add: get_socket_def N_SOCKETS_def)
  have u: "unat (elem (socket_slots L) (sizeof_socket L) i) = unat (socket_slots L) + i * unat (sizeof_socket L)"
    if "i \<le> N_SOCKETS" for i using unat_elem [OF arr that] .
  have "elem (socket_slots L) (sizeof_socket L) N_SOCKETS \<noteq> elem (socket_slots L) (sizeof_socket L) i"
    if "i < N_SOCKETS" for i
  proof
    assume "elem (socket_slots L) (sizeof_socket L) N_SOCKETS = elem (socket_slots L) (sizeof_socket L) i"
    then have "N_SOCKETS * unat (sizeof_socket L) = i * unat (sizeof_socket L)"
      using u [of i] u [of N_SOCKETS] that by simp
    with arr that show False by (simp add: array_ok_def)
  qed
  with u [of N_SOCKETS] 8 arr show ?thesis by (auto simp: array_ok_def)
qed

theorem get_socket_past_end_witness: "unat (get_socket ex_layout 8) = 0x20000340"
  using get_socket_past_end [OF ex_layout_ok] by (simp add: ex_layout_def N_SOCKETS_def)

text \<open>The validation of object pointers only tests that the distance to the array is a multiple
  of the element size: it accepts every slot, but also addresses behind the array.\<close>

theorem validate_mutex_no_bound:
  assumes "layout_ok L" "i * unat (sizeof_mutex L) < 2 ^ 32"
  shows "validate_mutex L (elem (mutex_slots L) (sizeof_mutex L) i)"
proof -
  have "0 < unat (sizeof_mutex L)" using assms(1) by (simp add: layout_ok_def array_ok_def)
  then have "i \<le> i * unat (sizeof_mutex L)" by simp
  then have "i < 2 ^ 32" using assms(2) by linarith
  then have "unat (of_nat i :: u32) = i" by (simp add: unat_of_nat)
  then have "unat (of_nat i * sizeof_mutex L) = i * unat (sizeof_mutex L)"
    using assms(2) by (simp add: unat_word_ariths)
  then have "unat (of_nat i * sizeof_mutex L mod sizeof_mutex L) = 0" by (simp add: unat_mod)
  then show ?thesis by (simp add: validate_mutex_def elem_def unat_eq_zero)
qed

theorem validate_mutex_no_bound_witness:
  "validate_mutex ex_layout 0x20001390 \<and> 0x20001390 \<notin> elem (mutex_slots ex_layout) (sizeof_mutex ex_layout) ` {..<N_MUTEXES}"
proof -
  have "validate_mutex ex_layout 0x20001390"
    using validate_mutex_no_bound [OF ex_layout_ok, of 148] by (simp add: ex_layout_def elem_def)
  moreover have "unat (elem (mutex_slots ex_layout) (sizeof_mutex ex_layout) i) < 0x20001390" if "i < N_MUTEXES" for i
    using unat_elem [of "mutex_slots ex_layout" "sizeof_mutex ex_layout" N_MUTEXES i] ex_layout_ok that
    by (simp add: layout_ok_def ex_layout_def N_MUTEXES_def)
  ultimately show ?thesis by fastforce
qed

end
