(* ===== verification/Bus.thy ===== *)
theory Bus
  imports Prelude
begin

unbundle bit_operations_syntax

text \<open>
  Memory mapped registers and devices. The hardware is not part of the program: it is an argument
  \<open>bus\<close> of the driver operations, which reads and writes 32-bit words at addresses and changes the
  state \<open>'d\<close> of the devices. Reading may change the state as well (a data register is emptied by it).
\<close>

record 'd bus =
  bus_read :: "ptr \<Rightarrow> 'd \<Rightarrow> u32 \<times> 'd"
  bus_write :: "ptr \<Rightarrow> u32 \<Rightarrow> 'd \<Rightarrow> 'd"

text \<open>A compound assignment to a register, such as \<open>R |= bits\<close> or \<open>R &= ~bits\<close>.\<close>

definition bus_or :: "'d bus \<Rightarrow> ptr \<Rightarrow> u32 \<Rightarrow> 'd \<Rightarrow> 'd" where
  "bus_or bus a bits d = (let (v, d) = bus_read bus a d in bus_write bus a (v OR bits) d)"

definition bus_and :: "'d bus \<Rightarrow> ptr \<Rightarrow> u32 \<Rightarrow> 'd \<Rightarrow> 'd" where
  "bus_and bus a bits d = (let (v, d) = bus_read bus a d in bus_write bus a (v AND bits) d)"

end
