(* ===== verification/Flash.thy ===== *)
theory Flash
  imports Bus
begin

unbundle bit_operations_syntax

text \<open>
  The journal in flash memory (\<^verbatim>\<open>source/kernel/flash.c\<close>). The flash controller is reached over the bus;
  what the code relies on of it is the locale \<open>flash_hw\<close>: the key sequence unlocks it, starting an
  erase sets every word of the sector to ones, programming can only clear bits. The journal contract
  (appended words can be read back in order) is the locale \<open>journal\<close>, which \<open>flash_hw\<close> provides.
\<close>

section \<open>Registers and state\<close>

definition FLASH_KEYR :: ptr where "FLASH_KEYR = 0x40023C04"
definition FLASH_SR :: ptr where "FLASH_SR = 0x40023C0C"
definition FLASH_CR :: ptr where "FLASH_CR = 0x40023C10"

definition FLASH_SR_BUSY :: u32 where "FLASH_SR_BUSY = push_bit 16 1"
definition FLASH_CR_SER :: u32 where "FLASH_CR_SER = push_bit 1 1"
definition FLASH_CR_STRT :: u32 where "FLASH_CR_STRT = push_bit 16 1"
definition FLASH_CR_PG :: u32 where "FLASH_CR_PG = push_bit 0 1"
definition FLASH_CR_LOCK :: u32 where "FLASH_CR_LOCK = push_bit 31 1"
definition PSIZE_32 :: u32 where "PSIZE_32 = 2"
definition FLASH_CR_PSIZE_Pos :: nat where "FLASH_CR_PSIZE_Pos = 8"
definition FLASH_CR_SNB_Pos :: nat where "FLASH_CR_SNB_Pos = 3"
definition FLASH_JOURNAL_SECTOR :: u8 where "FLASH_JOURNAL_SECTOR = 3"
definition FLASH_KEYR_1 :: u32 where "FLASH_KEYR_1 = 0x45670123"
definition FLASH_KEYR_2 :: u32 where "FLASH_KEYR_2 = 0xCDEF89AB"

definition flash_sectors :: "ptr list" where
  "flash_sectors = [0x08000000, 0x08004000, 0x08008000, 0x0800C000, 0x08010000, 0x08020000, 0x08040000, 0x08060000]"

text \<open>The static variables of the driver and the state of the hardware.\<close>

record 'd flash_state =
  flash_sector_read_pointer :: "u32 list"
  flash_sector_write_pointer :: "u32 list"
  flash_dev :: 'd

definition flash_reset :: "'d \<Rightarrow> 'd flash_state" where
  "flash_reset d = \<lparr>flash_sector_read_pointer = replicate 8 0, flash_sector_write_pointer = replicate 8 0, flash_dev = d\<rparr>"

section \<open>Operations\<close>

text \<open>The loop that waits for the end of an operation; \<open>bsy\<close> is an 8-bit variable.\<close>

partial_function (option) flash_wait :: "'d bus \<Rightarrow> 'd \<Rightarrow> 'd option" where
  "flash_wait bus d =
     (let (sr, d) = bus_read bus FLASH_SR d; bsy = (ucast (sr AND FLASH_SR_BUSY) :: u8) in
      if bsy = 0 then Some d else flash_wait bus d)"

definition flash_unlock :: "'d bus \<Rightarrow> 'd \<Rightarrow> 'd" where
  "flash_unlock bus d = bus_write bus FLASH_KEYR FLASH_KEYR_2 (bus_write bus FLASH_KEYR FLASH_KEYR_1 d)"

definition flash_erase_sector :: "'d bus \<Rightarrow> u8 \<Rightarrow> 'd \<Rightarrow> 'd option" where
  "flash_erase_sector bus sector_number d =
     (if sector_number > 7 then Some d
      else do {
        d \<leftarrow> flash_wait bus (flash_unlock bus d);
        let d = bus_or bus FLASH_CR (push_bit FLASH_CR_PSIZE_Pos PSIZE_32) d;
        let d = bus_or bus FLASH_CR (push_bit FLASH_CR_SNB_Pos (ucast sector_number)) d;
        let d = bus_or bus FLASH_CR FLASH_CR_SER d;
        let d = bus_or bus FLASH_CR FLASH_CR_STRT d;
        d \<leftarrow> flash_wait bus d;
        let d = bus_and bus FLASH_CR (NOT (push_bit FLASH_CR_SNB_Pos 0)) d;
        let d = bus_and bus FLASH_CR (NOT FLASH_CR_SER) d;
        Some (bus_and bus FLASH_CR (NOT FLASH_CR_STRT) d)
      })"

definition flash_program_word :: "'d bus \<Rightarrow> u8 \<Rightarrow> u32 \<Rightarrow> 'd flash_state \<Rightarrow> 'd flash_state option" where
  "flash_program_word bus sector_number word s =
     (if sector_number > 7 then Some s
      else do {
        let sector = flash_sectors ! unat sector_number;
        let curr_pos = flash_sector_write_pointer s ! unat sector_number;
        d \<leftarrow> flash_wait bus (flash_dev s);
        let d = bus_or bus FLASH_CR (push_bit FLASH_CR_PSIZE_Pos PSIZE_32) d;
        let d = bus_or bus FLASH_CR FLASH_CR_PG d;
        let d = bus_write bus (sector + 4 * curr_pos) word d;
        d \<leftarrow> flash_wait bus d;
        let d = bus_and bus FLASH_CR (NOT FLASH_CR_PG) d;
        Some (s\<lparr>flash_dev := d, flash_sector_write_pointer :=
                (flash_sector_write_pointer s)[unat sector_number := curr_pos + 1]\<rparr>)
      })"

text \<open>The words of an argument \<open>data, len\<close> are a list.\<close>

fun program_words :: "'d bus \<Rightarrow> u8 \<Rightarrow> u32 list \<Rightarrow> 'd flash_state \<Rightarrow> 'd flash_state option" where
  "program_words bus n [] s = Some s"
| "program_words bus n (w # ws) s = do { s \<leftarrow> flash_program_word bus n w s; program_words bus n ws s }"

definition flash_append_journal :: "'d bus \<Rightarrow> u32 list \<Rightarrow> 'd flash_state \<Rightarrow> 'd flash_state option" where
  "flash_append_journal bus data s = do {
     s \<leftarrow> program_words bus FLASH_JOURNAL_SECTOR data (s\<lparr>flash_dev := flash_unlock bus (flash_dev s)\<rparr>);
     Some (s\<lparr>flash_dev := bus_or bus FLASH_CR FLASH_CR_LOCK (flash_dev s)\<rparr>)
   }"

definition flash_program_journal :: "'d bus \<Rightarrow> u32 list \<Rightarrow> 'd flash_state \<Rightarrow> 'd flash_state option" where
  "flash_program_journal bus data s = do {
     d \<leftarrow> flash_erase_sector bus FLASH_JOURNAL_SECTOR (flash_dev s);
     flash_append_journal bus data (s\<lparr>flash_dev := d\<rparr>)
   }"

fun read_words :: "'d bus \<Rightarrow> ptr \<Rightarrow> nat \<Rightarrow> 'd \<Rightarrow> u32 list \<times> 'd" where
  "read_words bus a 0 d = ([], d)"
| "read_words bus a (Suc n) d =
     (let (w, d) = bus_read bus a d; (ws, d) = read_words bus (a + 4) n d in (w # ws, d))"

definition flash_read_journal :: "'d bus \<Rightarrow> nat \<Rightarrow> 'd flash_state \<Rightarrow> u32 list \<times> 'd flash_state" where
  "flash_read_journal bus n_words s =
     (let journal_sector = flash_sectors ! unat FLASH_JOURNAL_SECTOR;
          curr_pos = flash_sector_read_pointer s ! unat FLASH_JOURNAL_SECTOR;
          (ws, d) = read_words bus (journal_sector + 4 * curr_pos) n_words (flash_dev s) in
      (ws, s\<lparr>flash_dev := d, flash_sector_read_pointer :=
              (flash_sector_read_pointer s)[unat FLASH_JOURNAL_SECTOR := curr_pos + of_nat n_words]\<rparr>))"

definition flash_journal_reset_read_pointer :: "'d flash_state \<Rightarrow> 'd flash_state" where
  "flash_journal_reset_read_pointer s =
     s\<lparr>flash_sector_read_pointer := (flash_sector_read_pointer s)[unat FLASH_JOURNAL_SECTOR := 0]\<rparr>"

definition flash_journal_reset_write_pointer :: "'d flash_state \<Rightarrow> 'd flash_state" where
  "flash_journal_reset_write_pointer s =
     s\<lparr>flash_sector_write_pointer := (flash_sector_write_pointer s)[unat FLASH_JOURNAL_SECTOR := 0]\<rparr>"

definition flash_journal_set_write_pointer :: "int \<Rightarrow> 'd flash_state \<Rightarrow> 'd flash_state" where
  "flash_journal_set_write_pointer pom s =
     s\<lparr>flash_sector_write_pointer := (flash_sector_write_pointer s)[unat FLASH_JOURNAL_SECTOR :=
         flash_sector_read_pointer s ! unat FLASH_JOURNAL_SECTOR + word_of_int pom]\<rparr>"

section \<open>The journal contract\<close>

text \<open>
  A journal of \<open>cap\<close> words: appending can only clear bits of the words at the write position,
  reprogramming erases first, and reading returns the words at the read position.
\<close>

locale journal =
  fixes inv :: "'s \<Rightarrow> bool" and content :: "'s \<Rightarrow> nat \<Rightarrow> u32" and wp rp :: "'s \<Rightarrow> nat" and cap :: nat
    and append program :: "u32 list \<Rightarrow> 's \<Rightarrow> 's option" and read :: "nat \<Rightarrow> 's \<Rightarrow> u32 list \<times> 's"
  assumes append_ok: "inv s \<Longrightarrow> wp s + length ws \<le> cap \<Longrightarrow>
        \<exists>s'. append ws s = Some s' \<and> inv s' \<and> wp s' = wp s + length ws \<and> rp s' = rp s \<and>
          content s' = (\<lambda>i. if i \<in> {wp s..<wp s + length ws} then content s i AND ws ! (i - wp s) else content s i)"
    and program_ok: "inv s \<Longrightarrow> wp s + length ws \<le> cap \<Longrightarrow>
        \<exists>s'. program ws s = Some s' \<and> inv s' \<and> wp s' = wp s + length ws \<and> rp s' = rp s \<and>
          (\<forall>i<cap. content s' i = (if i \<in> {wp s..<wp s + length ws} then ws ! (i - wp s) else - 1))"
    and read_ok: "inv s \<Longrightarrow> rp s + n \<le> cap \<Longrightarrow>
        \<exists>s'. read n s = (map (content s) [rp s..<rp s + n], s') \<and> inv s' \<and> content s' = content s \<and>
          rp s' = rp s + n \<and> wp s' = wp s"
begin

text \<open>The journal holds exactly the words \<open>ws\<close>, and is erased behind them.\<close>

definition holds :: "'s \<Rightarrow> u32 list \<Rightarrow> bool" where
  "holds s ws \<longleftrightarrow> inv s \<and> length ws \<le> cap \<and> (\<forall>i<cap. content s i = (if i < length ws then ws ! i else - 1))"

lemma program_holds:
  assumes "inv s" "wp s = 0" "length ws \<le> cap"
  shows "\<exists>s'. program ws s = Some s' \<and> holds s' ws \<and> wp s' = length ws \<and> rp s' = rp s"
  using program_ok [of s ws] assms by (auto simp: holds_def)

lemma append_holds:
  assumes "holds s ws" "wp s = length ws" "length ws + length vs \<le> cap"
  shows "\<exists>s'. append vs s = Some s' \<and> holds s' (ws @ vs) \<and> wp s' = length (ws @ vs) \<and> rp s' = rp s"
proof -
  obtain s' where s': "append vs s = Some s'" "inv s'" "wp s' = wp s + length vs" "rp s' = rp s"
    "content s' = (\<lambda>i. if i \<in> {wp s..<wp s + length vs} then content s i AND vs ! (i - wp s) else content s i)"
    using append_ok [of s vs] assms by (auto simp: holds_def)
  have "holds s' (ws @ vs)"
    using assms s'(2) by (auto simp: holds_def s'(5) nth_append)
  with s' assms(2) show ?thesis by auto
qed

lemma read_holds:
  assumes "holds s ws" "rp s + n \<le> length ws"
  shows "\<exists>s'. read n s = (take n (drop (rp s) ws), s') \<and> holds s' ws \<and> rp s' = rp s + n \<and> wp s' = wp s"
proof -
  have "map (content s) [rp s..<rp s + n] = take n (drop (rp s) ws)"
    using assms by (intro nth_equalityI) (auto simp: holds_def)
  then show ?thesis using read_ok [of s n] assms by (auto simp: holds_def)
qed

lemma read_behind:
  assumes "holds s ws" "rp s = length ws" "length ws + n \<le> cap"
  shows "\<exists>s'. read n s = (replicate n (- 1), s') \<and> holds s' ws \<and> rp s' = rp s + n \<and> wp s' = wp s"
proof -
  have "map (content s) [rp s..<rp s + n] = replicate n (- 1)"
    using assms by (intro nth_equalityI) (auto simp: holds_def)
  then show ?thesis using read_ok [of s n] assms by (auto simp: holds_def)
qed

end

section \<open>The flash controller\<close>

text \<open>
  What the code relies on of the hardware, following the reference manual of the controller: \<open>cell\<close> is
  the contents of the journal sector by words, \<open>cr\<close> the control register, in which bit 31 is the lock.
  The program runs from the same flash memory, so the processor is stalled until an erase or program
  operation has ended: the device finishes it before the next access.
\<close>

definition SECTOR_WORDS :: nat where "SECTOR_WORDS = 4096"

definition erase_command :: "u32 \<Rightarrow> bool" where
  "erase_command v \<longleftrightarrow> bit v 16 \<and> bit v 1 \<and> \<not> bit v 0 \<and> \<not> bit v 2 \<and> \<not> bit v 31 \<and>
     bit v 3 \<and> bit v 4 \<and> \<not> bit v 5 \<and> \<not> bit v 6 \<and> bit v 9 \<and> \<not> bit v 8"

definition program_mode :: "u32 \<Rightarrow> bool" where
  "program_mode v \<longleftrightarrow> bit v 0 \<and> \<not> bit v 1 \<and> \<not> bit v 2 \<and> \<not> bit v 31 \<and> bit v 9 \<and> \<not> bit v 8"

definition journal_address :: "nat \<Rightarrow> ptr" where
  "journal_address i = 0x0800C000 + 4 * of_nat i"

locale flash_hw =
  fixes bus :: "'d bus" and cell :: "'d \<Rightarrow> nat \<Rightarrow> u32" and cr :: "'d \<Rightarrow> u32"
  assumes status_read: "cell (snd (bus_read bus FLASH_SR d)) = cell d \<and> cr (snd (bus_read bus FLASH_SR d)) = cr d"
    and control_read: "fst (bus_read bus FLASH_CR d) = cr d \<and>
        cell (snd (bus_read bus FLASH_CR d)) = cell d \<and> cr (snd (bus_read bus FLASH_CR d)) = cr d"
    and unlocks: "cell (flash_unlock bus d) = cell d \<and> cr (flash_unlock bus d) = cr d AND NOT FLASH_CR_LOCK"
    and control_write: "\<not> bit (cr d) 31 \<Longrightarrow> \<not> bit v 16 \<Longrightarrow>
        cell (bus_write bus FLASH_CR v d) = cell d \<and> cr (bus_write bus FLASH_CR v d) = v"
    and erase: "\<not> bit (cr d) 31 \<Longrightarrow> erase_command v \<Longrightarrow>
        cell (bus_write bus FLASH_CR v d) = (\<lambda>i. if i < SECTOR_WORDS then - 1 else cell d i) \<and>
        cr (bus_write bus FLASH_CR v d) = v AND NOT FLASH_CR_STRT"
    and program_cell: "program_mode (cr d) \<Longrightarrow> i < SECTOR_WORDS \<Longrightarrow>
        cell (bus_write bus (journal_address i) w d) = (cell d)(i := cell d i AND w) \<and>
        cr (bus_write bus (journal_address i) w d) = cr d"
    and read_cell: "i < SECTOR_WORDS \<Longrightarrow> fst (bus_read bus (journal_address i) d) = cell d i \<and>
        cell (snd (bus_read bus (journal_address i) d)) = cell d \<and>
        cr (snd (bus_read bus (journal_address i) d)) = cr d"

lemma bit_flag: "n0 < 32 \<Longrightarrow> bit (push_bit n0 (1 :: u32)) n \<longleftrightarrow> n = n0"
  by (auto simp only: bit_push_bit_iff bit_1_iff possible_bit_word) auto

lemma flag_bits:
  "bit FLASH_SR_BUSY n \<longleftrightarrow> n = 16" "bit FLASH_CR_SER n \<longleftrightarrow> n = 1" "bit FLASH_CR_STRT n \<longleftrightarrow> n = 16"
  "bit FLASH_CR_PG n \<longleftrightarrow> n = 0" "bit FLASH_CR_LOCK n \<longleftrightarrow> n = 31"
  unfolding FLASH_SR_BUSY_def FLASH_CR_SER_def FLASH_CR_STRT_def FLASH_CR_PG_def FLASH_CR_LOCK_def
  by (subst bit_flag; simp)+

lemma field_bits:
  "bit (push_bit FLASH_CR_PSIZE_Pos PSIZE_32) n \<longleftrightarrow> n = 9"
  "bit (push_bit FLASH_CR_SNB_Pos (ucast FLASH_JOURNAL_SECTOR :: u32)) n \<longleftrightarrow> n = 3 \<or> n = 4"
proof -
  have "push_bit FLASH_CR_PSIZE_Pos PSIZE_32 = push_bit 9 1"
    by (simp add: FLASH_CR_PSIZE_Pos_def PSIZE_32_def)
  then show "bit (push_bit FLASH_CR_PSIZE_Pos PSIZE_32) n \<longleftrightarrow> n = 9" by (simp only: bit_flag)
  have "push_bit FLASH_CR_SNB_Pos (ucast FLASH_JOURNAL_SECTOR :: u32) = push_bit 3 1 OR push_bit 4 1"
    by (simp add: FLASH_CR_SNB_Pos_def FLASH_JOURNAL_SECTOR_def)
  then show "bit (push_bit FLASH_CR_SNB_Pos (ucast FLASH_JOURNAL_SECTOR :: u32)) n \<longleftrightarrow> n = 3 \<or> n = 4"
    by (simp only: bit_or_iff bit_flag)
qed

text \<open>
  The wait loop reads the status register once and returns, whatever the register says: the busy flag
  is bit 16 and is stored in an 8-bit variable.
\<close>

lemma flash_wait_once: "flash_wait bus d = Some (snd (bus_read bus FLASH_SR d))"
proof -
  have "(ucast (sr AND FLASH_SR_BUSY) :: u8) = 0" for sr :: u32
    by (rule bit_word_eqI) (simp add: flag_bits bit_simps)
  then show ?thesis by (subst flash_wait.simps) (simp add: case_prod_unfold)
qed

text \<open>The control register between operations; erasing leaves the sector number in it.\<close>

definition cr_idle :: "u32 \<Rightarrow> bool" where
  "cr_idle c \<longleftrightarrow> (\<forall>n \<in> {0, 1, 2, 5, 6, 8, 16}. \<not> bit c n)"

lemmas cr_bits = cr_idle_def erase_command_def program_mode_def flag_bits field_bits
  bit_or_iff bit_and_iff bit_not_iff_eq

definition flash_inv :: "('d \<Rightarrow> u32) \<Rightarrow> 'd flash_state \<Rightarrow> bool" where
  "flash_inv cr s \<longleftrightarrow> length (flash_sector_read_pointer s) = 8 \<and> length (flash_sector_write_pointer s) = 8 \<and>
     cr_idle (cr (flash_dev s))"

definition journal_rp :: "'d flash_state \<Rightarrow> nat" where
  "journal_rp s = unat (flash_sector_read_pointer s ! 3)"

definition journal_wp :: "'d flash_state \<Rightarrow> nat" where
  "journal_wp s = unat (flash_sector_write_pointer s ! 3)"

lemma journal_sector [simp]:
  "unat FLASH_JOURNAL_SECTOR = 3" "flash_sectors ! 3 = 0x0800C000" "\<not> FLASH_JOURNAL_SECTOR > 7"
  by (simp_all add: FLASH_JOURNAL_SECTOR_def flash_sectors_def)

lemma journal_address_word: "0x0800C000 + 4 * p = journal_address (unat p)"
  by (simp add: journal_address_def)

text \<open>The driver operations on a controller that behaves as documented.\<close>

context flash_hw
begin

lemma wait_view: "\<exists>d'. flash_wait bus d = Some d' \<and> cell d' = cell d \<and> cr d' = cr d"
  by (simp add: flash_wait_once status_read)

lemma or_view:
  assumes "\<not> bit (cr d) 31" "\<not> bit (cr d OR v) 16"
  shows "cell (bus_or bus FLASH_CR v d) = cell d" "cr (bus_or bus FLASH_CR v d) = cr d OR v"
  using assms control_read [of d] control_write [of "snd (bus_read bus FLASH_CR d)" "cr d OR v"]
  by (simp_all add: bus_or_def case_prod_unfold)

lemma and_view:
  assumes "\<not> bit (cr d) 31" "\<not> bit (cr d) 16"
  shows "cell (bus_and bus FLASH_CR v d) = cell d" "cr (bus_and bus FLASH_CR v d) = cr d AND v"
  using assms control_read [of d] control_write [of "snd (bus_read bus FLASH_CR d)" "cr d AND v"]
  by (simp_all add: bus_and_def case_prod_unfold bit_and_iff)

lemma start_erase_view:
  assumes "\<not> bit (cr d) 31" "erase_command (cr d OR FLASH_CR_STRT)"
  shows "cell (bus_or bus FLASH_CR FLASH_CR_STRT d) = (\<lambda>i. if i < SECTOR_WORDS then - 1 else cell d i)"
    "cr (bus_or bus FLASH_CR FLASH_CR_STRT d) = (cr d OR FLASH_CR_STRT) AND NOT FLASH_CR_STRT"
  using assms control_read [of d] erase [of "snd (bus_read bus FLASH_CR d)" "cr d OR FLASH_CR_STRT"]
  by (auto simp: bus_or_def case_prod_unfold fun_eq_iff)

lemma erase_journal:
  assumes "cr_idle (cr d)"
  shows "\<exists>d'. flash_erase_sector bus FLASH_JOURNAL_SECTOR d = Some d' \<and> cr_idle (cr d') \<and>
     cell d' = (\<lambda>i. if i < SECTOR_WORDS then - 1 else cell d i)"
proof -
  obtain d1 where d1: "flash_wait bus (flash_unlock bus d) = Some d1" "cell d1 = cell d"
    "cr d1 = cr d AND NOT FLASH_CR_LOCK"
    using wait_view [of "flash_unlock bus d"] unlocks [of d] by auto
  define d2 where "d2 = bus_or bus FLASH_CR (push_bit FLASH_CR_PSIZE_Pos PSIZE_32) d1"
  define d3 where "d3 = bus_or bus FLASH_CR (push_bit FLASH_CR_SNB_Pos (ucast FLASH_JOURNAL_SECTOR)) d2"
  define d4 where "d4 = bus_or bus FLASH_CR FLASH_CR_SER d3"
  define d5 where "d5 = bus_or bus FLASH_CR FLASH_CR_STRT d4"
  have d2: "cell d2 = cell d" "cr d2 = cr d1 OR push_bit FLASH_CR_PSIZE_Pos PSIZE_32"
    using assms d1 or_view [of d1 "push_bit FLASH_CR_PSIZE_Pos PSIZE_32"] by (auto simp: d2_def cr_bits)
  have d3: "cell d3 = cell d" "cr d3 = cr d2 OR push_bit FLASH_CR_SNB_Pos (ucast FLASH_JOURNAL_SECTOR)"
    using assms d1 d2 or_view [of d2 "push_bit FLASH_CR_SNB_Pos (ucast FLASH_JOURNAL_SECTOR)"]
    by (auto simp: d3_def cr_bits)
  have d4: "cell d4 = cell d" "cr d4 = cr d3 OR FLASH_CR_SER"
    using assms d1 d2 d3 or_view [of d3 FLASH_CR_SER] by (auto simp: d4_def cr_bits)
  have d5: "cell d5 = (\<lambda>i. if i < SECTOR_WORDS then - 1 else cell d i)"
    "cr d5 = (cr d4 OR FLASH_CR_STRT) AND NOT FLASH_CR_STRT"
    using assms d1 d2 d3 d4 start_erase_view [of d4] by (auto simp: d5_def cr_bits)
  obtain d6 where d6: "flash_wait bus d5 = Some d6" "cell d6 = cell d5" "cr d6 = cr d5"
    using wait_view [of d5] by blast
  define d7 where "d7 = bus_and bus FLASH_CR (NOT (push_bit FLASH_CR_SNB_Pos 0)) d6"
  define d8 where "d8 = bus_and bus FLASH_CR (NOT FLASH_CR_SER) d7"
  define d9 where "d9 = bus_and bus FLASH_CR (NOT FLASH_CR_STRT) d8"
  have d7: "cell d7 = cell d5" "cr d7 = cr d5"
    using assms d1 d2 d3 d4 d5 d6 and_view [of d6 "NOT (push_bit FLASH_CR_SNB_Pos 0)"] by (auto simp: d7_def cr_bits)
  have d8: "cell d8 = cell d5" "cr d8 = cr d5 AND NOT FLASH_CR_SER"
    using assms d1 d2 d3 d4 d5 d7 and_view [of d7 "NOT FLASH_CR_SER"] by (auto simp: d8_def cr_bits)
  have d9: "cell d9 = cell d5" "cr d9 = cr d8 AND NOT FLASH_CR_STRT"
    using assms d1 d2 d3 d4 d5 d8 and_view [of d8 "NOT FLASH_CR_STRT"] by (auto simp: d9_def cr_bits)
  have "flash_erase_sector bus FLASH_JOURNAL_SECTOR d = Some d9"
    by (simp add: flash_erase_sector_def d1 Let_def flip: d2_def d3_def d4_def d5_def)
      (simp add: d6 d7_def d8_def d9_def)
  moreover have "cr_idle (cr d9)" using assms by (auto simp: d9 d8 d5 d4 d3 d2 d1 cr_bits)
  ultimately show ?thesis using d9(1) d5(1) by auto
qed

lemma program_word:
  assumes inv: "flash_inv cr s" and open_: "\<not> bit (cr (flash_dev s)) 31" and wp: "journal_wp s < SECTOR_WORDS"
  shows "\<exists>s'. flash_program_word bus FLASH_JOURNAL_SECTOR w s = Some s' \<and> flash_inv cr s' \<and>
     \<not> bit (cr (flash_dev s')) 31 \<and> journal_wp s' = journal_wp s + 1 \<and> journal_rp s' = journal_rp s \<and>
     cell (flash_dev s') = (cell (flash_dev s))(journal_wp s := cell (flash_dev s) (journal_wp s) AND w)"
proof -
  let ?d = "flash_dev s" and ?i = "journal_wp s"
  have idle: "cr_idle (cr ?d)" using inv by (simp add: flash_inv_def)
  obtain d1 where d1: "flash_wait bus ?d = Some d1" "cell d1 = cell ?d" "cr d1 = cr ?d"
    using wait_view by blast
  define d2 where "d2 = bus_or bus FLASH_CR (push_bit FLASH_CR_PSIZE_Pos PSIZE_32) d1"
  define d3 where "d3 = bus_or bus FLASH_CR FLASH_CR_PG d2"
  define d4 where "d4 = bus_write bus (journal_address ?i) w d3"
  have d2: "cell d2 = cell ?d" "cr d2 = cr ?d OR push_bit FLASH_CR_PSIZE_Pos PSIZE_32"
    using idle open_ d1 or_view [of d1 "push_bit FLASH_CR_PSIZE_Pos PSIZE_32"] by (auto simp: d2_def cr_bits)
  have d3: "cell d3 = cell ?d" "cr d3 = cr d2 OR FLASH_CR_PG"
    using idle open_ d2 or_view [of d2 FLASH_CR_PG] by (auto simp: d3_def cr_bits)
  have d4: "cell d4 = (cell ?d)(?i := cell ?d ?i AND w)" "cr d4 = cr d3"
    using idle open_ d2 d3 wp program_cell [of d3 ?i w] by (auto simp: d4_def cr_bits)
  obtain d5 where d5: "flash_wait bus d4 = Some d5" "cell d5 = cell d4" "cr d5 = cr d4"
    using wait_view by blast
  define d6 where "d6 = bus_and bus FLASH_CR (NOT FLASH_CR_PG) d5"
  have d6: "cell d6 = cell d4" "cr d6 = cr d4 AND NOT FLASH_CR_PG"
    using idle open_ d2 d3 d4 d5 and_view [of d5 "NOT FLASH_CR_PG"] by (auto simp: d6_def cr_bits)
  have "flash_program_word bus FLASH_JOURNAL_SECTOR w s = Some (s\<lparr>flash_dev := d6, flash_sector_write_pointer :=
      (flash_sector_write_pointer s)[3 := flash_sector_write_pointer s ! 3 + 1]\<rparr>)"
    by (simp add: flash_program_word_def d1 Let_def journal_address_word flip: d2_def d3_def journal_wp_def d4_def)
      (simp add: d5 d6_def)
  moreover have "cr_idle (cr d6)" "\<not> bit (cr d6) 31" using idle open_ by (auto simp: d6 d4 d3 d2 cr_bits)
  moreover have "unat (flash_sector_write_pointer s ! 3 + 1) = ?i + 1"
    using wp by (simp add: journal_wp_def SECTOR_WORDS_def unat_word_ariths)
  ultimately show ?thesis using inv d6(1) d4(1) by (auto simp: flash_inv_def journal_wp_def journal_rp_def)
qed

lemma program_words_ok:
  assumes "flash_inv cr s" "\<not> bit (cr (flash_dev s)) 31" "journal_wp s + length ws \<le> SECTOR_WORDS"
  shows "\<exists>s'. program_words bus FLASH_JOURNAL_SECTOR ws s = Some s' \<and> flash_inv cr s' \<and>
     \<not> bit (cr (flash_dev s')) 31 \<and> journal_wp s' = journal_wp s + length ws \<and> journal_rp s' = journal_rp s \<and>
     cell (flash_dev s') = (\<lambda>i. if i \<in> {journal_wp s..<journal_wp s + length ws}
        then cell (flash_dev s) i AND ws ! (i - journal_wp s) else cell (flash_dev s) i)"
  using assms
proof (induction ws arbitrary: s)
  case Nil
  then show ?case by simp
next
  case (Cons w ws)
  obtain s1 where s1: "flash_program_word bus FLASH_JOURNAL_SECTOR w s = Some s1" "flash_inv cr s1"
    "\<not> bit (cr (flash_dev s1)) 31" "journal_wp s1 = journal_wp s + 1" "journal_rp s1 = journal_rp s"
    "cell (flash_dev s1) = (cell (flash_dev s))(journal_wp s := cell (flash_dev s) (journal_wp s) AND w)"
    using program_word [of s w] Cons.prems by auto
  obtain s2 where s2: "program_words bus FLASH_JOURNAL_SECTOR ws s1 = Some s2" "flash_inv cr s2"
    "\<not> bit (cr (flash_dev s2)) 31" "journal_wp s2 = journal_wp s1 + length ws" "journal_rp s2 = journal_rp s1"
    "cell (flash_dev s2) = (\<lambda>i. if i \<in> {journal_wp s1..<journal_wp s1 + length ws}
        then cell (flash_dev s1) i AND ws ! (i - journal_wp s1) else cell (flash_dev s1) i)"
    using Cons.IH [OF s1(2,3)] Cons.prems(3) s1(4) by auto
  show ?case using s1 s2 by (auto simp: fun_eq_iff nth_Cons')
qed

lemma append_words:
  assumes inv: "flash_inv cr s" and len: "journal_wp s + length ws \<le> SECTOR_WORDS"
  shows "\<exists>s'. flash_append_journal bus ws s = Some s' \<and> flash_inv cr s' \<and>
     journal_wp s' = journal_wp s + length ws \<and> journal_rp s' = journal_rp s \<and>
     cell (flash_dev s') = (\<lambda>i. if i \<in> {journal_wp s..<journal_wp s + length ws}
        then cell (flash_dev s) i AND ws ! (i - journal_wp s) else cell (flash_dev s) i)"
proof -
  define s0 where "s0 = s\<lparr>flash_dev := flash_unlock bus (flash_dev s)\<rparr>"
  have s0: "flash_inv cr s0" "\<not> bit (cr (flash_dev s0)) 31" "journal_wp s0 = journal_wp s"
    "journal_rp s0 = journal_rp s" "cell (flash_dev s0) = cell (flash_dev s)"
    using inv unlocks [of "flash_dev s"]
    by (auto simp: s0_def flash_inv_def cr_bits journal_wp_def journal_rp_def)
  obtain s1 where s1: "program_words bus FLASH_JOURNAL_SECTOR ws s0 = Some s1" "flash_inv cr s1"
    "\<not> bit (cr (flash_dev s1)) 31" "journal_wp s1 = journal_wp s + length ws" "journal_rp s1 = journal_rp s"
    "cell (flash_dev s1) = (\<lambda>i. if i \<in> {journal_wp s..<journal_wp s + length ws}
        then cell (flash_dev s) i AND ws ! (i - journal_wp s) else cell (flash_dev s) i)"
    using program_words_ok [OF s0(1,2), of ws, unfolded s0(3-5)] len by auto
  have lock: "cell (bus_or bus FLASH_CR FLASH_CR_LOCK (flash_dev s1)) = cell (flash_dev s1)"
    "cr_idle (cr (bus_or bus FLASH_CR FLASH_CR_LOCK (flash_dev s1)))"
    using s1(2,3) or_view [of "flash_dev s1" FLASH_CR_LOCK] by (auto simp: flash_inv_def cr_bits)
  show ?thesis using s1 lock
    by (auto simp: flash_append_journal_def flash_inv_def journal_wp_def journal_rp_def simp flip: s0_def)
qed

lemma program_journal_ok:
  assumes inv: "flash_inv cr s" and len: "journal_wp s + length ws \<le> SECTOR_WORDS"
  shows "\<exists>s'. flash_program_journal bus ws s = Some s' \<and> flash_inv cr s' \<and>
     journal_wp s' = journal_wp s + length ws \<and> journal_rp s' = journal_rp s \<and>
     (\<forall>i<SECTOR_WORDS. cell (flash_dev s') i =
        (if i \<in> {journal_wp s..<journal_wp s + length ws} then ws ! (i - journal_wp s) else - 1))"
proof -
  obtain d where d: "flash_erase_sector bus FLASH_JOURNAL_SECTOR (flash_dev s) = Some d" "cr_idle (cr d)"
    "cell d = (\<lambda>i. if i < SECTOR_WORDS then - 1 else cell (flash_dev s) i)"
    using erase_journal inv by (auto simp: flash_inv_def)
  have s0: "flash_inv cr (s\<lparr>flash_dev := d\<rparr>)" "journal_wp (s\<lparr>flash_dev := d\<rparr>) = journal_wp s"
    "journal_rp (s\<lparr>flash_dev := d\<rparr>) = journal_rp s"
    using inv d(2) by (simp_all add: flash_inv_def journal_wp_def journal_rp_def)
  then show ?thesis
    using append_words [OF s0(1), of ws] len d by (auto simp: flash_program_journal_def)
qed

lemma read_words_ok:
  assumes "i + n \<le> SECTOR_WORDS"
  shows "\<exists>d'. read_words bus (journal_address i) n d = (map (cell d) [i..<i + n], d') \<and>
     cell d' = cell d \<and> cr d' = cr d"
  using assms
proof (induction n arbitrary: i d)
  case (Suc n)
  have "journal_address i + 4 = journal_address (i + 1)" by (simp add: journal_address_def)
  moreover have "[i..<i + Suc n] = i # [i + 1..<i + 1 + n]" by (simp add: upt_conv_Cons del: upt_Suc)
  ultimately show ?case using Suc.IH [of "i + 1" "snd (bus_read bus (journal_address i) d)"] read_cell [of i d] Suc.prems
    by (auto simp: case_prod_unfold Let_def simp del: upt_Suc)
qed simp

lemma read_journal_ok:
  assumes inv: "flash_inv cr s" and len: "journal_rp s + n \<le> SECTOR_WORDS"
  shows "\<exists>s'. flash_read_journal bus n s =
       (map (cell (flash_dev s)) [journal_rp s..<journal_rp s + n], s') \<and> flash_inv cr s' \<and>
     cell (flash_dev s') = cell (flash_dev s) \<and> journal_rp s' = journal_rp s + n \<and> journal_wp s' = journal_wp s"
proof -
  have "unat (flash_sector_read_pointer s ! 3 + of_nat n) = journal_rp s + n"
    using len by (simp add: journal_rp_def SECTOR_WORDS_def unat_word_ariths unat_of_nat)
  then show ?thesis using inv read_words_ok [OF len, of "flash_dev s"]
    by (auto simp: flash_read_journal_def journal_address_word flash_inv_def journal_wp_def
        simp flip: journal_rp_def split: prod.splits) (simp_all add: journal_rp_def)
qed

end

sublocale flash_hw \<subseteq> journal "flash_inv cr" "\<lambda>s. cell (flash_dev s)" journal_wp journal_rp SECTOR_WORDS
  "flash_append_journal bus" "flash_program_journal bus" "flash_read_journal bus"
  by unfold_locales (use append_words program_journal_ok read_journal_ok in \<open>simp_all\<close>)

lemma pointer_ops [simp]:
  assumes "flash_inv cr s"
  shows "flash_inv cr (flash_journal_reset_write_pointer s)" "journal_wp (flash_journal_reset_write_pointer s) = 0"
    "journal_rp (flash_journal_reset_write_pointer s) = journal_rp s"
    "flash_inv cr (flash_journal_reset_read_pointer s)" "journal_rp (flash_journal_reset_read_pointer s) = 0"
    "journal_wp (flash_journal_reset_read_pointer s) = journal_wp s"
    "flash_inv cr (flash_journal_set_write_pointer pom s)"
    "journal_rp (flash_journal_set_write_pointer pom s) = journal_rp s"
  using assms by (simp_all add: flash_inv_def journal_wp_def journal_rp_def flash_journal_reset_write_pointer_def
      flash_journal_reset_read_pointer_def flash_journal_set_write_pointer_def)

lemma pointer_ops_dev [simp]:
  "flash_dev (flash_journal_reset_write_pointer s) = flash_dev s"
  "flash_dev (flash_journal_reset_read_pointer s) = flash_dev s"
  "flash_dev (flash_journal_set_write_pointer pom s) = flash_dev s"
  by (simp_all add: flash_journal_reset_write_pointer_def flash_journal_reset_read_pointer_def
      flash_journal_set_write_pointer_def)

text \<open>The journal sector holds exactly the words \<open>ws\<close>, written out for the views of a controller.\<close>

definition journal_holds :: "('d \<Rightarrow> nat \<Rightarrow> u32) \<Rightarrow> ('d \<Rightarrow> u32) \<Rightarrow> 'd flash_state \<Rightarrow> u32 list \<Rightarrow> bool" where
  "journal_holds cell cr s ws \<longleftrightarrow> flash_inv cr s \<and> length ws \<le> SECTOR_WORDS \<and>
     (\<forall>i<SECTOR_WORDS. cell (flash_dev s) i = (if i < length ws then ws ! i else - 1))"

context flash_hw
begin

lemma holds_iff: "holds s ws \<longleftrightarrow> journal_holds cell cr s ws"
  by (simp add: holds_def journal_holds_def)

lemma holds_pointer_ops [simp]:
  assumes "holds s ws"
  shows "holds (flash_journal_reset_write_pointer s) ws" "holds (flash_journal_reset_read_pointer s) ws"
    "holds (flash_journal_set_write_pointer pom s) ws"
  using assms by (auto simp: holds_def)

lemma write_then_read:
  assumes inv: "flash_inv cr s" and len: "length hdr + length ws \<le> SECTOR_WORDS"
  shows "\<exists>s1 s2 s3. flash_program_journal bus hdr (flash_journal_reset_write_pointer s) = Some s1 \<and>
     flash_append_journal bus ws s1 = Some s2 \<and>
     flash_read_journal bus (length hdr + length ws) (flash_journal_reset_read_pointer s2) = (hdr @ ws, s3)"
proof -
  obtain s1 where s1: "flash_program_journal bus hdr (flash_journal_reset_write_pointer s) = Some s1"
    "holds s1 hdr" "journal_wp s1 = length hdr"
    using program_holds [of "flash_journal_reset_write_pointer s" hdr] inv len by auto
  obtain s2 where s2: "flash_append_journal bus ws s1 = Some s2" "holds s2 (hdr @ ws)"
    using append_holds [OF s1(2,3) len] by blast
  have "flash_inv cr s2" using s2(2) by (simp add: holds_def)
  with s1 s2 read_holds [of "flash_journal_reset_read_pointer s2" "hdr @ ws" "length hdr + length ws"]
  show ?thesis by auto
qed

end

section \<open>A controller that behaves as documented\<close>

record flash_chip =
  chip_cells :: "nat \<Rightarrow> u32"
  chip_cr :: u32
  chip_key :: bool

definition cell_index :: "ptr \<Rightarrow> nat" where
  "cell_index a = unat (a - 0x0800C000) div 4"

definition chip_write :: "ptr \<Rightarrow> u32 \<Rightarrow> flash_chip \<Rightarrow> flash_chip" where
  "chip_write a v d =
     (if a = FLASH_KEYR then
        if v = FLASH_KEYR_1 then d\<lparr>chip_key := True\<rparr>
        else if v = FLASH_KEYR_2 \<and> chip_key d
          then d\<lparr>chip_key := False, chip_cr := chip_cr d AND NOT FLASH_CR_LOCK\<rparr>
        else d
      else if a = FLASH_CR then
        if bit (chip_cr d) 31 then d
        else if erase_command v
          then d\<lparr>chip_cells := (\<lambda>i. if i < SECTOR_WORDS then - 1 else chip_cells d i),
                 chip_cr := v AND NOT FLASH_CR_STRT\<rparr>
        else d\<lparr>chip_cr := v\<rparr>
      else if cell_index a < SECTOR_WORDS \<and> program_mode (chip_cr d)
        then d\<lparr>chip_cells := (chip_cells d)(cell_index a := chip_cells d (cell_index a) AND v)\<rparr>
      else d)"

definition chip_read :: "ptr \<Rightarrow> flash_chip \<Rightarrow> u32 \<times> flash_chip" where
  "chip_read a d =
     (if a = FLASH_CR then (chip_cr d, d)
      else if a = FLASH_SR \<or> a = FLASH_KEYR then (0, d)
      else if cell_index a < SECTOR_WORDS then (chip_cells d (cell_index a), d)
      else (0, d))"

definition chip_bus :: "flash_chip bus" where
  "chip_bus = \<lparr>bus_read = chip_read, bus_write = chip_write\<rparr>"

lemma journal_address_simps [simp]:
  assumes "i < SECTOR_WORDS"
  shows "cell_index (journal_address i) = i" "journal_address i \<noteq> FLASH_CR" "journal_address i \<noteq> FLASH_SR"
    "journal_address i \<noteq> FLASH_KEYR"
proof -
  have i: "i < 4096" using assms by (simp add: SECTOR_WORDS_def)
  then have "unat (4 * of_nat i :: u32) = 4 * i" by (simp add: unat_word_ariths unat_of_nat)
  then have *: "unat (journal_address i - 0x0800C000) = 4 * i" by (simp add: journal_address_def)
  then show "cell_index (journal_address i) = i" by (simp add: cell_index_def)
  show "journal_address i \<noteq> FLASH_CR" "journal_address i \<noteq> FLASH_SR" "journal_address i \<noteq> FLASH_KEYR"
    using * i by (auto simp: FLASH_CR_def FLASH_SR_def FLASH_KEYR_def)
qed

lemma register_addresses [simp]:
  "FLASH_KEYR \<noteq> FLASH_CR" "FLASH_CR \<noteq> FLASH_KEYR" "FLASH_SR \<noteq> FLASH_CR" "FLASH_KEYR_2 \<noteq> FLASH_KEYR_1"
  by (simp_all add: FLASH_KEYR_def FLASH_CR_def FLASH_SR_def FLASH_KEYR_1_def FLASH_KEYR_2_def)

interpretation chip: flash_hw chip_bus chip_cells chip_cr
  by unfold_locales (auto simp: chip_bus_def chip_write_def chip_read_def flash_unlock_def erase_command_def)

section \<open>Properties\<close>

text \<open>C17: On a flash controller that behaves as documented, reprogramming the journal and then
  appending to it always returns, and reading from the start gives back exactly the words written, in
  order, as long as they fit into the sector.\<close>

theorem journal_roundtrip:
  assumes hw: "flash_hw bus cell cr" and inv: "flash_inv cr s"
    and len: "length hdr + length ws \<le> SECTOR_WORDS"
  shows "\<exists>s1 s2 s3. flash_program_journal bus hdr (flash_journal_reset_write_pointer s) = Some s1 \<and>
     flash_append_journal bus ws s1 = Some s2 \<and>
     flash_read_journal bus (length hdr + length ws) (flash_journal_reset_read_pointer s2) = (hdr @ ws, s3)"
  by (rule flash_hw.write_then_read [OF hw inv len])

theorem journal_roundtrip_witness:
  "\<exists>s1 s2 s3. flash_program_journal chip_bus [1, 2] (flash_journal_reset_write_pointer (flash_reset
       \<lparr>chip_cells = (\<lambda>_. 7), chip_cr = FLASH_CR_LOCK, chip_key = False\<rparr>)) = Some s1 \<and>
     flash_append_journal chip_bus [3] s1 = Some s2 \<and>
     flash_read_journal chip_bus 3 (flash_journal_reset_read_pointer s2) = ([1, 2, 3], s3)"
  using journal_roundtrip [OF chip.flash_hw_axioms, of "flash_reset
       \<lparr>chip_cells = (\<lambda>_. 7), chip_cr = FLASH_CR_LOCK, chip_key = False\<rparr>" "[1, 2]" "[3]"]
  by (simp add: flash_inv_def flash_reset_def cr_bits SECTOR_WORDS_def numeral_3_eq_3)

end
