(* ===== verification/Buffers.thy ===== *)
theory Buffers
  imports Prelude
begin

unbundle bit_operations_syntax

text \<open>
  Arrays with checked accesses, for code that works on arrays of known extent: an access outside
  the array is \<open>None\<close>. That an operation returns \<open>Some\<close> is therefore a statement of memory safety.
\<close>

definition fetch :: "'a list \<Rightarrow> nat \<Rightarrow> 'a option" where
  "fetch buf i = (if i < length buf then Some (buf ! i) else None)"

definition slice :: "u8 list \<Rightarrow> nat \<Rightarrow> nat \<Rightarrow> u8 list option" where
  "slice buf i n = (if i + n \<le> length buf then Some (take n (drop i buf)) else None)"

definition poke :: "'a list \<Rightarrow> nat \<Rightarrow> 'a \<Rightarrow> 'a list option" where
  "poke buf i v = (if i < length buf then Some (buf[i := v]) else None)"

text \<open>\<open>memcpy(buf + i, bs, length bs)\<close>.\<close>

definition blit :: "u8 list \<Rightarrow> nat \<Rightarrow> u8 list \<Rightarrow> u8 list option" where
  "blit buf i bs =
     (if i + length bs \<le> length buf then Some (take i buf @ bs @ drop (i + length bs) buf) else None)"

text \<open>A sequence of assignments to single elements.\<close>

fun pokes :: "u8 list \<Rightarrow> (nat \<times> u8) list \<Rightarrow> u8 list option" where
  "pokes buf [] = Some buf"
| "pokes buf ((i, v) # ivs) = do { buf \<leftarrow> poke buf i v; pokes buf ivs }"

lemma fetch_Some [simp]: "i < length buf \<Longrightarrow> fetch buf i = Some (buf ! i)"
  by (simp add: fetch_def)

lemma slice_Some [simp]: "i + n \<le> length buf \<Longrightarrow> slice buf i n = Some (take n (drop i buf))"
  by (simp add: slice_def)

lemma poke_Some [simp]: "i < length buf \<Longrightarrow> poke buf i v = Some (buf[i := v])"
  by (simp add: poke_def)

lemma blit_Some [simp]:
  "i + length bs \<le> length buf \<Longrightarrow> blit buf i bs = Some (take i buf @ bs @ drop (i + length bs) buf)"
  by (simp add: blit_def)

lemma first_Some [simp]:
  "buf \<noteq> [] \<Longrightarrow> fetch buf 0 = Some (buf ! 0)" "buf \<noteq> [] \<Longrightarrow> poke buf 0 v = Some (buf[0 := v])"
  by (simp_all add: fetch_def poke_def)

lemma slice_length: "slice buf i n = Some bs \<Longrightarrow> length bs = n"
  by (auto simp: slice_def split: if_splits)

lemma poke_length: "poke buf i v = Some buf' \<Longrightarrow> length buf' = length buf"
  by (auto simp: poke_def split: if_splits)

lemma blit_length: "blit buf i bs = Some buf' \<Longrightarrow> length buf' = length buf"
  by (auto simp: blit_def split: if_splits)

text \<open>What a copy does to the elements.\<close>

lemma blit_nth:
  assumes "i + length bs \<le> length buf" "j < length buf"
  shows "(take i buf @ bs @ drop (i + length bs) buf) ! j =
     (if i \<le> j \<and> j < i + length bs then bs ! (j - i) else buf ! j)"
  using assms by (auto simp: nth_append min_def)

lemma pokes_Some:
  "(\<And>i v. (i, v) \<in> set ivs \<Longrightarrow> i < length buf) \<Longrightarrow>
   pokes buf ivs = Some (fold (\<lambda>(i, v) b. b[i := v]) ivs buf)"
proof (induction ivs arbitrary: buf)
  case (Cons iv ivs)
  obtain i v where iv: "iv = (i, v)" by (cases iv)
  with Cons.prems have "i < length buf" by auto
  moreover have "pokes (buf[i := v]) ivs = Some (fold (\<lambda>(i, v) b. b[i := v]) ivs (buf[i := v]))"
    by (rule Cons.IH) (use Cons.prems in auto)
  ultimately show ?case by (simp add: iv)
qed simp

section \<open>Words in memory, low byte first\<close>

definition word_of_bytes :: "u8 \<Rightarrow> u8 \<Rightarrow> u8 \<Rightarrow> u8 \<Rightarrow> u32" where
  "word_of_bytes a b c d =
     ucast a OR push_bit 8 (ucast b) OR push_bit 16 (ucast c) OR push_bit 24 (ucast d)"

definition bytes_of_word :: "u32 \<Rightarrow> u8 list" where
  "bytes_of_word w = [ucast w, ucast (drop_bit 8 w), ucast (drop_bit 16 w), ucast (drop_bit 24 w)]"

fun words_of_bytes :: "u8 list \<Rightarrow> u32 list" where
  "words_of_bytes (a # b # c # d # bs) = word_of_bytes a b c d # words_of_bytes bs"
| "words_of_bytes _ = []"

definition bytes_of_words :: "u32 list \<Rightarrow> u8 list" where
  "bytes_of_words ws = concat (map bytes_of_word ws)"

lemma length_bytes_of_words [simp]: "length (bytes_of_words ws) = 4 * length ws"
  by (induction ws) (simp_all add: bytes_of_words_def bytes_of_word_def)

lemma bytes_of_words_append [simp]: "bytes_of_words (vs @ ws) = bytes_of_words vs @ bytes_of_words ws"
  by (simp add: bytes_of_words_def)

lemma bit_u8: "bit (a :: u8) n \<Longrightarrow> n < 8"
  by (auto dest: bit_imp_le_length)

lemma bytes_of_word_of_bytes [simp]: "bytes_of_word (word_of_bytes a b c d) = [a, b, c, d]"
  unfolding bytes_of_word_def word_of_bytes_def
  by (intro list.inject [THEN iffD2] conjI refl bit_word_eqI) (auto simp: bit_simps dest: bit_u8)

lemma word_of_bytes_of_word:
  "word_of_bytes (ucast w) (ucast (drop_bit 8 w)) (ucast (drop_bit 16 w)) (ucast (drop_bit 24 w)) = w"
  unfolding word_of_bytes_def
proof (rule bit_word_eqI)
  fix n :: nat assume "n < LENGTH(32)"
  then consider "n < 8" | "8 \<le> n" "n < 16" | "16 \<le> n" "n < 24" | "24 \<le> n" "n < 32" by fastforce
  then show "bit (ucast (ucast w :: u8) OR push_bit 8 (ucast (ucast (drop_bit 8 w) :: u8)) OR
      push_bit 16 (ucast (ucast (drop_bit 16 w) :: u8)) OR push_bit 24 (ucast (ucast (drop_bit 24 w) :: u8)) :: u32) n =
      bit w n"
    by cases (auto simp: bit_simps)
qed

lemma bytes_of_words_of_bytes: "length bs = 4 * n \<Longrightarrow> bytes_of_words (words_of_bytes bs) = bs"
proof (induction n arbitrary: bs)
  case (Suc n)
  then have "4 \<le> length bs" by simp
  then obtain a b c d cs where bs: "bs = a # b # c # d # cs"
    by (metis (no_types, opaque_lifting) One_nat_def Suc_le_length_iff numeral_eq_Suc pred_numeral_simps(2,3) semiring_norm(26,27))
  with Suc show ?case by (simp add: bytes_of_words_def)
qed (simp add: bytes_of_words_def)

lemma length_words_of_bytes: "length bs = 4 * n \<Longrightarrow> length (words_of_bytes bs) = n"
  using bytes_of_words_of_bytes [of bs n] length_bytes_of_words [of "words_of_bytes bs"] by simp

end
