(* ===== verification/Dhcp_Message.thy ===== *)
theory Dhcp_Message
  imports Buffers
begin

unbundle bit_operations_syntax

text \<open>
  Parsing and building of DHCP messages (\<^verbatim>\<open>source/user/dhcp.c\<close>, first half). Buffers are byte lists and
  every access is checked, so that \<open>Some\<close> means that the code stayed inside its buffers; pointer
  arguments the code compares with NULL are of option type.
\<close>

section \<open>Data\<close>

definition DHCP_DEFAULT_LENGTH :: u16 where "DHCP_DEFAULT_LENGTH = 240"
definition DHCP_OPTIONS_START :: u16 where "DHCP_OPTIONS_START = 240"
definition DHCP_SERVER_PORT :: u16 where "DHCP_SERVER_PORT = 6767"
definition DHCP_CLIENT_PORT :: u16 where "DHCP_CLIENT_PORT = 6868"
definition CID_CAP :: u8 where "CID_CAP = 16"
definition LEASE_KEY_CAP :: u8 where "LEASE_KEY_CAP = 16"

definition BOOTREQUEST :: u8 where "BOOTREQUEST = 1"
definition BOOTREPLY :: u8 where "BOOTREPLY = 2"

definition DHCP_OPT_PAD :: u8 where "DHCP_OPT_PAD = 0"
definition DHCP_OPT_SUBNET_MASK :: u8 where "DHCP_OPT_SUBNET_MASK = 1"
definition DHCP_OPT_ROUTER :: u8 where "DHCP_OPT_ROUTER = 3"
definition DHCP_OPT_DNS :: u8 where "DHCP_OPT_DNS = 6"
definition DHCP_OPT_BROADCAST_ADDR :: u8 where "DHCP_OPT_BROADCAST_ADDR = 28"
definition DHCP_OPT_REQUESTED_IP :: u8 where "DHCP_OPT_REQUESTED_IP = 50"
definition DHCP_OPT_LEASE_TIME :: u8 where "DHCP_OPT_LEASE_TIME = 51"
definition DHCP_OPT_MESSAGE_TYPE :: u8 where "DHCP_OPT_MESSAGE_TYPE = 53"
definition DHCP_OPT_SERVER_ID :: u8 where "DHCP_OPT_SERVER_ID = 54"
definition DHCP_OPT_PARAMETER_REQUEST_LIST :: u8 where "DHCP_OPT_PARAMETER_REQUEST_LIST = 55"
definition DHCP_OPT_CLIENT_ID :: u8 where "DHCP_OPT_CLIENT_ID = 61"
definition DHCP_OPT_EXIT :: u8 where "DHCP_OPT_EXIT = 255"

definition DHCP_MSG_DISCOVER :: u8 where "DHCP_MSG_DISCOVER = 1"
definition DHCP_MSG_OFFER :: u8 where "DHCP_MSG_OFFER = 2"
definition DHCP_MSG_REQUEST :: u8 where "DHCP_MSG_REQUEST = 3"
definition DHCP_MSG_DECLINE :: u8 where "DHCP_MSG_DECLINE = 4"
definition DHCP_MSG_ACK :: u8 where "DHCP_MSG_ACK = 5"
definition DHCP_MSG_RELEASE :: u8 where "DHCP_MSG_RELEASE = 7"

lemmas dhcp_consts = DHCP_DEFAULT_LENGTH_def DHCP_OPTIONS_START_def DHCP_SERVER_PORT_def DHCP_CLIENT_PORT_def
  CID_CAP_def LEASE_KEY_CAP_def BOOTREQUEST_def BOOTREPLY_def DHCP_OPT_PAD_def DHCP_OPT_SUBNET_MASK_def
  DHCP_OPT_ROUTER_def DHCP_OPT_DNS_def DHCP_OPT_BROADCAST_ADDR_def DHCP_OPT_REQUESTED_IP_def
  DHCP_OPT_LEASE_TIME_def DHCP_OPT_MESSAGE_TYPE_def DHCP_OPT_SERVER_ID_def
  DHCP_OPT_PARAMETER_REQUEST_LIST_def DHCP_OPT_CLIENT_ID_def DHCP_OPT_EXIT_def DHCP_MSG_DISCOVER_def
  DHCP_MSG_OFFER_def DHCP_MSG_REQUEST_def DHCP_MSG_DECLINE_def DHCP_MSG_ACK_def DHCP_MSG_RELEASE_def

record dhcp_msg_t =
  msg_op :: u8
  htype :: u8
  hlen :: u8
  hops :: u8
  xid :: "u8 list"
  secs :: u16
  flags :: u16
  broadcast_flag :: bool
  ciaddr :: "u8 list"
  yiaddr :: "u8 list"
  siaddr :: "u8 list"
  giaddr :: "u8 list"
  chaddr :: "u8 list"
  requested_ip :: "u8 list"
  has_requested_ip :: bool
  message_type :: u8
  has_message_type :: bool
  msg_server_id :: "u8 list"
  has_server_id :: bool
  client_id :: "u8 list"
  client_id_len :: u8
  has_client_id :: bool
  requested_bitmap :: "u8 list"
  lease_key :: "u8 list"
  lease_key_length :: u8

record dhcp_cfg_t =
  cfg_start_addr :: "u8 list"
  cfg_end_addr :: "u8 list"
  cfg_server_id :: "u8 list"
  lease_time :: u32
  subnet_mask :: "u8 list"
  router :: "u8 list"
  dns :: "u8 list"
  broadcast_addr :: "u8 list"

datatype dhcp_status_t = DHCP_OK | DHCP_ERR_NOT_DHCP | DHCP_ERR_PARSING | DHCP_ERR_ARG | DHCP_ERR_SHORT
  | DHCP_ERR_MALFORMED

section \<open>Parsing\<close>

text \<open>\<open>bitmap[tag >> 3] |= 1u << (tag & 7)\<close> for each tag of the parameter request list.\<close>

fun mark_requested :: "u8 list \<Rightarrow> u8 list \<Rightarrow> u8 list option" where
  "mark_requested bm [] = Some bm"
| "mark_requested bm (tag # tags) = do {
     b \<leftarrow> fetch bm (unat (drop_bit 3 tag));
     bm \<leftarrow> poke bm (unat (drop_bit 3 tag)) (b OR push_bit (unat (tag AND 7)) 1);
     mark_requested bm tags
   }"

definition parse_option :: "u8 list \<Rightarrow> u16 \<Rightarrow> u8 \<Rightarrow> u8 \<Rightarrow> dhcp_msg_t \<Rightarrow> (dhcp_status_t \<times> dhcp_msg_t) option" where
  "parse_option buf pos curr_code data_len out =
     (if curr_code = DHCP_OPT_REQUESTED_IP then
        if data_len \<noteq> 4 then Some (DHCP_ERR_MALFORMED, out)
        else do {
          v \<leftarrow> slice buf (unat pos) (unat data_len);
          ip \<leftarrow> blit (requested_ip out) 0 v;
          Some (DHCP_OK, out\<lparr>has_requested_ip := True, requested_ip := ip\<rparr>)
        }
      else if curr_code = DHCP_OPT_MESSAGE_TYPE then
        if data_len \<noteq> 1 then Some (DHCP_ERR_MALFORMED, out)
        else do {
          t \<leftarrow> fetch buf (unat pos);
          Some (DHCP_OK, out\<lparr>has_message_type := True, message_type := t\<rparr>)
        }
      else if curr_code = DHCP_OPT_SERVER_ID then
        if data_len \<noteq> 4 then Some (DHCP_ERR_MALFORMED, out)
        else do {
          v \<leftarrow> slice buf (unat pos) (unat data_len);
          sid \<leftarrow> blit (msg_server_id out) 0 v;
          Some (DHCP_OK, out\<lparr>has_server_id := True, msg_server_id := sid\<rparr>)
        }
      else if curr_code = DHCP_OPT_PARAMETER_REQUEST_LIST then do {
        tags \<leftarrow> slice buf (unat pos) (unat data_len);
        bm \<leftarrow> mark_requested (requested_bitmap out) tags;
        Some (DHCP_OK, out\<lparr>requested_bitmap := bm\<rparr>)
      }
      else if curr_code = DHCP_OPT_CLIENT_ID then
        if data_len > CID_CAP then Some (DHCP_ERR_MALFORMED, out)
        else do {
          v \<leftarrow> slice buf (unat pos) (unat data_len);
          cid \<leftarrow> blit (client_id out) 0 v;
          Some (DHCP_OK, out\<lparr>has_client_id := True, client_id := cid, client_id_len := data_len\<rparr>)
        }
      else Some (DHCP_OK, out))"

lemma pos_steps:
  fixes pos len :: u16 and l :: u8
  assumes "unat pos + 1 < unat len"
  shows "unat (pos + 1) = unat pos + 1" "unat (pos + 2) = unat pos + 2"
    "unat (pos + 2) + unat l \<le> unat len \<Longrightarrow> unat (pos + 2 + ucast l) = unat pos + 2 + unat l"
proof -
  have lt: "unat pos + 2 < 2 ^ 16" using assms unat_lt2p [of len] by simp
  then show "unat (pos + 1) = unat pos + 1" and two: "unat (pos + 2) = unat pos + 2"
    by (simp_all add: unat_word_ariths)
  assume "unat (pos + 2) + unat l \<le> unat len"
  moreover have "unat len < 2 ^ 16" using unat_lt2p [of len] by simp
  ultimately show "unat (pos + 2 + ucast l) = unat pos + 2 + unat l"
    using two by (simp add: unat_word_ariths(1) [of "pos + 2"])
qed

function parse_loop :: "u8 list \<Rightarrow> u16 \<Rightarrow> u16 \<Rightarrow> dhcp_msg_t \<Rightarrow> (dhcp_status_t \<times> dhcp_msg_t) option" where
  "parse_loop buf len pos out =
     (if unat pos + 1 < unat len then
        case fetch buf (unat pos) of
          None \<Rightarrow> None
        | Some curr_code \<Rightarrow>
            if curr_code = DHCP_OPT_PAD then parse_loop buf len (pos + 1) out
            else if curr_code = DHCP_OPT_EXIT then Some (DHCP_OK, out)
            else case fetch buf (unat (pos + 1)) of
              None \<Rightarrow> None
            | Some data_len \<Rightarrow>
                if unat (pos + 2) + unat data_len > unat len then Some (DHCP_ERR_PARSING, out)
                else case parse_option buf (pos + 2) curr_code data_len out of
                  None \<Rightarrow> None
                | Some (st, out) \<Rightarrow>
                    if st \<noteq> DHCP_OK then Some (st, out)
                    else parse_loop buf len (pos + 2 + ucast data_len) out
      else Some (DHCP_OK, out))"
  by auto
termination
proof (relation "measure (\<lambda>(buf, len, pos, out). unat len - unat pos)", goal_cases)
  case (3 buf len pos out c l r st out')
  then have "unat (pos + 2) + unat l \<le> unat len" by simp
  from pos_steps(3) [OF 3(1) this] 3(1) show ?case by simp
qed (auto simp: pos_steps)

declare parse_loop.simps [simp del]

definition parse_options :: "u8 list \<Rightarrow> u16 \<Rightarrow> dhcp_msg_t \<Rightarrow> (dhcp_status_t \<times> dhcp_msg_t) option" where
  "parse_options buf len out =
     parse_loop buf len DHCP_OPTIONS_START
       (out\<lparr>has_requested_ip := False, has_message_type := False, has_server_id := False,
            has_client_id := False, requested_bitmap := replicate 32 0\<rparr>)"

definition copy_key :: "dhcp_msg_t \<Rightarrow> dhcp_msg_t option" where
  "copy_key out =
     (if has_client_id out then do {
        v \<leftarrow> slice (client_id out) 0 (unat (client_id_len out));
        key \<leftarrow> blit (lease_key out) 0 v;
        Some (out\<lparr>lease_key := key, lease_key_length := client_id_len out\<rparr>)
      } else do {
        v \<leftarrow> slice (chaddr out) 0 (unat (hlen out));
        key \<leftarrow> blit (lease_key out) 0 v;
        Some (out\<lparr>lease_key := key, lease_key_length := hlen out\<rparr>)
      })"

text \<open>The fixed part of the header, copied to the message.\<close>

definition parse_header :: "u8 list \<Rightarrow> dhcp_msg_t \<Rightarrow> dhcp_msg_t option" where
  "parse_header buf out = do {
     b0 \<leftarrow> fetch buf 0; b1 \<leftarrow> fetch buf 1; b2 \<leftarrow> fetch buf 2; b3 \<leftarrow> fetch buf 3;
     x \<leftarrow> slice buf 4 4;
     b8 \<leftarrow> fetch buf 8; b9 \<leftarrow> fetch buf 9; b10 \<leftarrow> fetch buf 10; b11 \<leftarrow> fetch buf 11;
     ci \<leftarrow> slice buf 12 4; yi \<leftarrow> slice buf 16 4; si \<leftarrow> slice buf 20 4; gi \<leftarrow> slice buf 24 4;
     ch \<leftarrow> slice buf 28 16;
     Some (out\<lparr>msg_op := b0, htype := b1, hlen := b2, hops := b3, xid := x,
               secs := ucast b9 OR push_bit 8 (ucast b8), flags := ucast b11 OR push_bit 8 (ucast b10),
               broadcast_flag := (b10 AND 0x80 \<noteq> 0),
               ciaddr := ci, yiaddr := yi, siaddr := si, giaddr := gi, chaddr := ch\<rparr>)
   }"

definition dhcp_parse ::
  "u8 list option \<Rightarrow> u16 \<Rightarrow> dhcp_msg_t option \<Rightarrow> (dhcp_status_t \<times> dhcp_msg_t option) option" where
  "dhcp_parse buf len out =
     (case (out, buf) of
        (Some out, Some buf) \<Rightarrow>
          if len < DHCP_DEFAULT_LENGTH then Some (DHCP_ERR_SHORT, Some out)
          else do {
            c0 \<leftarrow> fetch buf 236; c1 \<leftarrow> fetch buf 237; c2 \<leftarrow> fetch buf 238; c3 \<leftarrow> fetch buf 239;
            h1 \<leftarrow> fetch buf 1; h2 \<leftarrow> fetch buf 2;
            if c0 \<noteq> 0x63 \<or> c1 \<noteq> 0x82 \<or> c2 \<noteq> 0x53 \<or> c3 \<noteq> 0x63 then Some (DHCP_ERR_NOT_DHCP, Some out)
            else if h1 \<noteq> 1 \<or> h2 \<noteq> 6 then Some (DHCP_ERR_MALFORMED, Some out)
            else do {
              out \<leftarrow> parse_header buf out;
              (ret_status, out) \<leftarrow> parse_options buf len out;
              if ret_status \<noteq> DHCP_OK then Some (ret_status, Some out)
              else do {
                out \<leftarrow> copy_key out;
                Some (DHCP_OK, Some out)
              }
            }
          }
      | _ \<Rightarrow> Some (DHCP_ERR_ARG, out))"

section \<open>Building\<close>

record option_t =
  opt_type :: u8
  opt_len :: u8
  opt_val :: u8
  opt_ptr :: "u8 list option"
  opt_include :: bool

text \<open>The first loop adds up the sizes of the included options, the second writes them.\<close>

definition options_size :: "option_t list \<Rightarrow> u16" where
  "options_size options = fold (\<lambda>opt n. if opt_include opt then n + (1 + 1 + ucast (opt_len opt)) else n) options 0"

fun write_options :: "option_t list \<Rightarrow> u16 \<Rightarrow> u8 list \<Rightarrow> (u16 \<times> u8 list) option" where
  "write_options [] curr_pos out = Some (curr_pos, out)"
| "write_options (opt # opts) curr_pos out =
     (if \<not> opt_include opt then write_options opts curr_pos out
      else do {
        out \<leftarrow> poke out (unat curr_pos) (opt_type opt);
        let curr_pos = curr_pos + 1;
        out \<leftarrow> poke out (unat curr_pos) (opt_len opt);
        let curr_pos = curr_pos + 1;
        case opt_ptr opt of
          Some p \<Rightarrow> do {
            v \<leftarrow> slice p 0 (unat (opt_len opt));
            out \<leftarrow> blit out (unat curr_pos) v;
            write_options opts (curr_pos + ucast (opt_len opt)) out
          }
        | None \<Rightarrow> do {
            out \<leftarrow> poke out (unat curr_pos) (opt_val opt);
            write_options opts (curr_pos + 1) out
          }
      })"

definition embedd_options ::
  "u8 list \<Rightarrow> u16 \<Rightarrow> option_t list \<Rightarrow> (dhcp_status_t \<times> u8 list \<times> u16 option) option" where
  "embedd_options out cap options =
     (if unat DHCP_OPTIONS_START + unat (options_size options) > unat cap then Some (DHCP_ERR_ARG, out, None)
      else do {
        (curr_pos, out) \<leftarrow> write_options options DHCP_OPTIONS_START out;
        (curr_pos, out) \<leftarrow>
          (if curr_pos < 300 then do {
             out \<leftarrow> blit out (unat curr_pos) (replicate (300 - unat curr_pos) 0);
             Some (299, out)
           } else Some (curr_pos, out));
        out \<leftarrow> poke out (unat curr_pos) 0xff;
        Some (DHCP_OK, out, Some (curr_pos + 1))
      })"

definition reply_options :: "dhcp_msg_t \<Rightarrow> u8 \<Rightarrow> dhcp_cfg_t \<Rightarrow> option_t list" where
  "reply_options req type cfg =
     (let serialized_lease_time = [ucast (drop_bit 24 (lease_time cfg)), ucast (drop_bit 16 (lease_time cfg)),
            ucast (drop_bit 8 (lease_time cfg)), ucast (lease_time cfg)] in
      [\<lparr>opt_type = DHCP_OPT_MESSAGE_TYPE, opt_len = 1, opt_val = type, opt_ptr = None, opt_include = True\<rparr>,
       \<lparr>opt_type = DHCP_OPT_SERVER_ID, opt_len = 4, opt_val = 0, opt_ptr = Some (cfg_server_id cfg), opt_include = True\<rparr>,
       \<lparr>opt_type = DHCP_OPT_LEASE_TIME, opt_len = 4, opt_val = 0, opt_ptr = Some serialized_lease_time, opt_include = True\<rparr>,
       \<lparr>opt_type = DHCP_OPT_SUBNET_MASK, opt_len = 4, opt_val = 0, opt_ptr = Some (subnet_mask cfg), opt_include = True\<rparr>,
       \<lparr>opt_type = DHCP_OPT_ROUTER, opt_len = 4, opt_val = 0, opt_ptr = Some (router cfg), opt_include = True\<rparr>,
       \<lparr>opt_type = DHCP_OPT_DNS, opt_len = 4, opt_val = 0, opt_ptr = Some (dns cfg), opt_include = True\<rparr>,
       \<lparr>opt_type = DHCP_OPT_BROADCAST_ADDR, opt_len = 4, opt_val = 0, opt_ptr = Some (broadcast_addr cfg), opt_include = True\<rparr>,
       \<lparr>opt_type = DHCP_OPT_CLIENT_ID, opt_len = client_id_len req, opt_val = 0, opt_ptr = Some (client_id req),
        opt_include = has_client_id req\<rparr>])"

text \<open>
  The result is the status, the buffer and \<open>*out_len\<close>; the pointer \<open>out_len\<close> is never NULL in the
  program's calls.
\<close>

definition dhcp_build_reply ::
  "u8 list \<Rightarrow> dhcp_msg_t \<Rightarrow> u8 \<Rightarrow> dhcp_cfg_t option \<Rightarrow> u8 list \<Rightarrow> u8 list \<Rightarrow> u16 \<Rightarrow>
   (dhcp_status_t \<times> u8 list \<times> u16) option" where
  "dhcp_build_reply req_raw req type cfg yi out cap =
     (case cfg of
        None \<Rightarrow> Some (DHCP_ERR_ARG, out, 0)
      | Some cfg \<Rightarrow>
          if cap < 300 then Some (DHCP_ERR_ARG, out, 0)
          else do {
            out \<leftarrow> blit out 0 (replicate (unat cap) 0);
            hdr \<leftarrow> slice req_raw 0 236;
            out \<leftarrow> blit out 0 hdr;
            y0 \<leftarrow> fetch yi 0; y1 \<leftarrow> fetch yi 1; y2 \<leftarrow> fetch yi 2; y3 \<leftarrow> fetch yi 3;
            out \<leftarrow> pokes out [(0, BOOTREPLY), (3, 0), (8, 0), (9, 0),
                     (16, y0), (17, y1), (18, y2), (19, y3),
                     (236, 0x63), (237, 0x82), (238, 0x53), (239, 0x63)];
            (ret_status, out, out_len) \<leftarrow> embedd_options out cap (reply_options req type cfg);
            if ret_status \<noteq> DHCP_OK then Some (ret_status, out, 0)
            else Some (DHCP_OK, out, case out_len of Some n \<Rightarrow> n | None \<Rightarrow> 0)
          })"

text \<open>Where the reply goes. When the hardware address is not used, the field is not assigned.\<close>

record dhcp_dest_t =
  dest_ip :: "u8 list"
  dest_port :: u16
  dest_use_mac :: bool
  dest_mac :: "u8 list option"

definition dhcp_chose_destination :: "dhcp_msg_t \<Rightarrow> u8 list \<Rightarrow> dhcp_dest_t" where
  "dhcp_chose_destination req yi =
     (if giaddr req \<noteq> [0, 0, 0, 0] then
        \<lparr>dest_ip = giaddr req, dest_port = DHCP_SERVER_PORT, dest_use_mac = False, dest_mac = None\<rparr>
      else if ciaddr req \<noteq> [0, 0, 0, 0] then
        \<lparr>dest_ip = ciaddr req, dest_port = DHCP_CLIENT_PORT, dest_use_mac = False, dest_mac = None\<rparr>
      else if broadcast_flag req then
        \<lparr>dest_ip = [255, 255, 255, 255], dest_port = DHCP_CLIENT_PORT, dest_use_mac = False, dest_mac = None\<rparr>
      else
        \<lparr>dest_ip = yi, dest_port = DHCP_CLIENT_PORT, dest_use_mac = True, dest_mac = Some (take 6 (chaddr req))\<rparr>)"

section \<open>The parser stays inside its buffers\<close>

text \<open>The arrays of a message have their declared sizes, and a client identifier fits into its field.\<close>

definition msg_wf :: "dhcp_msg_t \<Rightarrow> bool" where
  "msg_wf m \<longleftrightarrow> length (requested_ip m) = 4 \<and> length (msg_server_id m) = 4 \<and> length (client_id m) = 16 \<and>
     length (requested_bitmap m) = 32 \<and> length (lease_key m) = 16 \<and> length (chaddr m) = 16 \<and>
     (has_client_id m \<longrightarrow> client_id_len m \<le> CID_CAP)"

text \<open>What the options do not change.\<close>

definition header_of :: "dhcp_msg_t \<Rightarrow> u8 \<times> u8 list \<times> u8 list \<times> u8 list \<times> u8 list \<times> u8 list \<times> u8 \<times> bool \<times> u8 list" where
  "header_of m = (msg_op m, xid m, ciaddr m, yiaddr m, giaddr m, chaddr m, hlen m, broadcast_flag m, lease_key m)"

lemma drop_bit_3_less: "unat (drop_bit 3 (tag :: u8)) < 32"
  using unat_lt2p [of tag] by (simp add: drop_bit_eq_div unat_div div_less_iff_less_mult)

lemma mark_requested_length:
  "length bm = 32 \<Longrightarrow> \<exists>bm'. mark_requested bm tags = Some bm' \<and> length bm' = 32"
  by (induction tags arbitrary: bm) (simp_all add: drop_bit_3_less)

lemma parse_option_safe:
  assumes "unat pos + unat l \<le> length buf" "msg_wf out"
  shows "\<exists>st out'. parse_option buf pos c l out = Some (st, out') \<and> msg_wf out' \<and> header_of out' = header_of out"
proof -
  obtain bm where "mark_requested (requested_bitmap out) (take (unat l) (drop (unat pos) buf)) = Some bm" "length bm = 32"
    using mark_requested_length assms(2) by (auto simp: msg_wf_def)
  with assms show ?thesis
    by (auto simp: parse_option_def msg_wf_def header_of_def CID_CAP_def word_le_nat_alt not_less min_absorb2)
qed

lemma parse_loop_safe:
  assumes "unat len \<le> length buf" "msg_wf out"
  shows "\<exists>st out'. parse_loop buf len pos out = Some (st, out') \<and> msg_wf out' \<and> header_of out' = header_of out"
  using assms
proof (induction buf len pos out rule: parse_loop.induct)
  case (1 buf len pos out)
  show ?case
  proof (cases "unat pos + 1 < unat len")
    case False
    then show ?thesis using 1(4) by (simp add: parse_loop.simps)
  next
    case more: True
    note st = pos_steps [OF more]
    let ?c = "buf ! unat pos" and ?l = "buf ! (unat pos + 1)"
    have rd: "fetch buf (unat pos) = Some ?c" "fetch buf (unat (pos + 1)) = Some ?l"
      using more 1(3) st(1) by simp_all
    consider (pad) "?c = DHCP_OPT_PAD" | (exit) "?c \<noteq> DHCP_OPT_PAD" "?c = DHCP_OPT_EXIT"
      | (long) "?c \<noteq> DHCP_OPT_PAD" "?c \<noteq> DHCP_OPT_EXIT" "unat (pos + 2) + unat ?l > unat len"
      | (opt) "?c \<noteq> DHCP_OPT_PAD" "?c \<noteq> DHCP_OPT_EXIT" "unat (pos + 2) + unat ?l \<le> unat len" by linarith
    then show ?thesis
    proof cases
      case pad
      then show ?thesis using 1(1) [OF more rd(1) pad 1(3,4)] more rd by (simp add: parse_loop.simps [of buf len pos])
    next
      case opt
      obtain st out' where p: "parse_option buf (pos + 2) ?c ?l out = Some (st, out')" "msg_wf out'"
        "header_of out' = header_of out"
        using parse_option_safe [of "pos + 2" ?l buf out ?c] opt(3) 1(3,4) by auto
      show ?thesis
      proof (cases "st = DHCP_OK")
        case True
        with 1(2) [OF more rd(1) opt(1,2) rd(2) _ p(1) refl] p opt more rd 1(3)
        show ?thesis by (simp add: parse_loop.simps [of buf len pos] st(2))
      qed (use p opt more rd in \<open>simp add: parse_loop.simps [of buf len pos] st(2)\<close>)
    qed (use more rd 1(4) in \<open>simp_all add: parse_loop.simps [of buf len pos]\<close>)
  qed
qed

lemma parse_header_ok:
  assumes "240 \<le> length buf"
  shows "parse_header buf out = Some (out\<lparr>msg_op := buf ! 0, htype := buf ! 1, hlen := buf ! 2, hops := buf ! 3,
     xid := take 4 (drop 4 buf), secs := ucast (buf ! 9) OR push_bit 8 (ucast (buf ! 8)),
     flags := ucast (buf ! 11) OR push_bit 8 (ucast (buf ! 10)), broadcast_flag := (buf ! 10 AND 0x80 \<noteq> 0),
     ciaddr := take 4 (drop 12 buf), yiaddr := take 4 (drop 16 buf), siaddr := take 4 (drop 20 buf),
     giaddr := take 4 (drop 24 buf), chaddr := take 16 (drop 28 buf)\<rparr>)"
proof -
  have "buf \<noteq> []" using assms by auto
  with assms show ?thesis by (simp add: parse_header_def)
qed

definition COOKIE :: "u8 list" where "COOKIE = [0x63, 0x82, 0x53, 0x63]"

lemma cookie_bytes:
  assumes "240 \<le> length buf"
  shows "take 4 (drop 236 buf) = COOKIE \<longleftrightarrow>
     buf ! 236 = 0x63 \<and> buf ! 237 = 0x82 \<and> buf ! 238 = 0x53 \<and> buf ! 239 = 0x63"
proof -
  have "take 4 (drop 236 buf) = [buf ! 236, buf ! 237, buf ! 238, buf ! 239]"
    using assms by (intro nth_equalityI) (auto simp: less_Suc_eq numeral_eq_Suc)
  then show ?thesis by (simp add: COOKIE_def)
qed

text \<open>The key a client is known by: its identifier if it sent one, else its hardware address.\<close>

definition client_key :: "dhcp_msg_t \<Rightarrow> u8 list" where
  "client_key m = (if has_client_id m then take (unat (client_id_len m)) (client_id m) else take 6 (chaddr m))"

definition key_of :: "dhcp_msg_t \<Rightarrow> u8 list" where
  "key_of m = take (unat (lease_key_length m)) (lease_key m)"

lemma copy_key_ok:
  assumes "msg_wf m" "hlen m = 6"
  shows "\<exists>m'. copy_key m = Some m' \<and> msg_wf m' \<and> key_of m' = client_key m' \<and> lease_key_length m' \<le> LEASE_KEY_CAP \<and>
     (\<forall>key n. m'\<lparr>lease_key := key, lease_key_length := n\<rparr> = m\<lparr>lease_key := key, lease_key_length := n\<rparr>)"
  using assms
  by (auto simp: copy_key_def msg_wf_def key_of_def client_key_def CID_CAP_def LEASE_KEY_CAP_def word_le_nat_alt
      min_absorb2)

text \<open>The cases of the parser on a buffer that is long enough.\<close>

lemma dhcp_parse_cases:
  assumes len: "unat len \<le> length buf" "240 \<le> unat len" and wf: "msg_wf out"
  shows "if take 4 (drop 236 buf) \<noteq> COOKIE then dhcp_parse (Some buf) len (Some out) = Some (DHCP_ERR_NOT_DHCP, Some out)
     else if buf ! 1 \<noteq> 1 \<or> buf ! 2 \<noteq> 6 then dhcp_parse (Some buf) len (Some out) = Some (DHCP_ERR_MALFORMED, Some out)
     else \<exists>m st m'. parse_header buf out = Some m \<and> parse_options buf len m = Some (st, m') \<and> msg_wf m' \<and>
       header_of m' = header_of m \<and>
       (if st \<noteq> DHCP_OK then dhcp_parse (Some buf) len (Some out) = Some (st, Some m')
        else \<exists>m''. copy_key m' = Some m'' \<and> dhcp_parse (Some buf) len (Some out) = Some (DHCP_OK, Some m''))"
proof -
  have l: "240 \<le> length buf" "\<not> len < DHCP_DEFAULT_LENGTH"
    using len by (auto simp: DHCP_DEFAULT_LENGTH_def word_less_nat_alt)
  obtain m where m: "parse_header buf out = Some m" using parse_header_ok [OF l(1)] by blast
  then have hl: "hlen m = buf ! 2" and wfm: "msg_wf (m\<lparr>has_requested_ip := False, has_message_type := False,
      has_server_id := False, has_client_id := False, requested_bitmap := replicate 32 0\<rparr>)"
    using parse_header_ok [OF l(1), of out] wf l(1) by (auto simp: msg_wf_def)
  obtain st m' where p: "parse_options buf len m = Some (st, m')" "msg_wf m'" "header_of m' = header_of m"
    using parse_loop_safe [OF len(1) wfm, of DHCP_OPTIONS_START] by (auto simp: parse_options_def header_of_def)
  have "\<exists>m''. copy_key m' = Some m''" if "buf ! 2 = 6"
    using copy_key_ok [OF p(2)] p(3) hl that by (auto simp: header_of_def)
  with m p l cookie_bytes [OF l(1)] show ?thesis by (auto simp: dhcp_parse_def)
qed

lemma parse_packet:
  assumes "unat len \<le> length buf" "msg_wf out"
  shows "\<exists>st m. dhcp_parse (Some buf) len (Some out) = Some (st, Some m) \<and> msg_wf m \<and>
     (st = DHCP_OK \<longrightarrow> 240 \<le> unat len \<and> take 4 (drop 236 buf) = COOKIE \<and> buf ! 1 = 1 \<and> buf ! 2 = 6 \<and>
        msg_op m = buf ! 0 \<and> xid m = take 4 (drop 4 buf) \<and> ciaddr m = take 4 (drop 12 buf) \<and>
        giaddr m = take 4 (drop 24 buf) \<and> chaddr m = take 16 (drop 28 buf) \<and>
        key_of m = client_key m \<and> lease_key_length m \<le> LEASE_KEY_CAP)"
proof (cases "240 \<le> unat len")
  case False
  then show ?thesis using assms(2) by (simp add: dhcp_parse_def DHCP_DEFAULT_LENGTH_def word_less_nat_alt)
next
  case long: True
  then have l: "240 \<le> length buf" using assms(1) by simp
  show ?thesis
  proof (cases "take 4 (drop 236 buf) = COOKIE \<and> buf ! 1 = 1 \<and> buf ! 2 = 6")
    case False
    then show ?thesis using dhcp_parse_cases [OF assms(1) long assms(2)] assms(2) by (auto split: if_splits)
  next
    case True
    then obtain m st m' where p: "parse_header buf out = Some m" "parse_options buf len m = Some (st, m')"
      "msg_wf m'" "header_of m' = header_of m"
      "if st \<noteq> DHCP_OK then dhcp_parse (Some buf) len (Some out) = Some (st, Some m')
        else \<exists>m''. copy_key m' = Some m'' \<and> dhcp_parse (Some buf) len (Some out) = Some (DHCP_OK, Some m'')"
      using dhcp_parse_cases [OF assms(1) long assms(2)] by auto
    show ?thesis
    proof (cases "st = DHCP_OK")
      case False
      then show ?thesis using p(3,5) by simp
    next
      case ok: True
      have h: "header_of m' = (buf ! 0, take 4 (drop 4 buf), take 4 (drop 12 buf), take 4 (drop 16 buf),
          take 4 (drop 24 buf), take 16 (drop 28 buf), 6, buf ! 10 AND 0x80 \<noteq> 0, lease_key out)"
        using p(1,4) parse_header_ok [OF l, of out] True by (auto simp: header_of_def)
      obtain m'' where c: "copy_key m' = Some m''" "dhcp_parse (Some buf) len (Some out) = Some (DHCP_OK, Some m'')"
        using p(5) ok by auto
      from copy_key_ok [OF p(3)] h c(1) have k: "msg_wf m''" "key_of m'' = client_key m''"
        "lease_key_length m'' \<le> LEASE_KEY_CAP"
        "\<And>key n. m''\<lparr>lease_key := key, lease_key_length := n\<rparr> = m'\<lparr>lease_key := key, lease_key_length := n\<rparr>"
        by (auto simp: header_of_def)
      have "msg_op m'' = msg_op m' \<and> xid m'' = xid m' \<and> ciaddr m'' = ciaddr m' \<and> giaddr m'' = giaddr m' \<and>
          chaddr m'' = chaddr m'"
        using arg_cong [OF k(4) [of 0 "[]"], of header_of] by (simp add: header_of_def)
      with c(2) k(1-3) h True long show ?thesis by (auto simp: header_of_def)
    qed
  qed
qed

text \<open>C21: Parsing a packet always returns, and reads only bytes of the packet and writes only inside the
  fields of the message, whatever the packet holds. A packet is accepted only if it is long enough,
  carries the magic cookie and is for Ethernet; then the message has the fields of the packet, and the
  lease key is the client identifier or else the hardware address.\<close>

theorem dhcp_parse_safe:
  assumes "unat len \<le> length buf" "msg_wf out"
  shows "\<exists>st m. dhcp_parse (Some buf) len (Some out) = Some (st, Some m) \<and> msg_wf m \<and>
     (st = DHCP_OK \<longrightarrow> 240 \<le> unat len \<and> take 4 (drop 236 buf) = COOKIE \<and> buf ! 1 = 1 \<and> buf ! 2 = 6 \<and>
        msg_op m = buf ! 0 \<and> xid m = take 4 (drop 4 buf) \<and> ciaddr m = take 4 (drop 12 buf) \<and>
        giaddr m = take 4 (drop 24 buf) \<and> chaddr m = take 16 (drop 28 buf) \<and>
        key_of m = client_key m \<and> lease_key_length m \<le> LEASE_KEY_CAP)"
  by (rule parse_packet [OF assms])

definition ex_msg :: dhcp_msg_t where
  "ex_msg = \<lparr>msg_op = 0, htype = 0, hlen = 0, hops = 0, xid = [], secs = 0, flags = 0, broadcast_flag = False,
     ciaddr = [], yiaddr = [], siaddr = [], giaddr = [], chaddr = replicate 16 0, requested_ip = replicate 4 0,
     has_requested_ip = False, message_type = 0, has_message_type = False, msg_server_id = replicate 4 0,
     has_server_id = False, client_id = replicate 16 0, client_id_len = 0, has_client_id = False,
     requested_bitmap = replicate 32 0, lease_key = replicate 16 0, lease_key_length = 0\<rparr>"

lemma ex_msg_wf: "msg_wf ex_msg"
  by (simp add: msg_wf_def ex_msg_def)

theorem dhcp_parse_safe_witness:
  "\<exists>st m. dhcp_parse (Some (replicate 244 255)) 244 (Some ex_msg) = Some (st, Some m) \<and> st \<noteq> DHCP_OK"
proof -
  have "take 4 (drop 236 (replicate 244 (255 :: u8))) \<noteq> COOKIE" by (subst cookie_bytes) simp_all
  with dhcp_parse_safe [of 244 "replicate 244 255" ex_msg] ex_msg_wf show ?thesis by auto
qed

section \<open>What is built is parsed back\<close>

text \<open>The bytes of an option, and their effect on the message of the reader.\<close>

definition opt_bytes :: "option_t \<Rightarrow> u8 list" where
  "opt_bytes opt = opt_type opt # opt_len opt #
     (case opt_ptr opt of Some p \<Rightarrow> take (unat (opt_len opt)) p | None \<Rightarrow> [opt_val opt])"

definition opt_ok :: "option_t \<Rightarrow> bool" where
  "opt_ok opt \<longleftrightarrow> (case opt_ptr opt of Some p \<Rightarrow> unat (opt_len opt) \<le> length p | None \<Rightarrow> opt_len opt = 1)"

lemma length_opt_bytes: "opt_ok opt \<Longrightarrow> length (opt_bytes opt) = 2 + unat (opt_len opt)"
  by (auto simp: opt_ok_def opt_bytes_def min_def split: option.splits)

definition included :: "option_t list \<Rightarrow> u8 list" where
  "included opts = concat (map opt_bytes (filter opt_include opts))"

lemma included_simps [simp]:
  "included [] = []"
  "included (opt # opts) = (if opt_include opt then opt_bytes opt @ included opts else included opts)"
  by (simp_all add: included_def)

lemma write_options_ok:
  assumes "\<forall>opt \<in> set opts. opt_include opt \<longrightarrow> opt_ok opt" "unat pos = length pre"
    "length pre + length (included opts) < 2 ^ 16" "length (included opts) \<le> length rest"
  shows "\<exists>pos'. write_options opts pos (pre @ rest) =
       Some (pos', pre @ included opts @ drop (length (included opts)) rest) \<and>
     unat pos' = length pre + length (included opts)"
  using assms
proof (induction opts arbitrary: pos pre rest)
  case (Cons opt opts)
  show ?case
  proof (cases "opt_include opt")
    case False
    with Cons show ?thesis by simp
  next
    case inc: True
    let ?b = "opt_bytes opt"
    have ok: "opt_ok opt" and lb: "length ?b = 2 + unat (opt_len opt)"
      using Cons.prems(1) inc length_opt_bytes by auto
    have pos: "unat (pos + 1) = length pre + 1" "unat (pos + 2) = length pre + 2"
      "unat (pos + 2 + ucast (opt_len opt)) = length pre + length ?b"
      using Cons.prems(2,3) inc lb by (auto simp: unat_word_ariths(1))
    obtain r0 r1 r2 where rest: "rest = r0 # r1 # r2" "unat (opt_len opt) \<le> length r2"
      using Cons.prems(4) inc lb by (cases rest; cases "tl rest") auto
    have "\<exists>p'. write_options (opt # opts) pos (pre @ rest) =
        write_options opts p' ((pre @ ?b) @ drop (length ?b) rest) \<and> unat p' = length (pre @ ?b)"
    proof (cases "opt_ptr opt")
      case None
      with ok have "opt_len opt = 1" by (simp add: opt_ok_def)
      then obtain r3 r4 where "r2 = r3 # r4" using rest by (cases r2) auto
      with None rest inc pos lb Cons.prems(2) \<open>opt_len opt = 1\<close> show ?thesis
        by (auto simp: opt_bytes_def list_update_append add.assoc intro!: exI [of _ "pos + 3"])
    next
      case (Some q)
      with ok rest inc pos lb Cons.prems(2) show ?thesis
        by (auto simp: opt_bytes_def opt_ok_def list_update_append add.assoc min_absorb2
            intro!: exI [of _ "pos + 2 + ucast (opt_len opt)"])
    qed
    then obtain p' where w: "write_options (opt # opts) pos (pre @ rest) =
        write_options opts p' ((pre @ ?b) @ drop (length ?b) rest)" "unat p' = length (pre @ ?b)" by blast
    have "\<exists>pos'. write_options opts p' ((pre @ ?b) @ drop (length ?b) rest) = Some (pos', (pre @ ?b) @
        included opts @ drop (length (included opts)) (drop (length ?b) rest)) \<and>
        unat pos' = length (pre @ ?b) + length (included opts)"
      by (rule Cons.IH) (use Cons.prems inc w(2) in auto)
    with w(1) inc show ?thesis by (auto simp: ac_simps simp del: write_options.simps)
  qed
qed simp

lemma options_size_ok:
  fixes n :: u16
  assumes "\<forall>opt \<in> set opts. opt_include opt \<longrightarrow> opt_ok opt" "unat n + length (included opts) < 2 ^ 16"
  shows "unat (fold (\<lambda>opt n. if opt_include opt then n + (1 + 1 + ucast (opt_len opt)) else n) opts n) =
     unat n + length (included opts)"
  using assms
proof (induction opts arbitrary: n)
  case (Cons opt opts)
  have "unat (n + (1 + 1 + ucast (opt_len opt))) = unat n + length (opt_bytes opt)" if "opt_include opt"
    using that Cons.prems length_opt_bytes [of opt] by (auto simp: unat_word_ariths(1))
  with Cons show ?case by auto
qed simp

lemma replicate_last: "n < k \<Longrightarrow> n = k - 1 \<Longrightarrow> (replicate k x)[n := y] = replicate n x @ [y]"
  by (cases k) (simp_all add: list_update_append replicate_append_same [symmetric])

lemma embedd_options_ok:
  assumes ok: "\<forall>opt \<in> set opts. opt_include opt \<longrightarrow> opt_ok opt" and small: "length (included opts) < 60"
    and out: "length hdr = 240" "length (hdr @ rest) = unat cap" and cap: "300 \<le> unat cap"
  shows "embedd_options (hdr @ rest) cap opts = Some (DHCP_OK, hdr @ included opts @
     replicate (59 - length (included opts)) 0 @ [255] @ drop 60 rest, Some 300)"
proof -
  have "unat (options_size opts) = length (included opts)"
    using options_size_ok [OF ok, of 0] small by (simp add: options_size_def)
  moreover obtain pos where w: "write_options opts 240 (hdr @ rest) =
      Some (pos, hdr @ included opts @ drop (length (included opts)) rest)" "unat pos = 240 + length (included opts)"
    using write_options_ok [OF ok, of 240 hdr rest] out cap small by auto
  moreover have "pos < 300" using w(2) small by (simp add: word_less_nat_alt)
  moreover have "length (included opts) + (60 - length (included opts)) = 60" using small by simp
  ultimately show ?thesis
    using out cap small
    by (auto simp: embedd_options_def DHCP_OPTIONS_START_def list_update_append replicate_last)
qed

text \<open>The effect of an option on the message of the reader.\<close>

definition set_option :: "option_t \<Rightarrow> dhcp_msg_t \<Rightarrow> dhcp_msg_t" where
  "set_option opt m =
     (let c = opt_type opt; v = drop 2 (opt_bytes opt) in
      if c = DHCP_OPT_REQUESTED_IP then m\<lparr>has_requested_ip := True, requested_ip := v\<rparr>
      else if c = DHCP_OPT_MESSAGE_TYPE then m\<lparr>has_message_type := True, message_type := hd v\<rparr>
      else if c = DHCP_OPT_SERVER_ID then m\<lparr>has_server_id := True, msg_server_id := v\<rparr>
      else if c = DHCP_OPT_CLIENT_ID
        then m\<lparr>has_client_id := True, client_id := v @ drop (length v) (client_id m), client_id_len := opt_len opt\<rparr>
      else m)"

definition opt_readable :: "option_t \<Rightarrow> bool" where
  "opt_readable opt \<longleftrightarrow> opt_ok opt \<and>
     opt_type opt \<notin> {DHCP_OPT_PAD, DHCP_OPT_EXIT, DHCP_OPT_PARAMETER_REQUEST_LIST} \<and>
     (opt_type opt \<in> {DHCP_OPT_REQUESTED_IP, DHCP_OPT_SERVER_ID} \<longrightarrow> opt_len opt = 4) \<and>
     (opt_type opt = DHCP_OPT_MESSAGE_TYPE \<longrightarrow> opt_len opt = 1) \<and>
     (opt_type opt = DHCP_OPT_CLIENT_ID \<longrightarrow> opt_len opt \<le> CID_CAP)"

lemma set_option_wf: "msg_wf m \<Longrightarrow> opt_readable opt \<Longrightarrow> msg_wf (set_option opt m)"
  using length_opt_bytes [of opt]
  by (auto simp: msg_wf_def set_option_def opt_readable_def Let_def CID_CAP_def word_le_nat_alt)

lemma parse_option_reads:
  assumes wf: "msg_wf m" and opt: "opt_readable opt" and le: "unat pos + unat (opt_len opt) \<le> length buf"
    and buf: "drop (unat pos) buf = drop 2 (opt_bytes opt) @ rest"
  shows "parse_option buf pos (opt_type opt) (opt_len opt) m = Some (DHCP_OK, set_option opt m)"
proof -
  let ?v = "drop 2 (opt_bytes opt)"
  have lv: "length ?v = unat (opt_len opt)" using opt length_opt_bytes by (simp add: opt_readable_def)
  have tk: "take (unat (opt_len opt)) (drop (unat pos) buf) = ?v" using buf lv by simp
  have "buf ! unat pos = hd ?v" if "opt_len opt = 1"
    using that lv buf le by (cases ?v) (auto simp: hd_drop_conv_nth [symmetric])
  moreover have "unat pos < length buf" if "opt_len opt = 1" using that le by simp
  ultimately have type: "fetch buf (unat pos) = Some (hd ?v)" if "opt_len opt = 1" using that by simp
  have data: "slice buf (unat pos) (unat (opt_len opt)) = Some ?v" using le tk by simp
  consider "opt_type opt = DHCP_OPT_REQUESTED_IP" | "opt_type opt = DHCP_OPT_MESSAGE_TYPE"
    | "opt_type opt = DHCP_OPT_SERVER_ID" | "opt_type opt = DHCP_OPT_CLIENT_ID"
    | "opt_type opt \<notin> {DHCP_OPT_REQUESTED_IP, DHCP_OPT_MESSAGE_TYPE, DHCP_OPT_SERVER_ID, DHCP_OPT_CLIENT_ID}"
    by blast
  then show ?thesis
  proof cases
    case 1
    then have "opt_len opt = 4" using opt by (simp add: opt_readable_def)
    with 1 wf lv data show ?thesis by (simp add: parse_option_def set_option_def msg_wf_def)
  next
    case 2
    then have "opt_len opt = 1" using opt by (simp add: opt_readable_def)
    with 2 type show ?thesis by (simp add: parse_option_def set_option_def dhcp_consts)
  next
    case 3
    then have "opt_len opt = 4" using opt by (simp add: opt_readable_def)
    with 3 wf lv data show ?thesis by (simp add: parse_option_def set_option_def msg_wf_def dhcp_consts)
  next
    case 4
    then have "\<not> opt_len opt > CID_CAP" "unat (opt_len opt) \<le> 16"
      using opt by (simp_all add: opt_readable_def CID_CAP_def word_le_nat_alt not_less)
    with 4 wf lv data show ?thesis by (simp add: parse_option_def set_option_def msg_wf_def dhcp_consts)
  next
    case 5
    with opt show ?thesis by (simp add: parse_option_def set_option_def opt_readable_def)
  qed
qed

lemma parse_loop_option:
  assumes wf: "msg_wf m" and opt: "opt_readable opt" and len: "unat len \<le> length buf"
    and buf: "drop (unat pos) buf = opt_bytes opt @ rest" and fits: "unat pos + length (opt_bytes opt) \<le> unat len"
  shows "\<exists>pos'. parse_loop buf len pos m = parse_loop buf len pos' (set_option opt m) \<and>
     unat pos' = unat pos + length (opt_bytes opt)"
proof -
  have lb: "length (opt_bytes opt) = 2 + unat (opt_len opt)" using opt length_opt_bytes by (simp add: opt_readable_def)
  then have more: "unat pos + 1 < unat len" using fits by simp
  note st = pos_steps [OF more]
  have b: "opt_bytes opt = opt_type opt # opt_len opt # drop 2 (opt_bytes opt)" by (simp add: opt_bytes_def)
  have "hd (drop (unat pos) buf) = opt_type opt" using buf by (simp add: opt_bytes_def)
  then have c: "buf ! unat pos = opt_type opt" using more len by (simp add: hd_drop_conv_nth)
  have d: "drop (unat pos + 1) buf = opt_len opt # drop 2 (opt_bytes opt) @ rest"
    using arg_cong [OF buf, of "drop 1"] by (subst (asm) b) (simp add: drop_drop add.commute)
  then have l: "buf ! (unat pos + 1) = opt_len opt" using more len by (simp add: hd_drop_conv_nth [symmetric])
  have "drop (unat (pos + 2)) buf = drop 2 (opt_bytes opt) @ rest"
    using arg_cong [OF d, of "drop 1"] st(2) by (simp add: drop_drop add.commute)
  then have "parse_option buf (pos + 2) (opt_type opt) (opt_len opt) m = Some (DHCP_OK, set_option opt m)"
    using parse_option_reads [OF wf opt] fits len lb st(2) by simp
  then have "parse_loop buf len pos m = parse_loop buf len (pos + 2 + ucast (opt_len opt)) (set_option opt m)"
    using more len c l opt fits lb st(1,2) by (subst parse_loop.simps) (simp add: opt_readable_def)
  moreover have "unat (pos + 2 + ucast (opt_len opt)) = unat pos + length (opt_bytes opt)"
    using st(2,3) fits lb by simp
  ultimately show ?thesis by blast
qed

lemma parse_loop_options:
  assumes "msg_wf m" "\<forall>opt \<in> set opts. opt_include opt \<longrightarrow> opt_readable opt" "unat len \<le> length buf"
    "drop (unat pos) buf = included opts @ rest" "unat pos + length (included opts) \<le> unat len"
  shows "\<exists>pos'. parse_loop buf len pos m = parse_loop buf len pos' (fold set_option (filter opt_include opts) m) \<and>
     unat pos' = unat pos + length (included opts)"
  using assms
proof (induction opts arbitrary: pos m)
  case (Cons opt opts)
  show ?case
  proof (cases "opt_include opt")
    case False
    with Cons show ?thesis by simp
  next
    case True
    then obtain p where p: "parse_loop buf len pos m = parse_loop buf len p (set_option opt m)"
      "unat p = unat pos + length (opt_bytes opt)"
      using parse_loop_option [of m opt len buf pos "included opts @ rest"] Cons.prems by auto
    have "drop (unat p) buf = included opts @ rest"
      using arg_cong [OF Cons.prems(4), of "drop (length (opt_bytes opt))"] True p(2)
      by (simp add: drop_drop add.commute)
    with Cons.IH [of "set_option opt m" p] Cons.prems True p set_option_wf [of m opt] show ?thesis by auto
  qed
qed auto

lemma parse_loop_pads:
  assumes "unat len \<le> length buf" "\<And>i. unat pos \<le> i \<Longrightarrow> i + 1 < unat len \<Longrightarrow> buf ! i = DHCP_OPT_PAD"
  shows "parse_loop buf len pos m = Some (DHCP_OK, m)"
  using assms
proof (induction "unat len - unat pos" arbitrary: pos rule: less_induct)
  case less
  show ?case
  proof (cases "unat pos + 1 < unat len")
    case True
    with less.hyps [of "pos + 1"] less.prems pos_steps(1) [OF True] show ?thesis
      by (subst parse_loop.simps) simp
  qed (simp add: parse_loop.simps)
qed

definition cfg_wf :: "dhcp_cfg_t \<Rightarrow> bool" where
  "cfg_wf cfg \<longleftrightarrow> length (cfg_start_addr cfg) = 4 \<and> length (cfg_end_addr cfg) = 4 \<and> length (cfg_server_id cfg) = 4 \<and>
     length (subnet_mask cfg) = 4 \<and> length (router cfg) = 4 \<and> length (dns cfg) = 4 \<and> length (broadcast_addr cfg) = 4"

lemma reply_options_ok:
  assumes "msg_wf req" "cfg_wf cfg"
  shows "\<forall>opt \<in> set (reply_options req type cfg). opt_include opt \<longrightarrow> opt_readable opt"
  using assms
  by (auto simp: reply_options_def Let_def opt_readable_def opt_ok_def msg_wf_def cfg_wf_def dhcp_consts word_le_nat_alt)

lemma included_filter: "included (filter opt_include opts) = included opts"
  by (simp add: included_def)

lemma reply_options_length:
  assumes "msg_wf req" "cfg_wf cfg"
  shows "length (included (reply_options req type cfg)) \<le> 57"
proof -
  have "length (opt_bytes opt) = 2 + unat (opt_len opt)" if "opt \<in> set (reply_options req type cfg)" "opt_include opt" for opt
    using reply_options_ok [OF assms] that length_opt_bytes by (auto simp: opt_readable_def)
  then show ?thesis
    using assms by (auto simp: reply_options_def Let_def msg_wf_def CID_CAP_def word_le_nat_alt)
qed

lemma fold_reply_options:
  assumes "msg_wf req" "cfg_wf cfg"
  shows "fold set_option (filter opt_include (reply_options req type cfg)) m =
     (let m = m\<lparr>has_message_type := True, message_type := type, has_server_id := True, msg_server_id := cfg_server_id cfg\<rparr>
      in if has_client_id req
         then m\<lparr>has_client_id := True, client_id := take (unat (client_id_len req)) (client_id req) @
                 drop (unat (client_id_len req)) (client_id m), client_id_len := client_id_len req\<rparr>
         else m)"
  using assms
  by (auto simp: reply_options_def Let_def set_option_def opt_bytes_def dhcp_consts msg_wf_def cfg_wf_def CID_CAP_def
      word_le_nat_alt min_absorb2)

text \<open>The fixed part of a reply.\<close>

definition reply_header :: "u8 list \<Rightarrow> u8 list \<Rightarrow> u8 list" where
  "reply_header req_raw yi = [BOOTREPLY] @ take 2 (drop 1 req_raw) @ [0] @ take 4 (drop 4 req_raw) @ [0, 0] @
     take 6 (drop 10 req_raw) @ yi @ take 216 (drop 20 req_raw) @ COOKIE"

lemma length_reply_header: "236 \<le> length req_raw \<Longrightarrow> length yi = 4 \<Longrightarrow> length (reply_header req_raw yi) = 240"
  by (simp add: reply_header_def COOKIE_def)

lemma header_pieces:
  fixes xs :: "u8 list"
  assumes "236 \<le> length xs"
  obtains a b c d e f g h where "take 236 xs = [a] @ b @ [c] @ d @ [e, f] @ g @ h @ take 216 (drop 20 xs)"
   "b = take 2 (drop 1 xs)" "d = take 4 (drop 4 xs)" "g = take 6 (drop 10 xs)" "h = take 4 (drop 16 xs)"
proof (rule that)
  have "take 236 xs = take 1 xs @ take 2 (drop 1 xs) @ take 1 (drop 3 xs) @ take 4 (drop 4 xs) @ take 2 (drop 8 xs) @
    take 6 (drop 10 xs) @ take 4 (drop 16 xs) @ take 216 (drop 20 xs)"
    using take_add [of 1 235 xs] take_add [of 2 233 "drop 1 xs"] take_add [of 1 232 "drop 3 xs"]
     take_add [of 4 228 "drop 4 xs"] take_add [of 2 226 "drop 8 xs"] take_add [of 6 220 "drop 10 xs"] take_add [of 4 216 "drop 16 xs"]
    by (simp add: drop_drop)
  moreover have "take 1 xs = [xs ! 0]" "take 1 (drop 3 xs) = [xs ! 3]" "take 2 (drop 8 xs) = [xs ! 8, xs ! 9]"
    using assms by (auto intro!: nth_equalityI simp: less_Suc_eq numeral_2_eq_2)
  ultimately show "take 236 xs = [xs!0] @ take 2 (drop 1 xs) @ [xs ! 3] @ take 4 (drop 4 xs) @ [xs ! 8, xs ! 9] @
    take 6 (drop 10 xs) @ take 4 (drop 16 xs) @ take 216 (drop 20 xs)" by simp
qed auto

lemma dhcp_build_reply_ok:
  assumes "236 \<le> length req_raw" "length yi = 4" "length out = unat cap" "300 \<le> unat cap"
    "msg_wf req" "cfg_wf cfg"
  shows "dhcp_build_reply req_raw req type (Some cfg) yi out cap = Some (DHCP_OK,
     reply_header req_raw yi @ included (reply_options req type cfg) @
     replicate (59 - length (included (reply_options req type cfg))) 0 @ [255] @ replicate (unat cap - 300) 0, 300)"
proof -
  obtain a b c d e f g h where p: "take 236 req_raw = [a] @ b @ [c] @ d @ [e, f] @ g @ h @ take 216 (drop 20 req_raw)"
   "b = take 2 (drop 1 req_raw)" "d = take 4 (drop 4 req_raw)" "g = take 6 (drop 10 req_raw)" "h = take 4 (drop 16 req_raw)"
    using header_pieces [OF assms(1)] .
  have len: "length b = 2" "length d = 4" "length g = 6" "length h = 4" "length (take 216 (drop 20 req_raw)) = 216"
    using p(2-) assms(1) by auto
  obtain h0 h1 h2 h3 where h: "h = [h0, h1, h2, h3]" using len(4) by (auto simp: numeral_eq_Suc length_Suc_conv)
  obtain y0 y1 y2 y3 where y: "yi = [y0, y1, y2, y3]" using assms(2) by (auto simp: numeral_eq_Suc length_Suc_conv)
  have cap: "replicate (unat cap - 236) (0::u8) = [0, 0, 0, 0] @ replicate (unat cap - 240) 0"
    using assms(4) by (simp flip: replicate_Suc add: Suc_diff_le)
  let ?opts = "reply_options req type cfg"
  have emb: "embedd_options (reply_header req_raw yi @ replicate (unat cap - 240) 0) cap ?opts =
     Some (DHCP_OK, reply_header req_raw yi @ included ?opts @ replicate (59 - length (included ?opts)) 0 @ [255] @
        replicate (unat cap - 300) 0, Some 300)"
    using embedd_options_ok [of ?opts "reply_header req_raw yi" "replicate (unat cap - 240) 0" cap]
      reply_options_ok [OF assms(5,6), of type] reply_options_length [OF assms(5,6), of type]
      length_reply_header [OF assms(1,2)] assms(4) by (auto simp: opt_readable_def)
  have "pokes (take 236 req_raw @ replicate (unat cap - 236) 0) [(0, BOOTREPLY), (3, 0), (8, 0), (9, 0),
      (16, y0), (17, y1), (18, y2), (19, y3), (236, 0x63), (237, 0x82), (238, 0x53), (239, 0x63)] =
      Some (reply_header req_raw yi @ replicate (unat cap - 240) 0)"
    unfolding p(1) cap h using len(1,2,3,5)
    by (simp add: list_update_append) (simp add: reply_header_def y COOKIE_def p(2-4))
  then show ?thesis
    using assms emb by (simp add: dhcp_build_reply_def y word_less_nat_alt)
qed

text \<open>The message before its options are read, and after those of a reply.\<close>

definition no_options :: "dhcp_msg_t \<Rightarrow> dhcp_msg_t" where
  "no_options m = m\<lparr>has_requested_ip := False, has_message_type := False, has_server_id := False,
     has_client_id := False, requested_bitmap := replicate 32 0\<rparr>"

definition with_reply :: "dhcp_msg_t \<Rightarrow> u8 \<Rightarrow> dhcp_cfg_t \<Rightarrow> dhcp_msg_t \<Rightarrow> dhcp_msg_t" where
  "with_reply req type cfg m = fold set_option (filter opt_include (reply_options req type cfg)) (no_options m)"

lemma reply_options_parse:
  assumes wf: "msg_wf req" "cfg_wf cfg" "msg_wf (no_options m)" and hdr: "length hdr = 240"
    and out: "out = hdr @ included (reply_options req type cfg) @
      replicate (59 - length (included (reply_options req type cfg))) 0 @ [255] @ rest"
  shows "parse_options out 300 m = Some (DHCP_OK, with_reply req type cfg m)"
proof -
  let ?inc = "included (reply_options req type cfg)"
  have small: "length ?inc \<le> 57" by (rule reply_options_length [OF wf(1,2)])
  have len: "300 \<le> length out" using small hdr by (simp add: out)
  have "drop (unat (240 :: u16)) out = ?inc @ replicate (59 - length ?inc) 0 @ [255] @ rest"
    using hdr by (simp add: out)
  then have "\<exists>pos. parse_loop out 300 240 (no_options m) = parse_loop out 300 pos (with_reply req type cfg m) \<and>
      unat pos = unat (240 :: u16) + length ?inc"
    unfolding with_reply_def
    by (rule parse_loop_options [OF wf(3) reply_options_ok [OF wf(1,2)], rotated]) (use len small in simp_all)
  then obtain pos where pos: "parse_loop out 300 240 (no_options m) = parse_loop out 300 pos (with_reply req type cfg m)"
    "unat pos = 240 + length ?inc" by auto
  have "out ! i = DHCP_OPT_PAD" if i: "unat pos \<le> i" "i + 1 < 300" for i
  proof -
    obtain j where j: "i = 240 + (length ?inc + j)" using i(1) pos(2) by (metis le_Suc_ex add.assoc)
    then have "j < 59 - length ?inc" using i(2) by simp
    with j hdr show ?thesis by (simp add: out nth_append DHCP_OPT_PAD_def)
  qed
  then show ?thesis
    using parse_loop_pads [of 300 out pos] len pos(1)
    by (simp add: parse_options_def DHCP_OPTIONS_START_def no_options_def)
qed

lemma with_reply_fields:
  assumes wf: "msg_wf req" "cfg_wf cfg" "msg_wf (no_options m)" and "m' = with_reply req type cfg m"
  shows "header_of m' = header_of m" "has_message_type m'" "message_type m' = type" "has_server_id m'"
    "msg_server_id m' = cfg_server_id cfg" "has_client_id m' = has_client_id req"
    "has_client_id req \<Longrightarrow> client_key m' = client_key req"
  using wf unfolding assms(4) with_reply_def fold_reply_options [OF wf(1,2)]
  by (simp_all add: no_options_def header_of_def client_key_def msg_wf_def CID_CAP_def word_le_nat_alt Let_def)

text \<open>What copying the key leaves alone.\<close>

lemma copy_key_fields:
  assumes "copy_key m = Some m'"
  shows "msg_op m' = msg_op m" "xid m' = xid m" "yiaddr m' = yiaddr m" "has_message_type m' = has_message_type m"
    "message_type m' = message_type m" "has_server_id m' = has_server_id m" "msg_server_id m' = msg_server_id m"
    "has_client_id m' = has_client_id m" "client_key m' = client_key m" "chaddr m' = chaddr m"
    "ciaddr m' = ciaddr m" "giaddr m' = giaddr m" "broadcast_flag m' = broadcast_flag m"
  using assms by (auto simp: copy_key_def client_key_def split: if_splits bind_splits)

text \<open>C22: Every reply the server builds to an Ethernet request is a well-formed message that its own
  parser reads back: the type, the offered address and the server are the ones that were put in, and
  the transaction, the broadcast flag, the client and relay addresses, the hardware address and the
  client's key, with or without option 61, are those of the request. It has 300 bytes and fits into
  every buffer the function accepts.\<close>

theorem dhcp_reply_roundtrip:
  assumes raw: "236 \<le> length req_raw" "req_raw ! 1 = 1" "req_raw ! 2 = 6" and yi: "length yi = 4"
    and buf: "length out = unat cap" "300 \<le> unat cap" and wf: "msg_wf req" "cfg_wf cfg" "msg_wf m"
    and ch: "chaddr req = take 16 (drop 28 req_raw)"
  shows "\<exists>out' m'. dhcp_build_reply req_raw req type (Some cfg) yi out cap = Some (DHCP_OK, out', 300) \<and>
     length out' = length out \<and> dhcp_parse (Some out') 300 (Some m) = Some (DHCP_OK, Some m') \<and>
     msg_op m' = BOOTREPLY \<and> xid m' = take 4 (drop 4 req_raw) \<and> yiaddr m' = yi \<and>
     has_message_type m' \<and> message_type m' = type \<and> has_server_id m' \<and> msg_server_id m' = cfg_server_id cfg \<and>
     broadcast_flag m' = (req_raw ! 10 AND 0x80 \<noteq> 0) \<and> ciaddr m' = take 4 (drop 12 req_raw) \<and>
     giaddr m' = take 4 (drop 24 req_raw) \<and> chaddr m' = chaddr req \<and>
     has_client_id m' = has_client_id req \<and> client_key m' = client_key req"
proof -
  let ?opts = "reply_options req type cfg" and ?hdr = "reply_header req_raw yi"
  define rest where "rest = replicate (unat cap - 300) (0 :: u8)"
  define out' where "out' = ?hdr @ included ?opts @ replicate (59 - length (included ?opts)) 0 @ [255] @ rest"
  have build: "dhcp_build_reply req_raw req type (Some cfg) yi out cap = Some (DHCP_OK, out', 300)"
    using dhcp_build_reply_ok [OF raw(1) yi buf wf(1,2)] by (simp add: out'_def rest_def)
  have hdr: "length ?hdr = 240" using raw(1) yi by (rule length_reply_header)
  have len: "length out' = unat cap"
    using hdr buf(2) reply_options_length [OF wf(1,2), of type] by (simp add: out'_def rest_def)
  have hb: "out' ! i = ?hdr ! i" "take n (drop i out') = take n (drop i ?hdr)" if "i + n \<le> 240" "i < 240" for i n
    using that hdr by (simp_all add: out'_def nth_append)
  obtain y0 y1 y2 y3 where y: "yi = [y0, y1, y2, y3]" using yi by (auto simp: numeral_eq_Suc length_Suc_conv)
  have ck: "take 4 (drop 236 out') = COOKIE" "out' ! 1 = 1" "out' ! 2 = 6" "out' ! 0 = BOOTREPLY"
    "take 4 (drop 4 out') = take 4 (drop 4 req_raw)" "take 4 (drop 16 out') = yi"
    "out' ! 10 = req_raw ! 10" "take 4 (drop 12 out') = take 4 (drop 12 req_raw)"
    "take 4 (drop 24 out') = take 4 (drop 24 req_raw)" "take 16 (drop 28 out') = chaddr req"
    using raw ch hb [of 236 4] hb [of 1 0] hb [of 2 0] hb [of 0 0] hb [of 4 4] hb [of 16 4]
      hb [of 10 0] hb [of 12 4] hb [of 24 4] hb [of 28 16]
    by (simp_all add: reply_header_def y COOKIE_def nth_append nth_Cons' numeral_2_eq_2 drop_take)
  obtain m0 where m0: "parse_header out' m = Some m0" "msg_op m0 = BOOTREPLY" "xid m0 = take 4 (drop 4 req_raw)"
    "yiaddr m0 = yi" "msg_wf (no_options m0)" "broadcast_flag m0 = (req_raw ! 10 AND 0x80 \<noteq> 0)"
    "ciaddr m0 = take 4 (drop 12 req_raw)" "giaddr m0 = take 4 (drop 24 req_raw)" "chaddr m0 = chaddr req"
    using parse_header_ok [of out' m] wf(1,3) len buf(2) ck(4-) by (simp add: no_options_def msg_wf_def)
  have opts: "parse_options out' 300 m0 = Some (DHCP_OK, with_reply req type cfg m0)"
    by (rule reply_options_parse [OF wf(1,2) m0(5) hdr out'_def])
  obtain m' where m': "copy_key (with_reply req type cfg m0) = Some m'"
    "dhcp_parse (Some out') 300 (Some m) = Some (DHCP_OK, Some m')"
    using dhcp_parse_cases [of 300 out' m] len buf(2) wf(3) ck(1-3) m0(1) opts by auto
  let ?m = "with_reply req type cfg m0"
  note cf = copy_key_fields [OF m'(1)] and wr = with_reply_fields [OF wf(1,2) m0(5) refl, of type]
  have "msg_op m' = BOOTREPLY \<and> xid m' = take 4 (drop 4 req_raw) \<and> yiaddr m' = yi"
    and hd: "broadcast_flag m' = (req_raw ! 10 AND 0x80 \<noteq> 0) \<and> ciaddr m' = take 4 (drop 12 req_raw) \<and>
     giaddr m' = take 4 (drop 24 req_raw) \<and> chaddr m' = chaddr req \<and> chaddr ?m = chaddr req"
    using cf wr(1) m0 by (simp_all add: header_of_def)
  moreover have "client_key ?m = client_key req"
    using wr(6,7) hd by (cases "has_client_id req") (simp_all add: client_key_def)
  ultimately show ?thesis using build m'(2) len buf(1) cf wr(2-) by auto
qed

definition ex_cfg :: dhcp_cfg_t where
  "ex_cfg = \<lparr>cfg_start_addr = [192, 168, 1, 100], cfg_end_addr = [192, 168, 1, 110], cfg_server_id = [192, 168, 1, 1],
     lease_time = 3600, subnet_mask = [255, 255, 255, 0], router = [192, 168, 1, 1], dns = [8, 8, 8, 8],
     broadcast_addr = [192, 168, 1, 255]\<rparr>"

lemma ex_cfg_wf: "cfg_wf ex_cfg"
  by (simp add: cfg_wf_def ex_cfg_def)

definition ex_raw :: "u8 list" where
  "ex_raw = [1, 1, 6, 0] @ replicate 300 0"

theorem dhcp_reply_roundtrip_witness:
  "\<exists>out' m'. dhcp_build_reply ex_raw ex_msg DHCP_MSG_OFFER (Some ex_cfg) [192, 168, 1, 100] (replicate 1000 7) 1000 =
       Some (DHCP_OK, out', 300) \<and>
     dhcp_parse (Some out') 300 (Some ex_msg) = Some (DHCP_OK, Some m') \<and> message_type m' = DHCP_MSG_OFFER"
  using dhcp_reply_roundtrip [of ex_raw "[192, 168, 1, 100]" "replicate 1000 7" 1000 ex_msg ex_cfg ex_msg DHCP_MSG_OFFER]
    ex_msg_wf ex_cfg_wf
  by (auto simp: ex_raw_def ex_msg_def)

end
