(* ===== verification/Net_Types.thy ===== *)
theory Net_Types
  imports Static_Memory
begin

text \<open>
  The requests and replies between user tasks and the network task (\<^verbatim>\<open>include/kernel/net.h\<close>) and the
  arguments of a send (\<^verbatim>\<open>include/kernel/syscall.h\<close>).
\<close>

datatype net_op_t = NET_OP_LINK | NET_OP_SOCKET_OPEN | NET_OP_SOCKET_CLOSE | NET_OP_RECV | NET_OP_SEND

datatype net_status_t = NET_STATUS_OK | NET_STATUS_FAULT | NET_STATUS_RETRY | NET_STATUS_BAD_REQUEST
  | NET_STATUS_UNREACHABLE | NET_STATUS_DEAD

record net_reply_t =
  reply_got :: u16
  reply_src_ip :: "u8 list"
  reply_port :: u16
  reply_truncated :: bool
  reply_status :: net_status_t

record net_request_t =
  req_op :: net_op_t
  req_caller :: ptr
  req_socket :: ptr
  req_result :: ptr
  req_reply_slot :: ptr
  req_buffer :: ptr
  req_buf_len :: u16
  req_dst_ip :: "u8 list"
  req_dst_port :: u16
  req_dst_mac :: "u8 list"
  req_use_mac :: bool

text \<open>A request all of whose fields are zero, as the fields an initialiser leaves out.\<close>

definition zero_request :: net_request_t where
  "zero_request = \<lparr>req_op = NET_OP_LINK, req_caller = 0, req_socket = 0, req_result = 0, req_reply_slot = 0,
     req_buffer = 0, req_buf_len = 0, req_dst_ip = [0, 0, 0, 0], req_dst_port = 0,
     req_dst_mac = [0, 0, 0, 0, 0, 0], req_use_mac = False\<rparr>"

definition zero_reply :: net_reply_t where
  "zero_reply = \<lparr>reply_got = 0, reply_src_ip = [0, 0, 0, 0], reply_port = 0, reply_truncated = False, reply_status = NET_STATUS_OK\<rparr>"

end
