(* ===== verification/Dhcp_Lease.thy ===== *)
theory Dhcp_Lease
  imports Dhcp_Message Flash CLib Net_Types
begin

unbundle bit_operations_syntax

text \<open>
  The lease table of the DHCP server, its journal in flash, and the handling of the messages of
  clients (\<^verbatim>\<open>source/user/dhcp.c\<close>, second half). A run of a handler takes the readings of the clock as the
  argument \<open>up\<close>: the milliseconds its first, second, ... call of \<open>sys_uptime\<close> returns (in the search
  for an address: the call for slot \<open>i\<close>, and the last call as number \<open>size\<close>).
\<close>

section \<open>Data\<close>

definition LEASE_ST_FREE :: u8 where "LEASE_ST_FREE = 0"
definition LEASE_ST_OFFERED :: u8 where "LEASE_ST_OFFERED = 1"
definition LEASE_ST_BOUND :: u8 where "LEASE_ST_BOUND = 2"
definition LEASE_ST_DECLINED :: u8 where "LEASE_ST_DECLINED = 3"

lemmas lease_states = LEASE_ST_FREE_def LEASE_ST_OFFERED_def LEASE_ST_BOUND_def LEASE_ST_DECLINED_def

record lease_slot_t =
  slot_state :: u8
  slot_key :: "u8 list"
  slot_key_len :: u8
  expires_at :: u32

record lease_table_t =
  slots :: "lease_slot_t list"
  table_size :: u8
  start_addr :: "u8 list"

record net_send_args_t =
  tx_data :: "u8 list option"
  tx_length :: u16
  dst_ip :: "u8 list"
  dst_port :: u16
  use_mac :: bool
  mac :: "u8 list"

definition zero_args :: net_send_args_t where
  "zero_args = \<lparr>tx_data = None, tx_length = 0, dst_ip = replicate 4 0, dst_port = 0, use_mac = False, mac = replicate 6 0\<rparr>"

section \<open>Choosing an address\<close>

definition slot_alive :: "lease_slot_t \<Rightarrow> u32 \<Rightarrow> bool" where
  "slot_alive slot now_seconds \<longleftrightarrow> slot_state slot \<noteq> LEASE_ST_FREE \<and> sint (now_seconds - expires_at slot) < 0"

text \<open>\<open>key_len != slot->key_len || memcmp(slot->key, key, key_len) != 0\<close>\<close>

definition key_differs :: "lease_slot_t \<Rightarrow> u8 list \<Rightarrow> u8 \<Rightarrow> bool option" where
  "key_differs slot key key_len =
     (if key_len \<noteq> slot_key_len slot then Some True
      else do {
        a \<leftarrow> slice (slot_key slot) 0 (unat key_len);
        b \<leftarrow> slice key 0 (unat key_len);
        Some (a \<noteq> b)
      })"

text \<open>The search returns the slot of the client and the first slot to be had.\<close>

function chose_loop :: "(nat \<Rightarrow> u32) \<Rightarrow> lease_slot_t list \<Rightarrow> u8 list \<Rightarrow> u8 \<Rightarrow> nat \<Rightarrow> nat \<Rightarrow> nat option \<Rightarrow>
    (nat option \<times> nat option) option" where
  "chose_loop up sl key key_len n i first_free =
     (if i < n then
        case fetch sl i of
          None \<Rightarrow> None
        | Some slot \<Rightarrow>
            let first_free = (if first_free = None \<and> (slot_state slot = LEASE_ST_FREE \<or> \<not> slot_alive slot (up i div 1000))
                              then Some i else first_free) in
            case key_differs slot key key_len of
              None \<Rightarrow> None
            | Some differs \<Rightarrow>
                if differs \<or> slot_state slot = LEASE_ST_DECLINED
                then chose_loop up sl key key_len n (i + 1) first_free
                else Some (Some i, first_free)
      else Some (None, first_free))"
  by auto
termination by (relation "measure (\<lambda>(up, sl, key, key_len, n, i, ff). n - i)") auto

declare chose_loop.simps [simp del]

text \<open>\<open>memcpy(chosen_address, table->start_addr, 4); chosen_address[3] += idx\<close>\<close>

definition address_of :: "lease_table_t \<Rightarrow> nat \<Rightarrow> u8 list option" where
  "address_of table idx = do {
     a \<leftarrow> slice (start_addr table) 0 4;
     b \<leftarrow> fetch a 3;
     poke a 3 (b + of_nat idx)
   }"

definition chose_address :: "(nat \<Rightarrow> u32) \<Rightarrow> lease_table_t \<Rightarrow> u8 list \<Rightarrow> u8 \<Rightarrow> u32 \<Rightarrow>
    (dhcp_status_t \<times> lease_table_t \<times> u8 list option) option" where
  "chose_address up table key key_len lease_secs =
     (if key_len = 0 \<or> key_len > LEASE_KEY_CAP then Some (DHCP_ERR_ARG, table, None)
      else do {
        (found, first_free) \<leftarrow> chose_loop up (slots table) key key_len (unat (table_size table)) 0 None;
        let now = up (unat (table_size table)) div 1000;
        case (found, first_free) of
          (Some i, _) \<Rightarrow> do {
            slot \<leftarrow> fetch (slots table) i;
            sl \<leftarrow> poke (slots table) i (slot\<lparr>expires_at := now + lease_secs\<rparr>);
            a \<leftarrow> address_of table i;
            Some (DHCP_OK, table\<lparr>slots := sl\<rparr>, Some a)
          }
        | (None, Some i) \<Rightarrow> do {
            slot \<leftarrow> fetch (slots table) i;
            v \<leftarrow> slice key 0 (unat key_len);
            k \<leftarrow> blit (slot_key slot) 0 v;
            sl \<leftarrow> poke (slots table) i (slot\<lparr>slot_state := LEASE_ST_OFFERED, expires_at := now + 60,
                    slot_key := k, slot_key_len := key_len\<rparr>);
            a \<leftarrow> address_of table i;
            Some (DHCP_OK, table\<lparr>slots := sl\<rparr>, Some a)
          }
        | (None, None) \<Rightarrow> Some (DHCP_OK, table, None)
      })"

section \<open>The journal\<close>

definition header_magic :: "u8 list" where "header_magic = [0x4c, 0x48, 0x44, 0x52]"
definition record_magic :: "u8 list" where "record_magic = [0x4c, 0x53, 0x4c, 0x54]"
definition JOURNAL_VER :: u8 where "JOURNAL_VER = 1"

definition serialize_record :: "lease_slot_t \<Rightarrow> u8 list \<Rightarrow> u8 list option" where
  "serialize_record slot addr = do {
     a \<leftarrow> slice addr 0 4;
     key \<leftarrow> slice (slot_key slot) 0 16;
     let buffer = record_magic @ [slot_state slot, slot_key_len slot] @ a @
       [ucast (expires_at slot), ucast (drop_bit 8 (expires_at slot)), ucast (drop_bit 16 (expires_at slot)),
        ucast (drop_bit 24 (expires_at slot))] @ key @ [0];
     Some (buffer @ [ucast (crc_list buffer)])
   }"

definition write_record :: "'d bus \<Rightarrow> u8 list \<Rightarrow> 'd flash_state \<Rightarrow> 'd flash_state option" where
  "write_record bus record fs = flash_append_journal bus (words_of_bytes record) fs"

fun compact_loop :: "'d bus \<Rightarrow> lease_table_t \<Rightarrow> nat list \<Rightarrow> 'd flash_state \<Rightarrow> 'd flash_state option" where
  "compact_loop bus table [] fs = Some fs"
| "compact_loop bus table (i # is) fs = do {
     slot \<leftarrow> fetch (slots table) i;
     if slot_state slot = LEASE_ST_FREE then compact_loop bus table is fs
     else do {
       addr \<leftarrow> address_of table i;
       rec \<leftarrow> serialize_record slot addr;
       fs \<leftarrow> write_record bus rec fs;
       compact_loop bus table is fs
     }
   }"

definition journal_header :: "lease_table_t \<Rightarrow> u8 list option" where
  "journal_header table = do {
     a \<leftarrow> slice (start_addr table) 0 4;
     let buffer = header_magic @ [0, JOURNAL_VER, 0, 32] @ a;
     Some (buffer @ [table_size table, ucast (crc_list buffer), 0, 0])
   }"

definition journal_compact :: "'d bus \<Rightarrow> lease_table_t \<Rightarrow> 'd flash_state \<Rightarrow> 'd flash_state option" where
  "journal_compact bus table fs = do {
     hdr \<leftarrow> journal_header table;
     fs \<leftarrow> flash_program_journal bus (words_of_bytes hdr) (flash_journal_reset_write_pointer fs);
     compact_loop bus table [0..<unat (table_size table)] fs
   }"

text \<open>One record applied to the table.\<close>

definition load_record :: "lease_table_t \<Rightarrow> u8 list \<Rightarrow> lease_table_t option" where
  "load_record table b = do {
     s3 \<leftarrow> fetch (start_addr table) 3;
     let idx = b ! 9 - s3;
     if idx \<ge> table_size table then Some table
     else do {
       slot \<leftarrow> fetch (slots table) (unat idx);
       sl \<leftarrow> poke (slots table) (unat idx) (slot\<lparr>slot_state := b ! 4, slot_key_len := b ! 5,
               expires_at := word_of_bytes (b ! 10) (b ! 11) (b ! 12) (b ! 13), slot_key := take 16 (drop 14 b)\<rparr>);
       Some (table\<lparr>slots := sl\<rparr>)
     }
   }"

partial_function (option) load_loop :: "'d bus \<Rightarrow> lease_table_t \<Rightarrow> 'd flash_state \<Rightarrow> bool \<Rightarrow>
    (lease_table_t \<times> 'd flash_state \<times> bool) option" where
  "load_loop bus table fs should_compact =
     (let (ws, fs) = flash_read_journal bus 8 fs; b = bytes_of_words ws in
      if take 4 b \<noteq> record_magic then Some (table, fs, should_compact)
      else if (ucast (crc_list (take 31 b)) :: u8) \<noteq> b ! 31 then load_loop bus table fs True
      else Option.bind (load_record table b) (\<lambda>table. load_loop bus table fs should_compact))"

declare load_loop.simps [code]

definition load_lease_table :: "'d bus \<Rightarrow> lease_table_t \<Rightarrow> 'd flash_state \<Rightarrow>
    (lease_table_t \<times> 'd flash_state \<times> bool) option" where
  "load_lease_table bus table fs =
     (let (ws, fs) = flash_read_journal bus 4 fs; h = bytes_of_words ws in
      if take 4 h \<noteq> header_magic \<or> h ! 4 \<noteq> 0 \<or> h ! 5 \<noteq> JOURNAL_VER \<or> h ! 6 \<noteq> 0 \<or> h ! 7 \<noteq> 32 \<or>
         take 4 (drop 8 h) \<noteq> take 4 (start_addr table) \<or> h ! 12 \<noteq> table_size table
      then Some (table, flash_journal_reset_read_pointer fs, True)
      else do {
        (table, fs, should_compact) \<leftarrow> load_loop bus table fs False;
        Some (table, flash_journal_set_write_pointer (- 8) fs, should_compact)
      })"

definition zero_slot :: lease_slot_t where
  "zero_slot = \<lparr>slot_state = LEASE_ST_FREE, slot_key = replicate 16 0, slot_key_len = 0, expires_at = 0\<rparr>"

text \<open>\<open>all_slots\<close> is the pointer \<open>sys_malloc\<close> returns; the code clears the block without a check for NULL.\<close>

definition setup_lease_table :: "'d bus \<Rightarrow> ptr \<Rightarrow> dhcp_cfg_t \<Rightarrow> 'd flash_state \<Rightarrow> (lease_table_t \<times> 'd flash_state) option" where
  "setup_lease_table bus all_slots cfg fs = do {
     e \<leftarrow> fetch (cfg_end_addr cfg) 3;
     s \<leftarrow> fetch (cfg_start_addr cfg) 3;
     let lease_table_size = e - s + 1;
     if all_slots = 0 \<and> lease_table_size \<noteq> 0 then None
     else do {
       a \<leftarrow> slice (cfg_start_addr cfg) 0 4;
       let table = \<lparr>slots = replicate (unat lease_table_size) zero_slot, table_size = lease_table_size, start_addr = a\<rparr>;
       (table, fs, should_compact) \<leftarrow> load_lease_table bus table fs;
       if should_compact then do {
         fs \<leftarrow> journal_compact bus table fs;
         Some (table, fs)
       } else Some (table, fs)
     }
   }"

section \<open>Messages of clients\<close>

text \<open>The slot of an address, by its last byte.\<close>

definition slot_index :: "lease_table_t \<Rightarrow> u8 list \<Rightarrow> nat option option" where
  "slot_index table addr = do {
     a \<leftarrow> fetch addr 3;
     s \<leftarrow> fetch (start_addr table) 3;
     let slot_idx = uint a - uint s;
     if slot_idx < 0 \<or> slot_idx \<ge> uint (table_size table) then Some None
     else Some (Some (nat slot_idx))
   }"

definition dhcp_handle_decline :: "(nat \<Rightarrow> u32) \<Rightarrow> dhcp_msg_t \<Rightarrow> lease_table_t \<Rightarrow> lease_table_t option" where
  "dhcp_handle_decline up msg table =
     (if \<not> has_requested_ip msg then Some table
      else do {
        idx \<leftarrow> slot_index table (requested_ip msg);
        case idx of
          None \<Rightarrow> Some table
        | Some i \<Rightarrow> do {
            slot \<leftarrow> fetch (slots table) i;
            differs \<leftarrow> key_differs slot (lease_key msg) (lease_key_length msg);
            if differs then Some table
            else do {
              sl \<leftarrow> poke (slots table) i (slot\<lparr>slot_state := LEASE_ST_DECLINED, expires_at := up 0 div 1000 + 300\<rparr>);
              Some (table\<lparr>slots := sl\<rparr>)
            }
          }
      })"

definition dhcp_handle_release ::
  "'d bus \<Rightarrow> dhcp_msg_t \<Rightarrow> lease_table_t \<Rightarrow> 'd flash_state \<Rightarrow> (lease_table_t \<times> 'd flash_state) option" where
  "dhcp_handle_release bus msg table fs = do {
     idx \<leftarrow> slot_index table (ciaddr msg);
     case idx of
       None \<Rightarrow> Some (table, fs)
     | Some i \<Rightarrow> do {
         slot \<leftarrow> fetch (slots table) i;
         differs \<leftarrow> key_differs slot (lease_key msg) (lease_key_length msg);
         if differs then Some (table, fs)
         else do {
           let slot = slot\<lparr>slot_state := LEASE_ST_FREE, expires_at := 0\<rparr>;
           sl \<leftarrow> poke (slots table) i slot;
           rec \<leftarrow> serialize_record slot (ciaddr msg);
           fs \<leftarrow> write_record bus rec fs;
           Some (table\<lparr>slots := sl\<rparr>, fs)
         }
       }
   }"

text \<open>The arguments of a send for a reply in the buffer; the hardware address is copied only if it is used.\<close>

definition send_args :: "u8 list \<Rightarrow> u16 \<Rightarrow> dhcp_dest_t \<Rightarrow> net_send_args_t \<Rightarrow> net_send_args_t" where
  "send_args buf len dest args =
     args\<lparr>tx_data := Some buf, tx_length := len, dst_port := dest_port dest, use_mac := dest_use_mac dest,
          dst_ip := dest_ip dest,
          mac := (case dest_mac dest of Some m \<Rightarrow> if dest_use_mac dest then m else mac args | None \<Rightarrow> mac args)\<rparr>"

text \<open>
  Both handlers that reply return the status, the arguments of the send, the table, and the reply
  buffer; \<open>args\<close> are the arguments before the call.
\<close>

definition dhcp_build_offer_args :: "(nat \<Rightarrow> u32) \<Rightarrow> dhcp_msg_t \<Rightarrow> dhcp_cfg_t \<Rightarrow> u8 list \<Rightarrow> u8 list \<Rightarrow> u16 \<Rightarrow>
    net_send_args_t \<Rightarrow> lease_table_t \<Rightarrow> (dhcp_status_t \<times> net_send_args_t \<times> lease_table_t \<times> u8 list) option" where
  "dhcp_build_offer_args up msg cfg net_buffer reply_buffer reply_size args table = do {
     (_, table, chosen) \<leftarrow> chose_address up table (lease_key msg) (lease_key_length msg) (lease_time cfg);
     case chosen of
       None \<Rightarrow> Some (DHCP_ERR_ARG, args, table, reply_buffer)
     | Some addr \<Rightarrow> do {
         (st, reply_buffer, offer_length) \<leftarrow>
           dhcp_build_reply net_buffer msg DHCP_MSG_OFFER (Some cfg) addr reply_buffer reply_size;
         if st \<noteq> DHCP_OK then Some (st, args, table, reply_buffer)
         else Some (DHCP_OK, send_args reply_buffer offer_length (dhcp_chose_destination msg addr) args, table, reply_buffer)
       }
   }"

definition dhcp_handle_request :: "'d bus \<Rightarrow> (nat \<Rightarrow> u32) \<Rightarrow> dhcp_msg_t \<Rightarrow> dhcp_cfg_t \<Rightarrow> u8 list \<Rightarrow> u8 list \<Rightarrow> u16 \<Rightarrow>
    net_send_args_t \<Rightarrow> lease_table_t \<Rightarrow> 'd flash_state \<Rightarrow>
    (dhcp_status_t \<times> net_send_args_t \<times> lease_table_t \<times> 'd flash_state \<times> u8 list) option" where
  "dhcp_handle_request bus up msg cfg net_buffer reply_buffer reply_size args table fs =
     (if has_server_id msg \<and> take 4 (msg_server_id msg) \<noteq> take 4 (cfg_server_id cfg)
      then Some (DHCP_ERR_ARG, args, table, fs, reply_buffer)
      else do {
        requested_addr \<leftarrow> (if has_requested_ip msg then slice (requested_ip msg) 0 4 else slice (ciaddr msg) 0 4);
        idx \<leftarrow> slot_index table requested_addr;
        case idx of
          None \<Rightarrow> Some (DHCP_ERR_ARG, args, table, fs, reply_buffer)
        | Some i \<Rightarrow> do {
            slot \<leftarrow> fetch (slots table) i;
            differs \<leftarrow> (if slot_alive slot (up 0 div 1000) then key_differs slot (lease_key msg) (lease_key_length msg)
                        else Some True);
            if differs then Some (DHCP_OK, zero_args, table, fs, reply_buffer)
            else do {
              let slot = slot\<lparr>slot_state := LEASE_ST_BOUND, expires_at := up 1 div 1000 + lease_time cfg\<rparr>;
              sl \<leftarrow> poke (slots table) i slot;
              rec \<leftarrow> serialize_record slot requested_addr;
              fs \<leftarrow> write_record bus rec fs;
              (st, reply_buffer, ack_length) \<leftarrow>
                dhcp_build_reply net_buffer msg DHCP_MSG_ACK (Some cfg) requested_addr reply_buffer reply_size;
              if st \<noteq> DHCP_OK then Some (st, args, table\<lparr>slots := sl\<rparr>, fs, reply_buffer)
              else Some (DHCP_OK, send_args reply_buffer ack_length (dhcp_chose_destination msg requested_addr) args,
                     table\<lparr>slots := sl\<rparr>, fs, reply_buffer)
            }
          }
      })"

section \<open>The server task\<close>

text \<open>
  What the task keeps between messages. One round of its loop takes what the receive call delivered (the
  status, the number of bytes and the contents of the buffer) and yields the send it makes, if any.
  \<open>args\<close> are the uninitialised arguments on the stack of the round.
\<close>

record 'd dhcp_server =
  lease_table :: lease_table_t
  journal_flash :: "'d flash_state"
  received_msg :: "dhcp_msg_t"
  dhcp_reply_buffer :: "u8 list"

definition dhcp_reply_buffer_size :: u16 where "dhcp_reply_buffer_size = 1000"

definition dhcp_dispatch :: "'d bus \<Rightarrow> (nat \<Rightarrow> u32) \<Rightarrow> dhcp_cfg_t \<Rightarrow> net_send_args_t \<Rightarrow> u8 list \<Rightarrow>
    'd dhcp_server \<Rightarrow> (net_send_args_t option \<times> 'd dhcp_server) option" where
  "dhcp_dispatch bus up cfg args net_buffer s =
     (let msg = received_msg s in
      if msg_op msg \<noteq> BOOTREQUEST \<or> \<not> has_message_type msg then Some (None, s)
      else if message_type msg = DHCP_MSG_DISCOVER then do {
        (st, args, table, buf) \<leftarrow> dhcp_build_offer_args up msg cfg net_buffer (dhcp_reply_buffer s)
           dhcp_reply_buffer_size args (lease_table s);
        Some (if st \<noteq> DHCP_OK then None else Some args, s\<lparr>lease_table := table, dhcp_reply_buffer := buf\<rparr>)
      }
      else if message_type msg = DHCP_MSG_REQUEST then do {
        (st, args, table, fs, buf) \<leftarrow> dhcp_handle_request bus up msg cfg net_buffer (dhcp_reply_buffer s)
           dhcp_reply_buffer_size args (lease_table s) (journal_flash s);
        Some (if st \<noteq> DHCP_OK \<or> args = zero_args then None else Some args,
              s\<lparr>lease_table := table, journal_flash := fs, dhcp_reply_buffer := buf\<rparr>)
      }
      else if message_type msg = DHCP_MSG_DECLINE then do {
        table \<leftarrow> dhcp_handle_decline up msg (lease_table s);
        (st, args, table, buf) \<leftarrow> dhcp_build_offer_args (\<lambda>n. up (n + 1)) msg cfg net_buffer (dhcp_reply_buffer s)
           dhcp_reply_buffer_size args table;
        Some (if st \<noteq> DHCP_OK then None else Some args, s\<lparr>lease_table := table, dhcp_reply_buffer := buf\<rparr>)
      }
      else if message_type msg = DHCP_MSG_RELEASE then do {
        (table, fs) \<leftarrow> dhcp_handle_release bus msg (lease_table s) (journal_flash s);
        Some (None, s\<lparr>lease_table := table, journal_flash := fs\<rparr>)
      }
      else Some (None, s))"

definition dhcp_round :: "'d bus \<Rightarrow> (nat \<Rightarrow> u32) \<Rightarrow> dhcp_cfg_t \<Rightarrow> net_send_args_t \<Rightarrow> net_status_t \<Rightarrow> u16 \<Rightarrow> u8 list \<Rightarrow>
    'd dhcp_server \<Rightarrow> (net_send_args_t option \<times> 'd dhcp_server) option" where
  "dhcp_round bus up cfg args status got net_buffer s =
     (if status = NET_STATUS_OK \<and> got \<noteq> 0 then do {
        (dhcp_status, msg) \<leftarrow> dhcp_parse (Some net_buffer) got (Some (received_msg s));
        let s = s\<lparr>received_msg := the msg\<rparr>;
        if dhcp_status \<noteq> DHCP_OK then Some (None, s)
        else dhcp_dispatch bus up cfg args net_buffer s
      }
      else Some (None, s))"

section \<open>The search for an address\<close>

definition slot_wf :: "lease_slot_t \<Rightarrow> bool" where
  "slot_wf slot \<longleftrightarrow> length (slot_key slot) = 16"

definition table_wf :: "lease_table_t \<Rightarrow> bool" where
  "table_wf t \<longleftrightarrow> length (slots t) = unat (table_size t) \<and> length (start_addr t) = 4 \<and> (\<forall>slot \<in> set (slots t). slot_wf slot)"

text \<open>The slot belongs to the client with key \<open>K\<close>.\<close>

definition holds_key :: "lease_slot_t \<Rightarrow> u8 list \<Rightarrow> bool" where
  "holds_key slot K \<longleftrightarrow> unat (slot_key_len slot) = length K \<and> take (length K) (slot_key slot) = K"

lemma key_differs_iff:
  assumes "slot_wf slot" "length key = 16" "len \<le> LEASE_KEY_CAP"
  shows "key_differs slot key len = Some (\<not> holds_key slot (take (unat len) key))"
proof -
  have "unat len \<le> 16" using assms(3) by (simp add: LEASE_KEY_CAP_def word_le_nat_alt)
  then have "unat (slot_key_len slot) = length (take (unat len) key) \<longleftrightarrow> len = slot_key_len slot"
    using assms(2) by (auto simp: min_absorb2 word_unat_eq_iff)
  with \<open>unat len \<le> 16\<close> assms(1,2) show ?thesis
    by (auto simp: key_differs_def holds_key_def slot_wf_def min_absorb2)
qed

lemma slot_alive_free: "(slot_state slot = LEASE_ST_FREE \<or> \<not> slot_alive slot t) \<longleftrightarrow> \<not> slot_alive slot t"
  by (auto simp: slot_alive_def)

definition own_slot :: "lease_slot_t list \<Rightarrow> u8 list \<Rightarrow> nat \<Rightarrow> bool" where
  "own_slot sl K i \<longleftrightarrow> holds_key (sl ! i) K \<and> slot_state (sl ! i) \<noteq> LEASE_ST_DECLINED"

definition free_at :: "(nat \<Rightarrow> u32) \<Rightarrow> lease_slot_t list \<Rightarrow> nat \<Rightarrow> bool" where
  "free_at up sl i \<longleftrightarrow> \<not> slot_alive (sl ! i) (up i div 1000)"

text \<open>The first index of a range with a property, for the reference definition of the search.\<close>

definition first_in :: "nat \<Rightarrow> nat \<Rightarrow> (nat \<Rightarrow> bool) \<Rightarrow> nat option" where
  "first_in i n P = find P [i..<n]"

lemma first_in_step: "i < n \<Longrightarrow> first_in i n P = (if P i then Some i else first_in (i + 1) n P)"
  by (simp add: first_in_def upt_conv_Cons)

lemma first_in_end: "\<not> i < n \<Longrightarrow> first_in i n P = None"
  by (simp add: first_in_def)

lemma first_in_Some: "first_in i n P = Some j \<longleftrightarrow> i \<le> j \<and> j < n \<and> P j \<and> (\<forall>k. i \<le> k \<and> k < j \<longrightarrow> \<not> P k)"
  (is "_ \<longleftrightarrow> ?R")
proof
  assume "first_in i n P = Some j"
  then obtain k where k: "k < n - i" "P (i + k)" "j = i + k" "\<forall>l<k. \<not> P (i + l)"
    by (auto simp: first_in_def find_Some_iff)
  have "\<not> P m" if "i \<le> m" "m < j" for m using k(3,4) that by (metis le_Suc_ex nat_add_left_cancel_less)
  with k show ?R by auto
next
  assume R: ?R
  then have "j - i < length [i..<n]" "[i..<n] ! (j - i) = j" by auto
  moreover have "\<not> P ([i..<n] ! l)" if "l < j - i" for l using R that by auto
  ultimately show "first_in i n P = Some j" using R by (auto simp: first_in_def find_Some_iff)
qed

lemma first_in_None: "first_in i n P = None \<longleftrightarrow> (\<forall>k. i \<le> k \<and> k < n \<longrightarrow> \<not> P k)"
  by (auto simp: first_in_def find_None_iff)

text \<open>The loop computes both searches in one pass; it stops at the client's own slot.\<close>

lemma chose_loop_search:
  assumes "n \<le> length sl" "\<forall>slot \<in> set sl. slot_wf slot" "length key = 16" "len \<le> LEASE_KEY_CAP"
  shows "chose_loop up sl key len n i ff =
     (let found = first_in i n (own_slot sl (take (unat len) key)) in
      Some (found, case ff of Some f \<Rightarrow> Some f
              | None \<Rightarrow> first_in i (case found of Some f \<Rightarrow> f + 1 | None \<Rightarrow> n) (free_at up sl)))"
proof (induction "n - i" arbitrary: i ff)
  case 0
  then show ?case by (subst chose_loop.simps) (simp add: first_in_end split: option.split)
next
  case (Suc d)
  then have i: "i < n" by simp
  have IH: "\<And>ff. chose_loop up sl key len n (i + 1) ff =
     (let found = first_in (i + 1) n (own_slot sl (take (unat len) key)) in
      Some (found, case ff of Some f \<Rightarrow> Some f
              | None \<Rightarrow> first_in (i + 1) (case found of Some f \<Rightarrow> f + 1 | None \<Rightarrow> n) (free_at up sl)))"
    by (rule Suc.hyps(1)) (use Suc.hyps(2) in simp)
  have sl: "sl ! i \<in> set sl" using i assms(1) by simp
  have kd: "key_differs (sl ! i) key len = Some (\<not> holds_key (sl ! i) (take (unat len) key))"
    using key_differs_iff assms(2-4) sl by blast
  have lt: "i < (case first_in (i + 1) n (own_slot sl (take (unat len) key)) of Some f \<Rightarrow> f + 1 | None \<Rightarrow> n)"
    using i by (auto split: option.split simp: first_in_Some)
  show ?case
    using i assms(1) IH first_in_step [OF i, of "own_slot sl (take (unat len) key)"] first_in_step [OF lt, of "free_at up sl"]
      first_in_step [of i "i + 1" "free_at up sl"]
    by (subst chose_loop.simps)
      (auto simp: kd slot_alive_free own_slot_def free_at_def first_in_end Let_def split: option.split)
qed

definition addr_of :: "lease_table_t \<Rightarrow> nat \<Rightarrow> u8 list" where
  "addr_of t i = take 3 (start_addr t) @ [start_addr t ! 3 + of_nat i]"

lemma length_addr_of [simp]: "table_wf t \<Longrightarrow> length (addr_of t i) = 4"
  by (simp add: addr_of_def table_wf_def)

lemma address_of_ok: "table_wf t \<Longrightarrow> address_of t i = Some (addr_of t i)"
  by (auto simp: address_of_def addr_of_def table_wf_def numeral_eq_Suc length_Suc_conv)

definition offered :: "lease_slot_t \<Rightarrow> u8 list \<Rightarrow> u32 \<Rightarrow> lease_slot_t" where
  "offered slot K now = slot\<lparr>slot_state := LEASE_ST_OFFERED, expires_at := now + 60,
     slot_key := K @ drop (length K) (slot_key slot), slot_key_len := of_nat (length K)\<rparr>"

lemma chose_address_cases:
  assumes wf: "table_wf t" and key: "length key = 16" "len \<le> LEASE_KEY_CAP" "len \<noteq> 0"
    and K: "K = take (unat len) key" and n: "n = unat (table_size t)" and now: "now = up n div 1000"
  obtains (own) i where "i < n" "own_slot (slots t) K i" "\<And>j. j < i \<Longrightarrow> \<not> own_slot (slots t) K j"
      "chose_address up t key len lsecs =
         Some (DHCP_OK, t\<lparr>slots := (slots t)[i := (slots t ! i)\<lparr>expires_at := now + lsecs\<rparr>]\<rparr>, Some (addr_of t i))"
  | (new) i where "i < n" "free_at up (slots t) i" "\<And>j. j < i \<Longrightarrow> \<not> free_at up (slots t) j"
      "\<And>j. j < n \<Longrightarrow> \<not> own_slot (slots t) K j"
      "chose_address up t key len lsecs =
         Some (DHCP_OK, t\<lparr>slots := (slots t)[i := offered (slots t ! i) K now]\<rparr>, Some (addr_of t i))"
  | (none) "\<And>j. j < n \<Longrightarrow> \<not> own_slot (slots t) K j \<and> \<not> free_at up (slots t) j"
      "chose_address up t key len lsecs = Some (DHCP_OK, t, None)"
proof -
  have len: "unat len \<le> 16" "\<not> len > LEASE_KEY_CAP" "length K = unat len" "of_nat (unat len) = len"
    using key K by (simp_all add: LEASE_KEY_CAP_def word_le_nat_alt not_less min_absorb2)
  have sl: "length (slots t) = n" "\<And>i. i < n \<Longrightarrow> length (slot_key (slots t ! i)) = 16"
    using wf n by (auto simp: table_wf_def slot_wf_def)
  define found where "found = first_in 0 n (own_slot (slots t) K)"
  have loop: "chose_loop up (slots t) key len n 0 None =
      Some (found, first_in 0 (case found of Some f \<Rightarrow> f + 1 | None \<Rightarrow> n) (free_at up (slots t)))"
    using chose_loop_search [of n "slots t" key len up 0 None] wf n key by (simp add: table_wf_def found_def K Let_def)
  show thesis
  proof (cases found)
    case (Some i)
    then have i: "i < n" "own_slot (slots t) K i" "\<And>j. j < i \<Longrightarrow> \<not> own_slot (slots t) K j"
      by (auto simp: found_def first_in_Some)
    with Some loop key len sl address_of_ok [OF wf] show thesis
      by (intro own [of i]) (simp_all add: chose_address_def flip: n now)
  next
    case None
    then have no: "\<And>j. j < n \<Longrightarrow> \<not> own_slot (slots t) K j" by (auto simp: found_def first_in_None)
    show thesis
    proof (cases "first_in 0 n (free_at up (slots t))")
      case None
      then have "\<And>j. j < n \<Longrightarrow> \<not> free_at up (slots t) j" by (auto simp: first_in_None)
      with None no \<open>found = None\<close> loop key len show thesis by (intro none) (simp_all add: chose_address_def flip: n)
    next
      case (Some i)
      then have i: "i < n" "free_at up (slots t) i" "\<And>j. j < i \<Longrightarrow> \<not> free_at up (slots t) j"
        by (auto simp: first_in_Some)
      with Some no \<open>found = None\<close> loop key len sl address_of_ok [OF wf] show thesis
        by (intro new [of i]) (simp_all add: chose_address_def offered_def min_absorb2 flip: n now K)
    qed
  qed
qed

section \<open>Records\<close>

text \<open>A record with the right magic and checksum, and its effect on the slots of a table.\<close>

definition rec_ok :: "u8 list \<Rightarrow> bool" where
  "rec_ok b \<longleftrightarrow> length b = 32 \<and> take 4 b = record_magic \<and> b ! 31 = ucast (crc_list (take 31 b))"

definition slot_of_rec :: "u8 list \<Rightarrow> lease_slot_t" where
  "slot_of_rec b = \<lparr>slot_state = b ! 4, slot_key = take 16 (drop 14 b), slot_key_len = b ! 5,
     expires_at = word_of_bytes (b ! 10) (b ! 11) (b ! 12) (b ! 13)\<rparr>"

definition apply_rec :: "u8 \<Rightarrow> u8 list \<Rightarrow> lease_slot_t list \<Rightarrow> lease_slot_t list" where
  "apply_rec base b sl = (if unat (b ! 9 - base) < length sl then sl[unat (b ! 9 - base) := slot_of_rec b] else sl)"

lemma length_apply_rec [simp]: "length (apply_rec base b sl) = length sl"
  by (simp add: apply_rec_def)

lemma length_fold_apply_rec [simp]: "length (fold (apply_rec base) bs sl) = length sl"
  by (induction bs arbitrary: sl) simp_all

lemma slot_all_fields:
  "(slot :: lease_slot_t)\<lparr>slot_state := st, slot_key_len := n, expires_at := e, slot_key := k\<rparr> =
   \<lparr>slot_state = st, slot_key = k, slot_key_len = n, expires_at = e\<rparr>"
  by (cases slot) simp

lemma load_record_ok:
  assumes "table_wf t"
  shows "load_record t b = Some (t\<lparr>slots := apply_rec (start_addr t ! 3) b (slots t)\<rparr>)"
  using assms by (auto simp: load_record_def apply_rec_def slot_of_rec_def table_wf_def word_le_nat_alt Let_def slot_all_fields)

lemma table_wf_apply_rec:
  assumes "table_wf t" "length b = 32"
  shows "table_wf (t\<lparr>slots := apply_rec base b (slots t)\<rparr>)"
  using assms set_update_subset_insert [of "slots t" "unat (b ! 9 - base)" "slot_of_rec b"]
  by (auto simp: table_wf_def apply_rec_def slot_wf_def slot_of_rec_def)

lemma serialize_record_ok:
  assumes "slot_wf slot" "length addr = 4"
  shows "\<exists>b. serialize_record slot addr = Some b \<and> rec_ok b \<and> slot_of_rec b = slot \<and> b ! 9 = addr ! 3"
proof -
  obtain a0 a1 a2 a3 where a: "addr = [a0, a1, a2, a3]" using assms(2) by (auto simp: numeral_eq_Suc length_Suc_conv)
  have key: "length (slot_key slot) = 16" using assms(1) by (simp add: slot_wf_def)
  let ?e = "expires_at slot"
  define buf where "buf = record_magic @ [slot_state slot, slot_key_len slot] @ addr @
     [ucast ?e, ucast (drop_bit 8 ?e), ucast (drop_bit 16 ?e), ucast (drop_bit 24 ?e)] @ slot_key slot @ [0]"
  have len: "length buf = 31" using key by (simp add: buf_def a record_magic_def)
  have "serialize_record slot addr = Some (buf @ [ucast (crc_list buf)])"
    using key a by (simp add: serialize_record_def buf_def)
  moreover have "rec_ok (buf @ [ucast (crc_list buf)])"
    using len by (simp add: rec_ok_def nth_append) (simp add: buf_def record_magic_def)
  moreover have "slot_of_rec (buf @ [ucast (crc_list buf)]) = slot" "(buf @ [ucast (crc_list buf)]) ! 9 = addr ! 3"
    using key by (simp_all add: slot_of_rec_def buf_def record_magic_def a nth_append word_of_bytes_of_word)
  ultimately show ?thesis by blast
qed

lemma journal_header_ok:
  assumes "table_wf t"
  shows "\<exists>h. journal_header t = Some h \<and> length h = 16 \<and> take 4 h = header_magic \<and> h ! 4 = 0 \<and> h ! 5 = JOURNAL_VER \<and>
     h ! 6 = 0 \<and> h ! 7 = 32 \<and> take 4 (drop 8 h) = start_addr t \<and> h ! 12 = table_size t"
proof -
  obtain a0 a1 a2 a3 where a: "start_addr t = [a0, a1, a2, a3]"
    using assms by (auto simp: table_wf_def numeral_eq_Suc length_Suc_conv)
  then show ?thesis by (simp add: journal_header_def header_magic_def)
qed

text \<open>The words of a journal with a header and records.\<close>

definition journal_words :: "u8 list \<Rightarrow> u8 list list \<Rightarrow> u32 list" where
  "journal_words h recs = words_of_bytes h @ concat (map words_of_bytes recs)"

lemma length_words_rec: "rec_ok b \<Longrightarrow> length (words_of_bytes b) = 8"
  using length_words_of_bytes [of b 8] by (simp add: rec_ok_def)

lemma length_concat_recs: "\<forall>b \<in> set recs. rec_ok b \<Longrightarrow> length (concat (map words_of_bytes recs)) = 8 * length recs"
  by (induction recs) (simp_all add: length_words_rec)

lemma journal_words_snoc: "journal_words h (recs @ [b]) = journal_words h recs @ words_of_bytes b"
  by (simp add: journal_words_def)

lemma length_journal_words:
  "length h = 16 \<Longrightarrow> \<forall>b \<in> set recs. rec_ok b \<Longrightarrow> length (journal_words h recs) = 4 + 8 * length recs"
  using length_words_of_bytes [of h 4] by (simp add: journal_words_def length_concat_recs)

section \<open>Recovery from the journal\<close>

lemma erased_no_record: "take 4 (bytes_of_words (replicate 8 (- 1))) \<noteq> record_magic"
proof -
  have "(ucast (- 1 :: u32) :: u8) = - 1" by (rule bit_word_eqI) (simp add: bit_simps)
  moreover have "hd (take 4 (bytes_of_words (replicate n w))) = ucast w" if "0 < n" for n w
    using that by (cases n) (simp_all add: bytes_of_words_def bytes_of_word_def)
  ultimately have "hd (take 4 (bytes_of_words (replicate 8 (- 1)))) = - 1" by simp
  moreover have "hd record_magic \<noteq> - 1" by (simp add: record_magic_def)
  ultimately show ?thesis by metis
qed

context flash_hw
begin

lemma write_record_ok:
  assumes "holds fs ws" "journal_wp fs = length ws" "rec_ok b" "length ws + 8 \<le> SECTOR_WORDS"
  shows "\<exists>fs'. write_record bus b fs = Some fs' \<and> holds fs' (ws @ words_of_bytes b) \<and>
     journal_wp fs' = length ws + 8 \<and> journal_rp fs' = journal_rp fs"
  using append_holds [OF assms(1,2), of "words_of_bytes b"] assms(3,4) by (simp add: write_record_def length_words_rec)

text \<open>Loading stops at the erased words behind the last record and applies the records in order.\<close>

lemma load_loop_records:
  assumes "\<forall>b \<in> set recs. rec_ok b" "holds fs ws" "ws = pre @ concat (map words_of_bytes recs)" "journal_rp fs = length pre"
    "length ws + 8 \<le> SECTOR_WORDS" "table_wf t"
  shows "\<exists>fs'. load_loop bus t fs c = Some (t\<lparr>slots := fold (apply_rec (start_addr t ! 3)) recs (slots t)\<rparr>, fs', c) \<and>
     holds fs' ws \<and> journal_rp fs' = length ws + 8"
  using assms
proof (induction recs arbitrary: pre fs t)
  case Nil
  then obtain fs' where rd: "flash_read_journal bus 8 fs = (replicate 8 (- 1), fs')" "holds fs' ws" "journal_rp fs' = length ws + 8"
    using read_behind [of fs ws 8] by auto
  then show ?case using erased_no_record by (subst load_loop.simps) simp
next
  case (Cons b recs)
  have b: "rec_ok b" "length (words_of_bytes b) = 8" "bytes_of_words (words_of_bytes b) = b"
    using Cons.prems(1) length_words_rec bytes_of_words_of_bytes [of b 8] by (auto simp: rec_ok_def)
  obtain fs' where rd: "flash_read_journal bus 8 fs = (words_of_bytes b, fs')" "holds fs' ws" "journal_rp fs' = length pre + 8"
    using read_holds [OF Cons.prems(2), of 8] Cons.prems(3,4) b(2) by auto
  let ?t = "t\<lparr>slots := apply_rec (start_addr t ! 3) b (slots t)\<rparr>"
  have wf: "table_wf ?t" using table_wf_apply_rec [OF Cons.prems(6)] b(1) by (simp add: rec_ok_def)
  have "load_loop bus t fs c = load_loop bus ?t fs' c"
    using rd(1) b load_record_ok [OF Cons.prems(6), of b] by (subst load_loop.simps) (simp add: rec_ok_def)
  moreover have "\<exists>fs''. load_loop bus ?t fs' c =
      Some (?t\<lparr>slots := fold (apply_rec (start_addr ?t ! 3)) recs (slots ?t)\<rparr>, fs'', c) \<and>
      holds fs'' ws \<and> journal_rp fs'' = length ws + 8"
    by (rule Cons.IH [of fs' "pre @ words_of_bytes b"]) (use Cons.prems rd b wf in simp_all)
  ultimately show ?case by simp
qed

lemma load_lease_table_ok:
  assumes wf: "table_wf t" and hdr: "journal_header t = Some h" and recs: "\<forall>b \<in> set recs. rec_ok b"
    and fs: "holds fs (journal_words h recs)" "journal_rp fs = 0" and space: "8 * length recs + 12 \<le> SECTOR_WORDS"
  shows "\<exists>fs'. load_lease_table bus t fs =
       Some (t\<lparr>slots := fold (apply_rec (start_addr t ! 3)) recs (slots t)\<rparr>, fs', False) \<and>
     holds fs' (journal_words h recs) \<and> journal_wp fs' = length (journal_words h recs)"
proof -
  have h: "length h = 16" "take 4 h = header_magic" "h ! 4 = 0" "h ! 5 = JOURNAL_VER" "h ! 6 = 0" "h ! 7 = 32"
    "take 4 (drop 8 h) = start_addr t" "h ! 12 = table_size t"
    using journal_header_ok [OF wf] hdr by auto
  have hw: "length (words_of_bytes h) = 4" "bytes_of_words (words_of_bytes h) = h"
    using h(1) length_words_of_bytes [of h 4] bytes_of_words_of_bytes [of h 4] by auto
  note len = length_journal_words [OF h(1) recs]
  obtain fs1 where fs1: "flash_read_journal bus 4 fs = (words_of_bytes h, fs1)" "holds fs1 (journal_words h recs)"
    "journal_rp fs1 = 4"
    using read_holds [OF fs(1), of 4] fs(2) len hw(1) by (auto simp: journal_words_def)
  obtain fs2 where fs2: "load_loop bus t fs1 False =
      Some (t\<lparr>slots := fold (apply_rec (start_addr t ! 3)) recs (slots t)\<rparr>, fs2, False)"
    "holds fs2 (journal_words h recs)" "journal_rp fs2 = length (journal_words h recs) + 8"
    using load_loop_records [OF recs fs1(2), of "words_of_bytes h" t False] fs1(3) hw(1) len space wf
    by (auto simp: journal_words_def)
  have "length (flash_sector_write_pointer fs2) = 8" "length (flash_sector_read_pointer fs2) = 8"
    using fs2(2) by (simp_all add: holds_def flash_inv_def)
  then have "journal_wp (flash_journal_set_write_pointer (- 8) fs2) = unat (flash_sector_read_pointer fs2 ! 3 - 8)"
    by (simp add: journal_wp_def flash_journal_set_write_pointer_def)
  also have "\<dots> = journal_rp fs2 - 8"
    using fs2(3) by (simp add: journal_rp_def unat_sub word_le_nat_alt)
  finally have "journal_wp (flash_journal_set_write_pointer (- 8) fs2) = length (journal_words h recs)" using fs2(3) by simp
  moreover have "load_lease_table bus t fs = Some (t\<lparr>slots := fold (apply_rec (start_addr t ! 3)) recs (slots t)\<rparr>,
      flash_journal_set_write_pointer (- 8) fs2, False)"
    using wf h fs1(1) fs2(1) hw(2) by (simp add: load_lease_table_def table_wf_def)
  ultimately show ?thesis using fs2(2) by auto
qed

end

lemma table_index:
  assumes "table_wf t" "i < length (slots t)"
  shows "unat (addr_of t i ! 3 - start_addr t ! 3) = i" "length (slots t) \<le> 255"
proof -
  show "length (slots t) \<le> 255" using assms(1) unat_lt2p [of "table_size t"] by (simp add: table_wf_def)
  moreover have "length (take 3 (start_addr t)) = 3" using assms(1) by (simp add: table_wf_def)
  then have "addr_of t i ! 3 = start_addr t ! 3 + of_nat i" by (simp add: addr_of_def nth_append)
  ultimately show "unat (addr_of t i ! 3 - start_addr t ! 3) = i" using assms(2) by (simp add: unat_of_nat)
qed

definition write_back :: "lease_slot_t list \<Rightarrow> nat \<Rightarrow> lease_slot_t list \<Rightarrow> lease_slot_t list" where
  "write_back new i sl = (if slot_state (new ! i) = LEASE_ST_FREE then sl else sl[i := new ! i])"

lemma length_write_back [simp]: "length (write_back new i sl) = length sl"
  by (simp add: write_back_def)

lemma length_fold_write_back [simp]: "length (fold (write_back new) is sl) = length sl"
  by (induction "is" arbitrary: sl) simp_all

lemma fold_write_back_nth:
  "j < length sl \<Longrightarrow> fold (write_back new) is sl ! j =
     (if j \<in> set is \<and> slot_state (new ! j) \<noteq> LEASE_ST_FREE then new ! j else sl ! j)"
proof (induction "is" arbitrary: sl)
  case (Cons i "is")
  then show ?case by (cases "i = j") (auto simp: write_back_def)
qed simp

context flash_hw
begin

lemma compact_loop_ok:
  assumes "table_wf t" "\<forall>i \<in> set is. i < length (slots t)" "holds fs ws" "journal_wp fs = length ws"
    "length ws + 8 * length is \<le> SECTOR_WORDS"
  shows "\<exists>fs' recs. compact_loop bus t is fs = Some fs' \<and> holds fs' (ws @ concat (map words_of_bytes recs)) \<and>
     journal_wp fs' = length (ws @ concat (map words_of_bytes recs)) \<and> (\<forall>b \<in> set recs. rec_ok b) \<and> length recs \<le> length is \<and>
     (\<forall>sl. length sl = length (slots t) \<longrightarrow>
        fold (apply_rec (start_addr t ! 3)) recs sl = fold (write_back (slots t)) is sl)"
  using assms
proof (induction "is" arbitrary: fs ws)
  case Nil
  then show ?case by (auto intro: exI [of _ "[]"])
next
  case (Cons i "is")
  let ?slot = "slots t ! i"
  have i: "i < length (slots t)" using Cons.prems(2) by simp
  then have wf: "slot_wf ?slot" using Cons.prems(1) by (simp add: table_wf_def)
  show ?case
  proof (cases "slot_state ?slot = LEASE_ST_FREE")
    case True
    then have step: "compact_loop bus t (i # is) fs = compact_loop bus t is fs" "write_back (slots t) i = id"
      using i by (auto simp: write_back_def fun_eq_iff)
    have "length ws + 8 * length is \<le> SECTOR_WORDS" using Cons.prems(5) by simp
    from Cons.IH [OF Cons.prems(1) _ Cons.prems(3,4) this] Cons.prems(2) obtain fs' recs where
      r: "compact_loop bus t is fs = Some fs'" "holds fs' (ws @ concat (map words_of_bytes recs))"
      "journal_wp fs' = length (ws @ concat (map words_of_bytes recs))" "\<forall>b \<in> set recs. rec_ok b" "length recs \<le> length is"
      "\<forall>sl. length sl = length (slots t) \<longrightarrow>
        fold (apply_rec (start_addr t ! 3)) recs sl = fold (write_back (slots t)) is sl" by auto
    then show ?thesis unfolding step by (intro exI [of _ fs'] exI [of _ recs]) (simp add: step)
  next
    case False
    obtain b where b: "serialize_record ?slot (addr_of t i) = Some b" "rec_ok b" "slot_of_rec b = ?slot"
      "b ! 9 = addr_of t i ! 3"
      using serialize_record_ok [OF wf, of "addr_of t i"] Cons.prems(1) by auto
    obtain fs1 where fs1: "write_record bus b fs = Some fs1" "holds fs1 (ws @ words_of_bytes b)"
      "journal_wp fs1 = length (ws @ words_of_bytes b)"
      using write_record_ok [OF Cons.prems(3,4) b(2)] Cons.prems(5) length_words_rec [OF b(2)] by auto
    obtain fs' recs where r: "compact_loop bus t is fs1 = Some fs'"
      "holds fs' ((ws @ words_of_bytes b) @ concat (map words_of_bytes recs))"
      "journal_wp fs' = length ((ws @ words_of_bytes b) @ concat (map words_of_bytes recs))"
      "\<forall>b \<in> set recs. rec_ok b" "length recs \<le> length is"
      "\<And>sl. length sl = length (slots t) \<Longrightarrow>
        fold (apply_rec (start_addr t ! 3)) recs sl = fold (write_back (slots t)) is sl"
      using Cons.IH [OF Cons.prems(1) _ fs1(2,3)] Cons.prems(2,5) length_words_rec [OF b(2)] by auto
    have "apply_rec (start_addr t ! 3) b sl = write_back (slots t) i sl" if "length sl = length (slots t)" for sl
      using that i b(3,4) table_index [OF Cons.prems(1) i] False by (simp add: apply_rec_def write_back_def)
    with r False b(1,2) fs1(1) i address_of_ok [OF Cons.prems(1)] show ?thesis
      by (intro exI [of _ fs'] exI [of _ "b # recs"]) auto
  qed
qed

lemma compact_then_load:
  assumes wf: "table_wf t" and inv: "flash_inv cr fs"
    and t0: "t0 = t\<lparr>slots := replicate (length (slots t)) zero_slot\<rparr>"
  shows "\<exists>fs1 fs2. journal_compact bus t fs = Some fs1 \<and>
     load_lease_table bus t0 (flash_reset (flash_dev fs1)) =
       Some (t\<lparr>slots := map (\<lambda>s. if slot_state s = LEASE_ST_FREE then zero_slot else s) (slots t)\<rparr>, fs2, False)"
proof -
  let ?n = "length (slots t)"
  obtain h where h: "journal_header t = Some h" "length h = 16" using journal_header_ok [OF wf] by auto
  have n: "?n \<le> 255" using wf unat_lt2p [of "table_size t"] by (simp add: table_wf_def)
  have hw: "length (words_of_bytes h) = 4" using length_words_of_bytes [of h 4] h(2) by simp
  obtain fs0 where fs0: "flash_program_journal bus (words_of_bytes h) (flash_journal_reset_write_pointer fs) = Some fs0"
    "holds fs0 (words_of_bytes h)" "journal_wp fs0 = length (words_of_bytes h)"
    using program_holds [of "flash_journal_reset_write_pointer fs" "words_of_bytes h"] inv hw
    by (auto simp: SECTOR_WORDS_def)
  obtain fs1 recs where r: "compact_loop bus t [0..<?n] fs0 = Some fs1" "holds fs1 (journal_words h recs)"
    "\<forall>b \<in> set recs. rec_ok b" "length recs \<le> ?n"
    "\<And>sl. length sl = ?n \<Longrightarrow> fold (apply_rec (start_addr t ! 3)) recs sl = fold (write_back (slots t)) [0..<?n] sl"
    using compact_loop_ok [OF wf _ fs0(2,3), of "[0..<?n]"] hw n by (auto simp: SECTOR_WORDS_def journal_words_def)
  have compact: "journal_compact bus t fs = Some fs1"
    using h(1) fs0(1) r(1) wf by (simp add: journal_compact_def table_wf_def)
  have wf0: "table_wf t0" "journal_header t0 = Some h"
    using wf h(1) by (auto simp: t0 table_wf_def slot_wf_def zero_slot_def journal_header_def)
  have "holds (flash_reset (flash_dev fs1)) (journal_words h recs)" "journal_rp (flash_reset (flash_dev fs1)) = 0"
    using r(2) by (simp_all add: holds_def flash_inv_def flash_reset_def journal_rp_def)
  from load_lease_table_ok [OF wf0 r(3) this] r(4) n
  obtain fs2 where fs2: "load_lease_table bus t0 (flash_reset (flash_dev fs1)) =
      Some (t0\<lparr>slots := fold (apply_rec (start_addr t0 ! 3)) recs (slots t0)\<rparr>, fs2, False)"
    by (auto simp: SECTOR_WORDS_def)
  have "fold (write_back (slots t)) [0..<?n] (replicate ?n zero_slot) =
      map (\<lambda>s. if slot_state s = LEASE_ST_FREE then zero_slot else s) (slots t)"
    by (rule nth_equalityI) (auto simp: fold_write_back_nth)
  with compact fs2 r(5) show ?thesis by (simp add: t0)
qed

end

end
