(* ===== verification/Dhcp_Server.thy ===== *)
theory Dhcp_Server
  imports Dhcp_Lease
begin

text \<open>
  The DHCP server as a whole: the effect of each message on the lease table, the reply and the journal.
  Every round of the server returns and keeps its invariant; a live lease is never given to another
  client; the journal restores the acknowledged leases after a restart.
\<close>

section \<open>Effect of the messages\<close>

lemma key_of_length:
  assumes "msg_wf m" "lease_key_length m \<le> LEASE_KEY_CAP"
  shows "length (key_of m) = unat (lease_key_length m)"
  using assms by (simp add: key_of_def msg_wf_def LEASE_KEY_CAP_def word_le_nat_alt min_absorb2)

lemma key_differs_msg:
  "slot_wf slot \<Longrightarrow> msg_wf m \<Longrightarrow> lease_key_length m \<le> LEASE_KEY_CAP \<Longrightarrow>
   key_differs slot (lease_key m) (lease_key_length m) = Some (\<not> holds_key slot (key_of m))"
  by (simp add: key_differs_iff key_of_def msg_wf_def)

lemma slot_index_ok:
  assumes "table_wf t" "length addr = 4"
  shows "\<exists>r. slot_index t addr = Some r \<and>
     (\<forall>i. r = Some i \<longrightarrow> i < length (slots t) \<and> unat (addr ! 3 - start_addr t ! 3) = i)"
proof -
  let ?d = "uint (addr ! 3) - uint (start_addr t ! 3)"
  have "uint (addr ! 3) < 256" using uint_lt2p [of "addr ! 3"] by simp
  then have "?d < 256" using uint_ge_0 [of "start_addr t ! 3"] by linarith
  then have "unat (addr ! 3 - start_addr t ! 3) = nat ?d" if "0 \<le> ?d"
    using mod_pos_pos_trivial [OF that, of 256] by (simp add: unat_eq_nat_uint uint_word_ariths)
  then have d: "0 \<le> ?d \<Longrightarrow> unat (addr ! 3 - start_addr t ! 3) = nat ?d" .
  have f: "fetch addr 3 = Some (addr ! 3)" "fetch (start_addr t) 3 = Some (start_addr t ! 3)"
    "length (slots t) = nat (uint (table_size t))"
    using assms by (simp_all add: table_wf_def)
  show ?thesis
  proof (cases "?d < 0 \<or> ?d \<ge> uint (table_size t)")
    case True
    then show ?thesis by (simp add: slot_index_def f)
  next
    case False
    then have "slot_index t addr = Some (Some (nat ?d))" by (simp add: slot_index_def f)
    moreover have "nat ?d < length (slots t)" using False f(3) by linarith
    ultimately show ?thesis using False d by simp
  qed
qed

lemma table_wf_update:
  "table_wf t \<Longrightarrow> slot_wf x \<Longrightarrow> table_wf (t\<lparr>slots := (slots t)[i := x]\<rparr>)"
  using set_update_subset_insert [of "slots t" i x] by (auto simp: table_wf_def)

lemma table_slot_wf: "table_wf t \<Longrightarrow> i < length (slots t) \<Longrightarrow> slot_wf (slots t ! i)"
  by (simp add: table_wf_def)

text \<open>The address a built reply carries.\<close>

definition reply_addr :: "u8 list \<Rightarrow> u8 list" where
  "reply_addr buf = take 4 (drop 16 buf)"

lemma build_reply_addr:
  assumes "236 \<le> length raw" "length yi = 4" "length out = 1000" "msg_wf m" "cfg_wf cfg"
  shows "\<exists>out'. dhcp_build_reply raw m type (Some cfg) yi out dhcp_reply_buffer_size = Some (DHCP_OK, out', 300) \<and>
     length out' = 1000 \<and> reply_addr out' = yi"
proof -
  obtain y0 y1 y2 y3 where "yi = [y0, y1, y2, y3]" using assms(2) by (auto simp: numeral_eq_Suc length_Suc_conv)
  then have "reply_addr (reply_header raw yi @ rest) = yi" for rest
    using assms(1) by (simp add: reply_addr_def reply_header_def)
  then show ?thesis
    using dhcp_build_reply_ok [of raw yi out dhcp_reply_buffer_size m cfg type] assms
      reply_options_length [OF assms(4,5), of type] length_reply_header [OF assms(1,2)]
    by (simp add: dhcp_reply_buffer_size_def)
qed

text \<open>An offer: refused, or made for the client's own slot or a slot without live lease.\<close>

lemma offer_cases:
  assumes wf: "table_wf t" "msg_wf m" "lease_key_length m \<le> LEASE_KEY_CAP" "cfg_wf cfg"
    and buf: "236 \<le> length raw" "length rb = 1000"
  obtains (refused) "dhcp_build_offer_args up m cfg raw rb dhcp_reply_buffer_size args t = Some (DHCP_ERR_ARG, args, t, rb)"
  | (offer) i x rb' where "i < length (slots t)" "slot_wf x" "length rb' = 1000" "reply_addr rb' = addr_of t i"
      "dhcp_build_offer_args up m cfg raw rb dhcp_reply_buffer_size args t =
         Some (DHCP_OK, send_args rb' 300 (dhcp_chose_destination m (addr_of t i)) args, t\<lparr>slots := (slots t)[i := x]\<rparr>, rb')"
      "own_slot (slots t) (key_of m) i \<and> x = (slots t ! i)\<lparr>expires_at := expires_at x\<rparr> \<or>
       free_at up (slots t) i \<and> slot_state x = LEASE_ST_OFFERED \<and> holds_key x (key_of m)"
proof (cases "lease_key_length m = 0")
  case True
  then show thesis by (intro refused) (simp add: dhcp_build_offer_args_def chose_address_def)
next
  case False
  have key: "length (lease_key m) = 16" using wf(2) by (simp add: msg_wf_def)
  have n: "length (slots t) = unat (table_size t)" using wf(1) by (simp add: table_wf_def)
  have made: thesis if i: "i < length (slots t)" and "slot_wf x"
    and ch: "chose_address up t (lease_key m) (lease_key_length m) (lease_time cfg) =
      Some (DHCP_OK, t\<lparr>slots := (slots t)[i := x]\<rparr>, Some (addr_of t i))"
    and "own_slot (slots t) (key_of m) i \<and> x = (slots t ! i)\<lparr>expires_at := expires_at x\<rparr> \<or>
       free_at up (slots t) i \<and> slot_state x = LEASE_ST_OFFERED \<and> holds_key x (key_of m)" for i x
  proof -
    obtain rb' where "dhcp_build_reply raw m DHCP_MSG_OFFER (Some cfg) (addr_of t i) rb dhcp_reply_buffer_size =
        Some (DHCP_OK, rb', 300)" "length rb' = 1000" "reply_addr rb' = addr_of t i"
      using build_reply_addr [OF buf(1) _ buf(2) wf(2,4), of "addr_of t i"] wf(1) by auto
    with that show thesis by (intro offer [of i x rb']) (simp_all add: dhcp_build_offer_args_def ch)
  qed
  from wf(1) key wf(3) False key_of_def [of m] refl refl
  show thesis
  proof (cases rule: chose_address_cases [where up = up and lsecs = "lease_time cfg"])
    case (own i)
    then show thesis using n table_slot_wf [OF wf(1), of i] by (intro made [OF _ _ own(4)]) (auto simp: slot_wf_def)
  next
    case (new i)
    have "length (key_of m) \<le> 16" using key_of_length [OF wf(2,3)] wf(3) by (simp add: LEASE_KEY_CAP_def word_le_nat_alt)
    then have "slot_wf (offered (slots t ! i) (key_of m) now) \<and> holds_key (offered (slots t ! i) (key_of m) now) (key_of m)" for now
      using n new(1) table_slot_wf [OF wf(1), of i] by (simp add: slot_wf_def offered_def holds_key_def unat_of_nat)
    then show thesis using n new by (intro made [OF _ _ new(5)]) (auto simp: offered_def)
  next
    case none
    then show thesis by (intro refused) (simp add: dhcp_build_offer_args_def)
  qed
qed

lemma decline_cases:
  assumes wf: "table_wf t" "msg_wf m" "lease_key_length m \<le> LEASE_KEY_CAP"
  obtains (ignored) "dhcp_handle_decline up m t = Some t"
  | (declined) i where "i < length (slots t)" "holds_key (slots t ! i) (key_of m)"
      "dhcp_handle_decline up m t = Some (t\<lparr>slots := (slots t)[i :=
         (slots t ! i)\<lparr>slot_state := LEASE_ST_DECLINED, expires_at := up 0 div 1000 + 300\<rparr>]\<rparr>)"
proof -
  obtain r where r: "slot_index t (requested_ip m) = Some r" "\<And>i. r = Some i \<Longrightarrow> i < length (slots t)"
    using slot_index_ok [OF wf(1), of "requested_ip m"] wf(2) by (auto simp: msg_wf_def)
  show thesis
  proof (cases "has_requested_ip m \<and> r \<noteq> None")
    case False
    with r show thesis by (intro ignored) (auto simp: dhcp_handle_decline_def)
  next
    case True
    then obtain i where i: "r = Some i" "i < length (slots t)" using r(2) by auto
    with True r(1) key_differs_msg [OF table_slot_wf [OF wf(1) i(2)] wf(2,3)] show thesis
      by (cases "holds_key (slots t ! i) (key_of m)")
        (auto simp: dhcp_handle_decline_def intro: ignored declined [of i])
  qed
qed

context flash_hw
begin

text \<open>A release that finds the lease of the client frees it and records that.\<close>

lemma release_cases:
  assumes wf: "table_wf t" "msg_wf m" "lease_key_length m \<le> LEASE_KEY_CAP" "length (ciaddr m) = 4"
    and fs: "holds fs ws" "journal_wp fs = length ws" "length ws + 8 \<le> SECTOR_WORDS"
  obtains (ignored) "dhcp_handle_release bus m t fs = Some (t, fs)"
  | (released) i x b fs' where "i < length (slots t)" "holds_key (slots t ! i) (key_of m)"
      "x = (slots t ! i)\<lparr>slot_state := LEASE_ST_FREE, expires_at := 0\<rparr>"
      "dhcp_handle_release bus m t fs = Some (t\<lparr>slots := (slots t)[i := x]\<rparr>, fs')" "rec_ok b" "slot_of_rec b = x"
      "unat (b ! 9 - start_addr t ! 3) = i" "holds fs' (ws @ words_of_bytes b)" "journal_wp fs' = length ws + 8"
proof -
  obtain r where r: "slot_index t (ciaddr m) = Some r"
    "\<And>i. r = Some i \<Longrightarrow> i < length (slots t) \<and> unat (ciaddr m ! 3 - start_addr t ! 3) = i"
    using slot_index_ok [OF wf(1,4)] by auto
  show thesis
  proof (cases "\<exists>i. r = Some i \<and> holds_key (slots t ! i) (key_of m)")
    case False
    have "\<exists>slot. key_differs (slots t ! i) (lease_key m) (lease_key_length m) = Some True" if "r = Some i" for i
      using key_differs_msg [OF table_slot_wf [OF wf(1), of i] wf(2,3)] r(2) that False by auto
    with r show thesis by (intro ignored) (cases r; auto simp: dhcp_handle_release_def)
  next
    case True
    then obtain i where i: "r = Some i" "i < length (slots t)" "holds_key (slots t ! i) (key_of m)"
      "unat (ciaddr m ! 3 - start_addr t ! 3) = i" using r(2) by auto
    define x where "x = (slots t ! i)\<lparr>slot_state := LEASE_ST_FREE, expires_at := 0\<rparr>"
    have "slot_wf x" using table_slot_wf [OF wf(1) i(2)] by (simp add: slot_wf_def x_def)
    then obtain b where b: "serialize_record x (ciaddr m) = Some b" "rec_ok b" "slot_of_rec b = x" "b ! 9 = ciaddr m ! 3"
      using serialize_record_ok wf(4) by blast
    obtain fs' where f: "write_record bus b fs = Some fs'" "holds fs' (ws @ words_of_bytes b)" "journal_wp fs' = length ws + 8"
      using write_record_ok [OF fs(1,2) b(2) fs(3)] by blast
    have "dhcp_handle_release bus m t fs = Some (t\<lparr>slots := (slots t)[i := x]\<rparr>, fs')"
      using r(1) i(1-3) key_differs_msg [OF table_slot_wf [OF wf(1) i(2)] wf(2,3)] b(1) f(1)
      by (simp add: dhcp_handle_release_def x_def Let_def)
    with i b f x_def show thesis by (intro released [of i x fs' b]) auto
  qed
qed

text \<open>A request for a live lease of the client is recorded and acknowledged; any other is refused or ignored.\<close>

lemma request_cases:
  assumes wf: "table_wf t" "msg_wf m" "lease_key_length m \<le> LEASE_KEY_CAP" "length (ciaddr m) = 4" "cfg_wf cfg"
    and buf: "236 \<le> length raw" "length rb = 1000"
    and fs: "holds fs ws" "journal_wp fs = length ws" "length ws + 8 \<le> SECTOR_WORDS"
  obtains (refused) "dhcp_handle_request bus up m cfg raw rb dhcp_reply_buffer_size args t fs =
      Some (DHCP_ERR_ARG, args, t, fs, rb)"
  | (ignored) "dhcp_handle_request bus up m cfg raw rb dhcp_reply_buffer_size args t fs =
      Some (DHCP_OK, zero_args, t, fs, rb)"
  | (acked) i x b fs' addr rb' where "i < length (slots t)" "slot_alive (slots t ! i) (up 0 div 1000)"
      "holds_key (slots t ! i) (key_of m)"
      "x = (slots t ! i)\<lparr>slot_state := LEASE_ST_BOUND, expires_at := up 1 div 1000 + lease_time cfg\<rparr>"
      "dhcp_handle_request bus up m cfg raw rb dhcp_reply_buffer_size args t fs =
         Some (DHCP_OK, send_args rb' 300 (dhcp_chose_destination m addr) args, t\<lparr>slots := (slots t)[i := x]\<rparr>, fs', rb')"
      "rec_ok b" "slot_of_rec b = x" "unat (b ! 9 - start_addr t ! 3) = i" "holds fs' (ws @ words_of_bytes b)"
      "journal_wp fs' = length ws + 8" "length rb' = 1000" "reply_addr rb' = addr"
      "addr = (if has_requested_ip m then requested_ip m else ciaddr m)" "addr ! 3 = addr_of t i ! 3"
proof (cases "has_server_id m \<and> take 4 (msg_server_id m) \<noteq> take 4 (cfg_server_id cfg)")
  case True
  then show thesis by (intro refused) (auto simp: dhcp_handle_request_def)
next
  case server: False
  define addr where "addr = (if has_requested_ip m then requested_ip m else ciaddr m)"
  have addr: "(if has_requested_ip m then slice (requested_ip m) 0 4 else slice (ciaddr m) 0 4) = Some addr" "length addr = 4"
    using wf(2,4) by (auto simp: addr_def msg_wf_def)
  obtain r where r: "slot_index t addr = Some r"
    "\<And>i. r = Some i \<Longrightarrow> i < length (slots t) \<and> unat (addr ! 3 - start_addr t ! 3) = i"
    using slot_index_ok [OF wf(1) addr(2)] by auto
  note unfold = dhcp_handle_request_def addr(1) r(1)
  show thesis
  proof (cases r)
    case None
    with server show thesis by (intro refused) (simp add: unfold)
  next
    case (Some i)
    then have i: "i < length (slots t)" "unat (addr ! 3 - start_addr t ! 3) = i" using r(2) by auto
    let ?slot = "slots t ! i"
    have kd: "key_differs ?slot (lease_key m) (lease_key_length m) = Some (\<not> holds_key ?slot (key_of m))"
      by (rule key_differs_msg [OF table_slot_wf [OF wf(1) i(1)] wf(2,3)])
    show thesis
    proof (cases "slot_alive ?slot (up 0 div 1000) \<and> holds_key ?slot (key_of m)")
      case False
      with server Some i kd show thesis by (intro ignored) (auto simp: unfold)
    next
      case True
      define x where "x = ?slot\<lparr>slot_state := LEASE_ST_BOUND, expires_at := up 1 div 1000 + lease_time cfg\<rparr>"
      have "slot_wf x" using table_slot_wf [OF wf(1) i(1)] by (simp add: slot_wf_def x_def)
      then obtain b where b: "serialize_record x addr = Some b" "rec_ok b" "slot_of_rec b = x" "b ! 9 = addr ! 3"
        using serialize_record_ok addr(2) by blast
      obtain fs' where f: "write_record bus b fs = Some fs'" "holds fs' (ws @ words_of_bytes b)"
        "journal_wp fs' = length ws + 8"
        using write_record_ok [OF fs(1,2) b(2) fs(3)] by blast
      obtain rb' where rb': "dhcp_build_reply raw m DHCP_MSG_ACK (Some cfg) addr rb dhcp_reply_buffer_size =
          Some (DHCP_OK, rb', 300)" "length rb' = 1000" "reply_addr rb' = addr"
        using build_reply_addr [OF buf(1) addr(2) buf(2) wf(2,5)] by blast
      have "addr ! 3 = addr_of t i ! 3"
        using table_index(1) [OF wf(1) i(1)] i(2) by (metis diff_eq_eq word_unat_eq_iff)
      moreover have "dhcp_handle_request bus up m cfg raw rb dhcp_reply_buffer_size args t fs =
          Some (DHCP_OK, send_args rb' 300 (dhcp_chose_destination m addr) args, t\<lparr>slots := (slots t)[i := x]\<rparr>, fs', rb')"
        using server Some i(1) kd True b(1) f(1) rb'(1) by (simp add: unfold x_def Let_def)
      ultimately show thesis using i True b f rb' x_def addr_def
        by (intro acked [of i x rb' addr fs' b]) auto
    qed
  qed
qed

end

section \<open>The invariant of the server\<close>

text \<open>
  The server between two messages: its table and buffers are well formed, and the journal holds the
  header of the table and the records \<open>recs\<close>, with the write pointer behind them.
\<close>

definition server_ok :: "('d \<Rightarrow> nat \<Rightarrow> u32) \<Rightarrow> ('d \<Rightarrow> u32) \<Rightarrow> 'd dhcp_server \<Rightarrow> u8 list list \<Rightarrow> bool" where
  "server_ok cell cr s recs \<longleftrightarrow> table_wf (lease_table s) \<and> msg_wf (received_msg s) \<and> length (dhcp_reply_buffer s) = 1000 \<and>
     (\<forall>b \<in> set recs. rec_ok b) \<and>
     (\<exists>h. journal_header (lease_table s) = Some h \<and> journal_holds cell cr (journal_flash s) (journal_words h recs) \<and>
        journal_wp (journal_flash s) = length (journal_words h recs))"

text \<open>The slots a restart would restore from the records.\<close>

definition restored :: "lease_table_t \<Rightarrow> u8 list list \<Rightarrow> lease_slot_t list" where
  "restored t recs = fold (apply_rec (start_addr t ! 3)) recs (replicate (length (slots t)) zero_slot)"

text \<open>Every acknowledged lease is in the journal, with its client.\<close>

definition bound_recorded :: "lease_table_t \<Rightarrow> u8 list list \<Rightarrow> bool" where
  "bound_recorded t recs \<longleftrightarrow> (\<forall>i < length (slots t). slot_state (slots t ! i) = LEASE_ST_BOUND \<longrightarrow>
     slot_state (restored t recs ! i) = LEASE_ST_BOUND \<and> slot_key (restored t recs ! i) = slot_key (slots t ! i) \<and>
     slot_key_len (restored t recs ! i) = slot_key_len (slots t ! i))"

lemma restored_snoc: "restored t (recs @ [b]) = apply_rec (start_addr t ! 3) b (restored t recs)"
  by (simp add: restored_def)

lemma length_restored [simp]: "length (restored t recs) = length (slots t)"
  by (simp add: restored_def)

lemma restored_update [simp]: "restored (t\<lparr>slots := (slots t)[i := x]\<rparr>) recs = restored t recs"
  by (simp add: restored_def)

lemma bound_recorded_update:
  assumes "bound_recorded t recs" "i < length (slots t)"
    and "slot_state x = LEASE_ST_BOUND \<Longrightarrow> slot_state (slots t ! i) = LEASE_ST_BOUND \<and>
       slot_key x = slot_key (slots t ! i) \<and> slot_key_len x = slot_key_len (slots t ! i)"
  shows "bound_recorded (t\<lparr>slots := (slots t)[i := x]\<rparr>) recs"
  using assms by (auto simp: bound_recorded_def nth_list_update)

lemma bound_recorded_append:
  assumes "bound_recorded t recs" "slot_of_rec b = x" "unat (b ! 9 - start_addr t ! 3) = i" "i < length (slots t)"
  shows "bound_recorded (t\<lparr>slots := (slots t)[i := x]\<rparr>) (recs @ [b])"
  using assms by (auto simp: bound_recorded_def restored_snoc apply_rec_def nth_list_update)

section \<open>The lease protocol\<close>

text \<open>
  The abstract steps a message of the client with key \<open>K\<close> may cause, on the table and the recorded
  leases, with the address that is sent to the client. The clock reading of a step is one of \<open>up\<close>.
\<close>

inductive lease_step :: "(nat \<Rightarrow> u32) \<Rightarrow> u8 list \<Rightarrow> lease_table_t \<times> u8 list list \<Rightarrow> u8 list option \<Rightarrow>
    lease_table_t \<times> u8 list list \<Rightarrow> bool" for up K where
  Offer_Own: "i < length (slots t) \<Longrightarrow> own_slot (slots t) K i \<Longrightarrow> x = (slots t ! i)\<lparr>expires_at := e\<rparr> \<Longrightarrow>
    lease_step up K (t, recs) (Some (addr_of t i)) (t\<lparr>slots := (slots t)[i := x]\<rparr>, recs)"
| Offer_New: "i < length (slots t) \<Longrightarrow> \<not> slot_alive (slots t ! i) (up n div 1000) \<Longrightarrow> slot_wf x \<Longrightarrow>
    slot_state x = LEASE_ST_OFFERED \<Longrightarrow> holds_key x K \<Longrightarrow>
    lease_step up K (t, recs) (Some (addr_of t i)) (t\<lparr>slots := (slots t)[i := x]\<rparr>, recs)"
| Ack: "i < length (slots t) \<Longrightarrow> slot_alive (slots t ! i) (up n div 1000) \<Longrightarrow> holds_key (slots t ! i) K \<Longrightarrow>
    x = (slots t ! i)\<lparr>slot_state := LEASE_ST_BOUND, expires_at := e\<rparr> \<Longrightarrow>
    rec_ok b \<Longrightarrow> slot_of_rec b = x \<Longrightarrow> unat (b ! 9 - start_addr t ! 3) = i \<Longrightarrow> a ! 3 = addr_of t i ! 3 \<Longrightarrow>
    lease_step up K (t, recs) (Some a) (t\<lparr>slots := (slots t)[i := x]\<rparr>, recs @ [b])"
| Decline: "i < length (slots t) \<Longrightarrow> holds_key (slots t ! i) K \<Longrightarrow>
    x = (slots t ! i)\<lparr>slot_state := LEASE_ST_DECLINED, expires_at := e\<rparr> \<Longrightarrow>
    lease_step up K (t, recs) None (t\<lparr>slots := (slots t)[i := x]\<rparr>, recs)"
| Release: "i < length (slots t) \<Longrightarrow> holds_key (slots t ! i) K \<Longrightarrow>
    x = (slots t ! i)\<lparr>slot_state := LEASE_ST_FREE, expires_at := e\<rparr> \<Longrightarrow>
    rec_ok b \<Longrightarrow> slot_of_rec b = x \<Longrightarrow> unat (b ! 9 - start_addr t ! 3) = i \<Longrightarrow>
    lease_step up K (t, recs) None (t\<lparr>slots := (slots t)[i := x]\<rparr>, recs @ [b])"

inductive lease_steps :: "(nat \<Rightarrow> u32) \<Rightarrow> u8 list \<Rightarrow> lease_table_t \<times> u8 list list \<Rightarrow> u8 list list \<Rightarrow>
    lease_table_t \<times> u8 list list \<Rightarrow> bool" for up K where
  Done: "lease_steps up K c [] c"
| Step: "lease_step up K c a c' \<Longrightarrow> lease_steps up K c' as c'' \<Longrightarrow>
    lease_steps up K c ((case a of Some x \<Rightarrow> [x] | None \<Rightarrow> []) @ as) c''"

lemma lease_step_wf:
  assumes "lease_step up K (t, recs) a (t', recs')" "table_wf t"
  shows "table_wf t' \<and> start_addr t' = start_addr t \<and> table_size t' = table_size t"
  using assms
  by (cases rule: lease_step.cases) (auto intro!: table_wf_update dest: table_slot_wf simp: slot_wf_def)

lemma lease_step_recorded:
  assumes "lease_step up K (t, recs) a (t', recs')" "bound_recorded t recs"
  shows "bound_recorded t' recs'"
  using assms
proof (cases rule: lease_step.cases)
  case (Offer_Own i x e)
  then show ?thesis using assms(2) by (auto intro!: bound_recorded_update)
next
  case (Ack i n x e b a)
  then show ?thesis using bound_recorded_append [OF assms(2) Ack(9,10,4)] by simp
next
  case (Release i x e b)
  then show ?thesis using bound_recorded_append [OF assms(2) Release(8,9,4)] by simp
qed (auto intro!: bound_recorded_update simp: assms(2) lease_states)

lemma holds_key_unique: "holds_key slot K \<Longrightarrow> holds_key slot K' \<Longrightarrow> K = K'"
  by (auto simp: holds_key_def)

lemma addr_of_inj:
  assumes "table_wf t" "i < length (slots t)" "j < length (slots t)" "addr_of t i ! 3 = addr_of t j ! 3"
  shows "i = j"
  using table_index(1) [OF assms(1)] assms(2-4) by metis

lemma addr_of_start: "start_addr t' = start_addr t \<Longrightarrow> addr_of t' i = addr_of t i"
  by (simp add: addr_of_def)

text \<open>A step of one client leaves the live leases of the others alone, and sends none of their addresses.\<close>

lemma lease_step_exclusive:
  assumes "lease_step up K (t, recs) a (t', recs')" "table_wf t" "j < length (slots t)"
    and "\<And>n. slot_alive (slots t ! j) (up n div 1000)" "\<not> holds_key (slots t ! j) K"
  shows "slots t' ! j = slots t ! j \<and> length (slots t') = length (slots t) \<and> (\<forall>x. a = Some x \<longrightarrow> x ! 3 \<noteq> addr_of t j ! 3)"
  using assms(1)
proof (cases rule: lease_step.cases)
  case (Offer_Own i x e)
  then have "i \<noteq> j" using assms(5) by (auto simp: own_slot_def)
  with Offer_Own show ?thesis using addr_of_inj [OF assms(2), of i j] assms(3) by auto
next
  case (Offer_New i n x)
  then have "i \<noteq> j" using assms(4) [of n] by auto
  with Offer_New show ?thesis using addr_of_inj [OF assms(2), of i j] assms(3) by auto
next
  case (Ack i n x e b a)
  then have "i \<noteq> j" using assms(5) by auto
  with Ack show ?thesis using addr_of_inj [OF assms(2), of i j] assms(3) by auto
next
  case (Decline i x e)
  then have "i \<noteq> j" using assms(5) by auto
  with Decline show ?thesis by simp
next
  case (Release i x e b)
  then have "i \<noteq> j" using assms(5) by auto
  with Release show ?thesis by simp
qed

lemma lease_steps_inv:
  assumes "lease_steps up K c as c'" "table_wf (fst c)" "bound_recorded (fst c) (snd c)"
  shows "table_wf (fst c') \<and> start_addr (fst c') = start_addr (fst c) \<and> table_size (fst c') = table_size (fst c) \<and>
     bound_recorded (fst c') (snd c')"
  using assms
proof (induction rule: lease_steps.induct)
  case (Step c a c' as c'')
  then show ?case
    using lease_step_wf [of up K "fst c" "snd c" a "fst c'" "snd c'"]
      lease_step_recorded [of up K "fst c" "snd c" a "fst c'" "snd c'"] by simp
qed simp

lemma lease_steps_exclusive:
  assumes "lease_steps up K c as c'" "table_wf (fst c)" "j < length (slots (fst c))"
    and "\<And>n. slot_alive (slots (fst c) ! j) (up n div 1000)" "\<not> holds_key (slots (fst c) ! j) K"
  shows "slots (fst c') ! j = slots (fst c) ! j \<and> (\<forall>x \<in> set as. x ! 3 \<noteq> addr_of (fst c) j ! 3)"
  using assms
proof (induction rule: lease_steps.induct)
  case (Step c a c' as c'')
  have st: "lease_step up K (fst c, snd c) a (fst c', snd c')" using Step.hyps(1) by simp
  note ex = lease_step_exclusive [OF st Step.prems] and wf = lease_step_wf [OF st Step.prems(1)]
  have "slots (fst c'') ! j = slots (fst c') ! j \<and> (\<forall>x \<in> set as. x ! 3 \<noteq> addr_of (fst c') j ! 3)"
    by (rule Step.IH) (use ex wf Step.prems in simp_all)
  moreover have "addr_of (fst c') j = addr_of (fst c) j" by (rule addr_of_start) (use wf in simp)
  moreover have "\<forall>x \<in> set (case a of Some x \<Rightarrow> [x] | None \<Rightarrow> []). x ! 3 \<noteq> addr_of (fst c) j ! 3"
    using ex by (cases a) simp_all
  ultimately show ?case using ex by auto
qed simp

section \<open>A round of the server follows the protocol\<close>

lemma journal_header_cong:
  "start_addr t' = start_addr t \<Longrightarrow> table_size t' = table_size t \<Longrightarrow> journal_header t' = journal_header t"
  by (simp add: journal_header_def)

lemma lease_steps_one: "lease_step up K c a c' \<Longrightarrow> lease_steps up K c (case a of Some x \<Rightarrow> [x] | None \<Rightarrow> []) c'"
  using lease_steps.Step [OF _ lease_steps.Done, of up K c a c'] by simp

lemma decline_step:
  assumes "table_wf t" "msg_wf m" "lease_key_length m \<le> LEASE_KEY_CAP"
  shows "\<exists>t'. dhcp_handle_decline up m t = Some t' \<and> table_wf t' \<and> lease_steps up (key_of m) (t, recs) [] (t', recs)"
  using assms
proof (cases rule: decline_cases [where up = up])
  case ignored
  then show ?thesis using assms(1) lease_steps.Done by auto
next
  case (declined i)
  have "lease_step up (key_of m) (t, recs) None (t\<lparr>slots := (slots t)[i :=
      (slots t ! i)\<lparr>slot_state := LEASE_ST_DECLINED, expires_at := up 0 div 1000 + 300\<rparr>]\<rparr>, recs)"
    by (rule lease_step.Decline [OF declined(1,2) refl])
  with declined(3) lease_step_wf [OF this assms(1)] lease_steps_one [OF this] show ?thesis by auto
qed

lemma send_args_data [simp]: "tx_data (send_args rb n d args) = Some rb"
  by (simp add: send_args_def)

lemma send_args_not_zero [simp]: "send_args rb n d args \<noteq> zero_args"
  by (metis option.distinct(1) send_args_data zero_args_def net_send_args_t.select_convs(1))

text \<open>The readings of the clock of an offer may be any of the round's.\<close>

lemma offer_step:
  assumes wf: "table_wf t" "msg_wf m" "lease_key_length m \<le> LEASE_KEY_CAP" "cfg_wf cfg"
    and buf: "236 \<le> length raw" "length rb = 1000" and up: "\<And>n. \<exists>k. up' n = up k"
  shows "\<exists>st args' t' rb' as. dhcp_build_offer_args up' m cfg raw rb dhcp_reply_buffer_size args t = Some (st, args', t', rb') \<and>
     lease_steps up (key_of m) (t, recs) as (t', recs) \<and> length rb' = 1000 \<and>
     (st = DHCP_OK \<longrightarrow> tx_data args' = Some rb' \<and> reply_addr rb' \<in> set as)"
  using wf buf
proof (cases rule: offer_cases [where up = up' and args = args])
  case refused
  then show ?thesis using buf(2) by (auto intro: lease_steps.Done)
next
  case (offer i x rb')
  have "lease_step up (key_of m) (t, recs) (Some (addr_of t i)) (t\<lparr>slots := (slots t)[i := x]\<rparr>, recs)"
    using offer(6)
  proof
    assume "own_slot (slots t) (key_of m) i \<and> x = (slots t ! i)\<lparr>expires_at := expires_at x\<rparr>"
    then show ?thesis using offer(1) by (intro lease_step.Offer_Own) auto
  next
    assume new: "free_at up' (slots t) i \<and> slot_state x = LEASE_ST_OFFERED \<and> holds_key x (key_of m)"
    obtain k where "up' i = up k" using up by blast
    with new show ?thesis using offer(1,2) by (intro lease_step.Offer_New [of i t up k]) (auto simp: free_at_def)
  qed
  from lease_steps_one [OF this] offer show ?thesis
    by (intro exI [of _ DHCP_OK] exI [of _ "send_args rb' 300 (dhcp_chose_destination m (addr_of t i)) args"]
        exI [of _ "t\<lparr>slots := (slots t)[i := x]\<rparr>"] exI [of _ rb'] exI [of _ "[addr_of t i]"]) simp
qed

lemma lease_steps_trans:
  "lease_steps up K c as c' \<Longrightarrow> lease_steps up K c' bs c'' \<Longrightarrow> lease_steps up K c (as @ bs) c''"
proof (induction rule: lease_steps.induct)
  case (Step c a c' as d)
  then show ?case using lease_steps.Step [OF Step.hyps(1)] by simp
qed simp

context flash_hw
begin

text \<open>The journal of the server: header and records, with the write pointer behind them.\<close>

definition recorded :: "'d flash_state \<Rightarrow> u8 list \<Rightarrow> u8 list list \<Rightarrow> bool" where
  "recorded fs h recs \<longleftrightarrow> length h = 16 \<and> (\<forall>b \<in> set recs. rec_ok b) \<and> holds fs (journal_words h recs) \<and>
     journal_wp fs = length (journal_words h recs)"

lemma recorded_snoc:
  assumes "recorded fs h recs" "rec_ok b" "holds fs' (journal_words h recs @ words_of_bytes b)"
    "journal_wp fs' = length (journal_words h recs) + 8"
  shows "recorded fs' h (recs @ [b])"
  using assms length_words_rec [OF assms(2)] by (auto simp: recorded_def journal_words_snoc)

lemma recorded_space:
  assumes "recorded fs h recs" "8 * length recs + 12 \<le> SECTOR_WORDS"
  shows "holds fs (journal_words h recs)" "journal_wp fs = length (journal_words h recs)"
    "length (journal_words h recs) + 8 \<le> SECTOR_WORDS"
  using assms length_journal_words [of h recs] by (auto simp: recorded_def)

lemma release_step:
  assumes wf: "table_wf t" "msg_wf m" "lease_key_length m \<le> LEASE_KEY_CAP" "length (ciaddr m) = 4"
    and fs: "recorded fs h recs" "8 * length recs + 12 \<le> SECTOR_WORDS"
  shows "\<exists>t' fs' recs'. dhcp_handle_release bus m t fs = Some (t', fs') \<and>
     lease_steps up (key_of m) (t, recs) [] (t', recs') \<and> recorded fs' h recs' \<and> length recs' \<le> length recs + 1"
  using wf recorded_space [OF fs]
proof (cases rule: release_cases)
  case ignored
  then show ?thesis using fs(1) by (auto intro: lease_steps.Done)
next
  case (released i x b fs')
  have "lease_steps up (key_of m) (t, recs) [] (t\<lparr>slots := (slots t)[i := x]\<rparr>, recs @ [b])"
    using lease_steps_one [OF lease_step.Release [OF released(1-3,5-7), of up recs]] by simp
  moreover have "recorded fs' h (recs @ [b])" by (rule recorded_snoc [OF fs(1) released(5,8,9)])
  ultimately show ?thesis using released(4)
    by (intro exI [of _ "t\<lparr>slots := (slots t)[i := x]\<rparr>"] exI [of _ fs'] exI [of _ "recs @ [b]"]) simp
qed

lemma request_step:
  assumes wf: "table_wf t" "msg_wf m" "lease_key_length m \<le> LEASE_KEY_CAP" "length (ciaddr m) = 4" "cfg_wf cfg"
    and buf: "236 \<le> length raw" "length rb = 1000"
    and fs: "recorded fs h recs" "8 * length recs + 12 \<le> SECTOR_WORDS"
  shows "\<exists>st args' t' fs' rb' as recs'.
     dhcp_handle_request bus up m cfg raw rb dhcp_reply_buffer_size args t fs = Some (st, args', t', fs', rb') \<and>
     lease_steps up (key_of m) (t, recs) as (t', recs') \<and> recorded fs' h recs' \<and> length recs' \<le> length recs + 1 \<and>
     length rb' = 1000 \<and> (st = DHCP_OK \<and> args' \<noteq> zero_args \<longrightarrow> tx_data args' = Some rb' \<and> reply_addr rb' \<in> set as)"
  using wf buf recorded_space [OF fs]
proof (cases rule: request_cases [where up = up and args = args])
  case refused
  then show ?thesis using fs(1) buf(2)
    by (simp, intro exI [of _ "[]"] exI [of _ recs]) (simp add: lease_steps.Done)
next
  case ignored
  then show ?thesis using fs(1) buf(2)
    by (simp, intro exI [of _ "[]"] exI [of _ recs]) (simp add: lease_steps.Done)
next
  case (acked i x b fs' addr rb')
  have "lease_steps up (key_of m) (t, recs) [addr] (t\<lparr>slots := (slots t)[i := x]\<rparr>, recs @ [b])"
    using lease_steps_one [OF lease_step.Ack [where up = up and n = 0 and recs = recs, OF acked(1-4,6-8,14)]] by simp
  moreover have "recorded fs' h (recs @ [b])" by (rule recorded_snoc [OF fs(1) acked(6,9,10)])
  ultimately show ?thesis using acked(5,11,12)
    by (intro exI [of _ DHCP_OK] exI [of _ "send_args rb' 300 (dhcp_chose_destination m addr) args"]
        exI [of _ "t\<lparr>slots := (slots t)[i := x]\<rparr>"] exI [of _ fs'] exI [of _ rb'] exI [of _ "[addr]"]
        exI [of _ "recs @ [b]"]) simp
qed

end

text \<open>One round: it returns, and what it did to the leases is a run of the protocol of the client that sent
  the packet; a reply carries an address of the run.\<close>

context flash_hw
begin

lemma server_ok_recorded:
  "server_ok cell cr s recs \<longleftrightarrow> table_wf (lease_table s) \<and> msg_wf (received_msg s) \<and> length (dhcp_reply_buffer s) = 1000 \<and>
     (\<exists>h. journal_header (lease_table s) = Some h \<and> recorded (journal_flash s) h recs)"
proof -
  have "length h = 16" if "table_wf (lease_table s)" "journal_header (lease_table s) = Some h" for h
    using journal_header_ok [OF that(1)] that(2) by auto
  then show ?thesis by (auto simp: server_ok_def recorded_def holds_iff)
qed

text \<open>What a round that ends in \<open>sent\<close> and \<open>s'\<close> has done.\<close>

definition followed :: "(nat \<Rightarrow> u32) \<Rightarrow> u8 list \<Rightarrow> u8 list list \<Rightarrow> 'd dhcp_server \<Rightarrow> net_send_args_t option \<Rightarrow> 'd dhcp_server \<Rightarrow> bool" where
  "followed up h recs s sent s' \<longleftrightarrow> msg_wf (received_msg s') \<and> length (dhcp_reply_buffer s') = 1000 \<and>
     (\<exists>as recs'. lease_steps up (key_of (received_msg s')) (lease_table s, recs) as (lease_table s', recs') \<and>
       recorded (journal_flash s') h recs' \<and> length recs' \<le> length recs + 1 \<and>
       (\<forall>args. sent = Some args \<longrightarrow> (\<exists>buf. tx_data args = Some buf \<and> reply_addr buf \<in> set as)))"

lemma followedI:
  assumes "lease_steps up (key_of (received_msg s')) (lease_table s, recs) as (lease_table s', recs')"
    "recorded (journal_flash s') h recs'" "length recs' \<le> length recs + 1"
    "\<And>args. sent = Some args \<Longrightarrow> \<exists>buf. tx_data args = Some buf \<and> reply_addr buf \<in> set as"
    "msg_wf (received_msg s')" "length (dhcp_reply_buffer s') = 1000"
  shows "followed up h recs s sent s'"
  unfolding followed_def using assms by blast

lemma dispatch_followed:
  assumes wf: "table_wf (lease_table s)" "msg_wf (received_msg s)" "lease_key_length (received_msg s) \<le> LEASE_KEY_CAP"
      "length (ciaddr (received_msg s)) = 4" "cfg_wf cfg"
    and buf: "236 \<le> length raw" "length (dhcp_reply_buffer s) = 1000"
    and fs: "recorded (journal_flash s) h recs" "8 * length recs + 12 \<le> SECTOR_WORDS"
  shows "\<exists>sent s'. dhcp_dispatch bus up cfg args raw s = Some (sent, s') \<and> followed up h recs s sent s'"
proof -
  let ?m = "received_msg s" and ?t = "lease_table s" and ?rb = "dhcp_reply_buffer s"
  consider (none) "msg_op ?m \<noteq> BOOTREQUEST \<or> \<not> has_message_type ?m \<or> message_type ?m \<notin>
      {DHCP_MSG_DISCOVER, DHCP_MSG_REQUEST, DHCP_MSG_DECLINE, DHCP_MSG_RELEASE}"
    | (discover) "msg_op ?m = BOOTREQUEST" "has_message_type ?m" "message_type ?m = DHCP_MSG_DISCOVER"
    | (request) "msg_op ?m = BOOTREQUEST" "has_message_type ?m" "message_type ?m = DHCP_MSG_REQUEST"
    | (decline) "msg_op ?m = BOOTREQUEST" "has_message_type ?m" "message_type ?m = DHCP_MSG_DECLINE"
    | (release) "msg_op ?m = BOOTREQUEST" "has_message_type ?m" "message_type ?m = DHCP_MSG_RELEASE" by blast
  then show ?thesis
  proof cases
    case none
    then have "dhcp_dispatch bus up cfg args raw s = Some (None, s)" by (auto simp: dhcp_dispatch_def Let_def)
    moreover have "followed up h recs s None s"
      using wf(2) buf(2) fs(1) by (intro followedI [where as = "[]" and recs' = recs]) (auto intro: lease_steps.Done)
    ultimately show ?thesis by blast
  next
    case discover
    obtain st args' t' rb' as where o: "dhcp_build_offer_args up ?m cfg raw ?rb dhcp_reply_buffer_size args ?t = Some (st, args', t', rb')"
      "lease_steps up (key_of ?m) (?t, recs) as (t', recs)" "length rb' = 1000"
      "st = DHCP_OK \<longrightarrow> tx_data args' = Some rb' \<and> reply_addr rb' \<in> set as"
      using offer_step [OF wf(1-3,5) buf, of up up args recs] by blast
    let ?s = "s\<lparr>lease_table := t', dhcp_reply_buffer := rb'\<rparr>"
    have "dhcp_dispatch bus up cfg args raw s = Some (if st \<noteq> DHCP_OK then None else Some args', ?s)"
      using discover o(1) by (simp add: dhcp_dispatch_def Let_def)
    moreover have "followed up h recs s (if st \<noteq> DHCP_OK then None else Some args') ?s"
      using o wf(2) fs(1) by (intro followedI [where as = as and recs' = recs]) (auto split: if_splits)
    ultimately show ?thesis by blast
  next
    case request
    then have "message_type ?m \<noteq> DHCP_MSG_DISCOVER" by (simp add: dhcp_consts)
    obtain st args' t' fs' rb' as recs' where r:
      "dhcp_handle_request bus up ?m cfg raw ?rb dhcp_reply_buffer_size args ?t (journal_flash s) = Some (st, args', t', fs', rb')"
      "lease_steps up (key_of ?m) (?t, recs) as (t', recs')" "length recs' \<le> length recs + 1" "length rb' = 1000"
      "st = DHCP_OK \<and> args' \<noteq> zero_args \<longrightarrow> tx_data args' = Some rb' \<and> reply_addr rb' \<in> set as" "recorded fs' h recs'"
      using request_step [OF wf buf fs, of up args] by blast
    let ?s = "s\<lparr>lease_table := t', journal_flash := fs', dhcp_reply_buffer := rb'\<rparr>"
      and ?sent = "if st \<noteq> DHCP_OK \<or> args' = zero_args then None else Some args'"
    have "dhcp_dispatch bus up cfg args raw s = Some (?sent, ?s)"
      using request \<open>message_type ?m \<noteq> DHCP_MSG_DISCOVER\<close> r(1) by (simp add: dhcp_dispatch_def Let_def)
    moreover have "followed up h recs s ?sent ?s"
      using r wf(2) by (intro followedI [where as = as and recs' = recs']) (auto split: if_splits)
    ultimately show ?thesis by blast
  next
    case decline
    then have ne: "message_type ?m \<notin> {DHCP_MSG_DISCOVER, DHCP_MSG_REQUEST}" by (simp add: dhcp_consts)
    obtain t1 where d: "dhcp_handle_decline up ?m ?t = Some t1" "table_wf t1" "lease_steps up (key_of ?m) (?t, recs) [] (t1, recs)"
      using decline_step [OF wf(1-3)] by blast
    obtain st args' t' rb' as where o: "dhcp_build_offer_args (\<lambda>n. up (n + 1)) ?m cfg raw ?rb dhcp_reply_buffer_size args t1 =
        Some (st, args', t', rb')" "lease_steps up (key_of ?m) (t1, recs) as (t', recs)" "length rb' = 1000"
      "st = DHCP_OK \<longrightarrow> tx_data args' = Some rb' \<and> reply_addr rb' \<in> set as"
      using offer_step [OF d(2) wf(2,3,5) buf, of "\<lambda>n. up (n + 1)" up args recs] by blast
    let ?s = "s\<lparr>lease_table := t', dhcp_reply_buffer := rb'\<rparr>"
    have "dhcp_dispatch bus up cfg args raw s = Some (if st \<noteq> DHCP_OK then None else Some args', ?s)"
      using decline ne d(1) o(1) by (simp add: dhcp_dispatch_def Let_def)
    moreover have "followed up h recs s (if st \<noteq> DHCP_OK then None else Some args') ?s"
      using o(3,4) lease_steps_trans [OF d(3) o(2)] wf(2) fs(1)
      by (intro followedI [where as = as and recs' = recs]) (auto split: if_splits)
    ultimately show ?thesis by blast
  next
    case release
    then have ne: "message_type ?m \<notin> {DHCP_MSG_DISCOVER, DHCP_MSG_REQUEST, DHCP_MSG_DECLINE}" by (simp add: dhcp_consts)
    obtain t' fs' recs' where r: "dhcp_handle_release bus ?m ?t (journal_flash s) = Some (t', fs')"
      "lease_steps up (key_of ?m) (?t, recs) [] (t', recs')" "recorded fs' h recs'" "length recs' \<le> length recs + 1"
      using release_step [OF wf(1-4) fs] by blast
    let ?s = "s\<lparr>lease_table := t', journal_flash := fs'\<rparr>"
    have "dhcp_dispatch bus up cfg args raw s = Some (None, ?s)"
      using release ne r(1) by (simp add: dhcp_dispatch_def Let_def)
    moreover have "followed up h recs s None ?s"
      using r wf(2) buf(2) by (intro followedI [where as = "[]" and recs' = recs']) auto
    ultimately show ?thesis by blast
  qed
qed

lemma round_followed:
  assumes wf: "table_wf (lease_table s)" "msg_wf (received_msg s)" "length (dhcp_reply_buffer s) = 1000" "cfg_wf cfg"
    and packet: "unat got \<le> length raw"
    and fs: "recorded (journal_flash s) h recs" "8 * length recs + 12 \<le> SECTOR_WORDS"
  shows "\<exists>sent s'. dhcp_round bus up cfg args status got raw s = Some (sent, s') \<and> followed up h recs s sent s'"
proof -
  have unchanged: "followed up h recs s None (s\<lparr>received_msg := m\<rparr>)" if "msg_wf m" for m
    using that wf(3) fs(1) by (intro followedI [where as = "[]" and recs' = recs]) (auto intro: lease_steps.Done)
  show ?thesis
  proof (cases "status = NET_STATUS_OK \<and> got \<noteq> 0")
    case False
    moreover have "followed up h recs s None s"
      using wf(2,3) fs(1) by (intro followedI [where as = "[]" and recs' = recs]) (auto intro: lease_steps.Done)
    ultimately show ?thesis by (auto simp: dhcp_round_def)
  next
    case True
    obtain st m where p: "dhcp_parse (Some raw) got (Some (received_msg s)) = Some (st, Some m)" "msg_wf m"
      "st = DHCP_OK \<Longrightarrow> 240 \<le> unat got \<and> ciaddr m = take 4 (drop 12 raw) \<and> lease_key_length m \<le> LEASE_KEY_CAP"
      using parse_packet [OF packet wf(2)] by blast
    let ?s = "s\<lparr>received_msg := m\<rparr>"
    show ?thesis
    proof (cases "st = DHCP_OK")
      case False
      then have "dhcp_round bus up cfg args status got raw s = Some (None, ?s)" using True p(1) by (simp add: dhcp_round_def)
      with unchanged [OF p(2)] show ?thesis by blast
    next
      case ok: True
      have "\<exists>sent s'. dhcp_dispatch bus up cfg args raw ?s = Some (sent, s') \<and> followed up h recs ?s sent s'"
        using wf p(2) p(3) [OF ok] packet fs by (intro dispatch_followed) auto
      moreover have "dhcp_round bus up cfg args status got raw s = dhcp_dispatch bus up cfg args raw ?s"
        using True ok p(1) by (simp add: dhcp_round_def)
      ultimately show ?thesis by (auto simp: followed_def)
    qed
  qed
qed

lemma server_round:
  assumes ok: "server_ok cell cr s recs" "bound_recorded (lease_table s) recs" and cfg: "cfg_wf cfg"
    and packet: "unat got \<le> length raw" and space: "8 * length recs + 12 \<le> SECTOR_WORDS"
  shows "\<exists>sent s' recs' as. dhcp_round bus up cfg args status got raw s = Some (sent, s') \<and>
     server_ok cell cr s' recs' \<and> bound_recorded (lease_table s') recs' \<and> length recs' \<le> length recs + 1 \<and>
     lease_steps up (key_of (received_msg s')) (lease_table s, recs) as (lease_table s', recs') \<and>
     (\<forall>args. sent = Some args \<longrightarrow> (\<exists>buf. tx_data args = Some buf \<and> reply_addr buf \<in> set as))"
proof -
  obtain h where h: "table_wf (lease_table s)" "msg_wf (received_msg s)" "length (dhcp_reply_buffer s) = 1000"
    "journal_header (lease_table s) = Some h" "recorded (journal_flash s) h recs"
    using ok(1) by (auto simp: server_ok_recorded)
  obtain sent s' where r: "dhcp_round bus up cfg args status got raw s = Some (sent, s')" "followed up h recs s sent s'"
    using round_followed [OF h(1-3) cfg packet h(5) space] by blast
  then obtain as recs' where f: "msg_wf (received_msg s')" "length (dhcp_reply_buffer s') = 1000"
    "lease_steps up (key_of (received_msg s')) (lease_table s, recs) as (lease_table s', recs')"
    "recorded (journal_flash s') h recs'" "length recs' \<le> length recs + 1"
    "\<forall>args. sent = Some args \<longrightarrow> (\<exists>buf. tx_data args = Some buf \<and> reply_addr buf \<in> set as)"
    by (auto simp: followed_def)
  have inv: "table_wf (lease_table s')" "bound_recorded (lease_table s') recs'"
    "start_addr (lease_table s') = start_addr (lease_table s)" "table_size (lease_table s') = table_size (lease_table s)"
    using lease_steps_inv [OF f(3)] h(1) ok(2) by simp_all
  have "journal_header (lease_table s') = journal_header (lease_table s)" by (rule journal_header_cong) (rule inv)+
  with inv have "server_ok cell cr s' recs'" using f(1,2,4) h(4) by (auto simp: server_ok_recorded)
  with r(1) inv(2) f(3,5,6) show ?thesis
    by (intro exI [of _ sent] exI [of _ s'] exI [of _ recs'] exI [of _ as]) simp
qed

lemma server_restart:
  assumes ok: "server_ok cell cr s recs" and space: "8 * length recs + 12 \<le> SECTOR_WORDS"
    and t0: "t0 = (lease_table s)\<lparr>slots := replicate (length (slots (lease_table s))) zero_slot\<rparr>"
  shows "\<exists>fs'. load_lease_table bus t0 (flash_reset (flash_dev (journal_flash s))) =
     Some (t0\<lparr>slots := restored (lease_table s) recs\<rparr>, fs', False)"
proof -
  let ?t = "lease_table s"
  obtain h where h: "table_wf ?t" "journal_header ?t = Some h" "recorded (journal_flash s) h recs"
    using ok by (auto simp: server_ok_recorded)
  have wf0: "table_wf t0" "journal_header t0 = Some h"
    using h(1,2) by (auto simp: t0 table_wf_def slot_wf_def zero_slot_def journal_header_def)
  have "holds (flash_reset (flash_dev (journal_flash s))) (journal_words h recs)"
    "journal_rp (flash_reset (flash_dev (journal_flash s))) = 0" "\<forall>b \<in> set recs. rec_ok b"
    using h(3) by (simp_all add: recorded_def holds_def flash_inv_def flash_reset_def journal_rp_def)
  from load_lease_table_ok [OF wf0 this(3,1,2) space] show ?thesis by (auto simp: t0 restored_def)
qed

end

section \<open>An example server\<close>

text \<open>A server with one address, bound to a client with a key of one byte, on a flash chip with its journal.\<close>

definition ex_slot :: lease_slot_t where
  "ex_slot = \<lparr>slot_state = LEASE_ST_BOUND, slot_key = replicate 16 9, slot_key_len = 1, expires_at = 100\<rparr>"

definition ex_table :: lease_table_t where
  "ex_table = \<lparr>slots = [ex_slot], table_size = 1, start_addr = [192, 168, 1, 100]\<rparr>"

definition ex_record :: "u8 list" where
  "ex_record = the (serialize_record ex_slot (addr_of ex_table 0))"

definition ex_journal :: "u32 list" where
  "ex_journal = journal_words (the (journal_header ex_table)) [ex_record]"

definition ex_server :: "flash_chip dhcp_server" where
  "ex_server = \<lparr>lease_table = ex_table,
     journal_flash = \<lparr>flash_sector_read_pointer = replicate 8 0, flash_sector_write_pointer = replicate 8 12,
       flash_dev = \<lparr>chip_cells = (\<lambda>i. if i < length ex_journal then ex_journal ! i else - 1), chip_cr = 0, chip_key = False\<rparr>\<rparr>,
     received_msg = ex_msg, dhcp_reply_buffer = replicate 1000 0\<rparr>"

lemma ex_table_wf: "table_wf ex_table"
  by (simp add: ex_table_def table_wf_def slot_wf_def ex_slot_def)

lemma ex_record_ok: "rec_ok ex_record" "slot_of_rec ex_record = ex_slot" "unat (ex_record ! 9 - start_addr ex_table ! 3) = 0"
proof -
  have "slot_wf ex_slot" by (simp add: slot_wf_def ex_slot_def)
  then obtain b where "serialize_record ex_slot (addr_of ex_table 0) = Some b" "rec_ok b" "slot_of_rec b = ex_slot"
    "b ! 9 = addr_of ex_table 0 ! 3"
    using serialize_record_ok [of ex_slot "addr_of ex_table 0"] ex_table_wf by auto
  then show "rec_ok ex_record" "slot_of_rec ex_record = ex_slot" "unat (ex_record ! 9 - start_addr ex_table ! 3) = 0"
    using table_index(1) [OF ex_table_wf, of 0] by (simp_all add: ex_record_def) (simp add: ex_table_def)
qed

lemma ex_server_ok: "server_ok chip_cells chip_cr ex_server [ex_record]"
proof -
  obtain h where h: "journal_header ex_table = Some h" "length h = 16" using journal_header_ok [OF ex_table_wf] by auto
  then have "ex_journal = journal_words h [ex_record]" "length ex_journal = 12"
    using length_journal_words [of h "[ex_record]"] ex_record_ok(1) by (simp_all add: ex_journal_def)
  then show ?thesis
    using h ex_table_wf ex_record_ok(1) ex_msg_wf
    by (auto simp: server_ok_def ex_server_def journal_holds_def flash_inv_def cr_idle_def journal_wp_def SECTOR_WORDS_def)
qed

lemma ex_server_recorded: "bound_recorded (lease_table ex_server) [ex_record]"
  using ex_record_ok(2,3)
  by (simp add: bound_recorded_def restored_def apply_rec_def ex_server_def) (simp add: ex_table_def)

lemma ex_slot_alive: "slot_alive ex_slot 0"
  by (simp add: slot_alive_def ex_slot_def lease_states)

section \<open>Properties\<close>

text \<open>C19: Whatever packet arrives, a round of the server returns, stays inside its buffers and keeps its
  invariant: the table and the journal stay well formed, every acknowledged lease is recorded in the
  journal with its client, and at most one record is written. The journal sector must have room for it.\<close>

theorem dhcp_round_invariant:
  assumes "flash_hw bus cell cr" "server_ok cell cr s recs" "bound_recorded (lease_table s) recs" "cfg_wf cfg"
    "unat got \<le> length packet" "8 * length recs + 12 \<le> SECTOR_WORDS"
  shows "\<exists>sent s' recs'. dhcp_round bus up cfg args status got packet s = Some (sent, s') \<and>
     server_ok cell cr s' recs' \<and> bound_recorded (lease_table s') recs' \<and> length recs' \<le> length recs + 1"
  using flash_hw.server_round [OF assms] by blast

theorem dhcp_round_invariant_witness:
  "\<exists>sent s' recs'. dhcp_round chip_bus (\<lambda>_. 0) ex_cfg zero_args NET_STATUS_OK 244 (replicate 244 255) ex_server = Some (sent, s') \<and>
     server_ok chip_cells chip_cr s' recs'"
  using dhcp_round_invariant [OF chip.flash_hw_axioms ex_server_ok ex_server_recorded ex_cfg_wf, of 244 "replicate 244 255"
      "\<lambda>_. 0" zero_args NET_STATUS_OK]
  by (auto simp: SECTOR_WORDS_def)

text \<open>C18: A lease that is alive is exclusive: while it lasts, a message from any other client leaves it
  unchanged, and no reply to another client carries its address.\<close>

theorem lease_exclusive:
  assumes hw: "flash_hw bus cell cr" and ok: "server_ok cell cr s recs" "bound_recorded (lease_table s) recs" "cfg_wf cfg"
    "unat got \<le> length packet" "8 * length recs + 12 \<le> SECTOR_WORDS"
    and lease: "j < length (slots (lease_table s))" "\<And>n. slot_alive (slots (lease_table s) ! j) (up n div 1000)"
  shows "\<exists>sent s'. dhcp_round bus up cfg args status got packet s = Some (sent, s') \<and>
     (\<not> holds_key (slots (lease_table s) ! j) (key_of (received_msg s')) \<longrightarrow>
        slots (lease_table s') ! j = slots (lease_table s) ! j \<and>
        (\<forall>args. sent = Some args \<longrightarrow>
           (\<exists>buf. tx_data args = Some buf \<and> reply_addr buf \<noteq> addr_of (lease_table s) j)))"
proof -
  have wf: "table_wf (lease_table s)" using ok(1) by (simp add: server_ok_def)
  obtain sent s' recs' as where r: "dhcp_round bus up cfg args status got packet s = Some (sent, s')"
    "lease_steps up (key_of (received_msg s')) (lease_table s, recs) as (lease_table s', recs')"
    "\<forall>args. sent = Some args \<longrightarrow> (\<exists>buf. tx_data args = Some buf \<and> reply_addr buf \<in> set as)"
    using flash_hw.server_round [OF hw ok] by blast
  have "slots (lease_table s') ! j = slots (lease_table s) ! j \<and> (\<forall>x \<in> set as. x ! 3 \<noteq> addr_of (lease_table s) j ! 3)"
    if "\<not> holds_key (slots (lease_table s) ! j) (key_of (received_msg s'))"
    using lease_steps_exclusive [OF r(2), of j] wf lease that by simp
  with r(1,3) show ?thesis by (metis)
qed

theorem lease_exclusive_witness:
  "\<exists>sent s'. dhcp_round chip_bus (\<lambda>_. 0) ex_cfg zero_args NET_STATUS_OK 244 (replicate 244 255) ex_server = Some (sent, s') \<and>
     (\<not> holds_key ex_slot (key_of (received_msg s')) \<longrightarrow> slots (lease_table s') ! 0 = ex_slot)"
  using lease_exclusive [OF chip.flash_hw_axioms ex_server_ok ex_server_recorded ex_cfg_wf, of 244 "replicate 244 255" 0
      "\<lambda>_. 0" zero_args NET_STATUS_OK] ex_slot_alive
  by (auto simp: SECTOR_WORDS_def ex_server_def ex_table_def)

text \<open>C20: Acknowledged leases survive a restart: loading the journal into an empty table succeeds, asks for
  no compaction, and restores every bound slot with its client.\<close>

theorem leases_survive_restart:
  assumes "flash_hw bus cell cr" "server_ok cell cr s recs" "bound_recorded (lease_table s) recs"
    "8 * length recs + 12 \<le> SECTOR_WORDS"
  shows "\<exists>t' fs'. load_lease_table bus ((lease_table s)\<lparr>slots := replicate (length (slots (lease_table s))) zero_slot\<rparr>)
       (flash_reset (flash_dev (journal_flash s))) = Some (t', fs', False) \<and>
     (\<forall>i < length (slots (lease_table s)). slot_state (slots (lease_table s) ! i) = LEASE_ST_BOUND \<longrightarrow>
        slot_state (slots t' ! i) = LEASE_ST_BOUND \<and> slot_key (slots t' ! i) = slot_key (slots (lease_table s) ! i) \<and>
        slot_key_len (slots t' ! i) = slot_key_len (slots (lease_table s) ! i))"
  using flash_hw.server_restart [OF assms(1,2,4) refl] assms(3) by (fastforce simp: bound_recorded_def)

theorem leases_survive_restart_witness:
  "\<exists>t' fs'. load_lease_table chip_bus (ex_table\<lparr>slots := [zero_slot]\<rparr>) (flash_reset (flash_dev (journal_flash ex_server))) =
     Some (t', fs', False) \<and> slot_state (slots t' ! 0) = LEASE_ST_BOUND"
  using leases_survive_restart [OF chip.flash_hw_axioms ex_server_ok ex_server_recorded]
  by (auto simp: SECTOR_WORDS_def ex_server_def ex_table_def ex_slot_def)

text \<open>Compaction and loading are inverse: after the table is written to a fresh journal, a restart reads
  it back; only slots without a lease are forgotten.\<close>

theorem journal_compact_roundtrip:
  assumes "flash_hw bus cell cr" "table_wf t" "flash_inv cr fs"
  shows "\<exists>fs1 fs2. journal_compact bus t fs = Some fs1 \<and>
     load_lease_table bus (t\<lparr>slots := replicate (length (slots t)) zero_slot\<rparr>) (flash_reset (flash_dev fs1)) =
       Some (t\<lparr>slots := map (\<lambda>s. if slot_state s = LEASE_ST_FREE then zero_slot else s) (slots t)\<rparr>, fs2, False)"
  by (rule flash_hw.compact_then_load [OF assms refl])

theorem journal_compact_roundtrip_witness:
  "\<exists>fs1 fs2. journal_compact chip_bus ex_table (journal_flash ex_server) = Some fs1 \<and>
     load_lease_table chip_bus (ex_table\<lparr>slots := [zero_slot]\<rparr>) (flash_reset (flash_dev fs1)) = Some (ex_table, fs2, False)"
  using journal_compact_roundtrip [OF chip.flash_hw_axioms ex_table_wf, of "journal_flash ex_server"] ex_server_ok
  by (auto simp: server_ok_def journal_holds_def) (auto simp: ex_table_def ex_slot_def lease_states)

text \<open>A client that has released its lease is locked out: the search finds its old slot and offers the
  address, but the slot stays free, so the request for the offered address is never answered.\<close>

theorem released_client_locked_out:
  assumes wf: "table_wf t" "msg_wf m" "lease_key_length m \<le> LEASE_KEY_CAP" "lease_key_length m \<noteq> 0"
    and slot: "i < length (slots t)" "slot_state (slots t ! i) = LEASE_ST_FREE" "holds_key (slots t ! i) (key_of m)"
      "\<And>j. j < i \<Longrightarrow> \<not> own_slot (slots t) (key_of m) j"
    and req: "msg_wf r" "has_requested_ip r" "requested_ip r = addr_of t i"
  shows "\<exists>t'. chose_address up t (lease_key m) (lease_key_length m) lsecs = Some (DHCP_OK, t', Some (addr_of t i)) \<and>
     slot_state (slots t' ! i) = LEASE_ST_FREE \<and>
     (\<exists>st args'. dhcp_handle_request bus up' r cfg raw rb n args t' fs = Some (st, args', t', fs, rb) \<and>
        (st \<noteq> DHCP_OK \<or> args' = zero_args))"
proof -
  have own: "own_slot (slots t) (key_of m) i" using slot(2,3) by (simp add: own_slot_def lease_states)
  have key: "length (lease_key m) = 16" using wf(2) by (simp add: msg_wf_def)
  define x where "x = (slots t ! i)\<lparr>expires_at := up (unat (table_size t)) div 1000 + lsecs\<rparr>"
  define t' where "t' = t\<lparr>slots := (slots t)[i := x]\<rparr>"
  have ch: "chose_address up t (lease_key m) (lease_key_length m) lsecs = Some (DHCP_OK, t', Some (addr_of t i))"
    using wf(1) key wf(3,4) key_of_def [of m] refl refl
  proof (cases rule: chose_address_cases [where up = up and lsecs = lsecs])
    case (own j)
    have "j = i" using own(2,3) slot(4) \<open>own_slot (slots t) (key_of m) i\<close> by (metis linorder_neqE_nat)
    with own(4) show ?thesis by (simp add: t'_def x_def)
  qed (use own slot(1) wf(1) in \<open>auto simp: table_wf_def\<close>)
  have wf': "table_wf t'" using table_wf_update [OF wf(1)] table_slot_wf [OF wf(1) slot(1)] by (simp add: t'_def x_def slot_wf_def)
  have free: "slot_state (slots t' ! i) = LEASE_ST_FREE" using slot(1,2) by (simp add: t'_def x_def)
  have addr: "length (addr_of t i) = 4" using wf(1) by simp
  obtain k where k: "slot_index t' (addr_of t i) = Some k" "\<And>j. k = Some j \<Longrightarrow> j = i"
    using slot_index_ok [OF wf' addr] table_index(1) [OF wf(1) slot(1)] by (auto simp: t'_def)
  have "\<exists>st args'. dhcp_handle_request bus up' r cfg raw rb n args t' fs = Some (st, args', t', fs, rb) \<and>
      (st \<noteq> DHCP_OK \<or> args' = zero_args)"
  proof (cases "has_server_id r \<and> take 4 (msg_server_id r) \<noteq> take 4 (cfg_server_id cfg)")
    case True
    then show ?thesis by (simp add: dhcp_handle_request_def)
  next
    case False
    have "\<not> slot_alive (slots t' ! i) (up' 0 div 1000)" using free by (simp add: slot_alive_def)
    with False k addr req(2,3) slot(1) show ?thesis by (cases k) (auto simp: dhcp_handle_request_def t'_def)
  qed
  with ch free show ?thesis by blast
qed

theorem released_client_locked_out_witness:
  "\<exists>t'. chose_address (\<lambda>_. 0) (ex_table\<lparr>slots := [ex_slot\<lparr>slot_state := LEASE_ST_FREE\<rparr>]\<rparr>) (replicate 16 9) 1 3600 =
     Some (DHCP_OK, t', Some [192, 168, 1, 100]) \<and> slot_state (slots t' ! 0) = LEASE_ST_FREE"
  using released_client_locked_out [of "ex_table\<lparr>slots := [ex_slot\<lparr>slot_state := LEASE_ST_FREE\<rparr>]\<rparr>"
      "ex_msg\<lparr>lease_key := replicate 16 9, lease_key_length := 1\<rparr>" 0
      "ex_msg\<lparr>has_requested_ip := True, requested_ip := [192, 168, 1, 100]\<rparr>" "\<lambda>_. 0" 3600
      chip_bus "\<lambda>_. 0" ex_cfg "[]" "[]" 0 zero_args "journal_flash ex_server"]
  by (simp add: ex_table_def table_wf_def slot_wf_def ex_slot_def msg_wf_def ex_msg_def holds_key_def key_of_def addr_of_def
      LEASE_KEY_CAP_def lease_states) blast

end
