(* ===== verification/Machine.thy ===== *)
theory Machine
  imports Static_Memory Heap Ring_Buffer CLib Net_Types Bus
begin

text \<open>
  The global state of the program above the scheduler: the record \<open>machine\<close> has one field for every
  group of global variables of the drivers and the kernel services, next to the kernel state, the
  heap and the byte addressed memory in which tasks keep their buffers; \<open>'d\<close> is the state of the
  devices. The record \<open>platform\<close> collects what is fixed outside the C sources: the addresses chosen
  by the linker, the devices on the bus, and what happens on the machine while a task waits.

  The typed stores of control blocks, semaphores, mutexes, sockets, block headers, and of the replies
  and results of network requests, which callers keep on their stacks, are separate from the byte memory, as objects of different types do not overlap in the C program.
\<close>

datatype spi_state_t = SPI_ST_UNINIT | SPI_ST_CONFIGURED | SPI_ST_READY | SPI_ST_FAULTED

record 'd machine =
  kern :: kernel
  kheap :: heap
  umem :: mem
  sockets :: sstore
  sinks :: "ptr list"
  registry :: "ptr list"
  rx_ring_buffer :: ring_buffer_t
  tx_ring_buffer :: ring_buffer_t
  rx_sem :: ptr
  current_req :: net_request_t
  net_posted :: ptr
  net_done :: ptr
  replies :: "ptr \<Rightarrow> net_reply_t"
  results :: "ptr \<Rightarrow> u32"
  spi_state :: spi_state_t
  dev :: 'd

text \<open>
  \<open>others\<close>: what the rest of the system does from the moment a task gives up the processor in a system
  call until it runs again; \<open>None\<close> if it never does. \<open>spin\<close>: what interrupts do between two rounds of
  a busy waiting loop. \<open>spi1_lock\<close> is the address of the mutex of that name, \<open>literal\<close> where the compiler
  puts a string literal, and \<open>junk n\<close> what an array of \<open>n\<close> bytes holds before it is initialised.
\<close>

record 'd platform =
  lay :: layout
  heap_start :: ptr
  heap_end :: ptr
  spi1_lock :: ptr
  literal :: "u8 list \<Rightarrow> ptr"
  junk :: "nat \<Rightarrow> u8 list"
  hw :: "'d bus"
  others :: "'d machine \<Rightarrow> 'd machine option"
  spin :: "'d machine \<Rightarrow> 'd machine option"

section \<open>Lifting to the machine\<close>

definition on_kern :: "(kernel \<Rightarrow> kernel) \<Rightarrow> 'd machine \<Rightarrow> 'd machine" where
  "on_kern f s = s\<lparr>kern := f (kern s)\<rparr>"

text \<open>Accesses to device registers.\<close>

definition reg_read :: "'d platform \<Rightarrow> ptr \<Rightarrow> 'd machine \<Rightarrow> u32 \<times> 'd machine" where
  "reg_read P a s = (let (v, d) = bus_read (hw P) a (dev s) in (v, s\<lparr>dev := d\<rparr>))"

definition reg_write :: "'d platform \<Rightarrow> ptr \<Rightarrow> u32 \<Rightarrow> 'd machine \<Rightarrow> 'd machine" where
  "reg_write P a v s = s\<lparr>dev := bus_write (hw P) a v (dev s)\<rparr>"

definition reg_or :: "'d platform \<Rightarrow> ptr \<Rightarrow> u32 \<Rightarrow> 'd machine \<Rightarrow> 'd machine" where
  "reg_or P a bits s = s\<lparr>dev := bus_or (hw P) a bits (dev s)\<rparr>"

definition reg_and :: "'d platform \<Rightarrow> ptr \<Rightarrow> u32 \<Rightarrow> 'd machine \<Rightarrow> 'd machine" where
  "reg_and P a bits s = s\<lparr>dev := bus_and (hw P) a bits (dev s)\<rparr>"

text \<open>Bytes stored in memory from an address on.\<close>

fun store_bytes :: "ptr \<Rightarrow> u8 list \<Rightarrow> mem \<Rightarrow> mem" where
  "store_bytes p [] m = m"
| "store_bytes p (b # bs) m = store_bytes (p + 1) bs (m(p := b))"

lemma store_bytes_other: "a \<notin> block p (length bs) \<Longrightarrow> store_bytes p bs m a = m a"
  by (induction bs arbitrary: p m) (auto simp: block_Suc)

lemma bytes_at_store_bytes:
  "length bs \<le> 2 ^ 32 \<Longrightarrow> bytes_at (store_bytes p bs m) p (length bs) = bs"
proof (induction bs arbitrary: p m)
  case (Cons b bs)
  have "p \<notin> block (p + 1) (length bs)" using Cons.prems by (intro start_not_in_rest) simp
  then have "store_bytes (p + 1) bs (m(p := b)) p = b" by (simp add: store_bytes_other)
  with Cons show ?case by simp
qed simp

text \<open>Writes to registers leave everything but the devices alone.\<close>

lemma reg_write_frame [simp, frame_simps]:
  "kern (reg_write P a v s) = kern s" "kern (reg_or P a v s) = kern s" "kern (reg_and P a v s) = kern s"
  "umem (reg_write P a v s) = umem s" "umem (reg_or P a v s) = umem s" "umem (reg_and P a v s) = umem s"
  "tx_ring_buffer (reg_write P a v s) = tx_ring_buffer s" "tx_ring_buffer (reg_or P a v s) = tx_ring_buffer s"
  "tx_ring_buffer (reg_and P a v s) = tx_ring_buffer s"
  "rx_ring_buffer (reg_write P a v s) = rx_ring_buffer s" "rx_ring_buffer (reg_or P a v s) = rx_ring_buffer s"
  "rx_ring_buffer (reg_and P a v s) = rx_ring_buffer s"
  "rx_sem (reg_write P a v s) = rx_sem s" "rx_sem (reg_or P a v s) = rx_sem s" "rx_sem (reg_and P a v s) = rx_sem s"
  "spi_state (reg_write P a v s) = spi_state s" "spi_state (reg_or P a v s) = spi_state s"
  "spi_state (reg_and P a v s) = spi_state s"
  "sockets (reg_write P a v s) = sockets s" "sockets (reg_or P a v s) = sockets s"
  "sockets (reg_and P a v s) = sockets s"
  by (simp_all add: reg_write_def reg_or_def reg_and_def)

lemma reg_read_frame [simp, frame_simps]:
  "kern (snd (reg_read P a s)) = kern s" "umem (snd (reg_read P a s)) = umem s"
  "sockets (snd (reg_read P a s)) = sockets s" "spi_state (snd (reg_read P a s)) = spi_state s"
  by (simp_all add: reg_read_def case_prod_unfold Let_def)

text \<open>Steps that change nothing but the devices, and steps that also write to some addresses.\<close>

definition dev_step :: "'d machine \<Rightarrow> 'd machine \<Rightarrow> bool" where
  "dev_step s s' \<longleftrightarrow> (\<exists>d. s' = s\<lparr>dev := d\<rparr>)"

definition mem_step :: "ptr set \<Rightarrow> 'd machine \<Rightarrow> 'd machine \<Rightarrow> bool" where
  "mem_step A s s' \<longleftrightarrow> (\<exists>d m. s' = s\<lparr>dev := d, umem := m\<rparr> \<and> (\<forall>a. a \<notin> A \<longrightarrow> m a = umem s a))"

lemma dev_step_refl [simp, intro]: "dev_step s s"
  unfolding dev_step_def by (rule exI [of _ "dev s"]) simp

lemma dev_step_trans [trans]: "dev_step s s' \<Longrightarrow> dev_step s' s'' \<Longrightarrow> dev_step s s''"
  by (auto simp: dev_step_def)

lemma reg_dev_step [simp, intro]:
  "dev_step s (reg_write P a v s)" "dev_step s (reg_or P a v s)" "dev_step s (reg_and P a v s)"
  by (auto simp: dev_step_def reg_write_def reg_or_def reg_and_def)

lemma reg_read_dev_step: "reg_read P a s = (v, s') \<Longrightarrow> dev_step s s'"
  unfolding dev_step_def reg_read_def by (rule exI [of _ "snd (bus_read (hw P) a (dev s))"]) (auto simp: case_prod_unfold Let_def)

lemma dev_mem_step:
  assumes "dev_step s s'"
  shows "mem_step A s s'"
proof -
  obtain d where "s' = s\<lparr>dev := d\<rparr>" using assms by (auto simp: dev_step_def)
  then have "s' = s\<lparr>dev := d, umem := umem s\<rparr>" by simp
  then show ?thesis unfolding mem_step_def by blast
qed

lemma mem_step_refl [simp, intro]: "mem_step A s s"
  by (rule dev_mem_step) simp

lemma mem_step_trans [trans]: "mem_step A s s' \<Longrightarrow> mem_step A s' s'' \<Longrightarrow> mem_step A s s''"
  unfolding mem_step_def by fastforce

lemma mem_step_mono: "mem_step A s s' \<Longrightarrow> A \<subseteq> B \<Longrightarrow> mem_step B s s'"
  unfolding mem_step_def by blast

lemma mem_stepD:
  assumes "mem_step A s s'"
  shows "kern s' = kern s" "sockets s' = sockets s" "spi_state s' = spi_state s" "sinks s' = sinks s"
    "a \<notin> A \<Longrightarrow> umem s' a = umem s a"
  using assms by (auto simp: mem_step_def)

lemma dev_stepD:
  assumes "dev_step s s'"
  shows "kern s' = kern s" "sockets s' = sockets s" "spi_state s' = spi_state s" "sinks s' = sinks s"
    "umem s' = umem s" "current_req s' = current_req s" "net_posted s' = net_posted s" "net_done s' = net_done s"
    "rx_ring_buffer s' = rx_ring_buffer s" "tx_ring_buffer s' = tx_ring_buffer s"
  using assms by (auto simp: dev_step_def)

section \<open>An example\<close>

text \<open>A machine on which nothing has been started, and a platform on which nothing happens by itself.\<close>

definition idle_machine :: "kernel \<Rightarrow> heap \<Rightarrow> 'd \<Rightarrow> 'd machine" where
  "idle_machine k h d = \<lparr>kern = k, kheap = h, umem = (\<lambda>_. 0),
     sockets = (\<lambda>_. \<lparr>sock_number = 0, sock_port = 0, sock_protocol = CLOSED, sock_status = SOCKET_STATUS_CREATED,
       has_unreaped_send = False\<rparr>),
     sinks = [0, 0, 0, 0], registry = replicate 8 0,
     rx_ring_buffer = \<lparr>rb_buffer = replicate 16 0, rb_size = 16, rb_head = 0, rb_tail = 0\<rparr>,
     tx_ring_buffer = \<lparr>rb_buffer = replicate 16 0, rb_size = 16, rb_head = 0, rb_tail = 0\<rparr>,
     rx_sem = 0, current_req = zero_request, net_posted = 0, net_done = 0,
     replies = (\<lambda>_. zero_reply), results = (\<lambda>_. 0), spi_state = SPI_ST_UNINIT, dev = d\<rparr>"

definition plain_platform :: "'d bus \<Rightarrow> 'd platform" where
  "plain_platform b = \<lparr>lay = ex_layout, heap_start = 0x20010000, heap_end = 0x20011000, spi1_lock = 0x20000050,
     literal = (\<lambda>_. 0x08004000), junk = (\<lambda>n. replicate n 0xAA), hw = b, others = Some, spin = Some\<rparr>"

end
