(* ===== verification/Console.thy ===== *)
theory Console
  imports Machine
begin

text \<open>
  The driver registry (\<^verbatim>\<open>source/kernel/driver.c\<close>) and the console that distributes output to the
  attached drivers and takes input from them (\<^verbatim>\<open>source/kernel/console.c\<close>). A driver is a structure of
  function pointers: a field is \<open>None\<close> for a NULL pointer, and a function acts on a state \<open>'s\<close>; that it
  does not return is \<open>None\<close>. A constant input buffer is the list of its bytes; a function that fills a
  buffer takes the buffer and returns it. The structures themselves are constants of the program and
  given as a function \<open>D\<close> from their addresses.
\<close>

section \<open>Data\<close>

record 's driver_t =
  drv_name :: ptr
  drv_init :: "('s \<Rightarrow> (int \<times> 's) option) option"
  drv_write :: "(u8 list \<Rightarrow> 's \<Rightarrow> (int \<times> 's) option) option"
  drv_write_sync :: "(u8 list \<Rightarrow> 's \<Rightarrow> (int \<times> 's) option) option"
  drv_read :: "(u8 list \<Rightarrow> u32 \<Rightarrow> 's \<Rightarrow> (int \<times> u8 list \<times> 's) option) option"
  drv_read_blocking :: "(u8 list \<Rightarrow> u32 \<Rightarrow> 's \<Rightarrow> (int \<times> u8 list \<times> 's) option) option"

definition DRIVER_MAX :: nat where "DRIVER_MAX = 8"
definition CONSOLE_MAX_SINKS :: nat where "CONSOLE_MAX_SINKS = 4"

section \<open>The driver registry\<close>

text \<open>The first NULL entry of an array of pointers.\<close>

fun register_loop :: "ptr \<Rightarrow> ptr list \<Rightarrow> ptr list option" where
  "register_loop drv [] = None"
| "register_loop drv (r # reg) =
     (if r = 0 then Some (drv # reg) else map_option (Cons r) (register_loop drv reg))"

definition driver_register ::
  "(ptr \<Rightarrow> 's driver_t) \<Rightarrow> ptr \<Rightarrow> ptr list \<times> 's \<Rightarrow> (int \<times> ptr list \<times> 's) option" where
  "driver_register D drv = (\<lambda>(reg, s).
     if drv = 0 \<or> drv_name (D drv) = 0 then Some (- 1, reg, s)
     else do {
       (r, s) \<leftarrow> (case drv_init (D drv) of None \<Rightarrow> Some (0, s) | Some init \<Rightarrow> init s);
       if r \<noteq> 0 then Some (- 2, reg, s)
       else Some (case register_loop drv reg of Some reg \<Rightarrow> (0, reg, s) | None \<Rightarrow> (- 3, reg, s))
     })"

fun driver_find :: "(ptr \<Rightarrow> 's driver_t) \<Rightarrow> mem \<Rightarrow> ptr \<Rightarrow> ptr list \<Rightarrow> ptr option" where
  "driver_find D m name [] = Some 0"
| "driver_find D m name (r # reg) =
     (if r \<noteq> 0
      then do {
        c \<leftarrow> strcmp m (drv_name (D r)) name;
        if c = 0 then Some r else driver_find D m name reg
      }
      else driver_find D m name reg)"

section \<open>The console\<close>

text \<open>The loop of \<open>console_attach\<close>: \<open>None\<close> if the driver is attached already, else the free slot.\<close>

fun attach_loop :: "ptr \<Rightarrow> ptr list \<Rightarrow> int \<Rightarrow> int \<Rightarrow> int option" where
  "attach_loop drv [] i free_slot = Some free_slot"
| "attach_loop drv (s # ss) i free_slot =
     (if s = drv then None
      else attach_loop drv ss (i + 1) (if s = 0 \<and> free_slot < 0 then i else free_slot))"

definition console_attach :: "ptr \<Rightarrow> ptr list \<Rightarrow> int \<times> ptr list" where
  "console_attach drv ss =
     (if drv = 0 then (- 1, ss)
      else case attach_loop drv ss 0 (- 1) of
        None \<Rightarrow> (0, ss)
      | Some free_slot \<Rightarrow> (if free_slot \<ge> 0 then (0, ss[nat free_slot := drv]) else (- 2, ss)))"

definition console_detach :: "ptr \<Rightarrow> ptr list \<Rightarrow> int \<times> ptr list" where
  "console_detach drv ss = (0, map (\<lambda>s. if s = drv then 0 else s) ss)"

fun console_write :: "(ptr \<Rightarrow> 's driver_t) \<Rightarrow> u8 list \<Rightarrow> ptr list \<Rightarrow> 's \<Rightarrow> 's option" where
  "console_write D buf [] s = Some s"
| "console_write D buf (sink # ss) s =
     (case (if sink \<noteq> 0 then drv_write (D sink) else None) of
        None \<Rightarrow> console_write D buf ss s
      | Some write \<Rightarrow> do { (n, s) \<leftarrow> write buf s; console_write D buf ss s })"

fun console_write_sync :: "(ptr \<Rightarrow> 's driver_t) \<Rightarrow> u8 list \<Rightarrow> ptr list \<Rightarrow> 's \<Rightarrow> 's option" where
  "console_write_sync D buf [] s = Some s"
| "console_write_sync D buf (sink # ss) s =
     (case (if sink \<noteq> 0 then drv_write_sync (D sink) else None) of
        None \<Rightarrow> console_write_sync D buf ss s
      | Some write \<Rightarrow> do { (n, s) \<leftarrow> write buf s; console_write_sync D buf ss s })"

fun console_read ::
  "(ptr \<Rightarrow> 's driver_t) \<Rightarrow> u8 list \<Rightarrow> u32 \<Rightarrow> ptr list \<Rightarrow> 's \<Rightarrow> (int \<times> u8 list \<times> 's) option" where
  "console_read D buf len [] s = Some (0, buf, s)"
| "console_read D buf len (sink # ss) s =
     (case (if sink \<noteq> 0 then drv_read (D sink) else None) of
        None \<Rightarrow> console_read D buf len ss s
      | Some read \<Rightarrow> do {
          (n, buf, s) \<leftarrow> read buf len s;
          if n > 0 then Some (n, buf, s) else console_read D buf len ss s
        })"

fun console_read_blocking ::
  "(ptr \<Rightarrow> 's driver_t) \<Rightarrow> u8 list \<Rightarrow> u32 \<Rightarrow> ptr list \<Rightarrow> 's \<Rightarrow> (int \<times> u8 list \<times> 's) option" where
  "console_read_blocking D buf len [] s = Some (0, buf, s)"
| "console_read_blocking D buf len (sink # ss) s =
     (case (if sink \<noteq> 0 then drv_read_blocking (D sink) else None) of
        None \<Rightarrow> console_read_blocking D buf len ss s
      | Some read \<Rightarrow> do {
          (n, buf, s) \<leftarrow> read buf len s;
          if n > 0 then Some (n, buf, s) else console_read_blocking D buf len ss s
        })"

section \<open>Attached sinks\<close>

definition attached :: "ptr list \<Rightarrow> ptr set" where
  "attached ss = set ss - {0}"

text \<open>The array has its declared size and holds no driver twice.\<close>

definition sinks_ok :: "ptr list \<Rightarrow> bool" where
  "sinks_ok ss \<longleftrightarrow> length ss = CONSOLE_MAX_SINKS \<and> distinct (filter (\<lambda>s. s \<noteq> 0) ss)"

lemma attach_loop_None: "attach_loop drv ss i f = None \<longleftrightarrow> drv \<in> set ss"
  by (induction ss arbitrary: i f) auto

lemma attach_loop_keep: "drv \<notin> set ss \<Longrightarrow> 0 \<le> f \<Longrightarrow> attach_loop drv ss i f = Some f"
  by (induction ss arbitrary: i f) auto

lemma attach_loop_free:
  "drv \<notin> set ss \<Longrightarrow> 0 \<le> i \<Longrightarrow> \<exists>f. attach_loop drv ss i (- 1) = Some f \<and>
     (if 0 \<in> set ss then i \<le> f \<and> nat (f - i) < length ss \<and> ss ! nat (f - i) = 0 else f = - 1)"
proof (induction ss arbitrary: i)
  case (Cons a ss)
  show ?case
  proof (cases "a = 0")
    case True
    with Cons.prems show ?thesis by (simp add: attach_loop_keep)
  next
    case False
    with Cons.IH [of "i + 1"] Cons.prems obtain f where f: "attach_loop drv ss (i + 1) (- 1) = Some f"
      "if 0 \<in> set ss then i + 1 \<le> f \<and> nat (f - (i + 1)) < length ss \<and> ss ! nat (f - (i + 1)) = 0 else f = - 1"
      by auto
    have "nat (f - i) = Suc (nat (f - (i + 1)))" if "i + 1 \<le> f" using that by simp
    with f False Cons.prems show ?thesis by (auto split: if_splits)
  qed
qed simp

lemma fill_free_slot:
  assumes "j < length ss" "ss ! j = 0" "drv \<noteq> 0" "drv \<notin> set ss"
  shows "attached (ss[j := drv]) = insert drv (attached ss)"
    "distinct (filter (\<lambda>s. s \<noteq> 0) ss) \<Longrightarrow> distinct (filter (\<lambda>s. s \<noteq> 0) (ss[j := drv]))"
proof -
  define as bs where "as = take j ss" and "bs = drop (Suc j) ss"
  have ss: "ss = as @ 0 # bs" using id_take_nth_drop [OF assms(1)] assms(2) by (simp add: as_def bs_def)
  have upd: "ss[j := drv] = as @ drv # bs" using assms(1) by (simp add: upd_conv_take_nth_drop as_def bs_def)
  show "attached (ss[j := drv]) = insert drv (attached ss)"
    using assms(3) unfolding upd unfolding ss by (auto simp: attached_def)
  show "distinct (filter (\<lambda>s. s \<noteq> 0) (ss[j := drv]))" if "distinct (filter (\<lambda>s. s \<noteq> 0) ss)"
    using that assms(3,4) unfolding upd unfolding ss by auto
qed

text \<open>Every sink with a write function gets the bytes once, in the order of the slots.\<close>

fun write_all :: "(ptr \<Rightarrow> 's driver_t) \<Rightarrow> u8 list \<Rightarrow> ptr list \<Rightarrow> 's \<Rightarrow> 's option" where
  "write_all D buf [] s = Some s"
| "write_all D buf (p # ps) s = Option.bind (map_option snd (the (drv_write (D p)) buf s)) (write_all D buf ps)"

lemma console_write_all:
  "console_write D buf ss s = write_all D buf (filter (\<lambda>p. p \<noteq> 0 \<and> drv_write (D p) \<noteq> None) ss) s"
  by (induction ss arbitrary: s) (auto split: option.splits simp: bind_map_option comp_def case_prod_unfold)

text \<open>An example: four slots, one of them taken.\<close>

definition ex_sinks :: "ptr list" where
  "ex_sinks = [0x08001000, 0, 0, 0]"

lemma ex_sinks_ok: "sinks_ok ex_sinks"
  by (simp add: sinks_ok_def ex_sinks_def CONSOLE_MAX_SINKS_def)

text \<open>Attaching a driver to the console adds it to the attached sinks unless all four slots are
  taken by others, in which case it fails and changes nothing; a driver is never attached twice, so
  that output reaches it once. Detaching removes it and no other.\<close>

theorem console_attach_spec:
  assumes ok: "sinks_ok ss" and drv: "drv \<noteq> 0"
  shows "(\<exists>r ss'. console_attach drv ss = (r, ss') \<and> sinks_ok ss' \<and>
       (if drv \<in> attached ss \<or> card (attached ss) < CONSOLE_MAX_SINKS
        then r = 0 \<and> attached ss' = insert drv (attached ss) else r = - 2 \<and> ss' = ss)) \<and>
     (\<exists>ss'. console_detach drv ss = (0, ss') \<and> sinks_ok ss' \<and> attached ss' = attached ss - {drv})"
proof -
  have card: "card (attached ss) = length (filter (\<lambda>s. s \<noteq> 0) ss)"
    using ok distinct_card [of "filter (\<lambda>s. s \<noteq> 0) ss"]
    by (simp add: sinks_ok_def attached_def set_filter set_diff_eq)
  have full: "0 \<in> set ss \<longleftrightarrow> card (attached ss) < CONSOLE_MAX_SINKS"
  proof -
    have "length (filter (\<lambda>s. s \<noteq> 0) ss) < length ss \<longleftrightarrow> (\<exists>s\<in>set ss. s = 0)"
      using length_filter_less [of _ ss "\<lambda>s. s \<noteq> 0"] filter_True [of ss "\<lambda>s. s \<noteq> 0"] by fastforce
    with card ok show ?thesis by (auto simp: sinks_ok_def)
  qed
  have att: "\<exists>r ss'. console_attach drv ss = (r, ss') \<and> sinks_ok ss' \<and>
     (if drv \<in> attached ss \<or> card (attached ss) < CONSOLE_MAX_SINKS
      then r = 0 \<and> attached ss' = insert drv (attached ss) else r = - 2 \<and> ss' = ss)"
  proof (cases "drv \<in> set ss")
    case True
    then have "console_attach drv ss = (0, ss)" "drv \<in> attached ss"
      using drv attach_loop_None [of drv ss 0 "- 1"] by (auto simp: console_attach_def attached_def)
    with ok show ?thesis by auto
  next
    case False
    obtain f where f: "attach_loop drv ss 0 (- 1) = Some f"
      "if 0 \<in> set ss then 0 \<le> f \<and> nat f < length ss \<and> ss ! nat f = 0 else f = - 1"
      using attach_loop_free [OF False order_refl] unfolding diff_zero by blast
    show ?thesis
    proof (cases "0 \<in> set ss")
      case True
      with f drv have "console_attach drv ss = (0, ss[nat f := drv])" by (simp add: console_attach_def)
      moreover have "attached (ss[nat f := drv]) = insert drv (attached ss)" "sinks_ok (ss[nat f := drv])"
        using True f fill_free_slot [of "nat f" ss drv] drv False ok by (simp_all add: sinks_ok_def)
      ultimately show ?thesis using True full by simp
    next
      case no: False
      with f drv have "console_attach drv ss = (- 2, ss)" by (simp add: console_attach_def)
      moreover have "drv \<notin> attached ss" using False by (simp add: attached_def)
      ultimately show ?thesis using no ok full by simp
    qed
  qed
  have "filter (\<lambda>s. s \<noteq> 0) (map (\<lambda>s. if s = drv then 0 else s) ss) = filter (\<lambda>s. s \<noteq> drv) (filter (\<lambda>s. s \<noteq> 0) ss)"
    using drv by (induction ss) auto
  then have "distinct (filter (\<lambda>s. s \<noteq> 0) (map (\<lambda>s. if s = drv then 0 else s) ss))"
    using ok distinct_filter [of "filter (\<lambda>s. s \<noteq> 0) ss" "\<lambda>s. s \<noteq> drv"]
    unfolding sinks_ok_def by argo
  then have "\<exists>ss'. console_detach drv ss = (0, ss') \<and> sinks_ok ss' \<and> attached ss' = attached ss - {drv}"
    using ok by (auto simp: console_detach_def sinks_ok_def attached_def)
  with att show ?thesis by blast
qed

theorem console_attach_spec_witness:
  "\<exists>ss'. console_attach 0x08002000 ex_sinks = (0, ss') \<and> sinks_ok ss' \<and> attached ss' = {0x08001000, 0x08002000}"
  using console_attach_spec [OF ex_sinks_ok, of "0x08002000"]
  by (auto simp: ex_sinks_def attached_def CONSOLE_MAX_SINKS_def)

section \<open>Registered drivers\<close>

lemma register_loop_Some:
  "register_loop drv reg = Some reg' \<Longrightarrow>
   \<exists>as bs. reg = as @ 0 # bs \<and> 0 \<notin> set as \<and> reg' = as @ drv # bs"
proof (induction reg arbitrary: reg')
  case (Cons r reg)
  show ?case
  proof (cases "r = 0")
    case True
    with Cons.prems show ?thesis by (intro exI [of _ "[]"] exI [of _ reg]) simp
  next
    case False
    with Cons.prems obtain reg1 where "register_loop drv reg = Some reg1" "reg' = r # reg1" by auto
    with Cons.IH [of reg1] obtain as bs where "reg = as @ 0 # bs" "0 \<notin> set as" "reg1 = as @ drv # bs" by auto
    with False \<open>reg' = r # reg1\<close> show ?thesis by (intro exI [of _ "r # as"] exI [of _ bs]) simp
  qed
qed simp

text \<open>\<open>named D m nm reg\<close>: the name of every registered driver \<open>r\<close> is the string \<open>nm r\<close>.\<close>

definition named :: "(ptr \<Rightarrow> 's driver_t) \<Rightarrow> mem \<Rightarrow> (ptr \<Rightarrow> u8 list) \<Rightarrow> ptr set \<Rightarrow> bool" where
  "named D m nm rs \<longleftrightarrow> (\<forall>r. r \<in> rs \<longrightarrow> r \<noteq> 0 \<longrightarrow> is_string m (drv_name (D r)) (nm r))"

lemma driver_find_first:
  "named D m nm (set (as @ r # bs)) \<Longrightarrow> is_string m q (nm r) \<Longrightarrow> r \<noteq> 0 \<Longrightarrow>
   (\<And>a. a \<in> set as \<Longrightarrow> a \<noteq> 0 \<Longrightarrow> nm a \<noteq> nm r) \<Longrightarrow> driver_find D m q (as @ r # bs) = Some r"
proof (induction as)
  case Nil
  then show ?case using strcmp_total [of m "drv_name (D r)" "nm r" q "nm r"] by (auto simp: named_def)
next
  case (Cons a as)
  show ?case
  proof (cases "a = 0")
    case False
    with Cons.prems obtain c where "strcmp m (drv_name (D a)) q = Some c" "c \<noteq> 0"
      using strcmp_total [of m "drv_name (D a)" "nm a" q "nm r"] by (auto simp: named_def)
    with Cons False show ?thesis by (simp add: named_def)
  qed (use Cons in \<open>simp add: named_def\<close>)
qed

text \<open>An example: a driver called \<open>u\<close> at \<open>0x08002000\<close>, whose initialisation succeeds.\<close>

definition ex_driver :: "nat driver_t" where
  "ex_driver = \<lparr>drv_name = 0x08003000, drv_init = Some (\<lambda>s. Some (0, Suc s)), drv_write = None,
     drv_write_sync = None, drv_read = None, drv_read_blocking = None\<rparr>"

definition ex_names :: mem where
  "ex_names = (\<lambda>_. 0)(0x08003000 := 0x75, 0x20000000 := 0x75)"

lemma ex_names_named: "named (\<lambda>_. ex_driver) ex_names (\<lambda>_. [0x75]) {0x08002000, 0}"
  "is_string ex_names 0x20000000 [0x75]"
  by (auto simp: named_def ex_driver_def ex_names_def is_string_simps)

text \<open>A driver that was registered under a name no other driver has is found under that name, and
  every driver registered before still is registered. Registration fails without entering the driver
  if its initialisation fails or the registry is full.\<close>

theorem driver_register_find:
  assumes "driver_register D drv (reg, s) = Some (r, reg', s')"
    and "named D m nm (insert drv (set reg))" "is_string m q (nm drv)"
    and "\<And>a. a \<in> set reg \<Longrightarrow> a \<noteq> 0 \<Longrightarrow> nm a \<noteq> nm drv"
  shows "if r = 0 then driver_find D m q reg' = Some drv \<and> set reg - {0} \<subseteq> set reg' \<and> length reg' = length reg
     else reg' = reg"
proof (cases "drv = 0 \<or> drv_name (D drv) = 0")
  case True
  with assms(1) show ?thesis by (auto simp: driver_register_def)
next
  case False
  with assms(1) obtain n s1 where "reg' = reg \<and> r \<noteq> 0 \<or> r = 0 \<and> register_loop drv reg = Some reg'"
    by (auto simp: driver_register_def split: if_splits option.splits)
  then show ?thesis
  proof
    assume ok: "r = 0 \<and> register_loop drv reg = Some reg'"
    then obtain as bs where reg: "reg = as @ 0 # bs" "reg' = as @ drv # bs" using register_loop_Some by blast
    have "driver_find D m q (as @ drv # bs) = Some drv"
      by (rule driver_find_first) (use assms(2-4) False reg in \<open>auto simp: named_def\<close>)
    with ok reg show ?thesis by auto
  qed simp
qed

theorem driver_register_find_witness:
  "driver_register (\<lambda>_. ex_driver) 0x08002000 (0 # replicate 7 0, 0) = Some (0, 0x08002000 # replicate 7 0, 1) \<and>
   driver_find (\<lambda>_. ex_driver) ex_names 0x20000000 (0x08002000 # replicate 7 0) = Some 0x08002000"
proof -
  have reg: "driver_register (\<lambda>_. ex_driver) 0x08002000 (0 # replicate 7 0, 0) = Some (0, 0x08002000 # replicate 7 0, 1)"
    by (simp add: driver_register_def ex_driver_def)
  show ?thesis
    using driver_register_find [OF reg, of ex_names "\<lambda>_. [0x75]" "0x20000000"] ex_names_named reg
    by (simp del: driver_find.simps)
qed

end
