(* ===== verification/Kernel_Inv.thy ===== *)
theory Kernel_Inv
  imports Sleep Semaphore Mutex Static_Memory
begin

text \<open>
  Every operation of the kernel keeps the task queues well formed (\<open>kernel_inv\<close>), whatever pointers it
  is given: these lemmas, collected as \<open>inv_intros\<close>, carry the proof for the system calls. Operations
  that return in every well-formed state come with that statement; for the unlocking operations, which
  may follow a corrupted list of owned mutexes, the statement is about every run that returns.
\<close>

named_theorems inv_intros \<open>operations keep the task queues well formed\<close>

text \<open>The current task is in no queue. It holds while the task runs and after it has finished.\<close>

definition off_queue :: "kernel \<Rightarrow> bool" where
  "off_queue k \<longleftrightarrow> place_of (tcbs k (current_task k)) = Nowhere"

definition running :: "kernel \<Rightarrow> bool" where
  "running k \<longleftrightarrow> current_task k \<noteq> 0 \<and> tcb_state (tcbs k (current_task k)) = TASK_RUNNING"

lemma running_off_queue: "running k \<Longrightarrow> off_queue k"
  by (simp add: running_def off_queue_def place_of_def)

section \<open>Changes that no queue depends on\<close>

lemma kernel_inv_cong:
  assumes "kernel_inv k" "\<And>l. queue_at k' l = queue_at k l" "\<And>x. tcb_next (tcbs k' x) = tcb_next (tcbs k x)"
    "\<And>x. tcb_state (tcbs k' x) = tcb_state (tcbs k x)" "\<And>x. waiting_on (tcbs k' x) = waiting_on (tcbs k x)"
    "\<And>x. waiting_on_type (tcbs k' x) = waiting_on_type (tcbs k x)"
    "\<And>x. effective_priority (tcbs k' x) = effective_priority (tcbs k x)"
    "\<And>x. wake_tick (tcbs k' x) = wake_tick (tcbs k x)"
  shows "kernel_inv k'"
proof -
  obtain Q where "kernel_rep k Q" using assms(1) by (auto simp: kernel_inv_def)
  then have "kernel_rep k' Q"
    by (rule kernel_rep_cong) (use assms in \<open>auto intro: place_of_cong\<close>)
  then show ?thesis by (auto simp: kernel_inv_def)
qed

lemma request_inv [inv_intros]: "kernel_inv k \<Longrightarrow> kernel_inv (request_context_switch i k)"
  by (simp add: kernel_inv_def request_context_switch_def Let_def)

lemma name_inv [inv_intros]: "kernel_inv k \<Longrightarrow> kernel_inv (upd_task t (\<lambda>t. t\<lparr>tcb_name := n\<rparr>) k)"
proof (erule kernel_inv_cong)
  show "queue_at (upd_task t (\<lambda>t. t\<lparr>tcb_name := n\<rparr>) k) l = queue_at k l" for l by (cases l) auto
qed auto

text \<open>A task that is in no queue may change.\<close>

lemma kernel_rep_upd_off:
  assumes rep: "kernel_rep k Q" and nq: "\<And>l. t \<notin> set (Q l)"
    and f: "tcb_state (f (tcbs k t)) = TASK_RUNNING \<Longrightarrow> tcb_next (f (tcbs k t)) = 0"
  shows "kernel_rep (upd_task t f k) Q"
proof -
  have "kernel_rep (upd_task t f k) (Q(Nowhere := Q Nowhere))"
  proof (rule kernel_rep_step [OF rep, where t = t])
    show "queue_at (upd_task t f k) l = queue_at k l" if "l \<noteq> Nowhere" for l by (cases l) auto
    have "Q Nowhere = []" using kernel_repD(1) [OF rep, of Nowhere] by simp
    then show "place_ok (upd_task t f k) Nowhere (Q Nowhere)" by (simp add: place_ok_def)
    show "tcb_next (tcbs (upd_task t f k) x) = 0"
      if "x \<in> insert t (set (Q Nowhere))" "tcb_state (tcbs (upd_task t f k) x) = TASK_RUNNING" for x
      using that f \<open>Q Nowhere = []\<close> by simp
  qed (use nq in auto)
  then show ?thesis by simp
qed

lemma upd_off_inv:
  assumes "kernel_inv k" "place_of (tcbs k t) = Nowhere"
    "tcb_state (f (tcbs k t)) = TASK_RUNNING \<Longrightarrow> tcb_next (f (tcbs k t)) = 0"
  shows "kernel_inv (upd_task t f k)"
proof -
  obtain Q where "kernel_rep k Q" using assms(1) by (auto simp: kernel_inv_def)
  then have "kernel_rep (upd_task t f k) Q" 
    using kernel_rep_upd_off [of k Q t f] not_queued [of k Q t] assms(2,3) by blast
  then show ?thesis by (auto simp: kernel_inv_def)
qed

text \<open>Initialising a semaphore or a mutex empties its queue.\<close>

lemma reset_queue_rep:
  assumes rep: "kernel_rep k Q" and "tcbs k' = tcbs k" "queue_at k' l0 = \<lparr>q_head = 0, q_tail = 0\<rparr>"
    "\<And>l. l \<noteq> l0 \<Longrightarrow> queue_at k' l = queue_at k l"
  shows "kernel_rep k' (Q(l0 := []))"
proof (rule kernel_rep_step [OF rep, where t = 0])
  show "place_ok k' l0 []" using assms(3) by (cases l0) (simp_all add: place_ok_def)
  show "(0 :: ptr) \<notin> set (Q l)" for l by (rule queue_rep_nonnull [OF kernel_repD(1) [OF rep]])
  show "tcb_next (tcbs k' x) = 0" if "tcb_state (tcbs k' x) = TASK_RUNNING" for x
    using that kernel_repD(4) [OF rep, of x] assms(2) by simp
qed (use assms in auto)

lemma semaphore_init_inv [inv_intros]: "kernel_inv k \<Longrightarrow> kernel_inv (semaphore_init p n k)"
  unfolding kernel_inv_def semaphore_init_def
  by (erule exE, rule exI, erule reset_queue_rep [where ?l0.0 = "On_Sem p"])
    (auto intro!: queue_at_sem_cong [of p])

lemma mutex_init_inv [inv_intros]: "kernel_inv k \<Longrightarrow> kernel_inv (mutex_init m k)"
  unfolding kernel_inv_def mutex_init_def
  by (erule exE, rule exI, erule reset_queue_rep [where ?l0.0 = "On_Mutex m"])
    (auto intro!: queue_at_mutex_cong [of m])

section \<open>Scheduler, sleep and semaphores\<close>

lemma put_task_inv:
  assumes "kernel_inv k"
  obtains k' where "scheduler_put_task t k = Some k'" "kernel_inv k'" "sched_frame k k'"
    "\<And>x. x \<noteq> t \<Longrightarrow> tcb_state (tcbs k' x) = tcb_state (tcbs k x)"
proof -
  obtain Q where "kernel_rep k Q" using assms by (auto simp: kernel_inv_def)
  then show thesis by (rule put_task_rep [of k Q t]) (use that in \<open>auto simp: kernel_inv_def\<close>)
qed

lemma sleep_inv [inv_intros]:
  assumes "kernel_inv k" "running k" "sleep_for_ticks n k = Some k'"
  shows "kernel_inv k'"
proof (cases "n = 0")
  case True
  with assms show ?thesis by (simp add: sleep_for_ticks_def)
next
  case False
  obtain Q where "kernel_rep k Q" using assms(1) by (auto simp: kernel_inv_def)
  then show ?thesis
    by (rule sleep_for_ticks_rep [OF _ refl]) (use assms False in \<open>auto simp: kernel_inv_def running_def\<close>)
qed

lemma semaphore_wait_inv [inv_intros]:
  assumes "kernel_inv k" "running k"
  shows "kernel_inv (snd (semaphore_wait p k))"
proof -
  obtain Q where rep: "kernel_rep k Q" using assms(1) by (auto simp: kernel_inv_def)
  consider "sem_state (sems k p) \<noteq> SEM_OPEN" | "sem_state (sems k p) = SEM_OPEN" "sem_count (sems k p) > 0"
    | "sem_state (sems k p) = SEM_OPEN" "sem_count (sems k p) = 0"
    by (cases "sem_count (sems k p) = 0"; cases "sem_state (sems k p) = SEM_OPEN") (auto simp: word_gt_0)
  then show ?thesis
  proof cases
    case 1
    with assms(1) show ?thesis by (simp add: semaphore_wait_def)
  next
    case 2
    with rep show ?thesis by (auto simp: semaphore_wait_def kernel_inv_def)
  next
    case 3
    have c: "current_task k \<noteq> 0" "tcb_state (tcbs k (current_task k)) = TASK_RUNNING"
      using assms(2) by (auto simp: running_def)
    show ?thesis
    proof (rule semaphore_wait_blocks [OF rep refl c 3])
      fix k'
      assume "semaphore_wait p k = (SEM_OK_YIELD, k')"
        "kernel_rep k' (Q(On_Sem p := Q (On_Sem p) @ [current_task k]))"
      then show ?thesis by (auto simp: kernel_inv_def)
    qed
  qed
qed

lemma semaphore_post_inv:
  assumes "kernel_inv k"
  obtains r k' where "semaphore_post p k = Some (r, k')" "kernel_inv k'" "current_task k' = current_task k"
    "running k \<Longrightarrow> running k'"
proof -
  obtain Q where rep: "kernel_rep k Q" using assms by (auto simp: kernel_inv_def)
  show thesis
  proof (cases "sem_state (sems k p) = SEM_OPEN")
    case True
    show ?thesis
    proof (cases "Q (On_Sem p)")
      case Nil
      show ?thesis using semaphore_post_counts [OF rep Nil True] rep
        by (intro that [of SEM_OK_YIELD "upd_sem p (\<lambda>s. s\<lparr>sem_count := sem_count s + 1\<rparr>) k"])
          (auto simp: kernel_inv_def running_def)
    next
      case (Cons x xs)
      have "place_of (tcbs k x) = On_Sem p" using kernel_repD(2) [OF rep, of x "On_Sem p"] Cons by simp
      then have "running k \<Longrightarrow> x \<noteq> current_task k" by (auto simp: running_def place_of_def)
      moreover obtain k' where "semaphore_post p k = Some (SEM_OK_YIELD, k')" "kernel_inv k'"
        "current_task k' = current_task k" "\<And>y. y \<noteq> x \<Longrightarrow> tcb_state (tcbs k' y) = tcb_state (tcbs k y)"
        using semaphore_post_wakes [OF rep Cons True] unfolding kernel_inv_def by metis
      ultimately show ?thesis by (intro that [of SEM_OK_YIELD k']) (auto simp: running_def)
    qed
  next
    case False
    then show ?thesis using assms by (intro that [of SEM_CLOSE k]) (auto simp: semaphore_post_def)
  qed
qed

lemma semaphore_close_inv [inv_intros]:
  assumes "kernel_inv k" "semaphore_close p k = Some k'"
  shows "kernel_inv (free_sem p k')"
proof -
  obtain Q where rep: "kernel_rep k Q" using assms(1) by (auto simp: kernel_inv_def)
  from close_loop_rep [OF this, of p] assms(2) show ?thesis
    by (auto simp: kernel_inv_def semaphore_close_def free_sem_def)
qed

lemma alloc_sem_inv [inv_intros]: "kernel_inv k \<Longrightarrow> kernel_inv (snd (alloc_sem L k))"
  by (auto simp: alloc_sem_def kernel_inv_def split: option.split)

section \<open>Task creation\<close>

lemma create_task_inv [inv_intros]:
  assumes "kernel_inv k"
  shows "kernel_inv (snd (create_task L p f a k))"
proof (cases "find (\<lambda>i. tcb_state (tcbs k (elem (task_slots L) (sizeof_tcb L) i)) \<in> {TASK_UNUSED, TASK_FINISHED}) [0..<N_TASKS]")
  case None
  with assms show ?thesis by (simp add: create_task_def alloc_task_def)
next
  case (Some i)
  let ?t = "elem (task_slots L) (sizeof_tcb L) i"
  let ?f = "\<lambda>t. t\<lparr>tcb_state := TASK_READY, stack_base := elem (task_stacks L) TASK_STACK_SIZE i, stack_size := TASK_STACK_SIZE\<rparr>"
  let ?g = "\<lambda>t. t\<lparr>tcb_function := f, tcb_args := a,
              tcb_sp := task_stack_init (stack_base t + stack_size t), tcb_state := TASK_READY,
              base_priority := p, effective_priority := p, owned_mutexes := 0,
              unprivileged := 1, tcb_name := 0, tcb_next := 0, waiting_on := 0, waiting_on_type := NONE,
              wake_tick := 0\<rparr>"
  have off: "place_of (tcbs k ?t) = Nowhere" using Some by (auto simp: find_Some_iff place_of_def)
  have "kernel_inv (upd_task ?t (\<lambda>t. ?g (?f t)) k)" by (rule upd_off_inv [OF assms off]) simp
  moreover have "kernel_inv (upd_task ?t ?f k)" by (rule upd_off_inv [OF assms off]) simp
  moreover have "snd (create_task L p f a k) =
      (if ?t = 0 then upd_task ?t ?f k else upd_task ?t (\<lambda>t. ?g (?f t)) k)"
    by (simp only: create_task_def alloc_task_def Some option.case) (simp add: upd_task_def)
  ultimately show ?thesis by (cases "?t = 0") (simp_all only: if_True if_False simp_thms)
qed

section \<open>Mutexes\<close>

lemma mutex_lock_inv [inv_intros]:
  assumes "kernel_inv k" "running k"
  shows "\<exists>r k'. mutex_lock m k = Some (r, k') \<and> kernel_inv k'"
proof -
  obtain Q where rep: "kernel_rep k Q" using assms(1) by (auto simp: kernel_inv_def)
  consider "mutex_owner (mutexes k m) = 0" | "mutex_owner (mutexes k m) \<noteq> 0" "mutex_owner (mutexes k m) = current_task k"
    | "mutex_owner (mutexes k m) \<noteq> 0" "mutex_owner (mutexes k m) \<noteq> current_task k" by blast
  then show ?thesis
  proof cases
    case 1
    let ?k = "upd_task (current_task k) (\<lambda>t. t\<lparr>owned_mutexes := m\<rparr>)
      (upd_mutex m (\<lambda>x. x\<lparr>mutex_owner := current_task k, next_owned := owned_mutexes (tcbs k (current_task k))\<rparr>) k)"
    have q: "queue_at ?k l = queue_at k l" for l by (cases l) auto
    have "kernel_inv ?k" by (rule kernel_inv_cong [OF assms(1) q]) simp_all
    with mutex_lock_free [OF 1] show ?thesis by blast
  next
    case 2
    with assms show ?thesis by (simp add: mutex_lock_def)
  next
    case 3
    from rep show ?thesis
      by (rule mutex_lock_contended [OF _ refl]) (use assms(2) 3 in \<open>auto simp: kernel_inv_def running_def\<close>)
  qed
qed

text \<open>Unlinking a mutex changes nothing but links.\<close>

definition same_mutexes :: "mstore \<Rightarrow> mstore \<Rightarrow> bool" where
  "same_mutexes ms ms' \<longleftrightarrow> (\<forall>x. mutex_wait_queue (ms' x) = mutex_wait_queue (ms x) \<and>
     mutex_owner (ms' x) = mutex_owner (ms x) \<and> mutex_state (ms' x) = mutex_state (ms x))"

lemma same_mutexes_set_owned: "same_mutexes ms (set_owned m n ms)"
  by (simp add: same_mutexes_def set_owned_def)

lemma same_mutexes_trans: "same_mutexes a b \<Longrightarrow> same_mutexes b c \<Longrightarrow> same_mutexes a c"
  by (simp add: same_mutexes_def)

lemma remove_owned_same:
  assumes "remove_owned m ms prev tmp = Some ms'"
  shows "same_mutexes ms ms'"
proof (rule remove_owned.raw_induct [OF _ assms], goal_cases)
  case (1 rec m ms prev tmp ms')
  show ?case
  proof (cases "tmp = 0 \<or> tmp = m")
    case True
    with 1(2) show ?thesis by (auto simp: same_mutexes_def set_owned_def split: if_splits)
  qed (use 1 in simp)
qed

lemma mutex_queue_remove_same: "mutex_queue_remove h m ms = Some (h', ms') \<Longrightarrow> same_mutexes ms ms'"
  using same_mutexes_set_owned remove_owned_same
  by (fastforce simp: mutex_queue_remove_def split: if_splits)

lemma release_inv:
  assumes inv: "kernel_inv k" and off: "off_queue k" and rel: "release m k = Some k'"
  shows "kernel_inv k' \<and> off_queue k' \<and> current_task k' = current_task k"
proof -
  let ?c = "current_task k"
  from rel obtain h ms p where
    r: "mutex_queue_remove (owned_mutexes (tcbs k ?c)) m (mutexes k) = Some (h, ms)"
    and k': "k' = upd_task ?c (\<lambda>t. t\<lparr>effective_priority := p\<rparr>)
        (upd_task ?c (\<lambda>t. t\<lparr>owned_mutexes := h\<rparr>) (k\<lparr>mutexes := ms\<rparr>))"
    by (auto simp: release_def Let_def)
  let ?k1 = "upd_task ?c (\<lambda>t. t\<lparr>owned_mutexes := h\<rparr>) (k\<lparr>mutexes := ms\<rparr>)"
  have "same_mutexes (mutexes k) ms" using r by (rule mutex_queue_remove_same)
  then have "queue_at ?k1 l = queue_at k l" for l by (cases l) (auto simp: same_mutexes_def)
  then have inv1: "kernel_inv ?k1" by (rule kernel_inv_cong [OF inv]) auto
  have off1: "place_of (tcbs ?k1 ?c) = Nowhere" using off by (simp add: off_queue_def)
  have "kernel_inv k'" unfolding k'
    by (rule upd_off_inv [OF inv1 off1]) (use inv in \<open>auto simp: kernel_inv_def dest: kernel_repD(4)\<close>)
  with off show ?thesis by (simp add: k' off_queue_def)
qed

lemma mutex_unlock_inv:
  assumes inv: "kernel_inv k" and off: "off_queue k" and ul: "mutex_unlock m k = Some (r, k')"
  shows "kernel_inv k' \<and> off_queue k'"
proof (cases "mutex_owner (mutexes k m) = current_task k")
  case False
  with assms show ?thesis by (simp add: mutex_unlock_def)
next
  case own: True
  obtain Q where rep: "kernel_rep k Q" using inv by (auto simp: kernel_inv_def)
  show ?thesis
  proof (cases "Q (On_Mutex m)")
    case Nil
    let ?k = "upd_mutex m (\<lambda>x. x\<lparr>mutex_owner := 0\<rparr>) k"
    have "q_head (mutex_wait_queue (mutexes k m)) = 0"
      using kernel_rep_queues(4) [OF rep, of m] Nil by (simp add: queue_rep_Nil)
    with mutex_unlock_none [OF own] ul have rel: "release m ?k = Some k'"
      by (cases "release m ?k") auto
    have "queue_at ?k l = queue_at k l" for l by (cases l) auto
    then have "kernel_inv ?k" by (rule kernel_inv_cong [OF inv]) auto
    from release_inv [OF this _ rel] off show ?thesis by (auto simp: off_queue_def)
  next
    case (Cons x xs)
    let ?Q1 = "Q(On_Mutex m := xs)"
    obtain q where pop: "priority_queue_pop (mutex_wait_queue (mutexes k m)) (tcbs k) = (x, q, set_next x 0 (tcbs k))"
      and rep1: "kernel_rep (handed m x q k) ?Q1" and x: "x \<noteq> 0" and nin: "\<And>l. x \<notin> set (?Q1 l)"
      by (rule handed_rep [OF rep Cons], rule that)
    let ?k1 = "handed m x q k"
    obtain p k3 where
      put: "scheduler_put_task x (upd_task x (\<lambda>t. t\<lparr>effective_priority := p\<rparr>) ?k1) = Some k3"
      and rel: "release m k3 = Some k'" using ul unfolding mutex_unlock_some [OF own x pop] by auto
    let ?k2 = "upd_task x (\<lambda>t. t\<lparr>effective_priority := p\<rparr>) ?k1"
    have "kernel_rep ?k2 ?Q1" by (rule set_prio_elsewhere [OF rep1]) (use nin in blast)+
    then have "kernel_inv ?k2" by (auto simp: kernel_inv_def)
    from put_task_inv [OF this, of x] put have k3: "kernel_inv k3" "sched_frame ?k2 k3"
      "\<And>y. y \<noteq> x \<Longrightarrow> tcb_state (tcbs k3 y) = tcb_state (tcbs ?k2 y)" by auto
    have xc: "x \<noteq> current_task k"
      using kernel_repD(2) [OF rep, of x "On_Mutex m"] Cons off by (auto simp: off_queue_def)
    have "off_queue k3"
    proof -
      have "current_task k3 = current_task k" using k3(2) by (simp add: sched_frame_def handed_def)
      moreover have "place_of (tcbs k3 (current_task k)) = place_of (tcbs k (current_task k))"
        using k3(2) k3(3) [of "current_task k"] xc
        by (intro place_of_cong) (auto simp: sched_frame_def same_prio_def handed_def)
      ultimately show ?thesis using off by (simp add: off_queue_def)
    qed
    from release_inv [OF k3(1) this rel] show ?thesis by blast
  qed
qed

lemma mutex_unlock_all_owned_inv:
  assumes "kernel_inv k" "off_queue k" "mutex_unlock_all_owned m k = Some k'"
  shows "kernel_inv k'"
proof -
  have "kernel_inv k \<longrightarrow> off_queue k \<longrightarrow> kernel_inv k'"
  proof (rule mutex_unlock_all_owned.raw_induct [OF _ assms(3)], goal_cases)
    case (1 rec m k k')
    show ?case
    proof (cases "m = 0")
      case False
      with 1(2) obtain r k1 where u: "mutex_unlock m k = Some (r, k1)" "rec (next_owned (mutexes k1 m)) k1 = Some k'"
        by auto
      from 1(1) [OF u(2)] mutex_unlock_inv [OF _ _ u(1)] show ?thesis by blast
    qed (use 1(2) in simp)
  qed
  with assms show ?thesis by blast
qed

end
