(* ===== verification/Syscall.thy ===== *)
theory Syscall
  imports Console Kernel_Inv
begin

unbundle bit_operations_syntax

text \<open>
  System calls (\<^verbatim>\<open>source/kernel/syscall.c\<close>, \<^verbatim>\<open>include/kernel/syscall.h\<close>) with the part of \<^verbatim>\<open>source/kernel/net.c\<close>
  that runs in them. \<open>svc_dispatch\<close> works on the exception frame, a list of words; every case of its
  \<open>switch\<close> is a definition of its own that returns the result, whether to yield, and the new state, or
  \<open>None\<close> if the kernel does not come back. The \<open>sys_\<close> functions are the calls as a task sees them: the
  handler, and, if a context switch is pending when it ends, the activity of the other tasks until the
  caller runs again (\<open>others\<close>).
\<close>

section \<open>Numbers and results\<close>

datatype sysno = SYS_YIELD | SYS_UPTIME | SYS_MALLOC | SYS_CALLOC | SYS_FREE
  | SYS_SEM_CREATE | SYS_SEM_WAIT | SYS_SEM_POST | SYS_SEM_CLOSE
  | SYS_MUTEX_CREATE | SYS_MUTEX_LOCK | SYS_MUTEX_UNLOCK
  | SYS_TASK_CREATE | SYS_TASK_EXIT | SYS_TASK_SET_NAME | SYS_SLEEP
  | SYS_PUTC | SYS_GETC | SYS_CONSOLE_WRITE
  | SYS_SOCKET_GET | SYS_SOCKET_OPEN | SYS_SOCKET_CLOSE | SYS_NET_LINK | SYS_NET_RECV | SYS_NET_SEND

definition sysnos :: "sysno list" where
  "sysnos = [SYS_YIELD, SYS_UPTIME, SYS_MALLOC, SYS_CALLOC, SYS_FREE,
     SYS_SEM_CREATE, SYS_SEM_WAIT, SYS_SEM_POST, SYS_SEM_CLOSE,
     SYS_MUTEX_CREATE, SYS_MUTEX_LOCK, SYS_MUTEX_UNLOCK,
     SYS_TASK_CREATE, SYS_TASK_EXIT, SYS_TASK_SET_NAME, SYS_SLEEP,
     SYS_PUTC, SYS_GETC, SYS_CONSOLE_WRITE,
     SYS_SOCKET_GET, SYS_SOCKET_OPEN, SYS_SOCKET_CLOSE, SYS_NET_LINK, SYS_NET_RECV, SYS_NET_SEND]"

definition sysno_of :: "u32 \<Rightarrow> sysno option" where
  "sysno_of n = (if unat n < length sysnos then Some (sysnos ! unat n) else None)"

fun sem_result_code :: "sem_result_t \<Rightarrow> u32" where
  "sem_result_code SEM_CLOSE = 0"
| "sem_result_code SEM_OK = 1"
| "sem_result_code SEM_OK_YIELD = 2"
| "sem_result_code MUTEX_NOT_OWNER = 3"
| "sem_result_code MUTEX_DEADLOCK = 4"

type_synonym 'd svc = "'d machine \<Rightarrow> (u32 \<times> bool \<times> 'd machine) option"

section \<open>Validation of user pointers\<close>

definition ptr_on_heap :: "'d platform \<Rightarrow> ptr \<Rightarrow> u32 \<Rightarrow> bool" where
  "ptr_on_heap P p len =
     (if p = 0 \<or> p < heap_start P \<or> p + len \<ge> heap_end P then False
      else if p + len < p then False
      else True)"

definition ptr_on_stack :: "ptr \<Rightarrow> u32 \<Rightarrow> tcb_t \<Rightarrow> bool" where
  "ptr_on_stack p len task =
     (if p = 0 \<or> p < stack_base task \<or> p + len \<ge> stack_base task + stack_size task then False
      else if p + len < p then False
      else True)"

section \<open>Memory\<close>

definition svc_malloc :: "u32 \<Rightarrow> 'd svc" where
  "svc_malloc n s = do { (ret, h) \<leftarrow> kmalloc n (kheap s); Some (ret, False, s\<lparr>kheap := h\<rparr>) }"

definition svc_calloc :: "u32 \<Rightarrow> u32 \<Rightarrow> 'd svc" where
  "svc_calloc count n s = do { (ret, h) \<leftarrow> kcalloc count n (kheap s); Some (ret, False, s\<lparr>kheap := h\<rparr>) }"

definition svc_free :: "'d platform \<Rightarrow> ptr \<Rightarrow> 'd svc" where
  "svc_free P p s =
     (if ptr_on_heap P p 0 then Some (0, False, s\<lparr>kheap := kfree p (kheap s)\<rparr>) else Some (0, False, s))"

section \<open>Semaphores and mutexes\<close>

definition svc_sem_create :: "'d platform \<Rightarrow> u32 \<Rightarrow> 'd svc" where
  "svc_sem_create P count s =
     (let (ret, k) = alloc_sem (lay P) (kern s);
          k = (if ret \<noteq> 0 then semaphore_init ret count k else k)
      in Some (ret, False, s\<lparr>kern := k\<rparr>))"

definition svc_sem_wait :: "'d platform \<Rightarrow> ptr \<Rightarrow> 'd svc" where
  "svc_sem_wait P sem s =
     (if \<not> validate_sem (lay P) sem then Some (0, False, s)
      else let (result, k) = semaphore_wait sem (kern s)
           in Some (sem_result_code result, result = SEM_OK_YIELD, s\<lparr>kern := k\<rparr>))"

definition svc_sem_post :: "'d platform \<Rightarrow> ptr \<Rightarrow> 'd svc" where
  "svc_sem_post P sem s =
     (if \<not> validate_sem (lay P) sem then Some (0, False, s)
      else do {
        (result, k) \<leftarrow> semaphore_post sem (kern s);
        Some (sem_result_code result, result = SEM_OK_YIELD, s\<lparr>kern := k\<rparr>)
      })"

definition svc_sem_close :: "'d platform \<Rightarrow> ptr \<Rightarrow> 'd svc" where
  "svc_sem_close P sem s =
     (if \<not> validate_sem (lay P) sem then Some (0, False, s)
      else do {
        k \<leftarrow> semaphore_close sem (kern s);
        Some (0, False, s\<lparr>kern := free_sem sem k\<rparr>)
      })"

definition svc_mutex_create :: "'d platform \<Rightarrow> 'd svc" where
  "svc_mutex_create P s = do {
     (ret, h) \<leftarrow> kmalloc (sizeof_mutex (lay P)) (kheap s);
     let s = s\<lparr>kheap := h\<rparr>;
     Some (ret, False, if ret \<noteq> 0 then on_kern (mutex_init ret) s else s)
   }"

definition svc_mutex_lock :: "'d platform \<Rightarrow> ptr \<Rightarrow> 'd svc" where
  "svc_mutex_lock P m s =
     (if \<not> validate_mutex (lay P) m then Some (0, False, s)
      else do {
        (result, k) \<leftarrow> mutex_lock m (kern s);
        Some (sem_result_code result, result = SEM_OK_YIELD, s\<lparr>kern := k\<rparr>)
      })"

definition svc_mutex_unlock :: "'d platform \<Rightarrow> ptr \<Rightarrow> 'd svc" where
  "svc_mutex_unlock P m s =
     (if \<not> validate_mutex (lay P) m then Some (0, False, s)
      else do {
        (result, k) \<leftarrow> mutex_unlock m (kern s);
        Some (sem_result_code result, result = SEM_OK_YIELD, s\<lparr>kern := k\<rparr>)
      })"

section \<open>Tasks\<close>

definition svc_task_create :: "'d platform \<Rightarrow> u8 \<Rightarrow> u32 \<Rightarrow> u32 \<Rightarrow> 'd svc" where
  "svc_task_create P priority func args s = do {
     let (ret, k) = create_task (lay P) priority func args (kern s);
     k \<leftarrow> (if ret \<noteq> 0 then scheduler_put_task ret k else Some k);
     Some (ret, False, s\<lparr>kern := k\<rparr>)
   }"

definition svc_task_exit :: "'d svc" where
  "svc_task_exit s = do {
     let k = kern s;
     let k = upd_task (current_task k) (\<lambda>t. t\<lparr>tcb_state := TASK_FINISHED\<rparr>) k;
     k \<leftarrow> mutex_unlock_all_owned (owned_mutexes (tcbs k (current_task k))) k;
     Some (0, True, s\<lparr>kern := k\<rparr>)
   }"

definition svc_task_set_name :: "'d platform \<Rightarrow> ptr \<Rightarrow> ptr \<Rightarrow> 'd svc" where
  "svc_task_set_name P task name s =
     (if \<not> validate_task (lay P) task then Some (0, False, s)
      else Some (0, False,
        if task \<noteq> 0 then on_kern (upd_task task (\<lambda>t. t\<lparr>tcb_name := name\<rparr>)) s else s))"

definition svc_sleep :: "u32 \<Rightarrow> 'd svc" where
  "svc_sleep ticks s = do { k \<leftarrow> sleep_for_ticks ticks (kern s); Some (0, True, s\<lparr>kern := k\<rparr>) }"

section \<open>Console\<close>

definition svc_putc :: "(ptr \<Rightarrow> 'd machine driver_t) \<Rightarrow> u8 \<Rightarrow> 'd svc" where
  "svc_putc D c s = do { s \<leftarrow> console_write D [c] (sinks s) s; Some (0, False, s) }"

definition svc_getc :: "(ptr \<Rightarrow> 'd machine driver_t) \<Rightarrow> ptr \<Rightarrow> 'd svc" where
  "svc_getc D p s = do {
     (n, buf, s) \<leftarrow> console_read D (bytes_at (umem s) p 1) 1 (sinks s) s;
     Some (word_of_int n, False, s\<lparr>umem := store_bytes p buf (umem s)\<rparr>)
   }"

definition svc_console_write :: "'d platform \<Rightarrow> (ptr \<Rightarrow> 'd machine driver_t) \<Rightarrow> ptr \<Rightarrow> u32 \<Rightarrow> 'd svc" where
  "svc_console_write P D p len s =
     (if \<not> ptr_on_heap P p len \<and> \<not> ptr_on_stack p len (tcbs (kern s) (current_task (kern s)))
      then Some (0, False, s)
      else do {
        s \<leftarrow> console_write D (bytes_at (umem s) p (unat len)) (sinks s) s;
        Some (len, False, s)
      })"

section \<open>Network requests\<close>

definition net_send_request :: "net_request_t \<Rightarrow> 'd machine \<Rightarrow> 'd machine option" where
  "net_send_request req s = do {
     let s = s\<lparr>current_req := req\<rparr>;
     (result, k) \<leftarrow> semaphore_post (net_posted s) (kern s);
     Some (s\<lparr>kern := k\<rparr>)
   }"

definition net_will_wait :: "'d machine \<Rightarrow> bool \<times> 'd machine" where
  "net_will_wait s =
     (let (result, k) = semaphore_wait (net_done s) (kern s) in (result = SEM_OK_YIELD, s\<lparr>kern := k\<rparr>))"

text \<open>The common end of the five network calls.\<close>

definition svc_net :: "net_request_t \<Rightarrow> 'd svc" where
  "svc_net req s = do {
     s \<leftarrow> net_send_request req s;
     let (yield, s) = net_will_wait s;
     Some (0, yield, s)
   }"

definition svc_socket_open :: "'d platform \<Rightarrow> ptr \<Rightarrow> ptr \<Rightarrow> 'd svc" where
  "svc_socket_open P socket reply s =
     (if \<not> validate_socket (lay P) socket then Some (0, False, s)
      else svc_net (zero_request\<lparr>req_op := NET_OP_SOCKET_OPEN, req_caller := current_task (kern s),
             req_socket := socket, req_reply_slot := reply\<rparr>) s)"

definition svc_socket_close :: "'d platform \<Rightarrow> ptr \<Rightarrow> ptr \<Rightarrow> 'd svc" where
  "svc_socket_close P socket reply s =
     (if \<not> validate_socket (lay P) socket then Some (0, False, s)
      else svc_net (zero_request\<lparr>req_op := NET_OP_SOCKET_CLOSE, req_caller := current_task (kern s),
             req_socket := socket, req_reply_slot := reply\<rparr>) s)"

definition svc_net_link :: "ptr \<Rightarrow> ptr \<Rightarrow> 'd svc" where
  "svc_net_link result reply s =
     svc_net (zero_request\<lparr>req_op := NET_OP_LINK, req_caller := current_task (kern s),
       req_result := result, req_reply_slot := reply\<rparr>) s"

definition svc_net_recv :: "'d platform \<Rightarrow> ptr \<Rightarrow> ptr \<Rightarrow> u16 \<Rightarrow> ptr \<Rightarrow> 'd svc" where
  "svc_net_recv P socket buffer len reply s =
     (if \<not> validate_socket (lay P) socket then Some (0, False, s)
      else svc_net (zero_request\<lparr>req_op := NET_OP_RECV, req_caller := current_task (kern s),
             req_socket := socket, req_buffer := buffer, req_buf_len := len, req_reply_slot := reply\<rparr>) s)"

text \<open>
  \<open>net_send_args_t\<close> in memory: the pointer to the data at offset 0, its length at 4, the address at 6,
  the port at 10, the flag at 12 and the hardware address at 13.
\<close>

definition u16_at :: "mem \<Rightarrow> ptr \<Rightarrow> u16" where
  "u16_at m p = ucast (m p) OR push_bit 8 (ucast (m (p + 1)))"

definition u32_at :: "mem \<Rightarrow> ptr \<Rightarrow> u32" where
  "u32_at m p = ucast (u16_at m p) OR push_bit 16 (ucast (u16_at m (p + 2)))"

definition svc_net_send :: "'d platform \<Rightarrow> ptr \<Rightarrow> ptr \<Rightarrow> ptr \<Rightarrow> 'd svc" where
  "svc_net_send P socket args reply s =
     (if \<not> validate_socket (lay P) socket then Some (0, False, s)
      else svc_net (zero_request\<lparr>req_op := NET_OP_SEND, req_caller := current_task (kern s),
             req_socket := socket, req_buffer := u32_at (umem s) args, req_buf_len := u16_at (umem s) (args + 4),
             req_dst_port := u16_at (umem s) (args + 10), req_use_mac := umem s (args + 12) \<noteq> 0,
             req_reply_slot := reply, req_dst_mac := bytes_at (umem s) (args + 13) 6,
             req_dst_ip := bytes_at (umem s) (args + 6) 4\<rparr>) s)"

section \<open>The dispatcher\<close>

definition svc_body :: "'d platform \<Rightarrow> (ptr \<Rightarrow> 'd machine driver_t) \<Rightarrow> u32 \<Rightarrow> u32 \<Rightarrow> u32 \<Rightarrow> u32 \<Rightarrow> u32 \<Rightarrow> 'd svc" where
  "svc_body P D number arg0 arg1 arg2 arg3 s = (case sysno_of number of
       None \<Rightarrow> Some (0, False, s)
     | Some no \<Rightarrow> (case no of
         SYS_YIELD \<Rightarrow> Some (0, True, s)
       | SYS_UPTIME \<Rightarrow> Some (system_ticks (kern s), False, s)
       | SYS_MALLOC \<Rightarrow> svc_malloc arg0 s
       | SYS_CALLOC \<Rightarrow> svc_calloc arg0 arg1 s
       | SYS_FREE \<Rightarrow> svc_free P arg0 s
       | SYS_SEM_CREATE \<Rightarrow> svc_sem_create P arg0 s
       | SYS_SEM_WAIT \<Rightarrow> svc_sem_wait P arg0 s
       | SYS_SEM_POST \<Rightarrow> svc_sem_post P arg0 s
       | SYS_SEM_CLOSE \<Rightarrow> svc_sem_close P arg0 s
       | SYS_MUTEX_CREATE \<Rightarrow> svc_mutex_create P s
       | SYS_MUTEX_LOCK \<Rightarrow> svc_mutex_lock P arg0 s
       | SYS_MUTEX_UNLOCK \<Rightarrow> svc_mutex_unlock P arg0 s
       | SYS_TASK_CREATE \<Rightarrow> svc_task_create P (ucast arg0) arg1 arg2 s
       | SYS_TASK_EXIT \<Rightarrow> svc_task_exit s
       | SYS_TASK_SET_NAME \<Rightarrow> svc_task_set_name P arg0 arg1 s
       | SYS_SLEEP \<Rightarrow> svc_sleep arg0 s
       | SYS_PUTC \<Rightarrow> svc_putc D (ucast arg0) s
       | SYS_GETC \<Rightarrow> svc_getc D arg0 s
       | SYS_CONSOLE_WRITE \<Rightarrow> svc_console_write P D arg0 arg1 s
       | SYS_SOCKET_GET \<Rightarrow> Some (get_socket (lay P) (ucast arg0), False, s)
       | SYS_SOCKET_OPEN \<Rightarrow> svc_socket_open P arg0 arg1 s
       | SYS_SOCKET_CLOSE \<Rightarrow> svc_socket_close P arg0 arg1 s
       | SYS_NET_LINK \<Rightarrow> svc_net_link arg0 arg1 s
       | SYS_NET_RECV \<Rightarrow> svc_net_recv P arg0 arg1 (ucast arg2) arg3 s
       | SYS_NET_SEND \<Rightarrow> svc_net_send P arg0 arg1 arg2 s))"

text \<open>The supervisor call is exception 11.\<close>

definition svc_finish :: "bool \<Rightarrow> 'd machine \<Rightarrow> 'd machine" where
  "svc_finish should_yield s = (if should_yield then on_kern (request_context_switch 11) s else s)"

text \<open>The frame: \<open>r0\<close> to \<open>r3\<close>, \<open>r12\<close>, \<open>lr\<close>, \<open>pc\<close>, \<open>xPSR\<close>.\<close>

definition svc_dispatch ::
  "'d platform \<Rightarrow> (ptr \<Rightarrow> 'd machine driver_t) \<Rightarrow> u32 list \<Rightarrow> 'd machine \<Rightarrow> (u32 list \<times> 'd machine) option" where
  "svc_dispatch P D frame s = do {
     let arg0 = frame ! 0;
     let arg1 = frame ! 1;
     let arg2 = frame ! 2;
     let arg3 = frame ! 3;
     let number = frame ! 4;
     (ret, should_yield, s) \<leftarrow> svc_body P D number arg0 arg1 arg2 arg3 s;
     Some (frame[0 := ret], svc_finish should_yield s)
   }"

section \<open>The calls as a task sees them\<close>

text \<open>After the handler a pending context switch is taken; the task goes on when it runs again.\<close>

definition svc_return :: "'d platform \<Rightarrow> 'd machine \<Rightarrow> 'd machine option" where
  "svc_return P s = (if pendsv_set (kern s) then others P s else Some s)"

definition syscall ::
  "'d platform \<Rightarrow> (ptr \<Rightarrow> 'd machine driver_t) \<Rightarrow> u32 \<Rightarrow> u32 \<Rightarrow> u32 \<Rightarrow> u32 \<Rightarrow> u32 \<Rightarrow> 'd machine \<Rightarrow>
   (u32 \<times> 'd machine) option" where
  "syscall P D number a0 a1 a2 a3 s = do {
     (frame, s) \<leftarrow> svc_dispatch P D [a0, a1, a2, a3, number, 0, 0, 0] s;
     s \<leftarrow> svc_return P s;
     Some (frame ! 0, s)
   }"

text \<open>The same for the body of one call; the functions below are the calls the program makes.\<close>

definition svc_call :: "'d platform \<Rightarrow> 'd svc \<Rightarrow> 'd machine \<Rightarrow> (u32 \<times> 'd machine) option" where
  "svc_call P body s = do {
     (ret, should_yield, s) \<leftarrow> body s;
     s \<leftarrow> svc_return P (svc_finish should_yield s);
     Some (ret, s)
   }"

definition sys_yield :: "'d platform \<Rightarrow> 'd machine \<Rightarrow> 'd machine option" where
  "sys_yield P s = map_option snd (svc_call P (\<lambda>s. Some (0, True, s)) s)"

definition sys_uptime :: "'d platform \<Rightarrow> 'd machine \<Rightarrow> (u32 \<times> 'd machine) option" where
  "sys_uptime P s = svc_call P (\<lambda>s. Some (system_ticks (kern s), False, s)) s"

definition sys_malloc :: "'d platform \<Rightarrow> u32 \<Rightarrow> 'd machine \<Rightarrow> (ptr \<times> 'd machine) option" where
  "sys_malloc P n s = svc_call P (svc_malloc n) s"

definition sys_calloc :: "'d platform \<Rightarrow> u32 \<Rightarrow> u32 \<Rightarrow> 'd machine \<Rightarrow> (ptr \<times> 'd machine) option" where
  "sys_calloc P count n s = svc_call P (svc_calloc count n) s"

definition sys_free :: "'d platform \<Rightarrow> ptr \<Rightarrow> 'd machine \<Rightarrow> 'd machine option" where
  "sys_free P p s = map_option snd (svc_call P (svc_free P p) s)"

definition sys_task_create :: "'d platform \<Rightarrow> u8 \<Rightarrow> u32 \<Rightarrow> u32 \<Rightarrow> 'd machine \<Rightarrow> (ptr \<times> 'd machine) option" where
  "sys_task_create P priority func args s = svc_call P (svc_task_create P priority func args) s"

definition sys_sem_create :: "'d platform \<Rightarrow> u32 \<Rightarrow> 'd machine \<Rightarrow> (ptr \<times> 'd machine) option" where
  "sys_sem_create P count s = svc_call P (svc_sem_create P count) s"

definition sys_sem_wait :: "'d platform \<Rightarrow> ptr \<Rightarrow> 'd machine \<Rightarrow> 'd machine option" where
  "sys_sem_wait P sem s = map_option snd (svc_call P (svc_sem_wait P sem) s)"

definition sys_sem_post :: "'d platform \<Rightarrow> ptr \<Rightarrow> 'd machine \<Rightarrow> 'd machine option" where
  "sys_sem_post P sem s = map_option snd (svc_call P (svc_sem_post P sem) s)"

definition sys_mutex_create :: "'d platform \<Rightarrow> 'd machine \<Rightarrow> (ptr \<times> 'd machine) option" where
  "sys_mutex_create P s = svc_call P (svc_mutex_create P) s"

definition sys_mutex_lock :: "'d platform \<Rightarrow> ptr \<Rightarrow> 'd machine \<Rightarrow> 'd machine option" where
  "sys_mutex_lock P m s = map_option snd (svc_call P (svc_mutex_lock P m) s)"

definition sys_mutex_unlock :: "'d platform \<Rightarrow> ptr \<Rightarrow> 'd machine \<Rightarrow> 'd machine option" where
  "sys_mutex_unlock P m s = map_option snd (svc_call P (svc_mutex_unlock P m) s)"

definition sys_task_exit :: "'d platform \<Rightarrow> 'd machine \<Rightarrow> 'd machine option" where
  "sys_task_exit P s = map_option snd (svc_call P svc_task_exit s)"

definition sys_task_set_name :: "'d platform \<Rightarrow> ptr \<Rightarrow> ptr \<Rightarrow> 'd machine \<Rightarrow> 'd machine option" where
  "sys_task_set_name P task name s = map_option snd (svc_call P (svc_task_set_name P task name) s)"

definition sys_sleep :: "'d platform \<Rightarrow> u32 \<Rightarrow> 'd machine \<Rightarrow> 'd machine option" where
  "sys_sleep P ticks s = map_option snd (svc_call P (svc_sleep ticks) s)"

definition sys_putc :: "'d platform \<Rightarrow> (ptr \<Rightarrow> 'd machine driver_t) \<Rightarrow> u8 \<Rightarrow> 'd machine \<Rightarrow> 'd machine option" where
  "sys_putc P D c s = map_option snd (svc_call P (svc_putc D c) s)"

definition sys_getc :: "'d platform \<Rightarrow> (ptr \<Rightarrow> 'd machine driver_t) \<Rightarrow> ptr \<Rightarrow> 'd machine \<Rightarrow> (bool \<times> 'd machine) option" where
  "sys_getc P D c s = map_option (map_prod (\<lambda>r. r \<noteq> 0) id) (svc_call P (svc_getc D c) s)"

definition sys_console_write ::
  "'d platform \<Rightarrow> (ptr \<Rightarrow> 'd machine driver_t) \<Rightarrow> ptr \<Rightarrow> u32 \<Rightarrow> 'd machine \<Rightarrow> (int \<times> 'd machine) option" where
  "sys_console_write P D buf len s = map_option (map_prod sint id) (svc_call P (svc_console_write P D buf len) s)"

definition sys_net_link :: "'d platform \<Rightarrow> ptr \<Rightarrow> ptr \<Rightarrow> 'd machine \<Rightarrow> 'd machine option" where
  "sys_net_link P up reply s = map_option snd (svc_call P (svc_net_link up reply) s)"

definition sys_socket_get :: "'d platform \<Rightarrow> u8 \<Rightarrow> 'd machine \<Rightarrow> (ptr \<times> 'd machine) option" where
  "sys_socket_get P n s = svc_call P (\<lambda>s. Some (get_socket (lay P) n, False, s)) s"

definition sys_socket_open :: "'d platform \<Rightarrow> ptr \<Rightarrow> ptr \<Rightarrow> 'd machine \<Rightarrow> (ptr \<times> 'd machine) option" where
  "sys_socket_open P socket reply s = svc_call P (svc_socket_open P socket reply) s"

definition sys_socket_close :: "'d platform \<Rightarrow> ptr \<Rightarrow> ptr \<Rightarrow> 'd machine \<Rightarrow> 'd machine option" where
  "sys_socket_close P socket reply s = map_option snd (svc_call P (svc_socket_close P socket reply) s)"

definition sys_net_recv :: "'d platform \<Rightarrow> ptr \<Rightarrow> ptr \<Rightarrow> u16 \<Rightarrow> ptr \<Rightarrow> 'd machine \<Rightarrow> 'd machine option" where
  "sys_net_recv P socket buffer len reply s =
     map_option snd (svc_call P (svc_net_recv P socket buffer len reply) s)"

definition sys_net_send :: "'d platform \<Rightarrow> ptr \<Rightarrow> ptr \<Rightarrow> ptr \<Rightarrow> 'd machine \<Rightarrow> 'd machine option" where
  "sys_net_send P socket args reply s = map_option snd (svc_call P (svc_net_send P socket args reply) s)"

lemma syscall_body: "syscall P D n a0 a1 a2 a3 = svc_call P (svc_body P D n a0 a1 a2 a3)"
  by (rule ext) (auto simp: syscall_def svc_call_def svc_dispatch_def split: Option.bind_splits)

lemma ucast_widened [simp]:
  "ucast (ucast (c :: u8) :: u32) = c" "ucast (ucast (h :: u16) :: u32) = h"
  by (rule bit_word_eqI, simp add: bit_simps)+

text \<open>They are the system calls with the numbers of the header file.\<close>

lemma sysno_code:
  "sysno_of 0 = Some SYS_YIELD" "sysno_of 1 = Some SYS_UPTIME" "sysno_of 2 = Some SYS_MALLOC"
  "sysno_of 3 = Some SYS_CALLOC" "sysno_of 4 = Some SYS_FREE" "sysno_of 5 = Some SYS_SEM_CREATE"
  "sysno_of 6 = Some SYS_SEM_WAIT" "sysno_of 7 = Some SYS_SEM_POST" "sysno_of 8 = Some SYS_SEM_CLOSE"
  "sysno_of 9 = Some SYS_MUTEX_CREATE" "sysno_of 10 = Some SYS_MUTEX_LOCK" "sysno_of 11 = Some SYS_MUTEX_UNLOCK"
  "sysno_of 12 = Some SYS_TASK_CREATE" "sysno_of 13 = Some SYS_TASK_EXIT" "sysno_of 14 = Some SYS_TASK_SET_NAME"
  "sysno_of 15 = Some SYS_SLEEP" "sysno_of 16 = Some SYS_PUTC" "sysno_of 17 = Some SYS_GETC"
  "sysno_of 18 = Some SYS_CONSOLE_WRITE" "sysno_of 19 = Some SYS_SOCKET_GET" "sysno_of 20 = Some SYS_SOCKET_OPEN"
  "sysno_of 21 = Some SYS_SOCKET_CLOSE" "sysno_of 22 = Some SYS_NET_LINK" "sysno_of 23 = Some SYS_NET_RECV"
  "sysno_of 24 = Some SYS_NET_SEND"
  by (simp_all add: sysno_of_def sysnos_def)

lemma sys_calls:
  "sys_yield P s = map_option snd (syscall P D 0 0 0 0 0 s)"
  "sys_uptime P s = syscall P D 1 0 0 0 0 s"
  "sys_malloc P n s = syscall P D 2 n 0 0 0 s"
  "sys_calloc P n m s = syscall P D 3 n m 0 0 s"
  "sys_free P p s = map_option snd (syscall P D 4 p 0 0 0 s)"
  "sys_sem_create P n s = syscall P D 5 n 0 0 0 s"
  "sys_sem_wait P p s = map_option snd (syscall P D 6 p 0 0 0 s)"
  "sys_sem_post P p s = map_option snd (syscall P D 7 p 0 0 0 s)"
  "sys_mutex_create P s = syscall P D 9 0 0 0 0 s"
  "sys_mutex_lock P p s = map_option snd (syscall P D 10 p 0 0 0 s)"
  "sys_mutex_unlock P p s = map_option snd (syscall P D 11 p 0 0 0 s)"
  "sys_task_create P c f a s = syscall P D 12 (ucast c) f a 0 s"
  "sys_task_exit P s = map_option snd (syscall P D 13 0 0 0 0 s)"
  "sys_task_set_name P t p s = map_option snd (syscall P D 14 t p 0 0 s)"
  "sys_sleep P n s = map_option snd (syscall P D 15 n 0 0 0 s)"
  "sys_putc P D c s = map_option snd (syscall P D 16 (ucast c) 0 0 0 s)"
  "sys_getc P D p s = map_option (map_prod (\<lambda>r. r \<noteq> 0) id) (syscall P D 17 p 0 0 0 s)"
  "sys_console_write P D p n s = map_option (map_prod sint id) (syscall P D 18 p n 0 0 s)"
  "sys_socket_get P c s = syscall P D 19 (ucast c) 0 0 0 s"
  "sys_socket_open P p q s = syscall P D 20 p q 0 0 s"
  "sys_socket_close P p q s = map_option snd (syscall P D 21 p q 0 0 s)"
  "sys_net_link P p q s = map_option snd (syscall P D 22 p q 0 0 s)"
  "sys_net_recv P p q h t s = map_option snd (syscall P D 23 p q (ucast h) t s)"
  "sys_net_send P p q t s = map_option snd (syscall P D 24 p q t 0 s)"
  by (simp_all add: syscall_body svc_body_def [abs_def] sysno_code sys_yield_def sys_uptime_def
      sys_malloc_def sys_calloc_def sys_free_def sys_sem_create_def sys_sem_wait_def sys_sem_post_def
      sys_mutex_create_def sys_mutex_lock_def sys_mutex_unlock_def sys_task_create_def sys_task_exit_def
      sys_task_set_name_def sys_sleep_def sys_putc_def sys_getc_def sys_console_write_def sys_socket_get_def
      sys_socket_open_def sys_socket_close_def sys_net_link_def sys_net_recv_def sys_net_send_def)

section \<open>No call breaks the task queues\<close>

text \<open>What the drivers behind the console promise: to leave the task queues well formed.\<close>

definition drivers_keep :: "('d machine \<Rightarrow> bool) \<Rightarrow> (ptr \<Rightarrow> 'd machine driver_t) \<Rightarrow> bool" where
  "drivers_keep I D \<longleftrightarrow>
     (\<forall>p w buf s n s'. drv_write (D p) = Some w \<longrightarrow> I s \<longrightarrow> w buf s = Some (n, s') \<longrightarrow> I s') \<and>
     (\<forall>p r buf len s n buf' s'. drv_read (D p) = Some r \<longrightarrow> I s \<longrightarrow> r buf len s = Some (n, buf', s') \<longrightarrow> I s')"

lemma console_write_keeps:
  assumes "drivers_keep I D"
  shows "I s \<Longrightarrow> console_write D buf ss s = Some s' \<Longrightarrow> I s'"
proof (induction ss arbitrary: s)
  case (Cons p ss)
  show ?case
  proof (cases "if p \<noteq> 0 then drv_write (D p) else None")
    case None
    with Cons show ?thesis by simp
  next
    case (Some w)
    with Cons.prems(2) obtain n s1 where w: "w buf s = Some (n, s1)" "console_write D buf ss s1 = Some s'" by auto
    have "drv_write (D p) = Some w" using Some by (simp split: if_splits)
    with assms Cons.prems(1) w(1) have "I s1" unfolding drivers_keep_def by blast
    with Cons.IH w(2) show ?thesis by blast
  qed
qed simp

lemma console_read_keeps:
  assumes "drivers_keep I D"
  shows "I s \<Longrightarrow> console_read D buf len ss s = Some (n, buf', s') \<Longrightarrow> I s'"
proof (induction ss arbitrary: s buf)
  case (Cons p ss)
  show ?case
  proof (cases "if p \<noteq> 0 then drv_read (D p) else None")
    case None
    with Cons show ?thesis by simp
  next
    case (Some r)
    with Cons.prems(2) obtain n1 b1 s1 where r: "r buf len s = Some (n1, b1, s1)"
      "(if n1 > 0 then Some (n1, b1, s1) else console_read D b1 len ss s1) = Some (n, buf', s')" by auto
    have "drv_read (D p) = Some r" using Some by (simp split: if_splits)
    with assms Cons.prems(1) r(1) have "I s1" unfolding drivers_keep_def by blast
    with Cons.IH r(2) show ?thesis by (auto split: if_splits)
  qed
qed simp

text \<open>The network calls post one semaphore and wait on another.\<close>

lemma svc_net_inv:
  assumes "kernel_inv (kern s)" "running (kern s)" "svc_net req s = Some (r, y, s')"
  shows "kernel_inv (kern s')"
proof -
  obtain x k where post: "semaphore_post (net_posted s) (kern s) = Some (x, k)" "kernel_inv k" "running k"
    using semaphore_post_inv [OF assms(1), of "net_posted s"] assms(2) by metis
  have "kern s' = snd (semaphore_wait (net_done s) k)"
    using assms(3) post(1) by (auto simp: svc_net_def net_send_request_def net_will_wait_def Let_def split: prod.splits)
  with semaphore_wait_inv [OF post(2,3)] show ?thesis by simp
qed

lemma svc_sem_inv:
  assumes inv: "kernel_inv (kern s)" and run: "running (kern s)"
  shows "svc_sem_create P n s = Some (r, y, s') \<Longrightarrow> kernel_inv (kern s')"
    and "svc_sem_wait P p s = Some (r, y, s') \<Longrightarrow> kernel_inv (kern s')"
    and "svc_sem_post P p s = Some (r, y, s') \<Longrightarrow> kernel_inv (kern s')"
    and "svc_sem_close P p s = Some (r, y, s') \<Longrightarrow> kernel_inv (kern s')"
proof -
  show "svc_sem_create P n s = Some (r, y, s') \<Longrightarrow> kernel_inv (kern s')"
    using alloc_sem_inv [OF inv, of "lay P"]
    by (auto simp: svc_sem_create_def Let_def intro: semaphore_init_inv split: prod.splits if_splits)
  show "svc_sem_wait P p s = Some (r, y, s') \<Longrightarrow> kernel_inv (kern s')"
    using semaphore_wait_inv [OF inv run, of p] inv
    by (auto simp: svc_sem_wait_def Let_def split: prod.splits if_splits)
  show "svc_sem_post P p s = Some (r, y, s') \<Longrightarrow> kernel_inv (kern s')"
    using semaphore_post_inv [OF inv, of p] inv by (fastforce simp: svc_sem_post_def split: if_splits)
  show "svc_sem_close P p s = Some (r, y, s') \<Longrightarrow> kernel_inv (kern s')"
    using semaphore_close_inv [OF inv, of p] inv by (auto simp: svc_sem_close_def split: if_splits)
qed

lemma svc_mutex_inv:
  assumes inv: "kernel_inv (kern s)" and run: "running (kern s)"
  shows "svc_mutex_create P s = Some (r, y, s') \<Longrightarrow> kernel_inv (kern s')"
    and "svc_mutex_lock P p s = Some (r, y, s') \<Longrightarrow> kernel_inv (kern s')"
    and "svc_mutex_unlock P p s = Some (r, y, s') \<Longrightarrow> kernel_inv (kern s')"
proof -
  show "svc_mutex_create P s = Some (r, y, s') \<Longrightarrow> kernel_inv (kern s')"
    using inv by (auto simp: svc_mutex_create_def Let_def on_kern_def intro: mutex_init_inv split: if_splits)
  show "svc_mutex_lock P p s = Some (r, y, s') \<Longrightarrow> kernel_inv (kern s')"
    using mutex_lock_inv [OF inv run, of p] inv by (auto simp: svc_mutex_lock_def split: if_splits)
  show "svc_mutex_unlock P p s = Some (r, y, s') \<Longrightarrow> kernel_inv (kern s')"
    using mutex_unlock_inv [OF inv running_off_queue [OF run], of p] inv
    by (auto simp: svc_mutex_unlock_def split: if_splits)
qed

lemma svc_task_inv:
  assumes inv: "kernel_inv (kern s)" and run: "running (kern s)"
  shows "svc_task_create P c f a s = Some (r, y, s') \<Longrightarrow> kernel_inv (kern s')"
    and "svc_task_exit s = Some (r, y, s') \<Longrightarrow> kernel_inv (kern s')"
    and "svc_task_set_name P t n s = Some (r, y, s') \<Longrightarrow> kernel_inv (kern s')"
    and "svc_sleep i s = Some (r, y, s') \<Longrightarrow> kernel_inv (kern s')"
proof -
  show "kernel_inv (kern s')" if "svc_task_create P c f a s = Some (r, y, s')"
  proof -
    obtain t k where k: "create_task (lay P) c f a (kern s) = (t, k)" "kernel_inv k"
      using create_task_inv [OF inv, of "lay P" c f a] by (metis prod.exhaust_sel)
    obtain k' where "scheduler_put_task t k = Some k'" "kernel_inv k'" by (rule put_task_inv [OF k(2)])
    with that k show ?thesis by (auto simp: svc_task_create_def split: if_splits)
  qed
  show "kernel_inv (kern s')" if exit: "svc_task_exit s = Some (r, y, s')"
  proof -
    let ?k = "upd_task (current_task (kern s)) (\<lambda>t. t\<lparr>tcb_state := TASK_FINISHED\<rparr>) (kern s)"
    have "kernel_inv ?k"
      using running_off_queue [OF run] unfolding off_queue_def by (rule upd_off_inv [OF inv]) simp
    moreover have "off_queue ?k" by (simp add: off_queue_def)
    ultimately show ?thesis using exit mutex_unlock_all_owned_inv by (auto simp: svc_task_exit_def Let_def)
  qed
  show "svc_task_set_name P t n s = Some (r, y, s') \<Longrightarrow> kernel_inv (kern s')"
    using inv name_inv [OF inv] by (auto simp: svc_task_set_name_def on_kern_def split: if_splits)
  show "svc_sleep i s = Some (r, y, s') \<Longrightarrow> kernel_inv (kern s')"
    using sleep_inv [OF inv run] by (auto simp: svc_sleep_def)
qed

lemma svc_body_inv:
  assumes inv: "kernel_inv (kern s)" and run: "running (kern s)"
    and drv: "drivers_keep (\<lambda>s. kernel_inv (kern s)) D"
    and body: "svc_body P D n a0 a1 a2 a3 s = Some (r, y, s')"
  shows "kernel_inv (kern s')"
proof (cases "sysno_of n")
  case None
  with body inv show ?thesis by (simp add: svc_body_def)
next
  case (Some no)
  note [simp] = svc_body_def Some
  note sem = svc_sem_inv [OF inv run] and mutex = svc_mutex_inv [OF inv run] and task = svc_task_inv [OF inv run]
    and net = svc_net_inv [OF inv run]
  show ?thesis
  proof (cases no)
    case SYS_MALLOC
    with body inv show ?thesis by (auto simp: svc_malloc_def)
  next
    case SYS_CALLOC
    with body inv show ?thesis by (auto simp: svc_calloc_def)
  next
    case SYS_FREE
    with body inv show ?thesis by (auto simp: svc_free_def split: if_splits)
  next
    case SYS_PUTC
    with body show ?thesis using console_write_keeps [OF drv inv] by (auto simp: svc_putc_def)
  next
    case SYS_GETC
    with body obtain b s1 where "console_read D (bytes_at (umem s) a0 1) 1 (sinks s) s = Some b"
      "s1 = snd (snd b)" "kern s' = kern s1" by (auto simp: svc_getc_def)
    then show ?thesis using console_read_keeps [OF drv inv] by (metis prod.collapse)
  next
    case SYS_CONSOLE_WRITE
    with body inv show ?thesis
      using console_write_keeps [OF drv inv] by (auto simp: svc_console_write_def split: if_splits)
  next
    case SYS_SOCKET_OPEN
    with body inv net show ?thesis by (auto simp: svc_socket_open_def split: if_splits)
  next
    case SYS_SOCKET_CLOSE
    with body inv net show ?thesis by (auto simp: svc_socket_close_def split: if_splits)
  next
    case SYS_NET_LINK
    with body net show ?thesis by (auto simp: svc_net_link_def)
  next
    case SYS_NET_RECV
    with body inv net show ?thesis by (auto simp: svc_net_recv_def split: if_splits)
  next
    case SYS_NET_SEND
    with body inv net show ?thesis by (auto simp: svc_net_send_def split: if_splits)
  qed (use body inv sem mutex task in auto)
qed

text \<open>The two comparisons of the pointer checks: no wrap-around, and before the end.\<close>

lemma in_range_iff:
  fixes p len e :: u32
  shows "(\<not> (p + len \<ge> e) \<and> \<not> (p + len < p)) \<longleftrightarrow> unat p + unat len < unat e"
proof (cases "unat p + unat len < 2 ^ 32")
  case True
  then have "unat (p + len) = unat p + unat len" by (simp add: unat_word_ariths)
  then show ?thesis by (auto simp: word_less_nat_alt word_le_nat_alt)
next
  case False
  have "unat p + unat len < 2 * 2 ^ 32" using unat_lt2p [of p] unat_lt2p [of len] by simp
  then have "unat (p + len) = unat p + unat len - 2 ^ 32"
    using False by (simp add: unat_word_ariths le_mod_geq)
  moreover have "unat len < 2 ^ 32" "unat e < 2 ^ 32" using unat_lt2p [of len] unat_lt2p [of e] by simp_all
  ultimately show ?thesis using False by (auto simp: word_less_nat_alt)
qed

section \<open>Properties\<close>

text \<open>An example: two tasks wait on a semaphore that is not in the pool, a third one runs; no drivers.\<close>

definition ex_machine :: "kernel \<Rightarrow> heap \<Rightarrow> unit machine" where
  "ex_machine k h = idle_machine k h ()"

definition ex_platform :: "unit platform" where
  "ex_platform = plain_platform \<lparr>bus_read = (\<lambda>a d. (0, d)), bus_write = (\<lambda>a v d. d)\<rparr>"

definition no_drivers :: "ptr \<Rightarrow> 'd machine driver_t" where
  "no_drivers = (\<lambda>_. \<lparr>drv_name = 0, drv_init = None, drv_write = None, drv_write_sync = None,
     drv_read = None, drv_read_blocking = None\<rparr>)"

lemma no_drivers_keep: "drivers_keep I no_drivers"
  by (simp add: drivers_keep_def no_drivers_def)

text \<open>
  The arguments a call dereferences name objects of the kind it expects: a handle that passes the
  check of its kind lies in the pool of that kind, and input goes to the heap or to the caller's stack.
  The checks themselves have no upper bound and accept addresses behind the pools
  (\<open>validate_mutex_no_bound\<close>), and the buffer of \<open>SYS_GETC\<close> is not checked at all; what the kernel does
  with such an address is outside the typed stores of the model.
\<close>

definition proper_call :: "'d platform \<Rightarrow> 'd machine \<Rightarrow> sysno \<Rightarrow> ptr \<Rightarrow> bool" where
  "proper_call P s no p \<longleftrightarrow>
     (no \<in> {SYS_SEM_WAIT, SYS_SEM_POST, SYS_SEM_CLOSE} \<longrightarrow> validate_sem (lay P) p \<longrightarrow>
        p \<in> elem (sem_slots (lay P)) (sizeof_sem (lay P)) ` {..<N_SEMAPHORES}) \<and>
     (no \<in> {SYS_MUTEX_LOCK, SYS_MUTEX_UNLOCK} \<longrightarrow> validate_mutex (lay P) p \<longrightarrow>
        p \<in> elem (mutex_slots (lay P)) (sizeof_mutex (lay P)) ` {..<N_MUTEXES}) \<and>
     (no = SYS_TASK_SET_NAME \<longrightarrow> validate_task (lay P) p \<longrightarrow>
        p \<in> elem (task_slots (lay P)) (sizeof_tcb (lay P)) ` {..<N_TASKS}) \<and>
     (no \<in> {SYS_SOCKET_OPEN, SYS_SOCKET_CLOSE, SYS_NET_RECV, SYS_NET_SEND} \<longrightarrow> validate_socket (lay P) p \<longrightarrow>
        p \<in> elem (socket_slots (lay P)) (sizeof_socket (lay P)) ` {..<N_SOCKETS}) \<and>
     (no = SYS_GETC \<longrightarrow> ptr_on_heap P p 1 \<or> ptr_on_stack p 1 (tcbs (kern s) (current_task (kern s))))"

text \<open>C23: No proper system call breaks the task queues. For every number and all arguments of which the
  pointers the call dereferences name objects of the pools, or a byte of the caller's own memory, or
  are refused: if the kernel comes back, the ready queue, the sleep list and the queues of all
  semaphores and mutexes are well-formed, ordered lists, and every queued task is in the one queue its
  own fields name. The kernel objects are in typed stores: that they do not overlap each other, the
  heap or the stacks is part of the model and not shown here.\<close>

theorem svc_dispatch_keeps_queues:
  assumes "kernel_inv (kern s)" "running (kern s)" "drivers_keep (\<lambda>s. kernel_inv (kern s)) D"
    and "case sysno_of (frame ! 4) of None \<Rightarrow> True | Some no \<Rightarrow> proper_call P s no (frame ! 0)"
    and "svc_dispatch P D frame s = Some (frame', s')"
  shows "kernel_inv (kern s')"
proof -
  from assms(5) obtain r y s1 where "svc_body P D (frame ! 4) (frame ! 0) (frame ! 1) (frame ! 2) (frame ! 3) s = Some (r, y, s1)"
    "s' = svc_finish y s1" by (auto simp: svc_dispatch_def)
  with svc_body_inv [OF assms(1-3)] show ?thesis by (auto simp: svc_finish_def on_kern_def request_inv)
qed

theorem svc_dispatch_keeps_queues_witness:
  "\<exists>frame' s'. svc_dispatch ex_platform no_drivers [5, 0, 0, 0, 15, 0, 0, 0] (ex_machine ex_sem ex_heap) = Some (frame', s') \<and>
     kernel_inv (kern s')"
proof -
  let ?s = "ex_machine ex_sem ex_heap"
  have inv: "kernel_inv (kern ?s)" using ex_sem_ok by (auto simp: ex_machine_def idle_machine_def kernel_inv_def)
  have run: "running (kern ?s)" by (simp add: ex_machine_def idle_machine_def running_def ex_sem_def)
  obtain k where "sleep_for_ticks 5 ex_sem = Some k"
    by (rule sleep_for_ticks_rep [OF ex_sem_ok refl]) (auto simp: ex_sem_def)
  then have "svc_dispatch ex_platform no_drivers [5, 0, 0, 0, 15, 0, 0, 0] ?s =
      Some ([0, 0, 0, 0, 15, 0, 0, 0], svc_finish True (?s\<lparr>kern := k\<rparr>))"
    by (simp add: svc_dispatch_def svc_body_def sysno_code svc_sleep_def ex_machine_def idle_machine_def)
  moreover have "case sysno_of ([5, 0, 0, 0, 15, 0, 0, 0] ! 4) of None \<Rightarrow> True
      | Some no \<Rightarrow> proper_call ex_platform ?s no ([5, 0, 0, 0, 15, 0, 0, 0] ! 0)"
    by (simp add: sysno_code proper_call_def)
  ultimately show ?thesis using svc_dispatch_keeps_queues [OF inv run no_drivers_keep] by blast
qed

text \<open>C25: The check of a user buffer accepts exactly the buffers that start inside the heap, or inside
  the stack of the calling task, and end strictly before its end: nothing that wraps around the address
  space, but not a buffer that ends exactly with the region either. Output of a buffer that is neither
  is refused without reading it.\<close>

theorem user_buffer_checked:
  assumes "unat (stack_base t) + unat (stack_size t) < 2 ^ 32"
  shows "(ptr_on_heap P p len \<longleftrightarrow> p \<noteq> 0 \<and> heap_start P \<le> p \<and> unat p + unat len < unat (heap_end P)) \<and>
     (ptr_on_stack p len t \<longleftrightarrow> p \<noteq> 0 \<and> stack_base t \<le> p \<and>
        unat p + unat len < unat (stack_base t) + unat (stack_size t)) \<and>
     \<not> ptr_on_heap P (heap_end P - len) len \<and> \<not> ptr_on_stack (stack_base t + stack_size t - len) len t \<and>
     (\<not> ptr_on_heap P p len \<longrightarrow> \<not> ptr_on_stack p len (tcbs (kern s) (current_task (kern s))) \<longrightarrow>
        svc_console_write P D p len s = Some (0, False, s))"
proof -
  have range: "(\<not> (p + len \<ge> e) \<and> \<not> (p + len < p)) \<longleftrightarrow> unat p + unat len < unat e" for e :: ptr
    by (rule in_range_iff)
  have "unat (stack_base t + stack_size t) = unat (stack_base t) + unat (stack_size t)"
    using assms by (simp add: unat_word_ariths)
  with range [of "heap_end P"] range [of "stack_base t + stack_size t"] show ?thesis
    by (auto simp: ptr_on_heap_def ptr_on_stack_def svc_console_write_def not_less)
qed

theorem user_buffer_checked_witness:
  "ptr_on_heap ex_platform 0x20010100 0x10 \<and> \<not> ptr_on_heap ex_platform 0x20010FF0 0x10 \<and>
   \<not> ptr_on_heap ex_platform 0x20010100 0xFFFFFFF0"
  using user_buffer_checked [of zero_tcb ex_platform "0x20010100" "0x10" "ex_machine zero_kernel ex_heap" no_drivers]
    user_buffer_checked [of zero_tcb ex_platform "0x20010FF0" "0x10" "ex_machine zero_kernel ex_heap" no_drivers]
    user_buffer_checked [of zero_tcb ex_platform "0x20010100" "0xFFFFFFF0" "ex_machine zero_kernel ex_heap" no_drivers]
  by (simp add: zero_tcb_def ex_platform_def plain_platform_def word_le_nat_alt)

text \<open>The arguments a call checks, and refuses.\<close>

definition refused :: "'d platform \<Rightarrow> 'd machine \<Rightarrow> sysno \<Rightarrow> ptr \<Rightarrow> u32 \<Rightarrow> bool" where
  "refused P s no p len \<longleftrightarrow>
     no \<in> {SYS_SEM_WAIT, SYS_SEM_POST, SYS_SEM_CLOSE} \<and> \<not> validate_sem (lay P) p \<or>
     no \<in> {SYS_MUTEX_LOCK, SYS_MUTEX_UNLOCK} \<and> \<not> validate_mutex (lay P) p \<or>
     no = SYS_TASK_SET_NAME \<and> \<not> validate_task (lay P) p \<or>
     no \<in> {SYS_SOCKET_OPEN, SYS_SOCKET_CLOSE, SYS_NET_RECV, SYS_NET_SEND} \<and> \<not> validate_socket (lay P) p \<or>
     no = SYS_FREE \<and> \<not> ptr_on_heap P p 0 \<or>
     no = SYS_CONSOLE_WRITE \<and> \<not> ptr_on_heap P p len \<and> \<not> ptr_on_stack p len (tcbs (kern s) (current_task (kern s)))"

text \<open>C24: A system call with an unknown number, with a pointer that the check of its kind of object
  refuses, or with an output buffer that is neither on the heap nor on the caller's stack, returns 0 to
  the task and changes nothing.\<close>

theorem svc_dispatch_refuses:
  assumes "case sysno_of (frame ! 4) of None \<Rightarrow> True | Some no \<Rightarrow> refused P s no (frame ! 0) (frame ! 1)"
  shows "svc_dispatch P D frame s = Some (frame[0 := 0], s)"
proof (cases "sysno_of (frame ! 4)")
  case None
  then show ?thesis by (simp add: svc_dispatch_def svc_body_def svc_finish_def)
next
  case (Some no)
  with assms show ?thesis
    by (cases no) (simp_all add: refused_def svc_dispatch_def svc_body_def svc_finish_def svc_sem_wait_def
        svc_sem_post_def svc_sem_close_def svc_mutex_lock_def svc_mutex_unlock_def svc_task_set_name_def
        svc_socket_open_def svc_socket_close_def svc_net_recv_def svc_net_send_def svc_free_def
        svc_console_write_def)
qed

theorem svc_dispatch_refuses_witness:
  "svc_dispatch ex_platform no_drivers [7, 0, 0, 0, 77, 0, 0, 0] (ex_machine ex_sem ex_heap) =
     Some ([0, 0, 0, 0, 77, 0, 0, 0], ex_machine ex_sem ex_heap) \<and>
   svc_dispatch ex_platform no_drivers [0x20001001, 0, 0, 0, 6, 0, 0, 0] (ex_machine ex_sem ex_heap) =
     Some ([0, 0, 0, 0, 6, 0, 0, 0], ex_machine ex_sem ex_heap)"
proof -
  have "sysno_of 77 = None" by (simp add: sysno_of_def sysnos_def)
  moreover have "\<not> validate_sem (lay ex_platform) 0x20001001"
    by (simp add: validate_sem_def ex_platform_def plain_platform_def ex_layout_def)
  ultimately show ?thesis
    using svc_dispatch_refuses [where P = ex_platform and frame = "[7, 0, 0, 0, 77, 0, 0, 0]" and D = no_drivers and s = "ex_machine ex_sem ex_heap"]
      svc_dispatch_refuses [where P = ex_platform and frame = "[0x20001001, 0, 0, 0, 6, 0, 0, 0]" and D = no_drivers and s = "ex_machine ex_sem ex_heap"]
    by (simp add: sysno_code refused_def)
qed

lemma ex_heap_malloc: "map_option fst (kmalloc 20 ex_heap) = Some 0x20010010"
  by code_simp

text \<open>The mutexes a task creates are not usable: they come from the heap, but locking accepts only
  addresses at a multiple of the size of a mutex from the pool of mutexes. In the layout of the
  example the lock call for a freshly created mutex returns as if it had succeeded, without locking:
  nobody owns the mutex afterwards.\<close>

theorem created_mutex_not_lockable:
  "\<exists>m s. sys_mutex_create ex_platform (ex_machine ex_sem ex_heap) = Some (m, s) \<and> m \<noteq> 0 \<and>
     mutex_owner (mutexes (kern s) m) = 0 \<and> running (kern s) \<and> sys_mutex_lock ex_platform m s = Some s"
proof -
  obtain h where h: "kmalloc 20 ex_heap = Some (0x20010010, h)" using ex_heap_malloc by auto
  let ?m = "0x20010010 :: ptr"
  let ?s = "on_kern (mutex_init ?m) ((ex_machine ex_sem ex_heap)\<lparr>kheap := h\<rparr>)"
  have "kern ?s = mutex_init ?m ex_sem" by (simp add: on_kern_def ex_machine_def idle_machine_def)
  then have k: "\<not> pendsv_set (kern ?s)" "running (kern ?s)" "mutex_owner (mutexes (kern ?s) ?m) = 0"
    by (simp_all add: mutex_init_def ex_sem_def running_def)
  have "sys_mutex_create ex_platform (ex_machine ex_sem ex_heap) = Some (?m, ?s)"
    using h k(1) by (simp add: sys_mutex_create_def svc_call_def svc_mutex_create_def svc_finish_def svc_return_def
        ex_platform_def plain_platform_def ex_layout_def ex_machine_def idle_machine_def)
  moreover have "\<not> validate_mutex (lay ex_platform) ?m"
    by (simp add: validate_mutex_def ex_platform_def plain_platform_def ex_layout_def)
  then have "sys_mutex_lock ex_platform ?m ?s = Some ?s"
    using k(1) by (simp add: sys_mutex_lock_def svc_call_def svc_mutex_lock_def svc_finish_def svc_return_def)
  ultimately show ?thesis using k by (intro exI [of _ ?m] exI [of _ ?s]) simp
qed

end
