(* ===== verification/Printf.thy ===== *)
theory Printf
  imports Console Buffers
begin

unbundle bit_operations_syntax

text \<open>
  Formatted output (\<^verbatim>\<open>source/kernel/kprintf.c\<close>): \<open>kvsnprintf\<close> on a buffer with checked accesses, with
  the format and the strings in a byte addressed memory \<open>m\<close> and the variable arguments as a list of
  machine words (taking an argument that was not passed is \<open>None\<close>). The reference is \<open>render\<close>, the text
  a format and arguments stand for: the code returns the length of that text and stores as much of it
  as fits, with a terminator.
\<close>

section \<open>Operations\<close>

record out_t =
  out_buf :: "u8 list"
  out_cap :: u32
  out_len :: u32

definition emit :: "out_t \<Rightarrow> u8 \<Rightarrow> out_t option" where
  "emit out c = do {
     buf \<leftarrow> (if out_cap out \<noteq> 0 \<and> out_len out < out_cap out - 1
            then poke (out_buf out) (unat (out_len out)) c else Some (out_buf out));
     Some (out\<lparr>out_buf := buf, out_len := out_len out + 1\<rparr>)
   }"

definition lower_digits :: "u8 list" where
  "lower_digits = [0x30, 0x31, 0x32, 0x33, 0x34, 0x35, 0x36, 0x37, 0x38, 0x39, 0x61, 0x62, 0x63, 0x64, 0x65, 0x66]"

definition upper_digits :: "u8 list" where
  "upper_digits = [0x30, 0x31, 0x32, 0x33, 0x34, 0x35, 0x36, 0x37, 0x38, 0x39, 0x41, 0x42, 0x43, 0x44, 0x45, 0x46]"

text \<open>The loops of \<open>emit_number\<close>: the digits from the last to the first, the padding, the output.\<close>

partial_function (option) digits_loop :: "u8 list \<Rightarrow> u32 \<Rightarrow> u8 list \<Rightarrow> u32 \<Rightarrow> u32 \<Rightarrow> (u8 list \<times> u32) option" where
  "digits_loop digits base tmp n v = do {
     d \<leftarrow> fetch digits (unat (v mod base));
     tmp \<leftarrow> poke tmp (unat n) d;
     if v div base \<noteq> 0 then digits_loop digits base tmp (n + 1) (v div base) else Some (tmp, n + 1)
   }"

function pad_loop :: "u8 \<Rightarrow> u32 \<Rightarrow> u32 \<Rightarrow> out_t \<Rightarrow> out_t option" where
  "pad_loop c width i out =
     (if i < width then Option.bind (emit out c) (pad_loop c width (i + 1)) else Some out)"
  by auto
termination
  by (relation "measure (\<lambda>(c, width, i, out). unat width - unat i)") (auto intro: less_next_measure)

function digits_out :: "u8 list \<Rightarrow> u32 \<Rightarrow> out_t \<Rightarrow> out_t option" where
  "digits_out tmp n out =
     (if n \<noteq> 0
      then do { d \<leftarrow> fetch tmp (unat (n - 1)); out \<leftarrow> emit out d; digits_out tmp (n - 1) out }
      else Some out)"
  by auto
termination
  by (relation "measure (\<lambda>(tmp, n, out). unat n)") (auto intro: measure_unat)

declare pad_loop.simps [simp del] digits_out.simps [simp del]

text \<open>\<open>tmp\<close> is the uninitialised array of ten characters.\<close>

definition emit_number :: "u8 list \<Rightarrow> out_t \<Rightarrow> u32 \<Rightarrow> bool \<Rightarrow> u32 \<Rightarrow> bool \<Rightarrow> u32 \<Rightarrow> u8 \<Rightarrow> out_t option" where
  "emit_number tmp out v neg base upper width pad = do {
     let digits = (if upper then upper_digits else lower_digits);
     (tmp, n) \<leftarrow> digits_loop digits base tmp 0 v;
     let total = n + (if neg then 1 else 0);
     out \<leftarrow> (if pad = 0x20
            then do {
              out \<leftarrow> pad_loop 0x20 width total out;
              if neg then emit out 0x2D else Some out
            }
            else do {
              out \<leftarrow> (if neg then emit out 0x2D else Some out);
              pad_loop 0x30 width total out
            });
     digits_out tmp n out
   }"

text \<open>Parts of \<open>kvsnprintf\<close>: the width, the padding and the characters of a string, a conversion.\<close>

partial_function (option) width_loop :: "mem \<Rightarrow> ptr \<Rightarrow> u32 \<Rightarrow> (u32 \<times> ptr) option" where
  "width_loop m fmt width =
     (if m fmt \<ge> 0x30 \<and> m fmt \<le> 0x39
      then width_loop m (fmt + 1) (width * 10 + ucast (m fmt - 0x30)) else Some (width, fmt))"

function str_pad_loop :: "int \<Rightarrow> out_t \<Rightarrow> out_t option" where
  "str_pad_loop str_pad out =
     (if str_pad > 0 then Option.bind (emit out 0x20) (str_pad_loop (str_pad - 1)) else Some out)"
  by auto
termination by (relation "measure (\<lambda>(str_pad, out). nat str_pad)") auto

partial_function (option) emit_string :: "mem \<Rightarrow> ptr \<Rightarrow> out_t \<Rightarrow> out_t option" where
  "emit_string m p out = (if m p \<noteq> 0 then Option.bind (emit out (m p)) (emit_string m (p + 1)) else Some out)"

fun emit_all :: "u8 list \<Rightarrow> out_t \<Rightarrow> out_t option" where
  "emit_all [] out = Some out"
| "emit_all (c # cs) out = Option.bind (emit out c) (emit_all cs)"

declare str_pad_loop.simps [simp del]

definition null_text :: "u8 list" where
  "null_text = [0x28, 0x6E, 0x75, 0x6C, 0x6C, 0x29]"

fun va_arg :: "u32 list \<Rightarrow> (u32 \<times> u32 list) option" where
  "va_arg [] = None"
| "va_arg (a # ap) = Some (a, ap)"

text \<open>The \<open>switch\<close> on the conversion character, other than the terminator.\<close>

definition convert :: "u8 list \<Rightarrow> mem \<Rightarrow> u8 \<Rightarrow> u32 \<Rightarrow> u8 \<Rightarrow> u32 list \<Rightarrow> out_t \<Rightarrow> (u32 list \<times> out_t) option" where
  "convert tmp m c width pad ap out =
     (if c = 0x63 then do { (v, ap) \<leftarrow> va_arg ap; out \<leftarrow> emit out (ucast v); Some (ap, out) }
      else if c = 0x73 then do {
        (s, ap) \<leftarrow> va_arg ap;
        len \<leftarrow> strlen m s;
        let len = (if s = 0 then 6 else word_of_int len);
        out \<leftarrow> str_pad_loop (sint (width - len)) out;
        out \<leftarrow> (if s = 0 then emit_all null_text out else emit_string m s out);
        Some (ap, out)
      }
      else if c = 0x64 \<or> c = 0x69 then do {
        (v, ap) \<leftarrow> va_arg ap;
        let neg = (sint v < 0);
        out \<leftarrow> emit_number tmp out (if neg then 0 - v else v) neg 10 False width pad;
        Some (ap, out)
      }
      else if c = 0x75 then do {
        (v, ap) \<leftarrow> va_arg ap; out \<leftarrow> emit_number tmp out v False 10 False width pad; Some (ap, out) }
      else if c = 0x78 then do {
        (v, ap) \<leftarrow> va_arg ap; out \<leftarrow> emit_number tmp out v False 16 False width pad; Some (ap, out) }
      else if c = 0x58 then do {
        (v, ap) \<leftarrow> va_arg ap; out \<leftarrow> emit_number tmp out v False 16 True width pad; Some (ap, out) }
      else if c = 0x70 then do {
        out \<leftarrow> emit out 0x30;
        out \<leftarrow> emit out 0x78;
        (v, ap) \<leftarrow> va_arg ap;
        out \<leftarrow> emit_number tmp out v False 16 False 8 0x30;
        Some (ap, out)
      }
      else if c = 0x25 then do { out \<leftarrow> emit out 0x25; Some (ap, out) }
      else do { out \<leftarrow> emit out 0x25; out \<leftarrow> emit out c; Some (ap, out) })"

partial_function (option) format_loop :: "u8 list \<Rightarrow> mem \<Rightarrow> ptr \<Rightarrow> u32 list \<Rightarrow> out_t \<Rightarrow> out_t option" where
  "format_loop tmp m fmt ap out =
     (if m fmt = 0 then Some out
      else if m fmt \<noteq> 0x25 then Option.bind (emit out (m fmt)) (format_loop tmp m (fmt + 1) ap)
      else do {
        let fmt = fmt + 1;
        let (pad, fmt) = (if m fmt = 0x30 then (0x30, fmt + 1) else (0x20, fmt));
        (width, fmt) \<leftarrow> width_loop m fmt 0;
        if m fmt = 0 then emit out 0x25
        else do {
          (ap, out) \<leftarrow> convert tmp m (m fmt) width pad ap out;
          format_loop tmp m (fmt + 1) ap out
        }
      })"

definition kvsnprintf :: "u8 list \<Rightarrow> mem \<Rightarrow> u8 list \<Rightarrow> u32 \<Rightarrow> ptr \<Rightarrow> u32 list \<Rightarrow> (int \<times> u8 list) option" where
  "kvsnprintf tmp m buf cap fmt ap = do {
     out \<leftarrow> format_loop tmp m fmt ap \<lparr>out_buf = buf, out_cap = cap, out_len = 0\<rparr>;
     buf \<leftarrow> (if cap \<noteq> 0
            then poke (out_buf out) (unat (if out_len out < cap then out_len out else cap - 1)) 0
            else Some (out_buf out));
     Some (sint (out_len out), buf)
   }"

definition ksnprintf :: "u8 list \<Rightarrow> mem \<Rightarrow> u8 list \<Rightarrow> u32 \<Rightarrow> ptr \<Rightarrow> u32 list \<Rightarrow> (int \<times> u8 list) option" where
  "ksnprintf tmp m buf cap fmt ap = kvsnprintf tmp m buf cap fmt ap"

definition clamp_len :: "int \<Rightarrow> u32 \<Rightarrow> u32" where
  "clamp_len n cap = (if n < 0 then 0 else if word_of_int n \<ge> cap then cap - 1 else word_of_int n)"

definition KPRINTF_BUF_SIZE :: nat where "KPRINTF_BUF_SIZE = 256"

text \<open>\<open>stack\<close>: what the local array holds when the function is entered.\<close>

definition kprintf ::
  "(ptr \<Rightarrow> 'd machine driver_t) \<Rightarrow> u8 list \<Rightarrow> u8 list \<Rightarrow> ptr \<Rightarrow> u32 list \<Rightarrow> 'd machine \<Rightarrow> (int \<times> 'd machine) option" where
  "kprintf D tmp stack fmt ap s = do {
     (n, buf) \<leftarrow> kvsnprintf tmp (umem s) stack (of_nat KPRINTF_BUF_SIZE) fmt ap;
     s \<leftarrow> console_write D (take (unat (clamp_len n (of_nat KPRINTF_BUF_SIZE))) buf) (sinks s) s;
     Some (n, s)
   }"

definition kpanicf ::
  "(ptr \<Rightarrow> 'd machine driver_t) \<Rightarrow> u8 list \<Rightarrow> u8 list \<Rightarrow> ptr \<Rightarrow> u32 list \<Rightarrow> 'd machine \<Rightarrow> (int \<times> 'd machine) option" where
  "kpanicf D tmp stack fmt ap s = do {
     (n, buf) \<leftarrow> kvsnprintf tmp (umem s) stack (of_nat KPRINTF_BUF_SIZE) fmt ap;
     s \<leftarrow> console_write_sync D (take (unat (clamp_len n (of_nat KPRINTF_BUF_SIZE))) buf) (sinks s) s;
     Some (n, s)
   }"

declare digits_loop.simps [code] width_loop.simps [code] emit_string.simps [code] format_loop.simps [code]

section \<open>The text a format stands for\<close>

text \<open>The digits of a number, from the first to the last.\<close>

fun num_digits :: "nat \<Rightarrow> nat \<Rightarrow> nat list" where
  "num_digits b v = (if b < 2 \<or> v < b then [v] else num_digits b (v div b) @ [v mod b])"

declare num_digits.simps [simp del]

definition num_text :: "nat \<Rightarrow> bool \<Rightarrow> nat \<Rightarrow> u8 list" where
  "num_text b upper v = map (nth (if upper then upper_digits else lower_digits)) (num_digits b v)"

definition padded :: "u8 \<Rightarrow> bool \<Rightarrow> nat \<Rightarrow> u8 list \<Rightarrow> u8 list" where
  "padded pad neg width txt =
     (let sign = (if neg then [0x2D] else []); fill = width - (length txt + length sign)
      in if pad = 0x20 then replicate fill 0x20 @ sign @ txt else sign @ replicate fill 0x30 @ txt)"

text \<open>One conversion; \<open>str p\<close> is the string at \<open>p\<close>, if there is one.\<close>

definition conv_text :: "(ptr \<Rightarrow> u8 list option) \<Rightarrow> u8 \<Rightarrow> nat \<Rightarrow> u8 \<Rightarrow> u32 list \<Rightarrow> (u8 list \<times> u32 list) option" where
  "conv_text str c width pad ap =
     (if c = 0x25 then Some ([0x25], ap)
      else if c \<notin> {0x63, 0x73, 0x64, 0x69, 0x75, 0x78, 0x58, 0x70} then Some ([0x25, c], ap)
      else case ap of [] \<Rightarrow> None | v # ap \<Rightarrow> map_option (\<lambda>txt. (txt, ap))
        (if c = 0x63 then Some [ucast v]
         else if c = 0x73 then
           map_option (\<lambda>xs. let ys = (if v = 0 then null_text else xs) in replicate (width - length ys) 0x20 @ ys) (str v)
         else if c = 0x64 \<or> c = 0x69 then Some (padded pad (sint v < 0) width (num_text 10 False (nat \<bar>sint v\<bar>)))
         else if c = 0x75 then Some (padded pad False width (num_text 10 False (unat v)))
         else if c = 0x70 then Some ([0x30, 0x78] @ padded 0x30 False 8 (num_text 16 False (unat v)))
         else Some (padded pad False width (num_text 16 (c = 0x58) (unat v)))))"

definition is_digit :: "u8 \<Rightarrow> bool" where
  "is_digit c \<longleftrightarrow> c \<ge> 0x30 \<and> c \<le> 0x39"

definition width_of :: "u32 \<Rightarrow> u8 list \<Rightarrow> u32" where
  "width_of w ds = foldl (\<lambda>w d. w * 10 + ucast (d - 0x30)) w ds"

text \<open>The flag and the width of a conversion: the padding character, the width, the rest.\<close>

definition spec_of :: "u8 list \<Rightarrow> u8 \<times> u32 \<times> u8 list" where
  "spec_of cs =
     (let (pad, ds) = (case cs of [] \<Rightarrow> (0x20, []) | c # ds \<Rightarrow> if c = 0x30 then (0x30, ds) else (0x20, cs))
      in (pad, width_of 0 (takeWhile is_digit ds), dropWhile is_digit ds))"

lemma spec_of_shorter: "spec_of cs = (pad, w, rest) \<Longrightarrow> length rest \<le> length cs"
  using length_dropWhile_le [of is_digit cs] length_dropWhile_le [of is_digit "tl cs"]
  by (auto simp: spec_of_def split: list.splits if_splits)

function render :: "(ptr \<Rightarrow> u8 list option) \<Rightarrow> u8 list \<Rightarrow> u32 list \<Rightarrow> u8 list option" where
  "render str [] ap = Some []"
| "render str (c # cs) ap =
     (if c \<noteq> 0x25 then map_option (Cons c) (render str cs ap)
      else case spec_of cs of
        (pad, width, []) \<Rightarrow> Some [0x25]
      | (pad, width, d # rest) \<Rightarrow> (case conv_text str d (unat width) pad ap of
            None \<Rightarrow> None
          | Some (txt, ap) \<Rightarrow> map_option (append txt) (render str rest ap)))"
  by pat_completeness auto
termination
  by (relation "measure (\<lambda>(str, cs, ap). length cs)") (auto dest!: sym [THEN spec_of_shorter])

section \<open>Writing to the buffer\<close>

text \<open>The state of the output when the characters \<open>ws\<close> have been emitted.\<close>

definition holds :: "u8 list \<Rightarrow> u32 \<Rightarrow> u8 list \<Rightarrow> out_t \<Rightarrow> bool" where
  "holds buf cap ws out \<longleftrightarrow> out_cap out = cap \<and> out_len out = of_nat (length ws) \<and>
     out_buf out = take (unat cap - 1) ws @ drop (min (length ws) (unat cap - 1)) buf"

definition writes :: "(out_t \<Rightarrow> out_t option) \<Rightarrow> u8 list \<Rightarrow> bool" where
  "writes f txt \<longleftrightarrow> (\<forall>buf cap ws out. unat cap \<le> length buf \<longrightarrow> length (ws @ txt) < 2 ^ 31 \<longrightarrow>
     holds buf cap ws out \<longrightarrow> (\<exists>out'. f out = Some out' \<and> holds buf cap (ws @ txt) out'))"

lemma writesD:
  "writes f txt \<Longrightarrow> unat cap \<le> length buf \<Longrightarrow> length (ws @ txt) < 2 ^ 31 \<Longrightarrow> holds buf cap ws out \<Longrightarrow>
   \<exists>out'. f out = Some out' \<and> holds buf cap (ws @ txt) out'"
  unfolding writes_def by blast

lemma unat_len: "n < 2 ^ 31 \<Longrightarrow> unat (of_nat n :: u32) = n"
  by (simp add: unat_of_nat)

lemma writes_emit: "writes (\<lambda>out. emit out c) [c]"
  unfolding writes_def
proof (intro allI impI)
  fix buf cap ws out
  assume cap: "unat cap \<le> length buf" and len: "length (ws @ [c]) < 2 ^ 31" and h: "holds buf cap ws out"
  have n: "unat (out_len out) = length ws" "out_cap out = cap" using h len by (simp_all add: holds_def unat_len)
  have pred: "unat (cap - 1) = unat cap - 1" if "cap \<noteq> 0" using that by (rule unat_minus_one)
  show "\<exists>out'. emit out c = Some out' \<and> holds buf cap (ws @ [c]) out'"
  proof (cases "cap \<noteq> 0 \<and> out_len out < cap - 1")
    case True
    then have lt: "length ws < unat cap - 1" using n pred by (simp add: word_less_nat_alt)
    then have "poke (out_buf out) (length ws) c = Some ((out_buf out)[length ws := c])"
      using h cap by (simp add: holds_def)
    moreover have "(out_buf out)[length ws := c] = take (unat cap - 1) (ws @ [c]) @ drop (Suc (length ws)) buf"
    proof -
      have "drop (length ws) buf = buf ! length ws # drop (Suc (length ws)) buf"
        using lt cap by (intro Cons_nth_drop_Suc [symmetric]) simp
      with h lt show ?thesis by (simp add: holds_def list_update_append)
    qed
    ultimately show ?thesis using True n lt h by (auto simp: emit_def holds_def)
  next
    case False
    then have "unat cap - 1 \<le> length ws" using n pred by (cases "cap = 0") (auto simp: word_less_nat_alt)
    with False n h show ?thesis by (auto simp: emit_def holds_def)
  qed
qed

lemma writes_Some: "writes Some []"
  by (simp add: writes_def)

lemma writes_bind:
  assumes "writes f xs" "writes g ys"
  shows "writes (\<lambda>out. Option.bind (f out) g) (xs @ ys)"
  unfolding writes_def
proof (intro allI impI)
  fix buf cap ws out
  assume *: "unat cap \<le> length buf" "length (ws @ xs @ ys) < 2 ^ 31" "holds buf cap ws out"
  then obtain out1 where "f out = Some out1" "holds buf cap (ws @ xs) out1"
    using writesD [OF assms(1), of cap buf ws out] by auto
  with * show "\<exists>out'. Option.bind (f out) g = Some out' \<and> holds buf cap (ws @ xs @ ys) out'"
    using writesD [OF assms(2), of cap buf "ws @ xs" out1] by auto
qed

lemma writes_cong: "writes f xs \<Longrightarrow> (\<And>out. g out = f out) \<Longrightarrow> xs = ys \<Longrightarrow> writes g ys"
  by (metis ext)

lemma writes_Cons: "writes g ys \<Longrightarrow> writes (\<lambda>out. Option.bind (emit out c) g) (c # ys)"
  using writes_bind [OF writes_emit] by fastforce

lemma writes_if: "writes (\<lambda>out. if b then emit out c else Some out) (if b then [c] else [])"
  by (simp add: writes_emit writes_Some)

section \<open>Numbers\<close>

lemma length_num_digits: "2 \<le> b \<Longrightarrow> v < b ^ Suc k \<Longrightarrow> length (num_digits b v) \<le> Suc k"
proof (induction k arbitrary: v)
  case (Suc k)
  have "v div b < b ^ Suc k" using Suc.prems by (simp add: less_mult_imp_div_less mult.commute)
  with Suc show ?case by (subst num_digits.simps) auto
qed (simp add: num_digits.simps)

lemma num_digits_less: "2 \<le> b \<Longrightarrow> d \<in> set (num_digits b v) \<Longrightarrow> d < b"
proof (induction v rule: less_induct)
  case (less v)
  show ?case
  proof (cases "v < b")
    case False
    then have "v div b < v" using less.prems(1) by (intro div_less_dividend) auto
    from less.IH [OF this less.prems(1)] less.prems False show ?thesis
      by (auto simp: num_digits.simps [of b v])
  qed (use less.prems in \<open>simp add: num_digits.simps\<close>)
qed

lemma num_digits_value: "2 \<le> b \<Longrightarrow> foldl (\<lambda>a d. a * b + d) 0 (num_digits b v) = v"
proof (induction v rule: less_induct)
  case (less v)
  show ?case
  proof (cases "v < b")
    case False
    then have "v div b < v" using less.prems(1) by (intro div_less_dividend) auto
    with less False show ?thesis by (subst num_digits.simps) simp
  qed (simp add: num_digits.simps)
qed

lemma num_text_not_Nil: "num_text b upper v \<noteq> []"
  by (simp add: num_text_def num_digits.simps [of b v])

lemma length_num_text: "b = 10 \<or> b = 16 \<Longrightarrow> length (num_text b upper (unat (v :: u32))) \<le> 10"
  using length_num_digits [of 10 "unat v" 9] length_num_digits [of 16 "unat v" 9] unat_lt2p [of v]
  by (auto simp: num_text_def)

lemma digits_loop_text:
  fixes v base :: u32
  assumes b: "2 \<le> unat base" "unat base \<le> 16" and ds: "ds = (if upper then upper_digits else lower_digits)"
  shows "unat n + length (num_text (unat base) upper (unat v)) \<le> length tmp \<Longrightarrow> length tmp < 2 ^ 31 \<Longrightarrow>
   \<exists>tmp' n'. digits_loop ds base tmp n v = Some (tmp', n') \<and>
     unat n' = unat n + length (num_text (unat base) upper (unat v)) \<and> length tmp' = length tmp \<and>
     take (unat n') tmp' = take (unat n) tmp @ rev (num_text (unat base) upper (unat v))"
proof (induction "unat v" arbitrary: v n tmp rule: less_induct)
  case less
  let ?b = "unat base" and ?d = "ds ! (unat v mod unat base)"
  let ?tmp = "tmp[unat n := ?d]"
  have "length ds = 16" by (simp add: ds upper_digits_def lower_digits_def)
  moreover have "unat v mod ?b < 16" using b by (meson less_le_trans mod_less_divisor zero_less_numeral order.strict_trans2)
  ultimately have fet: "fetch ds (unat (v mod base)) = Some ?d" by (simp add: unat_mod_distrib)
  have n: "unat n < length tmp" using less.prems(1) num_text_not_Nil [of ?b upper "unat v"]
    by (cases "num_text ?b upper (unat v)") auto
  have n1: "unat (n + 1) = Suc (unat n)"
  proof -
    have "unat n + 1 < 2 ^ 32" using n less.prems(2) by simp
    then show ?thesis by (simp add: unat_word_ariths)
  qed
  have tk: "take (Suc (unat n)) ?tmp = take (unat n) tmp @ [?d]" using n by (simp add: take_Suc_conv_app_nth)
  have unf: "digits_loop ds base tmp n v =
      (if v div base \<noteq> 0 then digits_loop ds base ?tmp (n + 1) (v div base) else Some (?tmp, n + 1))"
    by (subst digits_loop.simps) (simp add: fet n)
  have z: "v div base = 0 \<longleftrightarrow> unat v < ?b"
    using b by (simp add: word_unat_eq_iff unat_div_distrib div_eq_0_iff)
  show ?case
  proof (cases "v div base = 0")
    case True
    then have "num_text ?b upper (unat v) = [?d]"
      using z b by (simp add: num_text_def num_digits.simps ds)
    with True unf n1 tk show ?thesis by simp
  next
    case False
    have tx: "num_text ?b upper (unat v) = num_text ?b upper (unat (v div base)) @ [?d]"
      using False z b by (simp add: num_text_def num_digits.simps [of ?b "unat v"] unat_div_distrib ds)
    have "unat (v div base) < unat v"
      using False z b unfolding unat_div_distrib by (intro div_less_dividend) auto
    from less.hyps [OF this, of "n + 1" ?tmp] obtain tmp' n' where
      "digits_loop ds base ?tmp (n + 1) (v div base) = Some (tmp', n')"
      "unat n' = Suc (unat n) + length (num_text ?b upper (unat (v div base)))" "length tmp' = length tmp"
      "take (unat n') tmp' = take (Suc (unat n)) ?tmp @ rev (num_text ?b upper (unat (v div base)))"
      using less.prems tx n1 by auto
    with False unf tk tx show ?thesis by simp
  qed
qed

lemma digits_out_writes: "unat n \<le> length tmp \<Longrightarrow> writes (digits_out tmp n) (rev (take (unat n) tmp))"
proof (induction "unat n" arbitrary: n)
  case 0
  then have "n = 0" by (simp add: unat_eq_zero)
  then show ?case by (intro writes_cong [OF writes_Some]) (simp_all add: digits_out.simps)
next
  case (Suc k)
  then have k: "n \<noteq> 0" "unat (n - 1) = k" "unat n = Suc k" using unat_Suc_pred [of n k] by auto
  with Suc.hyps(1) [of "n - 1"] Suc.hyps(2) Suc.prems have "writes (digits_out tmp (n - 1)) (rev (take k tmp))" by simp
  from writes_Cons [OF this, of "tmp ! k"] show ?case
  proof (rule writes_cong)
    show "digits_out tmp n out = Option.bind (emit out (tmp ! k)) (digits_out tmp (n - 1))" for out
      using k Suc.prems by (simp add: digits_out.simps [of tmp n])
    show "tmp ! k # rev (take k tmp) = rev (take (unat n) tmp)"
      using Suc.prems k(3) by (simp add: take_Suc_conv_app_nth)
  qed
qed

lemma pad_loop_writes: "writes (pad_loop c width i) (replicate (unat width - unat i) c)"
proof (induction "unat width - unat i" arbitrary: i)
  case 0
  then have "\<not> i < width" by (simp add: word_less_nat_alt)
  with 0 show ?case by (intro writes_cong [OF writes_Some]) (simp_all add: pad_loop.simps)
next
  case (Suc k)
  then have lt: "i < width" by (simp add: word_less_nat_alt)
  with Suc have "unat width - unat (i + 1) = k" using unat_next [OF lt] by simp
  with Suc have "writes (pad_loop c width (i + 1)) (replicate k c)" by metis
  from writes_Cons [OF this, of c] show ?case
    by (rule writes_cong) (use lt Suc in \<open>simp_all add: pad_loop.simps [of c width i] flip: Suc.hyps(2)\<close>)
qed

lemma unat_plus_sign:
  "unat (n :: u32) \<le> 10 \<Longrightarrow> unat (n + (if neg then 1 else 0)) = unat n + length (if neg then [0x2D :: u8] else [])"
  by (simp add: unat_word_ariths)

lemma emit_number_writes:
  assumes b: "base = 10 \<or> base = 16" and tmp: "length tmp = 10"
  shows "writes (\<lambda>out. emit_number tmp out v neg base upper width pad)
     (padded pad neg (unat width) (num_text (unat base) upper (unat v)))"
proof -
  let ?ds = "if upper then upper_digits else lower_digits" and ?txt = "num_text (unat base) upper (unat v)"
  have len: "length ?txt \<le> 10" using b by (intro length_num_text) auto
  have "2 \<le> unat base" "unat base \<le> 16" using b by auto
  from digits_loop_text [OF this refl, of 0 upper v tmp] len tmp obtain tmp' n where
    dig: "digits_loop ?ds base tmp 0 v = Some (tmp', n)" "unat n = length ?txt" "length tmp' = 10"
      "take (unat n) tmp' = rev ?txt" by (auto simp del: unat_eq_zero)
  then have out: "writes (digits_out tmp' n) ?txt" using digits_out_writes [of n tmp'] len by simp
  let ?sign = "if neg then [0x2D] else [] :: u8 list" and ?total = "n + (if neg then 1 else 0)"
  have pd: "writes (pad_loop c width ?total) (replicate (unat width - (length ?txt + length ?sign)) c)" for c
    using pad_loop_writes [of c width ?total] unat_plus_sign [of n neg] dig(2) len by simp
  have sg: "writes (\<lambda>out. if neg then emit out 0x2D else Some out) ?sign" by (rule writes_if)
  show ?thesis
  proof (cases "pad = 0x20")
    case True
    from writes_bind [OF pd [of "0x20"] writes_bind [OF sg out]] show ?thesis
      by (rule writes_cong) (simp_all add: emit_number_def Let_def dig True padded_def)
  next
    case False
    from writes_bind [OF sg writes_bind [OF pd [of "0x30"] out]] show ?thesis
      by (rule writes_cong) (simp_all add: emit_number_def Let_def dig False padded_def)
  qed
qed

section \<open>Strings and conversions\<close>

lemma emit_all_writes: "writes (emit_all cs) cs"
proof (induction cs)
  case (Cons c cs)
  from writes_Cons [OF this, of c] show ?case by (rule writes_cong) simp_all
qed (use writes_Some in \<open>simp add: writes_def\<close>)

lemma emit_string_writes: "is_string m p xs \<Longrightarrow> writes (emit_string m p) xs"
proof (induction xs arbitrary: p)
  case Nil
  then show ?case
    by (intro writes_cong [OF writes_Some]) (simp_all add: is_string_simps emit_string.simps [of m p])
next
  case (Cons x xs)
  then have "writes (emit_string m (p + 1)) xs" by (simp add: is_string_simps)
  from writes_Cons [OF this, of x] show ?case
    by (rule writes_cong) (use Cons.prems in \<open>auto simp: is_string_simps emit_string.simps [of m p]\<close>)
qed

lemma str_pad_loop_writes: "writes (str_pad_loop n) (replicate (nat n) 0x20)"
proof (induction "nat n" arbitrary: n)
  case 0
  then show ?case by (intro writes_cong [OF writes_Some]) (simp_all add: str_pad_loop.simps)
next
  case (Suc k)
  then have n: "n > 0" "k = nat (n - 1)" "nat n = Suc k" by auto
  from writes_Cons [OF Suc.hyps(1) [OF n(2)]] show ?case
    by (rule writes_cong) (use n in \<open>simp_all add: str_pad_loop.simps [of n]\<close>)
qed

text \<open>The padding computed as a signed difference is right while everything is shorter than \<open>2\<^sup>31\<close>.\<close>

lemma nat_sint_diff:
  assumes "n < 2 ^ 31" "unat width < 2 ^ 31"
  shows "nat (sint (width - of_nat n :: u32)) = unat width - n"
proof (cases "n \<le> unat width")
  case True
  have n: "unat (of_nat n :: u32) = n" using assms(1) by (rule unat_len)
  with True have "of_nat n \<le> width" by (simp add: word_le_nat_alt)
  then have u: "unat (width - of_nat n) = unat width - n" using n by (simp add: unat_sub)
  with assms(2) show ?thesis by (simp add: sint_unat)
next
  case False
  have n: "unat (of_nat n :: u32) = n" using assms(1) by (rule unat_len)
  with False have "width < of_nat n" by (simp add: word_less_nat_alt)
  then have "unat (width - of_nat n) = 2 ^ 32 + unat width - n"
    using n assms False by (simp add: unat_sub_if')
  moreover define x where "x = unat (width - of_nat n)"
  ultimately have "2 ^ 31 \<le> x" "x < 2 ^ 32" using assms False by simp_all
  then show ?thesis using False unfolding sint_unat x_def [symmetric] by simp
qed

lemma unat_abs: "unat (if sint v < 0 then 0 - v else v) = nat \<bar>sint (v :: u32)\<bar>"
proof -
  obtain x where x: "unat v = x" by blast
  have z: "v = 0 \<longleftrightarrow> x = 0" by (simp add: x [symmetric] unat_eq_zero)
  moreover have "unat (0 - v) = 2 ^ 32 - x" if "v \<noteq> 0"
    using that z unat_sub_if' [of 0 v] by (simp add: x)
  ultimately show ?thesis using unat_lt2p [of v] unfolding sint_unat x by (auto simp: x)
qed

text \<open>A conversion takes its arguments and writes its text.\<close>

lemma bind_Pair: "Option.bind x (\<lambda>y. Some (a, y)) = map_option (Pair a) x"
  by (cases x) auto

lemma convert_writes:
  assumes str: "\<And>p xs. str p = Some xs \<Longrightarrow> is_string m p xs" and tmp: "length tmp = 10"
    and conv: "conv_text str c (unat width) pad ap = Some (txt, ap')" and len: "length txt < 2 ^ 31"
  shows "\<exists>f. (\<forall>out. convert tmp m c width pad ap out = map_option (Pair ap') (f out)) \<and> writes f txt"
proof -
  have by_fun: ?thesis if "\<And>out. convert tmp m c width pad ap out = map_option (Pair ap') (f out)" "writes f txt" for f
    using that by blast
  note num = emit_number_writes [OF _ tmp]
  consider (lit) "c = 0x25" | (other) "c \<notin> {0x25, 0x63, 0x73, 0x64, 0x69, 0x75, 0x78, 0x58, 0x70}"
    | (ch) v where "c = 0x63" "ap = v # ap'" | (st) v where "c = 0x73" "ap = v # ap'"
    | (dec) v where "c = 0x64 \<or> c = 0x69" "ap = v # ap'" | (uns) v where "c = 0x75" "ap = v # ap'"
    | (hex) v where "c = 0x78 \<or> c = 0x58" "ap = v # ap'" | (po) v where "c = 0x70" "ap = v # ap'"
    using conv by (auto simp: conv_text_def split: if_splits list.splits)
  then show ?thesis
  proof cases
    case lit
    with conv show ?thesis
      by (intro by_fun [of "\<lambda>out. emit out 0x25"]) (auto simp: conv_text_def convert_def bind_Pair writes_emit)
  next
    case other
    with conv writes_Cons [OF writes_emit] show ?thesis
      by (intro by_fun [of "\<lambda>out. Option.bind (emit out 0x25) (\<lambda>out. emit out c)"])
        (auto simp: conv_text_def convert_def bind_Pair map_option_bind comp_def)
  next
    case (ch v)
    with conv show ?thesis
      by (intro by_fun [of "\<lambda>out. emit out (ucast v)"]) (auto simp: conv_text_def convert_def bind_Pair writes_emit)
  next
    case (dec v)
    with conv num [of 10 "if sint v < 0 then 0 - v else v" "sint v < 0" False width pad] show ?thesis
      by (intro by_fun [of "\<lambda>out. emit_number tmp out (if sint v < 0 then 0 - v else v) (sint v < 0) 10 False width pad"])
        (auto simp: conv_text_def convert_def bind_Pair unat_abs Let_def)
  next
    case (uns v)
    with conv num [of 10 v False False width pad] show ?thesis
      by (intro by_fun [of "\<lambda>out. emit_number tmp out v False 10 False width pad"])
        (auto simp: conv_text_def convert_def bind_Pair map_option_bind comp_def)
  next
    case (hex v)
    with conv num [of 16 v False "c = 0x58" width pad] show ?thesis
      by (intro by_fun [of "\<lambda>out. emit_number tmp out v False 16 (c = 0x58) width pad"])
        (auto simp: conv_text_def convert_def bind_Pair map_option_bind comp_def)
  next
    case (po v)
    from writes_Cons [OF writes_Cons [OF num [of 16 v False False 8 "0x30"]]] po conv show ?thesis
      by (intro by_fun [of "\<lambda>out. Option.bind (emit out 0x30) (\<lambda>out. Option.bind (emit out 0x78)
            (\<lambda>out. emit_number tmp out v False 16 False 8 0x30))"])
        (auto simp: conv_text_def convert_def bind_Pair map_option_bind comp_def)
  next
    case (st v)
    then obtain xs where xs: "str v = Some xs" using conv by (auto simp: conv_text_def)
    define ys where "ys = (if v = 0 then null_text else xs)"
    have tx: "txt = replicate (unat width - length ys) 0x20 @ ys"
      using conv st xs by (simp add: conv_text_def ys_def Let_def)
    have sl: "strlen m v = Some (int (length xs))" using strlen_loop_eq [OF str [OF xs], of 0] by (simp add: strlen_def)
    have ylen: "(if v = 0 then 6 else word_of_int (int (length xs))) = (of_nat (length ys) :: u32)"
      by (simp add: ys_def null_text_def)
    have "length ys < 2 ^ 31" "unat width < 2 ^ 31" using len tx by auto
    then have "nat (sint (width - of_nat (length ys))) = unat width - length ys" by (rule nat_sint_diff)
    then have "writes (str_pad_loop (sint (width - of_nat (length ys)))) (replicate (unat width - length ys) 0x20)"
      using str_pad_loop_writes [of "sint (width - of_nat (length ys))"] by simp
    moreover have "writes (\<lambda>out. if v = 0 then emit_all null_text out else emit_string m v out) ys"
      using emit_all_writes emit_string_writes [OF str [OF xs]] by (cases "v = 0") (simp_all add: ys_def)
    ultimately have "writes (\<lambda>out. Option.bind (str_pad_loop (sint (width - of_nat (length ys))) out)
        (\<lambda>out. if v = 0 then emit_all null_text out else emit_string m v out)) txt"
      unfolding tx by (rule writes_bind)
    then show ?thesis
      by (rule by_fun [rotated]) (use st in \<open>simp add: convert_def sl ylen bind_Pair map_option_bind comp_def Let_def\<close>)
  qed
qed

section \<open>Formats\<close>

lemma width_loop_string:
  "is_string m p cs \<Longrightarrow> \<exists>q. width_loop m p w = Some (width_of w (takeWhile is_digit cs), q) \<and>
     is_string m q (dropWhile is_digit cs)"
proof (induction cs arbitrary: p w)
  case Nil
  then show ?case by (simp add: is_string_simps width_loop.simps [of m p] width_of_def)
next
  case (Cons c cs)
  then have c: "m p = c" "is_string m (p + 1) cs" by (simp_all add: is_string_simps)
  show ?case
  proof (cases "is_digit c")
    case True
    with Cons.IH [OF c(2), of "w * 10 + ucast (c - 0x30)"] show ?thesis
      by (simp add: width_loop.simps [of m p] c is_digit_def width_of_def)
  next
    case False
    then have "\<not> (0x30 \<le> c \<and> c \<le> 0x39)" by (simp add: is_digit_def)
    then have "width_loop m p w = Some (w, p)" using c by (subst width_loop.simps) auto
    with False Cons.prems show ?thesis by (simp add: width_of_def)
  qed
qed

text \<open>What the loop does at a percent sign.\<close>

lemma format_loop_spec:
  assumes "is_string m fmt (0x25 # cs)" and spec: "spec_of cs = (pad, width, rest)"
  shows "\<exists>q. is_string m q rest \<and> (\<forall>out. format_loop tmp m fmt ap out =
     (if rest = [] then emit out 0x25
      else Option.bind (convert tmp m (hd rest) width pad ap out) (\<lambda>(ap, out). format_loop tmp m (q + 1) ap out)))"
proof -
  have m: "m fmt = 0x25" "is_string m (fmt + 1) cs" using assms(1) by (simp_all add: is_string_simps)
  define ds where "ds = (if cs \<noteq> [] \<and> hd cs = 0x30 then tl cs else cs)"
  define p where "p = (if cs \<noteq> [] \<and> hd cs = 0x30 then fmt + 1 + 1 else fmt + 1)"
  have zero: "m (fmt + 1) = 0x30 \<longleftrightarrow> cs \<noteq> [] \<and> hd cs = 0x30" using m(2) by (cases cs) (auto simp: is_string_simps)
  have "is_string m p ds" using m(2) by (cases cs) (auto simp: is_string_simps ds_def p_def simp del: one_add_one add_2_eq_Suc)
  from width_loop_string [OF this, of 0] obtain q where
    q: "width_loop m p 0 = Some (width_of 0 (takeWhile is_digit ds), q)" "is_string m q (dropWhile is_digit ds)" by blast
  have sp: "pad = (if cs \<noteq> [] \<and> hd cs = 0x30 then 0x30 else 0x20)" "width = width_of 0 (takeWhile is_digit ds)"
    "rest = dropWhile is_digit ds"
    using spec by (auto simp: spec_of_def ds_def split: list.splits if_splits)
  have unf: "format_loop tmp m fmt ap out = (if m q = 0 then emit out 0x25
      else Option.bind (convert tmp m (m q) width pad ap out) (\<lambda>(ap, out). format_loop tmp m (q + 1) ap out))" for out
    using q(1) sp(1,2) zero
    by (subst format_loop.simps) (auto simp: m(1) Let_def p_def split: if_splits)
  have "is_string m q rest" using q(2) sp(3) by simp
  moreover have "m q = 0 \<longleftrightarrow> rest = []" "rest \<noteq> [] \<Longrightarrow> m q = hd rest"
    using \<open>is_string m q rest\<close> by (cases rest; auto simp: is_string_simps)+
  ultimately show ?thesis using unf by (intro exI [of _ q]) auto
qed

lemma format_loop_writes:
  assumes str: "\<And>p xs. str p = Some xs \<Longrightarrow> is_string m p xs" and tmp: "length tmp = 10"
  shows "is_string m fmt fs \<Longrightarrow> render str fs ap = Some txt \<Longrightarrow> length txt < 2 ^ 31 \<Longrightarrow>
     writes (format_loop tmp m fmt ap) txt"
proof (induction "length fs" arbitrary: fs fmt ap "txt" rule: less_induct)
  case less
  show ?case
  proof (cases fs)
    case Nil
    with less.prems show ?thesis
      by (intro writes_cong [OF writes_Some]) (simp_all add: is_string_simps format_loop.simps [of tmp m fmt])
  next
    case fs: (Cons c cs)
    with less.prems have c: "m fmt = c" "c \<noteq> 0" "is_string m (fmt + 1) cs" by (simp_all add: is_string_simps)
    show ?thesis
    proof (cases "c = 0x25")
      case False
      with less.prems fs obtain txt1 where tx: "render str cs ap = Some txt1" "txt = c # txt1" by auto
      have "writes (format_loop tmp m (fmt + 1) ap) txt1"
        by (rule less.hyps [OF _ c(3) tx(1)]) (use fs tx less.prems in auto)
      from writes_Cons [OF this, of c] show ?thesis
        by (rule writes_cong) (simp_all add: format_loop.simps [of tmp m fmt] c False tx)
    next
      case True
      obtain pad width rest where sp: "spec_of cs = (pad, width, rest)" by (cases "spec_of cs") auto
      from format_loop_spec [OF _ sp, of m fmt tmp ap] less.prems fs True obtain q where
        q: "is_string m q rest" "\<And>out. format_loop tmp m fmt ap out = (if rest = [] then emit out 0x25
          else Option.bind (convert tmp m (hd rest) width pad ap out) (\<lambda>(ap, out). format_loop tmp m (q + 1) ap out))"
        by blast
      show ?thesis
      proof (cases rest)
        case Nil
        with less.prems(2) fs True sp have "txt = [0x25]" by simp
        with Nil q(2) writes_emit [of "0x25"] show ?thesis by (simp add: writes_def)
      next
        case (Cons d rest1)
        with less.prems(2) fs True sp obtain t1 ap1 t2 where
          tx: "conv_text str d (unat width) pad ap = Some (t1, ap1)" "render str rest1 ap1 = Some t2" "txt = t1 @ t2"
          by (auto split: option.splits)
        with convert_writes [OF str tmp tx(1)] less.prems(3) obtain f where
          f: "\<And>out. convert tmp m d width pad ap out = map_option (Pair ap1) (f out)" "writes f t1" by auto
        have "writes (format_loop tmp m (q + 1) ap1) t2"
          by (rule less.hyps [OF _ _ tx(2)])
            (use Cons fs q(1) spec_of_shorter [OF sp] less.prems(3) tx(3) in \<open>auto simp: is_string_simps\<close>)
        from writes_bind [OF f(2) this] show ?thesis
          by (rule writes_cong) (simp_all add: q(2) Cons f(1) tx(3) bind_map_option comp_def)
      qed
    qed
  qed
qed

section \<open>What printing does\<close>

lemma kvsnprintf_renders:
  assumes "is_string m fmt fs" and "\<And>p xs. str p = Some xs \<Longrightarrow> is_string m p xs"
    and "render str fs ap = Some txt" and len: "length txt < 2 ^ 31"
    and cap: "unat cap \<le> length buf" and "length tmp = 10"
  shows "kvsnprintf tmp m buf cap fmt ap = Some (int (length txt),
     if cap = 0 then buf else take (unat cap - 1) txt @ 0 # drop (Suc (min (length txt) (unat cap - 1))) buf)"
proof -
  have "holds buf cap [] \<lparr>out_buf = buf, out_cap = cap, out_len = 0\<rparr>" by (simp add: holds_def)
  from writesD [OF format_loop_writes [OF assms(2,6,1,3) len] cap _ this] len obtain out where
    out: "format_loop tmp m fmt ap \<lparr>out_buf = buf, out_cap = cap, out_len = 0\<rparr> = Some out" "holds buf cap txt out"
    by auto
  then have n: "unat (out_len out) = length txt" using len by (simp add: holds_def unat_len)
  then have ret: "sint (out_len out) = int (length txt)" using len by (simp add: sint_unat)
  show ?thesis
  proof (cases "cap = 0")
    case True
    with out ret show ?thesis by (simp add: kvsnprintf_def holds_def)
  next
    case False
    let ?k = "min (length txt) (unat cap - 1)"
    have "unat cap \<noteq> 0" using False by (simp add: unat_eq_zero)
    then have k: "unat (if out_len out < cap then out_len out else cap - 1) = ?k"
      using n unat_minus_one [OF False] by (auto simp: word_less_nat_alt min_def)
    have lt: "?k < length buf" using cap \<open>unat cap \<noteq> 0\<close> by linarith
    have drp: "drop ?k buf = buf ! ?k # drop (Suc ?k) buf" using lt by (simp only: Cons_nth_drop_Suc)
    have buf: "out_buf out = take (unat cap - 1) txt @ drop ?k buf" using out(2) by (simp add: holds_def)
    have "poke (out_buf out) ?k 0 = Some (take (unat cap - 1) txt @ 0 # drop (Suc ?k) buf)"
    proof -
      have "length (take (unat cap - 1) txt) = ?k" by (simp add: min.commute)
      with lt show ?thesis unfolding buf drp by (simp add: list_update_append)
    qed
    with out(1) k ret False show ?thesis by (simp add: kvsnprintf_def)
  qed
qed

text \<open>C26: Formatting follows the reference: if the format and its arguments stand for a text, the
  function returns, with the length of that text; the buffer then holds the text, cut off to one less
  than the capacity, and a terminator, and what lies behind is untouched. No access is outside the
  buffer, and ten characters suffice for the digits of every number.\<close>

theorem kvsnprintf_spec:
  assumes "is_string m fmt fs" and "\<And>p xs. str p = Some xs \<Longrightarrow> is_string m p xs"
    and "render str fs ap = Some txt" and len: "length txt < 2 ^ 31"
    and cap: "unat cap \<le> length buf" and "length tmp = 10"
  shows "kvsnprintf tmp m buf cap fmt ap = Some (int (length txt),
     if cap = 0 then buf else take (unat cap - 1) txt @ 0 # drop (Suc (min (length txt) (unat cap - 1))) buf)"
  by (rule kvsnprintf_renders [OF assms])

text \<open>An example: the format \<open>n=%3u\<close> and a buffer of eight bytes.\<close>

definition ex_fmt :: mem where
  "ex_fmt = store_bytes 0x08004000 [0x6E, 0x3D, 0x25, 0x33, 0x75] (\<lambda>_. 0)"

lemma ex_fmt_string: "is_string ex_fmt 0x08004000 [0x6E, 0x3D, 0x25, 0x33, 0x75]"
  by (simp add: is_string_simps ex_fmt_def)

lemma ex_fmt_render:
  "render (\<lambda>_. None) [0x6E, 0x3D, 0x25, 0x33, 0x75] [42] = Some [0x6E, 0x3D, 0x20, 0x34, 0x32]"
  by code_simp

theorem kvsnprintf_spec_witness:
  "kvsnprintf (replicate 10 0) ex_fmt (replicate 8 0xFF) 5 0x08004000 [42] =
     Some (5, [0x6E, 0x3D, 0x20, 0x34, 0, 0xFF, 0xFF, 0xFF])"
proof -
  have r8: "replicate 8 (0xFF :: u8) = [0xFF, 0xFF, 0xFF, 0xFF, 0xFF, 0xFF, 0xFF, 0xFF]" by code_simp
  show ?thesis
    using kvsnprintf_spec [OF ex_fmt_string, of "\<lambda>_. None" "[42]" _ 5 "replicate 8 0xFF" "replicate 10 0"]
      ex_fmt_render by (simp add: r8)
qed

text \<open>Reading a numeral back.\<close>

definition digit_value :: "u8 \<Rightarrow> nat" where
  "digit_value c = (if c \<le> 0x39 then unat c - 0x30 else if c < 0x61 then unat c - 0x37 else unat c - 0x57)"

definition numeral_value :: "nat \<Rightarrow> u8 list \<Rightarrow> nat" where
  "numeral_value b ds = foldl (\<lambda>a c. a * b + digit_value c) 0 ds"

lemma digit_value_nth: "d < 16 \<Longrightarrow> digit_value ((if upper then upper_digits else lower_digits) ! d) = d"
proof -
  assume "d < 16"
  then have "d \<in> set [0..<16]" by simp
  moreover have "\<forall>d\<in>set [0..<16]. \<forall>upper\<in>{False, True}.
      digit_value ((if upper then upper_digits else lower_digits) ! d) = d" by code_simp
  ultimately show ?thesis by blast
qed

lemma num_text_value: "2 \<le> b \<Longrightarrow> b \<le> 16 \<Longrightarrow> numeral_value b (num_text b upper v) = v"
proof -
  assume b: "2 \<le> b" "b \<le> 16"
  have "foldl (\<lambda>a c. a * b + digit_value c) x (map (nth (if upper then upper_digits else lower_digits)) ds) =
      foldl (\<lambda>a d. a * b + d) x ds" if "\<forall>d\<in>set ds. d < b" for x ds
    using that b by (induction ds arbitrary: x) (auto simp: digit_value_nth)
  with num_digits_less [OF b(1)] num_digits_value [OF b(1)] show ?thesis
    unfolding numeral_value_def num_text_def by metis
qed

lemma padded_split:
  "\<exists>pre. padded pad neg width ds = pre @ ds \<and> set pre \<subseteq> {0x20, 0x2D, 0x30} \<and> (0x2D \<in> set pre \<longleftrightarrow> neg) \<and>
     length (padded pad neg width ds) = max width (length ds + length (if neg then [0x2D :: u8] else []))"
proof -
  let ?sign = "if neg then [0x2D] else [] :: u8 list"
  let ?fill = "width - (length ds + length ?sign)"
  let ?pre = "if pad = 0x20 then replicate ?fill 0x20 @ ?sign else ?sign @ replicate ?fill 0x30"
  have "padded pad neg width ds = ?pre @ ds" by (simp add: padded_def)
  then show ?thesis by (intro exI [of _ ?pre]) (auto simp: set_replicate_conv_if split: if_splits)
qed

text \<open>What is printed for a number can be read back: behind blanks or zeros that fill the field, and
  the sign, there is a numeral of the base with the value of the number, and the field is as wide as
  asked for.\<close>

theorem emit_number_roundtrip:
  assumes b: "base = 10 \<or> base = 16" and tmp: "length tmp = 10"
    and cap: "unat width < unat cap" "11 < unat cap" "unat cap \<le> length buf" "unat cap < 2 ^ 31"
  shows "\<exists>out pre ds. emit_number tmp \<lparr>out_buf = buf, out_cap = cap, out_len = 0\<rparr> v neg base upper width pad = Some out \<and>
     take (unat (out_len out)) (out_buf out) = pre @ ds \<and> set pre \<subseteq> {0x20, 0x2D, 0x30} \<and> (0x2D \<in> set pre \<longleftrightarrow> neg) \<and>
     numeral_value (unat base) ds = unat v \<and> unat width \<le> length (pre @ ds)"
proof -
  let ?ds = "num_text (unat base) upper (unat v)"
  let ?txt = "padded pad neg (unat width) ?ds"
  obtain pre where pre: "?txt = pre @ ?ds" "set pre \<subseteq> {0x20, 0x2D, 0x30}" "0x2D \<in> set pre \<longleftrightarrow> neg"
    "length ?txt = max (unat width) (length ?ds + length (if neg then [0x2D :: u8] else []))"
    using padded_split [of pad neg "unat width" ?ds] by blast
  have lds: "length ?ds \<le> 10" using b by (intro length_num_text) auto
  have len: "length ?txt \<le> unat cap - 1" using pre(4) lds cap by (cases neg) auto
  have small: "length ([] @ ?txt) < 2 ^ 31" using len cap(2,4) by simp
  have "holds buf cap [] \<lparr>out_buf = buf, out_cap = cap, out_len = 0\<rparr>" by (simp add: holds_def)
  from writesD [OF emit_number_writes [OF b tmp, of v neg upper width pad] cap(3) small this] obtain out where
    out: "emit_number tmp \<lparr>out_buf = buf, out_cap = cap, out_len = 0\<rparr> v neg base upper width pad = Some out"
      "holds buf cap ?txt out" by auto
  have "unat (out_len out) = length ?txt" using out(2) small by (simp add: holds_def unat_len)
  then have "take (unat (out_len out)) (out_buf out) = ?txt" using out(2) len by (simp add: holds_def)
  moreover have "numeral_value (unat base) ?ds = unat v" using b by (intro num_text_value) auto
  ultimately show ?thesis using out(1) pre by (intro exI [of _ out] exI [of _ pre] exI [of _ ?ds]) simp
qed

theorem emit_number_roundtrip_witness:
  "\<exists>out pre ds. emit_number (replicate 10 0) \<lparr>out_buf = replicate 16 0, out_cap = 16, out_len = 0\<rparr>
       0xFFFFFFFF True 10 False 12 0x30 = Some out \<and>
     take (unat (out_len out)) (out_buf out) = pre @ ds \<and> 0x2D \<in> set pre \<and>
     numeral_value 10 ds = 4294967295 \<and> 12 \<le> length (pre @ ds)"
  using emit_number_roundtrip [of 10 "replicate 10 0" 12 16 "replicate 16 0" "0xFFFFFFFF" True False "0x30"] by auto

text \<open>What reaches the console is the text, cut off to 255 characters.\<close>

lemma kprintf_output:
  assumes "is_string (umem s) fmt fs" and "\<And>p xs. str p = Some xs \<Longrightarrow> is_string (umem s) p xs"
    and "render str fs ap = Some txt" and len: "length txt < 2 ^ 31"
    and "length stack = KPRINTF_BUF_SIZE" and "length tmp = 10"
  shows "kprintf D tmp stack fmt ap s =
     map_option (Pair (int (length txt))) (console_write D (take 255 txt) (sinks s) s)"
proof -
  let ?buf = "take 255 txt @ 0 # drop (Suc (min (length txt) 255)) stack"
  have k: "kvsnprintf tmp (umem s) stack (of_nat KPRINTF_BUF_SIZE) fmt ap = Some (int (length txt), ?buf)"
    using kvsnprintf_renders [OF assms(1-4), of "of_nat KPRINTF_BUF_SIZE" stack tmp] assms(5,6)
    by (simp add: KPRINTF_BUF_SIZE_def)
  have "unat (clamp_len (int (length txt)) 256) = min (length txt) 255"
    using len by (simp add: clamp_len_def unat_len word_le_nat_alt min_def)
  then have "take (unat (clamp_len (int (length txt)) 256)) ?buf = take 255 txt" by (simp add: min_def)
  with k show ?thesis by (simp add: kprintf_def KPRINTF_BUF_SIZE_def bind_Pair)
qed

end
