(* ===== verification/Periph.thy ===== *)
theory Periph
  imports Machine
begin

unbundle bit_operations_syntax

text \<open>
  Register level code: the macros for GPIO pins, interrupts and priorities (\<^verbatim>\<open>include/kernel/gpio.h\<close>,
  \<^verbatim>\<open>nvic.h\<close>, \<^verbatim>\<open>scb.h\<close>), the clock and the system timer (\<^verbatim>\<open>source/kernel/clock.c\<close>, \<^verbatim>\<open>systick.c\<close>) and the
  memory protection unit (\<^verbatim>\<open>source/kernel/mpu.c\<close>). What the code relies on of the hardware is stated in
  the locales \<open>plain_register\<close>, a register that reads back what was written, and \<open>mpu_hw\<close>, the
  protection unit of the ARMv7-M architecture; both are interpreted on executable models of it.
\<close>

section \<open>GPIO\<close>

definition GPIOA :: ptr where "GPIOA = 0x40020000"
definition RCC :: ptr where "RCC = 0x40023800"
definition NVIC :: ptr where "NVIC = 0xE000E100"
definition SCB :: ptr where "SCB = 0xE000ED00"
definition STK :: ptr where "STK = 0xE000E010"
definition FLASH_ACR :: ptr where "FLASH_ACR = 0x40023C00"
definition MPU :: ptr where "MPU = 0xE000ED90"

text \<open>Two assignments that every macro makes: clearing the bits of a field and setting new ones.\<close>

definition set_field :: "'d platform \<Rightarrow> ptr \<Rightarrow> u32 \<Rightarrow> u32 \<Rightarrow> nat \<Rightarrow> 'd machine \<Rightarrow> 'd machine" where
  "set_field P r msk v pos s = reg_or P r (push_bit pos v) (reg_and P r (NOT (push_bit pos msk)) s)"

lemma set_field_frame [simp]:
  "kern (set_field P r msk v pos s) = kern s" "umem (set_field P r msk v pos s) = umem s"
  "sockets (set_field P r msk v pos s) = sockets s" "spi_state (set_field P r msk v pos s) = spi_state s"
  "dev_step s (set_field P r msk v pos s)"
  unfolding set_field_def by (simp_all, meson dev_step_trans reg_dev_step)

definition SET_GPIO_MODE :: "'d platform \<Rightarrow> ptr \<Rightarrow> u32 \<Rightarrow> nat \<Rightarrow> 'd machine \<Rightarrow> 'd machine" where
  "SET_GPIO_MODE P gpio func pin = set_field P gpio 0b11 func (2 * pin)"

definition SET_GPIO_AF :: "'d platform \<Rightarrow> ptr \<Rightarrow> u32 \<Rightarrow> nat \<Rightarrow> 'd machine \<Rightarrow> 'd machine" where
  "SET_GPIO_AF P gpio func pin = set_field P (gpio + 0x20 + 4 * of_nat (pin div 8)) 0b1111 func (4 * (pin mod 8))"

definition SET_GPIO_OTYPER :: "'d platform \<Rightarrow> ptr \<Rightarrow> u32 \<Rightarrow> nat \<Rightarrow> 'd machine \<Rightarrow> 'd machine" where
  "SET_GPIO_OTYPER P gpio open_drain pin = set_field P (gpio + 4) 1 open_drain pin"

definition SET_GPIO_OSPEEDR :: "'d platform \<Rightarrow> ptr \<Rightarrow> u32 \<Rightarrow> nat \<Rightarrow> 'd machine \<Rightarrow> 'd machine" where
  "SET_GPIO_OSPEEDR P gpio speed pin = set_field P (gpio + 8) 0b11 speed (2 * pin)"

definition SET_GPIO_PUPDR :: "'d platform \<Rightarrow> ptr \<Rightarrow> u32 \<Rightarrow> nat \<Rightarrow> 'd machine \<Rightarrow> 'd machine" where
  "SET_GPIO_PUPDR P gpio pup pin = set_field P (gpio + 0xC) 0b11 pup (2 * pin)"

definition GPIO_PIN_HIGH :: "'d platform \<Rightarrow> ptr \<Rightarrow> nat \<Rightarrow> 'd machine \<Rightarrow> 'd machine" where
  "GPIO_PIN_HIGH P gpio pin = reg_write P (gpio + 0x18) (push_bit pin 1)"

definition GPIO_PIN_LOW :: "'d platform \<Rightarrow> ptr \<Rightarrow> nat \<Rightarrow> 'd machine \<Rightarrow> 'd machine" where
  "GPIO_PIN_LOW P gpio pin = reg_write P (gpio + 0x18) (push_bit (pin + 16) 1)"

definition GPIO_MODE_OUTPUT :: u32 where "GPIO_MODE_OUTPUT = 0b01"
definition GPIO_MODE_AF :: u32 where "GPIO_MODE_AF = 0b10"
definition GPIO_OSPEEDR_FAST :: u32 where "GPIO_OSPEEDR_FAST = 0b10"
definition GPIO_PUPDR_NOPP :: u32 where "GPIO_PUPDR_NOPP = 0b00"

lemmas gpio_defs = SET_GPIO_MODE_def SET_GPIO_AF_def SET_GPIO_OTYPER_def SET_GPIO_OSPEEDR_def SET_GPIO_PUPDR_def
  GPIO_PIN_HIGH_def GPIO_PIN_LOW_def

section \<open>Interrupts, clock and timer\<close>

definition NVIC_ENABLE_IRQ :: "'d platform \<Rightarrow> nat \<Rightarrow> 'd machine \<Rightarrow> 'd machine" where
  "NVIC_ENABLE_IRQ P irq = reg_or P (NVIC + 4 * of_nat (irq div 32)) (push_bit (irq mod 32) 1)"

definition SCB_SET_PRIORITY :: "'d platform \<Rightarrow> nat \<Rightarrow> nat \<Rightarrow> u32 \<Rightarrow> 'd machine \<Rightarrow> 'd machine" where
  "SCB_SET_PRIORITY P shpr pos priority = set_field P (SCB + 0x18 + 4 * of_nat (shpr - 1)) 0xFF priority pos"

text \<open>A loop that reads a register until some of its bits have a value; it may never end.\<close>

partial_function (option) wait_bits :: "'d platform \<Rightarrow> ptr \<Rightarrow> u32 \<Rightarrow> u32 \<Rightarrow> 'd machine \<Rightarrow> 'd machine option" where
  "wait_bits P r msk v s =
     (let (x, s) = reg_read P r s in if x AND msk \<noteq> v then wait_bits P r msk v s else Some s)"

declare wait_bits.simps [code]

definition clock_init :: "'d platform \<Rightarrow> 'd machine \<Rightarrow> 'd machine option" where
  "clock_init P s = do {
     let s = reg_write P FLASH_ACR (2 OR push_bit 9 1 OR push_bit 10 1 OR push_bit 8 1) s;
     let s = reg_or P RCC (push_bit 16 1) s;
     s \<leftarrow> wait_bits P RCC (push_bit 17 1) (push_bit 17 1) s;
     let s = reg_and P (RCC + 8) (NOT (push_bit 4 0xF OR push_bit 10 7 OR push_bit 13 7)) s;
     let s = reg_or P (RCC + 8) (push_bit 10 0b100) s;
     let s = reg_write P (RCC + 4) (push_bit 0 8 OR push_bit 6 84 OR push_bit 16 0 OR push_bit 24 4) s;
     let s = reg_or P RCC (push_bit 24 1) s;
     s \<leftarrow> wait_bits P RCC (push_bit 25 1) (push_bit 25 1) s;
     let s = reg_and P (RCC + 8) (NOT 3) s;
     let s = reg_or P (RCC + 8) 0b10 s;
     wait_bits P (RCC + 8) (push_bit 2 3) (push_bit 2 0b10) s
   }"

definition systick_init :: "'d platform \<Rightarrow> 'd machine \<Rightarrow> 'd machine" where
  "systick_init P s =
     (let s = reg_write P (STK + 4) (84000 - 1) s;
          s = reg_write P (STK + 8) 0 s;
          s = reg_or P STK (push_bit 1 1 OR push_bit 0 1 OR push_bit 2 1) s
      in on_kern (\<lambda>k. k\<lparr>system_ticks := 0\<rparr>) s)"

section \<open>Memory protection\<close>

definition MPU_AP_RW_RW :: u32 where "MPU_AP_RW_RW = 0b011"
definition MPU_AP_RO_RO :: u32 where "MPU_AP_RO_RO = 0b110"
definition MPU_AP_RW :: u32 where "MPU_AP_RW = 0b001"

text \<open>\<open>__builtin_clz\<close>: the number of zero bits above the highest one.\<close>

definition clz :: "u32 \<Rightarrow> nat" where
  "clz w = length (takeWhile (\<lambda>i. \<not> bit w i) (rev [0..<32]))"

definition mpu_init :: "'d platform \<Rightarrow> 'd machine \<Rightarrow> 'd machine" where
  "mpu_init P s =
     (let s = reg_write P (MPU + 4) 0 s;
          s = reg_write P (MPU + 8) 0 s;
          s = reg_write P (MPU + 0xC) 0x08000000 s;
          s = reg_write P (MPU + 0x10) (push_bit 24 MPU_AP_RO_RO OR push_bit 1 18 OR push_bit 0 1) s;
          s = reg_write P (MPU + 8) 2 s;
          s = reg_write P (MPU + 0xC) 0x20010000 s;
          s = reg_write P (MPU + 0x10) (push_bit 24 MPU_AP_RW_RW OR push_bit 1 15 OR push_bit 28 1 OR push_bit 0 1) s;
          s = reg_write P (MPU + 8) 7 s;
          s = reg_write P (MPU + 0xC) 0x2001F000 s;
          s = reg_write P (MPU + 0x10) (push_bit 24 MPU_AP_RW OR push_bit 1 11 OR push_bit 28 1 OR push_bit 0 1) s;
          s = reg_or P (SCB + 0x24) (push_bit 16 1) s
      in reg_write P (MPU + 4) (push_bit 0 1 OR push_bit 2 1) s)"

definition mpu_set_region :: "'d platform \<Rightarrow> u32 \<Rightarrow> ptr \<Rightarrow> u32 \<Rightarrow> u32 \<Rightarrow> bool \<Rightarrow> 'd machine \<Rightarrow> 'd machine" where
  "mpu_set_region P region base sz ap execute_never s =
     (let s = reg_write P (MPU + 8) region s;
          s = reg_write P (MPU + 0xC) base s;
          rasr = (if execute_never then push_bit 28 1 else 0);
          rasr = rasr OR push_bit 24 ap;
          size_encoding = word_of_int (31 - int (clz sz) - 1);
          rasr = rasr OR push_bit 1 size_encoding;
          rasr = rasr OR push_bit 0 1
      in reg_write P (MPU + 0x10) rasr s)"

definition mpu_configure_task_stack :: "'d platform \<Rightarrow> ptr \<Rightarrow> u32 \<Rightarrow> 'd machine \<Rightarrow> 'd machine" where
  "mpu_configure_task_stack P base sz = mpu_set_region P 1 base sz MPU_AP_RW_RW True"

definition mpu_switch_to_task :: "'d platform \<Rightarrow> ptr \<Rightarrow> 'd machine \<Rightarrow> 'd machine" where
  "mpu_switch_to_task P task s =
     mpu_configure_task_stack P (stack_base (tcbs (kern s) task)) (stack_size (tcbs (kern s) task)) s"

section \<open>A register that reads back what was written\<close>

locale plain_register =
  fixes bus :: "'d bus" and r :: ptr and content :: "'d \<Rightarrow> u32"
  assumes read_content: "bus_read bus r d = (content d, d)"
    and write_content: "content (bus_write bus r v d) = v"
begin

lemma set_field_content:
  assumes "hw P = bus"
  shows "content (dev (set_field P r msk v pos s)) =
     content (dev s) AND NOT (push_bit pos msk) OR push_bit pos v"
  using assms
  by (simp add: set_field_def reg_or_def reg_and_def bus_or_def bus_and_def read_content write_content)

text \<open>A field takes its new value, and the bits beside it keep theirs.\<close>

lemma set_field_bits:
  assumes "hw P = bus" "v AND NOT msk = 0" "n < 32"
  shows "bit (content (dev (set_field P r msk v pos s))) n =
     (if pos \<le> n \<and> bit msk (n - pos) then bit v (n - pos) else bit (content (dev s)) n)"
proof -
  have "bit v i \<Longrightarrow> bit msk i" for i
    using assms(2) bit_and_iff [of v "NOT msk" i] bit_imp_le_length [of v i] by (auto simp: bit_not_iff)
  then show ?thesis using assms(3) by (auto simp: set_field_content [OF assms(1)] bit_simps)
qed

end

text \<open>Registers in a memory of words: hardware that only stores values.\<close>

definition register_file :: "(ptr \<Rightarrow> u32) bus" where
  "register_file = \<lparr>bus_read = (\<lambda>a d. (d a, d)), bus_write = (\<lambda>a v d. d(a := v))\<rparr>"

interpretation rf: plain_register register_file r "\<lambda>d. d r" for r
  by unfold_locales (simp_all add: register_file_def)

section \<open>What the protection unit lets a task access\<close>

text \<open>A region: the contents of its base address and attribute registers.\<close>

type_synonym region = "u32 \<times> u32"

definition region_bits :: "region \<Rightarrow> nat" where
  "region_bits rg = unat (drop_bit 1 (snd rg) AND 31) + 1"

definition region_enabled :: "region \<Rightarrow> bool" where
  "region_enabled rg = bit (snd rg) 0"

definition region_ap :: "region \<Rightarrow> u32" where
  "region_ap rg = drop_bit 24 (snd rg) AND 7"

definition region_xn :: "region \<Rightarrow> bool" where
  "region_xn rg = bit (snd rg) 28"

text \<open>A region covers the naturally aligned block of its size that its base address lies in.\<close>

definition covers :: "region \<Rightarrow> ptr \<Rightarrow> bool" where
  "covers rg a \<longleftrightarrow> region_enabled rg \<and> drop_bit (region_bits rg) a = drop_bit (region_bits rg) (fst rg)"

text \<open>The attributes \<open>mpu_set_region\<close> writes.\<close>

definition rasr_of :: "bool \<Rightarrow> u32 \<Rightarrow> u32 \<Rightarrow> u32" where
  "rasr_of xn ap sz =
     (((if xn then push_bit 28 1 else 0) OR push_bit 24 ap) OR push_bit 1 (word_of_int (31 - int (clz sz) - 1))) OR
     push_bit 0 1"

lemma clz_power:
  assumes "n < 32"
  shows "clz (2 ^ n) = 31 - n"
proof -
  have "[0..<32] = [0..<n] @ n # [Suc n..<32]"
    using assms upt_add_eq_append [of 0 n "32 - n"] by (simp add: upt_conv_Cons)
  then have "takeWhile (\<lambda>i. \<not> bit (2 ^ n :: u32) i) (rev [0..<32]) = rev [Suc n..<32]"
    using assms by (auto simp: takeWhile_append bit_simps)
  then show ?thesis by (simp add: clz_def)
qed

lemma rasr_of_fields:
  assumes "1 \<le> n" "n < 32" "unat ap < 2 ^ 3"
  shows "region_bits (b, rasr_of xn ap (2 ^ n)) = n" "region_enabled (b, rasr_of xn ap (2 ^ n))"
    "region_ap (b, rasr_of xn ap (2 ^ n)) = ap" "region_xn (b, rasr_of xn ap (2 ^ n)) = xn"
proof -
  define e :: u32 where "e = of_nat (n - 1)"
  have e: "word_of_int (31 - int (clz (2 ^ n)) - 1) = e"
    using assms(1,2) by (simp add: clz_power e_def of_nat_diff)
  have "bit ((if xn then push_bit 28 1 else 0) :: u32) i \<longleftrightarrow> xn \<and> i = 28" for i
    by (auto simp: bit_push_bit_iff bit_1_iff simp del: push_bit_of_1 push_bit_numeral)
  then have rasr: "bit (rasr_of xn ap (2 ^ n)) i \<longleftrightarrow> xn \<and> i = 28 \<or> 24 \<le> i \<and> bit ap (i - 24) \<and> i < 32 \<or>
     1 \<le> i \<and> bit e (i - 1) \<and> i < 32 \<or> i = 0" for i
    by (simp only: rasr_of_def e bit_or_iff) (auto simp: bit_simps simp del: push_bit_Suc)
  have ue: "unat e = n - 1" using assms(1,2) by (simp add: e_def unat_of_nat del: of_nat_diff)
  have high: "\<not> bit e i" if "5 \<le> i" for i by (rule no_high_bit [OF _ that]) (use ue assms in simp)
  have ap: "\<not> bit ap i" if "3 \<le> i" for i by (rule no_high_bit [OF assms(3) that])
  show "region_enabled (b, rasr_of xn ap (2 ^ n))" by (simp add: region_enabled_def rasr)
  show "region_xn (b, rasr_of xn ap (2 ^ n)) = xn"
    using ap [of 4] high [of 27] by (simp add: region_xn_def rasr)
  have "drop_bit 1 (rasr_of xn ap (2 ^ n)) AND mask 5 = e"
    by (rule bit_word_eqI) (use high not_le in \<open>auto simp: rasr bit_drop_bit_eq bit_and_iff bit_mask_iff\<close>)
  then show "region_bits (b, rasr_of xn ap (2 ^ n)) = n"
    using ue assms(1) by (simp add: region_bits_def mask_numeral)
  have "drop_bit 24 (rasr_of xn ap (2 ^ n)) AND mask 3 = ap"
    by (rule bit_word_eqI) (use ap high not_le in \<open>auto simp: rasr bit_drop_bit_eq bit_and_iff bit_mask_iff\<close>)
  then show "region_ap (b, rasr_of xn ap (2 ^ n)) = ap" by (simp add: region_ap_def mask_numeral)
qed

text \<open>
  The registers of the unit: \<open>rnr\<close> selects the region the other two belong to. A base address whose
  bit 4 is set would select a region itself; the code never writes one.
\<close>

locale mpu_hw =
  fixes bus :: "'d bus" and rnr :: "'d \<Rightarrow> u32" and regions :: "'d \<Rightarrow> u32 \<Rightarrow> region"
  assumes write_rnr: "rnr (bus_write bus (MPU + 8) v d) = v"
      "regions (bus_write bus (MPU + 8) v d) = regions d"
    and write_rbar: "\<not> bit v 4 \<Longrightarrow> rnr (bus_write bus (MPU + 0xC) v d) = rnr d"
      "\<not> bit v 4 \<Longrightarrow> regions (bus_write bus (MPU + 0xC) v d) = (regions d)(rnr d := (v AND NOT 31, snd (regions d (rnr d))))"
    and write_rasr: "regions (bus_write bus (MPU + 0x10) v d) = (regions d)(rnr d := (fst (regions d (rnr d)), v))"
begin

lemma set_region:
  assumes "hw P = bus" "\<not> bit base 4"
  shows "regions (dev (mpu_set_region P n base sz ap xn s)) = (regions (dev s))(n := (base AND NOT 31, rasr_of xn ap sz))"
  using assms by (simp add: mpu_set_region_def rasr_of_def reg_write_def Let_def write_rnr write_rbar write_rasr)

end

text \<open>The unit as a device.\<close>

record mpu_dev =
  mpu_rnr :: u32
  mpu_regions :: "u32 \<Rightarrow> region"

definition mpu_bus :: "mpu_dev bus" where
  "mpu_bus = \<lparr>bus_read = (\<lambda>a d. (0, d)),
     bus_write = (\<lambda>a v d.
       if a = MPU + 8 then d\<lparr>mpu_rnr := v\<rparr>
       else if a = MPU + 0xC then
         (let n = (if bit v 4 then v AND 15 else mpu_rnr d)
          in d\<lparr>mpu_rnr := n, mpu_regions := (mpu_regions d)(n := (v AND NOT 31, snd (mpu_regions d n)))\<rparr>)
       else if a = MPU + 0x10 then
         d\<lparr>mpu_regions := (mpu_regions d)(mpu_rnr d := (fst (mpu_regions d (mpu_rnr d)), v))\<rparr>
       else d)\<rparr>"

interpretation mpu_dev: mpu_hw mpu_bus mpu_rnr mpu_regions
  by unfold_locales (simp_all add: mpu_bus_def MPU_def Let_def)

lemma drop_bit_eq_block:
  fixes a base :: u32
  assumes "2 ^ n dvd unat base"
  shows "drop_bit n a = drop_bit n base \<longleftrightarrow> unat base \<le> unat a \<and> unat a < unat base + 2 ^ n"
proof -
  obtain q where q: "unat base = 2 ^ n * q" using assms by blast
  have "drop_bit n a = drop_bit n base \<longleftrightarrow> unat a div 2 ^ n = unat base div 2 ^ n"
    by (metis drop_bit_eq_div unat_drop_bit_eq word_unat_eq_iff)
  also have "\<dots> \<longleftrightarrow> unat a div 2 ^ n = q" by (simp add: q)
  also have "\<dots> \<longleftrightarrow> unat base \<le> unat a \<and> unat a < unat base + 2 ^ n"
    unfolding q using div_nat_eqI [of "2 ^ n" q "unat a"] div_times_less_eq_dividend [of "unat a" "2 ^ n"]
      dividend_less_times_div [of "2 ^ n" "unat a"] by (auto simp: ac_simps)
  finally show ?thesis .
qed

text \<open>An example: a task whose stack is the third of the pool.\<close>

definition ex_mpu_machine :: "mpu_dev machine" where
  "ex_mpu_machine = idle_machine
     (upd_task 0x20000100 (\<lambda>t. t\<lparr>stack_base := 0x20005000, stack_size := TASK_STACK_SIZE\<rparr>) zero_kernel) ex_heap
     \<lparr>mpu_rnr = 0, mpu_regions = (\<lambda>_. (0, 0))\<rparr>"

text \<open>C29: When the context switch turns to a task, the protection unit gives it access to its own stack
  and to no other byte through the stack region: on a unit as the architecture manual describes it,
  the region covers exactly the bytes of the stack, may be read and written and not executed, and no
  other region changes. The stack must be a power of two in size and aligned to it, as the stacks of
  the pool are.\<close>

theorem mpu_stack_region:
  assumes "mpu_hw (hw P) rnr regions" "stack_size (tcbs (kern s) task) = 2 ^ n" "5 \<le> n" "n < 32"
    and "2 ^ n dvd unat (stack_base (tcbs (kern s) task))"
  shows "let rs = regions (dev (mpu_switch_to_task P task s)); base = unat (stack_base (tcbs (kern s) task)) in
     (covers (rs 1) a \<longleftrightarrow> base \<le> unat a \<and> unat a < base + 2 ^ n) \<and>
     region_ap (rs 1) = MPU_AP_RW_RW \<and> region_xn (rs 1) \<and>
     (\<forall>m. m \<noteq> 1 \<longrightarrow> rs m = regions (dev s) m)"
proof -
  let ?base = "stack_base (tcbs (kern s) task)"
  obtain q where q: "unat ?base = 2 ^ n * q" using assms(5) by blast
  have low: "\<not> bit ?base i" if "i < n" for i
  proof -
    have "\<not> bit (unat ?base) i" using that unfolding q by (simp add: push_bit_eq_mult [symmetric] mult.commute bit_simps)
    then show ?thesis by (auto simp: bit_unsigned_iff dest: bit_imp_le_length)
  qed
  have "5 \<le> i" if "bit ?base i" for i using low [of i] that assms(3) by (meson le_trans not_le)
  then have "?base AND NOT (mask 5) = ?base" by (intro bit_word_eqI) (auto simp: bit_simps not_less)
  then have base: "?base AND NOT 31 = ?base" by (simp add: mask_numeral)
  have "regions (dev (mpu_switch_to_task P task s)) = (regions (dev s))(1 := (?base, rasr_of True MPU_AP_RW_RW (2 ^ n)))"
    using mpu_hw.set_region [OF assms(1) refl, of ?base 1] low [of 4] assms(2,3) base
    by (simp add: mpu_switch_to_task_def mpu_configure_task_stack_def)
  moreover have "unat MPU_AP_RW_RW < 2 ^ 3" by (simp add: MPU_AP_RW_RW_def)
  ultimately show ?thesis
    using rasr_of_fields [of n MPU_AP_RW_RW ?base True] assms(3,4) drop_bit_eq_block [OF assms(5), of a]
    by (simp add: covers_def Let_def)
qed

theorem mpu_stack_region_witness:
  "covers (mpu_regions (dev (mpu_switch_to_task (plain_platform mpu_bus) 0x20000100 ex_mpu_machine)) 1) 0x200057FF \<and>
   \<not> covers (mpu_regions (dev (mpu_switch_to_task (plain_platform mpu_bus) 0x20000100 ex_mpu_machine)) 1) 0x20005800"
proof -
  have "stack_size (tcbs (kern ex_mpu_machine) 0x20000100) = 2 ^ 11"
    "stack_base (tcbs (kern ex_mpu_machine) 0x20000100) = 0x20005000"
    by (simp_all add: ex_mpu_machine_def idle_machine_def TASK_STACK_SIZE_def)
  moreover have "mpu_hw (hw (plain_platform mpu_bus)) mpu_rnr mpu_regions"
    using mpu_dev.mpu_hw_axioms by (simp add: plain_platform_def)
  ultimately show ?thesis
    using mpu_stack_region [of "plain_platform mpu_bus" mpu_rnr mpu_regions ex_mpu_machine "0x20000100" 11] by (simp add: Let_def)
qed

end
