(* ===== verification/Spi.thy ===== *)
theory Spi
  imports Periph Syscall Buffers
begin

unbundle bit_operations_syntax

text \<open>
  The driver of the SPI bus (\<^verbatim>\<open>source/drivers/spi.c\<close>, \<^verbatim>\<open>include/drivers/spi.h\<close>). Its states and the return
  codes are those of the source; a frame is transferred byte by byte with a bounded number of polls of
  the status register, and a time-out latches the state \<open>SPI_ST_FAULTED\<close>. The buffers of a frame are
  NULL, a local array, whose accesses are checked, or memory at an address.

  The locale \<open>spi_slave\<close> states what the driver relies on: a bus master that exchanges one byte with the
  selected device whenever its data register is written. Its lemmas reduce the transfer of a frame to
  the bytes exchanged with the device.
\<close>

section \<open>Data\<close>

datatype spi_return_t = SPI_OK | SPI_ERR_TIMEOUT | SPI_ERR_FAULT | SPI_ERR_ARG

datatype buffer = Null | Array "u8 list" | At ptr

fun get_byte :: "buffer \<Rightarrow> nat \<Rightarrow> mem \<Rightarrow> u8 option" where
  "get_byte Null i m = None"
| "get_byte (Array bs) i m = fetch bs i"
| "get_byte (At p) i m = Some (m (p + of_nat i))"

fun put_byte :: "buffer \<Rightarrow> nat \<Rightarrow> u8 \<Rightarrow> mem \<Rightarrow> (buffer \<times> mem) option" where
  "put_byte Null i v m = None"
| "put_byte (Array bs) i v m = do { bs \<leftarrow> poke bs i v; Some (Array bs, m) }"
| "put_byte (At p) i v m = Some (At p, m(p + of_nat i := v))"

record spi_frame_t =
  frame_header :: buffer
  header_len :: u8
  tx_data :: buffer
  rx_data :: buffer
  data_len :: u32
  is_read :: bool

definition SPI1 :: ptr where "SPI1 = 0x40013000"
definition SPI_SPIN_LIMIT :: nat where "SPI_SPIN_LIMIT = 100"
definition SPI_SR_RXNE :: u32 where "SPI_SR_RXNE = push_bit 0 1"
definition SPI_SR_TXE :: u32 where "SPI_SR_TXE = push_bit 1 1"
definition SPI1_PIN_CS :: nat where "SPI1_PIN_CS = 4"
definition SPI1_AF :: u32 where "SPI1_AF = 5"

section \<open>Configuration\<close>

definition spi1_cs_select :: "'d platform \<Rightarrow> 'd machine \<Rightarrow> 'd machine" where
  "spi1_cs_select P = GPIO_PIN_LOW P GPIOA SPI1_PIN_CS"

definition spi1_cs_deselect :: "'d platform \<Rightarrow> 'd machine \<Rightarrow> 'd machine" where
  "spi1_cs_deselect P = GPIO_PIN_HIGH P GPIOA SPI1_PIN_CS"

text \<open>The loop over the pins of the clock and the two data lines.\<close>

definition spi1_pin_setup :: "'d platform \<Rightarrow> nat \<Rightarrow> 'd machine \<Rightarrow> 'd machine" where
  "spi1_pin_setup P pin s =
     (let s = SET_GPIO_MODE P GPIOA GPIO_MODE_AF pin s;
          s = SET_GPIO_OTYPER P GPIOA 0 pin s;
          s = SET_GPIO_OSPEEDR P GPIOA GPIO_OSPEEDR_FAST pin s;
          s = SET_GPIO_PUPDR P GPIOA GPIO_PUPDR_NOPP pin s
      in SET_GPIO_AF P GPIOA SPI1_AF pin s)"

definition spi1_configure :: "'d platform \<Rightarrow> 'd machine \<Rightarrow> spi_return_t \<times> 'd machine" where
  "spi1_configure P s =
     (if spi_state s \<noteq> SPI_ST_UNINIT then (SPI_ERR_ARG, s)
      else
        let s = reg_or P (RCC + 0x30) (push_bit 0 1) s;
            s = reg_or P (RCC + 0x44) (push_bit 12 1) s;
            s = SET_GPIO_MODE P GPIOA GPIO_MODE_OUTPUT SPI1_PIN_CS s;
            s = SET_GPIO_OTYPER P GPIOA 0 SPI1_PIN_CS s;
            s = SET_GPIO_OSPEEDR P GPIOA GPIO_OSPEEDR_FAST SPI1_PIN_CS s;
            s = spi1_cs_deselect P s;
            s = fold (spi1_pin_setup P) [5, 6, 7] s;
            s = reg_write P SPI1 0 s;
            s = reg_write P SPI1 (push_bit 2 1 OR push_bit 3 0b010 OR push_bit 9 1 OR push_bit 8 1) s;
            s = reg_write P (SPI1 + 4) 0 s;
            s = reg_or P SPI1 (push_bit 6 1) s
        in (SPI_OK, s\<lparr>spi_state := SPI_ST_CONFIGURED\<rparr>))"

definition spi1_start :: "'d platform \<Rightarrow> 'd machine \<Rightarrow> spi_return_t \<times> 'd machine" where
  "spi1_start P s =
     (if spi_state s \<noteq> SPI_ST_CONFIGURED then (SPI_ERR_ARG, s)
      else (SPI_OK, (on_kern (mutex_init (spi1_lock P)) s)\<lparr>spi_state := SPI_ST_READY\<rparr>))"

definition spi1_recover :: "'d platform \<Rightarrow> 'd machine \<Rightarrow> (spi_return_t \<times> 'd machine) option" where
  "spi1_recover P s =
     (if spi_state s \<noteq> SPI_ST_FAULTED then Some (SPI_ERR_ARG, s)
      else do {
        s \<leftarrow> sys_mutex_lock P (spi1_lock P) s;
        let s = s\<lparr>spi_state := SPI_ST_UNINIT\<rparr>;
        let (r, s) = spi1_configure P s;
        let (v, s) = reg_read P (SPI1 + 0xC) s;
        let s = s\<lparr>spi_state := SPI_ST_READY\<rparr>;
        s \<leftarrow> sys_mutex_unlock P (spi1_lock P) s;
        Some (SPI_OK, s)
      })"

section \<open>Transfers\<close>

text \<open>A loop that polls the status register; whether the bit was seen before the limit was reached.\<close>

function poll_sr :: "'d platform \<Rightarrow> u32 \<Rightarrow> nat \<Rightarrow> 'd machine \<Rightarrow> bool \<times> 'd machine" where
  "poll_sr P msk spins s =
     (let (sr, s) = reg_read P (SPI1 + 8) s
      in if sr AND msk \<noteq> 0 then (True, s)
         else if spins + 1 \<ge> SPI_SPIN_LIMIT then (False, s)
         else poll_sr P msk (spins + 1) s)"
  by pat_completeness auto
termination
  by (relation "measure (\<lambda>(P, msk, spins, s). SPI_SPIN_LIMIT - spins)") auto

declare poll_sr.simps [simp del]

definition spi1_transfer :: "'d platform \<Rightarrow> u8 \<Rightarrow> 'd machine \<Rightarrow> spi_return_t \<times> u8 \<times> 'd machine" where
  "spi1_transfer P d s =
     (let (ready, s) = poll_sr P SPI_SR_TXE 0 s
      in if \<not> ready then (SPI_ERR_TIMEOUT, 0, s)
         else
           let s = reg_write P (SPI1 + 0xC) (ucast d) s;
               (ready, s) = poll_sr P SPI_SR_RXNE 0 s
           in if \<not> ready then (let (v, s) = reg_read P (SPI1 + 0xC) s in (SPI_ERR_TIMEOUT, 0, s))
              else (let (v, s) = reg_read P (SPI1 + 0xC) s in (SPI_OK, ucast v, s)))"

function header_loop :: "'d platform \<Rightarrow> spi_frame_t \<Rightarrow> nat \<Rightarrow> 'd machine \<Rightarrow> (spi_return_t \<times> 'd machine) option" where
  "header_loop P f i s =
     (if i < unat (header_len f)
      then do {
        b \<leftarrow> get_byte (frame_header f) i (umem s);
        let (ret, v, s) = spi1_transfer P b s;
        if ret \<noteq> SPI_OK then Some (ret, s) else header_loop P f (i + 1) s
      }
      else Some (SPI_OK, s))"
  by pat_completeness auto
termination
  by (relation "measure (\<lambda>(P, f, i, s). unat (header_len f) - i)") auto

function data_loop ::
  "'d platform \<Rightarrow> spi_frame_t \<Rightarrow> nat \<Rightarrow> 'd machine \<Rightarrow> (spi_return_t \<times> spi_frame_t \<times> 'd machine) option" where
  "data_loop P f i s =
     (if i < unat (data_len f)
      then do {
        b \<leftarrow> (if is_read f then Some 0xFF else get_byte (tx_data f) i (umem s));
        let (ret, received, s) = spi1_transfer P b s;
        if ret \<noteq> SPI_OK then Some (ret, f, s)
        else do {
          (rx, m) \<leftarrow> (if is_read f \<and> rx_data f \<noteq> Null then put_byte (rx_data f) i received (umem s)
                      else Some (rx_data f, umem s));
          data_loop P (f\<lparr>rx_data := rx\<rparr>) (i + 1) (s\<lparr>umem := m\<rparr>)
        }
      }
      else Some (SPI_OK, f, s))"
  by pat_completeness auto
termination
  by (relation "measure (\<lambda>(P, f, i, s). unat (data_len f) - i)") auto

declare header_loop.simps [simp del] data_loop.simps [simp del]

text \<open>The transfer proper, with the bus locked.\<close>

definition transfer_selected ::
  "'d platform \<Rightarrow> spi_frame_t \<Rightarrow> 'd machine \<Rightarrow> (spi_return_t \<times> spi_frame_t \<times> 'd machine) option" where
  "transfer_selected P f s = do {
     let (sr, s) = reg_read P (SPI1 + 8) s;
     let s = (if sr AND SPI_SR_RXNE \<noteq> 0 then snd (reg_read P (SPI1 + 0xC) s) else s);
     let s = spi1_cs_select P s;
     (transfer_ret, s) \<leftarrow> header_loop P f 0 s;
     (transfer_ret, f, s) \<leftarrow> (if transfer_ret = SPI_OK then data_loop P f 0 s else Some (transfer_ret, f, s));
     let s = spi1_cs_deselect P s;
     Some (transfer_ret, f, if transfer_ret = SPI_ERR_TIMEOUT then s\<lparr>spi_state := SPI_ST_FAULTED\<rparr> else s)
   }"

text \<open>The frame is a local variable of the caller; the transfer changes its receive buffer only.\<close>

definition spi1_transfer_frame ::
  "'d platform \<Rightarrow> spi_frame_t \<Rightarrow> 'd machine \<Rightarrow> (spi_return_t \<times> spi_frame_t \<times> 'd machine) option" where
  "spi1_transfer_frame P f s =
     (if spi_state s = SPI_ST_UNINIT then Some (SPI_ERR_ARG, f, s)
      else if header_len f > 0 \<and> frame_header f = Null then Some (SPI_ERR_ARG, f, s)
      else if data_len f > 0 \<and> ((is_read f \<and> rx_data f = Null) \<or> (\<not> is_read f \<and> tx_data f = Null))
      then Some (SPI_ERR_ARG, f, s)
      else if spi_state s = SPI_ST_FAULTED then Some (SPI_ERR_FAULT, f, s)
      else do {
        s \<leftarrow> sys_mutex_lock P (spi1_lock P) s;
        if spi_state s = SPI_ST_FAULTED
        then do { s \<leftarrow> sys_mutex_unlock P (spi1_lock P) s; Some (SPI_ERR_FAULT, f, s) }
        else do {
          (transfer_ret, f, s) \<leftarrow> transfer_selected P f s;
          s \<leftarrow> sys_mutex_unlock P (spi1_lock P) s;
          Some (transfer_ret, f, s)
        }
      })"

text \<open>The frames that are refused without looking at the state.\<close>

definition bad_frame :: "spi_frame_t \<Rightarrow> bool" where
  "bad_frame f \<longleftrightarrow> header_len f > 0 \<and> frame_header f = Null \<or>
     data_len f > 0 \<and> ((is_read f \<and> rx_data f = Null) \<or> (\<not> is_read f \<and> tx_data f = Null))"

lemma spi1_transfer_frame_alt:
  "spi1_transfer_frame P f s =
     (if spi_state s = SPI_ST_UNINIT \<or> bad_frame f then Some (SPI_ERR_ARG, f, s)
      else if spi_state s = SPI_ST_FAULTED then Some (SPI_ERR_FAULT, f, s)
      else do {
        s \<leftarrow> sys_mutex_lock P (spi1_lock P) s;
        (ret, f, s) \<leftarrow> (if spi_state s = SPI_ST_FAULTED then Some (SPI_ERR_FAULT, f, s) else transfer_selected P f s);
        s \<leftarrow> sys_mutex_unlock P (spi1_lock P) s;
        Some (ret, f, s)
      })"
  by (cases "sys_mutex_lock P (spi1_lock P) s") (auto simp: spi1_transfer_frame_def bad_frame_def)

section \<open>What every transfer keeps, on any hardware\<close>

lemma poll_sr_dev: "poll_sr P msk n s = (r, s') \<Longrightarrow> dev_step s s'"
proof (induction P msk n s rule: poll_sr.induct)
  case (1 P msk spins s)
  obtain v s1 where r: "reg_read P (SPI1 + 8) s = (v, s1)" by (cases "reg_read P (SPI1 + 8) s")
  then have s1: "dev_step s s1" by (rule reg_read_dev_step)
  show ?case
  proof (cases "v AND msk \<noteq> 0 \<or> spins + 1 \<ge> SPI_SPIN_LIMIT")
    case True
    with "1.prems" r s1 show ?thesis by (subst (asm) poll_sr.simps) (auto split: if_splits)
  next
    case False
    then have "poll_sr P msk spins s = poll_sr P msk (spins + 1) s1"
      by (subst poll_sr.simps) (simp add: r)
    with "1.IH" [OF r [symmetric] refl] False "1.prems" have "dev_step s1 s'" by simp
    with s1 show ?thesis by (rule dev_step_trans)
  qed
qed

lemma spi1_transfer_dev:
  assumes "spi1_transfer P b s = (ret, v, s')"
  shows "dev_step s s'"
proof -
  obtain r1 s1 where p1: "poll_sr P SPI_SR_TXE 0 s = (r1, s1)" by (meson surj_pair)
  obtain r2 s2 where p2: "poll_sr P SPI_SR_RXNE 0 (reg_write P (SPI1 + 0xC) (ucast b) s1) = (r2, s2)"
    by (meson surj_pair)
  obtain w s3 where r: "reg_read P (SPI1 + 0xC) s2 = (w, s3)" by (meson surj_pair)
  have s1: "dev_step s s1" by (rule poll_sr_dev [OF p1])
  have "dev_step s s3"
    by (rule dev_step_trans [OF s1], rule dev_step_trans [OF reg_dev_step(1)], rule dev_step_trans [OF poll_sr_dev [OF p2]],
        rule reg_read_dev_step [OF r])
  with s1 assms p1 p2 r show ?thesis by (auto simp: spi1_transfer_def Let_def split: if_splits)
qed

lemma header_loop_step:
  "i < unat (header_len f) \<Longrightarrow> get_byte (frame_header f) i (umem s) = Some b \<Longrightarrow> spi1_transfer P b s = (r, v, s1) \<Longrightarrow>
   header_loop P f i s = (if r \<noteq> SPI_OK then Some (r, s1) else header_loop P f (i + 1) s1)"
  "\<not> i < unat (header_len f) \<Longrightarrow> header_loop P f i s = Some (SPI_OK, s)"
  by (simp_all add: header_loop.simps [of P f i s])

lemma data_loop_step:
  "i < unat (data_len f) \<Longrightarrow> (if is_read f then Some 0xFF else get_byte (tx_data f) i (umem s)) = Some b \<Longrightarrow>
   spi1_transfer P b s = (r, v, s1) \<Longrightarrow>
   (if is_read f \<and> rx_data f \<noteq> Null then put_byte (rx_data f) i v (umem s1) else Some (rx_data f, umem s1)) = Some (rx, m) \<Longrightarrow>
   data_loop P f i s = (if r \<noteq> SPI_OK then Some (r, f, s1) else data_loop P (f\<lparr>rx_data := rx\<rparr>) (i + 1) (s1\<lparr>umem := m\<rparr>))"
  "\<not> i < unat (data_len f) \<Longrightarrow> data_loop P f i s = Some (SPI_OK, f, s)"
  by (simp_all add: data_loop.simps [of P f i s])

text \<open>A buffer with room for \<open>n\<close> bytes, and the memory a frame may write.\<close>

fun holds_bytes :: "buffer \<Rightarrow> nat \<Rightarrow> bool" where
  "holds_bytes Null n = (n = 0)"
| "holds_bytes (Array bs) n = (n \<le> length bs)"
| "holds_bytes (At p) n = True"

fun same_shape :: "buffer \<Rightarrow> buffer \<Rightarrow> bool" where
  "same_shape Null b = (b = Null)"
| "same_shape (Array bs) b = (\<exists>bs'. b = Array bs' \<and> length bs' = length bs)"
| "same_shape (At p) b = (b = At p)"

definition frame_ok :: "spi_frame_t \<Rightarrow> bool" where
  "frame_ok f \<longleftrightarrow> holds_bytes (frame_header f) (unat (header_len f)) \<and>
     (if is_read f then holds_bytes (rx_data f) (unat (data_len f)) else holds_bytes (tx_data f) (unat (data_len f)))"

definition rx_block :: "spi_frame_t \<Rightarrow> ptr set" where
  "rx_block f = (case rx_data f of At p \<Rightarrow> if is_read f then block p (unat (data_len f)) else {} | _ \<Rightarrow> {})"

lemma same_shape_refl [simp]: "same_shape b b"
  by (cases b) auto

lemma same_shape_trans: "same_shape a b \<Longrightarrow> same_shape b c \<Longrightarrow> same_shape a c"
  by (cases a) auto

lemma get_byte_ok: "holds_bytes b n \<Longrightarrow> i < n \<Longrightarrow> \<exists>v. get_byte b i m = Some v"
  by (cases b) auto

lemma put_byte_ok:
  assumes "holds_bytes b n" "i < n"
  shows "\<exists>b' m'. put_byte b i v m = Some (b', m') \<and> same_shape b b' \<and> holds_bytes b' n \<and>
     (\<forall>a. m' a \<noteq> m a \<longrightarrow> (\<exists>p. b = At p \<and> a \<in> block p n))"
  using assms by (cases b) (auto simp: block_def)

lemma header_loop_returns:
  assumes "holds_bytes (frame_header f) (unat (header_len f))"
  shows "\<exists>ret s'. header_loop P f i s = Some (ret, s') \<and> dev_step s s'"
proof (induction "unat (header_len f) - i" arbitrary: i s)
  case 0
  then show ?case by (auto simp: header_loop_step(2))
next
  case (Suc n)
  then have i: "i < unat (header_len f)" by simp
  obtain b where b: "get_byte (frame_header f) i (umem s) = Some b" using get_byte_ok [OF assms i] by blast
  obtain r v s1 where t: "spi1_transfer P b s = (r, v, s1)" by (cases "spi1_transfer P b s")
  note s1 = spi1_transfer_dev [OF t]
  have "n = unat (header_len f) - (i + 1)" using Suc.hyps(2) by simp
  from Suc.hyps(1) [OF this, of s1] s1 header_loop_step(1) [OF i b t] show ?case
    by (auto intro: dev_step_trans)
qed

lemma data_loop_returns:
  assumes "if is_read f then holds_bytes (rx_data f) (unat (data_len f)) else holds_bytes (tx_data f) (unat (data_len f))"
  shows "\<exists>ret rx s'. data_loop P f i s = Some (ret, f\<lparr>rx_data := rx\<rparr>, s') \<and> same_shape (rx_data f) rx \<and> mem_step (rx_block f) s s'"
  using assms
proof (induction "unat (data_len f) - i" arbitrary: f i s)
  case 0
  then show ?case by (intro exI [of _ SPI_OK] exI [of _ "rx_data f"] exI [of _ s]) (simp add: data_loop_step(2))
next
  case (Suc n)
  then have i: "i < unat (data_len f)" by simp
  obtain b where b: "(if is_read f then Some 0xFF else get_byte (tx_data f) i (umem s)) = Some b"
    using get_byte_ok [OF _ i] Suc.prems by (cases "is_read f") fastforce+
  obtain r v s1 where t: "spi1_transfer P b s = (r, v, s1)" by (cases "spi1_transfer P b s")
  note s1 = spi1_transfer_dev [OF t]
  obtain rx m where w: "(if is_read f \<and> rx_data f \<noteq> Null then put_byte (rx_data f) i v (umem s1) else Some (rx_data f, umem s1)) = Some (rx, m)"
    and rx: "same_shape (rx_data f) rx" "is_read f \<Longrightarrow> holds_bytes rx (unat (data_len f))"
      "\<And>a. a \<notin> rx_block f \<Longrightarrow> m a = umem s1 a"
    using put_byte_ok [OF _ i, of "rx_data f" v "umem s1"] Suc.prems
    by (cases "is_read f"; cases "rx_data f") (fastforce simp: rx_block_def)+
  have m: "mem_step (rx_block f) s1 (s1\<lparr>umem := m\<rparr>)"
    unfolding mem_step_def using rx(3) by (intro exI [of _ "dev s1"] exI [of _ m]) simp
  let ?f = "f\<lparr>rx_data := rx\<rparr>"
  have blk: "rx_block ?f = rx_block f" using rx(1) by (cases "rx_data f") (auto simp: rx_block_def)
  have "n = unat (data_len ?f) - (i + 1)" using Suc.hyps(2) by simp
  from Suc.hyps(1) [OF this, of "s1\<lparr>umem := m\<rparr>"] rx(2) Suc.prems obtain ret rx' s' where
    IH: "data_loop P ?f (i + 1) (s1\<lparr>umem := m\<rparr>) = Some (ret, ?f\<lparr>rx_data := rx'\<rparr>, s')" "same_shape rx rx'"
      "mem_step (rx_block f) (s1\<lparr>umem := m\<rparr>) s'"
    unfolding blk by (auto split: if_splits)
  have "mem_step (rx_block f) s s1" using s1 by (rule dev_mem_step)
  then show ?case
    using data_loop_step(1) [OF i b t w] IH rx(1) mem_step_trans [OF m IH(3)]
    by (cases "r = SPI_OK") (auto intro: mem_step_trans same_shape_trans exI [of _ "rx_data f"])
qed

lemma cs_dev_step: "dev_step s (spi1_cs_select P s)" "dev_step s (spi1_cs_deselect P s)"
  by (simp_all add: spi1_cs_select_def spi1_cs_deselect_def GPIO_PIN_LOW_def GPIO_PIN_HIGH_def)

lemma transfer_selected_returns:
  assumes "frame_ok f"
  shows "\<exists>ret rx d m. transfer_selected P f s = Some (ret, f\<lparr>rx_data := rx\<rparr>,
       s\<lparr>dev := d, umem := m, spi_state := if ret = SPI_ERR_TIMEOUT then SPI_ST_FAULTED else spi_state s\<rparr>) \<and>
     same_shape (rx_data f) rx \<and> (\<forall>a. a \<notin> rx_block f \<longrightarrow> m a = umem s a)"
proof -
  obtain sr s2 where sr: "reg_read P (SPI1 + 8) s = (sr, s2)" by (meson surj_pair)
  define s3 where "s3 = spi1_cs_select P (if sr AND SPI_SR_RXNE \<noteq> 0 then snd (reg_read P (SPI1 + 0xC) s2) else s2)"
  have "dev_step s2 (if sr AND SPI_SR_RXNE \<noteq> 0 then snd (reg_read P (SPI1 + 0xC) s2) else s2)"
    using reg_read_dev_step [of P "SPI1 + 0xC" s2] by (auto intro: prod.collapse [symmetric])
  then have s3: "dev_step s s3"
    unfolding s3_def using reg_read_dev_step [OF sr] cs_dev_step(1) by (blast intro: dev_step_trans)
  obtain r4 s4 where h: "header_loop P f 0 s3 = Some (r4, s4)" "dev_step s3 s4"
    using header_loop_returns [of f P 0 s3] assms by (auto simp: frame_ok_def)
  obtain r5 rx s5 where d: "(if r4 = SPI_OK then data_loop P f 0 s4 else Some (r4, f, s4)) = Some (r5, f\<lparr>rx_data := rx\<rparr>, s5)"
    "same_shape (rx_data f) rx" "mem_step (rx_block f) s4 s5"
  proof (cases "r4 = SPI_OK")
    case True
    with data_loop_returns [of f P 0 s4] assms that show ?thesis by (auto simp: frame_ok_def)
  next
    case False
    with that [of r4 "rx_data f" s4] show ?thesis by simp
  qed
  have "mem_step (rx_block f) s (spi1_cs_deselect P s5)"
    using s3 h(2) d(3) cs_dev_step(2) by (meson dev_mem_step dev_step_trans mem_step_trans)
  then obtain d' m where dm: "spi1_cs_deselect P s5 = s\<lparr>dev := d', umem := m\<rparr>" "\<forall>a. a \<notin> rx_block f \<longrightarrow> m a = umem s a"
    by (auto simp: mem_step_def)
  have "transfer_selected P f s = Some (r5, f\<lparr>rx_data := rx\<rparr>,
      s\<lparr>dev := d', umem := m, spi_state := if r5 = SPI_ERR_TIMEOUT then SPI_ST_FAULTED else spi_state s\<rparr>)"
    unfolding transfer_selected_def by (simp add: sr s3_def [symmetric] h(1) d(1) dm(1))
  with d(2) dm(2) show ?thesis by blast
qed

lemma configure_kern:
  "spi_state s = SPI_ST_UNINIT \<Longrightarrow> \<exists>s'. spi1_configure P s = (SPI_OK, s') \<and> kern s' = kern s \<and> spi_state s' = SPI_ST_CONFIGURED"
  by (simp add: spi1_configure_def spi1_pin_setup_def spi1_cs_deselect_def gpio_defs Let_def)

text \<open>
  What the drivers rely on of the kernel: \<open>I\<close> holds of the machine while they run, whatever the devices
  do and whatever is written to the addresses \<open>A\<close> of the buffers; locking, unlocking and sleeping return
  and keep \<open>I\<close>.
\<close>

locale driver_env =
  fixes P :: "'d platform" and A :: "ptr set" and I :: "'d machine \<Rightarrow> bool"
  assumes lock_returns: "I s \<Longrightarrow> \<exists>s'. sys_mutex_lock P (spi1_lock P) s = Some s' \<and> I s'"
    and unlock_returns: "I s \<Longrightarrow> \<exists>s'. sys_mutex_unlock P (spi1_lock P) s = Some s' \<and> I s'"
    and sleep_returns: "I s \<Longrightarrow> \<exists>s'. sys_sleep P n s = Some s' \<and> I s'"
    and step_keeps: "I s \<Longrightarrow> mem_step A s s' \<Longrightarrow> I s'"
    and state_keeps: "I s \<Longrightarrow> I (s\<lparr>spi_state := st\<rparr>)"
begin

lemma dev_keeps: "I s \<Longrightarrow> dev_step s s' \<Longrightarrow> I s'"
  using step_keeps dev_mem_step by blast

lemma transfer_frame_returns:
  assumes "frame_ok f" "rx_block f \<subseteq> A" "I s"
  shows "\<exists>ret rx s'. spi1_transfer_frame P f s = Some (ret, f\<lparr>rx_data := rx\<rparr>, s') \<and> same_shape (rx_data f) rx \<and> I s'"
proof (cases "spi_state s = SPI_ST_UNINIT \<or> bad_frame f \<or> spi_state s = SPI_ST_FAULTED")
  case True
  with assms(3) show ?thesis
    by (auto simp: spi1_transfer_frame_alt intro: exI [of _ "rx_data f"])
next
  case False
  obtain s1 where lock: "sys_mutex_lock P (spi1_lock P) s = Some s1" "I s1" using lock_returns [OF assms(3)] by blast
  obtain ret rx s2 where t: "(if spi_state s1 = SPI_ST_FAULTED then Some (SPI_ERR_FAULT, f, s1) else transfer_selected P f s1) =
      Some (ret, f\<lparr>rx_data := rx\<rparr>, s2)" "same_shape (rx_data f) rx" "I s2"
  proof (cases "spi_state s1 = SPI_ST_FAULTED")
    case True
    with lock(2) that [of SPI_ERR_FAULT "rx_data f" s1] show ?thesis by simp
  next
    case False
    obtain ret rx d m where t: "transfer_selected P f s1 = Some (ret, f\<lparr>rx_data := rx\<rparr>,
         s1\<lparr>dev := d, umem := m, spi_state := if ret = SPI_ERR_TIMEOUT then SPI_ST_FAULTED else spi_state s1\<rparr>)"
      "same_shape (rx_data f) rx" "\<forall>a. a \<notin> rx_block f \<longrightarrow> m a = umem s1 a" using transfer_selected_returns [OF assms(1), of P s1] by blast
    have "mem_step A s1 (s1\<lparr>dev := d, umem := m\<rparr>)" using t(3) assms(2) unfolding mem_step_def by blast
    then have "I (s1\<lparr>dev := d, umem := m, spi_state := st\<rparr>)" for st using step_keeps [OF lock(2)] state_keeps by blast
    with t False that show ?thesis by simp
  qed
  obtain s3 where "sys_mutex_unlock P (spi1_lock P) s2 = Some s3" "I s3" using unlock_returns [OF t(3)] by blast
  with False lock(1) t show ?thesis
    by (intro exI [of _ ret] exI [of _ rx] exI [of _ s3]) (simp add: spi1_transfer_frame_alt del: bind_eq_Some_conv)
qed

end

section \<open>The bytes that are exchanged\<close>

text \<open>A device on the bus answers every byte with a byte.\<close>

fun exchange :: "(u8 \<Rightarrow> 'c \<Rightarrow> u8 \<times> 'c) \<Rightarrow> u8 list \<Rightarrow> 'c \<Rightarrow> u8 list \<times> 'c" where
  "exchange swap [] c = ([], c)"
| "exchange swap (b # bs) c =
     (let (r, c) = swap b c; (rs, c) = exchange swap bs c in (r # rs, c))"

lemma exchange_simps [simp]:
  "fst (exchange swap (b # bs) c) = fst (swap b c) # fst (exchange swap bs (snd (swap b c)))"
  "snd (exchange swap (b # bs) c) = snd (exchange swap bs (snd (swap b c)))"
  by (simp_all add: case_prod_unfold Let_def)

declare exchange.simps(2) [simp del]

lemma length_exchange [simp]: "length (fst (exchange swap bs c)) = length bs"
  by (induction bs arbitrary: c) auto

lemma exchange_append:
  "fst (exchange swap (as @ bs) c) = fst (exchange swap as c) @ fst (exchange swap bs (snd (exchange swap as c)))"
  "snd (exchange swap (as @ bs) c) = snd (exchange swap bs (snd (exchange swap as c)))"
  by (induction as arbitrary: c) auto

text \<open>Storing received bytes in a buffer.\<close>

fun put_bytes :: "buffer \<Rightarrow> nat \<Rightarrow> u8 list \<Rightarrow> mem \<Rightarrow> (buffer \<times> mem) option" where
  "put_bytes b i [] m = Some (b, m)"
| "put_bytes b i (v # vs) m = do { (b, m) \<leftarrow> put_byte b i v m; put_bytes b (i + 1) vs m }"

lemma put_bytes_Array:
  "i + length vs \<le> length bs \<Longrightarrow> put_bytes (Array bs) i vs m = Some (Array (take i bs @ vs @ drop (i + length vs) bs), m)"
proof (induction vs arbitrary: bs i)
  case (Cons v vs)
  then have i: "i < length bs" by simp
  have "take (i + 1) (bs[i := v]) = take i bs @ [v]" using i by (simp add: take_Suc_conv_app_nth)
  with Cons.IH [of "i + 1" "bs[i := v]"] Cons.prems i show ?case by simp
qed simp

lemma put_bytes_At: "put_bytes (At p) i vs m = Some (At p, store_bytes (p + of_nat i) vs m)"
  by (induction vs arbitrary: i m) (auto simp: ac_simps)

text \<open>
  The contract of the bus: a poll of the status register changes nothing but the time that is left
  (\<open>lag\<close>) until the byte in transit has arrived. The transmit buffer is empty (\<open>TXE\<close>) when the bus is idle;
  during an exchange it becomes empty at some moment, as soon as the byte has moved to the shift
  register, which says nothing of the answer. The receive buffer is full (\<open>RXNE\<close>) exactly when the answer
  has arrived, and only then reading the data register is defined. Writing the data register of an idle
  bus exchanges a byte with the device; the answer is there before the driver gives up. Two bits of the
  port drive the select line, which may change only between two exchanges.
\<close>

locale spi_slave =
  fixes bus :: "'d bus" and chip :: "'d \<Rightarrow> 'c" and swap :: "u8 \<Rightarrow> 'c \<Rightarrow> u8 \<times> 'c"
    and sel desel :: "'c \<Rightarrow> 'c" and received :: "'d \<Rightarrow> u8 option" and lag :: "'d \<Rightarrow> nat"
  assumes sr_read: "bus_read bus (SPI1 + 8) d = (v, d') \<Longrightarrow>
      chip d' = chip d \<and> received d' = received d \<and> lag d' = lag d - 1 \<and>
      (lag d = 0 \<longrightarrow> v AND SPI_SR_TXE \<noteq> 0) \<and> (v AND SPI_SR_RXNE \<noteq> 0 \<longleftrightarrow> lag d = 0 \<and> received d \<noteq> None)"
    and dr_read: "lag d = 0 \<Longrightarrow> bus_read bus (SPI1 + 0xC) d = (v, d') \<Longrightarrow>
      chip d' = chip d \<and> received d' = None \<and> lag d' = lag d \<and> (\<forall>b. received d = Some b \<longrightarrow> ucast v = b)"
    and dr_write: "lag d = 0 \<Longrightarrow> received d = None \<Longrightarrow> d' = bus_write bus (SPI1 + 0xC) (ucast b) d \<Longrightarrow>
      chip d' = snd (swap b (chip d)) \<and> received d' = Some (fst (swap b (chip d))) \<and> lag d' < SPI_SPIN_LIMIT"
    and cs_low: "lag d = 0 \<Longrightarrow> d' = bus_write bus (GPIOA + 0x18) (push_bit 20 1) d \<Longrightarrow>
      chip d' = sel (chip d) \<and> received d' = received d \<and> lag d' = lag d"
    and cs_high: "lag d = 0 \<Longrightarrow> d' = bus_write bus (GPIOA + 0x18) (push_bit 4 1) d \<Longrightarrow>
      chip d' = desel (chip d) \<and> received d' = received d \<and> lag d' = lag d"
begin

definition idle :: "'d \<Rightarrow> bool" where
  "idle d \<longleftrightarrow> lag d = 0 \<and> received d = None"

lemma poll_sr_ready:
  assumes "hw P = bus" "msk = SPI_SR_TXE \<and> lag (dev s) = 0 \<or> msk = SPI_SR_RXNE \<and> received (dev s) \<noteq> None"
    and "lag (dev s) + spins < SPI_SPIN_LIMIT"
  shows "\<exists>d. poll_sr P msk spins s = (True, s\<lparr>dev := d\<rparr>) \<and> chip d = chip (dev s) \<and> received d = received (dev s) \<and> lag d = 0"
  using assms
proof (induction "lag (dev s)" arbitrary: s spins)
  case 0
  obtain v d where r: "bus_read bus (SPI1 + 8) (dev s) = (v, d)" by (meson surj_pair)
  from sr_read [OF r] 0 show ?case by (subst poll_sr.simps) (auto simp: reg_read_def r)
next
  case (Suc n)
  obtain v d where r: "bus_read bus (SPI1 + 8) (dev s) = (v, d)" by (meson surj_pair)
  note sr = sr_read [OF r]
  have "\<not> v AND msk \<noteq> 0" using sr Suc.hyps(2) Suc.prems(2) by auto
  then have step: "poll_sr P msk spins s = poll_sr P msk (spins + 1) (s\<lparr>dev := d\<rparr>)"
    using Suc.hyps(2) Suc.prems(1,3) by (subst poll_sr.simps) (simp add: reg_read_def r)
  from Suc.hyps(1) [of "s\<lparr>dev := d\<rparr>" "spins + 1"] Suc.hyps(2) Suc.prems sr step show ?case by simp
qed

lemma transfer_exchanges:
  assumes "hw P = bus" "idle (dev s)"
  shows "\<exists>d. spi1_transfer P b s = (SPI_OK, fst (swap b (chip (dev s))), s\<lparr>dev := d\<rparr>) \<and>
     idle d \<and> chip d = snd (swap b (chip (dev s)))"
proof -
  obtain d1 where p1: "poll_sr P SPI_SR_TXE 0 s = (True, s\<lparr>dev := d1\<rparr>)"
    "chip d1 = chip (dev s)" "received d1 = None" "lag d1 = 0"
    using poll_sr_ready [OF assms(1), of SPI_SR_TXE s 0] assms(2) by (auto simp: idle_def SPI_SPIN_LIMIT_def)
  define d2 where "d2 = bus_write bus (SPI1 + 0xC) (ucast b) d1"
  note w = dr_write [OF p1(4,3) d2_def]
  obtain d3 where p2: "poll_sr P SPI_SR_RXNE 0 (s\<lparr>dev := d2\<rparr>) = (True, s\<lparr>dev := d3\<rparr>)"
    "chip d3 = chip d2" "received d3 = received d2" "lag d3 = 0"
    using poll_sr_ready [OF assms(1), of SPI_SR_RXNE "s\<lparr>dev := d2\<rparr>" 0] w by auto
  obtain v d4 where r: "bus_read bus (SPI1 + 0xC) d3 = (v, d4)" by (meson surj_pair)
  note d = dr_read [OF p2(4) r]
  have "spi1_transfer P b s = (SPI_OK, fst (swap b (chip (dev s))), s\<lparr>dev := d4\<rparr>)"
    using assms(1) p1(1,2) p2(1,3) d w
    by (simp add: spi1_transfer_def reg_write_def reg_read_def d2_def [symmetric] r)
  with d w p1(2) p2(2,4) show ?thesis by (intro exI [of _ d4]) (simp add: idle_def)
qed

lemma header_exchanges:
  assumes "hw P = bus" "frame_header f = Array hs" "unat (header_len f) = length hs" "idle (dev s)"
  shows "\<exists>d. header_loop P f i s = Some (SPI_OK, s\<lparr>dev := d\<rparr>) \<and> idle d \<and>
     chip d = snd (exchange swap (drop i hs) (chip (dev s)))"
  using assms(4)
proof (induction "length hs - i" arbitrary: i s)
  case 0
  then show ?case by (auto simp: header_loop_step(2) assms(3) intro: exI [of _ "dev s"])
next
  case (Suc n)
  then have i: "i < unat (header_len f)" "i < length hs" "n = length hs - (i + 1)" by (simp_all add: assms(3))
  have b: "get_byte (frame_header f) i (umem s) = Some (hs ! i)" using i by (simp add: assms(2))
  obtain d where t: "spi1_transfer P (hs ! i) s = (SPI_OK, fst (swap (hs ! i) (chip (dev s))), s\<lparr>dev := d\<rparr>)"
    "idle d" "chip d = snd (swap (hs ! i) (chip (dev s)))" using transfer_exchanges [OF assms(1) Suc.prems] by blast
  from Suc.hyps(1) [OF i(3), of "s\<lparr>dev := d\<rparr>"] t(2,3) show ?case
    by (simp add: header_loop_step(1) [OF i(1) b t(1)] Cons_nth_drop_Suc [OF i(2), symmetric])
qed

lemma data_write_exchanges:
  assumes "hw P = bus" "\<not> is_read f" "unat (data_len f) = length bs"
    and "\<And>i. i < length bs \<Longrightarrow> get_byte (tx_data f) i (umem s) = Some (bs ! i)" "idle (dev s)"
  shows "\<exists>d. data_loop P f i s = Some (SPI_OK, f, s\<lparr>dev := d\<rparr>) \<and> idle d \<and>
     chip d = snd (exchange swap (drop i bs) (chip (dev s)))"
  using assms(4,5)
proof (induction "length bs - i" arbitrary: i s)
  case 0
  then show ?case by (auto simp: data_loop_step(2) assms(3) intro: exI [of _ "dev s"])
next
  case (Suc n)
  then have i: "i < unat (data_len f)" "i < length bs" "n = length bs - (i + 1)" by (simp_all add: assms(3))
  have b: "(if is_read f then Some 0xFF else get_byte (tx_data f) i (umem s)) = Some (bs ! i)"
    using Suc.prems(1) i assms(2) by simp
  obtain d where t: "spi1_transfer P (bs ! i) s = (SPI_OK, fst (swap (bs ! i) (chip (dev s))), s\<lparr>dev := d\<rparr>)"
    "idle d" "chip d = snd (swap (bs ! i) (chip (dev s)))" using transfer_exchanges [OF assms(1) Suc.prems(2)] by blast
  have w: "(if is_read f \<and> rx_data f \<noteq> Null then put_byte (rx_data f) i v (umem (s\<lparr>dev := d\<rparr>))
     else Some (rx_data f, umem (s\<lparr>dev := d\<rparr>))) = Some (rx_data f, umem s)" for v using assms(2) by simp
  from Suc.hyps(1) [OF i(3), of "s\<lparr>dev := d\<rparr>"] Suc.prems t(2,3) show ?case
    by (simp add: data_loop_step(1) [OF i(1) b t(1) w] Cons_nth_drop_Suc [OF i(2), symmetric])
qed

lemma data_read_exchanges:
  assumes "hw P = bus" "is_read f" "rx_data f \<noteq> Null" "holds_bytes (rx_data f) (unat (data_len f))" "idle (dev s)"
  shows "\<exists>d rx m. data_loop P f i s = Some (SPI_OK, f\<lparr>rx_data := rx\<rparr>, s\<lparr>dev := d, umem := m\<rparr>) \<and> idle d \<and>
     chip d = snd (exchange swap (replicate (unat (data_len f) - i) 0xFF) (chip (dev s))) \<and>
     put_bytes (rx_data f) i (fst (exchange swap (replicate (unat (data_len f) - i) 0xFF) (chip (dev s)))) (umem s) = Some (rx, m)"
  using assms(2-5)
proof (induction "unat (data_len f) - i" arbitrary: f i s)
  case 0
  then show ?case by (intro exI [of _ "dev s"] exI [of _ "rx_data f"] exI [of _ "umem s"]) (simp add: data_loop_step(2))
next
  case (Suc n)
  then have i: "i < unat (data_len f)" "n = unat (data_len f) - (i + 1)" by simp_all
  have b: "(if is_read f then Some 0xFF else get_byte (tx_data f) i (umem s)) = Some 0xFF" using Suc.prems(1) by simp
  define v where "v = fst (swap 0xFF (chip (dev s)))"
  obtain d where t: "spi1_transfer P 0xFF s = (SPI_OK, v, s\<lparr>dev := d\<rparr>)"
    "idle d" "chip d = snd (swap 0xFF (chip (dev s)))"
    using transfer_exchanges [OF assms(1) Suc.prems(4)] unfolding v_def by blast
  obtain rx m where put: "put_byte (rx_data f) i v (umem s) = Some (rx, m)" "same_shape (rx_data f) rx"
    "holds_bytes rx (unat (data_len f))" using put_byte_ok [OF Suc.prems(3) i(1)] by blast
  then have w: "(if is_read f \<and> rx_data f \<noteq> Null then put_byte (rx_data f) i v (umem (s\<lparr>dev := d\<rparr>))
     else Some (rx_data f, umem (s\<lparr>dev := d\<rparr>))) = Some (rx, m)" using Suc.prems by simp
  let ?f = "f\<lparr>rx_data := rx\<rparr>" and ?s = "s\<lparr>dev := d, umem := m\<rparr>"
  have "rx \<noteq> Null" using put(2) Suc.prems(2) by (cases "rx_data f") auto
  with Suc.hyps(1) [of ?f "i + 1" ?s] i(2) Suc.prems(1) put(3) t(2) obtain d' rx' m' where
    IH: "data_loop P ?f (i + 1) ?s = Some (SPI_OK, ?f\<lparr>rx_data := rx'\<rparr>, ?s\<lparr>dev := d', umem := m'\<rparr>)" "idle d'"
      "chip d' = snd (exchange swap (replicate n 0xFF) (chip d))"
      "put_bytes rx (i + 1) (fst (exchange swap (replicate n 0xFF) (chip d))) m = Some (rx', m')"
    by (auto simp: i(2))
  have n: "unat (data_len f) - i = Suc n" using Suc.hyps(2) by simp
  show ?case
    using IH put(1) t(3) unfolding n
    by (intro exI [of _ d'] exI [of _ rx'] exI [of _ m'])
      (simp add: data_loop_step(1) [OF i(1) b t(1) w] v_def [symmetric])
qed

end

text \<open>
  The kernel calls of the driver on a machine on which nothing else uses the bus meanwhile: they return
  and change nothing but the kernel, in which \<open>J\<close> holds throughout.
\<close>

locale calm_env =
  fixes P :: "'d platform" and J :: "kernel \<Rightarrow> bool"
  assumes calm_lock: "J (kern s) \<Longrightarrow> \<exists>k. sys_mutex_lock P (spi1_lock P) s = Some (s\<lparr>kern := k\<rparr>) \<and> J k"
    and calm_unlock: "J (kern s) \<Longrightarrow> \<exists>k. sys_mutex_unlock P (spi1_lock P) s = Some (s\<lparr>kern := k\<rparr>) \<and> J k"
    and calm_sleep: "J (kern s) \<Longrightarrow> \<exists>k. sys_sleep P n s = Some (s\<lparr>kern := k\<rparr>) \<and> J k"

sublocale calm_env \<subseteq> env: driver_env P A "\<lambda>s. J (kern s)" for A
proof
  fix s :: "'d machine" and s' and n :: u32 and st
  assume J: "J (kern s)"
  show "\<exists>s'. sys_mutex_lock P (spi1_lock P) s = Some s' \<and> J (kern s')" using calm_lock [OF J] by auto
  show "\<exists>s'. sys_mutex_unlock P (spi1_lock P) s = Some s' \<and> J (kern s')" using calm_unlock [OF J] by auto
  show "\<exists>s'. sys_sleep P n s = Some s' \<and> J (kern s')" using calm_sleep [OF J, of n] by auto
  show "J (kern s')" if "mem_step A s s'" using J mem_stepD(1) [OF that] by simp
  show "J (kern (s\<lparr>spi_state := st\<rparr>))" using J by simp
qed

text \<open>The bytes of a frame: its header, and its data or as many dummy bytes.\<close>

definition frame_out :: "spi_frame_t \<Rightarrow> mem \<Rightarrow> u8 list" where
  "frame_out f m = (if is_read f then replicate (unat (data_len f)) 0xFF
     else map (\<lambda>i. the (get_byte (tx_data f) i m)) [0..<unat (data_len f)])"

locale spi_link = calm_env P J + spi_slave "hw P" chip swap sel desel received lag
  for P :: "'d platform" and J and chip :: "'d \<Rightarrow> 'c" and swap sel desel received lag
begin

lemma drain:
  assumes "lag (dev s) = 0" "reg_read P (SPI1 + 8) s = (sr, s1)"
  shows "\<exists>d. (if sr AND SPI_SR_RXNE \<noteq> 0 then snd (reg_read P (SPI1 + 0xC) s1) else s1) = s\<lparr>dev := d\<rparr> \<and>
     idle d \<and> chip d = chip (dev s)"
proof -
  obtain d1 where r: "bus_read (hw P) (SPI1 + 8) (dev s) = (sr, d1)" "s1 = s\<lparr>dev := d1\<rparr>"
    using assms(2) by (auto simp: reg_read_def split: prod.splits)
  note sr = sr_read [OF r(1)]
  obtain v d2 where r2: "bus_read (hw P) (SPI1 + 0xC) d1 = (v, d2)" by (meson surj_pair)
  note dr = dr_read [OF _ r2]
  show ?thesis
  proof (cases "sr AND SPI_SR_RXNE \<noteq> 0")
    case True
    with sr dr r r2 assms(1) show ?thesis by (intro exI [of _ d2]) (simp add: idle_def reg_read_def)
  next
    case False
    with sr r assms(1) show ?thesis by (intro exI [of _ d1]) (simp add: idle_def)
  qed
qed

lemma selected_exchanged:
  assumes hd: "frame_header f = Array hs" "unat (header_len f) = length hs"
    and ok: "frame_ok f" "\<not> bad_frame f" and idle: "lag (dev s) = 0"
  shows "\<exists>d m rx. transfer_selected P f s = Some (SPI_OK, f\<lparr>rx_data := rx\<rparr>, s\<lparr>dev := d, umem := m\<rparr>) \<and>
     idle d \<and> chip d = desel (snd (exchange swap (hs @ frame_out f (umem s)) (sel (chip (dev s))))) \<and>
     (if is_read f
      then put_bytes (rx_data f) 0 (drop (length hs) (fst (exchange swap (hs @ frame_out f (umem s)) (sel (chip (dev s)))))) (umem s) = Some (rx, m)
      else rx = rx_data f \<and> m = umem s)"
proof -
  obtain sr s2 where sr: "reg_read P (SPI1 + 8) s = (sr, s2)" by (meson surj_pair)
  obtain d3 where d3: "(if sr AND SPI_SR_RXNE \<noteq> 0 then snd (reg_read P (SPI1 + 0xC) s2) else s2) = s\<lparr>dev := d3\<rparr>"
    "idle d3" "chip d3 = chip (dev s)" using drain [OF _ sr] idle by auto
  define d4 where "d4 = bus_write (hw P) (GPIOA + 0x18) (push_bit 20 1) d3"
  have low: "chip d4 = sel (chip d3)" "received d4 = received d3" "lag d4 = lag d3"
    using cs_low [OF _ d4_def] d3(2) by (simp_all add: idle_def)
  have sel: "spi1_cs_select P (s\<lparr>dev := d3\<rparr>) = s\<lparr>dev := d4\<rparr>" "idle d4"
    using low d3(2) by (simp_all add: spi1_cs_select_def GPIO_PIN_LOW_def reg_write_def d4_def SPI1_PIN_CS_def idle_def)
  obtain d5 where h: "header_loop P f 0 (s\<lparr>dev := d4\<rparr>) = Some (SPI_OK, s\<lparr>dev := d5\<rparr>)" "idle d5"
    "chip d5 = snd (exchange swap hs (sel (chip (dev s))))"
    using header_exchanges [OF refl hd, of "s\<lparr>dev := d4\<rparr>" 0] sel(2) low d3(3) by auto
  obtain d6 m rx where d: "data_loop P f 0 (s\<lparr>dev := d5\<rparr>) = Some (SPI_OK, f\<lparr>rx_data := rx\<rparr>, s\<lparr>dev := d6, umem := m\<rparr>)"
    "idle d6" "chip d6 = snd (exchange swap (frame_out f (umem s)) (chip d5))"
    "if is_read f then put_bytes (rx_data f) 0 (fst (exchange swap (frame_out f (umem s)) (chip d5))) (umem s) = Some (rx, m)
     else rx = rx_data f \<and> m = umem s"
  proof (cases "data_len f = 0")
    case True
    with that [of "rx_data f" "umem s" d5] h(2) show ?thesis by (simp add: data_loop_step(2) frame_out_def)
  next
    case nz: False
    show ?thesis
    proof (cases "is_read f")
      case True
      with data_read_exchanges [OF refl True, of "s\<lparr>dev := d5\<rparr>" 0] nz ok h(2) that show ?thesis
        by (auto simp: frame_ok_def bad_frame_def frame_out_def word_gt_0)
    next
      case False
      have "get_byte (tx_data f) i (umem s) = Some (frame_out f (umem s) ! i)" if "i < unat (data_len f)" for i
        using get_byte_ok [OF _ that, of "tx_data f" "umem s"] ok(1) False that by (auto simp: frame_ok_def frame_out_def)
      then obtain d where "data_loop P f 0 (s\<lparr>dev := d5\<rparr>) = Some (SPI_OK, f, s\<lparr>dev := d\<rparr>)" "idle d"
        "chip d = snd (exchange swap (frame_out f (umem s)) (chip d5))"
        using data_write_exchanges [OF refl False, of "frame_out f (umem s)" "s\<lparr>dev := d5\<rparr>" 0] False h(2)
        by (auto simp: frame_out_def)
      with False that [of "rx_data f" "umem s" d] show ?thesis by simp
    qed
  qed
  define d7 where "d7 = bus_write (hw P) (GPIOA + 0x18) (push_bit 4 1) d6"
  have high: "chip d7 = desel (chip d6)" "received d7 = received d6" "lag d7 = lag d6"
    using cs_high [OF _ d7_def] d(2) by (simp_all add: idle_def)
  have desel: "spi1_cs_deselect P (s\<lparr>dev := d6, umem := m\<rparr>) = s\<lparr>dev := d7, umem := m\<rparr>"
    by (simp add: spi1_cs_deselect_def GPIO_PIN_HIGH_def reg_write_def d7_def SPI1_PIN_CS_def)
  have "transfer_selected P f s = Some (SPI_OK, f\<lparr>rx_data := rx\<rparr>, s\<lparr>dev := d7, umem := m\<rparr>)"
    unfolding transfer_selected_def by (simp add: sr d3(1) sel(1) h(1) d(1) desel)
  with high d h(3) show ?thesis
    by (intro exI [of _ d7] exI [of _ m] exI [of _ rx]) (auto simp: exchange_append idle_def split: if_splits)
qed

lemma frame_exchanged:
  assumes st: "spi_state s \<noteq> SPI_ST_UNINIT" "spi_state s \<noteq> SPI_ST_FAULTED"
    and f: "frame_header f = Array hs" "unat (header_len f) = length hs" "frame_ok f" "\<not> bad_frame f"
    and J: "J (kern s)" and idle: "lag (dev s) = 0"
  shows "\<exists>k d m rx. spi1_transfer_frame P f s = Some (SPI_OK, f\<lparr>rx_data := rx\<rparr>, s\<lparr>kern := k, dev := d, umem := m\<rparr>) \<and>
     J k \<and> idle d \<and> chip d = desel (snd (exchange swap (hs @ frame_out f (umem s)) (sel (chip (dev s))))) \<and>
     (if is_read f
      then put_bytes (rx_data f) 0 (drop (length hs) (fst (exchange swap (hs @ frame_out f (umem s)) (sel (chip (dev s)))))) (umem s) = Some (rx, m)
      else rx = rx_data f \<and> m = umem s)"
proof -
  obtain k1 where lock: "sys_mutex_lock P (spi1_lock P) s = Some (s\<lparr>kern := k1\<rparr>)" "J k1" using calm_lock [OF J] by blast
  let ?s1 = "s\<lparr>kern := k1\<rparr>"
  obtain d m rx where t: "transfer_selected P f ?s1 = Some (SPI_OK, f\<lparr>rx_data := rx\<rparr>, ?s1\<lparr>dev := d, umem := m\<rparr>)"
    "idle d" "chip d = desel (snd (exchange swap (hs @ frame_out f (umem ?s1)) (sel (chip (dev ?s1)))))"
    "if is_read f
     then put_bytes (rx_data f) 0 (drop (length hs) (fst (exchange swap (hs @ frame_out f (umem ?s1)) (sel (chip (dev ?s1)))))) (umem ?s1) = Some (rx, m)
     else rx = rx_data f \<and> m = umem ?s1"
    using selected_exchanged [OF f, of ?s1] idle by fastforce
  have comm: "s\<lparr>kern := k1, dev := d, umem := m, kern := k\<rparr> = s\<lparr>kern := k, dev := d, umem := m\<rparr>" for k by simp
  obtain k2 where "sys_mutex_unlock P (spi1_lock P) (s\<lparr>kern := k1, dev := d, umem := m\<rparr>) = Some (s\<lparr>kern := k2, dev := d, umem := m\<rparr>)" "J k2"
    using calm_unlock [of "s\<lparr>kern := k1, dev := d, umem := m\<rparr>"] lock(2) unfolding comm by auto
  with lock(1) t st f(4) show ?thesis
    by (intro exI [of _ k2] exI [of _ d] exI [of _ m] exI [of _ rx])
      (simp add: spi1_transfer_frame_alt cong: if_cong del: bind_eq_Some_conv)
qed

end

section \<open>The bus and the kernel, executable\<close>

text \<open>A bus that answers three polls after a byte was written; its transmit buffer is empty at once. Before
  that the data register reads as 0.\<close>

record 'c spi_dev =
  dev_rx :: "u8 option"
  dev_lag :: nat
  dev_chip :: 'c

definition spi_bus :: "(u8 \<Rightarrow> 'c \<Rightarrow> u8 \<times> 'c) \<Rightarrow> ('c \<Rightarrow> 'c) \<Rightarrow> ('c \<Rightarrow> 'c) \<Rightarrow> 'c spi_dev bus" where
  "spi_bus swap sel desel =
     \<lparr>bus_read = (\<lambda>a d.
        if a = SPI1 + 8
        then (SPI_SR_TXE OR (if dev_lag d = 0 \<and> dev_rx d \<noteq> None then SPI_SR_RXNE else 0),
              d\<lparr>dev_lag := dev_lag d - 1\<rparr>)
        else if a = SPI1 + 0xC \<and> dev_lag d = 0
        then (case dev_rx d of None \<Rightarrow> 0 | Some b \<Rightarrow> ucast b, d\<lparr>dev_rx := None\<rparr>)
        else (0, d)),
      bus_write = (\<lambda>a v d.
        if a = SPI1 + 0xC
        then (let (r, c) = swap (ucast v) (dev_chip d) in d\<lparr>dev_rx := Some r, dev_lag := 3, dev_chip := c\<rparr>)
        else if a = GPIOA + 0x18 \<and> v = push_bit 20 1 then d\<lparr>dev_chip := sel (dev_chip d)\<rparr>
        else if a = GPIOA + 0x18 \<and> v = push_bit 4 1 then d\<lparr>dev_chip := desel (dev_chip d)\<rparr>
        else d)\<rparr>"

interpretation spi_dev: spi_slave "spi_bus swap sel desel" dev_chip swap sel desel dev_rx dev_lag for swap sel desel
  by unfold_locales
    (auto simp: spi_bus_def SPI1_def GPIOA_def SPI_SR_TXE_def SPI_SR_RXNE_def SPI_SPIN_LIMIT_def case_prod_unfold Let_def
      split: if_splits option.splits)

text \<open>
  A task of priority 0 runs, only the idle task is ready; the lock of the bus is the first mutex of the
  pool. While the task sleeps, the others wake it again.
\<close>

definition ex_bus_kernel :: "ptr \<Rightarrow> kernel" where
  "ex_bus_kernel owner = zero_kernel
     \<lparr>tcbs := (\<lambda>_. zero_tcb)
        (0x20000400 := (task_with TASK_RUNNING 0)\<lparr>owned_mutexes := if owner = 0 then 0 else 0x20000800\<rparr>,
         0x20000438 := task_with TASK_READY 255),
      mutexes := (\<lambda>_. zero_mutex)(0x20000800 := zero_mutex\<lparr>mutex_owner := owner\<rparr>),
      ready_queue := \<lparr>q_head = 0x20000438, q_tail = 0x20000438\<rparr>, current_task := 0x20000400\<rparr>"

definition ex_bus_platform :: "'d bus \<Rightarrow> 'd platform" where
  "ex_bus_platform b = (plain_platform b)\<lparr>spi1_lock := 0x20000800,
     others := \<lambda>s. Some (s\<lparr>kern := ex_bus_kernel (mutex_owner (mutexes (kern s) 0x20000800))\<rparr>)\<rparr>"

definition ex_bus_ok :: "kernel \<Rightarrow> bool" where
  "ex_bus_ok k \<longleftrightarrow> k = ex_bus_kernel 0 \<or> k = ex_bus_kernel 0x20000400"

lemma ex_bus_mutex:
  "mutex_lock 0x20000800 (ex_bus_kernel 0) = Some (SEM_OK, ex_bus_kernel 0x20000400)"
  "mutex_lock 0x20000800 (ex_bus_kernel 0x20000400) = Some (MUTEX_DEADLOCK, ex_bus_kernel 0x20000400)"
  "mutex_unlock 0x20000800 (ex_bus_kernel 0) = Some (MUTEX_NOT_OWNER, ex_bus_kernel 0)"
  "mutex_unlock 0x20000800 (ex_bus_kernel 0x20000400) = Some (SEM_OK, ex_bus_kernel 0)"
  by (simp_all add: ex_bus_kernel_def mutex_lock_def mutex_unlock_def mutex_queue_push_def mutex_queue_remove_def
      task_queue_defs task_recalculate_priority_def recalculate_loop.simps upd_task_def upd_mutex_def set_owned_def
      zero_kernel_def zero_mutex_def task_with_def zero_tcb_def fun_eq_iff)

lemma ex_bus_sleep:
  assumes "owner = 0 \<or> owner = 0x20000400"
  shows "\<exists>k. sleep_for_ticks n (ex_bus_kernel owner) = Some k \<and>
     (\<not> pendsv_set (request_context_switch 11 k) \<longrightarrow> request_context_switch 11 k = ex_bus_kernel owner) \<and>
     mutex_owner (mutexes (request_context_switch 11 k) 0x20000800) = owner"
  using assms
  by (auto simp: ex_bus_kernel_def sleep_for_ticks_def request_context_switch_def scheduler_next_task_def sleep_queue_push_def)

lemma ex_bus_pend: "\<not> pendsv_set (ex_bus_kernel owner)"
  by (simp add: ex_bus_kernel_def)

lemma ex_bus_valid: "validate_mutex (lay (ex_bus_platform b)) 0x20000800" "spi1_lock (ex_bus_platform b) = 0x20000800"
  by (simp_all add: validate_mutex_def ex_bus_platform_def plain_platform_def ex_layout_def)

interpretation ex_bus: calm_env "ex_bus_platform b" ex_bus_ok for b :: "'d bus"
proof
  fix s :: "'d machine" and n
  assume k: "ex_bus_ok (kern s)"
  let ?P = "ex_bus_platform b"
  note lock_defs = sys_mutex_lock_def sys_mutex_unlock_def svc_call_def svc_mutex_lock_def svc_mutex_unlock_def
    svc_finish_def svc_return_def ex_bus_valid ex_bus_pend
  have "sys_mutex_lock ?P (spi1_lock ?P) s = Some (s\<lparr>kern := ex_bus_kernel 0x20000400\<rparr>)"
    using k unfolding ex_bus_ok_def by (elim disjE) (simp_all add: lock_defs ex_bus_mutex del: bind_eq_Some_conv)
  then show "\<exists>k. sys_mutex_lock ?P (spi1_lock ?P) s = Some (s\<lparr>kern := k\<rparr>) \<and> ex_bus_ok k"
    by (auto simp: ex_bus_ok_def)
  have "sys_mutex_unlock ?P (spi1_lock ?P) s = Some (s\<lparr>kern := ex_bus_kernel 0\<rparr>)"
    using k unfolding ex_bus_ok_def by (elim disjE) (simp_all add: lock_defs ex_bus_mutex del: bind_eq_Some_conv)
  then show "\<exists>k. sys_mutex_unlock ?P (spi1_lock ?P) s = Some (s\<lparr>kern := k\<rparr>) \<and> ex_bus_ok k"
    by (auto simp: ex_bus_ok_def)
  show "\<exists>k. sys_sleep ?P n s = Some (s\<lparr>kern := k\<rparr>) \<and> ex_bus_ok k"
  proof -
    obtain owner where o: "kern s = ex_bus_kernel owner" "owner = 0 \<or> owner = 0x20000400"
      using k unfolding ex_bus_ok_def by blast
    obtain k1 where k1: "sleep_for_ticks n (ex_bus_kernel owner) = Some k1"
      "\<not> pendsv_set (request_context_switch 11 k1) \<longrightarrow> request_context_switch 11 k1 = ex_bus_kernel owner"
      "mutex_owner (mutexes (request_context_switch 11 k1) 0x20000800) = owner" using ex_bus_sleep [OF o(2)] by blast
    have "sys_sleep ?P n s = Some (s\<lparr>kern := ex_bus_kernel owner\<rparr>)"
      using k1 by (simp add: sys_sleep_def svc_call_def svc_sleep_def svc_finish_def svc_return_def on_kern_def
          o(1) ex_bus_platform_def)
    with o(2) show ?thesis by (auto simp: ex_bus_ok_def)
  qed
qed

context calm_env
begin

text \<open>The state after a transfer: latched by a time-out, else as before.\<close>

lemma frame_latches:
  assumes J: "J (kern s)" and ok: "frame_ok f" and t: "spi1_transfer_frame P f s = Some (ret, f', s')"
  shows "spi_state s' = (if ret = SPI_ERR_TIMEOUT then SPI_ST_FAULTED else spi_state s)" "J (kern s')"
proof -
  obtain k1 where lock: "sys_mutex_lock P (spi1_lock P) s = Some (s\<lparr>kern := k1\<rparr>)" "J k1" using calm_lock [OF J] by blast
  obtain r rx d m where sel: "transfer_selected P f (s\<lparr>kern := k1\<rparr>) = Some (r, f\<lparr>rx_data := rx\<rparr>,
      s\<lparr>kern := k1, dev := d, umem := m, spi_state := if r = SPI_ERR_TIMEOUT then SPI_ST_FAULTED else spi_state (s\<lparr>kern := k1\<rparr>)\<rparr>)"
    using transfer_selected_returns [OF ok, of P "s\<lparr>kern := k1\<rparr>"] by blast
  let ?s = "s\<lparr>kern := k1, dev := d, umem := m, spi_state := if r = SPI_ERR_TIMEOUT then SPI_ST_FAULTED else spi_state s\<rparr>"
  obtain k2 where u: "sys_mutex_unlock P (spi1_lock P) ?s = Some (?s\<lparr>kern := k2\<rparr>)" "J k2"
    using calm_unlock [of ?s] lock(2) by auto
  have "spi_state s' = (if ret = SPI_ERR_TIMEOUT then SPI_ST_FAULTED else spi_state s) \<and> J (kern s')"
  proof (cases "spi_state s = SPI_ST_UNINIT \<or> bad_frame f \<or> spi_state s = SPI_ST_FAULTED")
    case True
    with t J show ?thesis by (auto simp: spi1_transfer_frame_alt split: if_splits)
  next
    case False
    then have "spi1_transfer_frame P f s = Some (r, f\<lparr>rx_data := rx\<rparr>, ?s\<lparr>kern := k2\<rparr>)"
      using lock(1) sel u(1) by (cases "r = SPI_ERR_TIMEOUT") (simp_all add: spi1_transfer_frame_alt del: bind_eq_Some_conv)
    with t u(2) show ?thesis by auto
  qed
  then show "spi_state s' = (if ret = SPI_ERR_TIMEOUT then SPI_ST_FAULTED else spi_state s)" "J (kern s')" by blast+
qed

lemma recover_ready:
  assumes "J (kern s)" "spi_state s = SPI_ST_FAULTED"
  shows "\<exists>s'. spi1_recover P s = Some (SPI_OK, s') \<and> spi_state s' = SPI_ST_READY \<and> J (kern s')"
proof -
  obtain k1 where lock: "sys_mutex_lock P (spi1_lock P) s = Some (s\<lparr>kern := k1\<rparr>)" "J k1" using calm_lock [OF assms(1)] by blast
  obtain s2 where c: "spi1_configure P (s\<lparr>kern := k1, spi_state := SPI_ST_UNINIT\<rparr>) = (SPI_OK, s2)" "kern s2 = k1"
    using configure_kern [of "s\<lparr>kern := k1, spi_state := SPI_ST_UNINIT\<rparr>" P] by auto
  obtain v s3 where r: "reg_read P (SPI1 + 0xC) s2 = (v, s3)" by (meson surj_pair)
  let ?s = "s3\<lparr>spi_state := SPI_ST_READY\<rparr>"
  have "J (kern ?s)" using dev_stepD(1) [OF reg_read_dev_step [OF r]] c(2) lock(2) by simp
  then obtain k2 where "sys_mutex_unlock P (spi1_lock P) ?s = Some (?s\<lparr>kern := k2\<rparr>)" "J k2" using calm_unlock by blast
  then show ?thesis using assms(2) lock(1) c(1) r by (auto simp: spi1_recover_def)
qed

end

section \<open>Properties\<close>

text \<open>An example: a read of two bytes on a bus whose status register never shows any bit set.\<close>

definition ex_frame :: spi_frame_t where
  "ex_frame = \<lparr>frame_header = Array [0, 0x39, 0], header_len = 3, tx_data = Null, rx_data = Array [0, 0], data_len = 2,
     is_read = True\<rparr>"

definition dead_bus :: "unit bus" where
  "dead_bus = \<lparr>bus_read = (\<lambda>a d. (0, d)), bus_write = (\<lambda>a v d. d)\<rparr>"

text \<open>Whatever the hardware does, the transfer of a frame ends after a bounded number of polls of
  the status register, accesses its arrays only within their bounds, and writes to no memory but the
  receive buffer: every property \<open>I\<close> of the machine that the kernel calls, the devices and writes to the
  buffer keep holds afterwards.\<close>

theorem spi_transfer_frame_safe:
  assumes "driver_env P A I" "frame_ok f" "rx_block f \<subseteq> A" "I s"
  shows "\<exists>ret rx s'. spi1_transfer_frame P f s = Some (ret, f\<lparr>rx_data := rx\<rparr>, s') \<and> same_shape (rx_data f) rx \<and> I s'"
  by (rule driver_env.transfer_frame_returns [OF assms])

theorem spi_transfer_frame_safe_witness:
  "\<exists>ret rx s'. spi1_transfer_frame (ex_bus_platform dead_bus) ex_frame (idle_machine (ex_bus_kernel 0) ex_heap ()) =
     Some (ret, ex_frame\<lparr>rx_data := rx\<rparr>, s') \<and> same_shape (Array [0, 0]) rx \<and> ex_bus_ok (kern s')"
  using spi_transfer_frame_safe [OF ex_bus.env.driver_env_axioms [where A = "{}"], of ex_frame "idle_machine (ex_bus_kernel 0) ex_heap ()"]
  by (simp add: ex_frame_def frame_ok_def rx_block_def idle_machine_def ex_bus_ok_def)

text \<open>C27: A frame is transferred faithfully: on a bus as its manual describes it, the device is selected,
  exchanges exactly the bytes of the header followed by the data - dummy bytes when reading - and is
  deselected; what it answered after the header is in the receive buffer. The result is \<open>SPI_OK\<close>.\<close>

theorem spi_frame_exchange:
  assumes "spi_link P J chip swap sel desel received lag"
    and "spi_state s \<noteq> SPI_ST_UNINIT" "spi_state s \<noteq> SPI_ST_FAULTED"
    and "frame_header f = Array hs" "unat (header_len f) = length hs" "frame_ok f" "\<not> bad_frame f"
    and "J (kern s)" "lag (dev s) = 0"
  shows "\<exists>k d m rx. spi1_transfer_frame P f s = Some (SPI_OK, f\<lparr>rx_data := rx\<rparr>, s\<lparr>kern := k, dev := d, umem := m\<rparr>) \<and>
     J k \<and> lag d = 0 \<and> chip d = desel (snd (exchange swap (hs @ frame_out f (umem s)) (sel (chip (dev s))))) \<and>
     (if is_read f
      then put_bytes (rx_data f) 0 (drop (length hs) (fst (exchange swap (hs @ frame_out f (umem s)) (sel (chip (dev s)))))) (umem s) = Some (rx, m)
      else rx = rx_data f \<and> m = umem s)"
  using spi_link.frame_exchanged [OF assms] spi_slave.idle_def [OF spi_link.axioms(2) [OF assms(1)]] by blast

text \<open>An example: a device that counts the bytes it is sent and answers each with the count.\<close>

definition count_bus :: "nat spi_dev bus" where
  "count_bus = spi_bus (\<lambda>b n. (of_nat n, Suc n)) id id"

lemma count_link: "spi_link (ex_bus_platform count_bus) ex_bus_ok dev_chip (\<lambda>b n. (of_nat n, Suc n)) id id dev_rx dev_lag"
  unfolding spi_link_def
  using ex_bus.calm_env_axioms spi_dev.spi_slave_axioms [of "\<lambda>b n. (of_nat n, Suc n)" id id]
  by (simp add: ex_bus_platform_def plain_platform_def count_bus_def)

definition count_machine :: "nat spi_dev machine" where
  "count_machine = (idle_machine (ex_bus_kernel 0) ex_heap \<lparr>dev_rx = None, dev_lag = 0, dev_chip = 0\<rparr>)
     \<lparr>spi_state := SPI_ST_READY\<rparr>"

theorem spi_frame_exchange_witness:
  "\<exists>k d m. spi1_transfer_frame (ex_bus_platform count_bus) ex_frame count_machine =
     Some (SPI_OK, ex_frame\<lparr>rx_data := Array [3, 4]\<rparr>, count_machine\<lparr>kern := k, dev := d, umem := m\<rparr>) \<and> dev_chip d = 5"
proof -
  have f: "frame_header ex_frame = Array [0, 0x39, 0]" "unat (header_len ex_frame) = length [0, 0x39, 0 :: u8]"
    "frame_ok ex_frame" "\<not> bad_frame ex_frame" "is_read ex_frame" "rx_data ex_frame = Array [0, 0]"
    by (simp_all add: ex_frame_def frame_ok_def bad_frame_def)
  have s: "spi_state count_machine = SPI_ST_READY" "ex_bus_ok (kern count_machine)" "dev_lag (dev count_machine) = 0"
    "dev_chip (dev count_machine) = 0" by (simp_all add: count_machine_def idle_machine_def ex_bus_ok_def)
  have "frame_out ex_frame m = [0xFF, 0xFF]" for m by (simp add: frame_out_def ex_frame_def) (simp add: eval_nat_numeral)
  then have bytes: "exchange (\<lambda>b n. (of_nat n, Suc n)) ([0, 0x39, 0] @ frame_out ex_frame m) (id 0) = ([0, 1, 2, 3, 4], 5)" for m
    by (simp add: exchange.simps)
  from spi_frame_exchange [OF count_link _ _ f(1-4), of count_machine] obtain k d m rx where t:
    "spi1_transfer_frame (ex_bus_platform count_bus) ex_frame count_machine = Some (SPI_OK, ex_frame\<lparr>rx_data := rx\<rparr>, count_machine\<lparr>kern := k, dev := d, umem := m\<rparr>)"
    "dev_chip d = 5" "put_bytes (Array [0, 0]) 0 [3, 4] (umem count_machine) = Some (rx, m)"
    unfolding s(4) bytes f(6) using s(1-3) f(5) by auto
  then have "rx = Array [3, 4]" by simp
  with t show ?thesis by blast
qed

text \<open>C28: A time-out is latched, and only a time-out: after it every transfer is refused without an access
  to the bus, until recovery, which always succeeds and makes the driver ready again. A transfer before
  the configuration, or of a frame that lacks a buffer, is refused.\<close>

theorem spi_faults_latched:
  assumes "calm_env P J" "J (kern s)" "frame_ok f" "spi1_transfer_frame P f s = Some (ret, f', s')"
  shows "spi_state s' = (if ret = SPI_ERR_TIMEOUT then SPI_ST_FAULTED else spi_state s) \<and>
     (spi_state s = SPI_ST_FAULTED \<longrightarrow> ret \<in> {SPI_ERR_FAULT, SPI_ERR_ARG} \<and> s' = s) \<and>
     (spi_state s = SPI_ST_UNINIT \<or> bad_frame f \<longrightarrow> ret = SPI_ERR_ARG \<and> s' = s) \<and>
     (spi_state s' = SPI_ST_FAULTED \<longrightarrow> (\<exists>s''. spi1_recover P s' = Some (SPI_OK, s'') \<and> spi_state s'' = SPI_ST_READY))"
proof -
  note l = calm_env.frame_latches [OF assms]
  have "spi_state s' = SPI_ST_FAULTED \<longrightarrow> (\<exists>s''. spi1_recover P s' = Some (SPI_OK, s'') \<and> spi_state s'' = SPI_ST_READY)"
    using calm_env.recover_ready [OF assms(1) l(2)] by blast
  moreover have "spi_state s = SPI_ST_UNINIT \<or> bad_frame f \<Longrightarrow> ret = SPI_ERR_ARG \<and> s' = s"
    using assms(4) by (simp add: spi1_transfer_frame_alt)
  moreover have "spi_state s = SPI_ST_FAULTED \<Longrightarrow> ret \<in> {SPI_ERR_FAULT, SPI_ERR_ARG} \<and> s' = s"
    using assms(4) by (cases "bad_frame f") (simp_all add: spi1_transfer_frame_alt)
  ultimately show ?thesis using l(1) by blast
qed

theorem spi_faults_latched_witness:
  "\<exists>rx s'. spi1_transfer_frame (ex_bus_platform dead_bus) ex_frame
       ((idle_machine (ex_bus_kernel 0) ex_heap ())\<lparr>spi_state := SPI_ST_FAULTED\<rparr>) = Some (SPI_ERR_FAULT, ex_frame, s') \<and>
     spi_state s' = SPI_ST_FAULTED \<and>
     (\<exists>s''. spi1_recover (ex_bus_platform dead_bus) s' = Some (SPI_OK, s'') \<and> spi_state s'' = SPI_ST_READY)"
proof -
  let ?s = "(idle_machine (ex_bus_kernel 0) ex_heap ())\<lparr>spi_state := SPI_ST_FAULTED\<rparr>"
  have t: "spi1_transfer_frame (ex_bus_platform dead_bus) ex_frame ?s = Some (SPI_ERR_FAULT, ex_frame, ?s)"
    by (simp add: spi1_transfer_frame_def ex_frame_def)
  show ?thesis
    using spi_faults_latched [OF ex_bus.calm_env_axioms _ _ t] t
    by (auto simp: idle_machine_def ex_bus_ok_def ex_frame_def frame_ok_def)
qed

end
