(* ===== verification/W5500.thy ===== *)
theory W5500
  imports Spi Printf
begin

unbundle bit_operations_syntax

text \<open>
  The driver of the W5500 network chip (\<^verbatim>\<open>source/drivers/w5500.c\<close>, \<^verbatim>\<open>include/drivers/w5500.h\<close>). Every
  function returns the status of the source next to the new values of the variables it was given by
  address, and the machine; \<open>None\<close> if a call of the kernel does not come back or a local array is
  accessed outside its bounds. \<open>or_return\<close> is the idiom \<open>ret = call; if (ret != W5500_OK) return ...\<close>.
\<close>

section \<open>Data\<close>

datatype w5500_status_t = W5500_OK | W5500_ERR_TRANSIENT | W5500_ERR_FAULT | W5500_ERR_UNSTABLE
  | W5500_ERR_STATE | W5500_ERR_ARG | W5500_ERR_UNREACHABLE

fun status_code :: "w5500_status_t \<Rightarrow> u32" where
  "status_code W5500_OK = 0"
| "status_code W5500_ERR_TRANSIENT = 1"
| "status_code W5500_ERR_FAULT = 2"
| "status_code W5500_ERR_UNSTABLE = 3"
| "status_code W5500_ERR_STATE = 4"
| "status_code W5500_ERR_ARG = 5"
| "status_code W5500_ERR_UNREACHABLE = 6"

fun protocol_code :: "socket_protocol_t \<Rightarrow> u8" where
  "protocol_code CLOSED = 0b0000"
| "protocol_code TCP = 0b0001"
| "protocol_code UDP = 0b0010"
| "protocol_code MACRAW = 0b0100"

definition W5500_GAR :: u16 where "W5500_GAR = 0x0001"
definition W5500_SUBR :: u16 where "W5500_SUBR = 0x0005"
definition W5500_SHAR :: u16 where "W5500_SHAR = 0x0009"
definition W5500_SIPR :: u16 where "W5500_SIPR = 0x000F"
definition W5500_PHYCFGR :: u16 where "W5500_PHYCFGR = 0x002E"
definition W5500_VERSIONR :: u16 where "W5500_VERSIONR = 0x0039"

definition W5500_BSB_COMMON :: u8 where "W5500_BSB_COMMON = 0x00"
definition W5500_BSB_SOCK_REG :: "u8 \<Rightarrow> u8" where "W5500_BSB_SOCK_REG n = 1 + push_bit 2 n"
definition BSB_TX :: "u8 \<Rightarrow> u8" where "BSB_TX n = 2 + push_bit 2 n"
definition BSB_RX :: "u8 \<Rightarrow> u8" where "BSB_RX n = 3 + push_bit 2 n"

definition SOCKET_MR :: u16 where "SOCKET_MR = 0x00"
definition SOCKET_CR :: u16 where "SOCKET_CR = 0x01"
definition SOCKET_IR :: u16 where "SOCKET_IR = 0x02"
definition SOCKET_SR :: u16 where "SOCKET_SR = 0x03"
definition SOCKET_PORT :: u16 where "SOCKET_PORT = 0x04"
definition SOCKET_DHAR :: u16 where "SOCKET_DHAR = 0x06"
definition SOCKET_DIPR :: u16 where "SOCKET_DIPR = 0x0C"
definition SOCKET_DPORT :: u16 where "SOCKET_DPORT = 0x10"
definition SOCKET_TX_FSR :: u16 where "SOCKET_TX_FSR = 0x20"
definition SOCKET_TX_RD :: u16 where "SOCKET_TX_RD = 0x22"
definition SOCKET_TX_WR :: u16 where "SOCKET_TX_WR = 0x24"
definition SOCKET_RX_RSR :: u16 where "SOCKET_RX_RSR = 0x26"
definition SOCKET_RX_RD :: u16 where "SOCKET_RX_RD = 0x28"

definition SOCKET_CMD_OPEN :: u8 where "SOCKET_CMD_OPEN = 0x01"
definition SOCKET_CMD_CLOSE :: u8 where "SOCKET_CMD_CLOSE = 0x10"
definition SOCKET_CMD_SEND :: u8 where "SOCKET_CMD_SEND = 0x20"
definition SOCKET_CMD_SEND_MAC :: u8 where "SOCKET_CMD_SEND_MAC = 0x21"
definition SOCKET_CMD_RECV :: u8 where "SOCKET_CMD_RECV = 0x40"

definition SOCKET_SR_INIT :: u8 where "SOCKET_SR_INIT = 0x13"
definition SOCKET_SR_UDP :: u8 where "SOCKET_SR_UDP = 0x22"
definition SOCKET_IR_TIMEOUT :: u8 where "SOCKET_IR_TIMEOUT = 0x08"
definition SOCKET_IR_SENDOK :: u8 where "SOCKET_IR_SENDOK = 0x10"
definition SOCK_CLOSED :: u8 where "SOCK_CLOSED = 0x00"

definition INIT_ATTEMPTS :: nat where "INIT_ATTEMPTS = 5"
definition OPEN_MAX_TRIES :: nat where "OPEN_MAX_TRIES = 5"
definition CLOSE_MAX_TRIES :: nat where "CLOSE_MAX_TRIES = 5"
definition SEND_TRIES :: nat where "SEND_TRIES = 5"
definition W5500_RESET_PIN :: nat where "W5500_RESET_PIN = 1"

section \<open>Helpers\<close>

text \<open>\<open>err\<close> handles a status other than \<open>W5500_OK\<close>; both continuations get what the call returned.\<close>

definition or_return ::
  "(w5500_status_t \<times> 'y) option \<Rightarrow> (w5500_status_t \<Rightarrow> 'y \<Rightarrow> 'r option) \<Rightarrow> ('y \<Rightarrow> 'r option) \<Rightarrow> 'r option" where
  "or_return call err cont = do { (ret, y) \<leftarrow> call; if ret \<noteq> W5500_OK then err ret y else cont y }"

text \<open>\<open>kprintf\<close> of a string literal.\<close>

definition chars :: "string \<Rightarrow> u8 list" where
  "chars = map of_char"

definition printk ::
  "'d platform \<Rightarrow> (ptr \<Rightarrow> 'd machine driver_t) \<Rightarrow> u8 list \<Rightarrow> u32 list \<Rightarrow> 'd machine \<Rightarrow> 'd machine option" where
  "printk P D fmt args s =
     map_option snd (kprintf D (junk P 10) (junk P KPRINTF_BUF_SIZE) (literal P fmt) args s)"

definition upd_socket :: "ptr \<Rightarrow> (socket_t \<Rightarrow> socket_t) \<Rightarrow> 'd machine \<Rightarrow> 'd machine" where
  "upd_socket p f s = s\<lparr>sockets := (sockets s)(p := f (sockets s p))\<rparr>"

definition sock_reg :: "ptr \<Rightarrow> 'd machine \<Rightarrow> u8" where
  "sock_reg socket s = W5500_BSB_SOCK_REG (sock_number (sockets s socket))"

section \<open>Access to the registers of the chip\<close>

definition read_frame :: "buffer \<Rightarrow> u32 \<Rightarrow> spi_frame_t" where
  "read_frame rx n = \<lparr>frame_header = Null, header_len = 0, tx_data = Null, rx_data = rx, data_len = n, is_read = True\<rparr>"

definition write_frame :: "buffer \<Rightarrow> u32 \<Rightarrow> spi_frame_t" where
  "write_frame tx n = \<lparr>frame_header = Null, header_len = 0, tx_data = tx, rx_data = Null, data_len = n, is_read = False\<rparr>"

definition w5500_control :: "u8 \<Rightarrow> bool \<Rightarrow> u8" where
  "w5500_control bsb rd = (push_bit 3 bsb OR push_bit 0 0b00) OR (if rd then push_bit 2 0 else push_bit 2 1)"

fun status_of_spi :: "spi_return_t \<Rightarrow> w5500_status_t" where
  "status_of_spi SPI_ERR_ARG = W5500_ERR_ARG"
| "status_of_spi SPI_ERR_TIMEOUT = W5500_ERR_TRANSIENT"
| "status_of_spi SPI_ERR_FAULT = W5500_ERR_FAULT"
| "status_of_spi SPI_OK = W5500_OK"

text \<open>The result includes the receive buffer of the frame.\<close>

definition w5500_transfer ::
  "'d platform \<Rightarrow> u16 \<Rightarrow> u8 \<Rightarrow> spi_frame_t \<Rightarrow> 'd machine \<Rightarrow> (w5500_status_t \<times> buffer \<times> 'd machine) option" where
  "w5500_transfer P addr bsb frame s = do {
     let control = w5500_control bsb (is_read frame);
     let h = [ucast (drop_bit 8 addr AND 0xFF), ucast (addr AND 0xFF), control];
     let my_frame = \<lparr>frame_header = Array h, header_len = 3, tx_data = tx_data frame, rx_data = rx_data frame,
                     data_len = data_len frame, is_read = is_read frame\<rparr>;
     (spi_ret, my_frame, s) \<leftarrow> spi1_transfer_frame P my_frame s;
     Some (status_of_spi spi_ret, rx_data my_frame, s)
   }"

definition w5500_write :: "'d platform \<Rightarrow> u16 \<Rightarrow> u8 \<Rightarrow> spi_frame_t \<Rightarrow> 'd machine \<Rightarrow> (w5500_status_t \<times> 'd machine) option" where
  "w5500_write P addr bsb frame s = do { (ret, rx, s) \<leftarrow> w5500_transfer P addr bsb frame s; Some (ret, s) }"

definition w5500_read8 ::
  "'d platform \<Rightarrow> u16 \<Rightarrow> u8 \<Rightarrow> u8 \<Rightarrow> 'd machine \<Rightarrow> (w5500_status_t \<times> u8 \<times> 'd machine) option" where
  "w5500_read8 P addr bsb d s = do {
     (ret, rx, s) \<leftarrow> w5500_transfer P addr bsb (read_frame (Array [d]) 1) s;
     d \<leftarrow> get_byte rx 0 (umem s);
     Some (ret, d, s)
   }"

definition w5500_write8 ::
  "'d platform \<Rightarrow> u16 \<Rightarrow> u8 \<Rightarrow> u8 \<Rightarrow> 'd machine \<Rightarrow> (w5500_status_t \<times> 'd machine) option" where
  "w5500_write8 P addr bsb v s = w5500_write P addr bsb (write_frame (Array [v]) 1) s"

definition be16 :: "u8 \<Rightarrow> u8 \<Rightarrow> u16" where
  "be16 hi lo = push_bit 8 (ucast hi) OR ucast lo"

definition w5500_read16 ::
  "'d platform \<Rightarrow> u16 \<Rightarrow> u8 \<Rightarrow> u16 \<Rightarrow> 'd machine \<Rightarrow> (w5500_status_t \<times> u16 \<times> 'd machine) option" where
  "w5500_read16 P addr bsb d s = do {
     (ret, v, s) \<leftarrow> w5500_transfer P addr bsb (read_frame (Array [0, 0]) 2) s;
     v0 \<leftarrow> get_byte v 0 (umem s);
     v1 \<leftarrow> get_byte v 1 (umem s);
     Some (ret, if ret = W5500_OK then be16 v0 v1 else d, s)
   }"

function stable_loop ::
  "'d platform \<Rightarrow> u16 \<Rightarrow> u8 \<Rightarrow> u16 \<Rightarrow> u16 \<Rightarrow> nat \<Rightarrow> 'd machine \<Rightarrow> (w5500_status_t \<times> u16 \<times> nat \<times> 'd machine) option" where
  "stable_loop P addr bsb a b iterations s = do {
     (ret, a, s) \<leftarrow> w5500_read16 P addr bsb a s;
     if ret \<noteq> W5500_OK then Some (ret, a, iterations, s)
     else do {
       (ret, b, s) \<leftarrow> w5500_read16 P addr bsb b s;
       if ret \<noteq> W5500_OK then Some (ret, a, iterations, s)
       else if a \<noteq> b
       then if iterations + 1 < 255 then stable_loop P addr bsb a b (iterations + 1) s
            else Some (W5500_OK, a, iterations + 1, s)
       else Some (W5500_OK, a, iterations, s)
     }
   }"
  by pat_completeness auto
termination
  by (relation "measure (\<lambda>(P, addr, bsb, a, b, iterations, s). 255 - iterations)") auto

declare stable_loop.simps [simp del]

text \<open>The two uninitialised variables of the loop are assigned before they are read.\<close>

definition w5500_read16_stable ::
  "'d platform \<Rightarrow> u16 \<Rightarrow> u8 \<Rightarrow> u16 \<Rightarrow> 'd machine \<Rightarrow> (w5500_status_t \<times> u16 \<times> 'd machine) option" where
  "w5500_read16_stable P addr bsb d s = do {
     (ret, a, iterations, s) \<leftarrow> stable_loop P addr bsb 0 0 0 s;
     if ret \<noteq> W5500_OK then Some (ret, d, s)
     else if iterations = 255 then Some (W5500_ERR_UNSTABLE, d, s)
     else Some (ret, a, s)
   }"

definition w5500_write16 ::
  "'d platform \<Rightarrow> u16 \<Rightarrow> u8 \<Rightarrow> u16 \<Rightarrow> 'd machine \<Rightarrow> (w5500_status_t \<times> 'd machine) option" where
  "w5500_write16 P addr bsb d s =
     w5500_write P addr bsb (write_frame (Array [ucast (drop_bit 8 d), ucast (d AND 0x00FF)]) 2) s"

text \<open>
  The waiting loops: sleep, read a register, give up on an error that is not a time-out, and stop when
  the value is as wanted or the tries are used up. The number of tries that were used is returned.
\<close>

function wait_loop ::
  "'d platform \<Rightarrow> u32 \<Rightarrow> ('a \<Rightarrow> 'd machine \<Rightarrow> (w5500_status_t \<times> 'a \<times> 'd machine) option) \<Rightarrow> ('a \<Rightarrow> bool) \<Rightarrow> nat \<Rightarrow>
   nat \<Rightarrow> 'a \<Rightarrow> 'd machine \<Rightarrow> (w5500_status_t \<times> nat \<times> 'a \<times> 'd machine) option" where
  "wait_loop P ticks rd done_p limit tries v s = do {
     s \<leftarrow> sys_sleep P ticks s;
     (ret, v, s) \<leftarrow> rd v s;
     if ret \<noteq> W5500_OK \<and> ret \<noteq> W5500_ERR_TRANSIENT then Some (ret, tries, v, s)
     else if \<not> done_p v
     then if tries + 1 < limit then wait_loop P ticks rd done_p limit (tries + 1) v s
          else Some (W5500_OK, tries + 1, v, s)
     else Some (W5500_OK, tries, v, s)
   }"
  by pat_completeness auto
termination
  by (relation "measure (\<lambda>(P, ticks, rd, done_p, limit, tries, v, s). limit - tries)") auto

declare wait_loop.simps [simp del]

section \<open>Initialisation\<close>

definition w5500_reset_pin_init :: "'d platform \<Rightarrow> 'd machine \<Rightarrow> 'd machine" where
  "w5500_reset_pin_init P s =
     (let s = reg_or P (RCC + 0x30) (push_bit 0 1) s;
          s = SET_GPIO_MODE P GPIOA GPIO_MODE_OUTPUT W5500_RESET_PIN s;
          s = SET_GPIO_OTYPER P GPIOA 0 W5500_RESET_PIN s;
          s = SET_GPIO_OSPEEDR P GPIOA GPIO_OSPEEDR_FAST W5500_RESET_PIN s
      in GPIO_PIN_HIGH P GPIOA W5500_RESET_PIN s)"

definition w5500_hw_reset :: "'d platform \<Rightarrow> 'd machine \<Rightarrow> 'd machine option" where
  "w5500_hw_reset P s = do {
     let s = GPIO_PIN_LOW P GPIOA W5500_RESET_PIN s;
     s \<leftarrow> sys_sleep P 1 s;
     let s = GPIO_PIN_HIGH P GPIOA W5500_RESET_PIN s;
     sys_sleep P 60 s
   }"

definition w5500_get_version ::
  "'d platform \<Rightarrow> u8 \<Rightarrow> 'd machine \<Rightarrow> (w5500_status_t \<times> u8 \<times> 'd machine) option" where
  "w5500_get_version P d s = w5500_read8 P W5500_VERSIONR W5500_BSB_COMMON d s"

function bring_up_loop ::
  "'d platform \<Rightarrow> (ptr \<Rightarrow> 'd machine driver_t) \<Rightarrow> nat \<Rightarrow> u8 \<Rightarrow> 'd machine \<Rightarrow> (w5500_status_t \<times> nat \<times> 'd machine) option" where
  "bring_up_loop P D attempts version s = do {
     let s = w5500_reset_pin_init P s;
     s \<leftarrow> w5500_hw_reset P s;
     (ret_status, version, s) \<leftarrow> w5500_get_version P version s;
     s \<leftarrow> printk P D (chars ''attempts %d'' @ [13, 10]) [of_nat attempts] s;
     s \<leftarrow> printk P D (chars ''ret_status_bring_up %d'' @ [13, 10]) [status_code ret_status] s;
     s \<leftarrow> printk P D (chars ''version %d'' @ [13, 10]) [ucast version] s;
     if ret_status \<noteq> W5500_OK \<and> ret_status \<noteq> W5500_ERR_TRANSIENT then Some (ret_status, attempts, s)
     else if version \<noteq> 0x04
     then if attempts + 1 < INIT_ATTEMPTS then bring_up_loop P D (attempts + 1) version s
          else Some (W5500_OK, attempts + 1, s)
     else Some (W5500_OK, attempts, s)
   }"
  by pat_completeness auto
termination
  by (relation "measure (\<lambda>(P, D, attempts, version, s). INIT_ATTEMPTS - attempts)") auto

declare bring_up_loop.simps [simp del]

definition w5500_bring_up ::
  "'d platform \<Rightarrow> (ptr \<Rightarrow> 'd machine driver_t) \<Rightarrow> 'd machine \<Rightarrow> (w5500_status_t \<times> 'd machine) option" where
  "w5500_bring_up P D s = do {
     (ret_status, attempts, s) \<leftarrow> bring_up_loop P D 0 0 s;
     if ret_status \<noteq> W5500_OK then Some (ret_status, s)
     else if attempts = INIT_ATTEMPTS then Some (W5500_ERR_STATE, s)
     else Some (W5500_OK, s)
   }"

definition w5500_init ::
  "'d platform \<Rightarrow> (ptr \<Rightarrow> 'd machine driver_t) \<Rightarrow> u8 list \<Rightarrow> u8 list \<Rightarrow> u8 list \<Rightarrow> u8 list \<Rightarrow> 'd machine \<Rightarrow>
   (w5500_status_t \<times> 'd machine) option" where
  "w5500_init P D mac ip gateway subnet s =
     or_return (w5500_bring_up P D s) (\<lambda>ret s. Some (ret, s)) (\<lambda>s.
     or_return (w5500_write P W5500_SHAR W5500_BSB_COMMON (write_frame (Array mac) 6) s) (\<lambda>ret s. Some (ret, s)) (\<lambda>s.
     or_return (w5500_write P W5500_SIPR W5500_BSB_COMMON (write_frame (Array ip) 4) s) (\<lambda>ret s. Some (ret, s)) (\<lambda>s.
     or_return (w5500_write P W5500_GAR W5500_BSB_COMMON (write_frame (Array gateway) 4) s) (\<lambda>ret s. Some (ret, s)) (\<lambda>s.
     or_return (w5500_write P W5500_SUBR W5500_BSB_COMMON (write_frame (Array subnet) 4) s) (\<lambda>ret s. Some (ret, s)) (\<lambda>s.
     Some (W5500_OK, s))))))"

text \<open>\<open>up_null\<close>: the address of the result is NULL.\<close>

definition w5500_link_up ::
  "'d platform \<Rightarrow> bool \<Rightarrow> int \<Rightarrow> 'd machine \<Rightarrow> (w5500_status_t \<times> int \<times> 'd machine) option" where
  "w5500_link_up P up_null up s =
     (if up_null then Some (W5500_ERR_ARG, up, s)
      else do {
        (ret_status, d, s) \<leftarrow> w5500_read8 P W5500_PHYCFGR W5500_BSB_COMMON 0 s;
        Some (ret_status, if ret_status = W5500_OK then uint (d AND 0x01) else up, s)
      })"

section \<open>Opening and closing sockets\<close>

definition set_status :: "ptr \<Rightarrow> socket_status_t \<Rightarrow> 'd machine \<Rightarrow> 'd machine" where
  "set_status socket st = upd_socket socket (\<lambda>x. x\<lparr>sock_status := st\<rparr>)"

definition w5500_socket_close :: "'d platform \<Rightarrow> ptr \<Rightarrow> 'd machine \<Rightarrow> (w5500_status_t \<times> 'd machine) option" where
  "w5500_socket_close P socket s =
     (if socket = 0 \<or> sock_number (sockets s socket) > 7 then Some (W5500_ERR_ARG, s)
      else do {
        (ret_status, s) \<leftarrow> w5500_write8 P SOCKET_CR (sock_reg socket s) SOCKET_CMD_CLOSE s;
        (ret_status, tries, current_sr, s) \<leftarrow>
          wait_loop P 1 (\<lambda>v s. w5500_read8 P SOCKET_SR (sock_reg socket s) v s) (\<lambda>v. v = SOCK_CLOSED) CLOSE_MAX_TRIES 0 1 s;
        if ret_status \<noteq> W5500_OK then Some (ret_status, s)
        else if tries = CLOSE_MAX_TRIES then Some (W5500_ERR_TRANSIENT, set_status socket SOCKET_STATUS_ERROR s)
        else Some (W5500_OK, set_status socket SOCKET_STATUS_CLOSED s)
      })"

text \<open>The last part of \<open>w5500_socket_open\<close>: what was written is read back.\<close>

definition open_verify :: "'d platform \<Rightarrow> ptr \<Rightarrow> u8 \<Rightarrow> 'd machine \<Rightarrow> (w5500_status_t \<times> 'd machine) option" where
  "open_verify P socket mode s =
     or_return (w5500_read8 P SOCKET_MR (sock_reg socket s) 0 s)
       (\<lambda>ret (v, s). Some (ret, set_status socket SOCKET_STATUS_ERROR s)) (\<lambda>(current_mr, s).
     or_return (w5500_read16 P SOCKET_PORT (sock_reg socket s) 0 s)
       (\<lambda>ret (v, s). Some (ret, set_status socket SOCKET_STATUS_ERROR s)) (\<lambda>(current_port, s).
     if current_mr \<noteq> mode then Some (W5500_ERR_STATE, set_status socket SOCKET_STATUS_ERROR s)
     else if current_port \<noteq> sock_port (sockets s socket) then Some (W5500_ERR_STATE, set_status socket SOCKET_STATUS_ERROR s)
     else Some (W5500_OK, set_status socket SOCKET_STATUS_OPEN s)))"

definition open_wait :: "'d platform \<Rightarrow> ptr \<Rightarrow> u8 \<Rightarrow> u8 \<Rightarrow> 'd machine \<Rightarrow> (w5500_status_t \<times> 'd machine) option" where
  "open_wait P socket mode wanted_sr s = do {
     (ret_status, tries, current_sr, s) \<leftarrow>
       wait_loop P 2 (\<lambda>v s. w5500_read8 P SOCKET_SR (sock_reg socket s) v s) (\<lambda>v. wanted_sr = v) OPEN_MAX_TRIES 0 0 s;
     if ret_status \<noteq> W5500_OK then Some (ret_status, s)
     else if tries = OPEN_MAX_TRIES then Some (W5500_ERR_TRANSIENT, set_status socket SOCKET_STATUS_ERROR s)
     else open_verify P socket mode s
   }"

definition w5500_socket_open :: "'d platform \<Rightarrow> ptr \<Rightarrow> 'd machine \<Rightarrow> (w5500_status_t \<times> 'd machine) option" where
  "w5500_socket_open P socket s =
     (if socket = 0 \<or> sock_number (sockets s socket) > 7 then Some (W5500_ERR_ARG, s)
      else
        or_return (w5500_socket_close P socket s) (\<lambda>ret s. Some (ret, s)) (\<lambda>s.
        let mode = 0 OR protocol_code (sock_protocol (sockets s socket)) in
        or_return (w5500_write8 P SOCKET_MR (sock_reg socket s) mode s) (\<lambda>ret s. Some (ret, s)) (\<lambda>s.
        or_return (w5500_write16 P SOCKET_PORT (sock_reg socket s) (sock_port (sockets s socket)) s) (\<lambda>ret s. Some (ret, s)) (\<lambda>s.
        or_return (w5500_write8 P SOCKET_CR (sock_reg socket s) SOCKET_CMD_OPEN s) (\<lambda>ret s. Some (ret, s)) (\<lambda>s.
        if sock_protocol (sockets s socket) = TCP then open_wait P socket mode SOCKET_SR_INIT s
        else if sock_protocol (sockets s socket) = UDP then open_wait P socket mode SOCKET_SR_UDP s
        else Some (W5500_ERR_ARG, set_status socket SOCKET_STATUS_ERROR s))))))"

section \<open>Receiving\<close>

record udp_header_t =
  udp_src_ip :: "u8 list"
  udp_src_port :: u16
  udp_length :: u16

definition w5500_recv_udp_header ::
  "'d platform \<Rightarrow> ptr \<Rightarrow> udp_header_t \<Rightarrow> u16 \<Rightarrow> 'd machine \<Rightarrow>
   (w5500_status_t \<times> udp_header_t \<times> u16 \<times> 'd machine) option" where
  "w5500_recv_udp_header P socket header read_pointer s =
     or_return (w5500_read16 P SOCKET_RX_RD (sock_reg socket s) read_pointer s)
       (\<lambda>ret (read_pointer, s). Some (ret, header, read_pointer, s)) (\<lambda>(read_pointer, s).
     or_return (w5500_transfer P read_pointer (BSB_RX (sock_number (sockets s socket)))
                  (read_frame (Array (junk P 8)) 8) s)
       (\<lambda>ret (buffer, s). Some (ret, header, read_pointer, s)) (\<lambda>(buffer, s). do {
     b0 \<leftarrow> get_byte buffer 0 (umem s);
     b1 \<leftarrow> get_byte buffer 1 (umem s);
     b2 \<leftarrow> get_byte buffer 2 (umem s);
     b3 \<leftarrow> get_byte buffer 3 (umem s);
     b4 \<leftarrow> get_byte buffer 4 (umem s);
     b5 \<leftarrow> get_byte buffer 5 (umem s);
     b6 \<leftarrow> get_byte buffer 6 (umem s);
     b7 \<leftarrow> get_byte buffer 7 (umem s);
     Some (W5500_OK, \<lparr>udp_src_ip = [b0, b1, b2, b3], udp_src_port = be16 b4 b5, udp_length = be16 b6 b7\<rparr>,
           read_pointer, s)
   }))"

text \<open>
  The variables \<open>got\<close>, \<open>src_ip\<close>, \<open>src_port\<close> and \<open>truncated\<close> are components of a reply \<open>r\<close>; \<open>outs_null\<close>: one
  of their addresses is NULL. An error after the reception has begun clears two of them.
\<close>

definition recv_failed ::
  "net_reply_t \<Rightarrow> w5500_status_t \<Rightarrow> 'd machine \<Rightarrow> (w5500_status_t \<times> net_reply_t \<times> 'd machine) option" where
  "recv_failed r ret s = Some (ret, r\<lparr>reply_got := 0, reply_truncated := False\<rparr>, s)"

text \<open>The read pointer is set back when the command was not accepted.\<close>

definition recv_undo ::
  "'d platform \<Rightarrow> ptr \<Rightarrow> u16 \<Rightarrow> net_reply_t \<Rightarrow> w5500_status_t \<Rightarrow> 'd machine \<Rightarrow>
   (w5500_status_t \<times> net_reply_t \<times> 'd machine) option" where
  "recv_undo P socket read_pointer r ret s = do {
     (ret', s) \<leftarrow> w5500_write16 P SOCKET_RX_RD (sock_reg socket s) (read_pointer - 8) s;
     recv_failed r ret s
   }"

text \<open>From the command that frees the memory of the datagram in the chip to the end.\<close>

definition recv_commit ::
  "'d platform \<Rightarrow> ptr \<Rightarrow> u16 \<Rightarrow> u16 \<Rightarrow> bool \<Rightarrow> net_reply_t \<Rightarrow> 'd machine \<Rightarrow>
   (w5500_status_t \<times> net_reply_t \<times> 'd machine) option" where
  "recv_commit P socket recv_len read_pointer longer r s =
     or_return (w5500_write8 P SOCKET_CR (sock_reg socket s) SOCKET_CMD_RECV s)
       (\<lambda>ret s. recv_undo P socket read_pointer r ret s) (\<lambda>s. do {
     (ret_status, tries, current_cr, s) \<leftarrow>
       wait_loop P 1 (\<lambda>v s. w5500_read8 P SOCKET_CR (sock_reg socket s) v s) (\<lambda>v. v = 0) 5 0 SOCKET_CMD_RECV s;
     if ret_status \<noteq> W5500_OK then recv_undo P socket read_pointer r ret_status s
     else if tries = 5 then recv_undo P socket read_pointer r W5500_ERR_TRANSIENT s
     else
       or_return (w5500_read16_stable P SOCKET_RX_RSR (sock_reg socket s) 0xFFFF s)
         (\<lambda>ret (v, s). recv_failed r ret s) (\<lambda>(new_recv_len, s).
       if new_recv_len \<ge> recv_len then recv_failed r W5500_ERR_UNSTABLE s
       else Some (W5500_OK, r\<lparr>reply_truncated := longer\<rparr>, s))
   })"

definition w5500_socket_recv ::
  "'d platform \<Rightarrow> ptr \<Rightarrow> ptr \<Rightarrow> u16 \<Rightarrow> bool \<Rightarrow> net_reply_t \<Rightarrow> 'd machine \<Rightarrow>
   (w5500_status_t \<times> net_reply_t \<times> 'd machine) option" where
  "w5500_socket_recv P socket buffer maxlen outs_null r s =
     (if socket = 0 \<or> buffer = 0 \<or> maxlen = 0 \<or> outs_null then Some (W5500_ERR_ARG, r, s)
      else
        or_return (w5500_read16_stable P SOCKET_RX_RSR (sock_reg socket s) 0 s)
          (\<lambda>ret (v, s). Some (ret, r, s)) (\<lambda>(recv_len, s).
        if recv_len = 0 then Some (W5500_OK, r\<lparr>reply_got := 0, reply_truncated := False\<rparr>, s)
        else
          or_return (w5500_recv_udp_header P socket \<lparr>udp_src_ip = [0, 0, 0, 0], udp_src_port = 0, udp_length = 0\<rparr> 0 s)
            (\<lambda>ret (header, read_pointer, s). recv_failed r ret s) (\<lambda>(header, read_pointer, s).
          let read_pointer = read_pointer + 8;
              length_to_read = (if udp_length header < maxlen then udp_length header else maxlen) in
          or_return (w5500_transfer P read_pointer (BSB_RX (sock_number (sockets s socket)))
                       (read_frame (At buffer) (ucast length_to_read)) s)
            (\<lambda>ret (rx, s). recv_failed r ret s) (\<lambda>(rx, s).
          let r = r\<lparr>reply_got := length_to_read, reply_src_ip := udp_src_ip header, reply_port := udp_src_port header\<rparr> in
          or_return (w5500_write16 P SOCKET_RX_RD (sock_reg socket s) (read_pointer + udp_length header) s)
            (\<lambda>ret s. recv_failed r ret s) (\<lambda>s.
          recv_commit P socket recv_len read_pointer (udp_length header > maxlen) r s)))))"

section \<open>Sending\<close>

definition w5500_ir_clear :: "'d platform \<Rightarrow> ptr \<Rightarrow> u8 \<Rightarrow> 'd machine \<Rightarrow> (w5500_status_t \<times> 'd machine) option" where
  "w5500_ir_clear P socket msk s = w5500_write8 P SOCKET_IR (sock_reg socket s) msk s"

definition w5500_reset_tx_wr :: "'d platform \<Rightarrow> ptr \<Rightarrow> 'd machine \<Rightarrow> (w5500_status_t \<times> 'd machine) option" where
  "w5500_reset_tx_wr P socket s =
     or_return (w5500_read16 P SOCKET_TX_RD (sock_reg socket s) 0 s) (\<lambda>ret (v, s). Some (ret, s)) (\<lambda>(tx_rd, s).
     w5500_write16 P SOCKET_TX_WR (sock_reg socket s) tx_rd s)"

definition set_unreaped :: "ptr \<Rightarrow> bool \<Rightarrow> 'd machine \<Rightarrow> 'd machine" where
  "set_unreaped socket b = upd_socket socket (\<lambda>x. x\<lparr>has_unreaped_send := b\<rparr>)"

text \<open>
  \<open>w5500_socket_send\<close> in the order of its parts. A part returns the status; the variable \<open>sent\<close>, given by
  address, is returned with it where the part may change it.
\<close>

text \<open>What is left of an earlier send. \<open>None\<close> in the second component: \<open>sent\<close> is not changed.\<close>

definition send_reap ::
  "'d platform \<Rightarrow> ptr \<Rightarrow> 'd machine \<Rightarrow> (w5500_status_t \<times> u16 option \<times> 'd machine) option" where
  "send_reap P socket s =
     (if has_unreaped_send (sockets s socket)
      then
        or_return (w5500_read8 P SOCKET_IR (sock_reg socket s) 0 s) (\<lambda>ret (v, s). Some (ret, None, s)) (\<lambda>(ir, s).
        if ir AND SOCKET_IR_SENDOK \<noteq> 0 then do {
          let s = set_unreaped socket False s;
          (ret, s) \<leftarrow> w5500_ir_clear P socket SOCKET_IR_SENDOK s;
          Some (ret, None, s)
        }
        else if ir AND SOCKET_IR_TIMEOUT \<noteq> 0 then
          or_return (w5500_ir_clear P socket SOCKET_IR_TIMEOUT s) (\<lambda>ret s. Some (ret, None, s)) (\<lambda>s.
          or_return (w5500_reset_tx_wr P socket s) (\<lambda>ret s. Some (ret, None, s)) (\<lambda>s.
          Some (W5500_OK, None, set_unreaped socket False s)))
        else Some (W5500_ERR_TRANSIENT, Some 0, s))
      else do {
        (ret, s) \<leftarrow> w5500_ir_clear P socket (SOCKET_IR_SENDOK OR SOCKET_IR_TIMEOUT) s;
        Some (ret, None, s)
      })"

text \<open>Data, destination and write pointer; the write pointer before is returned.\<close>

definition send_fill ::
  "'d platform \<Rightarrow> ptr \<Rightarrow> ptr \<Rightarrow> u16 \<Rightarrow> u8 list \<Rightarrow> u16 \<Rightarrow> buffer \<Rightarrow> 'd machine \<Rightarrow>
   (w5500_status_t \<times> u16 \<times> 'd machine) option" where
  "send_fill P socket data tx_length dst_ip dst_port dst_mac s =
     or_return (w5500_read16 P SOCKET_TX_WR (sock_reg socket s) 0 s)
       (\<lambda>ret (wp, s). Some (ret, wp, s)) (\<lambda>(write_pointer, s).
     or_return (w5500_write P write_pointer (BSB_TX (sock_number (sockets s socket))) (write_frame (At data) (ucast tx_length)) s)
       (\<lambda>ret s. Some (ret, write_pointer, s)) (\<lambda>s.
     or_return (w5500_write P SOCKET_DIPR (sock_reg socket s) (write_frame (Array dst_ip) 4) s)
       (\<lambda>ret s. Some (ret, write_pointer, s)) (\<lambda>s.
     or_return (w5500_write16 P SOCKET_DPORT (sock_reg socket s) dst_port s)
       (\<lambda>ret s. Some (ret, write_pointer, s)) (\<lambda>s.
     or_return (if dst_mac \<noteq> Null then w5500_write P SOCKET_DHAR (sock_reg socket s) (write_frame dst_mac 6) s
                else Some (W5500_OK, s))
       (\<lambda>ret s. Some (ret, write_pointer, s)) (\<lambda>s.
     or_return (w5500_write16 P SOCKET_TX_WR (sock_reg socket s) (write_pointer + tx_length) s)
       (\<lambda>ret s. Some (ret, write_pointer, s)) (\<lambda>s.
     Some (W5500_OK, write_pointer, s)))))))"

definition send_undo ::
  "'d platform \<Rightarrow> ptr \<Rightarrow> u16 \<Rightarrow> w5500_status_t \<Rightarrow> 'd machine \<Rightarrow> (w5500_status_t \<times> u16 \<times> 'd machine) option" where
  "send_undo P socket write_pointer ret s = do {
     (ret', s) \<leftarrow> w5500_write16 P SOCKET_TX_WR (sock_reg socket s) write_pointer s;
     Some (ret, 0, s)
   }"

text \<open>
  The loop that waits for the end of the transmission. It ends with an error of the bus, with the
  time-out of the chip (\<open>W5500_ERR_UNREACHABLE\<close>), or else with the number of tries.
\<close>

function sendok_loop ::
  "'d platform \<Rightarrow> ptr \<Rightarrow> nat \<Rightarrow> u8 \<Rightarrow> 'd machine \<Rightarrow> (w5500_status_t \<times> nat \<times> 'd machine) option" where
  "sendok_loop P socket tries current_ir s = do {
     s \<leftarrow> sys_sleep P 1 s;
     (ret_status, current_ir, s) \<leftarrow> w5500_read8 P SOCKET_IR (sock_reg socket s) current_ir s;
     if ret_status \<noteq> W5500_OK \<and> ret_status \<noteq> W5500_ERR_TRANSIENT then Some (ret_status, tries, s)
     else if current_ir AND SOCKET_IR_TIMEOUT \<noteq> 0 then Some (W5500_ERR_UNREACHABLE, tries, s)
     else if \<not> (current_ir AND SOCKET_IR_SENDOK \<noteq> 0)
     then if tries + 1 < 5 then sendok_loop P socket (tries + 1) current_ir s
          else Some (W5500_OK, tries + 1, s)
     else Some (W5500_OK, tries, s)
   }"
  by pat_completeness auto
termination
  by (relation "measure (\<lambda>(P, socket, tries, current_ir, s). 5 - tries)") auto

declare sendok_loop.simps [simp del]

definition send_command ::
  "'d platform \<Rightarrow> ptr \<Rightarrow> u16 \<Rightarrow> u16 \<Rightarrow> buffer \<Rightarrow> 'd machine \<Rightarrow> (w5500_status_t \<times> u16 \<times> 'd machine) option" where
  "send_command P socket tx_length write_pointer dst_mac s = do {
     (ret, s) \<leftarrow> w5500_ir_clear P socket SOCKET_IR_SENDOK s;
     let cmd_to_send = (if dst_mac = Null then SOCKET_CMD_SEND else SOCKET_CMD_SEND_MAC);
     or_return (w5500_write8 P SOCKET_CR (sock_reg socket s) cmd_to_send s)
       (\<lambda>ret s. send_undo P socket write_pointer ret s) (\<lambda>s. do {
     (ret_status, tries, current_cr, s) \<leftarrow>
       wait_loop P 1 (\<lambda>v s. w5500_read8 P SOCKET_CR (sock_reg socket s) v s) (\<lambda>v. v = 0) 5 0 SOCKET_CMD_SEND s;
     if ret_status \<noteq> W5500_OK then send_undo P socket write_pointer ret_status s
     else if tries = 5 then send_undo P socket write_pointer W5500_ERR_TRANSIENT s
     else do {
       (ret_status, tries, s) \<leftarrow> sendok_loop P socket 0 0 s;
       if ret_status = W5500_ERR_UNREACHABLE
       then do {
         (ret, s) \<leftarrow> w5500_reset_tx_wr P socket s;
         (ret, s) \<leftarrow> w5500_ir_clear P socket SOCKET_IR_TIMEOUT s;
         Some (W5500_ERR_UNREACHABLE, 0, s)
       }
       else if ret_status \<noteq> W5500_OK then send_undo P socket write_pointer ret_status s
       else Some (W5500_OK, tx_length, if tries = 5 then set_unreaped socket True s else s)
     }
   })}"

definition w5500_socket_send ::
  "'d platform \<Rightarrow> ptr \<Rightarrow> ptr \<Rightarrow> u16 \<Rightarrow> bool \<Rightarrow> u16 \<Rightarrow> u8 list \<Rightarrow> u16 \<Rightarrow> buffer \<Rightarrow> 'd machine \<Rightarrow>
   (w5500_status_t \<times> u16 \<times> 'd machine) option" where
  "w5500_socket_send P socket data tx_length sent_null sent dst_ip dst_port dst_mac s =
     (if socket = 0 \<or> data = 0 \<or> tx_length = 0 \<or> dst_port = 0 \<or> sent_null then Some (W5500_ERR_ARG, sent, s)
      else do {
        (ret, upd, s) \<leftarrow> send_reap P socket s;
        let sent = (case upd of None \<Rightarrow> sent | Some v \<Rightarrow> v);
        if ret \<noteq> W5500_OK then Some (ret, sent, s)
        else do {
          (ret, tries, tx_available, s) \<leftarrow>
            wait_loop P 1 (\<lambda>v s. w5500_read16_stable P SOCKET_TX_FSR (sock_reg socket s) v s)
              (\<lambda>v. \<not> v < tx_length) SEND_TRIES 0 0 s;
          if ret \<noteq> W5500_OK then Some (ret, sent, s)
          else if tries = SEND_TRIES then Some (W5500_ERR_TRANSIENT, 0, s)
          else
            or_return (send_fill P socket data tx_length dst_ip dst_port dst_mac s)
              (\<lambda>ret (wp, s). Some (ret, 0, s)) (\<lambda>(write_pointer, s).
            send_command P socket tx_length write_pointer dst_mac s)
        }
      })"

section \<open>Every operation returns, on any hardware\<close>

text \<open>\<open>returns Q x\<close>: the call \<open>x\<close> comes back with a result for which \<open>Q\<close> holds.\<close>

definition returns :: "('a \<Rightarrow> bool) \<Rightarrow> 'a option \<Rightarrow> bool" where
  "returns Q x \<longleftrightarrow> (\<exists>y. x = Some y \<and> Q y)"

lemma returns_Some [simp]: "returns Q (Some y) = Q y"
  by (simp add: returns_def)

lemma returns_bindI: "returns R x \<Longrightarrow> (\<And>y. R y \<Longrightarrow> returns Q (f y)) \<Longrightarrow> returns Q (Option.bind x f)"
  by (auto simp: returns_def)

lemma returns_mono: "returns R x \<Longrightarrow> (\<And>y. R y \<Longrightarrow> Q y) \<Longrightarrow> returns Q x"
  by (auto simp: returns_def)

lemma returns_or_returnI:
  assumes "returns R x" "\<And>ret y. R (ret, y) \<Longrightarrow> ret \<noteq> W5500_OK \<Longrightarrow> returns Q (err ret y)"
    "\<And>y. R (W5500_OK, y) \<Longrightarrow> returns Q (cont y)"
  shows "returns Q (or_return x err cont)"
  unfolding or_return_def using assms(1) by (rule returns_bindI) (use assms(2,3) in auto)

text \<open>Messages can be printed.\<close>

definition prints_ok :: "'d platform \<Rightarrow> ('d machine \<Rightarrow> bool) \<Rightarrow> (ptr \<Rightarrow> 'd machine driver_t) \<Rightarrow> bool" where
  "prints_ok P I D \<longleftrightarrow> (\<forall>fmt args s. I s \<longrightarrow> returns I (printk P D fmt args s))"

text \<open>What the driver of the chip relies on: that of the bus, and that sockets may change.\<close>

locale net_env = driver_env P A I for P :: "'d platform" and A I +
  assumes sock_keeps: "I s \<Longrightarrow> I (upd_socket p f s)"
begin

lemma status_keeps: "I s \<Longrightarrow> I (set_status p st s)" "I s \<Longrightarrow> I (set_unreaped p b s)"
  by (simp_all add: set_status_def set_unreaped_def sock_keeps)

lemma sleep_ok: "I s \<Longrightarrow> returns I (sys_sleep P n s)"
  using sleep_returns [of s n] by (simp add: returns_def)

lemma transfer_ok:
  assumes "I s" "if is_read f then holds_bytes (rx_data f) (unat (data_len f)) else holds_bytes (tx_data f) (unat (data_len f))"
    and "rx_block f \<subseteq> A"
  shows "returns (\<lambda>(ret, rx, s'). same_shape (rx_data f) rx \<and> I s') (w5500_transfer P addr bsb f s)"
proof -
  define g where "g = \<lparr>frame_header = Array [ucast (drop_bit 8 addr AND 0xFF), ucast (addr AND 0xFF), w5500_control bsb (is_read f)],
    header_len = 3, tx_data = tx_data f, rx_data = rx_data f, data_len = data_len f, is_read = is_read f\<rparr>"
  have "frame_ok g" "rx_block g = rx_block f" using assms(2) by (simp_all add: g_def frame_ok_def rx_block_def split: buffer.split)
  then obtain ret rx s' where "spi1_transfer_frame P g s = Some (ret, g\<lparr>rx_data := rx\<rparr>, s')" "same_shape (rx_data g) rx" "I s'"
    using transfer_frame_returns [of g s] assms(1,3) by auto
  then show ?thesis by (simp add: w5500_transfer_def g_def returns_def)
qed

lemma write_ok:
  assumes "I s" "holds_bytes tx (unat n)"
  shows "returns (\<lambda>(ret, s'). I s') (w5500_write P addr bsb (write_frame tx n) s)"
  unfolding w5500_write_def
  by (rule returns_bindI [OF transfer_ok [OF assms(1)]]) (use assms(2) in \<open>auto simp: write_frame_def rx_block_def\<close>)

lemma write8_ok: "I s \<Longrightarrow> returns (\<lambda>(ret, s'). I s') (w5500_write8 P addr bsb v s)"
  unfolding w5500_write8_def by (rule write_ok) simp_all

lemma write16_ok: "I s \<Longrightarrow> returns (\<lambda>(ret, s'). I s') (w5500_write16 P addr bsb v s)"
  unfolding w5500_write16_def by (rule write_ok) simp_all

lemma read_array_ok:
  assumes "I s" "unat n \<le> length bs"
  shows "returns (\<lambda>(ret, rx, s'). (\<exists>bs'. rx = Array bs' \<and> length bs' = length bs) \<and> I s')
    (w5500_transfer P addr bsb (read_frame (Array bs) n) s)"
  using transfer_ok [OF assms(1), of "read_frame (Array bs) n"] assms(2)
  by (auto simp: read_frame_def rx_block_def elim!: returns_mono)

lemma read8_ok: "I s \<Longrightarrow> returns (\<lambda>(ret, v, s'). I s') (w5500_read8 P addr bsb v s)"
  unfolding w5500_read8_def by (rule returns_bindI [OF read_array_ok]) auto

lemma read16_ok: "I s \<Longrightarrow> returns (\<lambda>(ret, v, s'). I s') (w5500_read16 P addr bsb v s)"
  unfolding w5500_read16_def by (rule returns_bindI [OF read_array_ok]) auto

lemma stable_loop_ok: "I s \<Longrightarrow> returns (\<lambda>(ret, v, n, s'). I s') (stable_loop P addr bsb a b i s)"
proof (induction "255 - i" arbitrary: a b i s rule: less_induct)
  case less
  have IH: "returns (\<lambda>(ret, v, n, s'). I s') (stable_loop P addr bsb a b (Suc i) s)" if "I s" "Suc i < 255" for a b s
    using that by (intro less.hyps) auto
  show ?case
    by (subst stable_loop.simps)
      (auto intro!: returns_bindI [OF read16_ok] less.prems IH)
qed

lemma read16_stable_ok: "I s \<Longrightarrow> returns (\<lambda>(ret, v, s'). I s') (w5500_read16_stable P addr bsb v s)"
  unfolding w5500_read16_stable_def by (rule returns_bindI [OF stable_loop_ok]) auto

lemma wait_loop_ok:
  assumes "\<And>v s. I s \<Longrightarrow> returns (\<lambda>(ret, v, s'). I s') (rd v s)"
  shows "I s \<Longrightarrow> returns (\<lambda>(ret, n, v, s'). I s') (wait_loop P ticks rd done_p limit i v s)"
proof (induction "limit - i" arbitrary: i v s rule: less_induct)
  case less
  have IH: "returns (\<lambda>(ret, n, v, s'). I s') (wait_loop P ticks rd done_p limit (Suc i) v s)" if "I s" "Suc i < limit" for v s
    using that by (intro less.hyps) auto
  show ?case
    by (subst wait_loop.simps)
      (auto intro!: returns_bindI [OF sleep_ok] returns_bindI [OF assms] less.prems IH)
qed

lemmas call_intros = returns_bindI [OF write8_ok] returns_bindI [OF write16_ok] returns_bindI [OF write_ok]
  returns_bindI [OF read8_ok] returns_bindI [OF read16_ok] returns_bindI [OF read16_stable_ok]
  returns_bindI [OF wait_loop_ok [OF read8_ok]] returns_bindI [OF wait_loop_ok [OF read16_stable_ok]]
  returns_bindI [OF sleep_ok] status_keeps

lemma close_ok: "I s \<Longrightarrow> returns (\<lambda>(ret, s'). I s') (w5500_socket_close P socket s)"
  unfolding w5500_socket_close_def by (auto intro!: call_intros)

lemma open_ok: "I s \<Longrightarrow> returns (\<lambda>(ret, s'). I s') (w5500_socket_open P socket s)"
proof -
  have verify: "I s \<Longrightarrow> returns (\<lambda>(ret, s'). I s') (open_verify P socket mode s)" for mode s
    unfolding open_verify_def or_return_def by (auto intro!: call_intros)
  have "I s \<Longrightarrow> returns (\<lambda>(ret, s'). I s') (open_wait P socket mode sr s)" for mode sr s
    unfolding open_wait_def by (auto intro!: call_intros verify)
  then show "I s \<Longrightarrow> returns (\<lambda>(ret, s'). I s') (w5500_socket_open P socket s)"
    unfolding w5500_socket_open_def or_return_def Let_def by (auto intro!: call_intros returns_bindI [OF close_ok])
qed

definition recv_ok :: "net_reply_t \<Rightarrow> u16 \<Rightarrow> w5500_status_t \<times> net_reply_t \<times> 'd machine \<Rightarrow> bool" where
  "recv_ok r maxlen = (\<lambda>(ret, r', s'). I s' \<and>
     (if ret = W5500_OK then reply_got r' \<le> maxlen \<and> (reply_truncated r' \<longrightarrow> reply_got r' = maxlen)
      else r' = r \<or> reply_got r' = 0 \<and> \<not> reply_truncated r'))"

lemma recv_ok_simps [simp]:
  "recv_ok r maxlen (W5500_OK, r', s') \<longleftrightarrow> I s' \<and> reply_got r' \<le> maxlen \<and> (reply_truncated r' \<longrightarrow> reply_got r' = maxlen)"
  "ret \<noteq> W5500_OK \<Longrightarrow> recv_ok r maxlen (ret, r', s') \<longleftrightarrow> I s' \<and> (r' = r \<or> reply_got r' = 0 \<and> \<not> reply_truncated r')"
  by (simp_all add: recv_ok_def)

lemma recv_failed_ok: "I s \<Longrightarrow> ret \<noteq> W5500_OK \<Longrightarrow> returns (recv_ok r maxlen) (recv_failed r' ret s)"
  by (simp add: recv_failed_def)

lemma recv_undo_ok: "I s \<Longrightarrow> ret \<noteq> W5500_OK \<Longrightarrow> returns (recv_ok r maxlen) (recv_undo P socket rp r' ret s)"
  unfolding recv_undo_def by (auto intro!: call_intros recv_failed_ok)

lemma recv_commit_ok:
  assumes "I s" "reply_got r' \<le> maxlen" "longer \<Longrightarrow> reply_got r' = maxlen"
  shows "returns (recv_ok r maxlen) (recv_commit P socket n rp longer r' s)"
  unfolding recv_commit_def or_return_def using assms
  by (auto intro!: call_intros recv_failed_ok recv_undo_ok)

lemma recv_header_ok:
  assumes "I s" "length (junk P 8) = 8"
  shows "returns (\<lambda>(ret, h, rp, s'). I s') (w5500_recv_udp_header P socket header rp s)"
  unfolding w5500_recv_udp_header_def or_return_def using assms
  by (auto intro!: call_intros returns_bindI [OF read_array_ok])

lemma recv_data_ok:
  assumes "I s" "block buffer (unat maxlen) \<subseteq> A" "len \<le> maxlen"
  shows "returns (\<lambda>(ret, rx, s'). I s') (w5500_transfer P addr bsb (read_frame (At buffer) (ucast (len :: u16))) s)"
proof -
  have "unat (ucast len :: u32) \<le> unat maxlen" using assms(3) by (simp add: word_le_nat_alt)
  then have "block buffer (unat (ucast len :: u32)) \<subseteq> A" using assms(2) by (auto simp: block_def)
  then show ?thesis
    using transfer_ok [OF assms(1), of "read_frame (At buffer) (ucast len)" addr bsb]
    by (auto simp: read_frame_def rx_block_def elim!: returns_mono)
qed

lemma recv_returns:
  assumes "I s" "length (junk P 8) = 8" "block buffer (unat maxlen) \<subseteq> A"
  shows "returns (recv_ok r maxlen) (w5500_socket_recv P socket buffer maxlen outs_null r s)"
  unfolding w5500_socket_recv_def or_return_def Let_def using assms
  by (auto intro!: call_intros returns_bindI [OF recv_header_ok] returns_bindI [OF recv_data_ok [OF _ assms(3)]]
      recv_failed_ok recv_commit_ok) (auto simp: word_less_nat_alt word_le_nat_alt)

lemma ir_clear_ok: "I s \<Longrightarrow> returns (\<lambda>(ret, s'). I s') (w5500_ir_clear P socket m s)"
  unfolding w5500_ir_clear_def by (rule write8_ok)

lemma reset_tx_wr_ok: "I s \<Longrightarrow> returns (\<lambda>(ret, s'). I s') (w5500_reset_tx_wr P socket s)"
  unfolding w5500_reset_tx_wr_def or_return_def by (auto intro!: call_intros write16_ok)

lemmas send_intros = call_intros returns_bindI [OF ir_clear_ok] returns_bindI [OF reset_tx_wr_ok]

lemma send_reap_ok: "I s \<Longrightarrow> returns (\<lambda>(ret, u, s'). I s' \<and> (u = None \<or> u = Some 0)) (send_reap P socket s)"
  unfolding send_reap_def or_return_def by (auto intro!: send_intros)

lemma send_fill_ok:
  assumes "I s" "length dst_ip = 4" "dst_mac = Null \<or> holds_bytes dst_mac 6"
  shows "returns (\<lambda>(ret, wp, s'). I s') (send_fill P socket data n dst_ip port dst_mac s)"
proof -
  have mac: "I s \<Longrightarrow> returns (\<lambda>(ret, s'). I s')
      (if dst_mac \<noteq> Null then w5500_write P a b (write_frame dst_mac 6) s else Some (W5500_OK, s))" for a b s
    using assms(3) write_ok [of s dst_mac 6] by auto
  show ?thesis
    unfolding send_fill_def or_return_def using assms by (auto intro!: send_intros returns_bindI [OF mac])
qed

lemma send_undo_ok:
  "I s \<Longrightarrow> ret \<noteq> W5500_OK \<Longrightarrow> returns (\<lambda>(ret', n, s'). I s' \<and> (if ret' = W5500_OK then n = len else n = 0)) (send_undo P socket wp ret s)"
  unfolding send_undo_def by (auto intro!: send_intros)

lemma sendok_loop_ok: "I s \<Longrightarrow> returns (\<lambda>(ret, n, s'). I s') (sendok_loop P socket i ir s)"
proof (induction "5 - i" arbitrary: i ir s rule: less_induct)
  case less
  have IH: "returns (\<lambda>(ret, n, s'). I s') (sendok_loop P socket (Suc i) ir s)" if "I s" "Suc i < 5" for ir s
    using that by (intro less.hyps) auto
  show ?case by (subst sendok_loop.simps) (auto intro!: send_intros less.prems IH)
qed

lemma send_command_ok:
  "I s \<Longrightarrow> returns (\<lambda>(ret, n, s'). I s' \<and> (if ret = W5500_OK then n = len else n = 0)) (send_command P socket len wp dst_mac s)"
  unfolding send_command_def or_return_def Let_def
  by (auto intro!: send_intros send_undo_ok returns_bindI [OF sendok_loop_ok])

lemma send_returns:
  assumes "I s" "length dst_ip = 4" "dst_mac = Null \<or> holds_bytes dst_mac 6"
  shows "returns (\<lambda>(ret, n, s'). I s' \<and> (if ret = W5500_OK then n = len else n = 0 \<or> n = sent))
    (w5500_socket_send P socket data len sent_null sent dst_ip port dst_mac s)"
proof -
  have cmd: "I s \<Longrightarrow> returns (\<lambda>(ret, n, s'). I s' \<and> (if ret = W5500_OK then n = len else n = 0 \<or> n = sent))
      (send_command P socket len wp mac s)" for wp mac s
    using send_command_ok [of s len socket wp mac] by (auto elim!: returns_mono)
  show ?thesis
    unfolding w5500_socket_send_def or_return_def Let_def using assms
    by (auto intro!: send_intros returns_bindI [OF send_reap_ok] returns_bindI [OF send_fill_ok] cmd)
qed

lemma hw_reset_ok: "I s \<Longrightarrow> returns I (w5500_hw_reset P (w5500_reset_pin_init P s))"
proof -
  assume "I s"
  moreover have "dev_step s (GPIO_PIN_LOW P GPIOA W5500_RESET_PIN (w5500_reset_pin_init P s))"
    unfolding w5500_reset_pin_init_def gpio_defs Let_def
    by (meson dev_step_trans reg_dev_step set_field_frame(5))
  ultimately have "I (GPIO_PIN_LOW P GPIOA W5500_RESET_PIN (w5500_reset_pin_init P s))" by (rule dev_keeps)
  moreover have "I s \<Longrightarrow> I (GPIO_PIN_HIGH P GPIOA W5500_RESET_PIN s)" for s
    by (erule dev_keeps) (simp add: GPIO_PIN_HIGH_def)
  ultimately show ?thesis
    unfolding w5500_hw_reset_def Let_def by (auto intro!: returns_bindI [OF sleep_ok] sleep_ok)
qed

lemma bring_up_loop_ok:
  assumes "prints_ok P I D"
  shows "I s \<Longrightarrow> returns (\<lambda>(ret, n, s'). I s') (bring_up_loop P D i v s)"
proof (induction "INIT_ATTEMPTS - i" arbitrary: i v s rule: less_induct)
  case less
  have IH: "returns (\<lambda>(ret, n, s'). I s') (bring_up_loop P D (Suc i) v s)" if "I s" "Suc i < INIT_ATTEMPTS" for v s
    using that by (intro less.hyps) auto
  have pr: "I s \<Longrightarrow> returns I (printk P D fmt args s)" for fmt args s using assms by (simp add: prints_ok_def)
  have ver: "I s \<Longrightarrow> returns (\<lambda>(ret, v, s'). I s') (w5500_get_version P v s)" for v s
    unfolding w5500_get_version_def by (rule read8_ok)
  show ?case
    by (subst bring_up_loop.simps)
      (auto simp: Let_def intro!: returns_bindI [OF hw_reset_ok] returns_bindI [OF ver] returns_bindI [OF pr] less.prems IH)
qed

lemma init_ok:
  assumes "prints_ok P I D" "I s" "length mac = 6" "length ip = 4" "length gateway = 4" "length subnet = 4"
  shows "returns (\<lambda>(ret, s'). I s') (w5500_init P D mac ip gateway subnet s)"
proof -
  have "returns (\<lambda>(ret, s'). I s') (w5500_bring_up P D s)"
    unfolding w5500_bring_up_def using assms(2) by (auto intro!: returns_bindI [OF bring_up_loop_ok [OF assms(1)]])
  then show ?thesis
    unfolding w5500_init_def or_return_def using assms(3-6) by (elim returns_bindI) (auto intro!: call_intros)
qed

lemma link_up_ok: "I s \<Longrightarrow> returns (\<lambda>(ret, up', s'). I s' \<and> (up' = up \<or> up' = 0 \<or> up' = 1)) (w5500_link_up P n up s)"
proof -
  have "uint (d AND 1) = 0 \<or> uint (d AND 1) = 1" for d :: u8 by (auto simp: and_one_eq mod_2_eq_odd)
  then show "I s \<Longrightarrow> returns (\<lambda>(ret, up', s'). I s' \<and> (up' = up \<or> up' = 0 \<or> up' = 1)) (w5500_link_up P n up s)"
    unfolding w5500_link_up_def by (auto intro!: call_intros)
qed

end

text \<open>Where the kernel's calls come back, nothing else is needed.\<close>

sublocale calm_env \<subseteq> net: net_env P A "\<lambda>s. J (kern s)" for A
  by unfold_locales (simp add: upd_socket_def)

section \<open>Property\<close>

text \<open>C30: Whatever the hardware answers, the operations on sockets come back: no loop of the driver waits
  without bound, no array is accessed outside its bounds, and memory outside the buffer given to a
  reception is not changed (every \<open>I\<close> that the kernel calls, the devices, writes to sockets and writes to
  the buffer keep holds afterwards). A reception never reports more than the buffer holds, reports a
  truncation only with a full buffer, and after an error either leaves the reply alone or reports
  nothing received; a send reports all of the datagram or, after an error, none of it.\<close>

theorem w5500_sockets_safe:
  assumes "net_env P A I" "I s" "length (junk P 8) = 8" "block buffer (unat maxlen) \<subseteq> A"
    and "length dst_ip = 4" "dst_mac = Null \<or> holds_bytes dst_mac 6"
  shows "(\<exists>ret r' s'. w5500_socket_recv P socket buffer maxlen outs_null r s = Some (ret, r', s') \<and> I s' \<and>
        (if ret = W5500_OK then reply_got r' \<le> maxlen \<and> (reply_truncated r' \<longrightarrow> reply_got r' = maxlen)
         else r' = r \<or> reply_got r' = 0 \<and> \<not> reply_truncated r')) \<and>
     (\<exists>ret n s'. w5500_socket_send P socket data len sent_null 0 dst_ip port dst_mac s = Some (ret, n, s') \<and> I s' \<and>
        n = (if ret = W5500_OK then len else 0)) \<and>
     (\<exists>ret s'. w5500_socket_open P socket s = Some (ret, s') \<and> I s') \<and>
     (\<exists>ret s'. w5500_socket_close P socket s = Some (ret, s') \<and> I s')"
  using net_env.recv_returns [OF assms(1-4), of r socket outs_null]
    net_env.send_returns [OF assms(1,2,5,6), of len 0 socket data sent_null port]
    net_env.open_ok [OF assms(1,2), of socket] net_env.close_ok [OF assms(1,2), of socket]
  unfolding returns_def net_env.recv_ok_def [OF assms(1)] by (auto split: if_splits)

theorem w5500_sockets_safe_witness:
  "\<exists>ret r' s'. w5500_socket_recv (ex_bus_platform dead_bus) 0x20000600 0x20003000 64 False
       \<lparr>reply_got = 7, reply_src_ip = [], reply_port = 0, reply_truncated = True, reply_status = NET_STATUS_OK\<rparr>
       (idle_machine (ex_bus_kernel 0) ex_heap ()) = Some (ret, r', s') \<and> ex_bus_ok (kern s') \<and> reply_got r' \<le> 64"
proof -
  let ?r = "\<lparr>reply_got = 7, reply_src_ip = [], reply_port = 0, reply_truncated = True, reply_status = NET_STATUS_OK\<rparr>"
  have junk: "length (junk (ex_bus_platform dead_bus) 8) = 8" by (simp add: ex_bus_platform_def plain_platform_def)
  have ok: "ex_bus_ok (kern (idle_machine (ex_bus_kernel 0) ex_heap ()))" by (simp add: idle_machine_def ex_bus_ok_def)
  obtain ret r' s' where t: "w5500_socket_recv (ex_bus_platform dead_bus) 0x20000600 0x20003000 64 False ?r
       (idle_machine (ex_bus_kernel 0) ex_heap ()) = Some (ret, r', s')" "ex_bus_ok (kern s')"
    "if ret = W5500_OK then reply_got r' \<le> 64 \<and> (reply_truncated r' \<longrightarrow> reply_got r' = 64)
     else r' = ?r \<or> reply_got r' = 0 \<and> \<not> reply_truncated r'"
    using w5500_sockets_safe [OF ex_bus.net.net_env_axioms [where A = UNIV] ok junk subset_UNIV, of "[0, 0, 0, 0]" Null,
        THEN conjunct1, of "0x20000600" "0x20003000" 64 False ?r] by auto
  then have "reply_got r' \<le> 64" by (auto split: if_splits)
  with t show ?thesis by blast
qed

end
