(* ===== verification/W5500_Chip.thy ===== *)
theory W5500_Chip
  imports W5500
begin

unbundle bit_operations_syntax

text \<open>
  The driver on a working chip. The locale \<open>vdm_chip\<close> states how the chip answers a frame: three header
  bytes select a block, a direction and an address, and the bytes that follow are read from, or stored
  at, consecutive addresses (the variable length data mode of the data sheet). Its lemmas turn the
  functions that access registers into \<open>load\<close> and \<open>store\<close>. The chip itself - its commands, and how they
  change its registers - is specified by the executable \<open>wchip\<close>, after the data sheet, on which the locale
  is interpreted. It executes a command before the driver polls for its end, and changes in no other
  way: what happens when datagrams arrive during a request, or when the chip is slower, is covered only
  by the theorems of \<open>W5500\<close>, which hold for any answers of the hardware.
\<close>

definition vdm_header :: "u16 \<Rightarrow> u8 \<Rightarrow> bool \<Rightarrow> u8 list" where
  "vdm_header a bsb rd = [ucast (drop_bit 8 a AND 0xFF), ucast (a AND 0xFF), w5500_control bsb rd]"

fun store_all :: "(u8 \<Rightarrow> u16 \<Rightarrow> u8 \<Rightarrow> 'c \<Rightarrow> 'c) \<Rightarrow> u8 \<Rightarrow> u16 \<Rightarrow> u8 list \<Rightarrow> 'c \<Rightarrow> 'c" where
  "store_all st bsb a [] c = c"
| "store_all st bsb a (b # bs) c = store_all st bsb (a + 1) bs (st bsb a b c)"

locale vdm_chip = spi_link P J chip swap sel desel received lag
  for P :: "'d platform" and J and chip :: "'d \<Rightarrow> 'c" and swap sel desel received lag +
  fixes load :: "'c \<Rightarrow> u8 \<Rightarrow> u16 \<Rightarrow> u8" and store :: "u8 \<Rightarrow> u16 \<Rightarrow> u8 \<Rightarrow> 'c \<Rightarrow> 'c" and resting :: "'c \<Rightarrow> bool"
  assumes vdm_read: "resting c \<Longrightarrow> bsb < 32 \<Longrightarrow> x = exchange swap (vdm_header a bsb True @ bs) (sel c) \<Longrightarrow>
      drop 3 (fst x) = map (\<lambda>i. load c bsb (a + of_nat i)) [0..<length bs] \<and> desel (snd x) = c"
    and vdm_write: "resting c \<Longrightarrow> bsb < 32 \<Longrightarrow>
      desel (snd (exchange swap (vdm_header a bsb False @ bs) (sel c))) = store_all store bsb a bs c"
    and store_rests: "resting c \<Longrightarrow> resting (store bsb a b c)"
begin

lemma store_all_rests: "resting c \<Longrightarrow> resting (store_all store bsb a bs c)"
  by (induction bs arbitrary: a c) (auto intro: store_rests)

text \<open>The driver may use the bus: it is configured, and no transfer is under way.\<close>

definition ready :: "'d machine \<Rightarrow> bool" where
  "ready s \<longleftrightarrow> J (kern s) \<and> lag (dev s) = 0 \<and> resting (chip (dev s)) \<and> spi_state s \<noteq> SPI_ST_UNINIT \<and> spi_state s \<noteq> SPI_ST_FAULTED"

text \<open>The chip has moved to \<open>c\<close>, and memory to \<open>m\<close>.\<close>

definition moved :: "'d machine \<Rightarrow> 'c \<Rightarrow> mem \<Rightarrow> 'd machine \<Rightarrow> bool" where
  "moved s c m s' \<longleftrightarrow> (\<exists>k d. s' = s\<lparr>kern := k, dev := d, umem := m\<rparr>) \<and> ready s' \<and> chip (dev s') = c"

lemma movedD:
  assumes "moved s c m s'"
  shows "ready s'" "chip (dev s') = c" "umem s' = m" "sockets s' = sockets s"
  using assms by (auto simp: moved_def)

lemma moved_trans: "moved s c m s' \<Longrightarrow> moved s' c' m' s'' \<Longrightarrow> moved s c' m' s''"
  unfolding moved_def by fastforce

lemma transfer_moves:
  assumes "ready s" "bsb < 32" "if is_read f then holds_bytes (rx_data f) (unat (data_len f)) else holds_bytes (tx_data f) (unat (data_len f))"
    and "data_len f > 0 \<longrightarrow> (if is_read f then rx_data f \<noteq> Null else tx_data f \<noteq> Null)"
  shows "returns (\<lambda>(ret, rx, s'). ret = W5500_OK \<and>
     (if is_read f
      then \<exists>m. put_bytes (rx_data f) 0 (map (\<lambda>i. load (chip (dev s)) bsb (a + of_nat i)) [0..<unat (data_len f)]) (umem s) = Some (rx, m) \<and>
             moved s (chip (dev s)) m s'
      else moved s (store_all store bsb a (frame_out f (umem s)) (chip (dev s))) (umem s) s')) (w5500_transfer P a bsb f s)"
proof -
  define g where "g = \<lparr>frame_header = Array (vdm_header a bsb (is_read f)),
    header_len = 3, tx_data = tx_data f, rx_data = rx_data f, data_len = data_len f, is_read = is_read f\<rparr>"
  have g: "frame_header g = Array (vdm_header a bsb (is_read f))" "unat (header_len g) = length (vdm_header a bsb (is_read f))"
    "frame_ok g" "\<not> bad_frame g" "frame_out g = frame_out f" "length (vdm_header a bsb (is_read f)) = 3"
    using assms(3,4) by (auto simp: g_def frame_ok_def bad_frame_def vdm_header_def frame_out_def fun_eq_iff)
  define x where "x = exchange swap (vdm_header a bsb (is_read f) @ frame_out f (umem s)) (sel (chip (dev s)))"
  obtain k d m rx where t: "spi1_transfer_frame P g s = Some (SPI_OK, g\<lparr>rx_data := rx\<rparr>, s\<lparr>kern := k, dev := d, umem := m\<rparr>)"
    "J k" "idle d" "chip d = desel (snd x)"
    "if is_read f then put_bytes (rx_data f) 0 (drop 3 (fst x)) (umem s) = Some (rx, m) else rx = rx_data f \<and> m = umem s"
    using frame_exchanged [of s, OF _ _ g(1-4)] assms(1) unfolding g(5,6) x_def [symmetric]
    by (auto simp: ready_def g_def cong: if_cong)
  have eq: "w5500_transfer P a bsb f s = Some (W5500_OK, rx, s\<lparr>kern := k, dev := d, umem := m\<rparr>)"
    using t(1) by (simp add: w5500_transfer_def g_def vdm_header_def)
  have rest: "resting (chip (dev s))" "spi_state s \<noteq> SPI_ST_UNINIT" "spi_state s \<noteq> SPI_ST_FAULTED"
    using assms(1) by (auto simp: ready_def)
  show ?thesis
  proof (cases "is_read f")
    case True
    have "x = exchange swap (vdm_header a bsb True @ frame_out f (umem s)) (sel (chip (dev s)))" by (simp add: x_def True)
    note r = vdm_read [OF rest(1) assms(2) this]
    have "length (frame_out f (umem s)) = unat (data_len f)" using True by (simp add: frame_out_def)
    with r t True rest have "put_bytes (rx_data f) 0 (map (\<lambda>i. load (chip (dev s)) bsb (a + of_nat i)) [0..<unat (data_len f)]) (umem s) = Some (rx, m)"
      "moved s (chip (dev s)) m (s\<lparr>kern := k, dev := d, umem := m\<rparr>)"
      by (auto simp: moved_def ready_def idle_def)
    with True eq show ?thesis by (auto simp: returns_def)
  next
    case False
    have "chip d = store_all store bsb a (frame_out f (umem s)) (chip (dev s))"
      using vdm_write [OF rest(1) assms(2)] t(4) False by (simp add: x_def)
    moreover from this have "resting (chip d)" using store_all_rests [OF rest(1)] by simp
    ultimately have "moved s (store_all store bsb a (frame_out f (umem s)) (chip (dev s))) (umem s) (s\<lparr>kern := k, dev := d, umem := m\<rparr>)"
      using t(2,3,5) False rest by (auto simp: moved_def ready_def idle_def)
    with False eq show ?thesis by (auto simp: returns_def)
  qed
qed

lemma write_moves:
  assumes "ready s" "bsb < 32" "unat n = length bs" "\<And>i. i < length bs \<Longrightarrow> get_byte tx i (umem s) = Some (bs ! i)"
  shows "returns (\<lambda>(ret, s'). ret = W5500_OK \<and> moved s (store_all store bsb a bs (chip (dev s))) (umem s) s')
    (w5500_write P a bsb (write_frame tx n) s)"
proof -
  have out: "frame_out (write_frame tx n) (umem s) = bs"
    by (rule nth_equalityI) (use assms(3,4) in \<open>auto simp: frame_out_def write_frame_def\<close>)
  have tx: "holds_bytes tx (unat n)" "n > 0 \<longrightarrow> tx \<noteq> Null"
  proof -
    show "holds_bytes tx (unat n)"
    proof (cases tx)
      case Null
      with assms(3,4) show ?thesis by (cases bs) fastforce+
    next
      case (Array xs)
      with assms(4) [of "length xs"] assms(3) show ?thesis by (fastforce simp: fetch_def not_le)
    qed simp
    then show "n > 0 \<longrightarrow> tx \<noteq> Null" by (auto simp: unat_eq_zero)
  qed
  show ?thesis
    unfolding w5500_write_def
    by (rule returns_bindI [OF transfer_moves [OF assms(1,2)]]) (use tx out in \<open>auto simp: write_frame_def\<close>)
qed

lemma write8_moves:
  "ready s \<Longrightarrow> bsb < 32 \<Longrightarrow>
   returns (\<lambda>(ret, s'). ret = W5500_OK \<and> moved s (store bsb a v (chip (dev s))) (umem s) s') (w5500_write8 P a bsb v s)"
  using write_moves [of s bsb 1 "[v]" "Array [v]" a] by (simp add: w5500_write8_def)

lemma write16_moves:
  "ready s \<Longrightarrow> bsb < 32 \<Longrightarrow>
   returns (\<lambda>(ret, s'). ret = W5500_OK \<and>
     moved s (store bsb (a + 1) (ucast (v AND 0xFF)) (store bsb a (ucast (drop_bit 8 v)) (chip (dev s)))) (umem s) s')
   (w5500_write16 P a bsb v s)"
  using write_moves [of s bsb 2 "[ucast (drop_bit 8 v), ucast (v AND 0xFF)]" "Array [ucast (drop_bit 8 v), ucast (v AND 0xFF)]" a]
  by (simp add: w5500_write16_def)

lemma read_moves:
  assumes "ready s" "bsb < 32" "unat n = length bs"
  shows "returns (\<lambda>(ret, rx, s'). ret = W5500_OK \<and> rx = Array (map (\<lambda>i. load (chip (dev s)) bsb (a + of_nat i)) [0..<length bs]) \<and>
     moved s (chip (dev s)) (umem s) s') (w5500_transfer P a bsb (read_frame (Array bs) n) s)"
proof -
  have put: "put_bytes (Array bs) 0 (map (\<lambda>i. load (chip (dev s)) bsb (a + of_nat i)) [0..<length bs]) m =
      Some (Array (map (\<lambda>i. load (chip (dev s)) bsb (a + of_nat i)) [0..<length bs]), m)" for m
    by (subst put_bytes_Array) simp_all
  show ?thesis
    by (rule returns_mono [OF transfer_moves [OF assms(1,2), of "read_frame (Array bs) n" a]])
      (use assms(3) put in \<open>auto simp: read_frame_def\<close>)
qed

lemma read8_moves:
  assumes "ready s" "bsb < 32"
  shows "returns (\<lambda>(ret, v, s'). ret = W5500_OK \<and> v = load (chip (dev s)) bsb a \<and> moved s (chip (dev s)) (umem s) s') (w5500_read8 P a bsb v0 s)"
  unfolding w5500_read8_def by (rule returns_bindI [OF read_moves [OF assms]]) auto

lemma read16_moves:
  assumes "ready s" "bsb < 32"
  shows "returns (\<lambda>(ret, v, s'). ret = W5500_OK \<and> v = be16 (load (chip (dev s)) bsb a) (load (chip (dev s)) bsb (a + 1)) \<and>
    moved s (chip (dev s)) (umem s) s') (w5500_read16 P a bsb v0 s)"
  unfolding w5500_read16_def by (rule returns_bindI [OF read_moves [OF assms]]) auto

lemma read16_stable_moves:
  assumes "ready s" "bsb < 32"
  shows "returns (\<lambda>(ret, v, s'). ret = W5500_OK \<and> v = be16 (load (chip (dev s)) bsb a) (load (chip (dev s)) bsb (a + 1)) \<and>
    moved s (chip (dev s)) (umem s) s') (w5500_read16_stable P a bsb v0 s)"
proof -
  have "returns (\<lambda>(ret, v, n, s'). ret = W5500_OK \<and> v = be16 (load (chip (dev s)) bsb a) (load (chip (dev s)) bsb (a + 1)) \<and> n = 0 \<and>
      moved s (chip (dev s)) (umem s) s') (stable_loop P a bsb 0 0 0 s)"
    apply (subst stable_loop.simps)
    apply (rule returns_bindI [OF read16_moves [OF assms, of a]])
    apply clarsimp
    apply (rule returns_bindI [OF read16_moves [OF movedD(1) assms(2), of _ _ _ _ a]])
     apply assumption
    apply (auto simp: movedD intro: moved_trans)
    done
  then show ?thesis
    unfolding w5500_read16_stable_def by (rule returns_bindI) auto
qed

lemma sleep_moves: "ready s \<Longrightarrow> returns (moved s (chip (dev s)) (umem s)) (sys_sleep P n s)"
proof -
  assume r: "ready s"
  then obtain k where "sys_sleep P n s = Some (s\<lparr>kern := k\<rparr>)" "J k" using calm_sleep [of s n] by (auto simp: ready_def)
  moreover have "s\<lparr>kern := k\<rparr> = s\<lparr>kern := k, dev := dev s, umem := umem s\<rparr>" by simp
  ultimately have "moved s (chip (dev s)) (umem s) (s\<lparr>kern := k\<rparr>)"
    using r unfolding moved_def by (intro conjI exI [of _ k] exI [of _ "dev s"]) (simp_all add: ready_def)
  with \<open>sys_sleep P n s = Some (s\<lparr>kern := k\<rparr>)\<close> show ?thesis by (simp add: returns_def)
qed

text \<open>A waiting loop that finds the value it waits for in the first try.\<close>

lemma wait_loop_first:
  assumes "ready s" "\<And>s'. moved s (chip (dev s)) (umem s) s' \<Longrightarrow>
      returns (\<lambda>(ret, v, s''). ret = W5500_OK \<and> done_p v \<and> moved s' (chip (dev s')) (umem s') s'') (rd v0 s')"
  shows "returns (\<lambda>(ret, n, v, s'). ret = W5500_OK \<and> n = 0 \<and> moved s (chip (dev s)) (umem s) s') (wait_loop P ticks rd done_p limit 0 v0 s)"
  apply (subst wait_loop.simps)
  apply (rule returns_bindI [OF sleep_moves [OF assms(1)]])
  apply (rule returns_bindI [OF assms(2)])
   apply assumption
  apply (auto simp: movedD intro: moved_trans)
  done

end

section \<open>The chip, executable\<close>

text \<open>
  The registers and the memory of the chip by block and address; the bytes received since it was
  selected; the hosts of the network that answer when their hardware address is asked for; the
  datagrams the chip has put on the wire. A datagram has the hardware address the driver gave, or none
  if the chip asked for it itself, the address and port of its destination, and its data. The memory of
  a socket for one direction has 2048 bytes, and addresses in it wrap around.
\<close>

record wchip =
  regs :: "u8 \<Rightarrow> u16 \<Rightarrow> u8"
  phase :: "u8 list option"
  answers_arp :: "u8 list \<Rightarrow> bool"
  wire :: "(u8 list option \<times> u8 list \<times> u16 \<times> u8 list) list"

definition norm :: "u8 \<Rightarrow> u16 \<Rightarrow> u16" where
  "norm bsb a = (if bsb AND 3 = 2 \<or> bsb AND 3 = 3 then a AND 0x7FF else a)"

definition wload :: "wchip \<Rightarrow> u8 \<Rightarrow> u16 \<Rightarrow> u8" where
  "wload c bsb a = regs c bsb (norm bsb a)"

definition put_reg :: "u8 \<Rightarrow> u16 \<Rightarrow> u8 \<Rightarrow> wchip \<Rightarrow> wchip" where
  "put_reg bsb a v c = c\<lparr>regs := (regs c)(bsb := (regs c bsb)(norm bsb a := v))\<rparr>"

definition get16 :: "wchip \<Rightarrow> u8 \<Rightarrow> u16 \<Rightarrow> u16" where
  "get16 c bsb a = be16 (wload c bsb a) (wload c bsb (a + 1))"

definition put16 :: "u8 \<Rightarrow> u16 \<Rightarrow> u16 \<Rightarrow> wchip \<Rightarrow> wchip" where
  "put16 bsb a v c = put_reg bsb (a + 1) (ucast (v AND 0xFF)) (put_reg bsb a (ucast (drop_bit 8 v)) c)"

definition SOCKET_RX_WR :: u16 where "SOCKET_RX_WR = 0x2A"

text \<open>What is between the read and the write pointer of the transmit memory of a socket.\<close>

definition tx_payload :: "wchip \<Rightarrow> u8 \<Rightarrow> u8 list" where
  "tx_payload c bsb =
     map (\<lambda>i. wload c (bsb + 1) (get16 c bsb SOCKET_TX_RD + of_nat i))
       [0..<unat (get16 c bsb SOCKET_TX_WR - get16 c bsb SOCKET_TX_RD)]"

definition dst_ip_reg :: "wchip \<Rightarrow> u8 \<Rightarrow> u8 list" where
  "dst_ip_reg c bsb = map (\<lambda>i. wload c bsb (SOCKET_DIPR + i)) [0, 1, 2, 3]"

definition dst_mac_reg :: "wchip \<Rightarrow> u8 \<Rightarrow> u8 list" where
  "dst_mac_reg c bsb = map (\<lambda>i. wload c bsb (SOCKET_DHAR + i)) [0, 1, 2, 3, 4, 5]"

text \<open>
  The two commands that transmit, on a socket that is open for UDP: \<open>SEND\<close> asks for the hardware address of
  the destination, and reports a time-out if nobody answers; \<open>SEND_MAC\<close> takes it from the register.
\<close>

definition wtransmit :: "u8 \<Rightarrow> u8 list option \<Rightarrow> wchip \<Rightarrow> wchip" where
  "wtransmit bsb mac c =
     (if wload c bsb SOCKET_SR \<noteq> SOCKET_SR_UDP then c
      else if mac = None \<and> \<not> answers_arp c (dst_ip_reg c bsb)
      then put_reg bsb SOCKET_IR (wload c bsb SOCKET_IR OR SOCKET_IR_TIMEOUT) c
      else put_reg bsb SOCKET_IR (wload c bsb SOCKET_IR OR SOCKET_IR_SENDOK)
             (put16 bsb SOCKET_TX_RD (get16 c bsb SOCKET_TX_WR)
                (c\<lparr>wire := wire c @ [(mac, dst_ip_reg c bsb, get16 c bsb SOCKET_DPORT, tx_payload c bsb)]\<rparr>)))"

definition wcommand :: "u8 \<Rightarrow> u8 \<Rightarrow> wchip \<Rightarrow> wchip" where
  "wcommand bsb cmd c =
     (if cmd = SOCKET_CMD_OPEN
      then put_reg bsb SOCKET_SR (if wload c bsb SOCKET_MR = 1 then SOCKET_SR_INIT
             else if wload c bsb SOCKET_MR = 2 then SOCKET_SR_UDP else 0) c
      else if cmd = SOCKET_CMD_CLOSE then put_reg bsb SOCKET_SR SOCK_CLOSED c
      else if cmd = SOCKET_CMD_RECV
      then put16 bsb SOCKET_RX_RSR (get16 c bsb SOCKET_RX_WR - get16 c bsb SOCKET_RX_RD) c
      else if cmd = SOCKET_CMD_SEND then wtransmit bsb None c
      else if cmd = SOCKET_CMD_SEND_MAC then wtransmit bsb (Some (dst_mac_reg c bsb)) c
      else c)"

text \<open>Writing a command executes it and reads as 0; writing an interrupt bit clears it.\<close>

definition wstore :: "u8 \<Rightarrow> u16 \<Rightarrow> u8 \<Rightarrow> wchip \<Rightarrow> wchip" where
  "wstore bsb a v c =
     (if bsb AND 3 = 1 \<and> a = SOCKET_CR then put_reg bsb SOCKET_CR 0 (wcommand bsb v c)
      else if bsb AND 3 = 1 \<and> a = SOCKET_IR then put_reg bsb SOCKET_IR (wload c bsb SOCKET_IR AND NOT v) c
      else put_reg bsb a v c)"

definition wswap :: "u8 \<Rightarrow> wchip \<Rightarrow> u8 \<times> wchip" where
  "wswap b c = (case phase c of
      None \<Rightarrow> (0, c)
    | Some hs \<Rightarrow>
        if length hs < 3 then (0, c\<lparr>phase := Some (hs @ [b])\<rparr>)
        else
          let a = be16 (hs ! 0) (hs ! 1) + of_nat (length hs - 3); bsb = drop_bit 3 (hs ! 2)
          in if bit (hs ! 2) 2 then (0, (wstore bsb a b c)\<lparr>phase := Some (hs @ [b])\<rparr>)
             else (wload c bsb a, c\<lparr>phase := Some (hs @ [b])\<rparr>))"

definition wsel :: "wchip \<Rightarrow> wchip" where "wsel c = c\<lparr>phase := Some []\<rparr>"
definition wdesel :: "wchip \<Rightarrow> wchip" where "wdesel c = c\<lparr>phase := None\<rparr>"

definition wresting :: "wchip \<Rightarrow> bool" where "wresting c \<longleftrightarrow> phase c = None"

lemma wstore_phase: "phase (wstore bsb a v c) = phase c" "wstore bsb a v (c\<lparr>phase := p\<rparr>) = (wstore bsb a v c)\<lparr>phase := p\<rparr>"
  by (simp_all add: wstore_def wcommand_def wtransmit_def put_reg_def put16_def wload_def get16_def tx_payload_def
      dst_ip_reg_def dst_mac_reg_def)

lemma be16_split: "be16 (ucast (drop_bit 8 a AND 0xFF)) (ucast (a AND 0xFF)) = a"
proof -
  have "be16 (ucast (drop_bit 8 a AND mask 8)) (ucast (a AND mask 8)) = a"
    by (rule bit_word_eqI) (auto simp: be16_def bit_simps)
  then show ?thesis by (simp add: mask_numeral)
qed

lemma control_fields:
  assumes "bsb < 32"
  shows "drop_bit 3 (w5500_control bsb rd) = bsb" "bit (w5500_control bsb rd) 2 = (\<not> rd)"
proof -
  have "unat bsb < 2 ^ 5" using assms by (simp add: word_less_nat_alt)
  then have high: "\<not> bit bsb i" if "5 \<le> i" for i using no_high_bit that by blast
  have "bit (if rd then push_bit 2 0 else push_bit 2 1 :: u8) i \<longleftrightarrow> \<not> rd \<and> i = 2" for i
    by (auto simp: bit_push_bit_iff bit_1_iff simp del: push_bit_of_1 push_bit_numeral)
  then have ctl: "bit (w5500_control bsb rd) i \<longleftrightarrow> i < 8 \<and> 3 \<le> i \<and> bit bsb (i - 3) \<or> \<not> rd \<and> i = 2" for i
    unfolding w5500_control_def bit_or_iff by (auto simp: bit_push_bit_iff)
  have "n < 5" if "bit bsb n" for n using high [of n] that by (meson not_le)
  then show "drop_bit 3 (w5500_control bsb rd) = bsb"
    by (intro bit_word_eqI) (auto simp: ctl bit_drop_bit_eq)
  show "bit (w5500_control bsb rd) 2 = (\<not> rd)" by (simp add: ctl)
qed

text \<open>After the header, the chip loads or stores at consecutive addresses.\<close>

lemma exchange_header:
  "snd (exchange wswap (vdm_header a bsb rd) (wsel c)) = c\<lparr>phase := Some (vdm_header a bsb rd)\<rparr>"
  by (simp add: vdm_header_def wsel_def wswap_def)

lemma exchange_read:
  assumes "length hs = 3 + j" "be16 (hs ! 0) (hs ! 1) = a" "drop_bit 3 (hs ! 2) = bsb" "\<not> bit (hs ! 2) 2"
  shows "exchange wswap bs (c\<lparr>phase := Some hs\<rparr>) =
    (map (\<lambda>i. wload c bsb (a + of_nat (j + i))) [0..<length bs], c\<lparr>phase := Some (hs @ bs)\<rparr>)"
  using assms
proof (induction bs arbitrary: hs j)
  case (Cons b bs)
  have "wswap b (c\<lparr>phase := Some hs\<rparr>) = (wload c bsb (a + of_nat j), c\<lparr>phase := Some (hs @ [b])\<rparr>)"
    using Cons.prems by (simp add: wswap_def wload_def)
  moreover have "exchange wswap bs (c\<lparr>phase := Some (hs @ [b])\<rparr>) =
      (map (\<lambda>i. wload c bsb (a + of_nat (Suc j + i))) [0..<length bs], c\<lparr>phase := Some ((hs @ [b]) @ bs)\<rparr>)"
    by (rule Cons.IH) (use Cons.prems in \<open>auto simp: nth_append\<close>)
  ultimately show ?case by (simp add: exchange.simps upt_conv_Cons map_Suc_upt [symmetric] comp_def ac_simps del: upt_Suc)
qed simp

lemma exchange_write:
  assumes "length hs = 3 + j" "be16 (hs ! 0) (hs ! 1) = a" "drop_bit 3 (hs ! 2) = bsb" "bit (hs ! 2) 2"
  shows "snd (exchange wswap bs (c\<lparr>phase := Some hs\<rparr>)) = (store_all wstore bsb (a + of_nat j) bs c)\<lparr>phase := Some (hs @ bs)\<rparr>"
  using assms
proof (induction bs arbitrary: hs j c)
  case (Cons b bs)
  have "wswap b (c\<lparr>phase := Some hs\<rparr>) = (0, (wstore bsb (a + of_nat j) b c)\<lparr>phase := Some (hs @ [b])\<rparr>)"
    using Cons.prems by (simp add: wswap_def wstore_phase)
  moreover have "snd (exchange wswap bs ((wstore bsb (a + of_nat j) b c)\<lparr>phase := Some (hs @ [b])\<rparr>)) =
      (store_all wstore bsb (a + of_nat (Suc j)) bs (wstore bsb (a + of_nat j) b c))\<lparr>phase := Some ((hs @ [b]) @ bs)\<rparr>"
    by (rule Cons.IH) (use Cons.prems in \<open>auto simp: nth_append\<close>)
  ultimately show ?case by (simp add: ac_simps)
qed simp

lemma header_fields:
  assumes "bsb < 32"
  shows "length (vdm_header a bsb rd) = 3 + 0" "be16 (vdm_header a bsb rd ! 0) (vdm_header a bsb rd ! 1) = a"
    "drop_bit 3 (vdm_header a bsb rd ! 2) = bsb" "bit (vdm_header a bsb rd ! 2) 2 = (\<not> rd)"
  using control_fields [OF assms] by (simp_all add: vdm_header_def be16_split)

lemma store_all_phase: "phase (store_all wstore bsb a bs c) = phase c"
  by (induction bs arbitrary: a c) (simp_all add: wstore_phase)

text \<open>A bus with the chip on it.\<close>

locale w5500_link = spi_link P J chip wswap wsel wdesel received lag
  for P :: "'d platform" and J and chip :: "'d \<Rightarrow> wchip" and received lag

sublocale w5500_link \<subseteq> vdm: vdm_chip P J chip wswap wsel wdesel received lag wload wstore wresting
proof
  fix c bsb x a bs
  assume c: "wresting c" and bsb: "bsb < (32 :: u8)"
  have same: "c\<lparr>phase := None\<rparr> = c" using c by (simp add: wresting_def)
  have st: "(store_all wstore bsb a bs c)\<lparr>phase := None\<rparr> = store_all wstore bsb a bs c"
    using c store_all_phase [of bsb a bs c] by (simp add: wresting_def)
  note fields = header_fields [OF bsb, of a]
  show "wdesel (snd (exchange wswap (vdm_header a bsb False @ bs) (wsel c))) = store_all wstore bsb a bs c"
    using exchange_write [OF fields(1-3), of False bs c] fields(4) st
    by (simp add: exchange_append exchange_header wdesel_def)
  show "drop 3 (fst x) = map (\<lambda>i. wload c bsb (a + of_nat i)) [0..<length bs] \<and> wdesel (snd x) = c"
    if "x = exchange wswap (vdm_header a bsb True @ bs) (wsel c)"
    using exchange_read [OF fields(1-3), of True bs c] fields(1,4) same that
    by (simp add: exchange_append exchange_header wdesel_def)
next
  show "wresting (wstore bsb a b c)" if "wresting c" for c bsb a b using that by (simp add: wresting_def wstore_phase)
qed

section \<open>Registers of a socket\<close>

text \<open>The block of the registers of socket \<open>n\<close>; those of its memory follow.\<close>

lemma sock_block:
  assumes "n < 8"
  shows "W5500_BSB_SOCK_REG n < 32" "W5500_BSB_SOCK_REG n AND 3 = 1"
    "BSB_TX n = W5500_BSB_SOCK_REG n + 1" "BSB_RX n = W5500_BSB_SOCK_REG n + 2"
    "BSB_TX n < 32" "BSB_TX n AND 3 = 2" "BSB_RX n < 32" "BSB_RX n AND 3 = 3"
proof -
  have "n \<in> {0, 1, 2, 3, 4, 5, 6, 7}"
  proof -
    have "unat n < 8" using assms by (simp add: word_less_nat_alt)
    then have "unat n \<in> {0, 1, 2, 3, 4, 5, 6, 7}" by auto
    then show ?thesis by (auto simp: word_unat_eq_iff)
  qed
  then show "W5500_BSB_SOCK_REG n < 32" "W5500_BSB_SOCK_REG n AND 3 = 1"
    "BSB_TX n = W5500_BSB_SOCK_REG n + 1" "BSB_RX n = W5500_BSB_SOCK_REG n + 2"
    "BSB_TX n < 32" "BSB_TX n AND 3 = 2" "BSB_RX n < 32" "BSB_RX n AND 3 = 3"
    by (auto simp: W5500_BSB_SOCK_REG_def BSB_TX_def BSB_RX_def)
qed

definition sock_bsb :: "u8 \<Rightarrow> bool" where
  "sock_bsb bsb \<longleftrightarrow> bsb AND 3 = 1"

lemma norm_sock [simp]: "sock_bsb bsb \<Longrightarrow> norm bsb a = a"
  by (simp add: sock_bsb_def norm_def)

lemma wload_put_reg [simp]:
  "wload (put_reg b a v c) b' a' = (if b = b' \<and> norm b a = norm b' a' then v else wload c b' a')"
  by (simp add: wload_def put_reg_def)

lemma put_reg_wire [simp]: "wire (put_reg b a v c) = wire c" "wire (put16 b a w c) = wire c"
  "answers_arp (put_reg b a v c) = answers_arp c" "answers_arp (put16 b a w c) = answers_arp c"
  by (simp_all add: put_reg_def put16_def)

lemma be16_split' [simp]: "be16 (ucast (drop_bit 8 a)) (ucast (a AND 0xFF)) = a"
proof -
  have "be16 (ucast (drop_bit 8 a)) (ucast (a AND mask 8)) = a"
    by (rule bit_word_eqI) (auto simp: be16_def bit_simps)
  then show ?thesis by (simp add: mask_numeral)
qed

lemma wload_put16 [simp]:
  "sock_bsb b \<Longrightarrow> wload (put16 b a v c) b' a' =
     (if b = b' \<and> a + 1 = a' then ucast (v AND 0xFF) else if b = b' \<and> a = a' then ucast (drop_bit 8 v) else wload c b' a')"
  by (auto simp: put16_def norm_def sock_bsb_def)

lemma get16_put_reg [simp]:
  "sock_bsb b \<Longrightarrow> a' \<noteq> a \<Longrightarrow> a' + 1 \<noteq> a \<Longrightarrow> get16 (put_reg b a v c) b' a' = get16 c b' a'"
  by (auto simp: get16_def norm_def sock_bsb_def)

lemma get16_put16 [simp]:
  "sock_bsb b \<Longrightarrow> get16 (put16 b a v c) b a = v"
  "sock_bsb b \<Longrightarrow> a' \<noteq> a \<Longrightarrow> a' + 1 \<noteq> a \<Longrightarrow> a' \<noteq> a + 1 \<Longrightarrow> get16 (put16 b a v c) b' a' = get16 c b' a'"
  by (auto simp: get16_def)

lemma wstore_reg:
  "sock_bsb b \<Longrightarrow> a \<noteq> SOCKET_CR \<Longrightarrow> a \<noteq> SOCKET_IR \<Longrightarrow> wstore b a v c = put_reg b a v c"
  "bsb AND 3 \<noteq> 1 \<Longrightarrow> wstore bsb a v c = put_reg bsb a v c"
  by (auto simp: wstore_def sock_bsb_def)

lemmas socket_regs = SOCKET_MR_def SOCKET_CR_def SOCKET_IR_def SOCKET_SR_def SOCKET_PORT_def SOCKET_DHAR_def
  SOCKET_DIPR_def SOCKET_DPORT_def SOCKET_TX_FSR_def SOCKET_TX_RD_def SOCKET_TX_WR_def SOCKET_RX_RSR_def
  SOCKET_RX_RD_def SOCKET_RX_WR_def

section \<open>Receiving a datagram\<close>

text \<open>The bytes the chip holds for a socket: between the read and the write pointer.\<close>

definition rx_bytes :: "wchip \<Rightarrow> u8 \<Rightarrow> u8 list" where
  "rx_bytes c bsb = map (\<lambda>i. wload c (bsb + 2) (get16 c bsb SOCKET_RX_RD + of_nat i))
     [0..<unat (get16 c bsb SOCKET_RX_WR - get16 c bsb SOCKET_RX_RD)]"

text \<open>The size register agrees with the pointers.\<close>

definition rx_ok :: "wchip \<Rightarrow> u8 \<Rightarrow> bool" where
  "rx_ok c bsb \<longleftrightarrow> get16 c bsb SOCKET_RX_RSR = get16 c bsb SOCKET_RX_WR - get16 c bsb SOCKET_RX_RD"

text \<open>A datagram as the chip stores it: source address, source port, length, data.\<close>

definition be_bytes :: "u16 \<Rightarrow> u8 list" where
  "be_bytes v = [ucast (drop_bit 8 v), ucast (v AND 0xFF)]"

definition stored_datagram :: "u8 list \<Rightarrow> u16 \<Rightarrow> u8 list \<Rightarrow> u8 list" where
  "stored_datagram ip port payload = ip @ be_bytes port @ be_bytes (of_nat (length payload)) @ payload"

text \<open>The chip after the driver has taken \<open>n\<close> bytes from the receive memory.\<close>

definition consumed :: "u8 \<Rightarrow> u16 \<Rightarrow> wchip \<Rightarrow> wchip" where
  "consumed bsb n c = wstore bsb SOCKET_CR SOCKET_CMD_RECV (put16 bsb SOCKET_RX_RD (get16 c bsb SOCKET_RX_RD + n) c)"

lemma consumed_eq:
  assumes "sock_bsb bsb"
  shows "consumed bsb n c = put_reg bsb SOCKET_CR 0 (put16 bsb SOCKET_RX_RSR (get16 c bsb SOCKET_RX_WR - (get16 c bsb SOCKET_RX_RD + n))
     (put16 bsb SOCKET_RX_RD (get16 c bsb SOCKET_RX_RD + n) c))"
  using assms by (simp add: consumed_def wstore_def wcommand_def sock_bsb_def [symmetric] SOCKET_CMD_RECV_def
      SOCKET_CMD_OPEN_def SOCKET_CMD_CLOSE_def socket_regs)

lemma consumed_rx:
  assumes bsb: "sock_bsb bsb" and taken: "rx_bytes c bsb = taken @ rest"
  shows "rx_bytes (consumed bsb (of_nat (length taken)) c) bsb = rest" "rx_ok (consumed bsb (of_nat (length taken)) c) bsb"
    "wload (consumed bsb (of_nat (length taken)) c) bsb SOCKET_CR = 0"
    "get16 (consumed bsb (of_nat (length taken)) c) bsb SOCKET_RX_RSR = of_nat (length rest)"
proof -
  let ?c = "consumed bsb (of_nat (length taken)) c"
  define rd wr where "rd = get16 c bsb SOCKET_RX_RD" and "wr = get16 c bsb SOCKET_RX_WR"
  have len: "unat (wr - rd) = length taken + length rest"
    using arg_cong [OF taken, of length] by (simp add: rx_bytes_def rd_def wr_def)
  have "wr - rd = of_nat (unat (wr - rd))" by simp
  then have "wr - rd = of_nat (length taken) + of_nat (length rest)" unfolding len by simp
  then have wr: "wr - (rd + of_nat (length taken)) = of_nat (length rest)" by (simp add: algebra_simps)
  have "length rest < 2 ^ 16" using len unat_lt2p [of "wr - rd"] by simp
  then have rest: "unat (of_nat (length rest) :: u16) = length rest" by (simp add: unat_of_nat take_bit_nat_eq_self)
  have regs: "get16 ?c bsb SOCKET_RX_RD = rd + of_nat (length taken)" "get16 ?c bsb SOCKET_RX_WR = wr"
    "get16 ?c bsb SOCKET_RX_RSR = of_nat (length rest)"
    using bsb wr by (simp_all add: consumed_eq rd_def wr_def socket_regs)
  have mem: "wload ?c (bsb + 2) a = wload c (bsb + 2) a" for a
    using bsb by (simp add: consumed_eq)
  have "rx_bytes ?c bsb = map (\<lambda>i. wload c (bsb + 2) (rd + of_nat (length taken + i))) [0..<length rest]"
    by (simp add: rx_bytes_def regs mem wr rest ac_simps)
  also have "\<dots> = drop (length taken) (rx_bytes c bsb)"
    by (rule nth_equalityI) (use len in \<open>auto simp: rx_bytes_def rd_def [symmetric] wr_def [symmetric]\<close>)
  finally show "rx_bytes ?c bsb = rest" by (simp add: taken)
  show "rx_ok ?c bsb" by (simp add: rx_ok_def regs wr)
  show "wload ?c bsb SOCKET_CR = 0" using bsb by (simp add: consumed_eq)
  show "get16 ?c bsb SOCKET_RX_RSR = of_nat (length rest)" by (rule regs(3))
qed

lemma rx_nth:
  assumes "rx_bytes c bsb = xs @ ys @ zs"
  shows "map (\<lambda>i. wload c (bsb + 2) (get16 c bsb SOCKET_RX_RD + of_nat (length xs) + of_nat i)) [0..<length ys] = ys"
proof (rule nth_equalityI)
  fix i assume "i < length (map (\<lambda>i. wload c (bsb + 2) (get16 c bsb SOCKET_RX_RD + of_nat (length xs) + of_nat i)) [0..<length ys])"
  then have i: "length xs + i < length (rx_bytes c bsb)" "i < length ys" using assms by simp_all
  then have "rx_bytes c bsb ! (length xs + i) = wload c (bsb + 2) (get16 c bsb SOCKET_RX_RD + of_nat (length xs) + of_nat i)"
    unfolding rx_bytes_def by (simp add: add.assoc)
  with i assms show "map (\<lambda>i. wload c (bsb + 2) (get16 c bsb SOCKET_RX_RD + of_nat (length xs) + of_nat i)) [0..<length ys] ! i = ys ! i"
    by (simp add: nth_append)
qed simp

context w5500_link
begin

lemma sock_reg_moved: "vdm.moved s c m s' \<Longrightarrow> sock_reg p s' = sock_reg p s"
  by (simp add: sock_reg_def vdm.movedD(4))

lemma recv_header_moves:
  assumes "vdm.ready s" "sock_number (sockets s socket) < 8" "length (junk P 8) = 8" "c = chip (dev s)"
    and "bsb = W5500_BSB_SOCK_REG (sock_number (sockets s socket))"
    and "rx_bytes c bsb = ip @ be_bytes port @ be_bytes len @ tail" "length ip = 4"
  shows "returns (\<lambda>(ret, h, rp, s'). ret = W5500_OK \<and> h = \<lparr>udp_src_ip = ip, udp_src_port = port, udp_length = len\<rparr> \<and>
     rp = get16 c bsb SOCKET_RX_RD \<and> vdm.moved s c (umem s) s') (w5500_recv_udp_header P socket h0 rp0 s)"
proof -
  note blk = sock_block [OF assms(2), folded assms(5)]
  obtain i0 i1 i2 i3 where ip: "ip = [i0, i1, i2, i3]"
    using assms(7) by (auto simp: length_Suc_conv eval_nat_numeral)
  define rp where "rp = get16 c bsb SOCKET_RX_RD"
  obtain s1 where r1: "w5500_read16 P SOCKET_RX_RD bsb rp0 s = Some (W5500_OK, rp, s1)" "vdm.moved s c (umem s) s1"
    using vdm.read16_moves [OF assms(1) blk(1), of SOCKET_RX_RD rp0] by (auto simp: returns_def get16_def assms(4) rp_def)
  note s1 = vdm.movedD [OF r1(2)]
  have hdr: "map (\<lambda>i. wload c (bsb + 2) (rp + of_nat i)) [0..<8] = ip @ be_bytes port @ be_bytes len"
    using rx_nth [of c bsb "[]" "ip @ be_bytes port @ be_bytes len" tail] assms(6,7)
    by (simp add: be_bytes_def rp_def)
  obtain s2 where r2: "w5500_transfer P rp (BSB_RX (sock_number (sockets s1 socket))) (read_frame (Array (junk P 8)) 8) s1 =
      Some (W5500_OK, Array (ip @ be_bytes port @ be_bytes len), s2)" "vdm.moved s1 c (umem s1) s2"
    using vdm.read_moves [OF s1(1) blk(7), of 8 "junk P 8" rp] assms(3) by (auto simp: returns_def s1 blk(4) hdr)
  have "vdm.moved s c (umem s) s2" using vdm.moved_trans [OF r1(2) r2(2)] s1 by simp
  moreover have "w5500_recv_udp_header P socket h0 rp0 s = Some (W5500_OK, \<lparr>udp_src_ip = ip, udp_src_port = port, udp_length = len\<rparr>, rp, s2)"
    using r1(1) r2(1) by (simp add: w5500_recv_udp_header_def or_return_def sock_reg_def assms(5) ip be_bytes_def fetch_def)
  ultimately show ?thesis by (simp add: returns_def rp_def)
qed

lemma read_memory_moves:
  assumes "vdm.ready s" "bsb < 32" "unat n = len"
  shows "returns (\<lambda>(ret, rx, s'). ret = W5500_OK \<and> vdm.moved s (chip (dev s))
      (store_bytes p (map (\<lambda>i. wload (chip (dev s)) bsb (a + of_nat i)) [0..<len]) (umem s)) s')
    (w5500_transfer P a bsb (read_frame (At p) n) s)"
  by (rule returns_mono [OF vdm.transfer_moves [OF assms(1,2), of "read_frame (At p) n" a]])
    (use assms(3) in \<open>auto simp: read_frame_def put_bytes_At\<close>)

lemma wait_read8_moves:
  assumes "vdm.ready s" "sock_number (sockets s socket) < 8"
    and "done_p (wload (chip (dev s)) (sock_reg socket s) a)"
  shows "returns (\<lambda>(ret, n, v, s'). ret = W5500_OK \<and> n = 0 \<and> vdm.moved s (chip (dev s)) (umem s) s')
    (wait_loop P ticks (\<lambda>v s. w5500_read8 P a (sock_reg socket s) v s) done_p limit 0 v0 s)"
proof (rule vdm.wait_loop_first [OF assms(1)])
  fix s' assume m: "vdm.moved s (chip (dev s)) (umem s) s'"
  have "sock_reg socket s' = sock_reg socket s" "sock_reg socket s < 32"
    using sock_reg_moved [OF m] sock_block(1) [OF assms(2)] by (simp_all add: sock_reg_def)
  then show "returns (\<lambda>(ret, v, s''). ret = W5500_OK \<and> done_p v \<and> vdm.moved s' (chip (dev s')) (umem s') s'')
      (w5500_read8 P a (sock_reg socket s') v0 s')"
    using vdm.read8_moves [OF vdm.movedD(1) [OF m], of "sock_reg socket s" a v0] assms(3) vdm.movedD(2) [OF m]
    by (auto elim!: returns_mono)
qed

lemma recv_commit_moves:
  assumes "vdm.ready s" "sock_number (sockets s socket) < 8" "bsb = sock_reg socket s"
    and "chip (dev s) = put16 bsb SOCKET_RX_RD (get16 c bsb SOCKET_RX_RD + of_nat (length taken)) c"
    and "rx_bytes c bsb = taken @ rest" "rx_ok c bsb" "taken \<noteq> []"
  shows "returns (\<lambda>(ret, r', s'). ret = W5500_OK \<and> r' = r\<lparr>reply_truncated := longer\<rparr> \<and>
      vdm.moved s (consumed bsb (of_nat (length taken)) c) (umem s) s')
    (recv_commit P socket (get16 c bsb SOCKET_RX_RSR) rp longer r s)"
proof -
  let ?c = "consumed bsb (of_nat (length taken)) c"
  have blk: "bsb < 32" "sock_bsb bsb" using sock_block [OF assms(2)] assms(3) by (simp_all add: sock_reg_def sock_bsb_def)
  note rx = consumed_rx [OF blk(2) assms(5)]
  obtain s1 where r1: "w5500_write8 P SOCKET_CR bsb SOCKET_CMD_RECV s = Some (W5500_OK, s1)" "vdm.moved s ?c (umem s) s1"
    using vdm.write8_moves [OF assms(1) blk(1), of SOCKET_CR SOCKET_CMD_RECV] by (auto simp: returns_def assms(4) consumed_def)
  note s1 = vdm.movedD [OF r1(2)] sock_reg_moved [OF r1(2), of socket]
  obtain v s2 where r2: "wait_loop P 1 (\<lambda>v s. w5500_read8 P SOCKET_CR (sock_reg socket s) v s) (\<lambda>v. v = 0) 5 0 SOCKET_CMD_RECV s1 =
      Some (W5500_OK, 0, v, s2)" "vdm.moved s1 ?c (umem s) s2"
    using wait_read8_moves [OF s1(1), of socket "\<lambda>v. v = 0" SOCKET_CR 1 5 SOCKET_CMD_RECV] assms(2,3) rx(3) s1
    by (auto simp: returns_def)
  note s2 = vdm.movedD [OF r2(2)] sock_reg_moved [OF r2(2), of socket]
  obtain s3 where r3: "w5500_read16_stable P SOCKET_RX_RSR bsb 0xFFFF s2 = Some (W5500_OK, of_nat (length rest), s3)" "vdm.moved s2 ?c (umem s) s3"
    using vdm.read16_stable_moves [OF s2(1) blk(1), of SOCKET_RX_RSR "0xFFFF"] s2 rx(4) by (auto simp: returns_def get16_def)
  have all: "vdm.moved s ?c (umem s) s3" using vdm.moved_trans [OF vdm.moved_trans [OF r1(2)]] r2(2) r3(2) by blast
  have "unat (get16 c bsb SOCKET_RX_RSR) = length taken + length rest"
    using arg_cong [OF assms(5), of length] assms(6) by (simp add: rx_bytes_def rx_ok_def)
  moreover from this have "unat (of_nat (length rest) :: u16) = length rest"
    using unat_lt2p [of "get16 c bsb SOCKET_RX_RSR"] by (simp add: unat_of_nat take_bit_nat_eq_self)
  ultimately have "\<not> of_nat (length rest) \<ge> get16 c bsb SOCKET_RX_RSR"
    using assms(7) by (simp add: word_le_nat_alt)
  with r1(1) r2(1) r3(1) have "recv_commit P socket (get16 c bsb SOCKET_RX_RSR) rp longer r s = Some (W5500_OK, r\<lparr>reply_truncated := longer\<rparr>, s3)"
    using assms(3) s1 s2 by (simp add: recv_commit_def or_return_def)
  with all show ?thesis by (simp add: returns_def)
qed

lemma recv_moves:
  assumes "vdm.ready s" "socket \<noteq> 0" "sock_number (sockets s socket) < 8" "buffer \<noteq> 0" "maxlen \<noteq> 0"
    and "length (junk P 8) = 8" "c = chip (dev s)" "bsb = sock_reg socket s" "rx_ok c bsb"
    and "rx_bytes c bsb = stored_datagram ip port payload @ rest" "length ip = 4" "length payload < 2 ^ 16"
  shows "returns (\<lambda>(ret, r', s'). ret = W5500_OK \<and>
      r' = r\<lparr>reply_got := of_nat (min (length payload) (unat maxlen)), reply_src_ip := ip, reply_port := port,
             reply_truncated := length payload > unat maxlen\<rparr> \<and>
      vdm.moved s (consumed bsb (of_nat (8 + length payload)) c) (store_bytes buffer (take (unat maxlen) payload) (umem s)) s')
    (w5500_socket_recv P socket buffer maxlen False r s)"
proof -
  let ?taken = "stored_datagram ip port payload"
  define len :: u16 where "len = of_nat (length payload)"
  define n where "n = min (length payload) (unat maxlen)"
  define rp where "rp = get16 c bsb SOCKET_RX_RD"
  have len: "unat len = length payload" using assms(12) by (simp add: len_def unat_of_nat take_bit_nat_eq_self)
  have to_read: "(if len < maxlen then len else maxlen) = of_nat n"
    using len by (auto simp: n_def len_def word_less_nat_alt min_def)
  have n: "unat (ucast (of_nat n :: u16) :: u32) = n"
    using unat_lt2p [of maxlen] by (simp add: unat_of_nat n_def take_bit_nat_eq_self)
  have longer: "len > maxlen \<longleftrightarrow> length payload > unat maxlen" using len by (simp add: word_less_nat_alt)
  have blk: "bsb < 32" "sock_bsb bsb" "BSB_RX (sock_number (sockets s socket)) = bsb + 2" "bsb + 2 < 32"
    using sock_block [OF assms(3)] assms(8) by (simp_all add: sock_reg_def sock_bsb_def)
  have taken: "length ?taken = 8 + length payload" "?taken \<noteq> []" using assms(11) by (auto simp: stored_datagram_def be_bytes_def)
  have "unat (get16 c bsb SOCKET_RX_RSR) = length ?taken + length rest"
    using arg_cong [OF assms(10), of length] assms(9) by (simp add: rx_bytes_def rx_ok_def)
  then have nz: "get16 c bsb SOCKET_RX_RSR \<noteq> 0" using taken by auto
  obtain s1 where r1: "w5500_read16_stable P SOCKET_RX_RSR bsb 0 s = Some (W5500_OK, get16 c bsb SOCKET_RX_RSR, s1)" "vdm.moved s c (umem s) s1"
    using vdm.read16_stable_moves [OF assms(1) blk(1), of SOCKET_RX_RSR 0] by (auto simp: returns_def get16_def assms(7))
  note s1 = vdm.movedD [OF r1(2)] sock_reg_moved [OF r1(2), of socket]
  obtain s2 where r2: "w5500_recv_udp_header P socket \<lparr>udp_src_ip = [0, 0, 0, 0], udp_src_port = 0, udp_length = 0\<rparr> 0 s1 =
      Some (W5500_OK, \<lparr>udp_src_ip = ip, udp_src_port = port, udp_length = len\<rparr>, rp, s2)" "vdm.moved s1 c (umem s) s2"
    using recv_header_moves [OF s1(1), of socket c bsb ip port len "payload @ rest"] assms(3,6,8,10,11) s1
    by (auto simp: returns_def sock_reg_def stored_datagram_def len_def rp_def)
  note s2 = vdm.movedD [OF r2(2)] sock_reg_moved [OF r2(2), of socket]
  have tk: "take (unat maxlen) payload = take n payload" by (simp add: n_def min_def)
  have data: "map (\<lambda>i. wload c (bsb + 2) (rp + 8 + of_nat i)) [0..<n] = take (unat maxlen) payload"
    unfolding tk
    using rx_nth [of c bsb "ip @ be_bytes port @ be_bytes len" "take n payload" "drop n payload @ rest"] assms(10,11)
    by (simp add: stored_datagram_def len_def be_bytes_def rp_def n_def min.commute)
  obtain rx s3 where r3: "w5500_transfer P (rp + 8) (bsb + 2) (read_frame (At buffer) (ucast (of_nat n :: u16))) s2 = Some (W5500_OK, rx, s3)"
    "vdm.moved s2 c (store_bytes buffer (take (unat maxlen) payload) (umem s)) s3"
    using read_memory_moves [OF s2(1) blk(4) n, of buffer "rp + 8"] s2 data by (auto simp: returns_def)
  note s3 = vdm.movedD [OF r3(2)] sock_reg_moved [OF r3(2), of socket]
  have put: "wstore bsb (SOCKET_RX_RD + 1) (ucast (v AND 0xFF)) (wstore bsb SOCKET_RX_RD (ucast (drop_bit 8 v)) c) = put16 bsb SOCKET_RX_RD v c" for v
    using blk(2) by (simp add: wstore_reg put16_def socket_regs)
  obtain s4 where r4: "w5500_write16 P SOCKET_RX_RD bsb (rp + 8 + len) s3 = Some (W5500_OK, s4)"
    "vdm.moved s3 (put16 bsb SOCKET_RX_RD (rp + of_nat (length ?taken)) c) (umem s3) s4"
    using vdm.write16_moves [OF s3(1) blk(1), of SOCKET_RX_RD "rp + 8 + len"] s3 put
    by (auto simp: returns_def taken(1) len_def add.assoc)
  note s4 = vdm.movedD [OF r4(2)] sock_reg_moved [OF r4(2), of socket]
  define r2 where "r2 = r\<lparr>reply_got := of_nat n, reply_src_ip := ip, reply_port := port\<rparr>"
  obtain s5 where r5: "recv_commit P socket (get16 c bsb SOCKET_RX_RSR) (rp + 8) (len > maxlen) r2 s4 =
      Some (W5500_OK, r2\<lparr>reply_truncated := len > maxlen\<rparr>, s5)" "vdm.moved s4 (consumed bsb (of_nat (length ?taken)) c) (umem s3) s5"
    using recv_commit_moves [OF s4(1), where socket = socket and bsb = bsb and c = c and taken = ?taken and rest = rest
        and r = r2 and longer = "len > maxlen" and rp = "rp + 8"] assms(3,8-10) taken(2) s1 s2 s3 s4
    by (auto simp: returns_def rp_def)
  have "vdm.moved s (consumed bsb (of_nat (length ?taken)) c) (umem s3) s5"
    using r1(2) r2(2) r3(2) r4(2) r5(2) by (meson vdm.moved_trans)
  moreover have "w5500_socket_recv P socket buffer maxlen False r s = Some (W5500_OK, r2\<lparr>reply_truncated := len > maxlen\<rparr>, s5)"
    using assms(2,4,5,8) nz r1(1) r2(1) r3(1) r4(1) r5(1) s1 s2 s3 blk(3)
    by (simp add: w5500_socket_recv_def or_return_def Let_def to_read r2_def cong: if_cong split del: if_split del: bind_eq_Some_conv)
  ultimately show ?thesis by (simp add: returns_def r2_def longer s3(3) taken(1) n_def)
qed

end

section \<open>Sending a datagram\<close>

lemma mod_add_inj:
  fixes A i j N :: nat
  assumes "(A + i) mod N = (A + j) mod N" "i \<le> j" "j < N"
  shows "i = j"
proof (rule ccontr)
  assume "i \<noteq> j"
  have "N dvd (A + j) - (A + i)" using assms(1,2) mod_eq_dvd_iff_nat [of "A + i" "A + j" N] by simp
  then have "N dvd j - i" by simp
  moreover have "0 < j - i" "j - i < N" using assms(2,3) \<open>i \<noteq> j\<close> by linarith+
  ultimately show False using nat_dvd_not_less by blast
qed

lemma masked_inj:
  assumes "(a + of_nat i) AND 0x7FF = (a + of_nat j :: u16) AND 0x7FF" "i < 2048" "j < 2048"
  shows "i = j"
proof -
  have "take_bit 11 (a + of_nat i) = take_bit 11 (a + of_nat j)" using assms(1) by (simp add: take_bit_eq_mask mask_numeral)
  then have "take_bit 11 (unat (a + of_nat i)) = take_bit 11 (unat (a + of_nat j))"
    by (metis unsigned_take_bit_eq)
  then have "(unat a + i) mod 2048 = (unat a + j) mod 2048"
    using assms(2,3) by (simp add: take_bit_eq_mod unat_word_ariths unat_of_nat mod_simps mod_mod_cancel)
  then show "i = j" using mod_add_inj [of "unat a" i 2048 j] mod_add_inj [of "unat a" j 2048 i] assms(2,3) by linarith
qed

lemma store_tx_other:
  assumes "bb AND 3 = 2"
  shows "b' \<noteq> bb \<Longrightarrow> wload (store_all wstore bb a bs c) b' a' = wload c b' a'" "wire (store_all wstore bb a bs c) = wire c"
    "answers_arp (store_all wstore bb a bs c) = answers_arp c"
  using assms by (induction bs arbitrary: a c) (simp_all add: wstore_reg)

lemma store_tx_miss:
  assumes "bb AND 3 = 2" "\<And>k. k < length bs \<Longrightarrow> norm bb (a + of_nat k) \<noteq> norm bb x"
  shows "wload (store_all wstore bb a bs c) bb x = wload c bb x"
  using assms(2)
proof (induction bs arbitrary: a c)
  case (Cons b bs)
  have "norm bb (a + 1 + of_nat k) \<noteq> norm bb x" if "k < length bs" for k
    using Cons.prems [of "Suc k"] that by (simp add: ac_simps)
  then have "wload (store_all wstore bb (a + 1) bs (wstore bb a b c)) bb x = wload (wstore bb a b c) bb x" by (rule Cons.IH)
  with Cons.prems [of 0] assms(1) show ?case by (simp add: wstore_reg)
qed simp

lemma store_tx_load:
  assumes "bb AND 3 = 2"
  shows "length bs \<le> 2048 \<Longrightarrow> i < length bs \<Longrightarrow> wload (store_all wstore bb a bs c) bb (a + of_nat i) = bs ! i"
proof (induction bs arbitrary: a c i)
  case (Cons b bs)
  have nrm: "norm bb x = x AND 0x7FF" for x using assms by (simp add: norm_def)
  show ?case
  proof (cases i)
    case 0
    have "norm bb (a + 1 + of_nat k) \<noteq> norm bb a" if "k < length bs" for k
      using masked_inj [of a "Suc k" 0] that Cons.prems(1) by (auto simp: nrm ac_simps)
    then have "wload (store_all wstore bb (a + 1) bs (wstore bb a b c)) bb a = wload (wstore bb a b c) bb a"
      by (rule store_tx_miss [OF assms])
    with 0 assms show ?thesis by (simp add: wstore_reg)
  next
    case (Suc j)
    then have "wload (store_all wstore bb (a + 1) bs (wstore bb a b c)) bb (a + 1 + of_nat j) = bs ! j"
      using Cons.prems by (intro Cons.IH) simp_all
    with Suc show ?thesis by (simp add: ac_simps)
  qed
qed simp

text \<open>The chip with a datagram written to its memory and its registers, before the command.\<close>

definition loaded :: "u8 \<Rightarrow> u8 list \<Rightarrow> u16 \<Rightarrow> u8 list \<Rightarrow> u8 list \<Rightarrow> wchip \<Rightarrow> wchip" where
  "loaded bsb ip port mac bs c =
     (let wp = get16 c bsb SOCKET_TX_WR;
          c = store_all wstore (bsb + 1) wp bs c;
          c = store_all wstore bsb SOCKET_DIPR ip c;
          c = put16 bsb SOCKET_DPORT port c;
          c = store_all wstore bsb SOCKET_DHAR mac c
      in put16 bsb SOCKET_TX_WR (wp + of_nat (length bs)) c)"

lemma store_ip:
  assumes "sock_bsb b" "length ip = 4"
  shows "store_all wstore b SOCKET_DIPR ip c =
     put_reg b 0xF (ip ! 3) (put_reg b 0xE (ip ! 2) (put_reg b 0xD (ip ! 1) (put_reg b 0xC (ip ! 0) c)))"
proof -
  obtain a0 a1 a2 a3 where "ip = [a0, a1, a2, a3]" using assms(2) by (auto simp: length_Suc_conv eval_nat_numeral)
  then show ?thesis using assms(1) by (simp add: wstore_reg socket_regs)
qed

lemma store_mac:
  assumes "sock_bsb b" "mac = [] \<or> length mac = 6"
  shows "b' \<noteq> b \<or> a' < 6 \<or> a' > 0xB \<Longrightarrow> wload (store_all wstore b SOCKET_DHAR mac c) b' a' = wload c b' a'"
    "wire (store_all wstore b SOCKET_DHAR mac c) = wire c" "answers_arp (store_all wstore b SOCKET_DHAR mac c) = answers_arp c"
    "mac \<noteq> [] \<Longrightarrow> dst_mac_reg (store_all wstore b SOCKET_DHAR mac c) b = mac"
proof -
  have "mac = [] \<or> (\<exists>a0 a1 a2 a3 a4 a5. mac = [a0, a1, a2, a3, a4, a5])"
    using assms(2) by (auto simp: length_Suc_conv eval_nat_numeral)
  then show "b' \<noteq> b \<or> a' < 6 \<or> a' > 0xB \<Longrightarrow> wload (store_all wstore b SOCKET_DHAR mac c) b' a' = wload c b' a'"
    "wire (store_all wstore b SOCKET_DHAR mac c) = wire c" "answers_arp (store_all wstore b SOCKET_DHAR mac c) = answers_arp c"
    "mac \<noteq> [] \<Longrightarrow> dst_mac_reg (store_all wstore b SOCKET_DHAR mac c) b = mac"
    using assms(1) by (auto simp: wstore_reg socket_regs sock_bsb_def norm_def dst_mac_reg_def)
qed

lemma loaded_regs:
  assumes bsb: "sock_bsb bsb" "(bsb + 1) AND 3 = 2" and len: "length ip = 4" "mac = [] \<or> length mac = 6" "length bs \<le> 2048"
  shows "dst_ip_reg (loaded bsb ip port mac bs c) bsb = ip"
    "get16 (loaded bsb ip port mac bs c) bsb SOCKET_DPORT = port"
    "get16 (loaded bsb ip port mac bs c) bsb SOCKET_TX_WR = get16 c bsb SOCKET_TX_WR + of_nat (length bs)"
    "get16 (loaded bsb ip port mac bs c) bsb SOCKET_TX_RD = get16 c bsb SOCKET_TX_RD"
    "i < length bs \<Longrightarrow> wload (loaded bsb ip port mac bs c) (bsb + 1) (get16 c bsb SOCKET_TX_WR + of_nat i) = bs ! i"
    "wload (loaded bsb ip port mac bs c) bsb SOCKET_IR = wload c bsb SOCKET_IR" "wire (loaded bsb ip port mac bs c) = wire c"
    "wload (loaded bsb ip port mac bs c) bsb SOCKET_SR = wload c bsb SOCKET_SR"
    "answers_arp (loaded bsb ip port mac bs c) = answers_arp c"
    "mac \<noteq> [] \<Longrightarrow> dst_mac_reg (loaded bsb ip port mac bs c) bsb = mac"
proof -
  have ne: "bsb \<noteq> bsb + 1" by simp
  obtain a0 a1 a2 a3 where ip: "ip = [a0, a1, a2, a3]" using len(1) by (auto simp: length_Suc_conv eval_nat_numeral)
  note defs = loaded_def Let_def store_ip [OF bsb(1) len(1), unfolded SOCKET_DIPR_def] get16_def
  note eval = store_mac [OF bsb(1) len(2), unfolded SOCKET_DHAR_def] store_tx_other [OF bsb(2)] bsb(1) ne socket_regs
  show "dst_ip_reg (loaded bsb ip port mac bs c) bsb = ip"
    by (simp add: dst_ip_reg_def defs eval wstore_reg ip)
  show "wload (loaded bsb ip port mac bs c) bsb SOCKET_SR = wload c bsb SOCKET_SR"
    "answers_arp (loaded bsb ip port mac bs c) = answers_arp c"
    by (simp_all add: defs eval)
  have "dst_mac_reg (put16 bsb 0x24 w d) bsb = dst_mac_reg d bsb" for w d
    using bsb(1) by (simp add: dst_mac_reg_def socket_regs)
  then show "mac \<noteq> [] \<Longrightarrow> dst_mac_reg (loaded bsb ip port mac bs c) bsb = mac"
    by (simp add: loaded_def Let_def store_mac(4) [OF bsb(1) len(2)] SOCKET_TX_WR_def)
  show "get16 (loaded bsb ip port mac bs c) bsb SOCKET_DPORT = port"
    by (simp add: defs eval)
  show "get16 (loaded bsb ip port mac bs c) bsb SOCKET_TX_WR = get16 c bsb SOCKET_TX_WR + of_nat (length bs)"
    by (simp add: defs eval)
  show "get16 (loaded bsb ip port mac bs c) bsb SOCKET_TX_RD = get16 c bsb SOCKET_TX_RD"
    by (simp add: defs eval)
  show "wload (loaded bsb ip port mac bs c) bsb SOCKET_IR = wload c bsb SOCKET_IR" "wire (loaded bsb ip port mac bs c) = wire c"
    by (simp_all add: defs eval)
  show "i < length bs \<Longrightarrow> wload (loaded bsb ip port mac bs c) (bsb + 1) (get16 c bsb SOCKET_TX_WR + of_nat i) = bs ! i"
    using store_tx_load [OF bsb(2) len(3)] by (simp add: defs eval)
qed

definition transmitted :: "u8 \<Rightarrow> u8 \<Rightarrow> wchip \<Rightarrow> wchip" where
  "transmitted bsb cmd c = wstore bsb SOCKET_CR cmd (wstore bsb SOCKET_IR SOCKET_IR_SENDOK c)"

lemma wstore_command: "sock_bsb b \<Longrightarrow> wstore b SOCKET_CR v c = put_reg b SOCKET_CR 0 (wcommand b v c)"
  by (simp add: wstore_def sock_bsb_def)

text \<open>The command for a destination whose hardware address is given, or not.\<close>

definition send_code :: "u8 list option \<Rightarrow> u8" where
  "send_code mac = (if mac = None then SOCKET_CMD_SEND else SOCKET_CMD_SEND_MAC)"

lemma wcommand_send:
  assumes "\<And>m. mac = Some m \<Longrightarrow> dst_mac_reg c b = m"
  shows "wcommand b (send_code mac) c = wtransmit b mac c"
  using assms by (cases mac) (simp_all add: wcommand_def send_code_def SOCKET_CMD_SEND_def SOCKET_CMD_SEND_MAC_def SOCKET_CMD_OPEN_def
      SOCKET_CMD_CLOSE_def SOCKET_CMD_RECV_def)

lemma ir_disjoint: "((x AND NOT SOCKET_IR_SENDOK) OR SOCKET_IR_SENDOK) AND SOCKET_IR_TIMEOUT = x AND SOCKET_IR_TIMEOUT"
proof -
  have disj: "SOCKET_IR_SENDOK AND SOCKET_IR_TIMEOUT = 0" by (simp add: SOCKET_IR_SENDOK_def SOCKET_IR_TIMEOUT_def)
  show ?thesis
  proof (rule bit_word_eqI)
    fix n assume "n < LENGTH(8)"
    have "\<not> (bit SOCKET_IR_SENDOK n \<and> bit SOCKET_IR_TIMEOUT n)" using arg_cong [OF disj, of "\<lambda>w. bit w n"] by (simp add: bit_and_iff)
    then show "bit (((x AND NOT SOCKET_IR_SENDOK) OR SOCKET_IR_SENDOK) AND SOCKET_IR_TIMEOUT) n = bit (x AND SOCKET_IR_TIMEOUT) n"
      using \<open>n < LENGTH(8)\<close> by (auto simp: bit_and_iff bit_or_iff bit_not_iff)
  qed
qed

text \<open>A hardware address as the driver is given it, and the bytes it writes for it.\<close>

definition mac_bytes :: "u8 list option \<Rightarrow> u8 list" where
  "mac_bytes mac = (case mac of None \<Rightarrow> [] | Some m \<Rightarrow> m)"

lemma transmitted_regs:
  assumes bsb: "sock_bsb bsb" "(bsb + 1) AND 3 = 2" and len: "length ip = 4" "pred_option (\<lambda>m. length m = 6) mac" "length bs \<le> 2048"
    and tx: "get16 c bsb SOCKET_TX_RD = get16 c bsb SOCKET_TX_WR"
    and ir: "wload c bsb SOCKET_IR AND SOCKET_IR_TIMEOUT = 0" and sr: "wload c bsb SOCKET_SR = SOCKET_SR_UDP"
    and c': "c' = transmitted bsb (send_code mac) (loaded bsb ip port (mac_bytes mac) bs c)"
  shows "wload c' bsb SOCKET_CR = 0"
    "mac \<noteq> None \<or> answers_arp c ip \<Longrightarrow> wire c' = wire c @ [(mac, ip, port, bs)]"
    "mac \<noteq> None \<or> answers_arp c ip \<Longrightarrow> wload c' bsb SOCKET_IR AND SOCKET_IR_SENDOK \<noteq> 0"
    "mac \<noteq> None \<or> answers_arp c ip \<Longrightarrow> wload c' bsb SOCKET_IR AND SOCKET_IR_TIMEOUT = 0"
    "mac = None \<Longrightarrow> \<not> answers_arp c ip \<Longrightarrow> wire c' = wire c"
    "mac = None \<Longrightarrow> \<not> answers_arp c ip \<Longrightarrow> wload c' bsb SOCKET_IR AND SOCKET_IR_TIMEOUT \<noteq> 0"
proof -
  have mac6: "mac_bytes mac = [] \<or> length (mac_bytes mac) = 6" using len(2) by (cases mac) (simp_all add: mac_bytes_def)
  define c6 where "c6 = loaded bsb ip port (mac_bytes mac) bs c"
  note regs = loaded_regs [OF bsb len(1) mac6 len(3), where port = port and c = c, folded c6_def]
  define c7 where "c7 = wstore bsb SOCKET_IR SOCKET_IR_SENDOK c6"
  have c7: "c7 = put_reg bsb SOCKET_IR (wload c6 bsb SOCKET_IR AND NOT SOCKET_IR_SENDOK) c6"
    using bsb(1) by (simp add: c7_def wstore_def sock_bsb_def socket_regs)
  have same: "get16 c7 bsb SOCKET_DPORT = port" "get16 c7 bsb SOCKET_TX_WR = get16 c bsb SOCKET_TX_WR + of_nat (length bs)"
    "get16 c7 bsb SOCKET_TX_RD = get16 c bsb SOCKET_TX_WR" "wire c7 = wire c" "dst_ip_reg c7 bsb = ip"
    "wload c7 bsb SOCKET_SR = SOCKET_SR_UDP" "answers_arp c7 = answers_arp c" "dst_mac_reg c7 bsb = dst_mac_reg c6 bsb"
    using bsb(1) regs(2,3,4,7,8,9) regs(1) tx sr by (simp_all add: c7 socket_regs dst_ip_reg_def dst_mac_reg_def)
  have mac7: "dst_mac_reg c7 bsb = m" if "mac = Some m" for m
  proof -
    have "m \<noteq> []" using that len(2) by auto
    then show ?thesis using regs(10) that by (simp add: mac_bytes_def same(8))
  qed
  have len16: "unat (of_nat (length bs) :: u16) = length bs" using len(3) by (simp add: unat_of_nat take_bit_nat_eq_self)
  have "tx_payload c7 bsb = map (\<lambda>i. wload c7 (bsb + 1) (get16 c bsb SOCKET_TX_WR + of_nat i)) [0..<length bs]"
    by (simp add: tx_payload_def same len16)
  also have "\<dots> = bs"
    by (rule nth_equalityI) (use regs(5) in \<open>auto simp: c7\<close>)
  finally have payload: "tx_payload c7 bsb = bs" .
  have cr: "c' = put_reg bsb SOCKET_CR 0 (wtransmit bsb mac c7)"
    unfolding c' transmitted_def c6_def [symmetric] c7_def [symmetric] wstore_command [OF bsb(1)]
    by (simp only: wcommand_send mac7)
  show "wload c' bsb SOCKET_CR = 0" by (simp add: cr)
  have iv: "wload c7 bsb SOCKET_IR = wload c bsb SOCKET_IR AND NOT SOCKET_IR_SENDOK" by (simp add: c7 regs(6))
  have ok: "((x AND NOT SOCKET_IR_SENDOK) OR SOCKET_IR_SENDOK) AND SOCKET_IR_SENDOK = SOCKET_IR_SENDOK"
    "(x OR SOCKET_IR_TIMEOUT) AND SOCKET_IR_TIMEOUT = SOCKET_IR_TIMEOUT" for x
    by (rule bit_word_eqI; auto simp: bit_simps)+
  have nz: "SOCKET_IR_SENDOK \<noteq> 0" "SOCKET_IR_TIMEOUT \<noteq> 0" by (simp_all add: SOCKET_IR_SENDOK_def SOCKET_IR_TIMEOUT_def)
  {
    assume h: "mac \<noteq> None \<or> answers_arp c ip"
    then have tr: "wtransmit bsb mac c7 = put_reg bsb SOCKET_IR (wload c7 bsb SOCKET_IR OR SOCKET_IR_SENDOK)
      (put16 bsb SOCKET_TX_RD (get16 c7 bsb SOCKET_TX_WR) (c7\<lparr>wire := wire c7 @ [(mac, ip, port, bs)]\<rparr>))"
      unfolding wtransmit_def payload same(1,5-7) by auto
    then show "wire c' = wire c @ [(mac, ip, port, bs)]" by (simp add: cr same)
    have "wload c' bsb SOCKET_IR = (wload c bsb SOCKET_IR AND NOT SOCKET_IR_SENDOK) OR SOCKET_IR_SENDOK"
      using bsb(1) by (simp add: cr tr socket_regs iv [unfolded SOCKET_IR_def])
    then show "wload c' bsb SOCKET_IR AND SOCKET_IR_SENDOK \<noteq> 0" "wload c' bsb SOCKET_IR AND SOCKET_IR_TIMEOUT = 0"
      using ir by (simp_all only: ok(1) ir_disjoint nz simp_thms not_False_eq_True)
  }
  {
    assume h: "mac = None" "\<not> answers_arp c ip"
    then have tr: "wtransmit bsb mac c7 = put_reg bsb SOCKET_IR (wload c7 bsb SOCKET_IR OR SOCKET_IR_TIMEOUT) c7"
      unfolding wtransmit_def same(5-7) by simp
    then show "wire c' = wire c" by (simp add: cr same)
    have "wload c' bsb SOCKET_IR = wload c7 bsb SOCKET_IR OR SOCKET_IR_TIMEOUT"
      using bsb(1) by (simp add: cr tr socket_regs)
    then show "wload c' bsb SOCKET_IR AND SOCKET_IR_TIMEOUT \<noteq> 0" using ok(2) nz(2) by simp
  }
qed

text \<open>The chip after the interrupt bits of an earlier send have been cleared.\<close>

lemma reaped_regs:
  assumes "sock_bsb bsb"
  shows "wload (wstore bsb SOCKET_IR (SOCKET_IR_SENDOK OR SOCKET_IR_TIMEOUT) c) bsb SOCKET_IR AND SOCKET_IR_TIMEOUT = 0"
    "a \<noteq> SOCKET_IR \<Longrightarrow> a + 1 \<noteq> SOCKET_IR \<Longrightarrow> get16 (wstore bsb SOCKET_IR m c) bsb a = get16 c bsb a"
    "wire (wstore bsb SOCKET_IR m c) = wire c" "answers_arp (wstore bsb SOCKET_IR m c) = answers_arp c"
    "wload (wstore bsb SOCKET_IR m c) bsb SOCKET_SR = wload c bsb SOCKET_SR"
proof -
  have st: "wstore bsb SOCKET_IR m c = put_reg bsb SOCKET_IR (wload c bsb SOCKET_IR AND NOT m) c" for m
    using assms by (simp add: wstore_def sock_bsb_def SOCKET_IR_def SOCKET_CR_def)
  have "(x AND NOT (SOCKET_IR_SENDOK OR SOCKET_IR_TIMEOUT)) AND SOCKET_IR_TIMEOUT = 0" for x
    by (rule bit_word_eqI) (auto simp: bit_simps)
  then show "wload (wstore bsb SOCKET_IR (SOCKET_IR_SENDOK OR SOCKET_IR_TIMEOUT) c) bsb SOCKET_IR AND SOCKET_IR_TIMEOUT = 0"
    by (simp add: st)
  show "a \<noteq> SOCKET_IR \<Longrightarrow> a + 1 \<noteq> SOCKET_IR \<Longrightarrow> get16 (wstore bsb SOCKET_IR m c) bsb a = get16 c bsb a"
    "wire (wstore bsb SOCKET_IR m c) = wire c" "answers_arp (wstore bsb SOCKET_IR m c) = answers_arp c"
    "wload (wstore bsb SOCKET_IR m c) bsb SOCKET_SR = wload c bsb SOCKET_SR"
    using assms unfolding st by simp_all (simp_all add: SOCKET_IR_def SOCKET_SR_def)
qed

text \<open>The chip with a socket opened.\<close>

definition opened :: "u8 \<Rightarrow> u8 \<Rightarrow> u16 \<Rightarrow> wchip \<Rightarrow> wchip" where
  "opened bsb mode port c =
     wstore bsb SOCKET_CR SOCKET_CMD_OPEN (put16 bsb SOCKET_PORT port (put_reg bsb SOCKET_MR mode
       (wstore bsb SOCKET_CR SOCKET_CMD_CLOSE c)))"

lemma opened_regs:
  assumes "sock_bsb bsb"
  shows "wload (opened bsb mode port c) bsb SOCKET_MR = mode" "get16 (opened bsb mode port c) bsb SOCKET_PORT = port"
    "mode = 1 \<Longrightarrow> wload (opened bsb mode port c) bsb SOCKET_SR = SOCKET_SR_INIT"
    "mode = 2 \<Longrightarrow> wload (opened bsb mode port c) bsb SOCKET_SR = SOCKET_SR_UDP" "wire (opened bsb mode port c) = wire c"
  using assms by (simp_all add: opened_def wstore_command [unfolded SOCKET_CR_def] wcommand_def SOCKET_CMD_CLOSE_def SOCKET_CMD_OPEN_def socket_regs)

text \<open>The address of the receiver on the link, if the caller knows it.\<close>

definition mac_buffer :: "u8 list option \<Rightarrow> buffer" where
  "mac_buffer mac = (case mac of None \<Rightarrow> Null | Some m \<Rightarrow> Array m)"

text \<open>The driver may use the bus: it is configured, and no transfer is under way.\<close>

definition chip_ready :: "(kernel \<Rightarrow> bool) \<Rightarrow> ('d \<Rightarrow> wchip) \<Rightarrow> ('d \<Rightarrow> nat) \<Rightarrow> 'd machine \<Rightarrow> bool" where
  "chip_ready J chip lag s \<longleftrightarrow>
     J (kern s) \<and> lag (dev s) = 0 \<and> phase (chip (dev s)) = None \<and> spi_state s \<noteq> SPI_ST_UNINIT \<and> spi_state s \<noteq> SPI_ST_FAULTED"

context w5500_link
begin

lemma wait_stable_moves:
  assumes "vdm.ready s" "sock_number (sockets s socket) < 8"
    and "done_p (get16 (chip (dev s)) (sock_reg socket s) a)"
  shows "returns (\<lambda>(ret, n, v, s'). ret = W5500_OK \<and> n = 0 \<and> vdm.moved s (chip (dev s)) (umem s) s')
    (wait_loop P ticks (\<lambda>v s. w5500_read16_stable P a (sock_reg socket s) v s) done_p limit 0 v0 s)"
proof (rule vdm.wait_loop_first [OF assms(1)])
  fix s' assume m: "vdm.moved s (chip (dev s)) (umem s) s'"
  have "sock_reg socket s' = sock_reg socket s" "sock_reg socket s < 32"
    using sock_reg_moved [OF m] sock_block(1) [OF assms(2)] by (simp_all add: sock_reg_def)
  then show "returns (\<lambda>(ret, v, s''). ret = W5500_OK \<and> done_p v \<and> vdm.moved s' (chip (dev s')) (umem s') s'')
      (w5500_read16_stable P a (sock_reg socket s') v0 s')"
    using vdm.read16_stable_moves [OF vdm.movedD(1) [OF m], of "sock_reg socket s" a v0] assms(3) vdm.movedD(2) [OF m]
    by (auto elim!: returns_mono simp: get16_def)
qed

lemma write_array_moves:
  assumes "vdm.ready s" "bsb < 32" "unat n = length bs"
  shows "returns (\<lambda>(ret, s'). ret = W5500_OK \<and> vdm.moved s (store_all wstore bsb a bs (chip (dev s))) (umem s) s')
    (w5500_write P a bsb (write_frame (Array bs) n) s)"
  using assms by (rule vdm.write_moves) (simp add: fetch_def)

lemma write_memory_moves:
  assumes "vdm.ready s" "bsb < 32" "unat n = k"
  shows "returns (\<lambda>(ret, s'). ret = W5500_OK \<and> vdm.moved s (store_all wstore bsb a (bytes_at (umem s) p k) (chip (dev s))) (umem s) s')
    (w5500_write P a bsb (write_frame (At p) n) s)"
  using assms by (intro vdm.write_moves) (simp_all add: bytes_at_nth)

lemma write_pair_moves:
  assumes "vdm.ready s" "bsb < 32" "sock_bsb bsb" "a \<noteq> SOCKET_CR" "a \<noteq> SOCKET_IR" "a + 1 \<noteq> SOCKET_CR" "a + 1 \<noteq> SOCKET_IR"
  shows "returns (\<lambda>(ret, s'). ret = W5500_OK \<and> vdm.moved s (put16 bsb a v (chip (dev s))) (umem s) s') (w5500_write16 P a bsb v s)"
  using vdm.write16_moves [OF assms(1,2), of a v] assms(3-7) by (simp add: wstore_reg put16_def)

lemma send_fill_moves:
  assumes "vdm.ready s" "sock_number (sockets s socket) < 8" "bsb = sock_reg socket s" "c = chip (dev s)"
    and "length ip = 4" "pred_option (\<lambda>m. length m = 6) addr" "bs = bytes_at (umem s) data (unat n)"
    and "mac = mac_bytes addr" "dst_mac = mac_buffer addr"
  shows "returns (\<lambda>(ret, wp, s'). ret = W5500_OK \<and> vdm.moved s (loaded bsb ip port mac bs c) (umem s) s')
    (send_fill P socket data n ip port dst_mac s)"
proof -
  have blk: "bsb < 32" "sock_bsb bsb" "BSB_TX (sock_number (sockets s socket)) = bsb + 1" "bsb + 1 < 32"
    using sock_block [OF assms(2)] assms(3) by (simp_all add: sock_reg_def sock_bsb_def)
  define wp where "wp = get16 c bsb SOCKET_TX_WR"
  define c1 where "c1 = store_all wstore (bsb + 1) wp bs c"
  define c2 where "c2 = store_all wstore bsb SOCKET_DIPR ip c1"
  define c3 where "c3 = put16 bsb SOCKET_DPORT port c2"
  define c4 where "c4 = store_all wstore bsb SOCKET_DHAR mac c3"
  have fin: "loaded bsb ip port mac bs c = put16 bsb SOCKET_TX_WR (wp + n) c4"
    by (simp add: loaded_def Let_def wp_def c1_def c2_def c3_def c4_def assms(7))
  have n: "unat (ucast n :: u32) = unat n" by simp
  obtain s0 where r0: "w5500_read16 P SOCKET_TX_WR bsb 0 s = Some (W5500_OK, wp, s0)" "vdm.moved s c (umem s) s0"
    using vdm.read16_moves [OF assms(1) blk(1), of SOCKET_TX_WR 0] by (auto simp: returns_def wp_def get16_def assms(4))
  note s0 = vdm.movedD [OF r0(2)] sock_reg_moved [OF r0(2), of socket]
  obtain s1 where r1: "w5500_write P wp (bsb + 1) (write_frame (At data) (ucast n)) s0 = Some (W5500_OK, s1)" "vdm.moved s0 c1 (umem s) s1"
    using write_memory_moves [OF s0(1) blk(4) n, of wp data] s0 by (auto simp: returns_def c1_def assms(7))
  note s1 = vdm.movedD [OF r1(2)] sock_reg_moved [OF r1(2), of socket]
  obtain s2 where r2: "w5500_write P SOCKET_DIPR bsb (write_frame (Array ip) 4) s1 = Some (W5500_OK, s2)" "vdm.moved s1 c2 (umem s) s2"
    using write_array_moves [OF s1(1) blk(1), of 4 ip SOCKET_DIPR] s1 assms(5) by (auto simp: returns_def c2_def)
  note s2 = vdm.movedD [OF r2(2)] sock_reg_moved [OF r2(2), of socket]
  obtain s3 where r3: "w5500_write16 P SOCKET_DPORT bsb port s2 = Some (W5500_OK, s3)" "vdm.moved s2 c3 (umem s) s3"
    using write_pair_moves [OF s2(1) blk(1,2), of SOCKET_DPORT port] s2 by (auto simp: returns_def c3_def socket_regs)
  note s3 = vdm.movedD [OF r3(2)] sock_reg_moved [OF r3(2), of socket]
  have "\<exists>s4. (if dst_mac \<noteq> Null then w5500_write P SOCKET_DHAR bsb (write_frame dst_mac 6) s3 else Some (W5500_OK, s3)) = Some (W5500_OK, s4) \<and>
      vdm.moved s3 c4 (umem s) s4"
  proof (cases "dst_mac = Null")
    case True
    moreover have "vdm.moved s3 c3 (umem s) s3"
      unfolding vdm.moved_def using s3(1,2) by (intro conjI exI [of _ "kern s3"] exI [of _ "dev s3"]) (simp_all add: s3(3) [symmetric])
    ultimately show ?thesis using assms(8,9) by (cases addr) (simp_all add: mac_buffer_def mac_bytes_def c4_def)
  next
    case False
    with assms(6,8,9) have "dst_mac = Array mac" "length mac = 6" by (cases addr; auto simp: mac_buffer_def mac_bytes_def)+
    then show ?thesis using write_array_moves [OF s3(1) blk(1), of 6 mac SOCKET_DHAR] s3 by (auto simp: returns_def c4_def)
  qed
  then obtain s4 where r4: "(if dst_mac \<noteq> Null then w5500_write P SOCKET_DHAR bsb (write_frame dst_mac 6) s3 else Some (W5500_OK, s3)) = Some (W5500_OK, s4)"
    "vdm.moved s3 c4 (umem s) s4" by blast
  note s4 = vdm.movedD [OF r4(2)] sock_reg_moved [OF r4(2), of socket]
  obtain s5 where r5: "w5500_write16 P SOCKET_TX_WR bsb (wp + n) s4 = Some (W5500_OK, s5)" "vdm.moved s4 (loaded bsb ip port mac bs c) (umem s) s5"
    using write_pair_moves [OF s4(1) blk(1,2), of SOCKET_TX_WR "wp + n"] s4 by (auto simp: returns_def fin socket_regs)
  have "vdm.moved s (loaded bsb ip port mac bs c) (umem s) s5"
    using r0(2) r1(2) r2(2) r3(2) r4(2) r5(2) by (meson vdm.moved_trans)
  moreover have "send_fill P socket data n ip port dst_mac s = Some (W5500_OK, wp, s5)"
    using assms(3) r0(1) r1(1) r2(1) r3(1) r4(1) r5(1) s0 s1 s2 s3 s4 blk(3)
    by (simp add: send_fill_def or_return_def cong: if_cong split del: if_split del: bind_eq_Some_conv)
  ultimately show ?thesis by (simp add: returns_def)
qed

text \<open>After a time-out the datagram is taken back from the transmit memory.\<close>

definition taken_back :: "u8 \<Rightarrow> wchip \<Rightarrow> wchip" where
  "taken_back bsb c = wstore bsb SOCKET_IR SOCKET_IR_TIMEOUT (put16 bsb SOCKET_TX_WR (get16 c bsb SOCKET_TX_RD) c)"

lemma take_back_moves:
  assumes "vdm.ready s" "sock_number (sockets s socket) < 8" "bsb = sock_reg socket s" "c = chip (dev s)"
  shows "\<exists>s1 s2. w5500_reset_tx_wr P socket s = Some (W5500_OK, s1) \<and>
     w5500_ir_clear P socket SOCKET_IR_TIMEOUT s1 = Some (W5500_OK, s2) \<and> vdm.moved s (taken_back bsb c) (umem s) s2"
proof -
  have blk: "bsb < 32" "sock_bsb bsb" using sock_block [OF assms(2)] assms(3) by (simp_all add: sock_reg_def sock_bsb_def)
  obtain s1 where r1: "w5500_read16 P SOCKET_TX_RD bsb 0 s = Some (W5500_OK, get16 c bsb SOCKET_TX_RD, s1)" "vdm.moved s c (umem s) s1"
    using vdm.read16_moves [OF assms(1) blk(1), of SOCKET_TX_RD 0] by (auto simp: returns_def get16_def assms(4))
  note s1 = vdm.movedD [OF r1(2)] sock_reg_moved [OF r1(2), of socket]
  obtain s2 where r2: "w5500_write16 P SOCKET_TX_WR bsb (get16 c bsb SOCKET_TX_RD) s1 = Some (W5500_OK, s2)"
    "vdm.moved s1 (put16 bsb SOCKET_TX_WR (get16 c bsb SOCKET_TX_RD) c) (umem s) s2"
    using write_pair_moves [OF s1(1) blk(1,2), of SOCKET_TX_WR "get16 c bsb SOCKET_TX_RD"] s1 by (auto simp: returns_def socket_regs)
  note s2 = vdm.movedD [OF r2(2)] sock_reg_moved [OF r2(2), of socket]
  obtain s3 where r3: "w5500_write8 P SOCKET_IR bsb SOCKET_IR_TIMEOUT s2 = Some (W5500_OK, s3)" "vdm.moved s2 (taken_back bsb c) (umem s) s3"
    using vdm.write8_moves [OF s2(1) blk(1), of SOCKET_IR SOCKET_IR_TIMEOUT] s2 by (auto simp: returns_def taken_back_def)
  have "vdm.moved s (taken_back bsb c) (umem s) s3" using r1(2) r2(2) r3(2) by (meson vdm.moved_trans)
  moreover have "w5500_reset_tx_wr P socket s = Some (W5500_OK, s2)"
    using r1(1) r2(1) s1 assms(3) by (simp add: w5500_reset_tx_wr_def or_return_def)
  ultimately show ?thesis using r3(1) s1 s2 assms(3) by (auto simp: w5500_ir_clear_def)
qed

lemma send_command_moves:
  assumes "vdm.ready s" "sock_number (sockets s socket) < 8" "bsb = sock_reg socket s"
    and "chip (dev s) = loaded bsb ip port (mac_bytes mac) bs c" "length ip = 4" "pred_option (\<lambda>m. length m = 6) mac" "length bs \<le> 2048"
    and "get16 c bsb SOCKET_TX_RD = get16 c bsb SOCKET_TX_WR" "wload c bsb SOCKET_IR AND SOCKET_IR_TIMEOUT = 0"
    and "wload c bsb SOCKET_SR = SOCKET_SR_UDP" "reach \<longleftrightarrow> mac \<noteq> None \<or> answers_arp c ip"
  shows "returns (\<lambda>(ret, sent, s'). ret = (if reach then W5500_OK else W5500_ERR_UNREACHABLE) \<and> sent = (if reach then n else 0) \<and>
      (\<exists>c'. vdm.moved s c' (umem s) s' \<and> wire c' = wire c @ (if reach then [(mac, ip, port, bs)] else [])))
    (send_command P socket n wp (mac_buffer mac) s)"
proof -
  define L T where "L = loaded bsb ip port (mac_bytes mac) bs c" and "T = transmitted bsb (send_code mac) L"
  have blk: "bsb < 32" "sock_bsb bsb" "(bsb + 1) AND 3 = 2"
    using sock_block [OF assms(2)] assms(3) by (simp_all add: sock_reg_def sock_bsb_def)
  have code: "(if mac_buffer mac = Null then SOCKET_CMD_SEND else SOCKET_CMD_SEND_MAC) = send_code mac"
    by (cases mac) (simp_all add: mac_buffer_def send_code_def)
  note T = transmitted_regs [OF blk(2,3) assms(5-10) T_def [unfolded L_def]]
  obtain s1 where r1: "w5500_ir_clear P socket SOCKET_IR_SENDOK s = Some (W5500_OK, s1)" "vdm.moved s (wstore bsb SOCKET_IR SOCKET_IR_SENDOK L) (umem s) s1"
    using vdm.write8_moves [OF assms(1) blk(1), of SOCKET_IR SOCKET_IR_SENDOK] by (auto simp: returns_def w5500_ir_clear_def assms(3,4) L_def)
  note s1 = vdm.movedD [OF r1(2)] sock_reg_moved [OF r1(2), of socket]
  obtain s2 where r2: "w5500_write8 P SOCKET_CR bsb (send_code mac) s1 = Some (W5500_OK, s2)" "vdm.moved s1 T (umem s) s2"
    using vdm.write8_moves [OF s1(1) blk(1), of SOCKET_CR "send_code mac"] s1 by (auto simp: returns_def T_def transmitted_def)
  note s2 = vdm.movedD [OF r2(2)] sock_reg_moved [OF r2(2), of socket]
  obtain v s3 where r3: "wait_loop P 1 (\<lambda>v s. w5500_read8 P SOCKET_CR (sock_reg socket s) v s) (\<lambda>v. v = 0) 5 0 SOCKET_CMD_SEND s2 =
      Some (W5500_OK, 0, v, s3)" "vdm.moved s2 T (umem s) s3"
    using wait_read8_moves [OF s2(1), of socket "\<lambda>v. v = 0" SOCKET_CR 1 5 SOCKET_CMD_SEND] assms(2,3) T(1) s1 s2
    by (auto simp: returns_def)
  note s3 = vdm.movedD [OF r3(2)] sock_reg_moved [OF r3(2), of socket]
  obtain s4 where r4: "sys_sleep P 1 s3 = Some s4" "vdm.moved s3 T (umem s) s4"
    using vdm.sleep_moves [OF s3(1), of 1] s3 by (auto simp: returns_def)
  note s4 = vdm.movedD [OF r4(2)] sock_reg_moved [OF r4(2), of socket]
  obtain s5 where r5: "w5500_read8 P SOCKET_IR bsb 0 s4 = Some (W5500_OK, wload T bsb SOCKET_IR, s5)" "vdm.moved s4 T (umem s) s5"
    using vdm.read8_moves [OF s4(1) blk(1), of SOCKET_IR 0] s4 by (auto simp: returns_def)
  note s5 = vdm.movedD [OF r5(2)] sock_reg_moved [OF r5(2), of socket]
  have mv: "vdm.moved s T (umem s) s5" using r1(2) r2(2) r3(2) r4(2) r5(2) by (meson vdm.moved_trans)
  have cmd: "send_command P socket n wp (mac_buffer mac) s = do {
       (ret_status, tries, s) \<leftarrow> sendok_loop P socket 0 0 s3;
       if ret_status = W5500_ERR_UNREACHABLE
       then do {
         (ret, s) \<leftarrow> w5500_reset_tx_wr P socket s;
         (ret, s) \<leftarrow> w5500_ir_clear P socket SOCKET_IR_TIMEOUT s;
         Some (W5500_ERR_UNREACHABLE, 0, s)
       }
       else if ret_status \<noteq> W5500_OK then send_undo P socket wp ret_status s
       else Some (W5500_OK, n, if tries = 5 then set_unreaped socket True s else s)
     }"
    using r1(1) r2(1) r3(1) s1 assms(3) unfolding send_command_def Let_def code
    by (simp add: or_return_def del: bind_eq_Some_conv)
  show ?thesis
  proof (cases reach)
    case True
    note T' = T(2-4) [OF True [unfolded assms(11)]]
    have "sendok_loop P socket 0 0 s3 = Some (W5500_OK, 0, s5)"
      by (subst sendok_loop.simps) (use r4(1) r5(1) T' s1 s2 s3 s4 assms(3) in simp)
    with True mv T'(1) show ?thesis by (auto simp: cmd returns_def)
  next
    case False
    then have "mac = None" "\<not> answers_arp c ip" using assms(11) by auto
    note T' = T(5,6) [OF this]
    have loop: "sendok_loop P socket 0 0 s3 = Some (W5500_ERR_UNREACHABLE, 0, s5)"
      by (subst sendok_loop.simps) (use r4(1) r5(1) T' s1 s2 s3 s4 assms(3) in simp)
    have "sock_number (sockets s5 socket) < 8" "bsb = sock_reg socket s5" using assms(2,3) s1 s2 s3 s4 s5 by simp_all
    from take_back_moves [OF s5(1) this s5(2) [symmetric]] obtain s6 s7 where
      tb: "w5500_reset_tx_wr P socket s5 = Some (W5500_OK, s6)" "w5500_ir_clear P socket SOCKET_IR_TIMEOUT s6 = Some (W5500_OK, s7)"
        "vdm.moved s5 (taken_back bsb T) (umem s5) s7" by blast
    have "wire (taken_back bsb T) = wire c" using reaped_regs(3) [OF blk(2)] T'(1) by (simp add: taken_back_def)
    moreover have "vdm.moved s (taken_back bsb T) (umem s) s7" using vdm.moved_trans [OF mv] tb(3) s5(3) by simp
    ultimately show ?thesis using False loop tb(1,2) by (auto simp: cmd returns_def)
  qed
qed

lemma send_moves:
  assumes "vdm.ready s" "socket \<noteq> 0" "sock_number (sockets s socket) < 8" "data \<noteq> 0" "n \<noteq> 0" "port \<noteq> 0" "unat n \<le> 2048"
    and "\<not> has_unreaped_send (sockets s socket)" "bsb = sock_reg socket s" "c = chip (dev s)"
    and "length ip = 4" "pred_option (\<lambda>m. length m = 6) mac" "wload c bsb SOCKET_SR = SOCKET_SR_UDP"
    and "get16 c bsb SOCKET_TX_RD = get16 c bsb SOCKET_TX_WR" "n \<le> get16 c bsb SOCKET_TX_FSR"
    and "reach \<longleftrightarrow> mac \<noteq> None \<or> answers_arp c ip"
  shows "returns (\<lambda>(ret, sent, s'). ret = (if reach then W5500_OK else W5500_ERR_UNREACHABLE) \<and> sent = (if reach then n else 0) \<and>
      (\<exists>c'. vdm.moved s c' (umem s) s' \<and>
        wire c' = wire c @ (if reach then [(mac, ip, port, bytes_at (umem s) data (unat n))] else [])))
    (w5500_socket_send P socket data n False old ip port (mac_buffer mac) s)"
proof -
  define m where "m = SOCKET_IR_SENDOK OR SOCKET_IR_TIMEOUT"
  define c0 where "c0 = wstore bsb SOCKET_IR m c"
  define bs where "bs = bytes_at (umem s) data (unat n)"
  have blk: "bsb < 32" "sock_bsb bsb" "(bsb + 1) AND 3 = 2"
    using sock_block [OF assms(3)] assms(9) by (simp_all add: sock_reg_def sock_bsb_def)
  have c0: "get16 c0 bsb SOCKET_TX_RD = get16 c0 bsb SOCKET_TX_WR" "get16 c0 bsb SOCKET_TX_FSR = get16 c bsb SOCKET_TX_FSR"
    "wload c0 bsb SOCKET_IR AND SOCKET_IR_TIMEOUT = 0" "wire c0 = wire c" "answers_arp c0 = answers_arp c"
    "wload c0 bsb SOCKET_SR = SOCKET_SR_UDP"
    using reaped_regs [OF blk(2)] assms(13,14) unfolding c0_def m_def by (simp_all add: socket_regs)
  obtain s1 where r1: "send_reap P socket s = Some (W5500_OK, None, s1)" "vdm.moved s c0 (umem s) s1"
    using vdm.write8_moves [OF assms(1) blk(1), of SOCKET_IR m] assms(8)
    by (auto simp: returns_def send_reap_def w5500_ir_clear_def assms(9,10) c0_def m_def)
  note s1 = vdm.movedD [OF r1(2)] sock_reg_moved [OF r1(2), of socket]
  obtain v s2 where r2: "wait_loop P 1 (\<lambda>v s. w5500_read16_stable P SOCKET_TX_FSR (sock_reg socket s) v s) (\<lambda>v. \<not> v < n) SEND_TRIES 0 0 s1 =
      Some (W5500_OK, 0, v, s2)" "vdm.moved s1 c0 (umem s) s2"
    using wait_stable_moves [OF s1(1), of socket "\<lambda>v. \<not> v < n" SOCKET_TX_FSR 1 SEND_TRIES 0] assms(3,9,15) c0(2) s1
    by (auto simp: returns_def not_less)
  note s2 = vdm.movedD [OF r2(2)] sock_reg_moved [OF r2(2), of socket]
  obtain wp s3 where r3: "send_fill P socket data n ip port (mac_buffer mac) s2 = Some (W5500_OK, wp, s3)"
    "vdm.moved s2 (loaded bsb ip port (mac_bytes mac) bs c0) (umem s) s3"
    using send_fill_moves [OF s2(1), where socket = socket and bsb = bsb and c = c0 and ip = ip and addr = mac
        and mac = "mac_bytes mac" and dst_mac = "mac_buffer mac" and bs = bs and data = data and n = n and port = port]
      assms(3,9,11,12) s1 s2
    by (auto simp: returns_def bs_def)
  note s3 = vdm.movedD [OF r3(2)] sock_reg_moved [OF r3(2), of socket]
  have "returns (\<lambda>(ret, sent, s'). ret = (if reach then W5500_OK else W5500_ERR_UNREACHABLE) \<and> sent = (if reach then n else 0) \<and>
      (\<exists>c'. vdm.moved s3 c' (umem s3) s' \<and> wire c' = wire c0 @ (if reach then [(mac, ip, port, bs)] else [])))
    (send_command P socket n wp (mac_buffer mac) s3)"
    by (rule send_command_moves) (use s1 s2 s3 assms(3,7,9,11,12,16) c0 in \<open>auto simp: bs_def\<close>)
  moreover have "vdm.moved s c' (umem s) s'" if "vdm.moved s3 c' (umem s3) s'" for c' s'
    using vdm.moved_trans [OF vdm.moved_trans [OF vdm.moved_trans [OF r1(2) r2(2)] r3(2)]] that s3(3) by simp
  moreover have "w5500_socket_send P socket data n False old ip port (mac_buffer mac) s = send_command P socket n wp (mac_buffer mac) s3"
    using assms(2,4-6) r1(1) r2(1) r3(1) by (simp add: w5500_socket_send_def or_return_def SEND_TRIES_def)
  ultimately show ?thesis unfolding c0(4) bs_def by (fastforce elim!: returns_mono)
qed

lemma set_status_ready:
  "vdm.ready (set_status p st s) = vdm.ready s" "dev (set_status p st s) = dev s" "umem (set_status p st s) = umem s"
  "sockets (set_status p st s) = (sockets s)(p := (sockets s p)\<lparr>sock_status := st\<rparr>)" "sock_reg q (set_status p st s) = sock_reg q s"
  by (simp_all add: set_status_def upd_socket_def vdm.ready_def sock_reg_def)

lemma close_moves:
  assumes "vdm.ready s" "socket \<noteq> 0" "sock_number (sockets s socket) < 8" "bsb = sock_reg socket s"
    and "c = wstore bsb SOCKET_CR SOCKET_CMD_CLOSE (chip (dev s))"
  shows "returns (\<lambda>(ret, s'). ret = W5500_OK \<and> (\<exists>s1. vdm.moved s c (umem s) s1 \<and> s' = set_status socket SOCKET_STATUS_CLOSED s1))
    (w5500_socket_close P socket s)"
proof -
  have blk: "bsb < 32" "sock_bsb bsb" "\<not> sock_number (sockets s socket) > 7"
    using sock_block [OF assms(3)] assms(3,4) by (simp_all add: sock_reg_def sock_bsb_def word_less_nat_alt)
  have sr: "wload c bsb SOCKET_SR = SOCK_CLOSED"
    using blk(2) by (simp add: assms(5) wstore_command [unfolded SOCKET_CR_def] wcommand_def SOCKET_CMD_CLOSE_def SOCKET_CMD_OPEN_def socket_regs)
  obtain s1 where r1: "w5500_write8 P SOCKET_CR bsb SOCKET_CMD_CLOSE s = Some (W5500_OK, s1)" "vdm.moved s c (umem s) s1"
    using vdm.write8_moves [OF assms(1) blk(1), of SOCKET_CR SOCKET_CMD_CLOSE] by (auto simp: returns_def assms(5))
  note s1 = vdm.movedD [OF r1(2)] sock_reg_moved [OF r1(2), of socket]
  obtain v s2 where r2: "wait_loop P 1 (\<lambda>v s. w5500_read8 P SOCKET_SR (sock_reg socket s) v s) (\<lambda>v. v = SOCK_CLOSED) CLOSE_MAX_TRIES 0 1 s1 =
      Some (W5500_OK, 0, v, s2)" "vdm.moved s1 c (umem s) s2"
    using wait_read8_moves [OF s1(1), of socket "\<lambda>v. v = SOCK_CLOSED" SOCKET_SR 1 CLOSE_MAX_TRIES 1] assms(3,4) sr s1
    by (auto simp: returns_def)
  have "vdm.moved s c (umem s) s2" using r1(2) r2(2) by (meson vdm.moved_trans)
  moreover have "w5500_socket_close P socket s = Some (W5500_OK, set_status socket SOCKET_STATUS_CLOSED s2)"
    using r1(1) r2(1) assms(2,4) blk(3) by (simp add: w5500_socket_close_def CLOSE_MAX_TRIES_def)
  ultimately show ?thesis by (auto simp: returns_def)
qed

lemma open_wait_moves:
  assumes "vdm.ready s" "sock_number (sockets s socket) < 8" "c = chip (dev s)" "bsb = sock_reg socket s"
    and "wload c bsb SOCKET_MR = mode" "get16 c bsb SOCKET_PORT = sock_port (sockets s socket)" "wload c bsb SOCKET_SR = sr"
  shows "returns (\<lambda>(ret, s'). ret = W5500_OK \<and> (\<exists>s1. vdm.moved s c (umem s) s1 \<and> s' = set_status socket SOCKET_STATUS_OPEN s1))
    (open_wait P socket mode sr s)"
proof -
  have blk: "bsb < 32" using sock_block [OF assms(2)] assms(4) by (simp add: sock_reg_def)
  obtain v s1 where r1: "wait_loop P 2 (\<lambda>v s. w5500_read8 P SOCKET_SR (sock_reg socket s) v s) (\<lambda>v. sr = v) OPEN_MAX_TRIES 0 0 s =
      Some (W5500_OK, 0, v, s1)" "vdm.moved s c (umem s) s1"
    using wait_read8_moves [OF assms(1,2), of "\<lambda>v. sr = v" SOCKET_SR 2 OPEN_MAX_TRIES 0] assms(3,4,7) by (auto simp: returns_def)
  note s1 = vdm.movedD [OF r1(2)] sock_reg_moved [OF r1(2), of socket]
  obtain s2 where r2: "w5500_read8 P SOCKET_MR bsb 0 s1 = Some (W5500_OK, mode, s2)" "vdm.moved s1 c (umem s) s2"
    using vdm.read8_moves [OF s1(1) blk, of SOCKET_MR 0] s1 assms(5) by (auto simp: returns_def)
  note s2 = vdm.movedD [OF r2(2)] sock_reg_moved [OF r2(2), of socket]
  obtain s3 where r3: "w5500_read16 P SOCKET_PORT bsb 0 s2 = Some (W5500_OK, sock_port (sockets s socket), s3)" "vdm.moved s2 c (umem s) s3"
    using vdm.read16_moves [OF s2(1) blk, of SOCKET_PORT 0] s2 assms(6) by (auto simp: returns_def get16_def)
  note s3 = vdm.movedD [OF r3(2)]
  have "vdm.moved s c (umem s) s3" using r1(2) r2(2) r3(2) by (meson vdm.moved_trans)
  moreover have "open_wait P socket mode sr s = Some (W5500_OK, set_status socket SOCKET_STATUS_OPEN s3)"
    using r1(1) r2(1) r3(1) s1 s2 s3 assms(4) by (simp add: open_wait_def open_verify_def or_return_def OPEN_MAX_TRIES_def)
  ultimately show ?thesis by (auto simp: returns_def)
qed

lemma open_moves:
  assumes "vdm.ready s" "socket \<noteq> 0" "sock_number (sockets s socket) < 8" "bsb = sock_reg socket s" "c = chip (dev s)"
    and "sock_protocol (sockets s socket) = proto" "proto = TCP \<or> proto = UDP"
  shows "returns (\<lambda>(ret, s'). ret = W5500_OK \<and> vdm.ready s' \<and> umem s' = umem s \<and>
      chip (dev s') = opened bsb (protocol_code proto) (sock_port (sockets s socket)) c \<and>
      sockets s' = (sockets s)(socket := (sockets s socket)\<lparr>sock_status := SOCKET_STATUS_OPEN\<rparr>)) (w5500_socket_open P socket s)"
proof -
  let ?mode = "protocol_code proto" and ?port = "sock_port (sockets s socket)"
  define c1 where "c1 = wstore bsb SOCKET_CR SOCKET_CMD_CLOSE c"
  define sr where "sr = (if proto = TCP then SOCKET_SR_INIT else SOCKET_SR_UDP)"
  have blk: "bsb < 32" "sock_bsb bsb" "\<not> sock_number (sockets s socket) > 7"
    using sock_block [OF assms(3)] assms(3,4) by (simp_all add: sock_reg_def sock_bsb_def word_less_nat_alt)
  obtain t s1 where r1: "w5500_socket_close P socket s = Some (W5500_OK, s1)" "vdm.moved s c1 (umem s) t" "s1 = set_status socket SOCKET_STATUS_CLOSED t"
    using close_moves [OF assms(1-4)] by (auto simp: returns_def c1_def assms(5))
  note s1 = vdm.movedD [OF r1(2)] sock_reg_moved [OF r1(2), of socket] r1(3)
  have s1': "vdm.ready s1" "chip (dev s1) = c1" "umem s1 = umem s" "sock_reg socket s1 = bsb"
    "sockets s1 = (sockets s)(socket := (sockets s socket)\<lparr>sock_status := SOCKET_STATUS_CLOSED\<rparr>)"
    using s1 assms(4) by (simp_all add: set_status_ready)
  obtain s2 where r2: "w5500_write8 P SOCKET_MR bsb ?mode s1 = Some (W5500_OK, s2)" "vdm.moved s1 (put_reg bsb SOCKET_MR ?mode c1) (umem s) s2"
    using vdm.write8_moves [OF s1'(1) blk(1), of SOCKET_MR ?mode] blk(2) s1' by (auto simp: returns_def wstore_reg socket_regs)
  note s2 = vdm.movedD [OF r2(2)] sock_reg_moved [OF r2(2), of socket]
  obtain s3 where r3: "w5500_write16 P SOCKET_PORT bsb ?port s2 = Some (W5500_OK, s3)"
    "vdm.moved s2 (put16 bsb SOCKET_PORT ?port (put_reg bsb SOCKET_MR ?mode c1)) (umem s) s3"
    using write_pair_moves [OF s2(1) blk(1,2), of SOCKET_PORT ?port] s2 by (auto simp: returns_def socket_regs)
  note s3 = vdm.movedD [OF r3(2)] sock_reg_moved [OF r3(2), of socket]
  obtain s4 where r4: "w5500_write8 P SOCKET_CR bsb SOCKET_CMD_OPEN s3 = Some (W5500_OK, s4)" "vdm.moved s3 (opened bsb ?mode ?port c) (umem s) s4"
    using vdm.write8_moves [OF s3(1) blk(1), of SOCKET_CR SOCKET_CMD_OPEN] s3 by (auto simp: returns_def opened_def c1_def)
  note s4 = vdm.movedD [OF r4(2)] sock_reg_moved [OF r4(2), of socket]
  have sr: "wload (opened bsb ?mode ?port c) bsb SOCKET_SR = sr"
    using opened_regs(3,4) [OF blk(2)] assms(7) by (auto simp: sr_def)
  have sock: "sock_number (sockets s4 socket) < 8" "bsb = sock_reg socket s4" "?port = sock_port (sockets s4 socket)"
    using assms(3) s1' s2 s3 s4 by simp_all
  obtain u s5 where r5: "open_wait P socket ?mode sr s4 = Some (W5500_OK, s5)" "vdm.moved s4 (opened bsb ?mode ?port c) (umem s) u"
    "s5 = set_status socket SOCKET_STATUS_OPEN u"
    using open_wait_moves [OF s4(1) sock(1) s4(2) [symmetric] sock(2) opened_regs(1) [OF blk(2)] _ sr] opened_regs(2) [OF blk(2)] sock(3) s4(3)
    by (auto simp: returns_def)
  note u = vdm.movedD [OF r5(2)]
  have prot: "sock_protocol (sockets s4 socket) = proto" "sock_protocol (sockets s1 socket) = proto" "sock_port (sockets s2 socket) = ?port"
    using s1' s2 s3 s4 assms(6) by simp_all
  have "w5500_socket_open P socket s = Some (W5500_OK, s5)"
    unfolding w5500_socket_open_def or_return_def Let_def
    using assms(2,4,7) blk(3) r1(1) r2(1) r3(1) r4(1) r5(1) s1'(4) s2(5) s3(5) prot
    by (elim disjE) (simp_all add: sr_def del: bind_eq_Some_conv)
  then show ?thesis using u s1' s2 s3 s4 by (simp add: returns_def r5(3) set_status_ready)
qed

lemma ready_eq: "vdm.ready s \<longleftrightarrow> chip_ready J chip lag s"
  by (simp add: vdm.ready_def chip_ready_def wresting_def)

lemma recv_datagram:
  assumes "chip_ready J chip lag s" "socket \<noteq> 0" "sock_number (sockets s socket) < 8" "buffer \<noteq> 0" "maxlen \<noteq> 0"
    and "length (junk P 8) = 8" "bsb = sock_reg socket s" "rx_ok (chip (dev s)) bsb"
    and "rx_bytes (chip (dev s)) bsb = stored_datagram ip port payload @ rest" "length ip = 4" "length payload < 2 ^ 16"
  shows "\<exists>s'. w5500_socket_recv P socket buffer maxlen False r s =
       Some (W5500_OK, r\<lparr>reply_got := of_nat (min (length payload) (unat maxlen)), reply_src_ip := ip, reply_port := port,
                         reply_truncated := length payload > unat maxlen\<rparr>, s') \<and>
     umem s' = store_bytes buffer (take (unat maxlen) payload) (umem s) \<and> sockets s' = sockets s \<and>
     chip_ready J chip lag s' \<and> rx_ok (chip (dev s')) bsb \<and> rx_bytes (chip (dev s')) bsb = rest"
proof -
  have bsb: "sock_bsb bsb" using sock_block(2) [OF assms(3)] by (simp add: assms(7) sock_reg_def sock_bsb_def)
  have "length (stored_datagram ip port payload) = 8 + length payload" using assms(10) by (simp add: stored_datagram_def be_bytes_def)
  then show ?thesis
    using recv_moves [OF assms(1) [folded ready_eq] assms(2-6) refl assms(7-11), of r] consumed_rx(1,2) [OF bsb assms(9)]
    by (fastforce simp: returns_def ready_eq dest: vdm.movedD)
qed

lemma send_datagram:
  assumes "chip_ready J chip lag s" "socket \<noteq> 0" "sock_number (sockets s socket) < 8" "data \<noteq> 0" "n \<noteq> 0" "port \<noteq> 0" "unat n \<le> 2048"
    and "\<not> has_unreaped_send (sockets s socket)" "bsb = sock_reg socket s" "length ip = 4" "pred_option (\<lambda>m. length m = 6) mac"
    and "wload (chip (dev s)) bsb SOCKET_SR = SOCKET_SR_UDP"
    and "get16 (chip (dev s)) bsb SOCKET_TX_RD = get16 (chip (dev s)) bsb SOCKET_TX_WR" "n \<le> get16 (chip (dev s)) bsb SOCKET_TX_FSR"
    and "reach \<longleftrightarrow> mac \<noteq> None \<or> answers_arp (chip (dev s)) ip"
  shows "\<exists>s'. w5500_socket_send P socket data n False old ip port (mac_buffer mac) s =
       Some (if reach then W5500_OK else W5500_ERR_UNREACHABLE, if reach then n else 0, s') \<and>
     umem s' = umem s \<and> sockets s' = sockets s \<and> chip_ready J chip lag s' \<and>
     wire (chip (dev s')) = wire (chip (dev s)) @ (if reach then [(mac, ip, port, bytes_at (umem s) data (unat n))] else [])"
  using send_moves [OF assms(1) [folded ready_eq] assms(2-9) refl assms(10-15), of old]
  by (fastforce simp: returns_def ready_eq dest: vdm.movedD)

lemma open_socket:
  assumes "chip_ready J chip lag s" "socket \<noteq> 0" "sock_number (sockets s socket) < 8" "bsb = sock_reg socket s"
    and "sock_protocol (sockets s socket) = proto" "proto = TCP \<or> proto = UDP"
  shows "\<exists>s'. w5500_socket_open P socket s = Some (W5500_OK, s') \<and> chip_ready J chip lag s' \<and> umem s' = umem s \<and>
     wload (chip (dev s')) bsb SOCKET_MR = protocol_code proto \<and>
     get16 (chip (dev s')) bsb SOCKET_PORT = sock_port (sockets s socket) \<and>
     wload (chip (dev s')) bsb SOCKET_SR = (if proto = TCP then SOCKET_SR_INIT else SOCKET_SR_UDP) \<and>
     wire (chip (dev s')) = wire (chip (dev s)) \<and>
     sockets s' = (sockets s)(socket := (sockets s socket)\<lparr>sock_status := SOCKET_STATUS_OPEN\<rparr>)"
proof -
  have bsb: "sock_bsb bsb" using sock_block(2) [OF assms(3)] by (simp add: assms(4) sock_reg_def sock_bsb_def)
  show ?thesis
    using open_moves [OF assms(1) [folded ready_eq] assms(2-4) refl assms(5,6)] opened_regs [OF bsb] assms(6)
    by (auto simp: returns_def ready_eq)
qed

end

section \<open>Properties\<close>

text \<open>An example: socket 0 is open for UDP and has a datagram of five bytes from port 68 of 10.0.0.7, the only
  host that answers; the transmit memory is empty.\<close>

definition ex_chip :: wchip where
  "ex_chip = \<lparr>regs = (\<lambda>_ _. 0)
     (1 := (\<lambda>_. 0)(0 := 2, 3 := 0x22, 0x27 := 13, 0x2B := 13, 0x20 := 8),
      3 := (\<lambda>_. 0)(0 := 10, 3 := 7, 5 := 68, 7 := 5, 8 := 1, 9 := 2, 10 := 3, 11 := 4, 12 := 5)),
     phase = None, answers_arp = (\<lambda>ip. ip = [10, 0, 0, 7]), wire = []\<rparr>"

definition ex_wiz_platform :: "wchip spi_dev platform" where
  "ex_wiz_platform = ex_bus_platform (spi_bus wswap wsel wdesel)"

definition ex_wiz_machine :: "wchip spi_dev machine" where
  "ex_wiz_machine = (idle_machine (ex_bus_kernel 0) ex_heap \<lparr>dev_rx = None, dev_lag = 0, dev_chip = ex_chip\<rparr>)
     \<lparr>spi_state := SPI_ST_READY,
      sockets := (\<lambda>_. \<lparr>sock_number = 0, sock_port = 67, sock_protocol = UDP, sock_status = SOCKET_STATUS_CREATED, has_unreaped_send = False\<rparr>),
      umem := (\<lambda>_. 0)(0x20003000 := 9, 0x20003001 := 8)\<rparr>"

interpretation ex_wiz: w5500_link ex_wiz_platform ex_bus_ok dev_chip dev_rx dev_lag
  unfolding w5500_link_def spi_link_def
  using ex_bus.calm_env_axioms spi_dev.spi_slave_axioms [of wswap wsel wdesel]
  by (simp add: ex_bus_platform_def plain_platform_def ex_wiz_platform_def)

lemma ex_wiz_ready: "chip_ready ex_bus_ok dev_chip dev_lag ex_wiz_machine" "dev_chip (dev ex_wiz_machine) = ex_chip"
  "sock_reg p ex_wiz_machine = 1" "sock_number (sockets ex_wiz_machine p) = 0" "length (junk ex_wiz_platform 8) = 8"
  "\<not> has_unreaped_send (sockets ex_wiz_machine p)" "sock_protocol (sockets ex_wiz_machine p) = UDP" "sock_port (sockets ex_wiz_machine p) = 67"
  by (simp_all add: chip_ready_def ex_wiz_machine_def idle_machine_def ex_bus_ok_def ex_chip_def sock_reg_def W5500_BSB_SOCK_REG_def
      ex_wiz_platform_def ex_bus_platform_def plain_platform_def)

lemma ex_chip_regs: "get16 ex_chip 1 SOCKET_RX_RD = 0" "get16 ex_chip 1 SOCKET_RX_WR = 13" "get16 ex_chip 1 SOCKET_RX_RSR = 13"
  "get16 ex_chip 1 SOCKET_TX_RD = 0" "get16 ex_chip 1 SOCKET_TX_WR = 0" "get16 ex_chip 1 SOCKET_TX_FSR = 0x800"
  "wload ex_chip 1 SOCKET_SR = SOCKET_SR_UDP" "answers_arp ex_chip ip \<longleftrightarrow> ip = [10, 0, 0, 7]"
  by (simp_all add: get16_def wload_def norm_def ex_chip_def socket_regs be16_def SOCKET_SR_UDP_def)

lemma ex_chip_rx: "rx_ok ex_chip 1" "rx_bytes ex_chip 1 = stored_datagram [10, 0, 0, 7] 68 [1, 2, 3, 4, 5] @ []"
proof -
  show "rx_ok ex_chip 1" by (simp add: rx_ok_def ex_chip_regs)
  have "rx_bytes ex_chip 1 = map (\<lambda>i. wload ex_chip 3 (of_nat i)) [0..<13]"
    by (simp add: rx_bytes_def ex_chip_regs)
  moreover have "[0..<13] = [0, 1, 2, 3, 4, 5, 6, 7, 8, 9, 10, 11, 12]" by (simp add: upt_rec)
  ultimately show "rx_bytes ex_chip 1 = stored_datagram [10, 0, 0, 7] 68 [1, 2, 3, 4, 5] @ []"
    by (simp add: stored_datagram_def be_bytes_def wload_def norm_def ex_chip_def)
qed

text \<open>The next datagram the chip has received is delivered: the caller gets its first \<open>maxlen\<close> bytes in
  the buffer, and memory outside the bytes written is unchanged; the reply has their number, the
  sender's address and port, and whether the datagram was longer. Truncated or not, the whole datagram
  is consumed: what the chip holds afterwards are the datagrams that follow.\<close>

theorem w5500_recv_datagram:
  assumes "w5500_link P J chip received lag" "chip_ready J chip lag s"
    and "socket \<noteq> 0" "sock_number (sockets s socket) < 8" "buffer \<noteq> 0" "maxlen \<noteq> 0"
    and "length (junk P 8) = 8" "bsb = sock_reg socket s" "rx_ok (chip (dev s)) bsb"
    and "rx_bytes (chip (dev s)) bsb = stored_datagram ip port payload @ rest" "length ip = 4" "length payload < 2 ^ 16"
  shows "\<exists>s'. w5500_socket_recv P socket buffer maxlen False r s =
       Some (W5500_OK, r\<lparr>reply_got := of_nat (min (length payload) (unat maxlen)), reply_src_ip := ip, reply_port := port,
                         reply_truncated := length payload > unat maxlen\<rparr>, s') \<and>
     umem s' = store_bytes buffer (take (unat maxlen) payload) (umem s) \<and> sockets s' = sockets s \<and>
     chip_ready J chip lag s' \<and> rx_ok (chip (dev s')) bsb \<and> rx_bytes (chip (dev s')) bsb = rest"
  by (rule w5500_link.recv_datagram [OF assms])

theorem w5500_recv_datagram_witness:
  "\<exists>s'. w5500_socket_recv ex_wiz_platform 0x20000600 0x20003000 3 False
       \<lparr>reply_got = 0, reply_src_ip = [], reply_port = 0, reply_truncated = False, reply_status = NET_STATUS_OK\<rparr> ex_wiz_machine =
     Some (W5500_OK, \<lparr>reply_got = 3, reply_src_ip = [10, 0, 0, 7], reply_port = 68, reply_truncated = True, reply_status = NET_STATUS_OK\<rparr>, s') \<and>
     bytes_at (umem s') 0x20003000 3 = [1, 2, 3] \<and> rx_bytes (dev_chip (dev s')) 1 = []"
proof -
  have "min 5 (unat (3 :: u16)) = 3" "take (unat (3 :: u16)) [1, 2, 3, 4, 5 :: u8] = [1, 2, 3]" by simp_all
  moreover have "bytes_at (store_bytes 0x20003000 [1, 2, 3] m) 0x20003000 3 = [1, 2, 3]" for m
    using bytes_at_store_bytes [of "[1, 2, 3]" "0x20003000" m] by (simp add: numeral_3_eq_3)
  ultimately show ?thesis
    using w5500_recv_datagram [OF ex_wiz.w5500_link_axioms ex_wiz_ready(1), where socket = "0x20000600" and buffer = "0x20003000" and maxlen = 3
        and bsb = 1 and ip = "[10, 0, 0, 7]" and port = 68 and payload = "[1, 2, 3, 4, 5]" and rest = "[]" and r = "\<lparr>reply_got = 0, reply_src_ip = [], reply_port = 0, reply_truncated = False, reply_status = NET_STATUS_OK\<rparr>"]
      ex_chip_rx by (auto simp: ex_wiz_ready)
qed

text \<open>A datagram is sent as the caller gave it on a socket that is open for UDP: exactly one datagram, with the
  \<open>n\<close> bytes at \<open>data\<close>, for the given address and port, is put on the wire, with the hardware address of the
  caller if there is one; all of it is reported as sent. Without a hardware address, to a host that
  does not answer, nothing is sent and the host is reported as unreachable. Memory and the socket are
  unchanged. The transmit memory must be empty and have room, and no earlier send be pending.\<close>

theorem w5500_send_datagram:
  assumes "w5500_link P J chip received lag" "chip_ready J chip lag s"
    and "socket \<noteq> 0" "sock_number (sockets s socket) < 8" "data \<noteq> 0" "n \<noteq> 0" "port \<noteq> 0" "unat n \<le> 2048"
    and "\<not> has_unreaped_send (sockets s socket)" "bsb = sock_reg socket s" "length ip = 4" "pred_option (\<lambda>m. length m = 6) mac"
    and "wload (chip (dev s)) bsb SOCKET_SR = SOCKET_SR_UDP"
    and "get16 (chip (dev s)) bsb SOCKET_TX_RD = get16 (chip (dev s)) bsb SOCKET_TX_WR" "n \<le> get16 (chip (dev s)) bsb SOCKET_TX_FSR"
    and "reach \<longleftrightarrow> mac \<noteq> None \<or> answers_arp (chip (dev s)) ip"
  shows "\<exists>s'. w5500_socket_send P socket data n False old ip port (mac_buffer mac) s =
       Some (if reach then W5500_OK else W5500_ERR_UNREACHABLE, if reach then n else 0, s') \<and>
     umem s' = umem s \<and> sockets s' = sockets s \<and> chip_ready J chip lag s' \<and>
     wire (chip (dev s')) = wire (chip (dev s)) @ (if reach then [(mac, ip, port, bytes_at (umem s) data (unat n))] else [])"
  by (rule w5500_link.send_datagram [OF assms])

theorem w5500_send_datagram_witness:
  "\<exists>s'. w5500_socket_send ex_wiz_platform 0x20000600 0x20003000 2 False 0 [10, 0, 0, 9] 68 (mac_buffer (Some [1, 2, 3, 4, 5, 6])) ex_wiz_machine =
     Some (W5500_OK, 2, s') \<and> wire (dev_chip (dev s')) = [(Some [1, 2, 3, 4, 5, 6], [10, 0, 0, 9], 68, [9, 8])]"
proof -
  have "bytes_at (umem ex_wiz_machine) 0x20003000 (unat (2 :: u16)) = [9, 8]" "wire ex_chip = []"
    by (simp_all add: ex_wiz_machine_def ex_chip_def bytes_at_2)
  then show ?thesis
    using w5500_send_datagram [OF ex_wiz.w5500_link_axioms ex_wiz_ready(1), where socket = "0x20000600" and data = "0x20003000" and n = 2
        and port = 68 and bsb = 1 and ip = "[10, 0, 0, 9]" and mac = "Some [1, 2, 3, 4, 5, 6]" and old = 0 and reach = True]
    by (auto simp: ex_wiz_ready ex_chip_regs)
qed

text \<open>A UDP or TCP socket is opened as it was configured: the mode and port registers of the chip's socket
  have the protocol and the port of the socket record, the status register shows the state of that
  protocol, the record is marked open and nothing is sent.\<close>

theorem w5500_open_socket:
  assumes "w5500_link P J chip received lag" "chip_ready J chip lag s" "socket \<noteq> 0" "sock_number (sockets s socket) < 8"
    and "bsb = sock_reg socket s" "sock_protocol (sockets s socket) = proto" "proto = TCP \<or> proto = UDP"
  shows "\<exists>s'. w5500_socket_open P socket s = Some (W5500_OK, s') \<and> chip_ready J chip lag s' \<and> umem s' = umem s \<and>
     wload (chip (dev s')) bsb SOCKET_MR = protocol_code proto \<and>
     get16 (chip (dev s')) bsb SOCKET_PORT = sock_port (sockets s socket) \<and>
     wload (chip (dev s')) bsb SOCKET_SR = (if proto = TCP then SOCKET_SR_INIT else SOCKET_SR_UDP) \<and>
     wire (chip (dev s')) = wire (chip (dev s)) \<and>
     sockets s' = (sockets s)(socket := (sockets s socket)\<lparr>sock_status := SOCKET_STATUS_OPEN\<rparr>)"
  by (rule w5500_link.open_socket [OF assms])

theorem w5500_open_socket_witness:
  "\<exists>s'. w5500_socket_open ex_wiz_platform 0x20000600 ex_wiz_machine = Some (W5500_OK, s') \<and>
     wload (dev_chip (dev s')) 1 SOCKET_SR = SOCKET_SR_UDP \<and> get16 (dev_chip (dev s')) 1 SOCKET_PORT = 67"
  using w5500_open_socket [OF ex_wiz.w5500_link_axioms ex_wiz_ready(1), where socket = "0x20000600" and bsb = 1 and proto = UDP] by (auto simp: ex_wiz_ready)

end
