(* ===== verification/Net_Task.thy ===== *)
theory Net_Task
  imports W5500_Chip
begin

unbundle bit_operations_syntax

text \<open>
  The network task (\<^verbatim>\<open>source/kernel/net.c\<close>): it owns the chip and serves one request after the other,
  which the system calls leave in \<open>current_req\<close>. The answer goes to the reply of the caller; it is read
  and written as a whole by a request, by its address in the store \<open>replies\<close>; writing it, or the result of
  a link request, through NULL is an error.
\<close>

definition net_mac :: "u8 list" where "net_mac = [0xEE, 0xFF, 0xEE, 0xFF, 0xEE, 0xFF]"
definition net_ip :: "u8 list" where "net_ip = [192, 168, 0, 105]"
definition net_gateway :: "u8 list" where "net_gateway = [192, 168, 0, 1]"
definition net_subnet :: "u8 list" where "net_subnet = [255, 255, 255, 0]"

definition net_init :: "'d platform \<Rightarrow> (ptr \<Rightarrow> 'd machine driver_t) \<Rightarrow> 'd machine \<Rightarrow> (w5500_status_t \<times> 'd machine) option" where
  "net_init P D s = w5500_init P D net_mac net_ip net_gateway net_subnet s"

definition put_reply :: "ptr \<Rightarrow> net_reply_t \<Rightarrow> 'd machine \<Rightarrow> 'd machine" where
  "put_reply slot r s = s\<lparr>replies := (replies s)(slot := r)\<rparr>"

text \<open>The task writes the status and the result through the pointers of the request without checking them: a
  NULL pointer is an access the program does not survive.\<close>

definition put_status :: "ptr \<Rightarrow> net_status_t \<Rightarrow> 'd machine \<Rightarrow> 'd machine option" where
  "put_status slot st s =
     (if slot = 0 then None else Some (put_reply slot ((replies s slot)\<lparr>reply_status := st\<rparr>) s))"

definition put_result :: "ptr \<Rightarrow> u32 \<Rightarrow> 'd machine \<Rightarrow> 'd machine option" where
  "put_result p v s = (if p = 0 then None else Some (s\<lparr>results := (results s)(p := v)\<rparr>))"

text \<open>The call of the driver for a request. With a NULL slot the driver is given NULL for its results and
  refuses the call, so that the reply is not written.\<close>

definition net_serve ::
  "'d platform \<Rightarrow> (ptr \<Rightarrow> 'd machine driver_t) \<Rightarrow> net_request_t \<Rightarrow> 'd machine \<Rightarrow> (w5500_status_t \<times> 'd machine) option" where
  "net_serve P D req s = (case req_op req of
      NET_OP_LINK \<Rightarrow> do {
        (ret, up, s) \<leftarrow> w5500_link_up P False 0 s;
        s \<leftarrow> (if ret = W5500_OK then put_result (req_result req) (word_of_int up) s else Some s);
        Some (ret, s)
      }
    | NET_OP_SOCKET_OPEN \<Rightarrow> w5500_socket_open P (req_socket req) s
    | NET_OP_RECV \<Rightarrow> do {
        let slot = req_reply_slot req;
        (ret, r, s) \<leftarrow> w5500_socket_recv P (req_socket req) (req_buffer req) (req_buf_len req) (slot = 0) (replies s slot) s;
        Some (ret, put_reply slot r s)
      }
    | NET_OP_SEND \<Rightarrow> do {
        let slot = req_reply_slot req;
        let mac = (if req_use_mac req then Array (req_dst_mac req) else Null);
        s \<leftarrow> (if req_use_mac req
             then printk P D (chars ''Sendind to mac %x:%x...'' @ [13, 10]) [ucast (req_dst_mac req ! 0), ucast (req_dst_mac req ! 1)] s
             else printk P D (chars ''Sending only to ip'' @ [13, 10]) [] s);
        (ret, got, s) \<leftarrow> w5500_socket_send P (req_socket req) (req_buffer req) (req_buf_len req) (slot = 0)
          (reply_got (replies s slot)) (req_dst_ip req) (req_dst_port req) mac s;
        Some (ret, put_reply slot ((replies s slot)\<lparr>reply_got := got\<rparr>) s)
      }
    | NET_OP_SOCKET_CLOSE \<Rightarrow> w5500_socket_close P (req_socket req) s)"

text \<open>
  The status for the caller, and recovery. The result is the new value of \<open>init_status\<close>, which is
  \<open>W5500_OK\<close> before.
\<close>

definition net_conclude ::
  "'d platform \<Rightarrow> (ptr \<Rightarrow> 'd machine driver_t) \<Rightarrow> ptr \<Rightarrow> w5500_status_t \<Rightarrow> 'd machine \<Rightarrow> (w5500_status_t \<times> 'd machine) option" where
  "net_conclude P D slot ret s = (case ret of
      W5500_OK \<Rightarrow> do { s \<leftarrow> put_status slot NET_STATUS_OK s; Some (W5500_OK, s) }
    | W5500_ERR_UNREACHABLE \<Rightarrow> do { s \<leftarrow> put_status slot NET_STATUS_UNREACHABLE s; Some (W5500_OK, s) }
    | W5500_ERR_UNSTABLE \<Rightarrow> do { s \<leftarrow> put_status slot NET_STATUS_RETRY s; Some (W5500_OK, s) }
    | W5500_ERR_TRANSIENT \<Rightarrow> do { s \<leftarrow> put_status slot NET_STATUS_RETRY s; Some (W5500_OK, s) }
    | W5500_ERR_ARG \<Rightarrow> do { s \<leftarrow> put_status slot NET_STATUS_BAD_REQUEST s; Some (W5500_OK, s) }
    | W5500_ERR_STATE \<Rightarrow> do {
        (init_status, s) \<leftarrow> net_init P D s;
        let s = s\<lparr>sockets := socket_memory_init (lay P) (sockets s)\<rparr>;
        s \<leftarrow> put_status slot (if init_status \<noteq> W5500_OK then NET_STATUS_DEAD else NET_STATUS_FAULT) s;
        Some (init_status, s)
      }
    | W5500_ERR_FAULT \<Rightarrow> do {
        (spi_ret, s) \<leftarrow> spi1_recover P s;
        s \<leftarrow> put_status slot NET_STATUS_FAULT s;
        Some (W5500_OK, s)
      })"

text \<open>From taking a request to its answer.\<close>

definition net_answer ::
  "'d platform \<Rightarrow> (ptr \<Rightarrow> 'd machine driver_t) \<Rightarrow> w5500_status_t \<Rightarrow> 'd machine \<Rightarrow> (w5500_status_t \<times> 'd machine) option" where
  "net_answer P D init_status s = do {
     let my_req = current_req s;
     if init_status \<noteq> W5500_OK then do {
       s \<leftarrow> put_status (req_reply_slot my_req) NET_STATUS_DEAD s;
       Some (init_status, s)
     }
     else do {
       (ret_status, s) \<leftarrow> net_serve P D my_req s;
       net_conclude P D (req_reply_slot my_req) ret_status s
     }
   }"

definition net_round ::
  "'d platform \<Rightarrow> (ptr \<Rightarrow> 'd machine driver_t) \<Rightarrow> w5500_status_t \<Rightarrow> 'd machine \<Rightarrow> (w5500_status_t \<times> 'd machine) option" where
  "net_round P D init_status s = do {
     s \<leftarrow> sys_sem_wait P (net_posted s) s;
     (init_status, s) \<leftarrow> net_answer P D init_status s;
     s \<leftarrow> sys_sem_post P (net_done s) s;
     Some (init_status, s)
   }"

definition net_start :: "'d platform \<Rightarrow> (ptr \<Rightarrow> 'd machine driver_t) \<Rightarrow> 'd machine \<Rightarrow> (w5500_status_t \<times> 'd machine) option" where
  "net_start P D s = do {
     (sem, s) \<leftarrow> sys_sem_create P 0 s;
     let s = s\<lparr>net_posted := sem\<rparr>;
     (sem, s) \<leftarrow> sys_sem_create P 0 s;
     let s = s\<lparr>net_done := sem\<rparr>;
     net_init P D s
   }"

text \<open>The task, for a number of rounds: the loop has no end.\<close>

fun net_rounds ::
  "'d platform \<Rightarrow> (ptr \<Rightarrow> 'd machine driver_t) \<Rightarrow> nat \<Rightarrow> w5500_status_t \<Rightarrow> 'd machine \<Rightarrow> (w5500_status_t \<times> 'd machine) option" where
  "net_rounds P D 0 init_status s = Some (init_status, s)"
| "net_rounds P D (Suc n) init_status s = do {
     (init_status, s) \<leftarrow> net_round P D init_status s;
     net_rounds P D n init_status s
   }"

definition net_task ::
  "'d platform \<Rightarrow> (ptr \<Rightarrow> 'd machine driver_t) \<Rightarrow> nat \<Rightarrow> 'd machine \<Rightarrow> (w5500_status_t \<times> 'd machine) option" where
  "net_task P D n s = do { (init_status, s) \<leftarrow> net_start P D s; net_rounds P D n init_status s }"

section \<open>A request that is taken is answered, on any hardware\<close>

context driver_env
begin

lemma reg_keeps: "I s \<Longrightarrow> I (reg_write P a v s)" "I s \<Longrightarrow> I (reg_or P a v s)" "I s \<Longrightarrow> I (set_field P a b f n s)"
  "I s \<Longrightarrow> reg_read P a s = (v, s') \<Longrightarrow> I s'"
  by (auto intro: dev_keeps reg_read_dev_step set_field_frame(5))

lemma configure_keeps: "I s \<Longrightarrow> spi1_configure P s = (r, s') \<Longrightarrow> I s'"
  by (auto simp: spi1_configure_def spi1_pin_setup_def spi1_cs_deselect_def gpio_defs Let_def intro!: state_keeps reg_keeps split: if_splits)

lemma recover_returns:
  assumes "I s"
  shows "\<exists>ret s'. spi1_recover P s = Some (ret, s') \<and> I s'"
proof -
  obtain s1 where lock: "sys_mutex_lock P (spi1_lock P) s = Some s1" "I s1" using lock_returns [OF assms] by blast
  let ?s = "s1\<lparr>spi_state := SPI_ST_UNINIT\<rparr>"
  obtain r s2 where c: "spi1_configure P ?s = (r, s2)" by (meson surj_pair)
  obtain v s3 where rd: "reg_read P (SPI1 + 0xC) s2 = (v, s3)" by (meson surj_pair)
  have "I (s3\<lparr>spi_state := SPI_ST_READY\<rparr>)"
    by (rule state_keeps [OF reg_keeps(4) [OF configure_keeps [OF state_keeps [OF lock(2)] c] rd]])
  then obtain s4 where "sys_mutex_unlock P (spi1_lock P) (s3\<lparr>spi_state := SPI_ST_READY\<rparr>) = Some s4" "I s4" using unlock_returns by blast
  with assms lock(1) c rd show ?thesis by (auto simp: spi1_recover_def)
qed

end




section \<open>Requests on a working chip\<close>

context w5500_link
begin

lemma answer_recv:
  assumes "chip_ready J chip lag s" "req = current_req s" "req_op req = NET_OP_RECV" "req_reply_slot req \<noteq> 0"
    and "req_socket req \<noteq> 0" "sock_number (sockets s (req_socket req)) < 8" "req_buffer req \<noteq> 0" "req_buf_len req \<noteq> 0"
    and "length (junk P 8) = 8" "bsb = sock_reg (req_socket req) s" "rx_ok (chip (dev s)) bsb"
    and "rx_bytes (chip (dev s)) bsb = stored_datagram ip port payload @ rest" "length ip = 4" "length payload < 2 ^ 16"
  shows "\<exists>s'. net_answer P D W5500_OK s = Some (W5500_OK, s') \<and>
     replies s' (req_reply_slot req) = \<lparr>reply_got = of_nat (min (length payload) (unat (req_buf_len req))), reply_src_ip = ip,
       reply_port = port, reply_truncated = length payload > unat (req_buf_len req), reply_status = NET_STATUS_OK\<rparr> \<and>
     umem s' = store_bytes (req_buffer req) (take (unat (req_buf_len req)) payload) (umem s) \<and>
     rx_bytes (chip (dev s')) bsb = rest \<and> chip_ready J chip lag s'"
proof -
  obtain s1 where r: "w5500_socket_recv P (req_socket req) (req_buffer req) (req_buf_len req) False (replies s (req_reply_slot req)) s =
      Some (W5500_OK, (replies s (req_reply_slot req))\<lparr>reply_got := of_nat (min (length payload) (unat (req_buf_len req))), reply_src_ip := ip, reply_port := port,
         reply_truncated := length payload > unat (req_buf_len req)\<rparr>, s1)"
    "umem s1 = store_bytes (req_buffer req) (take (unat (req_buf_len req)) payload) (umem s)"
    "chip_ready J chip lag s1" "rx_bytes (chip (dev s1)) bsb = rest"
    using recv_datagram [OF assms(1,5-14), of "replies s (req_reply_slot req)"] by blast
  then show ?thesis
    using assms(2-4) by (simp add: net_answer_def Let_def net_serve_def net_conclude_def put_status_def put_reply_def chip_ready_def)
qed

lemma answer_send:
  assumes "chip_ready J chip lag s" "req = current_req s" "req_op req = NET_OP_SEND" "req_reply_slot req \<noteq> 0"
    and "\<And>fmt args. printk P D fmt args s = Some s"
    and "req_socket req \<noteq> 0" "sock_number (sockets s (req_socket req)) < 8" "req_buffer req \<noteq> 0" "req_buf_len req \<noteq> 0" "req_dst_port req \<noteq> 0"
    and "unat (req_buf_len req) \<le> 2048" "\<not> has_unreaped_send (sockets s (req_socket req))" "bsb = sock_reg (req_socket req) s"
    and "length (req_dst_ip req) = 4" "length (req_dst_mac req) = 6" "wload (chip (dev s)) bsb SOCKET_SR = SOCKET_SR_UDP"
    and "get16 (chip (dev s)) bsb SOCKET_TX_RD = get16 (chip (dev s)) bsb SOCKET_TX_WR" "req_buf_len req \<le> get16 (chip (dev s)) bsb SOCKET_TX_FSR"
    and "mac = (if req_use_mac req then Some (req_dst_mac req) else None)"
    and "reach \<longleftrightarrow> req_use_mac req \<or> answers_arp (chip (dev s)) (req_dst_ip req)"
  shows "\<exists>s'. net_answer P D W5500_OK s = Some (W5500_OK, s') \<and>
     reply_status (replies s' (req_reply_slot req)) = (if reach then NET_STATUS_OK else NET_STATUS_UNREACHABLE) \<and>
     reply_got (replies s' (req_reply_slot req)) = (if reach then req_buf_len req else 0) \<and>
     wire (chip (dev s')) = wire (chip (dev s)) @
       (if reach then [(mac, req_dst_ip req, req_dst_port req, bytes_at (umem s) (req_buffer req) (unat (req_buf_len req)))] else []) \<and>
     umem s' = umem s \<and> chip_ready J chip lag s'"
proof -
  have mac: "pred_option (\<lambda>m. length m = 6) mac" "mac_buffer mac = (if req_use_mac req then Array (req_dst_mac req) else Null)"
    "reach \<longleftrightarrow> mac \<noteq> None \<or> answers_arp (chip (dev s)) (req_dst_ip req)"
    using assms(15,19,20) by (simp_all add: mac_buffer_def)
  obtain s1 where "w5500_socket_send P (req_socket req) (req_buffer req) (req_buf_len req) False (reply_got (replies s (req_reply_slot req)))
      (req_dst_ip req) (req_dst_port req) (mac_buffer mac) s =
      Some (if reach then W5500_OK else W5500_ERR_UNREACHABLE, if reach then req_buf_len req else 0, s1)"
    "umem s1 = umem s" "chip_ready J chip lag s1"
    "wire (chip (dev s1)) = wire (chip (dev s)) @
       (if reach then [(mac, req_dst_ip req, req_dst_port req, bytes_at (umem s) (req_buffer req) (unat (req_buf_len req)))] else [])"
    using send_datagram [OF assms(1,6-14) mac(1) assms(16-18) mac(3), of "reply_got (replies s (req_reply_slot req))"] by blast
  moreover have "(if b then printk P D f a s else printk P D f' a' s) = Some s" for b f a f' a' using assms(5) by simp
  ultimately show ?thesis
    using assms(2-4) unfolding mac(2)
    by (cases reach) (auto simp: net_answer_def Let_def net_serve_def net_conclude_def put_status_def put_reply_def chip_ready_def)
qed

end

section \<open>Properties\<close>





definition ex_recv_request :: net_request_t where
  "ex_recv_request = zero_request\<lparr>req_op := NET_OP_RECV, req_socket := 0x20000600, req_buffer := 0x20003000, req_buf_len := 3,
     req_reply_slot := 0x20002000\<rparr>"


lemma ex_wiz_reg: "sock_reg p (ex_wiz_machine\<lparr>current_req := r\<rparr>) = 1"
  using ex_wiz_ready(3) by (simp add: sock_reg_def)

text \<open>C32: A request to receive gets the next datagram the chip holds: the data is in the caller's buffer, and
  the reply tells its length, sender and whether it was cut; the chip goes on with the datagrams behind
  it. This holds if the chip executes its commands before they are polled and no further datagram
  arrives for the socket while the request is served; otherwise the driver may take the growing size for
  a failure.\<close>

theorem net_recv_request:
  assumes "w5500_link P J chip received lag" "chip_ready J chip lag s"
    and "req = current_req s" "req_op req = NET_OP_RECV" "req_reply_slot req \<noteq> 0"
    and "req_socket req \<noteq> 0" "sock_number (sockets s (req_socket req)) < 8" "req_buffer req \<noteq> 0" "req_buf_len req \<noteq> 0"
    and "length (junk P 8) = 8" "bsb = sock_reg (req_socket req) s" "rx_ok (chip (dev s)) bsb"
    and "rx_bytes (chip (dev s)) bsb = stored_datagram ip port payload @ rest" "length ip = 4" "length payload < 2 ^ 16"
  shows "\<exists>s'. net_answer P D W5500_OK s = Some (W5500_OK, s') \<and>
     replies s' (req_reply_slot req) = \<lparr>reply_got = of_nat (min (length payload) (unat (req_buf_len req))), reply_src_ip = ip,
       reply_port = port, reply_truncated = length payload > unat (req_buf_len req), reply_status = NET_STATUS_OK\<rparr> \<and>
     umem s' = store_bytes (req_buffer req) (take (unat (req_buf_len req)) payload) (umem s) \<and>
     rx_bytes (chip (dev s')) bsb = rest \<and> chip_ready J chip lag s'"
  by (rule w5500_link.answer_recv [OF assms])

theorem net_recv_request_witness:
  "\<exists>s'. net_answer ex_wiz_platform no_drivers W5500_OK (ex_wiz_machine\<lparr>current_req := ex_recv_request\<rparr>) = Some (W5500_OK, s') \<and>
     replies s' 0x20002000 = \<lparr>reply_got = 3, reply_src_ip = [10, 0, 0, 7], reply_port = 68, reply_truncated = True, reply_status = NET_STATUS_OK\<rparr>"
proof -
  let ?s = "ex_wiz_machine\<lparr>current_req := ex_recv_request\<rparr>"
  have s: "chip_ready ex_bus_ok dev_chip dev_lag ?s" "dev_chip (dev ?s) = ex_chip" "sock_number (sockets ?s p) = 0" "1 = sock_reg p ?s" for p
    using ex_wiz_ready by (simp_all add: chip_ready_def sock_reg_def)
  have "min 5 (unat (3 :: u16)) = 3" by simp
  then show ?thesis
    using net_recv_request [OF ex_wiz.w5500_link_axioms s(1) refl, of 1 "[10, 0, 0, 7]" 68 "[1, 2, 3, 4, 5]" "[]" no_drivers] ex_chip_rx
    unfolding s by (auto simp: ex_recv_request_def ex_wiz_ready(5) ex_wiz_reg)
qed




end
