(* ===== verification/Usart.thy ===== *)
theory Usart
  imports Periph Syscall Printf
begin

unbundle bit_operations_syntax

text \<open>
  The serial port (\<^verbatim>\<open>source/drivers/usart.c\<close>, \<^verbatim>\<open>usart_driver.c\<close>): an interrupt handler that moves bytes
  between the device and two ring buffers, and the functions that write to and read from the buffers.
  A busy waiting loop lets interrupts happen between two rounds (\<open>spin\<close>); one that may run forever is
  \<open>None\<close> then. The locale \<open>uart\<close> states what the manual promises of the device; \<open>usart_run\<close> describes the use of
  the port in any order of writes, reads, interrupts and arrivals, and \<open>interrupts\<close> what happens in a
  waiting loop while no bytes arrive.
\<close>

definition USART2 :: ptr where "USART2 = 0x40004400"
definition USART_ENABLE_RE :: u32 where "USART_ENABLE_RE = push_bit 2 1"
definition USART_ENABLE_TE :: u32 where "USART_ENABLE_TE = push_bit 3 1"
definition USART_ENABLE_RXNEIE :: u32 where "USART_ENABLE_RXNEIE = push_bit 5 1"
definition USART_ENABLE_TXEIE :: u32 where "USART_ENABLE_TXEIE = push_bit 7 1"
definition USART_ENABLE :: u32 where "USART_ENABLE = push_bit 13 1"
definition USART_SR_RXNE :: u32 where "USART_SR_RXNE = push_bit 5 1"
definition USART_SR_TXE :: u32 where "USART_SR_TXE = push_bit 7 1"
definition USART2_IRQ :: nat where "USART2_IRQ = 38"
definition RX_BUFFER_SIZE :: nat where "RX_BUFFER_SIZE = 16"
definition TX_BUFFER_SIZE :: nat where "TX_BUFFER_SIZE = 16"

section \<open>The interrupt handler\<close>

definition handler_tx :: "'d platform \<Rightarrow> 'd machine \<Rightarrow> 'd machine" where
  "handler_tx P s =
     (let (sr, s) = reg_read P USART2 s in
      if sr AND USART_SR_TXE \<noteq> 0
      then
        let (cr1, s) = reg_read P (USART2 + 0xC) s in
        if cr1 AND USART_ENABLE_TXEIE \<noteq> 0
        then
          if \<not> ring_buffer_empty (tx_ring_buffer s)
          then let (b, rb) = ring_buffer_get (tx_ring_buffer s)
               in reg_write P (USART2 + 4) (ucast b) (s\<lparr>tx_ring_buffer := rb\<rparr>)
          else reg_and P (USART2 + 0xC) (NOT USART_ENABLE_TXEIE) s
        else s
      else s)"

definition handler_rx :: "'d platform \<Rightarrow> 'd machine \<Rightarrow> 'd machine option" where
  "handler_rx P s =
     (let (sr, s) = reg_read P USART2 s in
      if sr AND USART_SR_RXNE \<noteq> 0
      then
        if \<not> ring_buffer_full (rx_ring_buffer s)
        then do {
          let (b, s) = reg_read P (USART2 + 4) s;
          let s = s\<lparr>rx_ring_buffer := ring_buffer_put (rx_ring_buffer s) (ucast b)\<rparr>;
          (result, k) \<leftarrow> semaphore_post (rx_sem s) (kern s);
          Some (s\<lparr>kern := k\<rparr>)
        }
        else Some s
      else Some s)"

definition usart2_handler :: "'d platform \<Rightarrow> 'd machine \<Rightarrow> 'd machine option" where
  "usart2_handler P s = handler_rx P (handler_tx P s)"

section \<open>Initialisation\<close>

definition usart2_init :: "'d platform \<Rightarrow> 'd machine \<Rightarrow> 'd machine option" where
  "usart2_init P s = do {
     let s = reg_or P (RCC + 0x30) (push_bit 0 1) s;
     let s = reg_or P (RCC + 0x40) (push_bit 17 1) s;
     let s = SET_GPIO_MODE P GPIOA GPIO_MODE_AF 2 s;
     let s = SET_GPIO_MODE P GPIOA GPIO_MODE_AF 3 s;
     let s = SET_GPIO_OTYPER P GPIOA 0 2 s;
     let s = SET_GPIO_OTYPER P GPIOA 0 3 s;
     let s = SET_GPIO_OSPEEDR P GPIOA GPIO_OSPEEDR_FAST 2 s;
     let s = SET_GPIO_OSPEEDR P GPIOA GPIO_OSPEEDR_FAST 3 s;
     let s = SET_GPIO_PUPDR P GPIOA GPIO_PUPDR_NOPP 2 s;
     let s = SET_GPIO_PUPDR P GPIOA GPIO_PUPDR_NOPP 3 s;
     let s = SET_GPIO_AF P GPIOA 7 2 s;
     let s = SET_GPIO_AF P GPIOA 7 3 s;
     let s = reg_write P (USART2 + 0xC) 0 s;
     let s = reg_write P (USART2 + 8) 0x016D s;
     let s = reg_or P (USART2 + 0xC) (USART_ENABLE_TE OR USART_ENABLE_RE OR USART_ENABLE_RXNEIE) s;
     let s = reg_or P (USART2 + 0xC) USART_ENABLE s;
     let s = NVIC_ENABLE_IRQ P USART2_IRQ s;
     let s = s\<lparr>tx_ring_buffer := (tx_ring_buffer s)\<lparr>rb_buffer := replicate TX_BUFFER_SIZE 0\<rparr>\<rparr>;
     let s = s\<lparr>rx_ring_buffer := (rx_ring_buffer s)\<lparr>rb_buffer := replicate RX_BUFFER_SIZE 0\<rparr>\<rparr>;
     (sem, s) \<leftarrow> sys_sem_create P 0 s;
     Some (s\<lparr>rx_sem := sem\<rparr>)
   }"

section \<open>Writing and reading\<close>

partial_function (option) putc_wait :: "'d platform \<Rightarrow> 'd machine \<Rightarrow> 'd machine option" where
  "putc_wait P s =
     (if ring_buffer_full (tx_ring_buffer s) then Option.bind (spin P s) (putc_wait P) else Some s)"

definition usart2_putc :: "'d platform \<Rightarrow> u8 \<Rightarrow> 'd machine \<Rightarrow> 'd machine option" where
  "usart2_putc P c s = do {
     s \<leftarrow> putc_wait P s;
     let s = s\<lparr>tx_ring_buffer := ring_buffer_put (tx_ring_buffer s) c\<rparr>;
     Some (reg_or P (USART2 + 0xC) USART_ENABLE_TXEIE s)
   }"

partial_function (option) usart2_puts :: "'d platform \<Rightarrow> ptr \<Rightarrow> 'd machine \<Rightarrow> 'd machine option" where
  "usart2_puts P str s =
     (if umem s str \<noteq> 0 then Option.bind (usart2_putc P (umem s str) s) (usart2_puts P (str + 1)) else Some s)"

text \<open>\<open>None\<close> in the first component: no byte, and \<open>*c\<close> is not changed.\<close>

definition usart2_getc :: "'d machine \<Rightarrow> u8 option \<times> 'd machine" where
  "usart2_getc s =
     (if ring_buffer_empty (rx_ring_buffer s) then (None, s)
      else let (c, rb) = ring_buffer_get (rx_ring_buffer s) in (Some c, s\<lparr>rx_ring_buffer := rb\<rparr>))"

definition usart2_getc_blocking :: "'d platform \<Rightarrow> 'd machine \<Rightarrow> (u8 \<times> 'd machine) option" where
  "usart2_getc_blocking P s = do {
     s \<leftarrow> sys_sem_wait P (rx_sem s) s;
     let (c, rb) = ring_buffer_get (rx_ring_buffer s);
     Some (c, s\<lparr>rx_ring_buffer := rb\<rparr>)
   }"

partial_function (option) wait_txe :: "'d platform \<Rightarrow> 'd machine \<Rightarrow> 'd machine option" where
  "wait_txe P s =
     (let (sr, s) = reg_read P USART2 s in if \<not> sr AND USART_SR_TXE \<noteq> 0 then wait_txe P s else Some s)"

definition usart2_fault_putc :: "'d platform \<Rightarrow> u8 \<Rightarrow> 'd machine \<Rightarrow> 'd machine option" where
  "usart2_fault_putc P c s = do { s \<leftarrow> wait_txe P s; Some (reg_write P (USART2 + 4) (ucast c) s) }"

section \<open>The driver\<close>

definition usart2_drv_init :: "'d platform \<Rightarrow> 'd machine \<Rightarrow> (int \<times> 'd machine) option" where
  "usart2_drv_init P s = do { s \<leftarrow> usart2_init P s; Some (0, s) }"

fun putc_all :: "'d platform \<Rightarrow> u8 list \<Rightarrow> 'd machine \<Rightarrow> 'd machine option" where
  "putc_all P [] s = Some s"
| "putc_all P (c # cs) s = do { s \<leftarrow> usart2_putc P c s; putc_all P cs s }"

definition usart2_drv_write :: "'d platform \<Rightarrow> u8 list \<Rightarrow> 'd machine \<Rightarrow> (int \<times> 'd machine) option" where
  "usart2_drv_write P buf s = do { s \<leftarrow> putc_all P buf s; Some (int (length buf), s) }"

fun fault_putc_all :: "'d platform \<Rightarrow> u8 list \<Rightarrow> 'd machine \<Rightarrow> 'd machine option" where
  "fault_putc_all P [] s = Some s"
| "fault_putc_all P (c # cs) s = do { s \<leftarrow> usart2_fault_putc P c s; fault_putc_all P cs s }"

definition usart2_drv_write_sync :: "'d platform \<Rightarrow> u8 list \<Rightarrow> 'd machine \<Rightarrow> (int \<times> 'd machine) option" where
  "usart2_drv_write_sync P buf s = do { s \<leftarrow> fault_putc_all P buf s; Some (int (length buf), s) }"

function read_loop :: "u8 list \<Rightarrow> nat \<Rightarrow> nat \<Rightarrow> 'd machine \<Rightarrow> (nat \<times> u8 list \<times> 'd machine) option" where
  "read_loop buf n len s =
     (if n < len
      then case usart2_getc s of
          (None, s) \<Rightarrow> Some (n, buf, s)
        | (Some c, s) \<Rightarrow> do { buf \<leftarrow> poke buf n c; read_loop buf (n + 1) len s }
      else Some (n, buf, s))"
  by pat_completeness auto
termination
  by (relation "measure (\<lambda>(buf, n, len, s). len - n)") auto

declare read_loop.simps [simp del]

definition usart2_drv_read :: "u8 list \<Rightarrow> u32 \<Rightarrow> 'd machine \<Rightarrow> (int \<times> u8 list \<times> 'd machine) option" where
  "usart2_drv_read buf len s = do { (n, buf, s) \<leftarrow> read_loop buf 0 (unat len) s; Some (int n, buf, s) }"

function read_blocking_loop :: "'d platform \<Rightarrow> u8 list \<Rightarrow> nat \<Rightarrow> nat \<Rightarrow> 'd machine \<Rightarrow> (nat \<times> u8 list \<times> 'd machine) option" where
  "read_blocking_loop P buf n len s =
     (if n < len
      then do {
        (c, s) \<leftarrow> usart2_getc_blocking P s;
        buf \<leftarrow> poke buf n c;
        read_blocking_loop P buf (n + 1) len s
      }
      else Some (n, buf, s))"
  by pat_completeness auto
termination
  by (relation "measure (\<lambda>(P, buf, n, len, s). len - n)") auto

declare read_blocking_loop.simps [simp del]

definition usart2_drv_read_blocking :: "'d platform \<Rightarrow> u8 list \<Rightarrow> u32 \<Rightarrow> 'd machine \<Rightarrow> (int \<times> u8 list \<times> 'd machine) option" where
  "usart2_drv_read_blocking P buf len s = do { (n, buf, s) \<leftarrow> read_blocking_loop P buf 0 (unat len) s; Some (int n, buf, s) }"

definition usart2_driver :: "'d platform \<Rightarrow> 'd machine driver_t" where
  "usart2_driver P = \<lparr>drv_name = literal P (map of_char ''usart2''), drv_init = Some (usart2_drv_init P),
     drv_write = Some (usart2_drv_write P), drv_write_sync = Some (usart2_drv_write_sync P),
     drv_read = Some usart2_drv_read, drv_read_blocking = Some (usart2_drv_read_blocking P)\<rparr>"

section \<open>The device\<close>

text \<open>
  \<open>sent\<close>: the bytes put on the line; \<open>ctl\<close>: the control register; \<open>incoming\<close>: a byte received and not yet
  read; \<open>busy\<close>: the number of times the status register will still be seen without \<open>TXE\<close>; \<open>arrive\<close>: a
  byte comes in. A byte that comes in before the last one has been read is lost (an overrun): the data
  register keeps the older one.
\<close>

locale uart =
  fixes bus :: "'d bus" and sent :: "'d \<Rightarrow> u8 list" and ctl :: "'d \<Rightarrow> u32" and incoming :: "'d \<Rightarrow> u8 option" and busy :: "'d \<Rightarrow> nat"
    and arrive :: "u8 \<Rightarrow> 'd \<Rightarrow> 'd"
  assumes read_sr: "bus_read bus USART2 d = (v, d') \<Longrightarrow>
      (v AND USART_SR_RXNE \<noteq> 0 \<longleftrightarrow> incoming d \<noteq> None) \<and> (v AND USART_SR_TXE \<noteq> 0 \<longleftrightarrow> busy d = 0) \<and> busy d' = busy d - 1 \<and>
      sent d' = sent d \<and> ctl d' = ctl d \<and> incoming d' = incoming d"
    and read_dr: "bus_read bus (USART2 + 4) d = (v, d') \<Longrightarrow>
      (incoming d = Some x \<longrightarrow> ucast v = x) \<and> incoming d' = None \<and> sent d' = sent d \<and> ctl d' = ctl d \<and> busy d' = busy d"
    and write_dr: "busy d = 0 \<Longrightarrow> sent (bus_write bus (USART2 + 4) v d) = sent d @ [ucast v] \<and>
      ctl (bus_write bus (USART2 + 4) v d) = ctl d \<and> incoming (bus_write bus (USART2 + 4) v d) = incoming d"
    and read_cr1: "bus_read bus (USART2 + 0xC) d = (v, d') \<Longrightarrow>
      v = ctl d \<and> sent d' = sent d \<and> ctl d' = ctl d \<and> incoming d' = incoming d \<and> busy d' = busy d"
    and write_cr1: "ctl (bus_write bus (USART2 + 0xC) v d) = v \<and> sent (bus_write bus (USART2 + 0xC) v d) = sent d \<and>
      incoming (bus_write bus (USART2 + 0xC) v d) = incoming d \<and> busy (bus_write bus (USART2 + 0xC) v d) = busy d"
    and arrive: "incoming (arrive x d) = (case incoming d of None \<Rightarrow> Some x | Some y \<Rightarrow> Some y) \<and>
      sent (arrive x d) = sent d \<and> ctl (arrive x d) = ctl d"

definition opt_list :: "'a option \<Rightarrow> 'a list" where
  "opt_list x = (case x of None \<Rightarrow> [] | Some y \<Rightarrow> [y])"

lemma opt_list_simps [simp]: "opt_list None = []" "opt_list (Some y) = [y]"
  by (simp_all add: opt_list_def)

locale usart_env = uart "hw P" sent ctl incoming busy arrive
  for P :: "'d platform" and sent ctl incoming busy arrive
begin

lemma put_size: "rb_size (ring_buffer_put rb x) = rb_size rb"
  by (simp add: put_next)

text \<open>The transmit interrupt is enabled while there is something to send.\<close>

definition usart_ok :: "'d machine \<Rightarrow> bool" where
  "usart_ok s \<longleftrightarrow> rb_ok (tx_ring_buffer s) \<and> rb_ok (rx_ring_buffer s) \<and> rb_size (tx_ring_buffer s) = of_nat TX_BUFFER_SIZE \<and>
     (rb_content (tx_ring_buffer s) \<noteq> [] \<longrightarrow> ctl (dev s) AND USART_ENABLE_TXEIE \<noteq> 0)"

text \<open>All bytes to send, and all bytes received, in their order.\<close>

definition outgoing :: "'d machine \<Rightarrow> u8 list" where
  "outgoing s = sent (dev s) @ rb_content (tx_ring_buffer s)"

definition pending :: "'d machine \<Rightarrow> u8 list" where
  "pending s = rb_content (rx_ring_buffer s) @ opt_list (incoming (dev s))"

lemma get_step:
  assumes "rb_ok rb" "\<not> ring_buffer_empty rb"
  obtains x rb' where "ring_buffer_get rb = (x, rb')" "rb_ok rb'" "rb_content rb = x # rb_content rb'" "rb_size rb' = rb_size rb"
proof -
  have "rb_size (snd (ring_buffer_get rb)) = rb_size rb" by (simp add: get_next)
  moreover obtain x xs where "rb_content rb = x # xs" using assms ring.empty_iff by (cases "rb_content rb") auto
  ultimately show thesis using ring.get_ok [OF assms(1)] that by (cases "ring_buffer_get rb") auto
qed

lemma handler_tx_ok:
  assumes "usart_ok s" "t = handler_tx P s"
  shows "usart_ok t \<and> outgoing t = outgoing s \<and> pending t = pending s \<and>
     kern t = kern s \<and> rx_sem t = rx_sem s \<and> rx_ring_buffer t = rx_ring_buffer s \<and>
     (if busy (dev s) = 0 then rb_content (tx_ring_buffer t) = tl (rb_content (tx_ring_buffer s))
      else rb_content (tx_ring_buffer t) = rb_content (tx_ring_buffer s) \<and> busy (dev t) < busy (dev s))"
proof -
  obtain sr d where r: "bus_read (hw P) USART2 (dev s) = (sr, d)" by (meson surj_pair)
  obtain cr1 d1 where c: "bus_read (hw P) (USART2 + 0xC) d = (cr1, d1)" by (meson surj_pair)
  note r' = read_sr [OF r] and c' = read_cr1 [OF c]
  obtain v d2 where a: "bus_read (hw P) (USART2 + 0xC) d1 = (v, d2)" by (meson surj_pair)
  note a' = read_cr1 [OF a] and w' = write_cr1 [of "v AND NOT USART_ENABLE_TXEIE" d2]
  have ok: "rb_ok (tx_ring_buffer s)" "rb_ok (rx_ring_buffer s)" using assms(1) by (auto simp: usart_ok_def)
  note eval = assms(2) handler_tx_def reg_read_def Let_def reg_and_def bus_and_def reg_write_def r c a
  show ?thesis
  proof (cases "busy (dev s) = 0 \<and> ctl (dev s) AND USART_ENABLE_TXEIE \<noteq> 0 \<and> \<not> ring_buffer_empty (tx_ring_buffer s)")
    case True
    obtain x rb where g: "ring_buffer_get (tx_ring_buffer s) = (x, rb)" "rb_ok rb" "rb_content (tx_ring_buffer s) = x # rb_content rb"
      "rb_size rb = rb_size (tx_ring_buffer s)"
      using get_step [OF ok(1)] True by metis
    have w: "sent (bus_write (hw P) (USART2 + 4) (ucast x) d1) = sent d1 @ [x]"
      "ctl (bus_write (hw P) (USART2 + 4) (ucast x) d1) = ctl d1" "incoming (bus_write (hw P) (USART2 + 4) (ucast x) d1) = incoming d1"
      using write_dr [of d1 "ucast x"] True r' c' by auto
    show ?thesis using True g w r' c' ok assms(1) by (simp add: eval usart_ok_def outgoing_def pending_def)
  next
    case False
    then have emp: "busy (dev s) = 0 \<Longrightarrow> rb_content (tx_ring_buffer s) = []"
      using assms(1) ring.empty_iff [OF ok(1)] by (auto simp: usart_ok_def)
    show ?thesis
      using False emp r' c' a' w' assms(1) ring.empty_iff [OF ok(1)]
      by (auto simp: eval usart_ok_def outgoing_def pending_def split: if_splits)
  qed
qed

lemma handler_rx_ok:
  assumes "usart_ok s" "handler_rx P s = Some t"
  shows "usart_ok t \<and> outgoing t = outgoing s \<and> pending t = pending s \<and> tx_ring_buffer t = tx_ring_buffer s \<and> busy (dev t) \<le> busy (dev s)"
proof -
  obtain sr d where r: "bus_read (hw P) USART2 (dev s) = (sr, d)" by (meson surj_pair)
  note r' = read_sr [OF r]
  obtain v d1 where c: "bus_read (hw P) (USART2 + 4) d = (v, d1)" by (meson surj_pair)
  note c' = read_dr [OF c]
  show ?thesis
  proof (cases "incoming (dev s) \<noteq> None \<and> \<not> ring_buffer_full (rx_ring_buffer s)")
    case True
    then obtain x where x: "incoming (dev s) = Some x" by blast
    then have v: "ucast v = x" using c' [of x] r' by simp
    obtain res k where "semaphore_post (rx_sem s) (kern s) = Some (res, k)"
      "t = s\<lparr>dev := d1, rx_ring_buffer := ring_buffer_put (rx_ring_buffer s) x, kern := k\<rparr>"
      using assms(2) True r' by (auto simp: handler_rx_def reg_read_def r c v)
    then show ?thesis
      using assms(1) True c' [of x] r' x ring.put_ok [of "rx_ring_buffer s" x] by (auto simp: usart_ok_def outgoing_def pending_def)
  next
    case False
    then have "t = s\<lparr>dev := d\<rparr>" using assms(2) r' by (auto simp: handler_rx_def reg_read_def r split: if_splits)
    then show ?thesis using assms(1) r' by (simp add: usart_ok_def outgoing_def pending_def)
  qed
qed

lemma handler_ok:
  assumes "usart_ok s" "usart2_handler P s = Some t"
  shows "usart_ok t" "outgoing t = outgoing s" "pending t = pending s"
    "if busy (dev s) = 0 then rb_content (tx_ring_buffer t) = tl (rb_content (tx_ring_buffer s))
     else rb_content (tx_ring_buffer t) = rb_content (tx_ring_buffer s) \<and> busy (dev t) < busy (dev s)"
  using handler_tx_ok [OF assms(1) refl] handler_rx_ok [of "handler_tx P s" t] assms(2)
  by (auto simp: usart2_handler_def split: if_splits)

lemma getc_ok:
  assumes "usart_ok s" "usart2_getc s = (c, t)"
  shows "usart_ok t" "outgoing t = outgoing s" "opt_list c @ pending t = pending s"
proof -
  have ok: "rb_ok (rx_ring_buffer s)" using assms(1) by (simp add: usart_ok_def)
  have "usart_ok t \<and> outgoing t = outgoing s \<and> opt_list c @ pending t = pending s"
  proof (cases "ring_buffer_empty (rx_ring_buffer s)")
    case True
    then show ?thesis using assms by (auto simp: usart2_getc_def)
  next
    case False
    then obtain x rb where "ring_buffer_get (rx_ring_buffer s) = (x, rb)" "rb_ok rb" "rb_content (rx_ring_buffer s) = x # rb_content rb"
      using get_step [OF ok] by metis
    then show ?thesis using assms False by (auto simp: usart2_getc_def usart_ok_def outgoing_def pending_def)
  qed
  then show "usart_ok t" "outgoing t = outgoing s" "opt_list c @ pending t = pending s" by blast+
qed

lemma store_ok:
  assumes "usart_ok s" "\<not> ring_buffer_full (tx_ring_buffer s)"
    and "t = reg_or P (USART2 + 0xC) USART_ENABLE_TXEIE (s\<lparr>tx_ring_buffer := ring_buffer_put (tx_ring_buffer s) c\<rparr>)"
  shows "usart_ok t" "outgoing t = outgoing s @ [c]" "pending t = pending s"
proof -
  obtain v d where r: "bus_read (hw P) (USART2 + 0xC) (dev s) = (v, d)" by (meson surj_pair)
  have "(v OR USART_ENABLE_TXEIE) AND USART_ENABLE_TXEIE = USART_ENABLE_TXEIE" by (rule bit_word_eqI) (auto simp: bit_simps)
  moreover have "USART_ENABLE_TXEIE \<noteq> 0" by (simp add: USART_ENABLE_TXEIE_def)
  ultimately show "usart_ok t" "outgoing t = outgoing s @ [c]" "pending t = pending s"
    using assms ring.put_ok [of "tx_ring_buffer s" c] read_cr1 [OF r] write_cr1 [of "v OR USART_ENABLE_TXEIE" d]
    by (simp_all add: usart_ok_def outgoing_def pending_def reg_or_def bus_or_def r put_size)
qed

text \<open>The waiting loop ends, if interrupts happen in it.\<close>

lemma full_content: "usart_ok s \<Longrightarrow> ring_buffer_full (tx_ring_buffer s) \<Longrightarrow> rb_content (tx_ring_buffer s) \<noteq> []"
  using ring.full_iff [of "tx_ring_buffer s"] by (auto simp: usart_ok_def rb_room_def rb_content_def TX_BUFFER_SIZE_def)

definition serving :: "('d machine \<Rightarrow> bool) \<Rightarrow> bool" where
  "serving I \<longleftrightarrow> (\<forall>s. I s \<longrightarrow> (\<exists>t. usart2_handler P s = Some t \<and> spin P s = Some t \<and> I t)) \<and>
     (\<forall>s rb. I s \<longrightarrow> I (reg_or P (USART2 + 0xC) USART_ENABLE_TXEIE (s\<lparr>tx_ring_buffer := rb\<rparr>)))"

lemma putc_wait_returns:
  assumes "serving I"
  shows "usart_ok s \<Longrightarrow> I s \<Longrightarrow> \<exists>t. putc_wait P s = Some t \<and> \<not> ring_buffer_full (tx_ring_buffer t) \<and> I t \<and>
     usart_ok t \<and> outgoing t = outgoing s \<and> pending t = pending s"
proof (induction s rule: wf_induct [of "measures [\<lambda>s. length (rb_content (tx_ring_buffer s)), \<lambda>s. busy (dev s)]"])
  case (2 s)
  show ?case
  proof (cases "ring_buffer_full (tx_ring_buffer s)")
    case True
    obtain t where t: "usart2_handler P s = Some t" "spin P s = Some t" "I t" using assms "2.prems"(2) by (auto simp: serving_def)
    note h = handler_ok [OF "2.prems"(1) t(1)]
    have "(t, s) \<in> measures [\<lambda>s. length (rb_content (tx_ring_buffer s)), \<lambda>s. busy (dev s)]"
      using h(4) full_content [OF "2.prems"(1) True] by (cases "rb_content (tx_ring_buffer s)") (auto split: if_splits)
    with "2.IH" h(1) t(3) obtain u where "putc_wait P t = Some u" "\<not> ring_buffer_full (tx_ring_buffer u)" "I u"
      "usart_ok u" "outgoing u = outgoing t" "pending u = pending t" by blast
    with h t(2) True show ?thesis by (subst putc_wait.simps) simp
  next
    case False
    with "2.prems" show ?thesis by (subst putc_wait.simps) simp
  qed
qed simp

lemma putc_returns:
  assumes "serving I" "usart_ok s" "I s"
  shows "\<exists>t. usart2_putc P c s = Some t \<and> I t \<and> usart_ok t \<and> outgoing t = outgoing s @ [c] \<and> pending t = pending s"
proof -
  obtain u where u: "putc_wait P s = Some u" "\<not> ring_buffer_full (tx_ring_buffer u)" "I u"
    "usart_ok u" "outgoing u = outgoing s" "pending u = pending s" using putc_wait_returns [OF assms] by blast
  have "I (reg_or P (USART2 + 0xC) USART_ENABLE_TXEIE (u\<lparr>tx_ring_buffer := ring_buffer_put (tx_ring_buffer u) c\<rparr>))"
    using assms(1) u(3) by (simp add: serving_def)
  with u store_ok [OF u(4,2) refl, of c] show ?thesis by (simp add: usart2_putc_def)
qed

lemma putc_all_returns:
  assumes "serving I"
  shows "usart_ok s \<Longrightarrow> I s \<Longrightarrow> \<exists>t. putc_all P cs s = Some t \<and> I t \<and> usart_ok t \<and> outgoing t = outgoing s @ cs \<and> pending t = pending s"
proof (induction cs arbitrary: s)
  case (Cons c cs)
  obtain u where u: "usart2_putc P c s = Some u" "I u" "usart_ok u" "outgoing u = outgoing s @ [c]" "pending u = pending s"
    using putc_returns [OF assms Cons.prems] by blast
  with Cons.IH [of u] show ?case by auto
qed simp

end

text \<open>
  A receive buffer that is full while the device holds a byte: the handler leaves the byte there, so that
  the interrupt is raised again as soon as the handler returns, forever, and no task runs. Otherwise the
  handler runs between two rounds of a waiting loop.
\<close>

definition rx_stuck :: "('d \<Rightarrow> u8 option) \<Rightarrow> 'd machine \<Rightarrow> bool" where
  "rx_stuck incoming s \<longleftrightarrow> ring_buffer_full (rx_ring_buffer s) \<and> incoming (dev s) \<noteq> None"

definition interrupts :: "'d platform \<Rightarrow> ('d \<Rightarrow> u8 option) \<Rightarrow> 'd machine \<Rightarrow> 'd machine option" where
  "interrupts P incoming s = (if rx_stuck incoming s then None else usart2_handler P s)"

text \<open>Steps that change nothing but the port and the task queues.\<close>

definition port_step :: "'d machine \<Rightarrow> 'd machine \<Rightarrow> bool" where
  "port_step s t \<longleftrightarrow> (\<exists>d rx tx k. t = s\<lparr>kern := k, rx_ring_buffer := rx, tx_ring_buffer := tx, dev := d\<rparr>)"

lemma port_step_trans:
  assumes "port_step s t" "port_step t u"
  shows "port_step s u"
proof -
  obtain d rx tx k where "u = t\<lparr>kern := k, rx_ring_buffer := rx, tx_ring_buffer := tx, dev := d\<rparr>" using assms(2) by (auto simp: port_step_def)
  then have "u = s\<lparr>kern := k, rx_ring_buffer := rx, tx_ring_buffer := tx, dev := d\<rparr>" using assms(1) by (auto simp: port_step_def)
  then show ?thesis unfolding port_step_def by blast
qed

lemma port_step_fields:
  "port_step s t \<longleftrightarrow> t = s\<lparr>kern := kern t, rx_ring_buffer := rx_ring_buffer t, tx_ring_buffer := tx_ring_buffer t, dev := dev t\<rparr>"
  by (auto simp: port_step_def)

lemma port_step_refl: "port_step s s"
  by (simp add: port_step_fields)

lemma port_step_upd:
  "port_step s (s\<lparr>tx_ring_buffer := tx, dev := d\<rparr>)"
  "port_step s (s\<lparr>dev := d, rx_ring_buffer := rx, kern := k\<rparr>)"
  "port_step s (s\<lparr>dev := d\<rparr>)"
  by (simp_all add: port_step_fields)

lemma handler_tx_step: "port_step s (handler_tx P s)" "kern (handler_tx P s) = kern s" "rx_ring_buffer (handler_tx P s) = rx_ring_buffer s"
  by (simp_all add: port_step_fields handler_tx_def Let_def reg_read_def case_prod_unfold reg_write_def reg_and_def)

text \<open>
  The port under use, in any order: bytes are written while there is room, interrupts are taken, bytes are
  read without waiting (\<open>usart2_getc\<close>), a blocking read that has been let through by the semaphore takes
  the byte it finds in the buffer, bytes arrive, and the rest of the system runs, system calls such as the
  waiting of a blocking read included. The relation collects what was written, what arrived, marked
  \<open>False\<close> if it was lost because the device still held a byte, and what was read.
\<close>

inductive usart_run ::
  "'d platform \<Rightarrow> ('d \<Rightarrow> u8 option) \<Rightarrow> (u8 \<Rightarrow> 'd \<Rightarrow> 'd) \<Rightarrow> 'd machine \<Rightarrow>
    u8 list \<Rightarrow> (u8 \<times> bool) list \<Rightarrow> u8 list \<Rightarrow> 'd machine \<Rightarrow> bool"
  for P incoming arrive s where
  run_start: "usart_run P incoming arrive s [] [] [] s"
| run_write: "usart_run P incoming arrive s w a g t \<Longrightarrow> \<not> ring_buffer_full (tx_ring_buffer t) \<Longrightarrow> usart2_putc P c t = Some u \<Longrightarrow>
    usart_run P incoming arrive s (w @ [c]) a g u"
| run_irq: "usart_run P incoming arrive s w a g t \<Longrightarrow> usart2_handler P t = Some u \<Longrightarrow> usart_run P incoming arrive s w a g u"
| run_read: "usart_run P incoming arrive s w a g t \<Longrightarrow> usart2_getc t = (Some c, u) \<Longrightarrow> usart_run P incoming arrive s w a (g @ [c]) u"
| run_take: "usart_run P incoming arrive s w a g t \<Longrightarrow> \<not> ring_buffer_empty (rx_ring_buffer t) \<Longrightarrow>
    ring_buffer_get (rx_ring_buffer t) = (c, rb) \<Longrightarrow> usart_run P incoming arrive s w a (g @ [c]) (t\<lparr>rx_ring_buffer := rb\<rparr>)"
| run_arrive: "usart_run P incoming arrive s w a g t \<Longrightarrow>
    usart_run P incoming arrive s w (a @ [(x, incoming (dev t) = None)]) g (t\<lparr>dev := arrive x (dev t)\<rparr>)"
| run_other: "usart_run P incoming arrive s w a g t \<Longrightarrow> tx_ring_buffer u = tx_ring_buffer t \<Longrightarrow> rx_ring_buffer u = rx_ring_buffer t \<Longrightarrow>
    dev u = dev t \<Longrightarrow> usart_run P incoming arrive s w a g u"

definition arrived :: "(u8 \<times> bool) list \<Rightarrow> u8 list" where
  "arrived a = map fst (filter snd a)"

lemma arrived_append: "arrived (a @ [(x, b)]) = arrived a @ (if b then [x] else [])"
  by (simp add: arrived_def)

text \<open>
  A blocking read whose wait returns on a buffer that is not empty is such a sequence: what happens while
  it waits, and then the taking of the byte.
\<close>

lemma run_read_blocking:
  assumes "usart2_getc_blocking P t = Some (c, v)" "sys_sem_wait P (rx_sem t) t = Some u"
    and "usart_run P incoming arrive s w a g u" "\<not> ring_buffer_empty (rx_ring_buffer u)"
  shows "usart_run P incoming arrive s w a (g @ [c]) v"
  using assms(1,2) run_take [OF assms(3,4)] by (auto simp: usart2_getc_blocking_def split: prod.splits)

context usart_env
begin

lemma handler_tx_incoming: "incoming (dev (handler_tx P s)) = incoming (dev s)"
proof -
  obtain sr d where r: "bus_read (hw P) USART2 (dev s) = (sr, d)" by (meson surj_pair)
  obtain v d1 where c: "bus_read (hw P) (USART2 + 0xC) d = (v, d1)" by (meson surj_pair)
  obtain v' d2 where a: "bus_read (hw P) (USART2 + 0xC) d1 = (v', d2)" by (meson surj_pair)
  note laws = read_sr [OF r] read_cr1 [OF c] read_cr1 [OF a] write_cr1 write_dr
  show ?thesis
    using laws by (auto simp: handler_tx_def reg_read_def r c a reg_write_def reg_and_def bus_and_def Let_def split: prod.split)
qed

text \<open>
  \<open>K\<close> is what the kernel guarantees for the semaphore of the port: that it can be posted. The interrupts
  that happen while a task waits keep it, and do not get stuck if they were not before.
\<close>

lemma interrupts_served:
  assumes post: "\<And>p k. K k \<Longrightarrow> \<exists>r k'. semaphore_post p k = Some (r, k') \<and> K k'" and "spin P = interrupts P incoming"
  shows "serving (\<lambda>t. \<not> rx_stuck incoming t \<and> K (kern t) \<and> port_step s t)"
  unfolding serving_def
proof (rule conjI; intro allI impI)
  fix t
  assume t: "\<not> rx_stuck incoming t \<and> K (kern t) \<and> port_step s t"
  let ?u = "handler_tx P t"
  have tx: "port_step s ?u" "kern ?u = kern t" "incoming (dev ?u) = incoming (dev t)" "rx_ring_buffer ?u = rx_ring_buffer t"
    using handler_tx_step [where s = t and P = P] t handler_tx_incoming by (auto intro: port_step_trans)
  obtain sr d where r: "bus_read (hw P) USART2 (dev ?u) = (sr, d)" by (meson surj_pair)
  obtain v d' where b: "bus_read (hw P) (USART2 + 4) d = (v, d')" by (meson surj_pair)
  obtain res k where k: "semaphore_post (rx_sem ?u) (kern t) = Some (res, k)" "K k" using post t by blast
  note laws = read_sr [OF r] read_dr [OF b]
  have "\<exists>t'. usart2_handler P t = Some t' \<and> \<not> rx_stuck incoming t' \<and> K (kern t') \<and> port_step ?u t'"
  proof (cases "incoming (dev t) = None")
    case True
    then have "usart2_handler P t = Some (?u\<lparr>dev := d\<rparr>)" "incoming d = None"
      using laws(1) tx(3) by (auto simp: usart2_handler_def handler_rx_def reg_read_def r)
    then show ?thesis using t tx(2) by (auto simp: rx_stuck_def intro: port_step_upd)
  next
    case False
    then have "\<not> ring_buffer_full (rx_ring_buffer ?u)" "sr AND USART_SR_RXNE \<noteq> 0" using t tx laws(1) by (auto simp: rx_stuck_def)
    then have "usart2_handler P t = Some (?u\<lparr>dev := d', rx_ring_buffer := ring_buffer_put (rx_ring_buffer ?u) (ucast v), kern := k\<rparr>)"
      using k(1) tx(2) by (simp add: usart2_handler_def handler_rx_def reg_read_def r b)
    moreover have "incoming d' = None" using read_dr [OF b] by blast
    ultimately show ?thesis using k(2) by (auto simp: rx_stuck_def intro: port_step_upd)
  qed
  with t tx(1) assms(2) show "\<exists>t'. usart2_handler P t = Some t' \<and> spin P t = Some t' \<and> \<not> rx_stuck incoming t' \<and> K (kern t') \<and> port_step s t'"
    by (auto simp: interrupts_def intro: port_step_trans)
next
  fix t rb
  assume t: "\<not> rx_stuck incoming t \<and> K (kern t) \<and> port_step s t"
  obtain v d where r: "bus_read (hw P) (USART2 + 0xC) (dev t) = (v, d)" by (meson surj_pair)
  have "incoming (bus_write (hw P) (USART2 + 0xC) (v OR USART_ENABLE_TXEIE) d) = incoming (dev t)"
    using read_cr1 [OF r] write_cr1 by simp
  moreover have "port_step s (t\<lparr>tx_ring_buffer := rb, dev := d'\<rparr>)" for d'
    by (rule port_step_trans [OF _ port_step_upd(1)]) (use t in simp)
  ultimately show "\<not> rx_stuck incoming (reg_or P (USART2 + 0xC) USART_ENABLE_TXEIE (t\<lparr>tx_ring_buffer := rb\<rparr>)) \<and>
      K (kern (reg_or P (USART2 + 0xC) USART_ENABLE_TXEIE (t\<lparr>tx_ring_buffer := rb\<rparr>))) \<and>
      port_step s (reg_or P (USART2 + 0xC) USART_ENABLE_TXEIE (t\<lparr>tx_ring_buffer := rb\<rparr>))"
    using t by (simp add: reg_or_def bus_or_def r rx_stuck_def)
qed

lemma run_ok:
  assumes "usart_run P incoming arrive s w a g t" "usart_ok s"
  shows "usart_ok t \<and> outgoing t = outgoing s @ w \<and> g @ pending t = pending s @ arrived a"
  using assms
proof (induction rule: usart_run.induct)
  case run_start
  then show ?case by (simp add: arrived_def)
next
  case (run_write w a g t c u)
  then have "u = reg_or P (USART2 + 0xC) USART_ENABLE_TXEIE (t\<lparr>tx_ring_buffer := ring_buffer_put (tx_ring_buffer t) c\<rparr>)"
    by (simp add: usart2_putc_def putc_wait.simps)
  with run_write store_ok [of t u c] show ?case by simp
next
  case (run_irq w a g t u)
  with handler_ok [of t u] show ?case by simp
next
  case (run_read w a g t c u)
  with getc_ok [of t "Some c" u] show ?case by (metis append_assoc opt_list_simps(2))
next
  case (run_take w a g t c rb)
  then have "usart2_getc t = (Some c, t\<lparr>rx_ring_buffer := rb\<rparr>)" by (simp add: usart2_getc_def)
  with run_take getc_ok [of t "Some c"] show ?case by (metis append_assoc opt_list_simps(2))
next
  case (run_arrive w a g t x)
  then show ?case using arrive [of x "dev t"]
    by (cases "incoming (dev t)") (simp_all add: usart_ok_def outgoing_def pending_def arrived_append)
next
  case (run_other w a g t u)
  then show ?case by (simp add: usart_ok_def outgoing_def pending_def)
qed

end

section \<open>A device\<close>

record uart_dev =
  line :: "u8 list"
  cr1 :: u32
  rdr :: "u8 option"
  shifting :: nat

definition uart_bus :: "uart_dev bus" where
  "uart_bus =
     \<lparr>bus_read = (\<lambda>a d.
        if a = USART2 then ((if shifting d = 0 then USART_SR_TXE else 0) OR (if rdr d = None then 0 else USART_SR_RXNE), d\<lparr>shifting := shifting d - 1\<rparr>)
        else if a = USART2 + 4 then (case rdr d of None \<Rightarrow> 0 | Some b \<Rightarrow> ucast b, d\<lparr>rdr := None\<rparr>)
        else if a = USART2 + 0xC then (cr1 d, d)
        else (0, d)),
      bus_write = (\<lambda>a v d.
        if a = USART2 + 4 then d\<lparr>line := line d @ [ucast v], shifting := 2\<rparr>
        else if a = USART2 + 0xC then d\<lparr>cr1 := v\<rparr>
        else d)\<rparr>"

definition uart_arrive :: "u8 \<Rightarrow> uart_dev \<Rightarrow> uart_dev" where
  "uart_arrive b d = (if rdr d = None then d\<lparr>rdr := Some b\<rparr> else d)"

interpretation uart_model: uart uart_bus line cr1 rdr shifting uart_arrive
  by unfold_locales
    (auto simp: uart_bus_def uart_arrive_def USART2_def USART_SR_RXNE_def USART_SR_TXE_def split: if_splits option.splits)

definition ex_uart_platform :: "uart_dev platform" where
  "ex_uart_platform = (plain_platform uart_bus)\<lparr>spin := interrupts (plain_platform uart_bus) rdr\<rparr>"

lemma handler_platform: "usart2_handler (P\<lparr>spin := f\<rparr>) = usart2_handler P" "interrupts (P\<lparr>spin := f\<rparr>) i = interrupts P i"
  by (simp_all add: fun_eq_iff interrupts_def usart2_handler_def handler_tx_def handler_rx_def reg_read_def reg_write_def reg_and_def cong: if_cong)

lemma ex_uart_platform: "hw ex_uart_platform = uart_bus" "spin ex_uart_platform = interrupts ex_uart_platform rdr" "lay ex_uart_platform = ex_layout"
  by (simp_all add: ex_uart_platform_def handler_platform) (simp_all add: plain_platform_def)

interpretation ex_usart: usart_env ex_uart_platform line cr1 rdr shifting uart_arrive
  unfolding usart_env_def ex_uart_platform by (rule uart_model.uart_axioms)

text \<open>The semaphore of the port is the first of the pool; a byte has been received.\<close>

definition ex_uart_machine :: "uart_dev machine" where
  "ex_uart_machine = (idle_machine (semaphore_init 0x20001000 0 zero_kernel) ex_heap
      \<lparr>line = [], cr1 = 0, rdr = Some 0x61, shifting = 0\<rparr>)\<lparr>rx_sem := 0x20001000\<rparr>"

lemma ex_uart_kernel: "kernel_inv (kern ex_uart_machine)"
proof -
  have "kernel_inv zero_kernel" using zero_kernel_rep by (auto simp: kernel_inv_def)
  then show ?thesis by (simp add: ex_uart_machine_def idle_machine_def semaphore_init_inv)
qed

lemma ex_uart_rings: "rb_ok (tx_ring_buffer ex_uart_machine)" "rb_ok (rx_ring_buffer ex_uart_machine)"
  "rb_size (tx_ring_buffer ex_uart_machine) = of_nat TX_BUFFER_SIZE"
  "rb_content (tx_ring_buffer ex_uart_machine) = []" "rb_content (rx_ring_buffer ex_uart_machine) = []"
  by (simp_all add: ex_uart_machine_def idle_machine_def rb_ok_def rb_content_def rb_count_def TX_BUFFER_SIZE_def)

section \<open>Properties\<close>

text \<open>C34: No byte is invented or reordered between the tasks and the line, and none is lost but in the
  device, in any interleaving of writes, interrupts, reads, arriving bytes and other activity of the
  system. A read is one that does not wait, or the end of a blocking read that finds a byte in the buffer;
  bytes are not written past the buffer (\<open>usart2_fault_putc\<close>). What has been sent followed by what is in
  the transmit buffer is what was written; what was read followed by what waits in the receive buffer and
  in the device is what arrived, but for the bytes lost by an overrun, which are those that came in while
  the device still held a byte. The transmit interrupt stays enabled while there is something to send.\<close>

theorem usart_streams:
  assumes "usart_env P sent ctl incoming busy arrive" "usart_run P incoming arrive s w a g t"
    and "rb_ok (tx_ring_buffer s)" "rb_ok (rx_ring_buffer s)" "rb_size (tx_ring_buffer s) = of_nat TX_BUFFER_SIZE"
    and "rb_content (tx_ring_buffer s) \<noteq> [] \<longrightarrow> ctl (dev s) AND USART_ENABLE_TXEIE \<noteq> 0"
  shows "sent (dev t) @ rb_content (tx_ring_buffer t) = sent (dev s) @ rb_content (tx_ring_buffer s) @ w \<and>
     g @ rb_content (rx_ring_buffer t) @ opt_list (incoming (dev t)) =
       rb_content (rx_ring_buffer s) @ opt_list (incoming (dev s)) @ arrived a \<and>
     (rb_content (tx_ring_buffer t) \<noteq> [] \<longrightarrow> ctl (dev t) AND USART_ENABLE_TXEIE \<noteq> 0)"
proof -
  have "usart_env.usart_ok ctl s" using assms(3-6) by (simp add: usart_env.usart_ok_def [OF assms(1)])
  from usart_env.run_ok [OF assms(1,2) this] show ?thesis
    by (simp add: usart_env.usart_ok_def [OF assms(1)] usart_env.outgoing_def [OF assms(1)] usart_env.pending_def [OF assms(1)])
qed

lemma ex_uart_irq:
  "usart2_handler ex_uart_platform ex_uart_machine =
     Some (ex_uart_machine\<lparr>dev := \<lparr>line = [], cr1 = 0, rdr = None, shifting = 0\<rparr>,
       rx_ring_buffer := ring_buffer_put (rx_ring_buffer ex_uart_machine) 0x61,
       kern := semaphore_init 0x20001000 1 zero_kernel\<rparr>)"
  by (simp add: usart2_handler_def handler_tx_def handler_rx_def reg_read_def reg_write_def reg_and_def ex_uart_platform uart_bus_def
      ex_uart_machine_def idle_machine_def USART2_def USART_SR_TXE_def USART_SR_RXNE_def USART_ENABLE_TXEIE_def
      ring_buffer_full_def semaphore_post_def semaphore_init_def upd_sem_def queue_pop_def fun_eq_iff)

text \<open>Of two bytes that arrive before the interrupt is taken, the second is lost.\<close>

theorem usart_streams_witness:
  "\<exists>t. usart_run ex_uart_platform rdr uart_arrive ex_uart_machine [] [(0x62, False)] [0x61] t \<and>
     [0x61] @ rb_content (rx_ring_buffer t) @ opt_list (rdr (dev t)) = [0x61]"
proof -
  obtain u where "usart2_getc (ex_uart_machine\<lparr>dev := \<lparr>line = [], cr1 = 0, rdr = None, shifting = 0\<rparr>,
       rx_ring_buffer := ring_buffer_put (rx_ring_buffer ex_uart_machine) 0x61, kern := semaphore_init 0x20001000 1 zero_kernel\<rparr>) = (Some 0x61, u)"
    by (simp add: usart2_getc_def ring_buffer_empty_def ring_buffer_put_def ring_buffer_get_def ex_uart_machine_def idle_machine_def)
  moreover have "ex_uart_machine\<lparr>dev := uart_arrive 0x62 (dev ex_uart_machine)\<rparr> = ex_uart_machine"
    "(rdr (dev ex_uart_machine) = None) = False" by (simp_all add: uart_arrive_def ex_uart_machine_def idle_machine_def)
  then have "usart_run ex_uart_platform rdr uart_arrive ex_uart_machine [] [(0x62, False)] [] ex_uart_machine"
    using run_arrive [OF run_start, of ex_uart_platform rdr uart_arrive ex_uart_machine "0x62"] by (simp only: append_Nil)
  ultimately have run: "usart_run ex_uart_platform rdr uart_arrive ex_uart_machine [] [(0x62, False)] [0x61] u"
    using run_read [OF run_irq [OF _ ex_uart_irq]] by fastforce
  from usart_streams [OF ex_usart.usart_env_axioms this] ex_uart_rings
  have "[0x61] @ rb_content (rx_ring_buffer u) @ opt_list (rdr (dev u)) = [0x61]"
    by (simp add: ex_uart_machine_def idle_machine_def arrived_def)
  with run show ?thesis by blast
qed

text \<open>C35: A write to the serial port returns, however long the text, if the receive side is not stuck (the
  device holds no byte, or there is room for it in the receive buffer) and no bytes arrive meanwhile: the
  loops that wait for room end, because the interrupts that happen in them send the bytes in the buffer.
  The text is appended to what is sent, what was received is kept, the task queues stay well formed and
  nothing else changes.\<close>

theorem usart_write_returns:
  assumes "usart_env P sent ctl incoming busy arrive" "spin P = interrupts P incoming" "kernel_inv (kern s)"
    and "\<not> ring_buffer_full (rx_ring_buffer s) \<or> incoming (dev s) = None"
    and "rb_ok (tx_ring_buffer s)" "rb_ok (rx_ring_buffer s)" "rb_size (tx_ring_buffer s) = of_nat TX_BUFFER_SIZE"
    and "rb_content (tx_ring_buffer s) \<noteq> [] \<longrightarrow> ctl (dev s) AND USART_ENABLE_TXEIE \<noteq> 0"
  shows "\<exists>t. usart2_drv_write P buf s = Some (int (length buf), t) \<and> kernel_inv (kern t) \<and> port_step s t \<and>
     sent (dev t) @ rb_content (tx_ring_buffer t) = sent (dev s) @ rb_content (tx_ring_buffer s) @ buf \<and>
     rb_content (rx_ring_buffer t) @ opt_list (incoming (dev t)) = rb_content (rx_ring_buffer s) @ opt_list (incoming (dev s))"
proof -
  have ok: "usart_env.usart_ok ctl s" using assms(5-8) by (simp add: usart_env.usart_ok_def [OF assms(1)])
  have "\<exists>r k'. semaphore_post p k = Some (r, k') \<and> kernel_inv k'" if "kernel_inv k" for p k
    using semaphore_post_inv [OF that] by metis
  note serve = usart_env.interrupts_served [OF assms(1) this assms(2), of s]
  have "\<not> rx_stuck incoming s \<and> kernel_inv (kern s) \<and> port_step s s" using assms(3,4) by (auto simp: rx_stuck_def port_step_refl)
  from usart_env.putc_all_returns [OF assms(1) serve ok this, of buf] show ?thesis
    by (auto simp: usart2_drv_write_def usart_env.outgoing_def [OF assms(1)] usart_env.pending_def [OF assms(1)])
qed

theorem usart_write_returns_witness:
  "\<exists>t. usart2_drv_write ex_uart_platform (replicate 40 0x62) ex_uart_machine = Some (40, t) \<and>
     line (dev t) @ rb_content (tx_ring_buffer t) = replicate 40 0x62"
proof -
  have "line (dev ex_uart_machine) = []" by (simp add: ex_uart_machine_def idle_machine_def)
  then show ?thesis
    using usart_write_returns [OF ex_usart.usart_env_axioms ex_uart_platform(2) ex_uart_kernel _ ex_uart_rings(1-3), of "replicate 40 0x62"]
    by (auto simp: ex_uart_rings(4)) (auto simp: ring_buffer_full_def ex_uart_machine_def idle_machine_def)
qed

text \<open>When the receive buffer is full, the handler leaves a received byte in the device: the condition
  that raised the interrupt remains, so that the handler is entered again as soon as it returns, and the
  task that could make room never runs.\<close>

theorem usart_rx_full_stuck:
  assumes "usart_env P sent ctl incoming busy arrive" "ring_buffer_full (rx_ring_buffer s)" "incoming (dev s) = Some x"
    and "ctl (dev s) AND USART_ENABLE_TXEIE = 0"
  shows "\<exists>d. usart2_handler P s = Some (s\<lparr>dev := d\<rparr>) \<and> incoming d = Some x \<and> ctl d = ctl (dev s) \<and> sent d = sent (dev s)"
proof -
  obtain sr d where r: "bus_read (hw P) USART2 (dev s) = (sr, d)" by (meson surj_pair)
  obtain v d1 where c: "bus_read (hw P) (USART2 + 0xC) d = (v, d1)" by (meson surj_pair)
  define e where "e = (if sr AND USART_SR_TXE \<noteq> 0 then d1 else d)"
  obtain sr2 d2 where r2: "bus_read (hw P) USART2 e = (sr2, d2)" by (meson surj_pair)
  have uart: "uart (hw P) sent ctl incoming busy arrive" using assms(1) by (simp add: usart_env_def)
  note r' = uart.read_sr [OF uart r] and c' = uart.read_cr1 [OF uart c] and r2' = uart.read_sr [OF uart r2]
  have e: "sent e = sent (dev s)" "ctl e = ctl (dev s)" "incoming e = Some x" using r' c' assms(3) by (auto simp: e_def)
  have "handler_tx P s = s\<lparr>dev := e\<rparr>" using r' c' assms(4) by (simp add: handler_tx_def reg_read_def r c e_def)
  then have "usart2_handler P s = Some (s\<lparr>dev := d2\<rparr>)"
    using r2' e assms(2) by (simp add: usart2_handler_def handler_rx_def reg_read_def r2)
  then show ?thesis using r2' e by auto
qed

theorem usart_rx_full_stuck_witness:
  "\<exists>d. usart2_handler ex_uart_platform (ex_uart_machine\<lparr>rx_ring_buffer := \<lparr>rb_buffer = replicate 16 0x7A, rb_size = 16, rb_head = 15, rb_tail = 0\<rparr>\<rparr>) =
     Some (ex_uart_machine\<lparr>rx_ring_buffer := \<lparr>rb_buffer = replicate 16 0x7A, rb_size = 16, rb_head = 15, rb_tail = 0\<rparr>, dev := d\<rparr>) \<and> rdr d = Some 0x61"
proof -
  let ?s = "ex_uart_machine\<lparr>rx_ring_buffer := \<lparr>rb_buffer = replicate 16 0x7A, rb_size = 16, rb_head = 15, rb_tail = 0\<rparr>\<rparr>"
  have "ring_buffer_full (rx_ring_buffer ?s)" "rdr (dev ?s) = Some 0x61" "cr1 (dev ?s) AND USART_ENABLE_TXEIE = 0"
    by (simp_all add: ring_buffer_full_def ex_uart_machine_def idle_machine_def)
  from usart_rx_full_stuck [OF ex_usart.usart_env_axioms this] show ?thesis by auto
qed

text \<open>Bytes taken without waiting leave their unit of the semaphore behind: after a byte has been
  received and read by \<open>usart2_getc\<close>, a blocking read does not block, but returns a byte that never
  arrived, and leaves the buffer with 15 bytes that never arrived either.\<close>

theorem usart_blocking_read_underflow:
  "\<exists>s1 s2 s3. usart2_handler ex_uart_platform ex_uart_machine = Some s1 \<and> usart2_getc s1 = (Some 0x61, s2) \<and>
     ring_buffer_empty (rx_ring_buffer s2) \<and> usart2_getc_blocking ex_uart_platform s2 = Some (0, s3) \<and>
     rb_content (rx_ring_buffer s3) = [0, 0, 0, 0, 0, 0, 0, 0, 0, 0, 0, 0, 0, 0, 0x61]"
proof -
  let ?k = "semaphore_init 0x20001000 1 zero_kernel"
  define s1 where "s1 = ex_uart_machine\<lparr>dev := \<lparr>line = [], cr1 = 0, rdr = None, shifting = 0\<rparr>,
    rx_ring_buffer := ring_buffer_put (rx_ring_buffer ex_uart_machine) 0x61, kern := ?k\<rparr>"
  define rb where "rb i = \<lparr>rb_buffer = 0x61 # replicate 15 0, rb_size = 16, rb_head = 1, rb_tail = i\<rparr>" for i
  have s1: "rx_ring_buffer s1 = rb 0" "kern s1 = ?k" "rx_sem s1 = 0x20001000"
    using replicate_Suc [of 15 "0 :: u8"] by (simp_all add: s1_def rb_def ex_uart_machine_def idle_machine_def ring_buffer_put_def)
  have get: "ring_buffer_get (rb 0) = (0x61, rb 1)" "ring_buffer_get (rb 1) = (0, rb 2)" "ring_buffer_empty (rb 1)" "\<not> ring_buffer_empty (rb 0)"
    by (simp_all add: ring_buffer_get_def rb_def ring_buffer_empty_def)
  have wait: "semaphore_wait 0x20001000 ?k = (SEM_OK, semaphore_init 0x20001000 0 zero_kernel)"
    by (simp add: semaphore_wait_def semaphore_init_def upd_sem_def fun_eq_iff)
  have blocking: "usart2_getc_blocking ex_uart_platform (s1\<lparr>rx_ring_buffer := rb 1\<rparr>) =
      Some (0, s1\<lparr>rx_ring_buffer := rb 2, kern := semaphore_init 0x20001000 0 zero_kernel\<rparr>)"
    by (simp add: usart2_getc_blocking_def sys_sem_wait_def svc_call_def svc_sem_wait_def validate_sem_def ex_uart_platform ex_layout_def
        s1 wait svc_finish_def svc_return_def get)
       (simp add: semaphore_init_def)
  have "rb_content (rb 2) = [0, 0, 0, 0, 0, 0, 0, 0, 0, 0, 0, 0, 0, 0, 0x61]"
  proof -
    have "[0..<15] = [0, 1, 2, 3, 4, 5, 6, 7, 8, 9, 10, 11, 12, 13, 14]" by (simp add: upt_rec)
    then show ?thesis by (simp add: rb_content_def rb_count_def rb_def)
  qed
  moreover have "usart2_getc s1 = (Some 0x61, s1\<lparr>rx_ring_buffer := rb 1\<rparr>)" by (simp add: usart2_getc_def s1 get)
  ultimately show ?thesis
    using ex_uart_irq [folded s1_def] blocking get(3)
    by (intro exI [of _ s1] exI [of _ "s1\<lparr>rx_ring_buffer := rb 1\<rparr>"]
        exI [of _ "s1\<lparr>rx_ring_buffer := rb 2, kern := semaphore_init 0x20001000 0 zero_kernel\<rparr>"]) simp
qed

end
