(* ===== verification/Uprintf.thy ===== *)
theory Uprintf
  imports Syscall Printf Dhcp_Message
begin

unbundle bit_operations_syntax

text \<open>
  Output of user tasks (\<^verbatim>\<open>source/user/uprintf.c\<close>): a text is formatted in an array on the stack of the
  task and handed to the console by a system call, which checks that the array is there. \<open>frame\<close> is the
  address of that array in the frame of the call; \<open>say\<close> is a call with a string literal as its format.
\<close>

definition uprintf ::
  "'d platform \<Rightarrow> (ptr \<Rightarrow> 'd machine driver_t) \<Rightarrow> ptr \<Rightarrow> ptr \<Rightarrow> u32 list \<Rightarrow> 'd machine \<Rightarrow> (int \<times> 'd machine) option" where
  "uprintf P D frame fmt ap s = do {
     (n, buf) \<leftarrow> kvsnprintf (junk P 10) (umem s) (bytes_at (umem s) frame 128) 128 fmt ap;
     let s = s\<lparr>umem := store_bytes frame buf (umem s)\<rparr>;
     (r, s) \<leftarrow> sys_console_write P D frame (clamp_len n 128) s;
     Some (n, s)
   }"

definition say ::
  "'d platform \<Rightarrow> (ptr \<Rightarrow> 'd machine driver_t) \<Rightarrow> ptr \<Rightarrow> string \<Rightarrow> u32 list \<Rightarrow> 'd machine \<Rightarrow> 'd machine option" where
  "say P D frame txt ap s = map_option snd (uprintf P D frame (literal P (map of_char txt)) ap s)"

text \<open>Carriage return and line feed.\<close>

definition crlf :: string where "crlf = [CHR 0x0D, CHR 0x0A]"

definition print_net_error ::
  "'d platform \<Rightarrow> (ptr \<Rightarrow> 'd machine driver_t) \<Rightarrow> ptr \<Rightarrow> net_reply_t \<Rightarrow> 'd machine \<Rightarrow> 'd machine option" where
  "print_net_error P D frame reply s = do {
     s \<leftarrow> say P D frame ''![net] NET ERROR: '' [] s;
     case reply_status reply of
       NET_STATUS_RETRY \<Rightarrow> say P D frame (''RETRY'' @ crlf) [] s
     | NET_STATUS_BAD_REQUEST \<Rightarrow> say P D frame (''BAD REQUEST'' @ crlf) [] s
     | NET_STATUS_FAULT \<Rightarrow> say P D frame (''FAULT'' @ crlf) [] s
     | NET_STATUS_DEAD \<Rightarrow> say P D frame (''DEAD'' @ crlf) [] s
     | NET_STATUS_UNREACHABLE \<Rightarrow> say P D frame (''UNREACHABLE'' @ crlf) [] s
     | NET_STATUS_OK \<Rightarrow> Some s
   }"

definition print_dhcp_error ::
  "'d platform \<Rightarrow> (ptr \<Rightarrow> 'd machine driver_t) \<Rightarrow> ptr \<Rightarrow> dhcp_status_t \<Rightarrow> 'd machine \<Rightarrow> 'd machine option" where
  "print_dhcp_error P D frame status s = do {
     s \<leftarrow> say P D frame ''![dhcp] ERROR: '' [] s;
     case status of
       DHCP_ERR_MALFORMED \<Rightarrow> say P D frame (''MALFORMED'' @ crlf) [] s
     | DHCP_ERR_NOT_DHCP \<Rightarrow> say P D frame (''NOT DHCP'' @ crlf) [] s
     | DHCP_ERR_SHORT \<Rightarrow> say P D frame (''SHORT'' @ crlf) [] s
     | DHCP_ERR_ARG \<Rightarrow> say P D frame (''ARG'' @ crlf) [] s
     | _ \<Rightarrow> Some s
   }"

definition DHCP_MSG_NAK :: u8 where "DHCP_MSG_NAK = 6"
definition DHCP_MSG_INFORM :: u8 where "DHCP_MSG_INFORM = 8"

definition dhcp_print_msg_type ::
  "'d platform \<Rightarrow> (ptr \<Rightarrow> 'd machine driver_t) \<Rightarrow> ptr \<Rightarrow> u8 \<Rightarrow> 'd machine \<Rightarrow> 'd machine option" where
  "dhcp_print_msg_type P D frame msg_type s =
     (if msg_type = DHCP_MSG_DISCOVER then say P D frame ''DISCOVER'' [] s
      else if msg_type = DHCP_MSG_OFFER then say P D frame ''OFFER'' [] s
      else if msg_type = DHCP_MSG_REQUEST then say P D frame ''REQUEST'' [] s
      else if msg_type = DHCP_MSG_ACK then say P D frame ''ACK'' [] s
      else if msg_type = DHCP_MSG_NAK then say P D frame ''NAK'' [] s
      else if msg_type = DHCP_MSG_DECLINE then say P D frame ''DECLINE'' [] s
      else if msg_type = DHCP_MSG_RELEASE then say P D frame ''RELEASE'' [] s
      else if msg_type = DHCP_MSG_INFORM then say P D frame ''INFORM'' [] s
      else Some s)"

text \<open>The first elements of an array as arguments.\<close>

definition bytes_args :: "nat \<Rightarrow> u8 list \<Rightarrow> u32 list option" where
  "bytes_args n bs = map_option (map ucast) (slice bs 0 n)"

definition say_bytes ::
  "'d platform \<Rightarrow> (ptr \<Rightarrow> 'd machine driver_t) \<Rightarrow> ptr \<Rightarrow> string \<Rightarrow> nat \<Rightarrow> u8 list \<Rightarrow> 'd machine \<Rightarrow> 'd machine option" where
  "say_bytes P D frame txt n bs s = do { ap \<leftarrow> bytes_args n bs; say P D frame txt ap s }"

text \<open>The two loops over the requested options.\<close>

function bits_loop ::
  "'d platform \<Rightarrow> (ptr \<Rightarrow> 'd machine driver_t) \<Rightarrow> ptr \<Rightarrow> u8 list \<Rightarrow> nat \<Rightarrow> nat \<Rightarrow> 'd machine \<Rightarrow> 'd machine option" where
  "bits_loop P D frame bitmap i j s =
     (if j < 8
      then do {
        b \<leftarrow> fetch bitmap i;
        s \<leftarrow> (if bit b j then say P D frame ''%d, '' [of_nat (i * 8 + j)] s else Some s);
        bits_loop P D frame bitmap i (j + 1) s
      }
      else Some s)"
  by pat_completeness auto
termination
  by (relation "measure (\<lambda>(P, D, frame, bitmap, i, j, s). 8 - j)") auto

function options_loop ::
  "'d platform \<Rightarrow> (ptr \<Rightarrow> 'd machine driver_t) \<Rightarrow> ptr \<Rightarrow> u8 list \<Rightarrow> nat \<Rightarrow> 'd machine \<Rightarrow> 'd machine option" where
  "options_loop P D frame bitmap i s =
     (if i < 32 then do { s \<leftarrow> bits_loop P D frame bitmap i 0 s; options_loop P D frame bitmap (i + 1) s }
      else Some s)"
  by pat_completeness auto
termination
  by (relation "measure (\<lambda>(P, D, frame, bitmap, i, s). 32 - i)") auto

declare bits_loop.simps [simp del] options_loop.simps [simp del]

text \<open>\<open>inner\<close>: the array in the frame of the call from \<open>dhcp_print_msg_type\<close>.\<close>

definition dhcp_msg_print ::
  "'d platform \<Rightarrow> (ptr \<Rightarrow> 'd machine driver_t) \<Rightarrow> ptr \<Rightarrow> ptr \<Rightarrow> dhcp_msg_t \<Rightarrow> 'd machine \<Rightarrow> 'd machine option" where
  "dhcp_msg_print P D frame inner msg s = do {
     s \<leftarrow> say P D frame (''OP: %d HTYPE: %d HLEN: %d HOPS: %d'' @ crlf)
            [ucast (msg_op msg), ucast (htype msg), ucast (hlen msg), ucast (hops msg)] s;
     s \<leftarrow> say_bytes P D frame (''XID: %x%x%x%x'' @ crlf) 4 (xid msg) s;
     s \<leftarrow> say P D frame (''SECS: %d'' @ [CHR 0x09] @ ''FLAGS: %x'' @ crlf) [ucast (secs msg), ucast (flags msg)] s;
     s \<leftarrow> say_bytes P D frame (''CIADDR: %d.%d.%d.%d'' @ crlf) 4 (ciaddr msg) s;
     s \<leftarrow> say_bytes P D frame (''YIADDR: %d.%d.%d.%d'' @ crlf) 4 (yiaddr msg) s;
     s \<leftarrow> say_bytes P D frame (''SIADDR: %d.%d.%d.%d'' @ crlf) 4 (siaddr msg) s;
     s \<leftarrow> say_bytes P D frame (''GIADDR: %d.%d.%d.%d'' @ crlf) 4 (giaddr msg) s;
     s \<leftarrow> say_bytes P D frame (''CHADDR: %02x:%02x:%02x:%02x:%02x:%02x'' @ crlf) 6 (chaddr msg) s;
     s \<leftarrow> (if has_requested_ip msg
          then say_bytes P D frame (''OPT[requested ip]: %d.%d.%d.%d'' @ crlf) 4 (requested_ip msg) s else Some s);
     s \<leftarrow> (if has_message_type msg
          then do {
            s \<leftarrow> say P D frame ''OPT[message type]: '' [] s;
            s \<leftarrow> dhcp_print_msg_type P D inner (message_type msg) s;
            say P D frame crlf [] s
          }
          else Some s);
     s \<leftarrow> (if has_server_id msg
          then say_bytes P D frame (''OPT[server id]: %d.%d.%d.%d'' @ crlf) 4 (msg_server_id msg) s else Some s);
     s \<leftarrow> say P D frame ''OPT[requested]: ['' [] s;
     s \<leftarrow> options_loop P D frame (requested_bitmap msg) 0 s;
     s \<leftarrow> say P D frame ('']'' @ crlf) [] s;
     if has_client_id msg
     then say_bytes P D frame (''OPT[client_id]: %x%x%x%x'' @ crlf) 4 (client_id msg) s else Some s
   }"

section \<open>Properties\<close>

text \<open>Formatted output of a user task is what the format and its arguments stand for, cut to 127
  characters: the call formats in its own array on the stack of the task and writes exactly that text to
  the console, through the system call, which accepts the array; the result is the length of the whole
  text. Only the 128 bytes of the array change in memory.\<close>

theorem uprintf_writes:
  assumes "is_string (umem s) fmt fs" and "\<And>p xs. str p = Some xs \<Longrightarrow> is_string (umem s) p xs"
    and "render str fs ap = Some txt" and "length txt < 2 ^ 31" and "length (junk P 10) = 10"
    and "ptr_on_stack frame (of_nat (min (length txt) 127)) (tcbs (kern s) (current_task (kern s)))"
  shows "\<exists>m. (\<forall>a. a \<notin> block frame 128 \<longrightarrow> m a = umem s a) \<and>
     uprintf P D frame fmt ap s = do {
       s' \<leftarrow> console_write D (take 127 txt) (sinks s) (s\<lparr>umem := m\<rparr>);
       s'' \<leftarrow> svc_return P s';
       Some (int (length txt), s'')
     }"
proof -
  define buf where "buf = take 127 txt @ 0 # drop (Suc (min (length txt) 127)) (bytes_at (umem s) frame 128)"
  have k: "kvsnprintf (junk P 10) (umem s) (bytes_at (umem s) frame 128) 128 fmt ap = Some (int (length txt), buf)"
    using kvsnprintf_renders [OF assms(1-4), of 128 "bytes_at (umem s) frame 128" "junk P 10"] assms(5) by (simp add: buf_def)
  have len: "length buf = 128" by (simp add: buf_def)
  define m where "m = store_bytes frame buf (umem s)"
  have outside: "a \<notin> block frame 128 \<Longrightarrow> m a = umem s a" for a
    using store_bytes_other [of a frame buf "umem s"] by (simp add: m_def len)
  have "bytes_at m frame 128 = buf" using bytes_at_store_bytes [of buf frame "umem s"] by (simp add: len m_def)
  moreover have "bytes_at m frame (min (length txt) 127) = take (min (length txt) 127) (bytes_at m frame 128)"
    by (rule nth_equalityI) (simp_all add: bytes_at_nth)
  ultimately have out: "bytes_at m frame (min (length txt) 127) = take 127 txt" by (simp add: buf_def min_def)
  have cl: "clamp_len (int (length txt)) 128 = of_nat (min (length txt) 127)"
    using assms(4) by (auto simp: clamp_len_def word_le_nat_alt unat_of_nat take_bit_nat_eq_self min_def)
  have un: "unat (of_nat (min (length txt) 127) :: u32) = min (length txt) 127"
    by (simp add: unat_of_nat take_bit_nat_eq_self)
  have "uprintf P D frame fmt ap s = do {
       s' \<leftarrow> console_write D (take 127 txt) (sinks s) (s\<lparr>umem := m\<rparr>); s'' \<leftarrow> svc_return P s'; Some (int (length txt), s'')}"
    using assms(6) out un
    by (simp add: uprintf_def k cl m_def [symmetric] sys_console_write_def svc_call_def svc_console_write_def svc_finish_def
        map_conv_bind_option bind_assoc comp_def)
  with outside show ?thesis by blast
qed

definition ex_print_machine :: "unit machine" where
  "ex_print_machine =
     (ex_machine (zero_kernel\<lparr>tcbs := (\<lambda>_. zero_tcb\<lparr>stack_base := 0x20002000, stack_size := 1024\<rparr>)\<rparr>) ex_heap)\<lparr>umem := ex_fmt\<rparr>"

theorem uprintf_writes_witness:
  "\<exists>s'. uprintf ex_platform no_drivers 0x20002100 0x08004000 [42] ex_print_machine = Some (5, s')"
proof -
  have fmt: "is_string (umem ex_print_machine) 0x08004000 [0x6E, 0x3D, 0x25, 0x33, 0x75]"
    using ex_fmt_string by (simp add: ex_print_machine_def)
  have st: "ptr_on_stack 0x20002100 (of_nat (min (length [0x6E, 0x3D, 0x20, 0x34, 0x32 :: u8]) 127))
      (tcbs (kern ex_print_machine) (current_task (kern ex_print_machine)))"
    by (simp add: ptr_on_stack_def ex_print_machine_def ex_machine_def idle_machine_def)
  have quiet: "sinks ex_print_machine = [0, 0, 0, 0]"
    by (simp add: ex_print_machine_def ex_machine_def idle_machine_def)
  have ret: "svc_return ex_platform (ex_print_machine\<lparr>umem := m\<rparr>) = Some (ex_print_machine\<lparr>umem := m\<rparr>)" for m
    by (simp add: svc_return_def ex_print_machine_def ex_machine_def idle_machine_def)
  have junk: "length (junk ex_platform 10) = 10" by (simp add: ex_platform_def plain_platform_def)
  obtain m where "uprintf ex_platform no_drivers 0x20002100 0x08004000 [42] ex_print_machine = do {
      s' \<leftarrow> console_write no_drivers (take 127 [0x6E, 0x3D, 0x20, 0x34, 0x32]) (sinks ex_print_machine) (ex_print_machine\<lparr>umem := m\<rparr>);
      s'' \<leftarrow> svc_return ex_platform s'; Some (int (length [0x6E, 0x3D, 0x20, 0x34, 0x32 :: u8]), s'')}"
    using uprintf_writes [OF fmt _ ex_fmt_render _ junk st, of no_drivers] by auto
  then show ?thesis by (simp add: quiet ret)
qed

end
