(* ===== verification/Bench.thy ===== *)
theory Bench
  imports Syscall "HOL-Library.Multiset"
begin

unbundle bit_operations_syntax

text \<open>
  The benchmarks (\<^verbatim>\<open>source/kernel/bench.c\<close>): recording of measured cycle counts in a histogram with
  16-bit counters, percentiles from it, and the tasks that are measured. The lemmas relate a result to the list of readings it was
  made from.
\<close>

section \<open>Recording\<close>

definition HIST_BUCKETS :: nat where "HIST_BUCKETS = 256"

record bench_result_t =
  hist :: "u16 list"
  hist_overflow :: u16
  bench_n :: u32
  bench_sum :: u32
  bench_min :: u32
  bench_max :: u32

definition bench_result_zero :: bench_result_t where
  "bench_result_zero = \<lparr>hist = replicate HIST_BUCKETS 0, hist_overflow = 0, bench_n = 0, bench_sum = 0, bench_min = 0xFFFFFFFF, bench_max = 0\<rparr>"

record bench_state =
  bench_pendsv_start :: u32
  bench_pendsv_end :: u32
  bench_pendsv_lr :: u32
  bench_preemption_start :: u32
  bench_irq_site :: u32
  preemption_result :: bench_result_t
  preemption_fp_result :: bench_result_t
  pendsv_result :: bench_result_t
  pendsv_fp_result :: bench_result_t
  irq_result :: bench_result_t
  bench_stop_flag :: bool

definition update_result :: "bench_result_t \<Rightarrow> u32 \<Rightarrow> bench_result_t" where
  "update_result r x =
     (let bucket = (ucast (drop_bit 3 x) :: u16);
          (bucket, r) = (if bucket \<ge> of_nat HIST_BUCKETS then (of_nat HIST_BUCKETS - 1, r\<lparr>hist_overflow := hist_overflow r + 1\<rparr>)
                         else (bucket, r));
          r = r\<lparr>hist := (hist r)[unat bucket := hist r ! unat bucket + 1]\<rparr>;
          r = r\<lparr>bench_n := bench_n r + 1\<rparr>;
          r = r\<lparr>bench_sum := bench_sum r + x\<rparr>;
          r = (if x > bench_max r then r\<lparr>bench_max := x\<rparr> else r)
      in if x < bench_min r then r\<lparr>bench_min := x\<rparr> else r)"

definition update_irq_result :: "u32 \<Rightarrow> u32 \<Rightarrow> bench_state \<Rightarrow> bench_state" where
  "update_irq_result x here b =
     (let b = (if x > bench_max (irq_result b) then b\<lparr>bench_irq_site := here\<rparr> else b)
      in b\<lparr>irq_result := update_result (irq_result b) x\<rparr>)"

definition bench_record_switch :: "u32 \<Rightarrow> bench_state \<Rightarrow> u32 \<times> bench_state" where
  "bench_record_switch exc_return b =
     (let preemption_delta = bench_pendsv_end b - bench_preemption_start b;
          pendsv_delta = bench_pendsv_end b - bench_pendsv_start b;
          fpu = (\<not> exc_return AND 0x10 \<noteq> 0 \<or> \<not> bench_pendsv_lr b AND 0x10 \<noteq> 0);
          b = (if \<not> fpu
               then b\<lparr>preemption_result := update_result (preemption_result b) preemption_delta,
                      pendsv_result := update_result (pendsv_result b) pendsv_delta\<rparr>
               else b\<lparr>preemption_fp_result := update_result (preemption_fp_result b) preemption_delta,
                      pendsv_fp_result := update_result (pendsv_fp_result b) pendsv_delta\<rparr>)
      in (exc_return, b))"

definition bench_reset :: "bench_state \<Rightarrow> bench_state" where
  "bench_reset b = b\<lparr>preemption_result := bench_result_zero, preemption_fp_result := bench_result_zero,
     pendsv_result := bench_result_zero, pendsv_fp_result := bench_result_zero, irq_result := bench_result_zero,
     bench_stop_flag := False\<rparr>"

section \<open>Percentiles\<close>

text \<open>The loop over the buckets; a division by zero would be \<open>None\<close>.\<close>

function pct_loop :: "bench_result_t \<Rightarrow> u32 \<Rightarrow> nat \<Rightarrow> u32 \<Rightarrow> u32 option" where
  "pct_loop r target b cum =
     (if b < HIST_BUCKETS
      then
        if cum + ucast (hist r ! b) > target
        then if hist r ! b = 0 then None
             else Some (of_nat (8 * b) + (8 * (target - cum)) div ucast (hist r ! b))
        else pct_loop r target (b + 1) (cum + ucast (hist r ! b))
      else Some 0)"
  by pat_completeness auto
termination
  by (relation "measure (\<lambda>(r, target, b, cum). HIST_BUCKETS - b)") auto

declare pct_loop.simps [simp del]

definition calc_percentile :: "bench_result_t \<Rightarrow> u32 \<Rightarrow> u32 option" where
  "calc_percentile r target = do {
     val \<leftarrow> pct_loop r target 0 0;
     let val = (if val < bench_min r then bench_min r else val);
     Some (if val > bench_max r then bench_max r else val)
   }"

section \<open>Measuring\<close>

definition CoreDebug :: ptr where "CoreDebug = 0xE000EDF0"
definition DWT :: ptr where "DWT = 0xE0001000"

definition reset_counter :: "'d platform \<Rightarrow> 'd machine \<Rightarrow> 'd machine" where
  "reset_counter P s = (let s = reg_write P (DWT + 4) 0 s in reg_or P DWT (push_bit 0 1) s)"

definition enable_counter :: "'d platform \<Rightarrow> 'd machine \<Rightarrow> 'd machine" where
  "enable_counter P s = (let s = reg_or P (CoreDebug + 0xC) (push_bit 24 1) s in reset_counter P s)"

definition read_cycles :: "'d platform \<Rightarrow> 'd machine \<Rightarrow> u32 \<times> 'd machine" where
  "read_cycles P s = reg_read P (DWT + 4) s"

definition SYSCALL_ROUNDTRIP_ITER :: nat where "SYSCALL_ROUNDTRIP_ITER = 1000"

fun roundtrip_loop :: "'d platform \<Rightarrow> nat \<Rightarrow> bench_result_t \<Rightarrow> 'd machine \<Rightarrow> (bench_result_t \<times> 'd machine) option" where
  "roundtrip_loop P 0 res s = Some (res, s)"
| "roundtrip_loop P (Suc n) res s = do {
     let (start, s) = read_cycles P s;
     (ticks, s) \<leftarrow> sys_uptime P s;
     let (now, s) = read_cycles P s;
     roundtrip_loop P n (update_result res (now - start)) s
   }"

definition bench_syscall_roundtrip :: "'d platform \<Rightarrow> 'd machine \<Rightarrow> (bench_result_t \<times> 'd machine) option" where
  "bench_syscall_roundtrip P s = roundtrip_loop P SYSCALL_ROUNDTRIP_ITER bench_result_zero s"

section \<open>The workload\<close>

record arg_wrap_t =
  arg_sem1 :: ptr
  arg_sem2 :: ptr
  arg_sem3 :: ptr

record workload_fns =
  sizeof_arg_wrap :: u32
  ping_fn :: u32
  pong_fn :: u32
  fpu_fn :: u32

text \<open>The semaphores are written to a block that may not be there, which is an error; they are returned with it.\<close>

definition start_workload :: "'d platform \<Rightarrow> workload_fns \<Rightarrow> 'd machine \<Rightarrow> (arg_wrap_t \<times> 'd machine) option" where
  "start_workload P W s = do {
     (sem1, s) \<leftarrow> sys_sem_create P 1 s;
     (sem2, s) \<leftarrow> sys_sem_create P 0 s;
     (sem3, s) \<leftarrow> sys_sem_create P 0 s;
     (arg1, s) \<leftarrow> sys_malloc P (sizeof_arg_wrap W) s;
     if arg1 = 0 then None
     else do {
       let a = \<lparr>arg_sem1 = sem1, arg_sem2 = sem2, arg_sem3 = sem3\<rparr>;
       (t1, s) \<leftarrow> sys_task_create P 3 (ping_fn W) arg1 s;
       (t2, s) \<leftarrow> sys_task_create P 3 (pong_fn W) arg1 s;
       (t3, s) \<leftarrow> sys_task_create P 3 (fpu_fn W) arg1 s;
       Some (a, s)
     }
   }"

text \<open>
  The loops of the tasks: a task waits for one semaphore and posts the next. \<open>stops\<close> are the values of the
  flag that the loop reads; the tasks run for at most as many rounds.
\<close>

fun relay :: "'d platform \<Rightarrow> ptr \<Rightarrow> ptr \<Rightarrow> bool list \<Rightarrow> 'd machine \<Rightarrow> 'd machine option" where
  "relay P wait_for post_to [] s = Some s"
| "relay P wait_for post_to (stop # stops) s =
     (if stop then Some s
      else do { s \<leftarrow> sys_sem_wait P wait_for s; s \<leftarrow> sys_sem_post P post_to s; relay P wait_for post_to stops s })"

definition ping_task :: "'d platform \<Rightarrow> arg_wrap_t \<Rightarrow> bool list \<Rightarrow> 'd machine \<Rightarrow> 'd machine option" where
  "ping_task P a = relay P (arg_sem1 a) (arg_sem2 a)"

definition pong_task :: "'d platform \<Rightarrow> arg_wrap_t \<Rightarrow> bool list \<Rightarrow> 'd machine \<Rightarrow> 'd machine option" where
  "pong_task P a = relay P (arg_sem2 a) (arg_sem3 a)"

text \<open>The floating point computation of the third task is in registers and a local variable only.\<close>

definition fpu_task :: "'d platform \<Rightarrow> arg_wrap_t \<Rightarrow> bool list \<Rightarrow> 'd machine \<Rightarrow> 'd machine option" where
  "fpu_task P a = relay P (arg_sem3 a) (arg_sem1 a)"

section \<open>What a result stands for\<close>

definition recorded :: "u32 list \<Rightarrow> bench_result_t" where
  "recorded xs = foldl update_result bench_result_zero xs"

text \<open>The bucket of a reading below \<open>2\<^sup>1\<^sup>9\<close>.\<close>

definition bucket_of :: "u32 \<Rightarrow> nat" where
  "bucket_of x = min (unat x div 8) 255"

lemma update_result_fields:
  assumes "unat x < 2 ^ 19" "length (hist r) = 256"
  shows "hist (update_result r x) = (hist r)[bucket_of x := hist r ! bucket_of x + 1]"
    "bench_n (update_result r x) = bench_n r + 1" "bench_sum (update_result r x) = bench_sum r + x"
    "bench_min (update_result r x) = min (bench_min r) x" "bench_max (update_result r x) = max (bench_max r) x"
proof -
  have "unat (drop_bit 3 x) = unat x div 8" by (simp add: drop_bit_eq_div unat_div_distrib)
  then have "unat (ucast (drop_bit 3 x) :: u16) = unat x div 8"
    using assms(1) by (simp add: unsigned_ucast_eq take_bit_nat_eq_self)
  then have b: "(ucast (drop_bit 3 x) :: u16) \<ge> 256 \<longleftrightarrow> unat x div 8 \<ge> 256" "unat (ucast (drop_bit 3 x) :: u16) = unat x div 8"
    by (simp_all add: word_le_nat_alt)
  show "hist (update_result r x) = (hist r)[bucket_of x := hist r ! bucket_of x + 1]"
    using b by (auto simp: update_result_def Let_def HIST_BUCKETS_def bucket_of_def min_def)
  show "bench_n (update_result r x) = bench_n r + 1" "bench_sum (update_result r x) = bench_sum r + x"
    "bench_min (update_result r x) = min (bench_min r) x" "bench_max (update_result r x) = max (bench_max r) x"
    by (auto simp: update_result_def Let_def min_def max_def not_less)
qed

definition short_run :: "u32 list \<Rightarrow> bool" where
  "short_run xs \<longleftrightarrow> length xs < 2 ^ 16 \<and> (\<forall>x \<in> set xs. unat x < 2 ^ 19)"

definition in_bucket :: "nat \<Rightarrow> u32 list \<Rightarrow> nat" where
  "in_bucket b xs = length (filter (\<lambda>x. bucket_of x = b) xs)"

definition below_bucket :: "nat \<Rightarrow> u32 list \<Rightarrow> nat" where
  "below_bucket b xs = length (filter (\<lambda>x. bucket_of x < b) xs)"

lemma below_bucket_Suc: "below_bucket (Suc b) xs = below_bucket b xs + in_bucket b xs"
  by (induction xs) (auto simp: below_bucket_def in_bucket_def)

lemma below_bucket_bounds: "below_bucket 0 xs = 0" "below_bucket 256 xs = length xs" "below_bucket b xs \<le> length xs" "in_bucket b xs \<le> length xs"
proof -
  have "bucket_of x < 256" for x by (simp add: bucket_of_def)
  then show "below_bucket 256 xs = length xs" by (simp add: below_bucket_def)
qed (simp_all add: below_bucket_def in_bucket_def)

lemma recorded_hist:
  assumes "short_run xs"
  shows "length (hist (recorded xs)) = 256" "b < 256 \<Longrightarrow> unat (hist (recorded xs) ! b) = in_bucket b xs"
    "unat (bench_n (recorded xs)) = length xs" "unat (bench_sum (recorded xs)) = sum_list (map unat xs) mod 2 ^ 32"
  using assms
proof (induction xs arbitrary: b rule: rev_induct)
  case Nil
  {
    case 1 then show ?case by (simp add: recorded_def bench_result_zero_def HIST_BUCKETS_def)
  next
    case 2 then show ?case by (simp add: recorded_def bench_result_zero_def HIST_BUCKETS_def in_bucket_def)
  next
    case 3 then show ?case by (simp add: recorded_def bench_result_zero_def)
  next
    case 4 then show ?case by (simp add: recorded_def bench_result_zero_def)
  }
next
  case (snoc x xs)
  have rec: "recorded (xs @ [x]) = update_result (recorded xs) x" by (simp add: recorded_def)
  have run: "short_run (xs @ [x]) \<Longrightarrow> short_run xs" "short_run (xs @ [x]) \<Longrightarrow> unat x < 2 ^ 19" "short_run (xs @ [x]) \<Longrightarrow> Suc (length xs) < 2 ^ 16"
    by (auto simp: short_run_def)
  note upd = update_result_fields [OF run(2) snoc.IH(1) [OF run(1)]]
  {
    case 1 then show ?case using upd snoc.IH(1) [OF run(1)] by (simp add: rec)
  next
    case 2
    have "unat (hist (recorded xs) ! b + 1) = unat (hist (recorded xs) ! b) + 1"
      using snoc.IH(2) [OF _ run(1)] 2 run(3) below_bucket_bounds(4) [of b xs] by (simp add: unat_word_ariths)
    then show ?case using upd(1) snoc.IH(1) [OF run(1)] snoc.IH(2) [OF _ run(1)] 2 by (auto simp: rec in_bucket_def nth_list_update)
  next
    case 3 then show ?case using upd(2) snoc.IH(3) [OF run(1)] run(3) by (simp add: rec unat_word_ariths)
  next
    case 4 then show ?case using upd(3) snoc.IH(4) [OF run(1)] by (simp add: rec unat_word_ariths mod_simps)
  }
qed

lemma recorded_extremes:
  assumes "short_run xs" "xs \<noteq> []"
  shows "bench_min (recorded xs) = Min (set xs)" "bench_max (recorded xs) = Max (set xs)"
proof -
  have "bench_min (recorded xs) = fold min xs 0xFFFFFFFF \<and> bench_max (recorded xs) = fold max xs 0" using assms(1)
  proof (induction xs rule: rev_induct)
    case (snoc x xs)
    then have "short_run xs" "unat x < 2 ^ 19" by (auto simp: short_run_def)
    then show ?case
      using snoc.IH update_result_fields(4,5) [OF _ recorded_hist(1)] by (simp add: recorded_def min.commute max.commute)
  qed (simp add: recorded_def bench_result_zero_def)
  moreover have "fold min xs 0xFFFFFFFF = Min (insert 0xFFFFFFFF (set xs))" "fold max xs 0 = Max (insert 0 (set xs))"
    by (simp_all add: Min.set_eq_fold [symmetric] Max.set_eq_fold [symmetric] flip: list.set)
  moreover have "Min (insert 0xFFFFFFFF (set xs)) = Min (set xs)" "Max (insert 0 (set xs)) = Max (set xs)"
  proof -
    have "unat (Min (set xs)) < 2 ^ 32" using unat_lt2p [of "Min (set xs)"] by simp
    then have "Min (set xs) \<le> 0xFFFFFFFF" by (simp add: word_le_nat_alt)
    then show "Min (insert 0xFFFFFFFF (set xs)) = Min (set xs)"
      using assms(2) by (subst Min_insert) (auto simp: min.absorb2)
    show "Max (insert 0 (set xs)) = Max (set xs)" using assms(2) by simp
  qed
  ultimately show "bench_min (recorded xs) = Min (set xs)" "bench_max (recorded xs) = Max (set xs)" by simp_all
qed

section \<open>Percentiles are order statistics\<close>

lemma of_nat_unat_id: "of_nat (unat w) = w" for w :: u32
  by simp

text \<open>The element at a position of a sorted list, by counting.\<close>

lemma sorted_nth_less:
  assumes "sorted ys" "t < length ys" "t < length (filter (\<lambda>y. y < c) ys)"
  shows "ys ! t < c"
  using assms
proof (induction ys arbitrary: t)
  case (Cons y ys)
  show ?case
  proof (cases "y < c")
    case True
    with Cons show ?thesis by (cases t) auto
  next
    case False
    with Cons.prems(1) have "filter (\<lambda>y. y < c) (y # ys) = []" by (auto simp: filter_empty_conv)
    with Cons.prems(3) show ?thesis by simp
  qed
qed simp

lemma sorted_nth_ge:
  assumes "sorted ys" "t < length ys" "length (filter (\<lambda>y. y < c) ys) \<le> t"
  shows "c \<le> ys ! t"
  using assms
proof (induction ys arbitrary: t)
  case (Cons y ys)
  show ?case
  proof (cases "y < c")
    case True
    with Cons show ?thesis by (cases t) auto
  next
    case False
    moreover have "y \<le> (y # ys) ! t" using Cons.prems(1,2) by (cases t) auto
    ultimately show ?thesis by (meson not_le order_trans)
  qed
qed simp

lemma below_bucket_less:
  assumes "b < 256"
  shows "below_bucket b xs = length (filter (\<lambda>x. unat x < 8 * b) xs)"
proof -
  have "bucket_of x < b \<longleftrightarrow> unat x < 8 * b" for x using assms by (auto simp: bucket_of_def)
  then show ?thesis by (simp add: below_bucket_def)
qed

lemma pct_loop_finds:
  assumes "short_run xs" "t < length xs"
  shows "b \<le> 256 \<Longrightarrow> below_bucket b xs \<le> t \<Longrightarrow>
    \<exists>c h. c < 256 \<and> below_bucket c xs \<le> t \<and> t < below_bucket (Suc c) xs \<and> h = in_bucket c xs \<and>
      pct_loop (recorded xs) (of_nat t) b (of_nat (below_bucket b xs)) = Some (of_nat (8 * c + 8 * (t - below_bucket c xs) div h))"
proof (induction "256 - b" arbitrary: b rule: less_induct)
  case less
  have len: "length xs < 2 ^ 16" using assms(1) by (simp add: short_run_def)
  have "b \<noteq> 256" using less.prems(2) assms(2) below_bucket_bounds(2) [of xs] by auto
  then have b: "b < 256" using less.prems(1) by simp
  define n h where "n = below_bucket b xs" and "h = hist (recorded xs) ! b"
  have h: "unat h = in_bucket b xs" using recorded_hist(2) [OF assms(1) b] by (simp add: h_def)
  have nh: "n + in_bucket b xs = below_bucket (Suc b) xs" "n + in_bucket b xs < 2 ^ 16"
    using below_bucket_Suc [of b xs] below_bucket_bounds(3) [of "Suc b" xs] len by (simp_all add: n_def)
  have hw: "(ucast h :: u32) = of_nat (in_bucket b xs)" by (simp add: h [symmetric])
  have unats: "unat (of_nat n + ucast h :: u32) = below_bucket (Suc b) xs" "unat (of_nat t :: u32) = t"
    using nh assms(2) len by (simp_all add: hw unat_of_nat flip: of_nat_add)
  show ?case
  proof (cases "t < below_bucket (Suc b) xs")
    case True
    then have pos: "h \<noteq> 0" "0 < in_bucket b xs" using less.prems(2) nh(1) h by (auto simp: n_def)
    have "unat (8 * (of_nat t - of_nat n) div ucast h :: u32) = 8 * (t - n) div in_bucket b xs"
    proof -
      have "(of_nat t - of_nat n :: u32) = of_nat (t - n)" using less.prems(2) by (simp add: n_def)
      moreover have "8 * (t - n) < 2 ^ 32" using assms(2) len by simp
      ultimately have "unat (8 * (of_nat t - of_nat n) :: u32) = 8 * (t - n)"
        by (simp add: unat_of_nat unat_word_ariths take_bit_nat_eq_self)
      then show ?thesis by (simp add: unat_div_distrib h)
    qed
    then have "(8 * (of_nat t - of_nat n) div ucast h :: u32) = of_nat (8 * (t - n) div in_bucket b xs)"
      by (metis of_nat_unat_id)
    moreover have "of_nat n + ucast h > (of_nat t :: u32)" using True unats by (simp add: word_less_nat_alt)
    ultimately have "pct_loop (recorded xs) (of_nat t) b (of_nat n) = Some (of_nat (8 * b + 8 * (t - n) div in_bucket b xs))"
      using b pos by (subst pct_loop.simps) (simp add: HIST_BUCKETS_def h_def)
    with True b less.prems(2) show ?thesis by (auto simp: n_def)
  next
    case False
    then have "\<not> of_nat n + ucast h > (of_nat t :: u32)" using unats by (simp add: word_less_nat_alt)
    then have "pct_loop (recorded xs) (of_nat t) b (of_nat n) = pct_loop (recorded xs) (of_nat t) (Suc b) (of_nat n + ucast h)"
      using b by (subst pct_loop.simps) (simp add: HIST_BUCKETS_def h_def)
    moreover have "(of_nat n + ucast h :: u32) = of_nat (below_bucket (Suc b) xs)" by (simp add: hw nh(1) [symmetric])
    ultimately show ?thesis using less.hyps [of "Suc b"] b False by (simp add: n_def)
  qed
qed

lemma same_bucket_near: "8 * b \<le> n \<Longrightarrow> n < 8 * Suc b \<Longrightarrow> 8 * b \<le> m \<Longrightarrow> m < 8 * Suc b \<Longrightarrow> \<bar>int n - int m\<bar> < 8"
  by (auto simp: abs_less_iff)

section \<open>Properties\<close>

text \<open>A result describes the readings it was made from, as long as there are less than \<open>2\<^sup>1\<^sup>6\<close> of them,
  all below \<open>2\<^sup>1\<^sup>9\<close> cycles: their number, their sum, the smallest and the largest, and in each bucket the
  number of readings in its range of 8 cycles, with the last one collecting all above.\<close>

theorem bench_result_describes:
  assumes "length xs < 2 ^ 16" "\<forall>x \<in> set xs. unat x < 2 ^ 19" "r = foldl update_result bench_result_zero xs"
  shows "unat (bench_n r) = length xs \<and> unat (bench_sum r) = sum_list (map unat xs) mod 2 ^ 32 \<and>
     (xs \<noteq> [] \<longrightarrow> bench_min r = Min (set xs) \<and> bench_max r = Max (set xs)) \<and>
     (\<forall>b < 255. unat (hist r ! b) = length (filter (\<lambda>x. unat x div 8 = b) xs)) \<and>
     unat (hist r ! 255) = length (filter (\<lambda>x. unat x div 8 \<ge> 255) xs)"
proof -
  have run: "short_run xs" and r: "r = recorded xs" using assms by (auto simp: short_run_def recorded_def)
  have "bucket_of x = b \<longleftrightarrow> unat x div 8 = b" if "b < 255" for x b using that by (auto simp: bucket_of_def)
  moreover have "bucket_of x = 255 \<longleftrightarrow> unat x div 8 \<ge> 255" for x by (auto simp: bucket_of_def)
  ultimately show ?thesis
    using recorded_hist [OF run] recorded_extremes [OF run] by (auto simp: r in_bucket_def)
qed

theorem bench_result_describes_witness:
  "unat (hist (foldl update_result bench_result_zero [100, 5000, 103]) ! 12) = 2"
  using bench_result_describes [OF _ _ refl, of "[100, 5000, 103]"] by simp

text \<open>C40: The percentile estimated from the histogram differs by less than 8 cycles from the exact one, the
  reading at that position of the sorted readings, and lies between the smallest and the largest reading;
  no division by zero happens. This is for fewer than \<open>2^16\<close> readings, each below 2040 cycles: a larger one
  falls in the bucket for the overflow.\<close>

theorem calc_percentile_accurate:
  assumes "length xs < 2 ^ 16" "\<forall>x \<in> set xs. unat x < 2040" "t < length xs"
  shows "\<exists>v. calc_percentile (foldl update_result bench_result_zero xs) (of_nat t) = Some v \<and>
     \<bar>int (unat v) - int (sort (map unat xs) ! t)\<bar> < 8 \<and> Min (set xs) \<le> v \<and> v \<le> Max (set xs)"
proof -
  have run: "short_run xs" and ne: "xs \<noteq> []" using assms by (auto simp: short_run_def)
  obtain b h where b: "b < 256" "below_bucket b xs \<le> t" "t < below_bucket (Suc b) xs" "h = in_bucket b xs"
    "pct_loop (recorded xs) (of_nat t) 0 0 = Some (of_nat (8 * b + 8 * (t - below_bucket b xs) div h))"
    using pct_loop_finds [OF run assms(3), of 0] by (auto simp: below_bucket_bounds(1))
  define x where "x = sort (map unat xs) ! t"
  have cnt: "length (filter (\<lambda>y. y < c) (sort (map unat xs))) = length (filter (\<lambda>x. unat x < c) xs)" for c
    by (simp add: filter_sort filter_map comp_def)
  have t: "t < length (sort (map unat xs))" using assms(3) by simp
  have "x \<in> unat ` set xs" using nth_mem [OF t] by (simp add: x_def)
  then have small: "x < 2040" using assms(2) by auto
  have lo: "8 * b \<le> x"
    unfolding x_def by (rule sorted_nth_ge [OF _ t]) (use b(2) below_bucket_less [OF b(1)] in \<open>simp_all add: cnt\<close>)
  then have "b < 255" using small by simp
  have hi: "x < 8 * Suc b"
    unfolding x_def by (rule sorted_nth_less [OF _ t]) (use b(3) below_bucket_less [of "Suc b"] \<open>b < 255\<close> in \<open>simp_all add: cnt\<close>)
  have "t - below_bucket b xs < h" using b(2-4) below_bucket_Suc [of b xs] by simp
  then have "8 * (t - below_bucket b xs) div h < 8" by (simp add: div_less_iff_less_mult)
  define k where "k = 8 * b + 8 * (t - below_bucket b xs) div h"
  define v0 :: u32 where "v0 = of_nat k"
  have k: "8 * b \<le> k" "k < 8 * Suc b" using \<open>8 * (t - below_bucket b xs) div h < 8\<close> by (simp_all add: k_def)
  then have "unat v0 = k" using \<open>b < 255\<close> by (simp add: v0_def unat_of_nat take_bit_nat_eq_self)
  with k have v0: "8 * b \<le> unat v0" "unat v0 < 8 * Suc b" by simp_all
  have ext: "unat (Min (set xs)) \<le> x" "x \<le> unat (Max (set xs))" "Min (set xs) \<le> Max (set xs)"
    using \<open>x \<in> unat ` set xs\<close> ne by (auto simp: word_le_nat_alt [symmetric])
  define v where "v = (let w = (if v0 < Min (set xs) then Min (set xs) else v0) in if w > Max (set xs) then Max (set xs) else w)"
  have "calc_percentile (recorded xs) (of_nat t) = Some v"
    using b(5) [folded k_def] recorded_extremes [OF run ne] by (simp add: calc_percentile_def v_def v0_def Let_def)
  moreover have "Min (set xs) \<le> v" "v \<le> Max (set xs)" using ext(3) by (auto simp: v_def Let_def)
  moreover have "8 * b \<le> unat v \<and> unat v < 8 * Suc b"
    using v0 ext lo hi by (auto simp: v_def Let_def word_less_nat_alt split: if_splits)
  moreover from this have "\<bar>int (unat v) - int x\<bar> < 8" using lo hi same_bucket_near [of b "unat v" x] by simp
  ultimately show ?thesis by (auto simp: recorded_def x_def)
qed

theorem calc_percentile_accurate_witness:
  "\<exists>v. calc_percentile (foldl update_result bench_result_zero [700, 100, 300]) 1 = Some v \<and> \<bar>int (unat v) - 300\<bar> < 8"
  using calc_percentile_accurate [of "[700, 100, 300]" 1] by auto

text \<open>A reading of \<open>2\<^sup>1\<^sup>9\<close> cycles or more is put in the bucket of a short one: the number of the bucket is
  cut to 16 bits before it is compared with the number of buckets.\<close>

theorem bench_bucket_truncated:
  "hist (update_result bench_result_zero 0x80000) ! 0 = 1 \<and> hist_overflow (update_result bench_result_zero 0x80000) = 0"
  by (simp add: update_result_def bench_result_zero_def HIST_BUCKETS_def Let_def)

end
