(* ===== verification/Cli.thy ===== *)
theory Cli
  imports W5500 Dhcp_Lease Bench
begin

unbundle bit_operations_syntax

text \<open>
  The command line (\<^verbatim>\<open>source/kernel/cli.c\<close>) in a build without benchmarks: editing of the input line,
  the table of commands and the commands. The line is in memory, at \<open>cli_buffer E\<close>; the position in it is
  a component of the state of the functions. The record \<open>cli_env\<close> collects the addresses chosen by the
  linker and the compiler that the functions use.
\<close>

record cli_env =
  cli_buffer :: ptr
  vma_data_start :: u32
  vma_data_end :: u32
  bss_start :: u32
  bss_end :: u32
  link_status :: ptr
  link_reply :: ptr

definition CLI_BUFFER_SIZE :: nat where "CLI_BUFFER_SIZE = 128"
definition SRAM_START :: u32 where "SRAM_START = 0x20000000"
definition SRAM_END :: u32 where "SRAM_END = 0x20020000"

abbreviation newline :: "u8 list" where "newline \<equiv> [13, 10]"

text \<open>The address of a literal given as an argument.\<close>

definition lit :: "'d platform \<Rightarrow> string \<Rightarrow> u32" where
  "lit P txt = literal P (chars txt)"

section \<open>Commands\<close>

datatype cli_command = Help | Ps | Uptime | Mem | Heap_Usage | Mutexes | Benchmarks | Link | Spi_Off | Lease_Table | Reboot

definition commands :: "(string \<times> string \<times> cli_command) list" where
  "commands =
    [(''help'', ''Print available commands'', Help),
     (''ps'', ''Show info about running processes'', Ps),
     (''uptime'', ''Print system uptime'', Uptime),
     (''mem'', ''Print memory usage'', Mem),
     (''heap'', ''Print heap usage'', Heap_Usage),
     (''mutex'', ''Print mutex owners/waiters'', Mutexes),
     (''bench'', ''Print the benchmarks'', Benchmarks),
     (''link'', ''Print w5500 link status'', Link),
     (''spioff'', ''Turns spi off (used for testing)'', Spi_Off),
     (''leasetable'', ''Print DHCP lease table'', Lease_Table),
     (''reboot'', ''Reboot the MCU'', Reboot)]"

fun state_name :: "task_state_t \<Rightarrow> string" where
  "state_name TASK_READY = ''READY''"
| "state_name TASK_RUNNING = ''RUNNING''"
| "state_name TASK_BLOCKED = ''BLOCKED''"
| "state_name TASK_SLEEPING = ''SLEEPING''"
| "state_name TASK_FINISHED = ''FINISHED''"
| "state_name _ = ''UNKNOWN''"

fun ps_loop :: "'d platform \<Rightarrow> (ptr \<Rightarrow> 'd machine driver_t) \<Rightarrow> nat list \<Rightarrow> 'd machine \<Rightarrow> 'd machine option" where
  "ps_loop P D [] s = Some s"
| "ps_loop P D (i # is) s = do {
     let task = get_task (lay P) (int i);
     let t = tcbs (kern s) task;
     s \<leftarrow> (if tcb_state t = TASK_UNUSED then Some s
          else printk P D (chars ''%2u %10s %10s %3u %3u %8x %s'' @ newline)
                 [of_nat i, tcb_name t, lit P (state_name (tcb_state t)), ucast (base_priority t), ucast (effective_priority t),
                  tcb_sp t, lit P (if task = current_task (kern s) then ''*'' else '''')] s);
     ps_loop P D is s
   }"

definition cli_cmd_ps :: "'d platform \<Rightarrow> (ptr \<Rightarrow> 'd machine driver_t) \<Rightarrow> 'd machine \<Rightarrow> 'd machine option" where
  "cli_cmd_ps P D s = do {
     s \<leftarrow> printk P D (chars ''PID'' @ [9] @ chars ''NAME'' @ [9] @ chars ''STATE'' @ [9] @ chars ''PRI EPRI'' @ [9] @ chars ''SP'' @ newline) [] s;
     s \<leftarrow> printk P D (chars ''--------------------------------------'' @ newline) [] s;
     ps_loop P D [0..<N_TASKS] s
   }"

fun help_loop ::
  "'d platform \<Rightarrow> (ptr \<Rightarrow> 'd machine driver_t) \<Rightarrow> (string \<times> string \<times> cli_command) list \<Rightarrow> 'd machine \<Rightarrow> 'd machine option" where
  "help_loop P D [] s = Some s"
| "help_loop P D ((name, description, f) # cs) s = do {
     s \<leftarrow> printk P D (chars ''%s > %s'' @ newline) [lit P name, lit P description] s;
     help_loop P D cs s
   }"

definition cli_cmd_help :: "'d platform \<Rightarrow> (ptr \<Rightarrow> 'd machine driver_t) \<Rightarrow> 'd machine \<Rightarrow> 'd machine option" where
  "cli_cmd_help P D s = help_loop P D commands s"

definition cli_cmd_uptime :: "'d platform \<Rightarrow> (ptr \<Rightarrow> 'd machine driver_t) \<Rightarrow> 'd machine \<Rightarrow> 'd machine option" where
  "cli_cmd_uptime P D s = printk P D (chars ''Uptime: %u ms'' @ newline) [system_ticks (kern s)] s"

definition cli_cmd_mem :: "'d platform \<Rightarrow> (ptr \<Rightarrow> 'd machine driver_t) \<Rightarrow> cli_env \<Rightarrow> 'd machine \<Rightarrow> 'd machine option" where
  "cli_cmd_mem P D E s = do {
     let data_size = vma_data_end E - vma_data_start E;
     let bss_size = bss_end E - bss_start E;
     let heap_size = heap_end P - heap_start P;
     let static_used = data_size + bss_size;
     s \<leftarrow> printk P D (chars ''Memory'' @ newline) [] s;
     s \<leftarrow> printk P D (chars ''----------------------------'' @ newline) [] s;
     s \<leftarrow> printk P D (chars ''SRAM    : %u KB'' @ newline) [(SRAM_END - SRAM_START) div 1024] s;
     s \<leftarrow> printk P D (chars ''  .data   : %u bytes'' @ newline) [data_size] s;
     s \<leftarrow> printk P D (chars ''  .bss    : %u bytes'' @ newline) [bss_size] s;
     s \<leftarrow> printk P D (chars ''  static  : %u bytes'' @ newline) [static_used] s;
     s \<leftarrow> printk P D (chars ''heap    : %u KB'' @ newline) [heap_size div 1024] s;
     s \<leftarrow> printk P D (chars ''  start   : %x'' @ newline) [heap_start P] s;
     printk P D (chars ''  end     : %x'' @ newline) [heap_end P] s
   }"

definition cli_cmd_heap :: "'d platform \<Rightarrow> (ptr \<Rightarrow> 'd machine driver_t) \<Rightarrow> 'd machine \<Rightarrow> 'd machine option" where
  "cli_cmd_heap P D s = do {
     let heap_size = heap_end P - heap_start P;
     heap_free \<leftarrow> heap_free_size (kheap s);
     s \<leftarrow> printk P D (chars ''Heap'' @ newline) [] s;
     s \<leftarrow> printk P D (chars ''----------------------------'' @ newline) [] s;
     s \<leftarrow> printk P D (chars ''size    : %u KB'' @ newline) [heap_size div 1024] s;
     s \<leftarrow> printk P D (chars ''used    : %u'' @ newline) [heap_size - heap_free] s;
     s \<leftarrow> printk P D (chars ''free    : %u'' @ newline) [heap_free] s;
     s \<leftarrow> printk P D (chars ''start   : %x'' @ newline) [heap_start P] s;
     printk P D (chars ''end     : %x'' @ newline) [heap_end P] s
   }"

partial_function (option) owned_loop ::
  "'d platform \<Rightarrow> (ptr \<Rightarrow> 'd machine driver_t) \<Rightarrow> nat \<Rightarrow> ptr \<Rightarrow> 'd machine \<Rightarrow> 'd machine option" where
  "owned_loop P D i tmp_m s =
     (if tmp_m \<noteq> 0
      then do {
        waiting \<leftarrow> mutex_get_waiting tmp_m (kern s);
        s \<leftarrow> printk P D (chars ''%d'' @ [9] @ chars ''%d'' @ [9] @ chars ''%d'' @ newline) [0, of_nat i, waiting] s;
        owned_loop P D i (next_owned (mutexes (kern s) tmp_m)) s
      }
      else Some s)"

fun mutex_loop :: "'d platform \<Rightarrow> (ptr \<Rightarrow> 'd machine driver_t) \<Rightarrow> nat list \<Rightarrow> 'd machine \<Rightarrow> 'd machine option" where
  "mutex_loop P D [] s = Some s"
| "mutex_loop P D (i # is) s = do {
     let t = tcbs (kern s) (get_task (lay P) (int i));
     s \<leftarrow> (if tcb_state t = TASK_UNUSED then Some s else owned_loop P D i (owned_mutexes t) s);
     mutex_loop P D is s
   }"

definition cli_cmd_mutex :: "'d platform \<Rightarrow> (ptr \<Rightarrow> 'd machine driver_t) \<Rightarrow> 'd machine \<Rightarrow> 'd machine option" where
  "cli_cmd_mutex P D s = do {
     s \<leftarrow> printk P D (chars ''Mutexes'' @ newline) [] s;
     s \<leftarrow> printk P D (chars ''----------------------------'' @ newline) [] s;
     s \<leftarrow> printk P D (chars ''ID'' @ [9] @ chars ''OWNER'' @ [9] @ chars ''WAITING'' @ newline) [] s;
     mutex_loop P D [0..<N_TASKS] s
   }"

definition cli_cmd_link :: "'d platform \<Rightarrow> (ptr \<Rightarrow> 'd machine driver_t) \<Rightarrow> cli_env \<Rightarrow> 'd machine \<Rightarrow> 'd machine option" where
  "cli_cmd_link P D E s = do {
     let s = s\<lparr>results := (results s)(link_status E := - 1), replies := (replies s)(link_reply E := zero_reply)\<rparr>;
     s \<leftarrow> sys_net_link P (link_status E) (link_reply E) s;
     printk P D (chars ''Link status: %d'' @ newline) [results s (link_status E)] s
   }"

definition cli_cmd_spioff :: "'d platform \<Rightarrow> (ptr \<Rightarrow> 'd machine driver_t) \<Rightarrow> 'd machine \<Rightarrow> 'd machine option" where
  "cli_cmd_spioff P D s = do {
     let s = reg_and P SPI1 (NOT (push_bit 6 1)) s;
     printk P D (chars ''Spi turned off'' @ newline) [] s
   }"

fun key_loop :: "'d platform \<Rightarrow> (ptr \<Rightarrow> 'd machine driver_t) \<Rightarrow> u8 list \<Rightarrow> nat list \<Rightarrow> 'd machine \<Rightarrow> 'd machine option" where
  "key_loop P D key [] s = Some s"
| "key_loop P D key (j # js) s = do {
     b \<leftarrow> fetch key j;
     s \<leftarrow> printk P D (chars ''%x'') [ucast b] s;
     key_loop P D key js s
   }"

definition print_slot ::
  "'d platform \<Rightarrow> (ptr \<Rightarrow> 'd machine driver_t) \<Rightarrow> u8 list \<Rightarrow> nat \<Rightarrow> lease_slot_t \<Rightarrow> 'd machine \<Rightarrow> 'd machine option" where
  "print_slot P D addr i sl s = do {
     s \<leftarrow> (if slot_state sl = LEASE_ST_OFFERED then printk P D (chars ''OFFERED'' @ [9]) [] s else Some s);
     s \<leftarrow> (if slot_state sl = LEASE_ST_BOUND then printk P D (chars ''BOUND'' @ [9]) [] s else Some s);
     s \<leftarrow> (if slot_state sl = LEASE_ST_DECLINED then printk P D (chars ''DECLINED'' @ [9]) [] s else Some s);
     a0 \<leftarrow> fetch addr 0;
     a1 \<leftarrow> fetch addr 1;
     a2 \<leftarrow> fetch addr 2;
     a3 \<leftarrow> fetch addr 3;
     s \<leftarrow> printk P D (chars ''%d.%d.%d.%d'' @ [9]) [ucast a0, ucast a1, ucast a2, ucast a3 + of_nat i] s;
     s \<leftarrow> key_loop P D (slot_key sl) [0..<unat (slot_key_len sl)] s;
     printk P D ([9] @ chars ''%d'' @ newline) [expires_at sl] s
   }"

fun lease_loop ::
  "'d platform \<Rightarrow> (ptr \<Rightarrow> 'd machine driver_t) \<Rightarrow> lease_table_t \<Rightarrow> nat list \<Rightarrow> 'd machine \<Rightarrow> 'd machine option" where
  "lease_loop P D table [] s = Some s"
| "lease_loop P D table (i # is) s = do {
     sl \<leftarrow> fetch (slots table) i;
     s \<leftarrow> (if slot_state sl = LEASE_ST_FREE then Some s else print_slot P D (start_addr table) i sl s);
     lease_loop P D table is s
   }"

text \<open>\<open>None\<close>: the table has no slots yet.\<close>

definition cli_cmd_leasetable ::
  "'d platform \<Rightarrow> (ptr \<Rightarrow> 'd machine driver_t) \<Rightarrow> lease_table_t option \<Rightarrow> 'd machine \<Rightarrow> 'd machine option" where
  "cli_cmd_leasetable P D table s = do {
     s \<leftarrow> printk P D (chars ''DHCP lease table: '' @ newline) [] s;
     case table of
       None \<Rightarrow> printk P D (chars ''------ NOT INITIALIZED ------'' @ newline) [] s
     | Some t \<Rightarrow>
         if table_size t = 0 then printk P D (chars ''------ NOT INITIALIZED ------'' @ newline) [] s
         else do {
           s \<leftarrow> printk P D (chars ''State'' @ [9] @ chars ''Address'' @ [9] @ chars ''Key'' @ [9] @ chars ''Expiry'' @ newline) [] s;
           s \<leftarrow> printk P D (chars ''-------------------------'' @ newline) [] s;
           lease_loop P D t [0..<unat (table_size t)] s
         }
   }"

text \<open>The reset is requested, and the function does not return.\<close>

definition reboot_request :: "'d platform \<Rightarrow> (ptr \<Rightarrow> 'd machine driver_t) \<Rightarrow> 'd machine \<Rightarrow> 'd machine option" where
  "reboot_request P D s = do {
     s \<leftarrow> printk P D (chars ''Rebooting ...'') [] s;
     Some (reg_write P (SCB + 0xC) (push_bit 16 0x5FA OR push_bit 2 1) s)
   }"

definition cli_cmd_reboot :: "'d platform \<Rightarrow> (ptr \<Rightarrow> 'd machine driver_t) \<Rightarrow> 'd machine \<Rightarrow> 'd machine option" where
  "cli_cmd_reboot P D s = do { s \<leftarrow> reboot_request P D s; None }"

definition cli_cmd_bench :: "'d platform \<Rightarrow> (ptr \<Rightarrow> 'd machine driver_t) \<Rightarrow> 'd machine \<Rightarrow> 'd machine option" where
  "cli_cmd_bench P D s =
     printk P D (chars ''Not a bench build. Set BENCH=1 and run from build-bench/ to use this command'' @ newline) [] s"

text \<open>In a build with benchmarks: one line of the table of results.\<close>

definition print_bench_result ::
  "'d platform \<Rightarrow> (ptr \<Rightarrow> 'd machine driver_t) \<Rightarrow> ptr \<Rightarrow> bench_result_t \<Rightarrow> 'd machine \<Rightarrow> 'd machine option" where
  "print_bench_result P D name r s = do {
     p50 \<leftarrow> (if bench_n r \<noteq> 0 then calc_percentile r (bench_n r div 2) else Some 0);
     p99 \<leftarrow> (if bench_n r \<noteq> 0 then calc_percentile r (bench_n r * 99 div 100) else Some 0);
     printk P D (chars ''%20s %5d %5d %5d %5d %d'' @ newline)
       [name, bench_n r, p50, p99, if bench_n r \<noteq> 0 then bench_min r else 0, bench_max r] s
   }"

definition BENCH_N :: u32 where "BENCH_N = 20000"
definition WARMUP :: u32 where "WARMUP = 1000"

text \<open>
  The command in a build with benchmarks. Context switches record the results while the command sleeps:
  \<open>seen\<close> are the states of the benchmarks after each sleep, and the command runs for at most as many.
\<close>

fun bench_wait ::
  "'d platform \<Rightarrow> u32 \<Rightarrow> bench_state list \<Rightarrow> bench_state \<Rightarrow> 'd machine \<Rightarrow> (bench_state list \<times> bench_state \<times> 'd machine) option" where
  "bench_wait P limit [] b s =
     (if bench_n (pendsv_result b) + bench_n (pendsv_fp_result b) < limit then None else Some ([], b, s))"
| "bench_wait P limit (b' # seen) b s =
     (if bench_n (pendsv_result b) + bench_n (pendsv_fp_result b) < limit
      then do { s \<leftarrow> sys_sleep P 10 s; bench_wait P limit seen b' s }
      else Some (b' # seen, b, s))"

definition cli_cmd_bench_build ::
  "'d platform \<Rightarrow> (ptr \<Rightarrow> 'd machine driver_t) \<Rightarrow> workload_fns \<Rightarrow> bench_state list \<Rightarrow> bench_state \<Rightarrow> 'd machine \<Rightarrow>
   (bench_state \<times> 'd machine) option" where
  "cli_cmd_bench_build P D W seen b s = do {
     let b = bench_reset b;
     (a, s) \<leftarrow> start_workload P W s;
     (seen, b, s) \<leftarrow> bench_wait P WARMUP seen b s;
     let b = bench_reset b;
     (seen, b, s) \<leftarrow> bench_wait P BENCH_N seen b s;
     let b = b\<lparr>bench_stop_flag := True\<rparr>;
     (syscall_result, s) \<leftarrow> bench_syscall_roundtrip P s;
     s \<leftarrow> printk P D (chars ''----------------Benchmarks----------------'' @ newline) [] s;
     s \<leftarrow> printk P D (chars ''N=%d'' @ newline) [BENCH_N] s;
     s \<leftarrow> printk P D (chars ''Name          Count     p50     p99      Min     Max'' @ newline) [] s;
     s \<leftarrow> print_bench_result P D (lit P ''Preemption'') (preemption_result b) s;
     s \<leftarrow> print_bench_result P D (lit P ''Preemption FP'') (preemption_fp_result b) s;
     s \<leftarrow> print_bench_result P D (lit P ''Pendsv'') (pendsv_result b) s;
     s \<leftarrow> print_bench_result P D (lit P ''Pendsv FP'') (pendsv_fp_result b) s;
     s \<leftarrow> print_bench_result P D (lit P ''Syscall roundtrip'') syscall_result s;
     s \<leftarrow> print_bench_result P D (lit P ''IRQ masked'') (irq_result b) s;
     s \<leftarrow> (if bench_n (irq_result b) \<noteq> 0
          then printk P D (chars ''Worst interrupts-masked window %d cycles in %x'' @ newline) [bench_max (irq_result b), bench_irq_site b] s
          else printk P D (chars ''Worst interrupts-masked window not measured'' @ newline) [] s);
     Some (b, s)
   }"

definition run_command ::
  "'d platform \<Rightarrow> (ptr \<Rightarrow> 'd machine driver_t) \<Rightarrow> cli_env \<Rightarrow> lease_table_t option \<Rightarrow> cli_command \<Rightarrow> 'd machine \<Rightarrow> 'd machine option" where
  "run_command P D E table c = (case c of
      Help \<Rightarrow> cli_cmd_help P D | Ps \<Rightarrow> cli_cmd_ps P D | Uptime \<Rightarrow> cli_cmd_uptime P D | Mem \<Rightarrow> cli_cmd_mem P D E
    | Heap_Usage \<Rightarrow> cli_cmd_heap P D | Mutexes \<Rightarrow> cli_cmd_mutex P D | Benchmarks \<Rightarrow> cli_cmd_bench P D | Link \<Rightarrow> cli_cmd_link P D E
    | Spi_Off \<Rightarrow> cli_cmd_spioff P D | Lease_Table \<Rightarrow> cli_cmd_leasetable P D table | Reboot \<Rightarrow> cli_cmd_reboot P D)"

section \<open>The line\<close>

fun execute_loop ::
  "'d platform \<Rightarrow> (ptr \<Rightarrow> 'd machine driver_t) \<Rightarrow> cli_env \<Rightarrow> lease_table_t option \<Rightarrow> (string \<times> string \<times> cli_command) list \<Rightarrow>
   ptr \<Rightarrow> 'd machine \<Rightarrow> 'd machine option" where
  "execute_loop P D E table [] ln s = printk P D (chars ''unknown command %s'' @ newline) [ln] s"
| "execute_loop P D E table ((name, description, f) # cs) ln s = do {
     r \<leftarrow> strcmp (umem s) (lit P name) ln;
     if r = 0 then run_command P D E table f s else execute_loop P D E table cs ln s
   }"

definition cli_execute ::
  "'d platform \<Rightarrow> (ptr \<Rightarrow> 'd machine driver_t) \<Rightarrow> cli_env \<Rightarrow> lease_table_t option \<Rightarrow> ptr \<Rightarrow> 'd machine \<Rightarrow> 'd machine option" where
  "cli_execute P D E table ln s =
     (if umem s ln = 0 then Some s else execute_loop P D E table commands ln s)"

definition put_char :: "cli_env \<Rightarrow> u16 \<Rightarrow> u8 \<Rightarrow> 'd machine \<Rightarrow> 'd machine" where
  "put_char E pos c s = s\<lparr>umem := (umem s)(cli_buffer E + ucast pos := c)\<rparr>"

definition cli_input_char ::
  "'d platform \<Rightarrow> (ptr \<Rightarrow> 'd machine driver_t) \<Rightarrow> cli_env \<Rightarrow> lease_table_t option \<Rightarrow> u8 \<Rightarrow> u16 \<times> 'd machine \<Rightarrow>
   (int \<times> u16 \<times> 'd machine) option" where
  "cli_input_char P D E table c = (\<lambda>(cli_pos, s).
     if c = 13 \<or> c = 10
     then do {
       let s = put_char E cli_pos 0 s;
       s \<leftarrow> printk P D newline [] s;
       s \<leftarrow> cli_execute P D E table (cli_buffer E) s;
       Some (1, 0, s)
     }
     else if c = 8 \<or> c = 127
     then if cli_pos > 0
          then do { s \<leftarrow> printk P D [8, 32, 8] [] s; Some (0, cli_pos - 1, s) }
          else Some (0, cli_pos, s)
     else if cli_pos < of_nat CLI_BUFFER_SIZE - 1
     then do {
       let s = put_char E cli_pos c s;
       s \<leftarrow> console_write D [c] (sinks s) s;
       Some (0, cli_pos + 1, s)
     }
     else Some (0, cli_pos, s))"

text \<open>\<open>old\<close>: what the variable for the character holds when nothing is read.\<close>

definition cli_round ::
  "'d platform \<Rightarrow> (ptr \<Rightarrow> 'd machine driver_t) \<Rightarrow> cli_env \<Rightarrow> lease_table_t option \<Rightarrow> u8 \<Rightarrow> u16 \<times> 'd machine \<Rightarrow> (u16 \<times> 'd machine) option" where
  "cli_round P D E table old = (\<lambda>(cli_pos, s). do {
     (n, cs, s) \<leftarrow> console_read_blocking D [old] 1 (sinks s) s;
     c \<leftarrow> fetch cs 0;
     (r, cli_pos, s) \<leftarrow> cli_input_char P D E table c (cli_pos, s);
     s \<leftarrow> (if r = 1 then printk P D (chars ''> '') [] s else Some s);
     Some (cli_pos, s)
   })"

fun cli_rounds ::
  "'d platform \<Rightarrow> (ptr \<Rightarrow> 'd machine driver_t) \<Rightarrow> cli_env \<Rightarrow> lease_table_t option \<Rightarrow> u8 list \<Rightarrow> u16 \<times> 'd machine \<Rightarrow> (u16 \<times> 'd machine) option" where
  "cli_rounds P D E table [] x = Some x"
| "cli_rounds P D E table (old # olds) x = Option.bind (cli_round P D E table old x) (cli_rounds P D E table olds)"

text \<open>The task, for as many rounds as \<open>olds\<close> has elements: the loop has no end.\<close>

definition cli_task ::
  "'d platform \<Rightarrow> (ptr \<Rightarrow> 'd machine driver_t) \<Rightarrow> cli_env \<Rightarrow> lease_table_t option \<Rightarrow> u8 list \<Rightarrow> u16 \<times> 'd machine \<Rightarrow> (u16 \<times> 'd machine) option" where
  "cli_task P D E table olds = (\<lambda>(cli_pos, s). do {
     s \<leftarrow> printk P D (newline @ chars ''CLI'' @ newline) [] s;
     s \<leftarrow> printk P D (chars ''> '') [] s;
     cli_rounds P D E table olds (cli_pos, s)
   })"

section \<open>The line a user sees\<close>

text \<open>The reference: the line and the echo, for a character that does not end the line.\<close>

definition erases :: "u8 \<Rightarrow> bool" where
  "erases c \<longleftrightarrow> c = 8 \<or> c = 127"

definition edit :: "u8 \<Rightarrow> u8 list \<Rightarrow> u8 list" where
  "edit c ln = (if erases c then butlast ln else if length ln < 127 then ln @ [c] else ln)"

definition echo :: "u8 \<Rightarrow> u8 list \<Rightarrow> u8 list" where
  "echo c ln = (if erases c then (if ln = [] then [] else [8, 32, 8]) else if length ln < 127 then [c] else [])"

fun edited :: "u8 list \<Rightarrow> u8 list \<Rightarrow> u8 list" where
  "edited [] ln = ln"
| "edited (c # cs) ln = edited cs (edit c ln)"

fun echoed :: "u8 list \<Rightarrow> u8 list \<Rightarrow> u8 list" where
  "echoed [] ln = []"
| "echoed (c # cs) ln = echo c ln @ echoed cs (edit c ln)"

definition find_command :: "u8 list \<Rightarrow> cli_command option" where
  "find_command ln = map_of (map (\<lambda>(name, description, f). (chars name, f)) commands) ln"

text \<open>The position and the memory hold a line.\<close>

definition has_line :: "cli_env \<Rightarrow> u8 list \<Rightarrow> u16 \<Rightarrow> 'd machine \<Rightarrow> bool" where
  "has_line E ln pos s \<longleftrightarrow> unat pos = length ln \<and> length ln < CLI_BUFFER_SIZE \<and> bytes_at (umem s) (cli_buffer E) (length ln) = ln"

text \<open>The literals that the functions above the commands use.\<close>

definition cli_literals :: "u8 list list" where
  "cli_literals = [newline, [8, 32, 8], chars ''> '', chars ''unknown command %s'' @ newline] @ map (\<lambda>(name, description, f). chars name) commands"

text \<open>
  A terminal: in states with \<open>K\<close> the console sends what is written (\<open>sent\<close> is all that was sent so far)
  and returns the next of the characters \<open>typed\<close>; neither changes the memory of the line.
\<close>

locale cli_terminal =
  fixes P :: "'d platform" and D :: "ptr \<Rightarrow> 'd machine driver_t" and E :: cli_env
    and K :: "'d machine \<Rightarrow> bool" and sent typed :: "'d machine \<Rightarrow> u8 list"
  assumes sends: "K s \<Longrightarrow> \<exists>s'. console_write D buf (sinks s) s = Some s' \<and> K s' \<and> umem s' = umem s \<and>
      sent s' = sent s @ buf \<and> typed s' = typed s"
    and receives: "K s \<Longrightarrow> typed s = c # cs \<Longrightarrow> \<exists>n s'. console_read_blocking D [old] 1 (sinks s) s = Some (n, [c], s') \<and>
      K s' \<and> umem s' = umem s \<and> sent s' = sent s \<and> typed s' = cs"
    and store: "K s \<Longrightarrow> a \<in> block (cli_buffer E) CLI_BUFFER_SIZE \<Longrightarrow> K (s\<lparr>umem := (umem s)(a := b)\<rparr>)"
    and kept: "sent (s\<lparr>umem := m\<rparr>) = sent s" "typed (s\<lparr>umem := m\<rparr>) = typed s"
    and lits: "K s \<Longrightarrow> l \<in> set cli_literals \<Longrightarrow> is_string (umem s) (literal P l) l"
    and arrays: "length (junk P n) = n" and buffer: "cli_buffer E \<noteq> 0"
begin

lemma says:
  assumes "K s" "l \<in> set cli_literals" "render str l ap = Some t" "\<And>p xs. str p = Some xs \<Longrightarrow> is_string (umem s) p xs" "length t < 256"
  shows "printk P D l ap s = console_write D t (sinks s) s"
proof -
  have "kprintf D (junk P 10) (junk P KPRINTF_BUF_SIZE) (literal P l) ap s =
      map_option (Pair (int (length t))) (console_write D (take 255 t) (sinks s) s)"
    by (rule kprintf_output [OF lits [OF assms(1,2)] assms(4) assms(3)]) (use assms(5) arrays in auto)
  with assms(5) show ?thesis by (simp add: printk_def option.map_comp comp_def option.map_ident)
qed

lemma stores:
  assumes "K s" "unat pos < CLI_BUFFER_SIZE"
  shows "K (put_char E pos c s)" "sent (put_char E pos c s) = sent s" "typed (put_char E pos c s) = typed s"
    "a \<notin> block (cli_buffer E) CLI_BUFFER_SIZE \<Longrightarrow> umem (put_char E pos c s) a = umem s a"
proof -
  have b: "cli_buffer E + ucast pos \<in> block (cli_buffer E) CLI_BUFFER_SIZE"
    using assms(2) by (auto simp: block_def intro!: image_eqI [of _ _ "unat pos"])
  show "K (put_char E pos c s)" "sent (put_char E pos c s) = sent s" "typed (put_char E pos c s) = typed s"
    using store [OF assms(1) b] by (simp_all add: put_char_def kept)
  show "a \<notin> block (cli_buffer E) CLI_BUFFER_SIZE \<Longrightarrow> umem (put_char E pos c s) a = umem s a"
    using b by (auto simp: put_char_def)
qed

lemma bytes_put:
  assumes "has_line E ln pos s"
  shows "bytes_at (umem (put_char E pos c s)) (cli_buffer E) (Suc (length ln)) = ln @ [c]"
proof (rule nth_equalityI)
  have pos: "ucast pos = (of_nat (length ln) :: u32)"
    using assms by (simp add: has_line_def word_unat_eq_iff unat_of_nat take_bit_nat_eq_self CLI_BUFFER_SIZE_def)
  fix i assume "i < length (bytes_at (umem (put_char E pos c s)) (cli_buffer E) (Suc (length ln)))"
  then have i: "i < Suc (length ln)" by simp
  then have ne: "(of_nat i :: u32) = of_nat (length ln) \<longleftrightarrow> i = length ln"
    using assms by (auto simp: has_line_def CLI_BUFFER_SIZE_def word_unat_eq_iff unat_of_nat take_bit_nat_eq_self)
  have "bytes_at (umem s) (cli_buffer E) (length ln) ! i = ln ! i" using assms by (simp add: has_line_def)
  then have "i < length ln \<Longrightarrow> umem s (cli_buffer E + of_nat i) = ln ! i" by (metis bytes_at_nth)
  then show "bytes_at (umem (put_char E pos c s)) (cli_buffer E) (Suc (length ln)) ! i = (ln @ [c]) ! i"
    using i ne by (auto simp: bytes_at_nth put_char_def pos nth_append less_Suc_eq simp del: bytes_at.simps)
qed simp

lemma line_append:
  assumes "has_line E ln pos s" "length ln < 127" "umem s' = umem (put_char E pos c s)"
  shows "has_line E (ln @ [c]) (pos + 1) s'"
proof -
  have "unat (pos + 1) = Suc (length ln)" using assms(1,2) by (simp add: has_line_def unat_word_ariths)
  with assms(2) bytes_put [OF assms(1), of c] show ?thesis unfolding has_line_def assms(3) by (simp add: CLI_BUFFER_SIZE_def)
qed

lemma line_butlast:
  assumes "has_line E ln pos s" "ln \<noteq> []" "umem s' = umem s"
  shows "has_line E (butlast ln) (pos - 1) s'"
proof -
  have "pos \<noteq> 0" using assms(1,2) by (auto simp: has_line_def)
  then have u: "unat (pos - 1) = length ln - 1" using assms(1) by (simp add: has_line_def unat_minus_one)
  have "bytes_at (umem s) (cli_buffer E) (length ln) ! i = ln ! i" for i using assms(1) by (simp add: has_line_def)
  then have "umem s (cli_buffer E + of_nat i) = ln ! i" if "i < length ln" for i using that by (metis bytes_at_nth)
  then have "bytes_at (umem s') (cli_buffer E) (length ln - 1) = butlast ln"
    using assms(3) by (intro nth_equalityI) (auto simp: bytes_at_nth nth_butlast)
  with u assms(1) show ?thesis by (auto simp: has_line_def)
qed

lemma round_edit:
  assumes K: "K s" and "typed s = c # rest" and c: "c \<noteq> 13" "c \<noteq> 10" and ln: "has_line E ln pos s"
  shows "\<exists>pos' s'. cli_round P D E table old (pos, s) = Some (pos', s') \<and> K s' \<and> has_line E (edit c ln) pos' s' \<and>
     sent s' = sent s @ echo c ln \<and> typed s' = rest \<and>
     (\<forall>a. a \<notin> block (cli_buffer E) CLI_BUFFER_SIZE \<longrightarrow> umem s' a = umem s a)"
proof -
  from receives [OF assms(1,2), of old] obtain n t where
    t: "console_read_blocking D [old] 1 (sinks s) s = Some (n, [c], t)" "K t" "umem t = umem s" "sent t = sent s" "typed t = rest"
    by blast
  have lnt: "has_line E ln pos t" using ln t(3) by (simp add: has_line_def)
  have pos0: "0 < pos \<longleftrightarrow> ln \<noteq> []" and pos1: "pos < 127 \<longleftrightarrow> length ln < 127"
    using ln by (auto simp: has_line_def word_less_nat_alt word_neq_0_conv [symmetric])
  have round: "cli_round P D E table old (pos, s) =
      Option.bind (cli_input_char P D E table c (pos, t))
        (\<lambda>(r, pos, s). Option.bind (if r = 1 then printk P D (chars ''> '') [] s else Some s) (\<lambda>s. Some (pos, s)))"
    by (simp add: cli_round_def t(1))
  consider (erase) "erases c" "ln \<noteq> []" | (none) "edit c ln = ln" "echo c ln = []" "erases c \<and> ln = [] \<or> \<not> erases c \<and> \<not> length ln < 127"
    | (put) "\<not> erases c" "length ln < 127"
    by (cases "erases c"; cases "ln = []"; cases "length ln < 127") (auto simp: edit_def echo_def)
  then show ?thesis
  proof cases
    case erase
    have r: "render Map.empty [8, 32, 8] [] = Some [8, 32, 8]" by simp
    from sends [OF t(2), of "[8, 32, 8]"] obtain u where
      u: "console_write D [8, 32, 8] (sinks t) t = Some u" "K u" "umem u = umem t" "sent u = sent t @ [8, 32, 8]" "typed u = typed t" by blast
    have "printk P D [8, 32, 8] [] t = Some u"
      using says [OF t(2) _ r] u(1) by (simp add: cli_literals_def)
    with erase c pos0 have "cli_input_char P D E table c (pos, t) = Some (0, pos - 1, u)"
      by (auto simp: cli_input_char_def erases_def)
    with erase u t lnt show ?thesis
      by (auto simp: round edit_def echo_def intro: line_butlast)
  next
    case none
    with c pos0 pos1 have "cli_input_char P D E table c (pos, t) = Some (0, pos, t)"
      by (auto simp: cli_input_char_def erases_def CLI_BUFFER_SIZE_def)
    with none t lnt show ?thesis by (simp add: round)
  next
    case put
    have b: "unat pos < CLI_BUFFER_SIZE" using ln by (simp add: has_line_def)
    note w = stores [OF t(2) b, where c = c]
    from sends [OF w(1), of "[c]"] obtain u where
      u: "console_write D [c] (sinks (put_char E pos c t)) (put_char E pos c t) = Some u" "K u" "umem u = umem (put_char E pos c t)"
        "sent u = sent t @ [c]" "typed u = rest"
      using w(2,3) t(5) by auto
    have "cli_input_char P D E table c (pos, t) = Some (0, pos + 1, u)"
      using put c pos1 u(1) by (auto simp: cli_input_char_def erases_def CLI_BUFFER_SIZE_def put_char_def)
    with put u t w(4) line_append [OF lnt put(2) u(3)] show ?thesis
      by (simp add: round edit_def echo_def)
  qed
qed

lemma rounds_edit:
  assumes "K s" "typed s = cs @ rest" "13 \<notin> set cs" "10 \<notin> set cs" "has_line E ln pos s" "length olds = length cs"
  shows "\<exists>pos' s'. cli_rounds P D E table olds (pos, s) = Some (pos', s') \<and> K s' \<and> has_line E (edited cs ln) pos' s' \<and>
     sent s' = sent s @ echoed cs ln \<and> typed s' = rest \<and>
     (\<forall>a. a \<notin> block (cli_buffer E) CLI_BUFFER_SIZE \<longrightarrow> umem s' a = umem s a)"
  using assms
proof (induction cs arbitrary: olds ln pos s)
  case Nil
  then show ?case by simp
next
  case (Cons c cs)
  then obtain old olds' where o: "olds = old # olds'" by (cases olds) auto
  from round_edit [OF Cons.prems(1), of c "cs @ rest" ln pos table old] Cons.prems obtain pos1 s1 where
    s1: "cli_round P D E table old (pos, s) = Some (pos1, s1)" "K s1" "has_line E (edit c ln) pos1 s1" "sent s1 = sent s @ echo c ln"
      "typed s1 = cs @ rest" "\<And>a. a \<notin> block (cli_buffer E) CLI_BUFFER_SIZE \<Longrightarrow> umem s1 a = umem s a" by auto
  from Cons.IH [OF s1(2,5) _ _ s1(3), of olds'] Cons.prems o s1 show ?case by auto
qed

lemma execute_finds:
  assumes "K s" "is_string (umem s) ln line" "(\<lambda>(name, description, f). chars name) ` set cs \<subseteq> set cli_literals"
  shows "execute_loop P D E table cs ln s = (case map_of (map (\<lambda>(name, description, f). (chars name, f)) cs) line of
     Some f \<Rightarrow> run_command P D E table f s | None \<Rightarrow> printk P D (chars ''unknown command %s'' @ newline) [ln] s)"
  using assms(3)
proof (induction cs)
  case Nil
  then show ?case by simp
next
  case (Cons x cs)
  obtain name description f where x: "x = (name, description, f)" by (cases x) auto
  have "is_string (umem s) (lit P name) (chars name)" using Cons.prems x lits [OF assms(1)] by (simp add: lit_def)
  from strcmp_total [OF this assms(2)] obtain r where "strcmp (umem s) (lit P name) ln = Some r" "r = 0 \<longleftrightarrow> chars name = line" by blast
  with Cons x show ?case by auto
qed

lemma line_string: "has_line E ln pos s \<Longrightarrow> 0 \<notin> set ln \<Longrightarrow> is_string (umem (put_char E pos 0 s)) (cli_buffer E) ln"
  unfolding is_string_def using bytes_put [of ln pos s 0] by simp

lemma round_enter:
  assumes K: "K s" and "typed s = c # rest" and c: "c = 13 \<or> c = 10" and ln: "has_line E ln pos s" "0 \<notin> set ln"
  shows "\<exists>s'. K s' \<and> sent s' = sent s @ newline \<and> typed s' = rest \<and> umem s' = (umem s)(cli_buffer E + ucast pos := 0) \<and>
     cli_round P D E table old (pos, s) = do {
       t \<leftarrow> (if ln = [] then Some s' else case find_command ln of
               Some f \<Rightarrow> run_command P D E table f s'
             | None \<Rightarrow> console_write D (chars ''unknown command '' @ ln @ newline) (sinks s') s');
       t \<leftarrow> printk P D (chars ''> '') [] t;
       Some (0, t)
     }"
proof -
  from receives [OF assms(1,2), of old] obtain n t where
    t: "console_read_blocking D [old] 1 (sinks s) s = Some (n, [c], t)" "K t" "umem t = umem s" "sent t = sent s" "typed t = rest"
    by blast
  have lnt: "has_line E ln pos t" using ln t(3) by (simp add: has_line_def)
  define u where "u = put_char E pos 0 t"
  have b: "unat pos < CLI_BUFFER_SIZE" using ln by (simp add: has_line_def)
  note w = stores [OF t(2) b, where c = 0, folded u_def]
  have r: "render Map.empty newline [] = Some newline" by simp
  from sends [OF w(1), of newline] obtain v where
    v: "console_write D newline (sinks u) u = Some v" "K v" "umem v = umem u" "sent v = sent s @ newline" "typed v = rest"
    using w t by auto
  have pr: "printk P D newline [] u = Some v" using says [OF w(1) _ r] v(1) by (simp add: cli_literals_def)
  have str: "is_string (umem v) (cli_buffer E) ln" using line_string [OF lnt ln(2)] v(3) by (simp add: u_def)
  have un: "render [cli_buffer E \<mapsto> ln] (chars ''unknown command %s'' @ newline) [cli_buffer E] = Some (chars ''unknown command '' @ ln @ newline)"
    using buffer by (simp add: chars_def spec_of_def is_digit_def width_of_def conv_text_def)
  have len: "length (chars ''unknown command '' @ ln @ newline) < 256" using ln by (simp add: has_line_def CLI_BUFFER_SIZE_def chars_def)
  have unknown: "printk P D (chars ''unknown command %s'' @ newline) [cli_buffer E] v =
      console_write D (chars ''unknown command '' @ ln @ newline) (sinks v) v"
    by (rule says [OF v(2) _ un _ len]) (use str in \<open>auto simp: cli_literals_def split: if_splits\<close>)
  have names: "(\<lambda>(name, description, f). chars name) ` set commands \<subseteq> set cli_literals" by (simp add: cli_literals_def subset_insertI2)
  have "umem v (cli_buffer E) = 0 \<longleftrightarrow> ln = []" using str by (cases ln) (auto simp: is_string_simps)
  then have ex: "cli_execute P D E table (cli_buffer E) v = (if ln = [] then Some v else case find_command ln of
      Some f \<Rightarrow> run_command P D E table f v | None \<Rightarrow> console_write D (chars ''unknown command '' @ ln @ newline) (sinks v) v)"
    using execute_finds [OF v(2) str names, of table, unfolded unknown] by (simp add: cli_execute_def find_command_def)
  have "cli_input_char P D E table c (pos, t) = map_option (\<lambda>s. (1, 0, s)) (cli_execute P D E table (cli_buffer E) v)"
    using c pr by (auto simp: cli_input_char_def u_def [symmetric] map_conv_bind_option comp_def)
  then have "cli_round P D E table old (pos, s) = Option.bind (cli_execute P D E table (cli_buffer E) v)
      (\<lambda>t. Option.bind (printk P D (chars ''> '') [] t) (\<lambda>t. Some (0, t)))"
    by (simp add: cli_round_def t(1) bind_map_option comp_def)
  with ex v show ?thesis by (intro exI [of _ v]) (simp add: u_def put_char_def t(3))
qed

end

lemma cli_input_char_bounded:
  assumes "unat pos < CLI_BUFFER_SIZE" "cli_input_char P D E table c (pos, s) = Some (r, pos', s')"
  shows "unat pos' < CLI_BUFFER_SIZE"
proof -
  have "pos' = 0 \<or> pos' = pos \<or> pos \<noteq> 0 \<and> pos' = pos - 1 \<or> pos < 127 \<and> pos' = pos + 1"
    using assms(2) unfolding cli_input_char_def
    by (auto simp: CLI_BUFFER_SIZE_def bind_eq_Some_conv Let_def split: if_splits)
  moreover have "unat (pos - 1) < 128" if "pos \<noteq> 0" using that assms(1) by (simp add: unat_minus_one CLI_BUFFER_SIZE_def)
  moreover have "unat (pos + 1) < 128" if "pos < 127" using that by (simp add: word_less_nat_alt unat_word_ariths)
  ultimately show ?thesis using assms(1) by (auto simp: CLI_BUFFER_SIZE_def)
qed

lemma cli_round_bounded:
  assumes "unat pos < CLI_BUFFER_SIZE" "cli_round P D E table old (pos, s) = Some (pos', s')"
  shows "unat pos' < CLI_BUFFER_SIZE"
proof -
  obtain c t r u where "cli_input_char P D E table c (pos, t) = Some (r, pos', u)"
    using assms(2) by (force simp: cli_round_def bind_eq_Some_conv split: if_splits)
  with assms(1) show ?thesis by (rule cli_input_char_bounded)
qed

lemma cli_rounds_bounded:
  "unat (fst x) < CLI_BUFFER_SIZE \<Longrightarrow> cli_rounds P D E table olds x = Some y \<Longrightarrow> unat (fst y) < CLI_BUFFER_SIZE"
proof (induction olds arbitrary: x)
  case (Cons old olds)
  then obtain z where "cli_round P D E table old x = Some z" "cli_rounds P D E table olds z = Some y"
    by (auto simp: bind_eq_Some_conv)
  with Cons show ?case by (cases x; cases z) (auto dest: cli_round_bounded)
qed simp

section \<open>An example terminal\<close>

text \<open>A driver of a terminal: the state of the device is what will be typed and what was sent.\<close>

definition tty_driver :: "(u8 list \<times> u8 list) machine driver_t" where
  "tty_driver = \<lparr>drv_name = 0, drv_init = None,
     drv_write = Some (\<lambda>buf s. Some (int (length buf), s\<lparr>dev := (fst (dev s), snd (dev s) @ buf)\<rparr>)), drv_write_sync = None, drv_read = None,
     drv_read_blocking = Some (\<lambda>buf len s. case fst (dev s) of [] \<Rightarrow> None | c # cs \<Rightarrow> Some (1, [c], s\<lparr>dev := (cs, snd (dev s))\<rparr>))\<rparr>"

definition tty_literal :: "u8 list \<Rightarrow> ptr" where
  "tty_literal l = 0x08005000 + 64 * of_nat (length (takeWhile (\<lambda>k. k \<noteq> l) cli_literals))"

definition tty_mem :: mem where
  "tty_mem = fold (\<lambda>l. store_bytes (tty_literal l) l) cli_literals (\<lambda>_. 0)"

definition tty_platform :: "(u8 list \<times> u8 list) platform" where
  "tty_platform = (plain_platform \<lparr>bus_read = (\<lambda>a d. (0, d)), bus_write = (\<lambda>a v d. d)\<rparr>)\<lparr>literal := tty_literal\<rparr>"

definition tty_env :: cli_env where
  "tty_env = \<lparr>cli_buffer = 0x20001000, vma_data_start = 0x20000000, vma_data_end = 0x20000100, bss_start = 0x20000100, bss_end = 0x20002000,
     link_status = 0x20003000, link_reply = 0x20003004\<rparr>"

definition tty_ok :: "(u8 list \<times> u8 list) machine \<Rightarrow> bool" where
  "tty_ok s \<longleftrightarrow> sinks s = [0x08001000, 0, 0, 0] \<and> (\<forall>l \<in> set cli_literals. is_string (umem s) (tty_literal l) l)"

definition tty_machine :: "u8 list \<Rightarrow> (u8 list \<times> u8 list) machine" where
  "tty_machine cs = (idle_machine zero_kernel ex_heap (cs, []))\<lparr>sinks := [0x08001000, 0, 0, 0], umem := tty_mem\<rparr>"

lemma tty_literal_below: "l \<in> set cli_literals \<Longrightarrow> unat (tty_literal l) + length l < 0x08006000"
proof -
  assume l: "l \<in> set cli_literals"
  have "\<forall>l \<in> set cli_literals. length l < 64" by (simp add: cli_literals_def commands_def chars_def)
  moreover have "length (takeWhile (\<lambda>k. k \<noteq> l) cli_literals) \<le> 15"
    by (rule order_trans [OF length_takeWhile_le]) (simp add: cli_literals_def commands_def)
  ultimately show ?thesis
    using l by (auto simp: tty_literal_def unat_word_ariths unat_of_nat take_bit_nat_eq_self)
qed

lemma tty_mem_ok: "\<forall>l \<in> set cli_literals. is_string tty_mem (tty_literal l) l"
  by code_simp

interpretation tty: cli_terminal tty_platform "\<lambda>_. tty_driver" tty_env tty_ok "\<lambda>s. snd (dev s)" "\<lambda>s. fst (dev s)"
proof
  fix s :: "(u8 list \<times> u8 list) machine" and a b l c cs old buf m n
  show "length (junk tty_platform n) = n" by (simp add: tty_platform_def plain_platform_def)
  show "cli_buffer tty_env \<noteq> 0" by (simp add: tty_env_def)
  show "snd (dev (s\<lparr>umem := m\<rparr>)) = snd (dev s)" "fst (dev (s\<lparr>umem := m\<rparr>)) = fst (dev s)" by simp_all
  assume k: "tty_ok s"
  then show "\<exists>s'. console_write (\<lambda>_. tty_driver) buf (sinks s) s = Some s' \<and> tty_ok s' \<and> umem s' = umem s \<and>
      snd (dev s') = snd (dev s) @ buf \<and> fst (dev s') = fst (dev s)"
    by (simp add: tty_ok_def tty_driver_def)
  show "is_string (umem s) (literal tty_platform l) l" if "l \<in> set cli_literals"
    using k that by (simp add: tty_ok_def tty_platform_def)
  show "\<exists>n s'. console_read_blocking (\<lambda>_. tty_driver) [old] 1 (sinks s) s = Some (n, [c], s') \<and> tty_ok s' \<and> umem s' = umem s \<and>
      snd (dev s') = snd (dev s) \<and> fst (dev s') = cs" if "fst (dev s) = c # cs"
    using k that by (simp add: tty_ok_def tty_driver_def)
  show "tty_ok (s\<lparr>umem := (umem s)(a := b)\<rparr>)" if a: "a \<in> block (cli_buffer tty_env) CLI_BUFFER_SIZE"
  proof -
    have high: "0x20000000 \<le> unat a" using a by (auto simp: block_def tty_env_def CLI_BUFFER_SIZE_def unat_word_ariths unat_of_nat)
    have "bytes_at ((umem s)(a := b)) (tty_literal l) (Suc (length l)) = bytes_at (umem s) (tty_literal l) (Suc (length l))"
      if "l \<in> set cli_literals" for l
    proof (rule bytes_at_cong)
      fix x assume "x \<in> block (tty_literal l) (Suc (length l))"
      then have "unat x < 0x08006000" using tty_literal_below [OF that] by (auto simp: block_def unat_word_ariths unat_of_nat)
      with high show "((umem s)(a := b)) x = umem s x" by auto
    qed
    with k show ?thesis by (simp add: tty_ok_def is_string_def del: bytes_at.simps)
  qed
qed

lemma tty_machine_ok: "tty_ok (tty_machine cs)" "dev (tty_machine cs) = (cs, [])" "umem (tty_machine cs) = tty_mem"
  using tty_mem_ok by (simp_all add: tty_ok_def tty_machine_def idle_machine_def)

lemma no_line: "has_line E [] 0 s"
  by (simp add: has_line_def CLI_BUFFER_SIZE_def)

section \<open>Properties\<close>

text \<open>C37: Editing a line refines the reference: while a user types characters that do not end the line, every
  round of the task returns; the buffer and the position hold the edited line (characters are appended
  up to 127, an erasing character drops the last one), the terminal has received the echo, and no
  memory outside the 128 bytes of the buffer has changed.\<close>

theorem cli_line_edited:
  assumes "cli_terminal P D E K sent typed" "K s" "typed s = cs @ rest" "13 \<notin> set cs" "10 \<notin> set cs" "length olds = length cs"
  shows "\<exists>pos s'. cli_rounds P D E table olds (0, s) = Some (pos, s') \<and> K s' \<and> has_line E (edited cs []) pos s' \<and>
     sent s' = sent s @ echoed cs [] \<and> typed s' = rest \<and>
     (\<forall>a. a \<notin> block (cli_buffer E) CLI_BUFFER_SIZE \<longrightarrow> umem s' a = umem s a)"
  by (rule cli_terminal.rounds_edit [OF assms(1-5) no_line assms(6)])

theorem cli_line_edited_witness:
  "\<exists>pos s'. cli_rounds tty_platform (\<lambda>_. tty_driver) tty_env None [0, 0, 0, 0] (0, tty_machine [0x70, 0x78, 127, 0x73]) = Some (pos, s') \<and>
     has_line tty_env (chars ''ps'') pos s' \<and> snd (dev s') = chars ''px'' @ [8, 32, 8] @ chars ''s''"
  using cli_line_edited [OF tty.cli_terminal_axioms tty_machine_ok(1), of "[0x70, 0x78, 127, 0x73]" "[0x70, 0x78, 127, 0x73]" "[]" "[0, 0, 0, 0]" None]
  by (auto simp: tty_machine_ok edit_def echo_def erases_def chars_def)

text \<open>C38: The end of a line runs the command with that name: the line is terminated in the buffer, the task
  executes the command of the table whose name the line is, reports an unknown command for any other
  line and does nothing for an empty one; then it prompts for the next line, at the start of the buffer.\<close>

theorem cli_enter_runs_command:
  assumes "cli_terminal P D E K sent typed" "K s" "typed s = c # rest" "c = 13 \<or> c = 10" "has_line E ln pos s" "0 \<notin> set ln"
  shows "\<exists>s'. K s' \<and> sent s' = sent s @ newline \<and> typed s' = rest \<and> umem s' = (umem s)(cli_buffer E + ucast pos := 0) \<and>
     cli_round P D E table old (pos, s) = do {
       t \<leftarrow> (if ln = [] then Some s' else case find_command ln of
               Some f \<Rightarrow> run_command P D E table f s'
             | None \<Rightarrow> console_write D (chars ''unknown command '' @ ln @ newline) (sinks s') s');
       t \<leftarrow> printk P D (chars ''> '') [] t;
       Some (0, t)
     }"
  by (rule cli_terminal.round_enter [OF assms])

theorem cli_enter_runs_command_witness:
  "\<exists>t. cli_round tty_platform (\<lambda>_. tty_driver) tty_env None 0
       (1, (tty_machine [13])\<lparr>umem := tty_mem(0x20001000 := 0x78)\<rparr>) = Some (0, t) \<and>
     snd (dev t) = newline @ chars ''unknown command x'' @ newline @ chars ''> ''"
proof -
  let ?s = "(tty_machine [13])\<lparr>umem := tty_mem(0x20001000 := 0x78)\<rparr>"
  have "0x20001000 \<in> block (cli_buffer tty_env) CLI_BUFFER_SIZE" by (auto simp: block_def tty_env_def CLI_BUFFER_SIZE_def intro!: image_eqI [of _ _ 0])
  from tty.store [OF tty_machine_ok(1) this, of "[13]" "0x78"] have K: "tty_ok ?s" by (simp add: tty_machine_ok)
  have ln: "has_line tty_env [0x78] 1 ?s" by (simp add: has_line_def CLI_BUFFER_SIZE_def tty_env_def)
  have unknown: "find_command [0x78] = None" by (simp add: find_command_def commands_def chars_def)
  obtain s' where s': "tty_ok s'" "snd (dev s') = newline"
    "cli_round tty_platform (\<lambda>_. tty_driver) tty_env None 0 (1, ?s) = do {
       t \<leftarrow> console_write (\<lambda>_. tty_driver) (chars ''unknown command '' @ [0x78] @ newline) (sinks s') s';
       t \<leftarrow> printk tty_platform (\<lambda>_. tty_driver) (chars ''> '') [] t; Some (0, t)}"
    using cli_enter_runs_command [OF tty.cli_terminal_axioms K, of 13 "[]" "[0x78]" 1 None 0] ln unknown
    by (auto simp: tty_machine_ok)
  from tty.sends [OF s'(1), of "chars ''unknown command '' @ [0x78] @ newline"] obtain t where
    t: "console_write (\<lambda>_. tty_driver) (chars ''unknown command '' @ [0x78] @ newline) (sinks s') s' = Some t" "tty_ok t"
      "snd (dev t) = newline @ chars ''unknown command '' @ [0x78] @ newline" using s'(2) by auto
  have "render Map.empty (chars ''> '') [] = Some (chars ''> '')" by (simp add: chars_def)
  from tty.says [OF t(2) _ this] tty.sends [OF t(2), of "chars ''> ''"] obtain u where
    "printk tty_platform (\<lambda>_. tty_driver) (chars ''> '') [] t = Some u" "snd (dev u) = snd (dev t) @ chars ''> ''"
    by (auto simp: cli_literals_def chars_def)
  with s'(3) t(1,3) show ?thesis by (simp add: chars_def)
qed

text \<open>C39: The position in the line is well typed throughout: whatever is typed and whatever the commands and the
  drivers do, it indexes the 128 bytes of the buffer after every round.\<close>

theorem cli_position_in_buffer:
  assumes "cli_rounds P D E table olds (pos, s) = Some (pos', s')" "unat pos < CLI_BUFFER_SIZE"
  shows "unat pos' < CLI_BUFFER_SIZE"
  using cli_rounds_bounded [OF _ assms(1)] assms(2) by simp

theorem cli_position_in_buffer_witness:
  "\<exists>pos s'. cli_rounds tty_platform (\<lambda>_. tty_driver) tty_env None [0, 0] (0, tty_machine [0x70, 127]) = Some (pos, s') \<and> unat pos < 128"
proof -
  obtain pos s' where "cli_rounds tty_platform (\<lambda>_. tty_driver) tty_env None [0, 0] (0, tty_machine [0x70, 127]) = Some (pos, s')"
    using tty.rounds_edit [OF tty_machine_ok(1), of "[0x70, 127]" "[0x70, 127]" "[]" "[]" 0 "[0, 0]" None] by (auto simp: tty_machine_ok no_line)
  moreover have "unat pos < 128" using cli_position_in_buffer [OF calculation] by (simp add: CLI_BUFFER_SIZE_def)
  ultimately show ?thesis by blast
qed

end
