(* ===== verification/User_Tasks.thy ===== *)
theory User_Tasks
  imports Uprintf Dhcp_Server Net_Task
begin

unbundle bit_operations_syntax

text \<open>
  The user tasks: the task that starts the system (\<^verbatim>\<open>source/user/user_main.c\<close>), which waits for the link
  and then creates the DHCP server, and the start of that server (\<^verbatim>\<open>source/user/dhcp.c\<close>, up to its
  loop, which is \<open>dhcp_round\<close>). The record \<open>user_env\<close> collects the sizes of types and the addresses of
  functions and of variables on the stack that the code uses; \<open>frame\<close>, \<open>print_frame\<close>
  and \<open>inner_frame\<close> are the array of \<open>uprintf\<close> in a call from the task, from a function it calls, and from one below.
\<close>

record user_env =
  sizeof_lease_slot :: u32
  sizeof_dhcp_msg :: u32
  sizeof_dhcp_cfg :: u32
  dhcp_task_fn :: u32
  frame :: ptr
  print_frame :: ptr
  inner_frame :: ptr
  link :: ptr
  user_reply_slot :: ptr
  open_reply_slot :: ptr
  reply_slot :: ptr
  send_reply_slot :: ptr
  send_args_at :: ptr

section \<open>The DHCP server\<close>

definition DHCP_SERVER_PORT :: u16 where "DHCP_SERVER_PORT = 6767"

definition start_dhcp_server ::
  "'d platform \<Rightarrow> (ptr \<Rightarrow> 'd machine driver_t) \<Rightarrow> user_env \<Rightarrow> 'd machine \<Rightarrow> (ptr \<times> 'd machine) option" where
  "start_dhcp_server P D U s = do {
     (socket, s) \<leftarrow> sys_socket_get P 0 s;
     let s = put_reply (open_reply_slot U) zero_reply s;
     let s = upd_socket socket (\<lambda>x. x\<lparr>sock_protocol := UDP, sock_port := DHCP_SERVER_PORT\<rparr>) s;
     (r, s) \<leftarrow> sys_socket_open P socket (open_reply_slot U) s;
     if reply_status (replies s (open_reply_slot U)) \<noteq> NET_STATUS_OK
     then do { s \<leftarrow> print_net_error P D (print_frame U) (replies s (open_reply_slot U)) s; Some (0, s) }
     else Some (socket, s)
   }"

text \<open>The buffers of the running server.\<close>

record dhcp_buffers =
  dhcp_socket :: ptr
  net_buffer :: ptr
  received_msg_at :: ptr
  reply_buffer :: ptr

text \<open>
  The task up to its loop: \<open>None\<close> in the result if the server does not start. The lease table has one slot
  for every address from the first to the last of the configuration. No allocation is checked.
\<close>

definition dhcp_task_start ::
  "'d platform \<Rightarrow> (ptr \<Rightarrow> 'd machine driver_t) \<Rightarrow> user_env \<Rightarrow> 'f bus \<Rightarrow> dhcp_cfg_t \<Rightarrow> 'f flash_state \<Rightarrow> 'd machine \<Rightarrow>
   ((dhcp_buffers \<times> lease_table_t \<times> 'f flash_state) option \<times> 'd machine) option" where
  "dhcp_task_start P D U bus cfg fs s = do {
     s \<leftarrow> say P D (frame U) (''[dhcp] Starting server...'' @ crlf) [] s;
     (socket, s) \<leftarrow> start_dhcp_server P D U s;
     let s = put_reply (reply_slot U) zero_reply s;
     if socket = 0
     then do { s \<leftarrow> say P D (frame U) (''[dhcp][!] Couldn'' @ [CHR 0x27] @ ''t start'' @ crlf) [] s; Some (None, s) }
     else do {
       e \<leftarrow> fetch (cfg_end_addr cfg) 3;
       b \<leftarrow> fetch (cfg_start_addr cfg) 3;
       (all_slots, s) \<leftarrow> sys_malloc P (sizeof_lease_slot U * ucast (e - b + 1)) s;
       (table, fs) \<leftarrow> setup_lease_table bus all_slots cfg fs;
       (nb, s) \<leftarrow> sys_malloc P 1500 s;
       (m, s) \<leftarrow> sys_malloc P (sizeof_dhcp_msg U) s;
       (rb, s) \<leftarrow> sys_malloc P (ucast dhcp_reply_buffer_size) s;
       s \<leftarrow> say P D (frame U) (''[dhcp] Listening on %d'' @ crlf) [ucast DHCP_SERVER_PORT] s;
       Some (Some (\<lparr>dhcp_socket = socket, net_buffer = nb, received_msg_at = m, reply_buffer = rb\<rparr>, table, fs), s)
     }
   }"

text \<open>The arguments of a send as the structure in memory; \<open>rb\<close> is the address of the data.\<close>

definition args_bytes :: "ptr \<Rightarrow> net_send_args_t \<Rightarrow> u8 list" where
  "args_bytes rb args =
     [ucast rb, ucast (drop_bit 8 rb), ucast (drop_bit 16 rb), ucast (drop_bit 24 rb), ucast (tx_length args), ucast (drop_bit 8 (tx_length args))] @
     dst_ip args @ [ucast (dst_port args), ucast (drop_bit 8 (dst_port args)), if use_mac args then 1 else 0] @ mac args"

text \<open>
  Sending a reply: the reply buffer and the arguments are in memory, the network task is asked to send, and
  a failure is reported. For an offer the code prints the reply of the receive request.
\<close>

definition dhcp_send ::
  "'d platform \<Rightarrow> (ptr \<Rightarrow> 'd machine driver_t) \<Rightarrow> user_env \<Rightarrow> dhcp_buffers \<Rightarrow> string \<Rightarrow> ptr \<Rightarrow> net_send_args_t \<Rightarrow> u8 list \<Rightarrow>
   'd machine \<Rightarrow> 'd machine option" where
  "dhcp_send P D U B what reported args buf s = do {
     let s = s\<lparr>umem := store_bytes (send_args_at U) (args_bytes (reply_buffer B) args) (store_bytes (reply_buffer B) buf (umem s))\<rparr>;
     s \<leftarrow> say P D (frame U) (''[dhcp] Sending '' @ what @ crlf) [] s;
     s \<leftarrow> sys_net_send P (dhcp_socket B) (send_args_at U) (send_reply_slot U) s;
     if reply_status (replies s (send_reply_slot U)) \<noteq> NET_STATUS_OK
     then do {
       s \<leftarrow> say P D (frame U) (''[dhcp][!] Couldn'' @ [CHR 0x27] @ ''t send '' @ what @ crlf) [] s;
       print_net_error P D (print_frame U) (replies s reported) s
     }
     else Some s
   }"

text \<open>
  A round of the loop on the machine, around \<open>dhcp_dispatch\<close>, which has the effect of the handlers on the
  server; \<open>args\<close> are the uninitialised arguments on the stack. The messages that the handlers print when
  they refuse are left out.
\<close>

definition dhcp_task_round ::
  "'d platform \<Rightarrow> (ptr \<Rightarrow> 'd machine driver_t) \<Rightarrow> user_env \<Rightarrow> dhcp_buffers \<Rightarrow> 'f bus \<Rightarrow> (nat \<Rightarrow> u32) \<Rightarrow> dhcp_cfg_t \<Rightarrow> net_send_args_t \<Rightarrow>
   'f dhcp_server \<Rightarrow> 'd machine \<Rightarrow> ('f dhcp_server \<times> 'd machine) option" where
  "dhcp_task_round P D U B bus up cfg args srv s = do {
     s \<leftarrow> sys_net_recv P (dhcp_socket B) (net_buffer B) 1500 (reply_slot U) s;
     let reply = replies s (reply_slot U);
     let raw = bytes_at (umem s) (net_buffer B) 1500;
     if reply_status reply = NET_STATUS_OK \<and> reply_got reply \<noteq> 0
     then do {
       (dhcp_status, parsed) \<leftarrow> dhcp_parse (Some raw) (reply_got reply) (Some (received_msg srv));
       let srv = srv\<lparr>received_msg := the parsed\<rparr>;
       let msg = received_msg srv;
       if dhcp_status \<noteq> DHCP_OK then do { s \<leftarrow> print_dhcp_error P D (print_frame U) dhcp_status s; Some (srv, s) }
       else do {
         s \<leftarrow> say P D (frame U) (''[dhcp] Received message:'' @ crlf) [] s;
         s \<leftarrow> dhcp_msg_print P D (print_frame U) (inner_frame U) msg s;
         if msg_op msg \<noteq> BOOTREQUEST \<or> \<not> has_message_type msg
         then do {
           s \<leftarrow> say P D (frame U) (''[dhcp] Message is not bootrequest or has no message type'' @ crlf) [] s;
           Some (srv, s)
         }
         else do {
           s \<leftarrow> say P D (frame U) ''[dhcp] Recevied '' [] s;
           s \<leftarrow> dhcp_print_msg_type P D (print_frame U) (message_type msg) s;
           s \<leftarrow> say P D (frame U) crlf [] s;
           (to_send, srv) \<leftarrow> dhcp_dispatch bus up cfg args raw srv;
           s \<leftarrow> (case to_send of
                  Some a \<Rightarrow>
                    if message_type msg = DHCP_MSG_REQUEST
                    then dhcp_send P D U B ''ACK'' (send_reply_slot U) a (dhcp_reply_buffer srv) s
                    else dhcp_send P D U B ''an offer'' (reply_slot U) a (dhcp_reply_buffer srv) s
                | None \<Rightarrow>
                    if message_type msg \<in> {DHCP_MSG_DISCOVER, DHCP_MSG_REQUEST, DHCP_MSG_DECLINE, DHCP_MSG_RELEASE} then Some s
                    else say P D (frame U) (''[dhcp] Can'' @ [CHR 0x27] @ ''t handle message type %d'' @ crlf) [ucast (message_type msg)] s);
           s \<leftarrow> sys_sleep P 20 s;
           Some (srv, s)
         }
       }
     }
     else do {
       s \<leftarrow> (if reply_status reply \<noteq> NET_STATUS_OK then print_net_error P D (print_frame U) reply s else Some s);
       s \<leftarrow> sys_sleep P 20 s;
       Some (srv, s)
     }
   }"

section \<open>The first user task\<close>

definition user_cfg :: dhcp_cfg_t where
  "user_cfg = \<lparr>cfg_start_addr = [192, 168, 0, 110], cfg_end_addr = [192, 168, 0, 200], cfg_server_id = [192, 168, 0, 105],
     lease_time = 3600, subnet_mask = [192, 168, 0, 255], router = [192, 168, 0, 1], dns = [8, 8, 8, 8],
     broadcast_addr = [255, 255, 255, 255]\<rparr>"

text \<open>The loop; \<open>False\<close>: the function returns because of an error.\<close>

partial_function (option) link_wait ::
  "'d platform \<Rightarrow> (ptr \<Rightarrow> 'd machine driver_t) \<Rightarrow> user_env \<Rightarrow> 'd machine \<Rightarrow> (bool \<times> 'd machine) option" where
  "link_wait P D U s = do {
     s \<leftarrow> sys_net_link P (link U) (user_reply_slot U) s;
     if reply_status (replies s (user_reply_slot U)) \<noteq> NET_STATUS_OK then Some (False, s)
     else do {
       s \<leftarrow> say P D (frame U) (''[user] link status %d'' @ crlf) [results s (link U)] s;
       s \<leftarrow> sys_sleep P 1000 s;
       if results s (link U) = 1 then Some (True, s) else link_wait P D U s
     }
   }"

declare link_wait.simps [code]

text \<open>The configurations are in a store of their own; copying to NULL is an error.\<close>

definition user_main ::
  "'d platform \<Rightarrow> (ptr \<Rightarrow> 'd machine driver_t) \<Rightarrow> user_env \<Rightarrow> (ptr \<Rightarrow> dhcp_cfg_t) \<Rightarrow> 'd machine \<Rightarrow>
   ((ptr \<Rightarrow> dhcp_cfg_t) \<times> 'd machine) option" where
  "user_main P D U cfgs s = do {
     s \<leftarrow> say P D (frame U) (''[user] user task'' @ crlf) [] s;
     (config, s) \<leftarrow> sys_malloc P (sizeof_dhcp_cfg U) s;
     if config = 0 then None
     else do {
       let cfgs = cfgs(config := user_cfg);
       let s = put_reply (user_reply_slot U) zero_reply (s\<lparr>results := (results s)(link U := - 1)\<rparr>);
       (up, s) \<leftarrow> link_wait P D U s;
       if \<not> up then Some (cfgs, s)
       else do {
         s \<leftarrow> say P D (frame U) (''[user] Starting DHCP server'' @ crlf) [] s;
         (dhcp_thread, s) \<leftarrow> sys_task_create P 1 (dhcp_task_fn U) config s;
         s \<leftarrow> sys_task_set_name P dhcp_thread (literal P (chars ''dhcp server'')) s;
         Some (cfgs, s)
       }
     }
   }"

text \<open>The configuration has the form the server relies on, with one slot for each of its 91 addresses.\<close>

lemma user_cfg_ok: "cfg_wf user_cfg" "unat (cfg_end_addr user_cfg ! 3 - cfg_start_addr user_cfg ! 3 + 1) = 91"
  by (simp_all add: cfg_wf_def user_cfg_def)

section \<open>The reply reaches the network task\<close>

lemma bytes_u16: "ucast (ucast (w :: u16) :: u8) OR push_bit 8 (ucast (ucast (drop_bit 8 w) :: u8)) = w"
  by (rule bit_word_eqI) (auto simp: bit_simps)

lemma bytes_u32:
  fixes w :: u32
  shows "ucast (ucast (ucast w :: u8) OR push_bit 8 (ucast (ucast (drop_bit 8 w) :: u8)) :: u16) OR
     push_bit 16 (ucast (ucast (ucast (drop_bit 16 w) :: u8) OR push_bit 8 (ucast (ucast (drop_bit 24 w) :: u8)) :: u16)) = w"
  apply (rule bit_word_eqI)
  subgoal for n by (cases "n < 16") (auto simp: bit_simps not_less)
  done

lemma args_in_memory:
  assumes "length (dst_ip a) = 4" "length (mac a) = 6" "m' = store_bytes p (args_bytes rb a) m"
  shows "u32_at m' p = rb" "u16_at m' (p + 4) = tx_length a" "bytes_at m' (p + 6) 4 = dst_ip a" "u16_at m' (p + 10) = dst_port a"
    "m' (p + 12) \<noteq> 0 \<longleftrightarrow> use_mac a" "bytes_at m' (p + 13) 6 = mac a"
proof -
  obtain i0 i1 i2 i3 where ip: "dst_ip a = [i0, i1, i2, i3]" using assms(1) by (auto simp: numeral_eq_Suc length_Suc_conv)
  obtain m0 m1 m2 m3 m4 m5 where mac: "mac a = [m0, m1, m2, m3, m4, m5]" using assms(2) by (auto simp: numeral_eq_Suc length_Suc_conv)
  have "bytes_at m' p 19 = args_bytes rb a"
    using bytes_at_store_bytes [of "args_bytes rb a" p m] assms(1,2) by (simp add: assms(3) args_bytes_def)
  then have at: "m' (p + of_nat i) = args_bytes rb a ! i" if "i < 19" for i using bytes_at_nth [OF that, of m' p] by simp
  have b: "m' p = args_bytes rb a ! 0" "m' (p + 1) = args_bytes rb a ! 1" "m' (p + 2) = args_bytes rb a ! 2" "m' (p + 3) = args_bytes rb a ! 3"
    "m' (p + 4) = args_bytes rb a ! 4" "m' (p + 5) = args_bytes rb a ! 5" "m' (p + 6) = args_bytes rb a ! 6" "m' (p + 7) = args_bytes rb a ! 7"
    "m' (p + 8) = args_bytes rb a ! 8" "m' (p + 9) = args_bytes rb a ! 9" "m' (p + 10) = args_bytes rb a ! 10" "m' (p + 11) = args_bytes rb a ! 11"
    "m' (p + 12) = args_bytes rb a ! 12" "m' (p + 13) = args_bytes rb a ! 13" "m' (p + 14) = args_bytes rb a ! 14"
    "m' (p + 15) = args_bytes rb a ! 15" "m' (p + 16) = args_bytes rb a ! 16" "m' (p + 17) = args_bytes rb a ! 17" "m' (p + 18) = args_bytes rb a ! 18"
    using at [of 0] at [of 1] at [of 2] at [of 3] at [of 4] at [of 5] at [of 6] at [of 7] at [of 8] at [of 9] at [of 10] at [of 11]
      at [of 12] at [of 13] at [of 14] at [of 15] at [of 16] at [of 17] at [of 18] by simp_all
  note c = b [unfolded args_bytes_def ip mac, simplified]
  show "u32_at m' p = rb" "u16_at m' (p + 4) = tx_length a" "u16_at m' (p + 10) = dst_port a"
    by (simp_all add: u32_at_def u16_at_def c bytes_u16 bytes_u32 add.assoc)
  show "bytes_at m' (p + 6) 4 = dst_ip a" "bytes_at m' (p + 13) 6 = mac a"
    by (simp_all add: eval_nat_numeral add.assoc c ip mac)
  show "m' (p + 12) \<noteq> 0 \<longleftrightarrow> use_mac a" by (simp add: c)
qed

text \<open>Sending a reply asks the network task to send exactly the reply that was built, to its destination.\<close>

lemma dhcp_send_request:
  assumes "length (dst_ip a) = 4" "length (mac a) = 6" "validate_socket (lay P) socket" "length buf \<le> 2 ^ 32"
    and "block p 19 \<inter> block rb (length buf) = {}"
    and "t = s\<lparr>umem := store_bytes p (args_bytes rb a) (store_bytes rb buf (umem s))\<rparr>"
  shows "svc_net_send P socket p reply t = svc_net (zero_request\<lparr>req_op := NET_OP_SEND, req_caller := current_task (kern s),
       req_socket := socket, req_buffer := rb, req_buf_len := tx_length a, req_dst_port := dst_port a, req_use_mac := use_mac a,
       req_reply_slot := reply, req_dst_mac := mac a, req_dst_ip := dst_ip a\<rparr>) t \<and>
     bytes_at (umem t) rb (length buf) = buf"
proof -
  have len: "length (args_bytes rb a) = 19" using assms(1,2) by (simp add: args_bytes_def)
  note m = args_in_memory [OF assms(1,2) refl, of p rb "store_bytes rb buf (umem s)"]
  have "bytes_at (umem t) rb (length buf) = bytes_at (store_bytes rb buf (umem s)) rb (length buf)"
    using assms(5) by (intro bytes_at_cong) (auto simp: assms(6) len intro!: store_bytes_other)
  then show ?thesis using assms(3,4) m bytes_at_store_bytes [of buf rb "umem s"] by (simp add: svc_net_send_def assms(6))
qed

end
