(* ===== verification/Boot.thy ===== *)
theory Boot
  imports Cli Usart User_Tasks
begin

unbundle bit_operations_syntax

text \<open>
  The start of the system (\<^verbatim>\<open>source/kernel/main.c\<close>) in a build without benchmarks, up to the endless loop in
  which \<open>main\<close> waits for the first tick, and the report of a memory fault
  (\<^verbatim>\<open>source/kernel/debug_handlers.c\<close>). The record \<open>boot_env\<close> has the addresses of the driver of the console
  and of the functions of the tasks. The locale \<open>boot_hw\<close> is the contract with the hardware: the serial port
  of \<open>Usart\<close>, with its own driver as the console, and a clock that gets ready.
\<close>

record boot_env =
  usart2_drv :: ptr
  cli_fn :: u32
  idle_fn :: u32
  user_fn :: u32
  net_fn :: u32

section \<open>Start of the system\<close>

definition CPACR :: ptr where "CPACR = 0xE000ED88"
definition FPCCR :: ptr where "FPCCR = 0xE000EF34"

definition fpu_init :: "'d platform \<Rightarrow> 'd machine \<Rightarrow> 'd machine" where
  "fpu_init P s =
     (let s = reg_or P CPACR (push_bit (2 * 10) 0b11) s;
          s = reg_or P CPACR (push_bit (2 * 11) 0b11) s
      in reg_or P FPCCR (push_bit 30 1 OR push_bit 31 1) s)"

definition init_memory :: "'d platform \<Rightarrow> 'd machine \<Rightarrow> 'd machine" where
  "init_memory P s =
     (let (k, ss) = static_memory_init (lay P) (kern s, sockets s)
      in s\<lparr>kern := k, sockets := ss, kheap := heap_init (heap_start P) (heap_end P - heap_start P) (kheap s)\<rparr>)"

definition start_console ::
  "'d platform \<Rightarrow> (ptr \<Rightarrow> 'd machine driver_t) \<Rightarrow> boot_env \<Rightarrow> 'd machine \<Rightarrow> 'd machine option" where
  "start_console P D B s = do {
     (r, reg, s) \<leftarrow> driver_register D (usart2_drv B) (registry s, s);
     let s = s\<lparr>registry := reg\<rparr>;
     drv \<leftarrow> driver_find D (umem s) (lit P ''usart2'') (registry s);
     Some (s\<lparr>sinks := snd (console_attach drv (sinks s))\<rparr>)
   }"

definition start_spi :: "'d platform \<Rightarrow> (ptr \<Rightarrow> 'd machine driver_t) \<Rightarrow> 'd machine \<Rightarrow> 'd machine option" where
  "start_spi P D s =
     (let (spi_ret, s) = spi1_configure P s in
      if spi_ret \<noteq> SPI_OK then printk P D (chars ''[!][boot] Couldn'' @ [0x27] @ chars ''t configure SPI1'' @ newline) [] s
      else let (spi_ret, s) = spi1_start P s in
        if spi_ret \<noteq> SPI_OK then printk P D (chars ''[!][boot] Couldn'' @ [0x27] @ chars ''t start SPI1'' @ newline) [] s
        else Some s)"

definition set_priorities :: "'d platform \<Rightarrow> 'd machine \<Rightarrow> 'd machine" where
  "set_priorities P s =
     (let s = reg_write P (NVIC + 0x300 + of_nat USART2_IRQ) 0xC0 s;
          s = SCB_SET_PRIORITY P 2 24 0xD0 s;
          s = SCB_SET_PRIORITY P 3 24 0xE0 s
      in SCB_SET_PRIORITY P 3 16 0xF0 s)"

text \<open>
  A task with a name; \<open>unpriv\<close> is what the code writes to its \<open>unprivileged\<close> field, if it does. The result
  of \<open>create_task\<close> is not checked: writing to a field of NULL is an error.
\<close>

definition boot_task :: "layout \<Rightarrow> u8 \<Rightarrow> u32 \<Rightarrow> ptr \<Rightarrow> u8 option \<Rightarrow> kernel \<Rightarrow> (ptr \<times> kernel) option" where
  "boot_task L priority func name unpriv k =
     (let (task, k) = create_task L priority func 0 k in
      if task = 0 then None
      else Some (task, upd_task task (\<lambda>t. t\<lparr>tcb_name := name, unprivileged := case unpriv of None \<Rightarrow> unprivileged t | Some u \<Rightarrow> u\<rparr>) k))"

definition start_tasks :: "'d platform \<Rightarrow> boot_env \<Rightarrow> kernel \<Rightarrow> kernel option" where
  "start_tasks P B k = do {
     (cli, k) \<leftarrow> boot_task (lay P) 0 (cli_fn B) (lit P ''CLI'') (Some 0) k;
     (idle, k) \<leftarrow> boot_task (lay P) 0xFF (idle_fn B) (lit P ''IDLE'') None k;
     (user, k) \<leftarrow> boot_task (lay P) 1 (user_fn B) (lit P ''user'') None k;
     (net, k) \<leftarrow> boot_task (lay P) 0 (net_fn B) (lit P ''net task'') (Some 0) k;
     k \<leftarrow> scheduler_put_task idle k;
     k \<leftarrow> scheduler_put_task cli k;
     k \<leftarrow> scheduler_put_task user k;
     scheduler_put_task net k
   }"

definition main_init :: "'d platform \<Rightarrow> (ptr \<Rightarrow> 'd machine driver_t) \<Rightarrow> boot_env \<Rightarrow> 'd machine \<Rightarrow> 'd machine option" where
  "main_init P D B s = do {
     let s = fpu_init P (init_memory P s);
     s \<leftarrow> clock_init P s;
     s \<leftarrow> start_console P D B s;
     s \<leftarrow> start_spi P D s;
     let s = set_priorities P (on_kern scheduler_init s);
     s \<leftarrow> printk P D (chars ''[boot] ok, sysclk 84MHz, console=%s'' @ newline) [lit P ''usart2''] s;
     k \<leftarrow> start_tasks P B (kern s);
     Some (systick_init P (s\<lparr>kern := k\<rparr>))
   }"

text \<open>The value of the control register with which a task runs.\<close>

definition task_set_privilege :: "tcb_t \<Rightarrow> u32 \<Rightarrow> u32" where
  "task_set_privilege t control =
     (let control = control AND NOT (push_bit 0 1 OR push_bit 1 1);
          control = control OR push_bit 1 1
      in control OR push_bit 0 (ucast (unprivileged t)))"

section \<open>Faults\<close>

definition panic :: "'d platform \<Rightarrow> (ptr \<Rightarrow> 'd machine driver_t) \<Rightarrow> u8 list \<Rightarrow> u32 list \<Rightarrow> 'd machine \<Rightarrow> 'd machine option" where
  "panic P D fmt args s = map_option snd (kpanicf D (junk P 10) (junk P KPRINTF_BUF_SIZE) (literal P fmt) args s)"

definition fault_bits :: "(u32 \<times> string) list" where
  "fault_bits =
    [(push_bit 0 1, ''  IACCVIOL  - instruction access violation''), (push_bit 1 1, ''  DACCVIOL  - data access violation''),
     (push_bit 3 1, ''  MUNSTKERR - MPU fault during exception return''), (push_bit 4 1, ''  MSTKERR   - MPU fault while stacking''),
     (push_bit 7 1, ''  MMARVALID - MMFAR contains valid address'')]"

fun report_bits :: "'d platform \<Rightarrow> (ptr \<Rightarrow> 'd machine driver_t) \<Rightarrow> u32 \<Rightarrow> (u32 \<times> string) list \<Rightarrow> 'd machine \<Rightarrow> 'd machine option" where
  "report_bits P D cfsr [] s = Some s"
| "report_bits P D cfsr ((b, t) # bs) s = do {
     s \<leftarrow> (if cfsr AND b \<noteq> 0 then panic P D (chars t @ newline) [] s else Some s);
     report_bits P D cfsr bs s
   }"

fun report_registers :: "'d platform \<Rightarrow> (ptr \<Rightarrow> 'd machine driver_t) \<Rightarrow> u32 list \<Rightarrow> (nat \<times> string) list \<Rightarrow> 'd machine \<Rightarrow> 'd machine option" where
  "report_registers P D stack [] s = Some s"
| "report_registers P D stack ((i, name) # rs) s = do {
     v \<leftarrow> fetch stack i;
     s \<leftarrow> panic P D (chars name @ chars '': %x'' @ newline) [v] s;
     report_registers P D stack rs s
   }"

text \<open>The report, and the handler, which does not return; \<open>stack\<close> is the frame the exception pushed.\<close>

definition mem_fault_report :: "'d platform \<Rightarrow> (ptr \<Rightarrow> 'd machine driver_t) \<Rightarrow> u32 list \<Rightarrow> 'd machine \<Rightarrow> 'd machine option" where
  "mem_fault_report P D stack s = do {
     let (cfsr, s) = reg_read P (SCB + 0x28) s;
     let (mmfar, s) = reg_read P (SCB + 0x34) s;
     s \<leftarrow> panic P D newline [] s;
     s \<leftarrow> panic P D (chars ''========== MEMMANAGE FAULT =========='' @ newline) [] s;
     s \<leftarrow> panic P D (chars ''CFSR: %x'' @ newline) [cfsr] s;
     s \<leftarrow> panic P D (chars ''MMFAR: %x'' @ newline) [mmfar] s;
     s \<leftarrow> panic P D (chars ''MMFSR: '' @ newline) [] s;
     s \<leftarrow> report_bits P D cfsr fault_bits s;
     s \<leftarrow> panic P D (newline @ chars ''Stacked registers:'' @ newline) [] s;
     s \<leftarrow> report_registers P D stack
       [(0, ''R0''), (1, ''R1''), (2, ''R2''), (3, ''R3''), (4, ''R12''), (5, ''LR''), (6, ''PC''), (7, ''xPSR'')] s;
     panic P D (chars ''====================================='' @ newline) [] s
   }"

definition mem_fault_callback :: "'d platform \<Rightarrow> (ptr \<Rightarrow> 'd machine driver_t) \<Rightarrow> u32 list \<Rightarrow> 'd machine \<Rightarrow> 'd machine option" where
  "mem_fault_callback P D stack s = do { s \<leftarrow> mem_fault_report P D stack s; None }"

section \<open>A kernel without tasks\<close>

definition blank :: "kernel \<Rightarrow> bool" where
  "blank k \<longleftrightarrow> (\<forall>l. queue_at k l = \<lparr>q_head = 0, q_tail = 0\<rparr>) \<and> (\<forall>x. tcb_state (tcbs k x) = TASK_UNUSED) \<and>
     \<not> pendsv_set k \<and> current_task k = 0"

lemma blank_iff:
  "blank k \<longleftrightarrow> ready_queue k = \<lparr>q_head = 0, q_tail = 0\<rparr> \<and> sleep_list k = \<lparr>q_head = 0, q_tail = 0\<rparr> \<and>
     (\<forall>p. sem_wait_queue (sems k p) = \<lparr>q_head = 0, q_tail = 0\<rparr>) \<and>
     (\<forall>m. mutex_wait_queue (mutexes k m) = \<lparr>q_head = 0, q_tail = 0\<rparr>) \<and>
     (\<forall>x. tcb_state (tcbs k x) = TASK_UNUSED) \<and> \<not> pendsv_set k \<and> current_task k = 0"
proof -
  have "(\<forall>l. queue_at k l = q) \<longleftrightarrow> ready_queue k = q \<and> sleep_list k = q \<and> (\<forall>p. sem_wait_queue (sems k p) = q) \<and>
      (\<forall>m. mutex_wait_queue (mutexes k m) = q)" if "q = \<lparr>q_head = 0, q_tail = 0\<rparr>" for q
    using that by (metis place.exhaust queue_at.simps)
  then show ?thesis by (simp add: blank_def)
qed

lemma blank_rep:
  assumes "blank k"
  shows "kernel_rep k (\<lambda>_. [])"
proof -
  have "ordered_at (tcbs k) l []" for l by (cases l) simp_all
  with assms show ?thesis by (simp add: kernel_rep_def place_ok_def blank_def)
qed

lemma blank_zero: "blank zero_kernel"
  by (simp add: blank_iff)

lemma blank_upd:
  "blank k \<Longrightarrow> tcb_state (f (tcbs k p)) = TASK_UNUSED \<Longrightarrow> blank (upd_task p f k)"
  "blank k \<Longrightarrow> sem_wait_queue (g (sems k p)) = \<lparr>q_head = 0, q_tail = 0\<rparr> \<Longrightarrow> blank (upd_sem p g k)"
  "blank k \<Longrightarrow> mutex_wait_queue (h (mutexes k p)) = \<lparr>q_head = 0, q_tail = 0\<rparr> \<Longrightarrow> blank (upd_mutex p h k)"
  by (simp_all add: blank_iff upd_task_def upd_sem_def upd_mutex_def)

lemma blank_fold:
  assumes "blank k" "\<And>i k. blank k \<Longrightarrow> blank (f i k)"
  shows "blank (fold f xs k)"
  using assms by (induction xs arbitrary: k) auto

lemma blank_static_memory: "blank k \<Longrightarrow> blank (fst (static_memory_init L (k, ss)))"
  by (simp add: static_memory_init_def mutex_memory_init_def semaphore_memory_init_def task_memory_init_def)
    (intro blank_fold; auto intro!: blank_upd simp: blank_iff)

lemma blank_scheduler: "blank k \<Longrightarrow> blank (scheduler_init k)"
  by (simp add: blank_iff scheduler_init_def)

lemma blank_sem_create:
  assumes "blank (kern s)" "svc_sem_create P n s = Some (p, y, s')"
  shows "\<not> y" "\<exists>k. s' = s\<lparr>kern := k\<rparr> \<and> blank k"
proof -
  have "blank (snd (alloc_sem (lay P) (kern s)))"
    using assms(1) by (auto simp: alloc_sem_def intro!: blank_upd split: option.split) (simp add: blank_iff)
  then have "blank (semaphore_init q n (snd (alloc_sem (lay P) (kern s))))" for q
    by (auto simp: semaphore_init_def intro!: blank_upd)
  then show "\<not> y" "\<exists>k. s' = s\<lparr>kern := k\<rparr> \<and> blank k"
    using assms(2) \<open>blank (snd (alloc_sem _ _))\<close> by (auto simp: svc_sem_create_def Let_def split: prod.splits if_splits)
qed

lemma blank_post:
  assumes "blank k"
  shows "\<exists>r k'. semaphore_post p k = Some (r, k') \<and> blank k'"
proof -
  have "sem_wait_queue (sems k p) = \<lparr>q_head = 0, q_tail = 0\<rparr>" using assms by (simp add: blank_iff)
  moreover have "blank (upd_sem p g (upd_sem p f k))"
    if "\<And>s. sem_wait_queue (g s) = sem_wait_queue s" "\<And>s. sem_wait_queue (f s) = \<lparr>q_head = 0, q_tail = 0\<rparr>" for f g
    using assms that by (simp add: blank_iff upd_sem_def)
  ultimately show ?thesis using assms by (simp add: semaphore_post_def queue_pop_def)
qed

section \<open>Starting the tasks\<close>

lemma boot_task_slot:
  assumes "layout_ok L" "kernel_rep k Q" "i < N_TASKS"
    and free: "\<And>j. j < N_TASKS \<Longrightarrow> tcb_state (tcbs k (task_slot L j)) = (if j < i then TASK_READY else TASK_UNUSED)"
  shows "\<exists>k'. boot_task L prio func name unpriv k = Some (task_slot L i, k') \<and> kernel_rep k' Q \<and>
     (\<forall>x. x \<noteq> task_slot L i \<longrightarrow> tcbs k' x = tcbs k x) \<and>
     (\<forall>j < N_TASKS. tcb_state (tcbs k' (task_slot L j)) = (if j < Suc i then TASK_READY else TASK_UNUSED)) \<and>
     (let t = tcbs k' (task_slot L i) in effective_priority t = prio \<and> base_priority t = prio \<and> tcb_function t = func \<and> tcb_name t = name \<and>
        unprivileged t = (case unpriv of None \<Rightarrow> 1 | Some u \<Rightarrow> u)) \<and>
     current_task k' = current_task k"
proof -
  have fr: "free_task_slot L k i" "\<And>j. j < i \<Longrightarrow> \<not> free_task_slot L k j" using free assms(3) by (auto simp: free_task_slot_def)
  obtain f where c: "create_task L prio func 0 k = (task_slot L i, upd_task (task_slot L i) f k)"
    and f: "\<And>t. tcb_state (f t) = TASK_READY \<and> effective_priority (f t) = prio \<and> base_priority (f t) = prio \<and>
      tcb_function (f t) = func \<and> unprivileged (f t) = 1"
    using create_task_some [OF assms(1) fr, where prio = prio and func = func and args = 0] by fastforce
  have nz: "task_slot L i \<noteq> 0" using assms(1,3) elem_nonnull by (auto simp: layout_ok_def task_slot_def)
  have inj: "task_slot L j = task_slot L i \<longleftrightarrow> j = i" if "j < N_TASKS" for j
    using that assms(1,3) elem_inj by (auto simp: layout_ok_def task_slot_def)
  have nq: "task_slot L i \<notin> set (Q l)" for l by (rule task_slot_free_queue [OF assms(2) fr(1)])
  let ?k = "snd (create_task L prio func 0 k)"
  have rep1: "kernel_rep ?k Q"
    unfolding c snd_conv by (rule kernel_rep_upd_off [OF assms(2) nq]) (simp add: f)
  show ?thesis
    unfolding boot_task_def c using nz
    by (simp add: Let_def, intro conjI kernel_rep_upd_off)
      (use assms(2) rep1 nq free inj c f in \<open>auto split: option.splits\<close>)
qed

text \<open>What the scheduler leaves of a task: all but the link.\<close>

definition same_tasks :: "kernel \<Rightarrow> kernel \<Rightarrow> bool" where
  "same_tasks k k' \<longleftrightarrow> (\<forall>x. \<exists>n. tcbs k' x = (tcbs k x)\<lparr>tcb_next := n\<rparr>) \<and> current_task k' = current_task k"

lemma same_tasksD:
  assumes "same_tasks k k'"
  shows "tcb_state (tcbs k' x) = tcb_state (tcbs k x)" "effective_priority (tcbs k' x) = effective_priority (tcbs k x)"
    "base_priority (tcbs k' x) = base_priority (tcbs k x)" "tcb_function (tcbs k' x) = tcb_function (tcbs k x)"
    "tcb_name (tcbs k' x) = tcb_name (tcbs k x)" "unprivileged (tcbs k' x) = unprivileged (tcbs k x)" "current_task k' = current_task k"
proof -
  obtain n where "tcbs k' x = (tcbs k x)\<lparr>tcb_next := n\<rparr>" using assms by (auto simp: same_tasks_def)
  then show "tcb_state (tcbs k' x) = tcb_state (tcbs k x)" "effective_priority (tcbs k' x) = effective_priority (tcbs k x)"
    "base_priority (tcbs k' x) = base_priority (tcbs k x)" "tcb_function (tcbs k' x) = tcb_function (tcbs k x)"
    "tcb_name (tcbs k' x) = tcb_name (tcbs k x)" "unprivileged (tcbs k' x) = unprivileged (tcbs k x)" by simp_all
  show "current_task k' = current_task k" using assms by (simp add: same_tasks_def)
qed

lemma put_ready_task:
  assumes rep: "kernel_rep k ((\<lambda>_. [])(Ready := xs))" and t: "tcb_state (tcbs k t) = TASK_READY" "t \<noteq> 0" "t \<notin> set xs"
    and ys: "ys = insert_by (\<lambda>x. effective_priority (tcbs k x)) t xs"
  shows "\<exists>k'. scheduler_put_task t k = Some k' \<and> same_tasks k k' \<and> kernel_rep k' ((\<lambda>_. [])(Ready := ys))"
proof -
  have run: "can_run k t" using t by (simp add: can_run_def)
  have same: "upd_task t (\<lambda>t. t\<lparr>tcb_state := TASK_READY\<rparr>) k = k"
  proof -
    have "(tcbs k t)\<lparr>tcb_state := TASK_READY\<rparr> = tcbs k t" using t(1) by (cases "tcbs k t") simp
    then show ?thesis by (simp add: upd_task_def)
  qed
  obtain q ts where re: "priority_queue_reoder (ready_queue k) t (tcbs k) = Some (q, ts)" "entered (tcbs k) Ready t xs q ts"
    using reoder_enters [OF rep _ t(2), of Ready "tcbs k"] t(1) by (auto simp: place_of_def)
  then have "scheduler_put_task t k = Some (k\<lparr>ready_queue := q, tcbs := ts\<rparr>)"
    using run same by (auto simp: scheduler_put_task_def can_run_def priority_queue_reoder_def)
  moreover have "same_tasks k (k\<lparr>ready_queue := q, tcbs := ts\<rparr>)"
    using re(2) by (auto simp: entered_def same_tasks_def next_frame_def Let_def)
  moreover have "remove1 t xs = xs" using t(3) by (simp add: remove1_idem)
  ultimately show ?thesis
    using scheduler_put_task_accept [OF rep run] run by (auto simp: put_ready_def ys)
qed

text \<open>
  The tasks that \<open>main\<close> creates are in the first slots; the ready queue is in the order of their priorities,
  and of the calls for equal ones.
\<close>

definition booted :: "'d platform \<Rightarrow> boot_env \<Rightarrow> kernel \<Rightarrow> bool" where
  "booted P B k \<longleftrightarrow> (let slot = task_slot (lay P); task = (\<lambda>i p f u. let t = tcbs k (slot i) in
       tcb_state t = TASK_READY \<and> effective_priority t = p \<and> base_priority t = p \<and> tcb_function t = f \<and> unprivileged t = u) in
     task 0 0 (cli_fn B) 0 \<and> task 1 0xFF (idle_fn B) 1 \<and> task 2 1 (user_fn B) 1 \<and> task 3 0 (net_fn B) 0 \<and>
     (\<forall>i < N_TASKS. 4 \<le> i \<longrightarrow> tcb_state (tcbs k (slot i)) = TASK_UNUSED) \<and>
     kernel_rep k ((\<lambda>_. [])(Ready := [slot 0, slot 3, slot 2, slot 1])) \<and> current_task k = 0)"

lemma task_slot_facts:
  assumes "layout_ok L"
  shows "i < N_TASKS \<Longrightarrow> task_slot L i \<noteq> 0" "i < N_TASKS \<Longrightarrow> j < N_TASKS \<Longrightarrow> task_slot L i = task_slot L j \<longleftrightarrow> i = j"
  using assms elem_nonnull elem_inj by (auto simp: layout_ok_def task_slot_def)

text \<open>The tasks have been created and are in no queue yet.\<close>

definition created :: "'d platform \<Rightarrow> boot_env \<Rightarrow> kernel \<Rightarrow> bool" where
  "created P B k \<longleftrightarrow> (let slot = task_slot (lay P); task = (\<lambda>i p f u. let t = tcbs k (slot i) in
       effective_priority t = p \<and> base_priority t = p \<and> tcb_function t = f \<and> unprivileged t = u) in
     task 0 0 (cli_fn B) 0 \<and> task 1 0xFF (idle_fn B) 1 \<and> task 2 1 (user_fn B) 1 \<and> task 3 0 (net_fn B) 0 \<and>
     (\<forall>i < N_TASKS. tcb_state (tcbs k (slot i)) = (if i < 4 then TASK_READY else TASK_UNUSED)) \<and>
     kernel_rep k (\<lambda>_. []) \<and> current_task k = 0)"

lemma boot_tasks_created:
  assumes ok: "layout_ok (lay P)" and "blank k"
  shows "\<exists>k1 k2 k3 k4. boot_task (lay P) 0 (cli_fn B) (lit P ''CLI'') (Some 0) k = Some (task_slot (lay P) 0, k1) \<and>
     boot_task (lay P) 0xFF (idle_fn B) (lit P ''IDLE'') None k1 = Some (task_slot (lay P) 1, k2) \<and>
     boot_task (lay P) 1 (user_fn B) (lit P ''user'') None k2 = Some (task_slot (lay P) 2, k3) \<and>
     boot_task (lay P) 0 (net_fn B) (lit P ''net task'') (Some 0) k3 = Some (task_slot (lay P) 3, k4) \<and> created P B k4"
proof -
  let ?s = "task_slot (lay P)"
  note One_nat_def [simp del]
  have rep: "kernel_rep k (\<lambda>_. [])" using assms(2) by (rule blank_rep)
  have N: "N_TASKS = 8" by (simp add: N_TASKS_def)
  note eq = task_slot_facts [OF ok, unfolded N]
  have st: "tcb_state (tcbs k (?s j)) = (if j < 0 then TASK_READY else TASK_UNUSED)" for j using assms(2) by (simp add: blank_def)
  note b1 = boot_task_slot [OF ok rep _ st, of 0 "cli_fn B" "lit P ''CLI''" "Some 0", unfolded N Let_def]
  obtain k1 where k1: "boot_task (lay P) 0 (cli_fn B) (lit P ''CLI'') (Some 0) k = Some (?s 0, k1)" "kernel_rep k1 (\<lambda>_. [])"
    "\<And>j. j < 8 \<Longrightarrow> tcb_state (tcbs k1 (?s j)) = (if j < 1 then TASK_READY else TASK_UNUSED)"
    "effective_priority (tcbs k1 (?s 0)) = 0" "base_priority (tcbs k1 (?s 0)) = 0" "tcb_function (tcbs k1 (?s 0)) = cli_fn B"
    "unprivileged (tcbs k1 (?s 0)) = 0" "current_task k1 = 0"
    using b1 assms(2) by (auto simp: blank_def One_nat_def)
  note b2 = boot_task_slot [OF ok k1(2) _ k1(3), of "0xFF" "idle_fn B" "lit P ''IDLE''" None, unfolded N Let_def]
  obtain k2 where k2: "boot_task (lay P) 0xFF (idle_fn B) (lit P ''IDLE'') None k1 = Some (?s 1, k2)" "kernel_rep k2 (\<lambda>_. [])"
    "\<And>x. x \<noteq> ?s 1 \<Longrightarrow> tcbs k2 x = tcbs k1 x"
    "\<And>j. j < 8 \<Longrightarrow> tcb_state (tcbs k2 (?s j)) = (if j < 2 then TASK_READY else TASK_UNUSED)"
    "effective_priority (tcbs k2 (?s 1)) = 0xFF" "base_priority (tcbs k2 (?s 1)) = 0xFF" "tcb_function (tcbs k2 (?s 1)) = idle_fn B"
    "unprivileged (tcbs k2 (?s 1)) = 1" "current_task k2 = 0"
    using b2 k1(8) by (auto simp: numeral_2_eq_2 One_nat_def)
  note b3 = boot_task_slot [OF ok k2(2) _ k2(4), of 1 "user_fn B" "lit P ''user''" None, unfolded N Let_def]
  obtain k3 where k3: "boot_task (lay P) 1 (user_fn B) (lit P ''user'') None k2 = Some (?s 2, k3)" "kernel_rep k3 (\<lambda>_. [])"
    "\<And>x. x \<noteq> ?s 2 \<Longrightarrow> tcbs k3 x = tcbs k2 x"
    "\<And>j. j < 8 \<Longrightarrow> tcb_state (tcbs k3 (?s j)) = (if j < 3 then TASK_READY else TASK_UNUSED)"
    "effective_priority (tcbs k3 (?s 2)) = 1" "base_priority (tcbs k3 (?s 2)) = 1" "tcb_function (tcbs k3 (?s 2)) = user_fn B"
    "unprivileged (tcbs k3 (?s 2)) = 1" "current_task k3 = 0"
    using b3 k2(9) by (auto simp: numeral_3_eq_3)
  have suc: "Suc 3 = 4" by simp
  obtain k4 where k4: "boot_task (lay P) 0 (net_fn B) (lit P ''net task'') (Some 0) k3 = Some (?s 3, k4)" "kernel_rep k4 (\<lambda>_. [])"
    "\<And>x. x \<noteq> ?s 3 \<Longrightarrow> tcbs k4 x = tcbs k3 x"
    "\<And>j. j < 8 \<Longrightarrow> tcb_state (tcbs k4 (?s j)) = (if j < 4 then TASK_READY else TASK_UNUSED)"
    "effective_priority (tcbs k4 (?s 3)) = 0" "base_priority (tcbs k4 (?s 3)) = 0" "tcb_function (tcbs k4 (?s 3)) = net_fn B"
    "unprivileged (tcbs k4 (?s 3)) = 0" "current_task k4 = 0"
    using boot_task_slot [OF ok k3(2) _ k3(4), of 0 "net_fn B" "lit P ''net task''" "Some 0", unfolded N Let_def suc] k3(9) by auto
  have "tcbs k4 (?s 0) = tcbs k1 (?s 0)" "tcbs k4 (?s 1) = tcbs k2 (?s 1)" "tcbs k4 (?s 2) = tcbs k3 (?s 2)"
    by (simp_all add: k2(3) k3(3) k4(3) eq)
  then have "created P B k4" using k1 k2 k3 k4 by (simp add: created_def Let_def N)
  with k1(1) k2(1) k3(1) k4(1) show ?thesis by blast
qed

lemma start_tasks_booted:
  assumes ok: "layout_ok (lay P)" and "blank k"
  shows "\<exists>k'. start_tasks P B k = Some k' \<and> booted P B k'"
proof -
  let ?s = "task_slot (lay P)"
  note One_nat_def [simp del]
  have N: "N_TASKS = 8" by (simp add: N_TASKS_def)
  note eq = task_slot_facts [OF ok, unfolded N]
  obtain k1 k2 k3 k4 where b: "boot_task (lay P) 0 (cli_fn B) (lit P ''CLI'') (Some 0) k = Some (?s 0, k1)"
    "boot_task (lay P) 0xFF (idle_fn B) (lit P ''IDLE'') None k1 = Some (?s 1, k2)"
    "boot_task (lay P) 1 (user_fn B) (lit P ''user'') None k2 = Some (?s 2, k3)"
    "boot_task (lay P) 0 (net_fn B) (lit P ''net task'') (Some 0) k3 = Some (?s 3, k4)" and c: "created P B k4"
    using boot_tasks_created [OF assms, of B] by blast
  have prio: "effective_priority (tcbs k4 (?s 0)) = 0" "effective_priority (tcbs k4 (?s 1)) = 0xFF"
    "effective_priority (tcbs k4 (?s 2)) = 1" "effective_priority (tcbs k4 (?s 3)) = 0"
    using c by (simp_all add: created_def Let_def)
  have ready: "tcb_state (tcbs k4 (?s j)) = TASK_READY" if "j < 4" for j using c that by (simp add: created_def Let_def N)
  have rep4: "kernel_rep k4 ((\<lambda>_. [])(Ready := []))" using c by (simp add: created_def Let_def fun_upd_idem)
  obtain k5 where k5: "scheduler_put_task (?s 1) k4 = Some k5" "same_tasks k4 k5" "kernel_rep k5 ((\<lambda>_. [])(Ready := [?s 1]))"
    using put_ready_task [OF rep4 _ _ _ refl, of "?s 1"] ready eq by auto
  note p5 = same_tasksD [OF k5(2)]
  obtain k6 where k6: "scheduler_put_task (?s 0) k5 = Some k6" "same_tasks k5 k6" "kernel_rep k6 ((\<lambda>_. [])(Ready := [?s 0, ?s 1]))"
    using put_ready_task [OF k5(3) _ _ _ refl, of "?s 0"] ready eq prio by (auto simp: p5)
  note p6 = same_tasksD [OF k6(2)]
  obtain k7 where k7: "scheduler_put_task (?s 2) k6 = Some k7" "same_tasks k6 k7" "kernel_rep k7 ((\<lambda>_. [])(Ready := [?s 0, ?s 2, ?s 1]))"
    using put_ready_task [OF k6(3) _ _ _ refl, of "?s 2"] ready eq prio by (auto simp: p5 p6)
  note p7 = same_tasksD [OF k7(2)]
  obtain k8 where k8: "scheduler_put_task (?s 3) k7 = Some k8" "same_tasks k7 k8"
    "kernel_rep k8 ((\<lambda>_. [])(Ready := [?s 0, ?s 3, ?s 2, ?s 1]))"
    using put_ready_task [OF k7(3) _ _ _ refl, of "?s 3"] ready eq prio by (auto simp: p5 p6 p7)
  note p8 = same_tasksD [OF k8(2)]
  have "start_tasks P B k = Some k8" by (simp add: start_tasks_def b k5(1) k6(1) k7(1) k8(1))
  moreover have "booted P B k8" using k8(3) c by (simp add: booted_def created_def Let_def p5 p6 p7 p8 N)
  ultimately show ?thesis by blast
qed

text \<open>The tasks that run privileged: the command line and the network task, no others.\<close>

lemma task_privileges:
  assumes "booted P B k" "i < 4"
  shows "bit (task_set_privilege (tcbs k (task_slot (lay P) i)) control) 0 \<longleftrightarrow> i = 1 \<or> i = 2"
    "bit (task_set_privilege (tcbs k (task_slot (lay P) i)) control) 1"
proof -
  have u: "unprivileged (tcbs k (task_slot (lay P) i)) = (if i = 1 \<or> i = 2 then 1 else 0)"
    using assms by (auto simp: booted_def Let_def less_Suc_eq numeral_eq_Suc)
  show "bit (task_set_privilege (tcbs k (task_slot (lay P) i)) control) 0 \<longleftrightarrow> i = 1 \<or> i = 2"
    "bit (task_set_privilege (tcbs k (task_slot (lay P) i)) control) 1"
    by (auto simp: task_set_privilege_def u bit_simps)
qed

section \<open>Bringing the system up\<close>

text \<open>The format and the text of the only line that \<open>main\<close> prints when all goes well.\<close>

definition boot_format :: "u8 list" where
  "boot_format = chars ''[boot] ok, sysclk 84MHz, console=%s'' @ newline"

definition boot_line :: "u8 list" where
  "boot_line = chars ''[boot] ok, sysclk 84MHz, console=usart2'' @ newline"

lemma boot_line_rendered: "p \<noteq> 0 \<Longrightarrow> render [p \<mapsto> chars ''usart2''] boot_format [p] = Some boot_line"
  by (simp add: boot_format_def boot_line_def chars_def spec_of_def is_digit_def width_of_def conv_text_def)

text \<open>A ring buffer as it is initialised.\<close>

definition clear_ring :: ring_buffer_t where
  "clear_ring = \<lparr>rb_buffer = replicate 16 0, rb_size = 16, rb_head = 0, rb_tail = 0\<rparr>"

lemma clear_ring: "rb_ok clear_ring" "rb_content clear_ring = []" "\<not> ring_buffer_full clear_ring" "rb_size clear_ring = of_nat TX_BUFFER_SIZE"
  by (simp_all add: clear_ring_def rb_ok_def rb_content_def rb_count_def ring_buffer_full_def TX_BUFFER_SIZE_def)

text \<open>
  What the start relies on: the serial port behaves as its manual says, and nothing but accesses to its
  registers makes it send; the oscillator and the clock get ready; \<open>m\<close>, the memory, has the string
  literals; the serial port's interrupt is taken while \<open>main\<close> waits, and no bytes arrive then.
\<close>

locale boot_hw = usart_env P sent ctl incoming busy arrive
  for P :: "'d platform" and sent ctl incoming busy arrive +
  fixes D :: "ptr \<Rightarrow> 'd machine driver_t" and B :: boot_env and m :: mem
  assumes layout: "layout_ok (lay P)"
    and clock: "\<exists>d. clock_init P s = Some (s\<lparr>dev := d\<rparr>) \<and> sent d = sent (dev s)"
    and apart: "a \<noteq> USART2 \<Longrightarrow> a \<noteq> USART2 + 4 \<Longrightarrow> a \<noteq> USART2 + 0xC \<Longrightarrow>
      sent (bus_write (hw P) a v d) = sent d \<and> sent (snd (bus_read (hw P) a d)) = sent d"
    and waits: "spin P = interrupts P incoming"
    and driver: "usart2_drv B \<noteq> 0" "D (usart2_drv B) = usart2_driver P" "lit P ''usart2'' \<noteq> 0"
    and literals: "is_string m (lit P ''usart2'') (chars ''usart2'')" "is_string m (literal P boot_format) boot_format"
    and arrays: "length (junk P n) = n"
begin

text \<open>Steps of the devices in which nothing is sent.\<close>

definition quiet :: "'d machine \<Rightarrow> 'd machine \<Rightarrow> bool" where
  "quiet s t \<longleftrightarrow> (\<exists>d. t = s\<lparr>dev := d\<rparr> \<and> sent d = sent (dev s))"

lemma quiet_refl: "quiet s s"
  unfolding quiet_def by (intro exI [of _ "dev s"]) simp

lemma quiet_fields:
  assumes "quiet s t"
  shows "kern t = kern s" "umem t = umem s" "sinks t = sinks s" "registry t = registry s" "spi_state t = spi_state s" "kheap t = kheap s"
    "tx_ring_buffer t = tx_ring_buffer s" "rx_ring_buffer t = rx_ring_buffer s" "sent (dev t) = sent (dev s)"
  using assms by (auto simp: quiet_def)

lemma quiet_reg:
  assumes "quiet s t" "a \<noteq> USART2" "a \<noteq> USART2 + 4"
  shows "quiet s (reg_write P a v t)" "quiet s (reg_or P a v t)" "quiet s (reg_and P a v t)"
proof -
  obtain d where d: "t = s\<lparr>dev := d\<rparr>" "sent d = sent (dev s)" using assms(1) by (auto simp: quiet_def)
  have w: "sent (bus_write (hw P) a v d) = sent d" for v d
    using assms(2,3) apart [of a v d] write_cr1 [of v d] by (cases "a = USART2 + 0xC") auto
  have r: "sent (snd (bus_read (hw P) a d)) = sent d" for d
    using assms(2,3) apart [of a _ d] read_cr1 [of d] by (cases "a = USART2 + 0xC"; cases "bus_read (hw P) a d") auto
  show "quiet s (reg_write P a v t)" "quiet s (reg_or P a v t)" "quiet s (reg_and P a v t)"
    using d by (auto simp: quiet_def w r reg_write_def reg_or_def reg_and_def bus_or_def bus_and_def case_prod_unfold Let_def)
qed

lemma quiet_field: "quiet s t \<Longrightarrow> a \<noteq> USART2 \<Longrightarrow> a \<noteq> USART2 + 4 \<Longrightarrow> quiet s (set_field P a msk v pos t)"
  unfolding set_field_def by (intro quiet_reg)

lemmas quiet_intros = quiet_refl quiet_reg quiet_field

lemmas address_defs = USART2_def USART2_IRQ_def RCC_def GPIOA_def NVIC_def SCB_def STK_def SPI1_def CPACR_def FPCCR_def

text \<open>The machine before a task has been created: nothing is received and nothing waits to be sent.\<close>

definition booting :: "'d machine \<Rightarrow> 'd machine \<Rightarrow> bool" where
  "booting s t \<longleftrightarrow> umem t = m \<and> blank (kern t) \<and> tx_ring_buffer t = clear_ring \<and> rx_ring_buffer t = clear_ring \<and> sent (dev t) = sent (dev s)"

lemma usart_started:
  assumes "booting s t"
  shows "\<exists>t'. usart2_drv_init P t = Some (0, t') \<and> booting s t' \<and> sinks t' = sinks t \<and> registry t' = registry t \<and>
     spi_state t' = spi_state t \<and> kheap t' = kheap t"
proof -
  have create: "\<exists>p k. sys_sem_create P 0 u = Some (p, u\<lparr>kern := k\<rparr>) \<and> blank k" if "kern u = kern t" for u
  proof -
    obtain p y u' where c: "svc_sem_create P 0 u = Some (p, y, u')" by (auto simp: svc_sem_create_def Let_def case_prod_unfold)
    from blank_sem_create [OF _ c] assms that obtain k where "u' = u\<lparr>kern := k\<rparr>" "blank k" "\<not> y" by (auto simp: booting_def)
    moreover from this c have "sys_sem_create P 0 u = Some (p, u\<lparr>kern := k\<rparr>)"
      by (simp add: sys_sem_create_def svc_call_def svc_finish_def svc_return_def blank_def)
    ultimately show ?thesis by blast
  qed
  have clear: "clear_ring\<lparr>rb_buffer := replicate TX_BUFFER_SIZE 0\<rparr> = clear_ring" "clear_ring\<lparr>rb_buffer := replicate RX_BUFFER_SIZE 0\<rparr> = clear_ring"
    by (simp_all add: clear_ring_def TX_BUFFER_SIZE_def RX_BUFFER_SIZE_def)
  have "\<exists>u. quiet t u \<and> usart2_init P t =
      (let u = u\<lparr>tx_ring_buffer := (tx_ring_buffer u)\<lparr>rb_buffer := replicate TX_BUFFER_SIZE 0\<rparr>\<rparr>;
           u = u\<lparr>rx_ring_buffer := (rx_ring_buffer u)\<lparr>rb_buffer := replicate RX_BUFFER_SIZE 0\<rparr>\<rparr>
       in Option.bind (sys_sem_create P 0 u) (\<lambda>(sem, s). Some (s\<lparr>rx_sem := sem\<rparr>)))"
    unfolding usart2_init_def Let_def gpio_defs NVIC_ENABLE_IRQ_def
    by (rule exI, rule conjI [rotated], rule refl) (intro quiet_intros; simp add: address_defs)
  then obtain u where u: "quiet t u" "usart2_init P t =
      Option.bind (sys_sem_create P 0 (u\<lparr>tx_ring_buffer := clear_ring, rx_ring_buffer := clear_ring\<rparr>)) (\<lambda>(sem, s). Some (s\<lparr>rx_sem := sem\<rparr>))"
    using assms by (auto simp: booting_def quiet_fields Let_def clear)
  with create [of "u\<lparr>tx_ring_buffer := clear_ring, rx_ring_buffer := clear_ring\<rparr>"] assms quiet_fields [OF u(1)]
  show ?thesis by (auto simp: usart2_drv_init_def booting_def)
qed

lemma console_started:
  assumes "booting s t" "registry t = replicate DRIVER_MAX 0" "sinks t = [0, 0, 0, 0]"
  shows "\<exists>t'. start_console P D B t = Some t' \<and> booting s t' \<and> sinks t' = [usart2_drv B, 0, 0, 0] \<and>
     spi_state t' = spi_state t \<and> kheap t' = kheap t"
proof -
  obtain u where u: "usart2_drv_init P t = Some (0, u)" "booting s u" "registry u = registry t" "sinks u = sinks t"
    "spi_state u = spi_state t" "kheap u = kheap t" using usart_started [OF assms(1)] by blast
  have name: "drv_name (D (usart2_drv B)) = lit P ''usart2''" by (simp add: driver usart2_driver_def lit_def chars_def)
  have reg: "driver_register D (usart2_drv B) (registry t, t) = Some (0, usart2_drv B # replicate 7 0, u)"
    using driver(1,3) name u(1) assms(2)
    by (simp add: driver_register_def DRIVER_MAX_def eval_nat_numeral) (simp add: driver(2) usart2_driver_def)
  obtain r where "strcmp m (lit P ''usart2'') (lit P ''usart2'') = Some r" "r = 0"
    using strcmp_total [OF literals(1) literals(1)] by blast
  then have find: "driver_find D m (lit P ''usart2'') (usart2_drv B # replicate 7 0) = Some (usart2_drv B)"
    using driver(1) by (simp add: name)
  have attach: "snd (console_attach (usart2_drv B) [0, 0, 0, 0]) = [usart2_drv B, 0, 0, 0]"
    using driver(1) by (simp add: console_attach_def)
  have "start_console P D B t = Some (u\<lparr>registry := usart2_drv B # replicate 7 0, sinks := [usart2_drv B, 0, 0, 0]\<rparr>)"
    using u assms(3) attach find unfolding start_console_def reg by (simp add: booting_def del: driver_find.simps)
  with u show ?thesis by (simp add: booting_def)
qed

lemma spi_started:
  assumes "booting s t" "spi_state t = SPI_ST_UNINIT"
  shows "\<exists>t'. start_spi P D t = Some t' \<and> booting s t' \<and> sinks t' = sinks t \<and> spi_state t' = SPI_ST_READY \<and> kheap t' = kheap t"
proof -
  have "\<exists>u. quiet t u \<and> spi1_configure P t = (SPI_OK, u\<lparr>spi_state := SPI_ST_CONFIGURED\<rparr>)"
    unfolding spi1_configure_def assms(2) simp_thms if_False Let_def fold_simps spi1_pin_setup_def spi1_cs_deselect_def gpio_defs
    by (rule exI, rule conjI [rotated], rule refl) (intro quiet_intros; simp add: address_defs)
  then obtain u where u: "quiet t u" "spi1_configure P t = (SPI_OK, u\<lparr>spi_state := SPI_ST_CONFIGURED\<rparr>)" by blast
  with assms quiet_fields [OF u(1)] show ?thesis
    by (simp add: start_spi_def spi1_start_def on_kern_def mutex_init_def blank_upd booting_def)
qed

lemma boot_printed:
  assumes "booting s t" "sinks t = [usart2_drv B, 0, 0, 0]"
  shows "\<exists>t'. printk P D boot_format [lit P ''usart2''] t = Some t' \<and> blank (kern t') \<and> port_step t t' \<and>
     sent (dev t') @ rb_content (tx_ring_buffer t') = sent (dev s) @ boot_line"
proof -
  let ?str = "[lit P ''usart2'' \<mapsto> chars ''usart2'']"
  have len: "length boot_line < 255" by (simp add: boot_line_def chars_def)
  have "is_string (umem t) p xs" if "?str p = Some xs" for p xs
    using that literals(1) assms(1) by (auto simp: booting_def split: if_splits)
  then have "printk P D boot_format [lit P ''usart2''] t = console_write D boot_line (sinks t) t"
    using kprintf_output [of t "literal P boot_format" boot_format ?str "[lit P ''usart2'']" boot_line
        "junk P KPRINTF_BUF_SIZE" "junk P 10" D] literals(2) boot_line_rendered [OF driver(3)] len assms(1)
    by (simp add: printk_def booting_def arrays option.map_comp comp_def option.map_ident)
  also have "\<dots> = map_option snd (usart2_drv_write P boot_line t)"
    using driver(1) by (simp add: assms(2) driver(2) usart2_driver_def map_conv_bind_option case_prod_unfold comp_def)
  also have "\<dots> = putc_all P boot_line t" by (cases "putc_all P boot_line t") (simp_all add: usart2_drv_write_def)
  finally have out: "printk P D boot_format [lit P ''usart2''] t = putc_all P boot_line t" .
  have "usart_ok t" using assms(1) by (simp add: usart_ok_def booting_def clear_ring)
  moreover have "\<not> rx_stuck incoming t \<and> blank (kern t) \<and> port_step t t"
    using assms(1) by (simp add: rx_stuck_def booting_def clear_ring port_step_refl)
  ultimately show ?thesis
    using putc_all_returns [OF interrupts_served [where K = blank, OF blank_post waits], of t t boot_line] assms(1)
    by (auto simp: out outgoing_def booting_def clear_ring)
qed

lemma main_boots:
  assumes "umem s = m" "kern s = zero_kernel" "registry s = replicate DRIVER_MAX 0" "sinks s = [0, 0, 0, 0]" "spi_state s = SPI_ST_UNINIT"
    and "tx_ring_buffer s = clear_ring" "rx_ring_buffer s = clear_ring"
  shows "\<exists>s'. main_init P D B s = Some s' \<and> booted P B (kern s') \<and> system_ticks (kern s') = 0 \<and>
     sinks s' = [usart2_drv B, 0, 0, 0] \<and> spi_state s' = SPI_ST_READY \<and>
     kheap s' = heap_init (heap_start P) (heap_end P - heap_start P) (kheap s) \<and>
     sent (dev s') @ rb_content (tx_ring_buffer s') = sent (dev s) @ boot_line"
proof -
  define s0 where "s0 = fpu_init P (init_memory P s)"
  have "quiet (init_memory P s) s0"
    unfolding s0_def fpu_init_def Let_def by (intro quiet_intros; simp add: address_defs)
  then have s0: "booting s s0" "registry s0 = replicate DRIVER_MAX 0" "sinks s0 = [0, 0, 0, 0]" "spi_state s0 = SPI_ST_UNINIT"
    "kheap s0 = heap_init (heap_start P) (heap_end P - heap_start P) (kheap s)"
    using assms blank_static_memory [OF blank_zero, of "lay P" "sockets s"] quiet_fields [of "init_memory P s" s0]
    by (simp_all add: init_memory_def case_prod_unfold Let_def booting_def)
  obtain s1 where s1: "clock_init P s0 = Some s1" "booting s s1" "registry s1 = replicate DRIVER_MAX 0" "sinks s1 = [0, 0, 0, 0]"
    "spi_state s1 = SPI_ST_UNINIT" "kheap s1 = kheap s0" using clock [of s0] s0 by (auto simp: booting_def)
  obtain s2 where s2: "start_console P D B s1 = Some s2" "booting s s2" "sinks s2 = [usart2_drv B, 0, 0, 0]"
    "spi_state s2 = SPI_ST_UNINIT" "kheap s2 = kheap s0" using console_started [OF s1(2-4)] s1 by auto
  obtain s3 where s3: "start_spi P D s2 = Some s3" "booting s s3" "sinks s3 = [usart2_drv B, 0, 0, 0]"
    "spi_state s3 = SPI_ST_READY" "kheap s3 = kheap s0" using spi_started [OF s2(2,4)] s2 by auto
  define s4 where "s4 = set_priorities P (on_kern scheduler_init s3)"
  have "quiet (on_kern scheduler_init s3) s4"
    unfolding s4_def set_priorities_def SCB_SET_PRIORITY_def Let_def by (intro quiet_intros; simp add: address_defs)
  then have s4: "booting s s4" "sinks s4 = [usart2_drv B, 0, 0, 0]" "spi_state s4 = SPI_ST_READY" "kheap s4 = kheap s0"
    using s3 quiet_fields [of "on_kern scheduler_init s3" s4] by (simp_all add: booting_def blank_scheduler on_kern_def)
  obtain s5 where s5: "printk P D boot_format [lit P ''usart2''] s4 = Some s5" "blank (kern s5)" "port_step s4 s5"
    "sent (dev s5) @ rb_content (tx_ring_buffer s5) = sent (dev s) @ boot_line" using boot_printed [OF s4(1,2)] by blast
  obtain k where k: "start_tasks P B (kern s5) = Some k" "booted P B k" using start_tasks_booted [OF layout s5(2), of B] by auto
  have rep: "kernel_rep (k\<lparr>system_ticks := 0\<rparr>) Q = kernel_rep k Q" for Q by simp
  have "booted P B (k\<lparr>system_ticks := 0\<rparr>)" using k(2) unfolding booted_def rep by simp
  moreover obtain s6 where s6: "systick_init P (s5\<lparr>kern := k\<rparr>) = s6\<lparr>kern := k\<lparr>system_ticks := 0\<rparr>\<rparr>" "quiet (s5\<lparr>kern := k\<rparr>) s6"
  proof
    let ?s6 = "reg_or P STK (push_bit 1 1 OR push_bit 0 1 OR push_bit 2 1)
      (reg_write P (STK + 8) 0 (reg_write P (STK + 4) (84000 - 1) (s5\<lparr>kern := k\<rparr>)))"
    show "systick_init P (s5\<lparr>kern := k\<rparr>) = ?s6\<lparr>kern := k\<lparr>system_ticks := 0\<rparr>\<rparr>"
      by (simp add: systick_init_def on_kern_def Let_def)
    show "quiet (s5\<lparr>kern := k\<rparr>) ?s6" by (intro quiet_intros; simp add: address_defs)
  qed
  moreover have "main_init P D B s = Some (systick_init P (s5\<lparr>kern := k\<rparr>))"
    by (simp add: main_init_def s0_def [symmetric] s1(1) s2(1) s3(1) s4_def [symmetric] s5(1) [unfolded boot_format_def] k(1))
  moreover have "sinks s5 = sinks s4 \<and> spi_state s5 = spi_state s4 \<and> kheap s5 = kheap s4" using s5(3) by (auto simp: port_step_def)
  ultimately show ?thesis
    using s5(4) s4 s0(5) s6(1) quiet_fields [OF s6(2)] by simp
qed

end

lemma booted_switch:
  assumes "booted P B k"
  shows "\<exists>k'. pend_sv_handler k = Some k' \<and> current_task k' = task_slot (lay P) 0"
proof -
  let ?R = "[task_slot (lay P) 0, task_slot (lay P) 3, task_slot (lay P) 2, task_slot (lay P) 1]"
  have rep: "kernel_rep k ((\<lambda>_. [])(Ready := ?R))" and "current_task k = 0" using assms by (simp_all add: booted_def Let_def)
  then have "?R = put_ready k (current_task k) (((\<lambda>_. [])(Ready := ?R)) Ready)" by (simp add: put_ready_def can_run_def)
  from pend_sv_rep [OF rep this] show ?thesis by (metis list.sel(1) list.distinct(1))
qed

section \<open>An example\<close>

text \<open>A board with the serial port of the example before and a clock that is ready at once.\<close>

definition board_bus :: "uart_dev bus" where
  "board_bus = uart_bus\<lparr>bus_read := (\<lambda>a d. if a = RCC then (- 1, d) else if a = RCC + 8 then (push_bit 2 0b10, d) else bus_read uart_bus a d)\<rparr>"

definition board_base :: "uart_dev platform" where
  "board_base = (plain_platform board_bus)\<lparr>literal := (\<lambda>l. if l = chars ''usart2'' then 0x08006000 else 0x08007000)\<rparr>"

definition board :: "uart_dev platform" where
  "board = board_base\<lparr>spin := interrupts board_base rdr\<rparr>"

lemma board: "hw board = board_bus" "lay board = ex_layout" "junk board = (\<lambda>n. replicate n 0xAA)" "spin board = interrupts board rdr"
  "literal board = (\<lambda>l. if l = chars ''usart2'' then 0x08006000 else 0x08007000)"
  by (simp_all add: board_def handler_platform) (simp_all add: board_base_def plain_platform_def)

definition board_mem :: mem where
  "board_mem = store_bytes 0x08007000 boot_format (store_bytes 0x08006000 (chars ''usart2'') (\<lambda>_. 0))"

definition board_env :: boot_env where
  "board_env = \<lparr>usart2_drv = 0x08001000, cli_fn = 0x08000101, idle_fn = 0x08000201, user_fn = 0x08000301, net_fn = 0x08000401\<rparr>"

definition board_reset :: "uart_dev machine" where
  "board_reset = (idle_machine zero_kernel ex_heap \<lparr>line = [], cr1 = 0, rdr = None, shifting = 0\<rparr>)\<lparr>umem := board_mem\<rparr>"

lemma board_clock: "\<exists>d. clock_init board s = Some (s\<lparr>dev := d\<rparr>) \<and> line d = line (dev s)"
proof -
  have w: "reg_write board a v s = s" "reg_or board a v s = s" "reg_and board a v s = s"
    if "a = RCC \<or> a = RCC + 4 \<or> a = RCC + 8 \<or> a = FLASH_ACR" for a v and s :: "uart_dev machine"
  proof -
    have ne: "a \<noteq> USART2" "a \<noteq> USART2 + 4" "a \<noteq> USART2 + 0xC" using that by (elim disjE; simp add: RCC_def USART2_def FLASH_ACR_def)+
    then have "bus_write board_bus a v d = d" "snd (bus_read board_bus a d) = d" for v d
      by (simp_all add: board_bus_def uart_bus_def)
    then show "reg_write board a v s = s" "reg_or board a v s = s" "reg_and board a v s = s"
      by (simp_all add: reg_write_def reg_or_def reg_and_def bus_or_def bus_and_def board case_prod_unfold Let_def)
  qed
  have "wait_bits board RCC msk msk s = Some s" for msk and s :: "uart_dev machine"
    by (subst wait_bits.simps) (simp add: reg_read_def board board_bus_def RCC_def)
  moreover have "wait_bits board (RCC + 8) (push_bit 2 3) (push_bit 2 0b10) s = Some s" for s :: "uart_dev machine"
    by (subst wait_bits.simps) (simp add: reg_read_def board board_bus_def)
  ultimately have "clock_init board s = Some s" by (simp add: clock_init_def w)
  then show ?thesis by (intro exI [of _ "dev s"]) simp
qed

lemma board_literals:
  "is_string board_mem 0x08006000 (chars ''usart2'')" "is_string board_mem 0x08007000 boot_format"
  by code_simp+

interpretation board_uart: uart board_bus line cr1 rdr shifting uart_arrive
  by unfold_locales
    (auto simp: board_bus_def uart_bus_def uart_arrive_def RCC_def USART2_def USART_SR_RXNE_def USART_SR_TXE_def split: if_splits option.splits)

interpretation ex_boot: boot_hw board line cr1 rdr shifting uart_arrive "\<lambda>_. usart2_driver board" board_env board_mem
proof -
  have env: "usart_env board line cr1 rdr shifting uart_arrive"
    unfolding usart_env_def board by (rule board_uart.uart_axioms)
  have ne: "boot_format \<noteq> chars ''usart2''" by (simp add: boot_format_def chars_def)
  show "boot_hw board line cr1 rdr shifting uart_arrive (\<lambda>_. usart2_driver board) board_env board_mem"
    by (intro boot_hw.intro boot_hw_axioms.intro env board_clock ex_layout_ok)
      (use board_literals ex_layout_ok ne in \<open>auto simp: board lit_def board_env_def board_bus_def uart_bus_def split: option.split\<close>)
qed

section \<open>Properties\<close>

text \<open>C36: The system starts: on hardware whose clock gets ready, with a serial port that behaves as its
  manual says, whose interrupt is taken while \<open>main\<close> waits for room in the transmit buffer, and on which
  nothing arrives meanwhile, \<open>main\<close> reaches its loop. Then the task queues are well formed and hold exactly
  the four tasks it creates, each in a slot of its own with its priority and privilege, in the order
  command line, network, user, idle; no task is running yet and the first context switch starts the command
  line. The heap is one free block, the serial port is the console, the line
  \<open>[boot] ok, sysclk 84MHz, console=usart2\<close> has been sent on it or waits in its transmit buffer, and the SPI
  driver is ready.\<close>

theorem main_starts_system:
  assumes "boot_hw P sent ctl incoming busy arrive D B m" "umem s = m" "kern s = zero_kernel" "registry s = replicate DRIVER_MAX 0"
    "sinks s = [0, 0, 0, 0]" "spi_state s = SPI_ST_UNINIT" "tx_ring_buffer s = clear_ring" "rx_ring_buffer s = clear_ring"
  shows "\<exists>s'. main_init P D B s = Some s' \<and> booted P B (kern s') \<and> system_ticks (kern s') = 0 \<and>
     sinks s' = [usart2_drv B, 0, 0, 0] \<and> spi_state s' = SPI_ST_READY \<and>
     kheap s' = heap_init (heap_start P) (heap_end P - heap_start P) (kheap s) \<and>
     sent (dev s') @ rb_content (tx_ring_buffer s') = sent (dev s) @ boot_line \<and>
     (\<exists>k. pend_sv_handler (kern s') = Some k \<and> current_task k = task_slot (lay P) 0)"
  using boot_hw.main_boots [OF assms] booted_switch [of P B] by blast

theorem main_starts_system_witness:
  "\<exists>s'. main_init board (\<lambda>_. usart2_driver board) board_env board_reset = Some s' \<and> booted board board_env (kern s') \<and>
     sinks s' = [0x08001000, 0, 0, 0] \<and> line (dev s') @ rb_content (tx_ring_buffer s') = boot_line"
  using main_starts_system [OF ex_boot.boot_hw_axioms, of board_reset]
  by (auto simp: board_reset_def idle_machine_def DRIVER_MAX_def board_env_def clear_ring_def)

end
