(* ===== verification/Spec2Isabelle.thy ===== *)
theory Spec2Isabelle
  imports Sleep Semaphore Mutex CLib Ring_Buffer Heap Static_Memory Flash Dhcp_Server Syscall Printf Periph Net_Task Usart Uprintf Cli Boot
begin

text \<open>
  This development models a preemptive kernel for the STM32F446 (Cortex-M4), its drivers and the DHCP
  server that runs on it, and proves that the parts do what they promise, or shows where they do not.
  File names are relative to \<^verbatim>\<open>src/\<close>.

  \<^bold>\<open>The program.\<close> \<^verbatim>\<open>main\<close> initialises pools, heap, clock, console and SPI, creates four tasks and starts the
  tick. The scheduler (\<^verbatim>\<open>source/kernel/scheduler.c\<close>) keeps a ready queue ordered by priority; the tick
  (\<^verbatim>\<open>systick.c\<close>, \<^verbatim>\<open>sleep.c\<close>) wakes sleeping tasks, and PendSV switches tasks. Tasks use the kernel through system
  calls (\<^verbatim>\<open>syscall.c\<close>): semaphores and mutexes with priority inheritance (\<^verbatim>\<open>semaphore.c\<close>), the heap
  (\<^verbatim>\<open>heap.c\<close>), the console (\<^verbatim>\<open>console.c\<close>, \<^verbatim>\<open>driver.c\<close>, \<^verbatim>\<open>kprintf.c\<close>, with the serial port \<^verbatim>\<open>drivers/usart.c\<close> below) and
  the network. A network task (\<^verbatim>\<open>net.c\<close>) serves one request at a time with the driver of the W5500
  (\<^verbatim>\<open>drivers/w5500.c\<close>), which uses SPI (\<^verbatim>\<open>drivers/spi.c\<close>). The user tasks (\<^verbatim>\<open>source/user\<close>) wait for the link and
  run the DHCP server (\<^verbatim>\<open>dhcp.c\<close>), which keeps its leases in a journal in flash (\<^verbatim>\<open>flash.c\<close>). A command line
  (\<^verbatim>\<open>cli.c\<close>) shows the state of the system.

  \<^bold>\<open>The model.\<close> Machine integers are words of their width, pointers 32-bit words. The state of the kernel is
  the record \<open>kernel\<close> (stores of control blocks, semaphores and mutexes by address, the two queues, the
  current task, the tick, the pending bit of PendSV), with linked lists through the fields of the control
  blocks as in the code; the state of everything above it is \<open>machine\<close>, with the byte memory, the heap, the
  ring buffers, the globals of the drivers and the state \<open>'d\<close> of the devices. Objects of different C types
  are in different stores. Every operation of the code is one function, named as in the code, that takes
  the state and returns it; \<open>None\<close> is an access outside an array, a use of NULL or a loop that does not
  end (\<open>partial_function\<close>), and status codes are values. What is fixed outside the C files is an argument: the
  record \<open>platform\<close> has the layout of the arrays, the address of each string literal, the contents of
  uninitialised arrays (\<open>junk\<close>), the hardware as a pair of functions for bus reads and writes, what other
  tasks do while a task is blocked (\<open>others\<close>) and what interrupts do while a task polls (\<open>spin\<close>). Every
  statement holds for all of them, or states what it needs of them as a locale.

  \<^bold>\<open>The theories.\<close>
  \<^item> \<open>Prelude\<close>: linked lists, sorted insertion, words. \<open>CLib\<close>: \<^verbatim>\<open>utils.c\<close>, strings, CRC. \<open>Buffers\<close>: checked arrays.
  \<^item> \<open>Task_Queue\<close>, \<open>Kernel\<close>, \<open>Scheduler\<close>, \<open>Sleep\<close>, \<open>Semaphore\<close>, \<open>Mutex\<close>, \<open>Static_Memory\<close>: the kernel. The invariant
    \<open>kernel_rep k Q\<close> says that the linked queues are the lists \<open>Q\<close>, ordered and disjoint; every operation is
    shown to return and to refine an operation on \<open>Q\<close>. Locale \<open>ordered_task_queue\<close> (interpreted for both kinds
    of queues) and \<open>slot_pool\<close> (for the three pools) are the contracts. \<open>Kernel_Inv\<close> collects that every
    operation keeps the invariant, whatever its arguments.
  \<^item> \<open>Ring_Buffer\<close>, \<open>Heap\<close>: the containers; locale \<open>bounded_fifo\<close>. In \<open>Heap\<close> allocation is exact first fit, and
    freeing refines \<open>give_back\<close> on the list of regions as long as the back links are right, which a split breaks.
  \<^item> \<open>Bus\<close>, \<open>Net_Types\<close>, \<open>Machine\<close>: devices, requests, the machine. \<open>Console\<close>, \<open>Printf\<close>, \<open>Syscall\<close>: drivers and
    console, formatted output (equal to a reference \<open>render\<close>), system calls.
  \<^item> \<open>Periph\<close> (clock, pins, timer, memory protection unit), \<open>Spi\<close>, \<open>W5500\<close>, \<open>W5500_Chip\<close>, \<open>Net_Task\<close>, \<open>Usart\<close>: the
    drivers. Safety and termination are proved for every bus; functional results for devices that behave as
    documented (locales \<open>spi_slave\<close>, \<open>vdm_chip\<close>, \<open>w5500_link\<close>, \<open>uart\<close>, \<open>mpu_hw\<close>, each interpreted by an executable
    device), with flags that lag, hosts that do not answer and bytes lost by overruns. The locales \<open>driver_env\<close>, \<open>net_env\<close>, \<open>net_task_env\<close>, \<open>calm_env\<close> say what a driver needs of the kernel.
  \<^item> \<open>Flash\<close> (locale \<open>journal\<close>, provided by \<open>flash_hw\<close>), \<open>Dhcp_Message\<close>, \<open>Dhcp_Lease\<close>, \<open>Dhcp_Server\<close>: the journal, parser and
    builder of messages, the lease table, and the invariant of a round of the server.
  \<^item> \<open>Uprintf\<close>, \<open>User_Tasks\<close>, \<open>Bench\<close>, \<open>Cli\<close>, \<open>Boot\<close>: output of user tasks, \<^verbatim>\<open>user_main.c\<close> and the task around the
    server, \<^verbatim>\<open>bench.c\<close>, the command line, \<^verbatim>\<open>main.c\<close> and \<^verbatim>\<open>debug_handlers.c\<close>. Locale \<open>cli_terminal\<close> is what the
    command line needs of the console, \<open>boot_hw\<close> what the start needs of the hardware; it extends \<open>usart_env\<close>,
    so that the start prints through the driver of the serial port.
  This theory adds what spans the kernel: a sequence of calls after which an unlock does not return.

  \<^bold>\<open>Properties.\<close> Scheduling: the most urgent task runs, equal priorities take turns, queues are never broken,
  not by any system call whose pointers name what they should or are refused; sleeping tasks are woken at
  their tick. Synchronisation: inheritance along chains of owners, handoff to the most urgent
  waiter, first-in first-out semaphores. Memory: allocation, journal, ring buffer and pools. Drivers: exact
  exchange of frames, datagrams delivered and sent, bytes in order and lost only in the device, errors
  latched and answered. DHCP: no
  packet leads outside a buffer, a live lease has one client, acknowledged leases survive a restart, replies
  parse back. Command line: edited line, dispatch, position in the buffer. Start: from the zeroed memory
  \<^verbatim>\<open>main\<close> establishes the invariant of the kernel with its four tasks queued and its line printed. Negative results are theorems too:
  overlapping allocations, stranded waiters, oversleeping at the wrap of the tick, a cyclic ownership list.

  \<^bold>\<open>Loops and bounds.\<close> Loops over arrays are recursive functions with a measure; loops whose end depends on
  memory or hardware are \<open>partial_function\<close>s and shown to return where they do. Polling loops have the limits of
  the code. The endless loops of the tasks run for a number of rounds that is an argument (\<open>net_rounds\<close>,
  \<open>cli_rounds\<close>, \<open>relay\<close>) or are given by their round (\<open>dhcp_task_round\<close>), and statements are about every round.

  \<^bold>\<open>Not modelled.\<close> Assembly (start-up, exception entries, saving of registers) and the linker script: what they
  hand to the C code is an argument. The two calls of the context switch that only set registers are not part
  of \<open>pend_sv_handler\<close> but modelled by themselves (\<open>mpu_switch_to_task\<close>, \<open>task_set_privilege\<close>); with no task at
  all, when the code would switch to NULL, it changes nothing, which cannot happen once the idle task is
  queued. Interleaving is at system calls, busy waiting and interrupts of the
  serial port (\<open>interrupts\<close>: none return once the receive side is stuck), not between any two instructions; sections with interrupts disabled are atomic. The timing of
  the hardware, and the \<^verbatim>\<open>BENCH_IRQ\<close> measurement in \<^verbatim>\<open>arm.c\<close>. Headers with register addresses only count where a
  definition uses them; empty handlers, the idle task and accessors that return the address of a global
  have no definition.
\<close>

section \<open>A lost ownership list makes the kernel hang\<close>

text \<open>
  From the example state of the mutexes: task \<open>0x100\<close> hands the mutex \<open>0x10\<close> to task \<open>0x200\<close>, which runs,
  releases \<open>0x20\<close> and sleeps; task \<open>0x100\<close> then locks \<open>0x20\<close>, which its corrupted list already holds, and
  \<open>0x30\<close>.
\<close>

definition hang_run :: "kernel option" where
  "hang_run = do {
     (r, k) \<leftarrow> mutex_unlock 0x10 ex_mutex;
     k \<leftarrow> pend_sv_handler k;
     (r, k) \<leftarrow> mutex_unlock 0x20 k;
     k \<leftarrow> sleep_for_ticks 100 k;
     k \<leftarrow> pend_sv_handler k;
     (r, k) \<leftarrow> mutex_lock 0x20 k;
     (r, k) \<leftarrow> mutex_lock 0x30 k;
     Some k
   }"

lemma hang_run_state:
  "map_option (\<lambda>k. (current_task k, owned_mutexes (tcbs k 0x100), mutex_owner (mutexes k 0x30),
       q_head (mutex_wait_queue (mutexes k 0x30)), next_owned (mutexes k 0x30), next_owned (mutexes k 0x20)))
     hang_run = Some (0x100, 0x30, 0x100, 0, 0x20, 0x20)"
  by code_simp

text \<open>C7: The inconsistent lists of a handoff can become cyclic: after a legal sequence of calls, an
  unlock by the owner never returns, because the recalculation of its priority follows a list that
  leads back to itself.\<close>

theorem mutex_unlock_hangs: "\<exists>k. hang_run = Some k \<and> mutex_unlock 0x30 k = None"
proof -
  obtain k where k: "hang_run = Some k" "current_task k = 0x100" "owned_mutexes (tcbs k 0x100) = 0x30"
    "mutex_owner (mutexes k 0x30) = 0x100" "q_head (mutex_wait_queue (mutexes k 0x30)) = 0"
    "next_owned (mutexes k 0x30) = 0x20" "next_owned (mutexes k 0x20) = 0x20"
    using hang_run_state by auto
  then have "release 0x30 (upd_mutex 0x30 (\<lambda>x. x\<lparr>mutex_owner := 0\<rparr>) k) = None"
    by (simp add: release_def mutex_queue_remove_def task_recalculate_priority_def recalculate_cycle
        set_owned_def Let_def)
  with k mutex_unlock_none [of k "0x30"] have "mutex_unlock 0x30 k = None" by simp
  with k(1) show ?thesis by blast
qed

end
